(* ===== verification/Kube_Prelude.thy ===== *)
theory Kube_Prelude
  imports Complex_Main "HOL-Library.AList" "HOL-Library.Char_ord" "HOL-Library.List_Lexorder"
    "HOL-Library.Product_Lexorder" "HOL-Library.Multiset" "HOL-Library.Sublist"
begin

text \<open>
  What every component theory of the kubeagent development shares:
  \<^item> Go's \<open>time.Time\<close> and \<open>time.Duration\<close> as integers of nanoseconds, with the saturating
    \<open>Sub\<close> of the standard library;
  \<^item> Go maps as association lists: the order of the list is the iteration order the runtime
    happened to choose, so a theorem about every list is a theorem about every order;
  \<^item> \<open>sort.Slice\<close> and \<open>sort.SliceStable\<close> as insertion sort by the comparator the code passes,
    with the locale \<open>slice_less\<close> for what a comparator has to satisfy;
  \<^item> decimal printing and parsing (\<open>strconv.Itoa\<close>, \<open>strconv.Atoi\<close>);
  \<^item> the locale \<open>reconcile_loop\<close> for the daemon's state machines, whose only promise is an
    invariant that each step keeps.
\<close>

named_theorems go_simps "unfolding rules for the small Go library operations"
named_theorems order_facts "comparators proved to be strict weak orders"

section \<open>Time\<close>

text \<open>
  An instant is the number of nanoseconds since Go's zero time (1 January of year 1, UTC), so that
  \<open>time.Time{}\<close> is 0 and \<open>IsZero\<close> is equality with 0. A duration is a number of nanoseconds.
  \<open>time.Time.Sub\<close> saturates at the bounds of an int64 instead of wrapping.
\<close>

type_synonym time = int
type_synonym duration = int

definition max_duration :: duration where
  "max_duration = 9223372036854775807"

definition min_duration :: duration where
  "min_duration = - 9223372036854775808"

definition time_sub :: "time \<Rightarrow> time \<Rightarrow> duration" where
  "time_sub t u = max min_duration (min max_duration (t - u))"

definition is_zero_time :: "time \<Rightarrow> bool" where
  "is_zero_time t \<longleftrightarrow> t = 0"

definition second :: duration where
  "second = 1000000000"

definition minute :: duration where
  "minute = 60 * second"

definition hour :: duration where
  "hour = 60 * minute"

text \<open>\<open>time.Duration.Seconds\<close>, exact instead of rounded to a float64.\<close>

definition seconds :: "duration \<Rightarrow> rat" where
  "seconds d = of_int d / of_int second"

lemmas time_units = second_def minute_def hour_def

lemma time_sub_exact:
  "min_duration \<le> t - u \<Longrightarrow> t - u \<le> max_duration \<Longrightarrow> time_sub t u = t - u"
  by (simp add: time_sub_def)

lemma time_sub_mono: "t \<le> t' \<Longrightarrow> time_sub t u \<le> time_sub t' u"
  by (auto simp: time_sub_def)

lemma time_sub_same [simp]: "time_sub t t = 0"
  by (simp add: time_sub_def max_duration_def min_duration_def)

lemma seconds_mono: "d \<le> e \<Longrightarrow> seconds d \<le> seconds e"
  by (simp add: seconds_def second_def divide_right_mono)

lemma seconds_pos_iff: "0 < seconds d \<longleftrightarrow> 0 < d"
  by (simp add: seconds_def second_def)

lemma time_sub_le: "t \<ge> u \<Longrightarrow> time_sub t u \<le> t - u"
  by (auto simp: time_sub_def max_duration_def min_duration_def)

lemma time_sub_le_iff:
  "d < max_duration \<Longrightarrow> min_duration \<le> d \<Longrightarrow> time_sub t u \<le> d \<longleftrightarrow> t - u \<le> d"
  by (auto simp: time_sub_def max_def min_def)

lemma time_sub_ge_iff:
  "d \<le> max_duration \<Longrightarrow> min_duration < d \<Longrightarrow> d \<le> time_sub t u \<longleftrightarrow> d \<le> t - u"
  by (auto simp: time_sub_def max_def min_def)

section \<open>Maps\<close>

type_synonym ('k, 'v) gomap = "('k \<times> 'v) list"

abbreviation mget :: "('k, 'v) gomap \<Rightarrow> 'k \<Rightarrow> 'v option" where
  "mget \<equiv> map_of"

abbreviation mput :: "'k \<Rightarrow> 'v \<Rightarrow> ('k, 'v) gomap \<Rightarrow> ('k, 'v) gomap" where
  "mput \<equiv> AList.update"

abbreviation mdel :: "'k \<Rightarrow> ('k, 'v) gomap \<Rightarrow> ('k, 'v) gomap" where
  "mdel \<equiv> AList.delete"

abbreviation mkeys :: "('k, 'v) gomap \<Rightarrow> 'k list" where
  "mkeys m \<equiv> map fst m"

definition mok :: "('k, 'v) gomap \<Rightarrow> bool" where
  "mok m \<longleftrightarrow> distinct (mkeys m)"

text \<open>Reading a missing key gives the zero value of the value type.\<close>

definition mget_zero :: "'v \<Rightarrow> ('k, 'v) gomap \<Rightarrow> 'k \<Rightarrow> 'v" where
  "mget_zero z m k = (case mget m k of None \<Rightarrow> z | Some v \<Rightarrow> v)"

text \<open>The loop that deletes the entries a predicate picks, over a list of entries.\<close>

lemma fold_mdel:
  "fold (\<lambda>(k, r) m. if Q k r then mdel k m else m) xs m =
   filter (\<lambda>e. \<not> (\<exists>r. (fst e, r) \<in> set xs \<and> Q (fst e) r)) m"
proof (induction xs arbitrary: m)
  case (Cons x xs)
  obtain a b where x: "x = (a, b)" by (cases x)
  show ?case
  proof (cases "Q a b")
    case True
    then show ?thesis by (auto simp: x Cons AList.delete_eq intro!: filter_cong)
  next
    case False
    then show ?thesis by (auto simp: x Cons intro!: filter_cong)
  qed
qed simp

text \<open>The interface of a map, and that association lists with distinct keys provide it.\<close>

locale keyed_store =
  fixes empty :: "'m"
    and get :: "'m \<Rightarrow> 'k \<Rightarrow> 'v option"
    and put :: "'k \<Rightarrow> 'v \<Rightarrow> 'm \<Rightarrow> 'm"
    and del :: "'k \<Rightarrow> 'm \<Rightarrow> 'm"
    and entries :: "'m \<Rightarrow> ('k \<times> 'v) list"
    and ok :: "'m \<Rightarrow> bool"
  assumes get_empty: "get empty k = None"
    and get_put: "get (put k v m) k' = (if k' = k then Some v else get m k')"
    and get_del: "ok m \<Longrightarrow> get (del k m) k' = (if k' = k then None else get m k')"
    and entries_get: "ok m \<Longrightarrow> (k, v) \<in> set (entries m) \<longleftrightarrow> get m k = Some v"
    and entries_distinct: "ok m \<Longrightarrow> distinct (map fst (entries m))"
    and ok_empty: "ok empty"
    and ok_put: "ok m \<Longrightarrow> ok (put k v m)"
    and ok_del: "ok m \<Longrightarrow> ok (del k m)"
begin

lemma entry_unique:
  assumes "ok m" and "(k, v) \<in> set (entries m)" and "(k, w) \<in> set (entries m)"
  shows "v = w"
  using assms entries_get by fastforce

lemma entries_put:
  assumes "ok m"
  shows "set (entries (put k v m)) = insert (k, v) {e \<in> set (entries m). fst e \<noteq> k}"
proof -
  have "e \<in> set (entries (put k v m)) \<longleftrightarrow> e \<in> insert (k, v) {e \<in> set (entries m). fst e \<noteq> k}" for e
    by (cases e) (auto simp: entries_get assms ok_put get_put split: if_splits)
  then show ?thesis by blast
qed

lemma entries_del:
  assumes "ok m"
  shows "set (entries (del k m)) = {e \<in> set (entries m). fst e \<noteq> k}"
proof -
  have "e \<in> set (entries (del k m)) \<longleftrightarrow> e \<in> {e \<in> set (entries m). fst e \<noteq> k}" for e
    by (cases e) (auto simp: entries_get assms ok_del get_del split: if_splits)
  then show ?thesis by blast
qed

lemma length_entries:
  assumes "ok m"
  shows "length (entries m) = card (fst ` set (entries m))"
  using entries_distinct [OF assms] distinct_card [of "map fst (entries m)"] by simp

lemma length_entries_put:
  assumes "ok m"
  shows "length (entries (put k v m)) =
    (if get m k = None then Suc (length (entries m)) else length (entries m))"
proof -
  have img: "fst ` set (entries (put k v m)) = insert k (fst ` set (entries m))"
    by (auto simp: entries_put [OF assms] image_iff)
  have "k \<in> fst ` set (entries m) \<longleftrightarrow> get m k \<noteq> None"
    using entries_get [OF assms] by force
  then show ?thesis
    by (simp add: length_entries assms ok_put img card_insert_if)
qed

end

interpretation gm: keyed_store "[]" map_of AList.update AList.delete "\<lambda>m. m" mok
proof unfold_locales
  fix m :: "('a, 'b) gomap" and k v
  assume "mok m"
  then show "(k, v) \<in> set m \<longleftrightarrow> map_of m k = Some v"
    by (simp add: mok_def)
qed (auto simp: mok_def AList.update_conv' AList.delete_conv' AList.distinct_update
    AList.distinct_delete)

lemma mget_mput [simp]: "mget (mput k v m) k' = (if k' = k then Some v else mget m k')"
  by (rule gm.get_put)

lemma mget_mdel [simp]: "mget (mdel k m) k' = (if k' = k then None else mget m k')"
  by (simp add: AList.delete_conv')

lemma mget_zero_mput [simp]: "mget_zero z (mput k v m) k' = (if k' = k then v else mget_zero z m k')"
  by (simp add: mget_zero_def)

lemma mget_zero_mdel [simp]: "mget_zero z (mdel k m) k' = (if k' = k then z else mget_zero z m k')"
  by (simp add: mget_zero_def)

lemma mok_mput [simp]: "mok m \<Longrightarrow> mok (mput k v m)"
  by (rule gm.ok_put)

lemma mok_mdel [simp]: "mok m \<Longrightarrow> mok (mdel k m)"
  by (rule gm.ok_del)

lemma mok_Nil [simp]: "mok []"
  by (rule gm.ok_empty)

lemma mok_Cons [simp]: "mok (e # m) \<longleftrightarrow> fst e \<notin> fst ` set m \<and> mok m"
  by (cases e) (auto simp: mok_def)

lemma mok_map_snd: "mok m \<Longrightarrow> mok (map (\<lambda>(k, v). (k, f k v)) m)"
  by (induction m) (auto simp: image_iff)

lemma mok_filter: "mok m \<Longrightarrow> mok (filter P m)"
  by (auto simp: mok_def intro: distinct_map_filter)

lemma mget_map_snd:
  "mget (map (\<lambda>(k, v). (k, f k v)) m) k = map_option (f k) (mget m k)"
  by (induction m) auto

lemma mget_filter:
  "mok m \<Longrightarrow> mget (filter P m) k = (case mget m k of None \<Rightarrow> None
     | Some v \<Rightarrow> if P (k, v) then Some v else None)"
proof (induction m)
  case (Cons e m)
  have "mget (filter P m) (fst e) = None" if "fst e \<notin> fst ` set m"
    using that by (auto simp: map_of_eq_None_iff)
  with Cons show ?case by (cases e) (auto simp: map_of_eq_None_iff split: option.splits)
qed simp

lemma mget_in_set: "mget m k = Some v \<Longrightarrow> (k, v) \<in> set m"
  by (rule map_of_SomeD)

lemma in_set_mget: "mok m \<Longrightarrow> (k, v) \<in> set m \<longleftrightarrow> mget m k = Some v"
  by (rule gm.entries_get)

lemma mget_fold_mput:
  "mok xs \<Longrightarrow> mget (fold (\<lambda>(k, v). mput k (f k v)) xs m) k =
    (case mget xs k of None \<Rightarrow> mget m k | Some v \<Rightarrow> Some (f k v))"
proof (induction xs arbitrary: m)
  case (Cons e xs)
  obtain k' v where [simp]: "e = (k', v)" by (cases e)
  have "mget xs k' = None" using Cons.prems by (simp add: map_of_eq_None_iff)
  with Cons show ?case by (auto split: option.split)
qed simp

lemma mok_fold_mput: "mok m \<Longrightarrow> mok (fold (\<lambda>(k, v). mput k (f k v)) xs m)"
  by (induction xs arbitrary: m) (auto split: prod.split)

lemma mkeys_mget: "set (mkeys m) = {k. mget m k \<noteq> None}"
  by (simp only: map_of_eq_None_iff set_map not_not Collect_mem_eq)

text \<open>How many entries satisfy a predicate, before and after one \<open>mput\<close>.\<close>

definition mcount :: "('v \<Rightarrow> bool) \<Rightarrow> ('k, 'v) gomap \<Rightarrow> nat" where
  "mcount P m = length (filter (\<lambda>e. P (snd e)) m)"

lemma mcount_Nil [simp]: "mcount P [] = 0"
  by (simp add: mcount_def)

lemma mcount_Cons [simp]: "mcount P (e # m) = (if P (snd e) then 1 else 0) + mcount P m"
  by (simp add: mcount_def)

lemma mcount_mput:
  "mok m \<Longrightarrow> mcount P (mput k v m) + (case mget m k of None \<Rightarrow> 0 | Some w \<Rightarrow> if P w then 1 else 0) =
     mcount P m + (if P v then 1 else 0)"
  by (induction m) (auto simp: map_of_eq_None_iff split: option.splits)

lemma mcount_mput_eq:
  "mok m \<Longrightarrow> mcount P (mput k v m) =
     mcount P m + (if P v then 1 else 0) - (case mget m k of None \<Rightarrow> 0 | Some w \<Rightarrow> if P w then 1 else 0)"
  using mcount_mput [of m P k v] by linarith

lemma mcount_mdel:
  "mok m \<Longrightarrow> mcount P (mdel k m) + (case mget m k of None \<Rightarrow> 0 | Some w \<Rightarrow> if P w then 1 else 0) =
     mcount P m"
proof (induction m)
  case (Cons e m)
  have "mdel k m = m" if "k \<notin> fst ` set m"
    using that by (metis AList.delete_id)
  with Cons show ?case by (cases e) (auto simp: map_of_eq_None_iff split: option.splits)
qed simp

lemma mcount_filter:
  "(\<And>k v. (k, v) \<in> set m \<Longrightarrow> P v \<Longrightarrow> Q (k, v)) \<Longrightarrow> mcount P (filter Q m) = mcount P m"
  by (induction m) (auto split: prod.splits)

text \<open>The sum of a measure over the values, before and after one \<open>mput\<close>.\<close>

definition msum :: "('v \<Rightarrow> 'm) \<Rightarrow> ('k, 'v) gomap \<Rightarrow> 'm::comm_monoid_add" where
  "msum g m = sum_list (map (g \<circ> snd) m)"

lemma msum_simps [simp]: "msum g [] = 0" "msum g (e # m) = g (snd e) + msum g m"
  by (simp_all add: msum_def)

lemma msum_mput:
  "mok m \<Longrightarrow> msum g (mput k v m) + (case mget m k of None \<Rightarrow> 0 | Some w \<Rightarrow> g w) = msum g m + g v"
  by (induction m) (auto simp: map_of_eq_None_iff ac_simps split: option.splits)

lemma msum_zero: "(\<And>k v. (k, v) \<in> set m \<Longrightarrow> g v = 0) \<Longrightarrow> msum g m = 0"
proof (induction m)
  case (Cons e m)
  then have "g (snd e) = 0" "msum g m = 0" by (metis list.set_intros(1) prod.collapse, auto)
  then show ?case by simp
qed simp

lemma length_mput: "mok m \<Longrightarrow> length (mput k v m) = (if mget m k = None then Suc (length m) else length m)"
  by (rule gm.length_entries_put)

lemma length_mdel_le: "length (mdel k m) \<le> length m"
  by (rule AList.length_delete_le)

section \<open>Sorting by a comparator\<close>

text \<open>
  \<open>sort.SliceStable\<close> inserts every element before the first one it is not greater than,
  counting from the right, which is a stable sort by the comparator. \<open>sort.Slice\<close> promises the same order
  but not which of two equivalent elements comes first; where the code uses it the model takes the
  stable outcome, and the lemma \<open>sort_perm\<close> of the locale \<open>slice_total\<close> says that the outcome is the same for every
  input order as soon as no two different elements are equivalent.
\<close>

fun insert_by :: "('a \<Rightarrow> 'a \<Rightarrow> bool) \<Rightarrow> 'a \<Rightarrow> 'a list \<Rightarrow> 'a list" where
  "insert_by lt x [] = [x]"
| "insert_by lt x (y # ys) = (if lt y x then y # insert_by lt x ys else x # y # ys)"

definition sort_slice :: "('a \<Rightarrow> 'a \<Rightarrow> bool) \<Rightarrow> 'a list \<Rightarrow> 'a list" where
  "sort_slice lt xs = foldr (insert_by lt) xs []"

lemma sort_slice_simps [simp]:
  "sort_slice lt [] = []"
  "sort_slice lt (x # xs) = insert_by lt x (sort_slice lt xs)"
  by (simp_all add: sort_slice_def)

lemma mset_insert_by [simp]: "mset (insert_by lt x xs) = add_mset x (mset xs)"
  by (induction xs) auto

lemma mset_sort_slice [simp]: "mset (sort_slice lt xs) = mset xs"
  by (induction xs) auto

lemma set_sort_slice [simp]: "set (sort_slice lt xs) = set xs"
  by (rule mset_eq_setD) simp

lemma length_sort_slice [simp]: "length (sort_slice lt xs) = length xs"
  by (metis mset_sort_slice size_mset)

lemma distinct_sort_slice [simp]: "distinct (sort_slice lt xs) = distinct xs"
  by (rule mset_eq_imp_distinct_iff) simp

lemma sort_slice_eq_Nil [simp]: "sort_slice lt xs = [] \<longleftrightarrow> xs = []"
  by (metis length_0_conv length_sort_slice)

lemma sort_slice_filter_image:
  "mset (map f (filter P (sort_slice lt xs))) = mset (map f (filter P xs))"
  by (simp add: mset_filter)

lemma sort_slice_map:
  "(\<And>a b. lt (f a) (f b) = lt' a b) \<Longrightarrow> sort_slice lt (map f xs) = map f (sort_slice lt' xs)"
proof (induction xs)
  case (Cons x xs)
  have "insert_by lt (f x) (map f ys) = map f (insert_by lt' x ys)" for ys
    by (induction ys) (auto simp: Cons.prems)
  with Cons show ?case by simp
qed simp

text \<open>What \<open>package sort\<close> asks of a comparator: it is a strict weak order.\<close>

locale slice_less =
  fixes lt :: "'a \<Rightarrow> 'a \<Rightarrow> bool"
  assumes asym: "lt a b \<Longrightarrow> \<not> lt b a"
    and weak_trans: "\<not> lt b a \<Longrightarrow> \<not> lt c b \<Longrightarrow> \<not> lt c a"
begin

lemma insert_sorted:
  "sorted_wrt (\<lambda>a b. \<not> lt b a) xs \<Longrightarrow> sorted_wrt (\<lambda>a b. \<not> lt b a) (insert_by lt x xs)"
proof (induction xs)
  case (Cons y ys)
  have "set (insert_by lt x ys) = insert x (set ys)"
    by (metis mset_insert_by set_mset_add_mset_insert set_mset_mset)
  with Cons show ?case by (auto dest: asym) (meson weak_trans)
qed simp

lemma sort_sorted: "sorted_wrt (\<lambda>a b. \<not> lt b a) (sort_slice lt xs)"
  by (induction xs) (auto simp: insert_sorted)

lemma insert_filter:
  assumes "\<And>b. b \<in> set ys \<Longrightarrow> P b \<Longrightarrow> P x \<Longrightarrow> \<not> lt b x"
  shows "filter P (insert_by lt x ys) = filter P (x # ys)"
  using assms by (induction ys) auto

text \<open>Stability: elements equivalent to \<open>a\<close> keep their order.\<close>

lemma sort_stable:
  "filter (\<lambda>b. \<not> lt a b \<and> \<not> lt b a) (sort_slice lt xs) =
   filter (\<lambda>b. \<not> lt a b \<and> \<not> lt b a) xs"
proof (induction xs)
  case (Cons x xs)
  have "filter (\<lambda>b. \<not> lt a b \<and> \<not> lt b a) (insert_by lt x (sort_slice lt xs)) =
    filter (\<lambda>b. \<not> lt a b \<and> \<not> lt b a) (x # sort_slice lt xs)"
    by (rule insert_filter) (meson weak_trans)
  with Cons show ?case by simp
qed simp

end

text \<open>A comparator that tells any two different elements apart: the order is total.\<close>

locale slice_total = slice_less +
  assumes total: "\<not> lt a b \<Longrightarrow> \<not> lt b a \<Longrightarrow> a = b"
begin

lemma sorted_unique:
  "mset xs = mset ys \<Longrightarrow> sorted_wrt (\<lambda>a b. \<not> lt b a) xs \<Longrightarrow>
   sorted_wrt (\<lambda>a b. \<not> lt b a) ys \<Longrightarrow> xs = ys"
proof (induction xs arbitrary: ys)
  case (Cons x xs)
  then obtain y ys' where ys: "ys = y # ys'" by (cases ys) auto
  have "x \<in> set ys" and "y \<in> set (x # xs)"
    using Cons.prems(1) ys by (metis list.set_intros(1) mset_eq_setD)+
  then have "\<not> lt y x" "\<not> lt x y"
    using Cons.prems(2,3) ys by (auto dest: asym)
  then have "x = y" by (rule total [symmetric])
  with Cons ys show ?case by auto
qed simp

lemma sort_perm: "mset xs = mset ys \<Longrightarrow> sort_slice lt xs = sort_slice lt ys"
  by (rule sorted_unique) (simp_all add: sort_sorted)

end

text \<open>
  The comparators of the code compare a few fields one after another: they are pullbacks of a
  linear order along a key, and \<open>slice_less\<close> holds for each of them.
\<close>

definition key_less :: "('a \<Rightarrow> 'b::linorder) \<Rightarrow> 'a \<Rightarrow> 'a \<Rightarrow> bool" where
  "key_less key a b \<longleftrightarrow> key a < key b"

lemma lex_less:
  fixes a c :: "'a::linorder" and b d :: "'b::linorder"
  shows "(a, b) < (c, d) \<longleftrightarrow> (if a \<noteq> c then a < c else b < d)"
  by (auto simp: less_prod_def)

interpretation kl: slice_less "key_less key" for key :: "'a \<Rightarrow> 'b::linorder"
  by unfold_locales (auto simp: key_less_def)

interpretation kid: slice_total "(<) :: 'a::linorder \<Rightarrow> 'a \<Rightarrow> bool"
  by unfold_locales auto

lemma slice_lessI:
  assumes "\<And>a b. lt a b \<longleftrightarrow> key a < (key b :: 'b::linorder)"
  shows "slice_less lt"
  by unfold_locales (auto simp: assms)

lemma key_sorted_iff:
  "sorted_wrt (\<lambda>a b. \<not> key_less key b a) xs \<longleftrightarrow> sorted (map key xs)"
  by (induction xs) (auto simp: key_less_def not_less)

lemma sort_slice_key: "sort_slice (key_less key) xs = sort_key key xs"
proof -
  have "insert_by (key_less key) x ys = insort_key key x ys" for x ys
    by (induction ys) (auto simp: key_less_def not_less)
  then show ?thesis by (induction xs) auto
qed

text \<open>The first element of a sorted slice is a least one.\<close>

lemma sort_slice_hd:
  assumes "sort_slice (key_less key) xs = y # ys"
  shows "y \<in> set xs \<and> (\<forall>x\<in>set xs. key y \<le> key x)"
proof -
  have "sorted (map key (y # ys))"
    using kl.sort_sorted [of key xs] assms by (simp only: key_sorted_iff)
  moreover have "set (y # ys) = set xs" by (metis assms set_sort_slice)
  ultimately show ?thesis by auto
qed

text \<open>Where the key tells the elements apart, the order they came in does not matter.\<close>

lemma sort_slice_inj:
  assumes "mset xs = mset ys" and "inj_on key (set xs)"
  shows "sort_slice (key_less key) xs = sort_slice (key_less key) ys"
  unfolding sort_slice_key using assms
  by (intro sort_key_inj_key_eq) simp_all

lemma in_map_filter: "y \<in> set (List.map_filter g xs) \<longleftrightarrow> (\<exists>x\<in>set xs. g x = Some y)"
  by (auto simp: List.map_filter_def) (metis (mono_tags, lifting) image_eqI mem_Collect_eq option.sel option.distinct(1))

lemma sorted_first: "sorted (map (\<lambda>x. (f x, g x)) xs) \<Longrightarrow> sorted (map (\<lambda>x. f x) xs)"
  by (induction xs) (auto simp: less_eq_prod_def)

section \<open>Decimal numbers\<close>

fun show_nat :: "nat \<Rightarrow> string" where
  "show_nat n = (if n < 10 then [char_of (48 + n)]
     else show_nat (n div 10) @ [char_of (48 + n mod 10)])"

declare show_nat.simps [simp del]

definition itoa :: "int \<Rightarrow> string" where
  "itoa i = (if i < 0 then ''-'' @ show_nat (nat (- i)) else show_nat (nat i))"

definition is_digit :: "char \<Rightarrow> bool" where
  "is_digit c \<longleftrightarrow> 48 \<le> (of_char c :: nat) \<and> (of_char c :: nat) \<le> 57"

fun digits_val :: "nat \<Rightarrow> string \<Rightarrow> nat option" where
  "digits_val acc [] = Some acc"
| "digits_val acc (c # cs) =
     (if is_digit c then digits_val (10 * acc + (of_char c - 48)) cs else None)"

text \<open>\<open>strconv.Atoi\<close> (64-bit): an optional sign, at least one digit, and the value in range.\<close>

definition atoi :: "string \<Rightarrow> int option" where
  "atoi s =
    (let (neg, ds) = (case s of [] \<Rightarrow> (False, [])
        | c # cs \<Rightarrow> if c = CHR ''-'' then (True, cs)
                    else if c = CHR ''+'' then (False, cs) else (False, s))
     in if ds = [] then None
        else case digits_val 0 ds of None \<Rightarrow> None
        | Some n \<Rightarrow> (let v = (if neg then - int n else int n)
            in if - (2 ^ 63) \<le> v \<and> v < 2 ^ 63 then Some v else None))"

lemma of_char_digit [simp]: "n < 10 \<Longrightarrow> (of_char (char_of (48 + n) :: char) :: nat) = 48 + n"
  by (simp add: of_char_of)

lemma digits_val_append:
  "digits_val acc (xs @ ys) = (case digits_val acc xs of None \<Rightarrow> None | Some a \<Rightarrow> digits_val a ys)"
  by (induction xs arbitrary: acc) auto

lemma digits_val_show_nat: "digits_val 0 (show_nat n) = Some n"
proof (induction n rule: show_nat.induct)
  case (1 n)
  have digit: "digits_val acc [char_of (48 + k)] = Some (10 * acc + k)" if "k < 10" for acc k :: nat
    using that by (simp add: is_digit_def)
  show ?case
  proof (cases "n < 10")
    case True
    then show ?thesis using digit [of n 0] by (subst show_nat.simps) simp
  next
    case False
    then have "digits_val 0 (show_nat n) = Some (10 * (n div 10) + n mod 10)"
      using 1 digit [of "n mod 10" "n div 10"]
      by (subst show_nat.simps) (simp only: if_False digits_val_append option.case, simp)
    then show ?thesis by simp
  qed
qed

lemma show_nat_hd: "\<exists>c cs. show_nat n = c # cs \<and> is_digit c"
proof (induction n rule: show_nat.induct)
  case (1 n)
  show ?case
  proof (cases "n < 10")
    case True
    then show ?thesis by (subst show_nat.simps) (simp add: is_digit_def)
  next
    case False
    with 1 show ?thesis by (subst show_nat.simps) auto
  qed
qed

lemma atoi_itoa:
  assumes "- (2 ^ 63) \<le> i" and "i < 2 ^ 63"
  shows "atoi (itoa i) = Some i"
proof (cases "i < 0")
  case True
  obtain c cs where "show_nat (nat (- i)) = c # cs" using show_nat_hd by blast
  with True assms digits_val_show_nat [of "nat (- i)"] show ?thesis
    by (simp add: atoi_def itoa_def)
next
  case False
  obtain c cs where cs: "show_nat (nat i) = c # cs" "is_digit c" using show_nat_hd by blast
  then have "c \<noteq> CHR ''-''" "c \<noteq> CHR ''+''" by (auto simp: is_digit_def)
  with cs False assms digits_val_show_nat [of "nat i"] show ?thesis
    by (simp add: atoi_def itoa_def)
qed

text \<open>
  \<open>time.Duration.Truncate(time.Second)\<close> and \<open>time.Duration.String\<close> for the whole seconds it leaves.
\<close>

definition trunc_second :: "duration \<Rightarrow> duration" where
  "trunc_second d = (if d < 0 then - ((- d) div second * second) else d div second * second)"

definition duration_string :: "duration \<Rightarrow> string" where
  "duration_string d =
    (let s = \<bar>d\<bar> div second;
         body = (if s < 60 then itoa s @ ''s''
                 else if s < 3600 then itoa (s div 60) @ ''m'' @ itoa (s mod 60) @ ''s''
                 else itoa (s div 3600) @ ''h'' @ itoa (s div 60 mod 60) @ ''m'' @ itoa (s mod 60) @ ''s'')
     in if d < 0 then ''-'' @ body else body)"

section \<open>Panics\<close>

text \<open>
  A call that may panic (an index or a slice bound out of range). Code that cannot panic is
  modelled by a plain function.
\<close>

datatype 'a go = Return 'a | Panic

fun go_bind :: "'a go \<Rightarrow> ('a \<Rightarrow> 'b go) \<Rightarrow> 'b go" where
  "go_bind (Return x) f = f x"
| "go_bind Panic f = Panic"

lemma go_bind_Return: "go_bind m f = Return y \<longleftrightarrow> (\<exists>x. m = Return x \<and> f x = Return y)"
  by (cases m) auto

fun go_map :: "('a \<Rightarrow> 'b go) \<Rightarrow> 'a list \<Rightarrow> 'b list go" where
  "go_map f [] = Return []"
| "go_map f (x # xs) = go_bind (f x) (\<lambda>y. go_bind (go_map f xs) (\<lambda>ys. Return (y # ys)))"

fun returned :: "'a go \<Rightarrow> 'a" where
  "returned (Return x) = x"
| "returned Panic = undefined"

lemma go_map_eq:
  "go_map f xs = (if \<exists>x\<in>set xs. f x = Panic then Panic else Return (map (\<lambda>x. returned (f x)) xs))"
proof (induction xs)
  case (Cons x xs)
  then show ?case by (cases "f x") auto
qed simp

lemma go_map_Return: "(\<And>x. x \<in> set xs \<Longrightarrow> f x = Return (g x)) \<Longrightarrow> go_map f xs = Return (map g xs)"
  by (induction xs) auto

lemma go_map_ReturnD:
  "go_map f xs = Return ys \<Longrightarrow> list_all2 (\<lambda>x y. f x = Return y) xs ys"
  by (induction xs arbitrary: ys) (auto simp: go_bind_Return)

section \<open>State machines of the daemon\<close>

text \<open>
  A reconcile loop feeds events to a component one after another. What the component promises is
  an invariant of its start state that each step keeps; it then holds after every sequence of
  events.
\<close>

locale reconcile_loop =
  fixes step :: "'e \<Rightarrow> 's \<Rightarrow> 's"
    and start :: "'s"
    and inv :: "'s \<Rightarrow> bool"
  assumes inv_start: "inv start"
    and inv_step: "inv s \<Longrightarrow> inv (step e s)"
begin

lemma inv_fold: "inv s \<Longrightarrow> inv (fold step es s)"
  by (induction es arbitrary: s) (auto simp: inv_step)

lemma inv_run: "inv (fold step es start)"
  by (rule inv_fold) (rule inv_start)

end

section \<open>Small list facts\<close>

lemma find_Some_split:
  "find P xs = Some x \<longleftrightarrow> (\<exists>us vs. xs = us @ x # vs \<and> P x \<and> (\<forall>u\<in>set us. \<not> P u))"
proof (induction xs)
  case (Cons a xs)
  show ?case
  proof (cases "P a")
    case True
    then show ?thesis by (auto simp: Cons_eq_append_conv)
  next
    case False
    have "(\<exists>us vs. a # xs = us @ x # vs \<and> P x \<and> (\<forall>u\<in>set us. \<not> P u)) \<longleftrightarrow>
      (\<exists>us vs. xs = us @ x # vs \<and> P x \<and> (\<forall>u\<in>set us. \<not> P u))" (is "?l \<longleftrightarrow> ?r")
    proof
      assume ?l then show ?r using False by (auto simp: Cons_eq_append_conv)
    next
      assume ?r
      then obtain us vs where "xs = us @ x # vs" "P x" "\<forall>u\<in>set us. \<not> P u" by blast
      then show ?l using False by (intro exI [of _ "a # us"] exI [of _ vs]) auto
    qed
    with False Cons show ?thesis by simp
  qed
qed simp

lemma length_filter_partition:
  "length (filter P xs) + length (filter (\<lambda>x. \<not> P x) xs) = length xs"
  by (induction xs) auto

lemma map_filter_cong:
  "(\<And>x. x \<in> set xs \<Longrightarrow> f x = g x) \<Longrightarrow> List.map_filter f xs = List.map_filter g xs"
  by (induction xs) (auto split: option.split)

lemma set_map_filter: "set (List.map_filter f xs) = {y. \<exists>x\<in>set xs. f x = Some y}"
  by (induction xs) (auto split: option.splits)

lemma fold_inv:
  assumes "\<And>x s. x \<in> set xs \<Longrightarrow> P s \<Longrightarrow> P (f x s)" and "P s"
  shows "P (fold f xs s)"
  using assms by (induction xs arbitrary: s) auto

end
