(* ===== verification/Go_Strings.thy ===== *)
theory Go_Strings
  imports Kube_Prelude
begin

text \<open>
  The operations of Go's \<open>strings\<close> package the program uses, on byte strings: a HOL \<^typ>\<open>string\<close> is
  a list of 8-bit characters, as a Go string is a sequence of bytes. White space follows
  \<open>unicode.IsSpace\<close> through the UTF-8 encodings of the characters it accepts.
\<close>

definition has_prefix :: "string \<Rightarrow> string \<Rightarrow> bool" where
  "has_prefix s p \<longleftrightarrow> take (length p) s = p"

definition has_suffix :: "string \<Rightarrow> string \<Rightarrow> bool" where
  "has_suffix s p \<longleftrightarrow> length p \<le> length s \<and> drop (length s - length p) s = p"

text \<open>\<open>strings.Index\<close>: the least position at which the substring starts.\<close>

fun str_index :: "string \<Rightarrow> string \<Rightarrow> nat option" where
  "str_index [] sub = (if sub = [] then Some 0 else None)"
| "str_index (c # s) sub = (if has_prefix (c # s) sub then Some 0
     else map_option Suc (str_index s sub))"

definition contains :: "string \<Rightarrow> string \<Rightarrow> bool" where
  "contains s sub \<longleftrightarrow> str_index s sub \<noteq> None"

text \<open>\<open>strings.LastIndexByte\<close>.\<close>

fun last_index_byte :: "string \<Rightarrow> char \<Rightarrow> nat option" where
  "last_index_byte [] c = None"
| "last_index_byte (d # s) c = (case last_index_byte s c of Some i \<Rightarrow> Some (Suc i)
     | None \<Rightarrow> if d = c then Some 0 else None)"

definition trim_prefix :: "string \<Rightarrow> string \<Rightarrow> string" where
  "trim_prefix s p = (if has_prefix s p then drop (length p) s else s)"

definition trim_suffix :: "string \<Rightarrow> string \<Rightarrow> string" where
  "trim_suffix s p = (if has_suffix s p then take (length s - length p) s else s)"

text \<open>\<open>strings.Split\<close> on a one-byte separator: always at least one part.\<close>

fun split_byte :: "char \<Rightarrow> string \<Rightarrow> string list" where
  "split_byte c [] = [[]]"
| "split_byte c (d # s) = (if d = c then [] # split_byte c s
     else (case split_byte c s of [] \<Rightarrow> [[d]] | p # ps \<Rightarrow> (d # p) # ps))"

fun join :: "string list \<Rightarrow> string \<Rightarrow> string" where
  "join [] sep = []"
| "join [x] sep = x"
| "join (x # xs) sep = x @ sep @ join xs sep"

section \<open>White space\<close>

definition bytes :: "nat list \<Rightarrow> string" where
  "bytes ns = map char_of ns"

text \<open>The UTF-8 encodings of the characters \<open>unicode.IsSpace\<close> accepts.\<close>

definition space_encodings :: "string list" where
  "space_encodings =
    map bytes ([[9], [10], [11], [12], [13], [32], [194, 133], [194, 160], [225, 154, 128]] @
      map (\<lambda>n. [226, 128, n]) [128, 129, 130, 131, 132, 133, 134, 135, 136, 137, 138, 168, 169, 175] @
      [[226, 129, 159], [227, 128, 128]])"

definition lead_space :: "string \<Rightarrow> string option" where
  "lead_space s = find (has_prefix s) space_encodings"

lemma space_encodings_nonempty: "e \<in> set space_encodings \<Longrightarrow> e \<noteq> []"
  by (auto simp: space_encodings_def bytes_def)

lemma lead_space_Some: "lead_space s = Some e \<Longrightarrow> e \<noteq> [] \<and> has_prefix s e"
  by (auto simp: lead_space_def find_Some_iff dest: nth_mem space_encodings_nonempty)

function trim_left :: "string \<Rightarrow> string" where
  "trim_left s = (case lead_space s of None \<Rightarrow> s | Some e \<Rightarrow> trim_left (drop (length e) s))"
  by pat_completeness auto
termination
proof (relation "measure length")
  fix s e
  assume "lead_space s = Some e"
  then have "e \<noteq> []" and "take (length e) s = e"
    by (auto dest: lead_space_Some simp: has_prefix_def)
  then have "s \<noteq> []" by auto
  with \<open>e \<noteq> []\<close> show "(drop (length e) s, s) \<in> measure length" by simp
qed simp

declare trim_left.simps [simp del]

definition trail_space :: "string \<Rightarrow> string option" where
  "trail_space s = find (has_suffix s) space_encodings"

lemma trail_space_Some: "trail_space s = Some e \<Longrightarrow> e \<noteq> [] \<and> has_suffix s e"
  by (auto simp: trail_space_def find_Some_iff dest: nth_mem space_encodings_nonempty)

function trim_right :: "string \<Rightarrow> string" where
  "trim_right s = (case trail_space s of None \<Rightarrow> s
     | Some e \<Rightarrow> trim_right (take (length s - length e) s))"
  by pat_completeness auto
termination
proof (relation "measure length")
  fix s e
  assume "trail_space s = Some e"
  then have "e \<noteq> []" and "length e \<le> length s"
    by (auto dest: trail_space_Some simp: has_suffix_def)
  then show "(take (length s - length e) s, s) \<in> measure length"
    by (cases e) auto
qed simp

declare trim_right.simps [simp del]

definition trim_space :: "string \<Rightarrow> string" where
  "trim_space s = trim_right (trim_left s)"

section \<open>Case folding\<close>

definition lower_char :: "char \<Rightarrow> char" where
  "lower_char c = (let n = (of_char c :: nat) in if 65 \<le> n \<and> n \<le> 90 then char_of (n + 32) else c)"

section \<open>Quoting\<close>

definition hex_digit :: "nat \<Rightarrow> char" where
  "hex_digit n = (if n < 10 then char_of (48 + n) else char_of (87 + n))"

text \<open>
  \<open>strconv.Quote\<close> (the verb \<open>%q\<close>). Printable characters beyond ASCII are kept, as Go keeps them.
\<close>

definition quote_char :: "char \<Rightarrow> string" where
  "quote_char c = (let n = (of_char c :: nat) in
     if n = 34 then bytes [92, 34] else if n = 92 then bytes [92, 92]
     else if n = 7 then bytes [92, 97] else if n = 8 then bytes [92, 98]
     else if n = 12 then bytes [92, 102] else if n = 10 then bytes [92, 110]
     else if n = 13 then bytes [92, 114] else if n = 9 then bytes [92, 116]
     else if n = 11 then bytes [92, 118]
     else if n < 32 \<or> n = 127 then bytes [92, 120] @ [hex_digit (n div 16), hex_digit (n mod 16)]
     else [c])"

definition go_quote :: "string \<Rightarrow> string" where
  "go_quote s = bytes [34] @ concat (map quote_char s) @ bytes [34]"

section \<open>Facts\<close>

lemma has_prefix_iff: "has_prefix s p \<longleftrightarrow> (\<exists>r. s = p @ r)"
  by (metis append_eq_conv_conj append_take_drop_id has_prefix_def)

lemma has_prefix_append [simp]: "has_prefix (p @ r) p"
  by (simp add: has_prefix_def)

lemma has_prefix_Nil [simp]: "has_prefix s []"
  by (simp add: has_prefix_def)

lemma has_suffix_iff: "has_suffix s p \<longleftrightarrow> (\<exists>r. s = r @ p)"
proof
  assume "has_suffix s p"
  then have "s = take (length s - length p) s @ p"
    by (metis append_take_drop_id has_suffix_def)
  then show "\<exists>r. s = r @ p" by blast
qed (auto simp: has_suffix_def)

lemma str_index_Some:
  "str_index s sub = Some i \<Longrightarrow> i \<le> length s \<and> has_prefix (drop i s) sub"
  by (induction s sub arbitrary: i rule: str_index.induct) (auto split: if_splits)

lemma str_index_least:
  "str_index s sub = Some i \<Longrightarrow> j < i \<Longrightarrow> \<not> has_prefix (drop j s) sub"
proof (induction s sub arbitrary: i j rule: str_index.induct)
  case (2 c s sub)
  then show ?case by (cases j) (auto split: if_splits)
qed (auto split: if_splits)

lemma str_index_None: "str_index s sub = None \<Longrightarrow> \<not> has_prefix (drop j s) sub"
proof (induction s sub arbitrary: j rule: str_index.induct)
  case (1 sub)
  then show ?case by (auto simp: has_prefix_def split: if_splits)
next
  case (2 c s sub)
  then show ?case by (cases j) (auto split: if_splits)
qed

lemma contains_iff: "contains s sub \<longleftrightarrow> (\<exists>a b. s = a @ sub @ b)"
proof
  assume "contains s sub"
  then obtain i where "str_index s sub = Some i" by (auto simp: contains_def)
  then have "has_prefix (drop i s) sub" by (simp add: str_index_Some)
  then show "\<exists>a b. s = a @ sub @ b"
    by (metis append_take_drop_id has_prefix_iff)
next
  assume "\<exists>a b. s = a @ sub @ b"
  then obtain a b where "s = a @ sub @ b" by blast
  then have "has_prefix (drop (length a) s) sub" by simp
  then show "contains s sub" using str_index_None by (auto simp: contains_def)
qed

lemma str_index_append_char:
  "c \<notin> set a \<Longrightarrow> str_index (a @ c # b) [c] = Some (length a)"
  by (induction a) (auto simp: has_prefix_def)

lemma split_byte_nonempty [simp]: "split_byte c s \<noteq> []"
  by (induction s) (auto split: list.splits)

lemma split_byte_no_sep: "c \<notin> set s \<Longrightarrow> split_byte c s = [s]"
  by (induction s) auto

lemma split_byte_append: "c \<notin> set a \<Longrightarrow> split_byte c (a @ c # b) = a # split_byte c b"
  by (induction a) auto

text \<open>A separator that occurs in neither part.\<close>

lemma append_sep_eq: "c \<notin> set a \<Longrightarrow> c \<notin> set b \<Longrightarrow> a @ c # x = b @ c # y \<longleftrightarrow> a = b \<and> x = y"
proof (induction a arbitrary: b)
  case Nil
  then show ?case by (cases b) auto
next
  case (Cons u us)
  then show ?case by (cases b) auto
qed

end
