(* ===== verification/Safetext.thy ===== *)
theory Safetext
  imports Go_Strings
begin

text \<open>
  \<open>internal/safetext/safetext.go\<close>: \<open>Line\<close>, which every detector applies to text the API server does
  not validate. A rune is a code point (\<^typ>\<open>nat\<close>). \<open>to_valid\<close> is \<open>strings.ToValidUTF8\<close> followed by
  the decoding of the \<open>range\<close> loop, \<open>scan\<close> is that loop with its two variables, \<open>line_runes\<close> adds
  the trimming and the truncation, and \<open>line\<close> is the whole function on bytes.

  Which code points are formatting characters (category Cf) and combining marks (category M), and
  the simple lower case of a code point, depend on the Unicode release of the Go toolchain, so
  these tables are a parameter;
  \<open>unicode_ok\<close> is what every release says about the two characters \<open>Line\<close> itself writes. Control
  characters (category Cc) and \<open>unicode.IsSpace\<close> are fixed and written out.
\<close>

type_synonym rune = nat

record unicode_tables =
  tbl_Cf :: "rune \<Rightarrow> bool"
  tbl_M :: "rune \<Rightarrow> bool"
  tbl_lower :: "rune \<Rightarrow> rune"

definition MaxLine :: nat where
  "MaxLine = 512"

definition MaxCombining :: nat where
  "MaxCombining = 4"

definition is_control :: "rune \<Rightarrow> bool" where
  "is_control r \<longleftrightarrow> r < 32 \<or> 127 \<le> r \<and> r < 160"

definition is_space :: "rune \<Rightarrow> bool" where
  "is_space r \<longleftrightarrow> 9 \<le> r \<and> r \<le> 13 \<or> r = 32 \<or> r = 133 \<or> r = 160 \<or> r = 5760 \<or>
     8192 \<le> r \<and> r \<le> 8202 \<or> r = 8232 \<or> r = 8233 \<or> r = 8239 \<or> r = 8287 \<or> r = 12288"

definition ellipsis :: rune where
  "ellipsis = 8230"

definition replacement :: rune where
  "replacement = 65533"

definition unicode_ok :: "unicode_tables \<Rightarrow> bool" where
  "unicode_ok u \<longleftrightarrow> \<not> tbl_Cf u 32 \<and> \<not> tbl_M u 32 \<and> \<not> tbl_Cf u ellipsis \<and> \<not> tbl_M u ellipsis"

section \<open>UTF-8\<close>

definition scalar :: "rune \<Rightarrow> bool" where
  "scalar r \<longleftrightarrow> r < 55296 \<or> 57344 \<le> r \<and> r \<le> 1114111"

definition cont :: "nat \<Rightarrow> bool" where
  "cont b \<longleftrightarrow> 128 \<le> b \<and> b \<le> 191"

text \<open>\<open>utf8.DecodeRune\<close>: the rune and its width, or \<open>None\<close> for an invalid first byte (width 1).\<close>

definition decode_rune :: "string \<Rightarrow> (rune \<times> nat) option" where
  "decode_rune s = (case map of_char s :: nat list of
     [] \<Rightarrow> None
   | b0 # bs \<Rightarrow>
       if b0 < 128 then Some (b0, 1)
       else if 194 \<le> b0 \<and> b0 \<le> 223 then
         (case bs of b1 # _ \<Rightarrow>
            if cont b1 then Some ((b0 - 192) * 64 + (b1 - 128), 2) else None
          | _ \<Rightarrow> None)
       else if 224 \<le> b0 \<and> b0 \<le> 239 then
         (case bs of b1 # b2 # _ \<Rightarrow>
            (let r = (b0 - 224) * 4096 + (b1 - 128) * 64 + (b2 - 128) in
             if cont b1 \<and> cont b2 \<and> 2048 \<le> r \<and> scalar r then Some (r, 3) else None)
          | _ \<Rightarrow> None)
       else if 240 \<le> b0 \<and> b0 \<le> 244 then
         (case bs of b1 # b2 # b3 # _ \<Rightarrow>
            (let r = (b0 - 240) * 262144 + (b1 - 128) * 4096 + (b2 - 128) * 64 + (b3 - 128) in
             if cont b1 \<and> cont b2 \<and> cont b3 \<and> 65536 \<le> r \<and> scalar r then Some (r, 4) else None)
          | _ \<Rightarrow> None)
       else None)"

definition encode_rune :: "rune \<Rightarrow> string" where
  "encode_rune r = map char_of
    (if r < 128 then [r]
     else if r < 2048 then [192 + r div 64, 128 + r mod 64]
     else if r < 65536 then [224 + r div 4096, 128 + (r div 64) mod 64, 128 + r mod 64]
     else [240 + r div 262144, 128 + (r div 4096) mod 64, 128 + (r div 64) mod 64, 128 + r mod 64])"

definition encode :: "rune list \<Rightarrow> string" where
  "encode rs = concat (map encode_rune rs)"

text \<open>
  \<open>strings.ToValidUTF8 s "\<langle>U+FFFD\<rangle>"\<close>, decoded: one replacement for a run of invalid bytes;
  the flag says that the previous byte was invalid.
\<close>

function to_valid :: "bool \<Rightarrow> string \<Rightarrow> rune list" where
  "to_valid invalid [] = []"
| "to_valid invalid (c # s) = (case decode_rune (c # s) of
      Some (r, w) \<Rightarrow> r # to_valid False (drop (max 1 w) (c # s))
    | None \<Rightarrow> if invalid then to_valid True s else replacement # to_valid True s)"
  by pat_completeness auto
termination
  by (relation "measure (\<lambda>(_, s). length s)") auto

text \<open>The runes of a string as \<open>range\<close> sees them: one replacement for each invalid byte.\<close>

function go_runes :: "string \<Rightarrow> rune list" where
  "go_runes [] = []"
| "go_runes (c # s) = (case decode_rune (c # s) of
      Some (r, w) \<Rightarrow> r # go_runes (drop (max 1 w) (c # s))
    | None \<Rightarrow> replacement # go_runes s)"
  by pat_completeness auto
termination
  by (relation "measure length") auto

text \<open>
  \<open>strings.ToLower\<close>: byte by byte for an ASCII string, otherwise rune by rune; the result may then be
  shorter or longer than the input.
\<close>

definition ascii :: "string \<Rightarrow> bool" where
  "ascii s \<longleftrightarrow> list_all (\<lambda>c. (of_char c :: nat) < 128) s"

definition to_lower :: "unicode_tables \<Rightarrow> string \<Rightarrow> string" where
  "to_lower u s = (if ascii s then map lower_char s else encode (map (tbl_lower u) (go_runes s)))"

section \<open>Line\<close>

definition folded :: "rune \<Rightarrow> bool" where
  "folded r \<longleftrightarrow> 9 \<le> r \<and> r \<le> 13 \<or> r = 8232 \<or> r = 8233"

fun scan :: "unicode_tables \<Rightarrow> bool \<Rightarrow> nat \<Rightarrow> rune list \<Rightarrow> rune list" where
  "scan u base marks [] = []"
| "scan u base marks (r0 # rs) =
    (let r = (if folded r0 then 32 else r0) in
     if is_control r \<or> tbl_Cf u r then scan u base marks rs
     else if r = 32 then r # scan u False 0 rs
     else if tbl_M u r then
       (if \<not> base \<or> marks = MaxCombining then scan u base marks rs
        else r # scan u base (marks + 1) rs)
     else r # scan u True 0 rs)"

definition rdrop_while :: "('a \<Rightarrow> bool) \<Rightarrow> 'a list \<Rightarrow> 'a list" where
  "rdrop_while P xs = rev (dropWhile P (rev xs))"

definition trim_runes :: "rune list \<Rightarrow> rune list" where
  "trim_runes rs = rdrop_while is_space (dropWhile is_space rs)"

definition line_runes :: "unicode_tables \<Rightarrow> rune list \<Rightarrow> rune list" where
  "line_runes u rs =
    (let s = trim_runes (scan u False 0 rs) in
     if length s > MaxLine then rdrop_while (tbl_M u) (take (MaxLine - 1) s) @ [ellipsis] else s)"

definition line :: "unicode_tables \<Rightarrow> string \<Rightarrow> string" where
  "line u s = encode (line_runes u (to_valid False s))"

section \<open>UTF-8 round trip\<close>

lemma div_mod_64:
  fixes r :: nat
  shows "r div 4096 * 4096 + r div 64 mod 64 * 64 + r mod 64 = r"
    and "r div 262144 * 262144 + r div 4096 mod 64 * 4096 + r div 64 mod 64 * 64 + r mod 64 = r"
proof -
  have d: "r div 4096 = r div 64 div 64" "r div 262144 = r div 4096 div 64"
    by (simp_all add: div_mult2_eq [symmetric])
  have e: "r div 64 * 64 + r mod 64 = r" "r div 64 div 64 * 64 + r div 64 mod 64 = r div 64"
    "r div 4096 div 64 * 64 + r div 4096 mod 64 = r div 4096"
    by simp_all
  show "r div 4096 * 4096 + r div 64 mod 64 * 64 + r mod 64 = r"
    using d e by linarith
  then show "r div 262144 * 262144 + r div 4096 mod 64 * 4096 + r div 64 mod 64 * 64 + r mod 64 = r"
    using d e by linarith
qed

lemma decode_encode_rune:
  assumes "scalar r"
  shows "decode_rune (encode_rune r @ s) = Some (r, length (encode_rune r))"
proof -
  consider "r < 128" | "128 \<le> r" "r < 2048" | "2048 \<le> r" "r < 65536" | "65536 \<le> r" "r \<le> 1114111"
    using assms by (fastforce simp: scalar_def)
  then show ?thesis
  proof cases
    case 1
    then show ?thesis by (simp add: decode_rune_def encode_rune_def of_char_of)
  next
    case 2
    have "r div 64 * 64 + r mod 64 = r" by simp
    moreover have "2 \<le> r div 64" "r div 64 \<le> 31" "r mod 64 < 64" using 2 by auto
    ultimately show ?thesis using 2
      by (simp add: decode_rune_def encode_rune_def of_char_of cont_def)
  next
    case 3
    note div_mod_64(1) [of r]
    moreover have "r div 4096 \<le> 15" "r div 64 mod 64 \<le> 63" "r mod 64 \<le> 63"
      using 3 mod_less_divisor [of 64 r] mod_less_divisor [of 64 "r div 64"] by linarith+
    ultimately show ?thesis using 3 assms
      by (simp add: decode_rune_def encode_rune_def of_char_of cont_def Let_def)
  next
    case 4
    note div_mod_64(2) [of r]
    moreover have "r div 262144 \<le> 4" "r div 4096 mod 64 \<le> 63" "r div 64 mod 64 \<le> 63" "r mod 64 \<le> 63"
      using 4 mod_less_divisor [of 64 r] mod_less_divisor [of 64 "r div 64"]
        mod_less_divisor [of 64 "r div 4096"] by linarith+
    ultimately show ?thesis using 4 assms
      by (simp add: decode_rune_def encode_rune_def of_char_of cont_def Let_def)
  qed
qed

lemma length_encode_rune: "1 \<le> length (encode_rune r)"
  by (simp add: encode_rune_def)

lemma to_valid_encode: "(\<And>r. r \<in> set rs \<Longrightarrow> scalar r) \<Longrightarrow> to_valid b (encode rs) = rs"
proof (induction rs arbitrary: b)
  case (Cons r rs)
  obtain c s where c: "encode_rune r = c # s"
    using length_encode_rune [of r] by (cases "encode_rune r") auto
  have "decode_rune (encode_rune r @ encode rs) = Some (r, length (encode_rune r))"
    by (rule decode_encode_rune) (simp add: Cons)
  with c Cons show ?case by (simp add: encode_def)
qed (simp add: encode_def)

lemma decode_rune_scalar: "decode_rune s = Some (r, w) \<Longrightarrow> scalar r"
  by (auto simp: decode_rune_def scalar_def cont_def Let_def split: list.splits if_splits)

lemma to_valid_scalar: "r \<in> set (to_valid b s) \<Longrightarrow> scalar r"
  by (induction b s rule: to_valid.induct)
    (auto split: option.splits if_splits dest: decode_rune_scalar simp: replacement_def scalar_def)

section \<open>What survives the loop\<close>

text \<open>\<open>keeps\<close> says that the loop, started in the given state, writes every rune it reads.\<close>

fun keeps :: "unicode_tables \<Rightarrow> bool \<Rightarrow> nat \<Rightarrow> rune list \<Rightarrow> bool" where
  "keeps u base marks [] = True"
| "keeps u base marks (r # rs) \<longleftrightarrow> \<not> folded r \<and> \<not> is_control r \<and> \<not> tbl_Cf u r \<and>
    (if r = 32 then keeps u False 0 rs
     else if tbl_M u r then base \<and> marks \<noteq> MaxCombining \<and> keeps u base (marks + 1) rs
     else keeps u True 0 rs)"

lemma not_folded_space [simp]: "\<not> folded 32"
  by (simp add: folded_def)

lemma keeps_scan: "keeps u b m (scan u b m rs)"
  by (induction u b m rs rule: scan.induct) (auto simp: Let_def)

lemma scan_keeps: "keeps u b m rs \<Longrightarrow> scan u b m rs = rs"
  by (induction u b m rs rule: keeps.induct) (auto simp: Let_def)

lemma keeps_append: "keeps u b m (xs @ ys) \<Longrightarrow> keeps u b m xs"
  by (induction u b m xs rule: keeps.induct) (auto split: if_splits)

lemma keeps_snoc:
  "keeps u b m xs \<Longrightarrow> \<not> folded r \<Longrightarrow> \<not> is_control r \<Longrightarrow> \<not> tbl_Cf u r \<Longrightarrow> \<not> tbl_M u r \<Longrightarrow>
   keeps u b m (xs @ [r])"
  by (induction u b m xs rule: keeps.induct) (auto split: if_splits)

lemma scan_subset: "r \<in> set (scan u b m rs) \<Longrightarrow> r = 32 \<or> r \<in> set rs \<and> \<not> folded r"
  by (induction u b m rs rule: scan.induct) (auto simp: Let_def split: if_splits)

lemma keeps_clean: "keeps u b m rs \<Longrightarrow> r \<in> set rs \<Longrightarrow> \<not> is_control r \<and> \<not> tbl_Cf u r"
  by (induction u b m rs rule: keeps.induct) (auto split: if_splits)

lemma scan_clean: "r \<in> set (scan u b m rs) \<Longrightarrow> \<not> is_control r \<and> \<not> tbl_Cf u r"
  using keeps_scan keeps_clean by blast

text \<open>The combining marks directly after one another, counted from a given number on.\<close>

fun mark_runs :: "unicode_tables \<Rightarrow> nat \<Rightarrow> rune list \<Rightarrow> bool" where
  "mark_runs u n [] = True"
| "mark_runs u n (r # rs) =
    (if tbl_M u r then n < MaxCombining \<and> mark_runs u (n + 1) rs else mark_runs u 0 rs)"

lemma mark_runs_mono: "mark_runs u n rs \<Longrightarrow> m \<le> n \<Longrightarrow> mark_runs u m rs"
  by (induction rs arbitrary: m n) auto

lemma mark_runs_append: "mark_runs u n (xs @ ys) \<Longrightarrow> mark_runs u n xs \<and> mark_runs u 0 ys"
  by (induction xs arbitrary: n) (auto intro: mark_runs_mono)

lemma mark_runs_snoc: "mark_runs u n xs \<Longrightarrow> \<not> tbl_M u r \<Longrightarrow> mark_runs u n (xs @ [r])"
  by (induction xs arbitrary: n) auto

lemma keeps_mark_runs:
  "keeps u b m rs \<Longrightarrow> unicode_ok u \<Longrightarrow> m \<le> MaxCombining \<Longrightarrow> mark_runs u m rs"
proof (induction u b m rs rule: keeps.induct)
  case (2 u base marks r rs)
  then show ?case by (auto simp: unicode_ok_def split: if_splits)
qed simp

section \<open>Trimming and truncation\<close>

lemma dropWhile_split: "\<exists>ys. xs = ys @ dropWhile P xs"
  by (metis takeWhile_dropWhile_id)

lemma rdrop_while_split: "\<exists>zs. xs = rdrop_while P xs @ zs"
  unfolding rdrop_while_def
  by (metis dropWhile_split rev_append rev_rev_ident)

lemma rdrop_while_last: "rdrop_while P xs \<noteq> [] \<Longrightarrow> \<not> P (last (rdrop_while P xs))"
  by (metis dropWhile_eq_Nil_conv hd_dropWhile hd_rev rdrop_while_def rev_is_Nil_conv rev_rev_ident)

lemma rdrop_while_id: "xs = [] \<or> \<not> P (last xs) \<Longrightarrow> rdrop_while P xs = xs"
  by (metis dropWhile_eq_self_iff hd_rev rdrop_while_def rev_is_Nil_conv rev_rev_ident)

lemma trim_runes_infix: "\<exists>a c. rs = a @ trim_runes rs @ c"
  unfolding trim_runes_def by (metis dropWhile_split rdrop_while_split)

lemma trim_runes_ends:
  assumes "trim_runes rs \<noteq> []"
  shows "\<not> is_space (hd (trim_runes rs))" and "\<not> is_space (last (trim_runes rs))"
proof -
  show "\<not> is_space (last (trim_runes rs))"
    using assms unfolding trim_runes_def by (rule rdrop_while_last)
  obtain zs where z: "dropWhile is_space rs = trim_runes rs @ zs"
    using rdrop_while_split unfolding trim_runes_def by blast
  then have "dropWhile is_space rs \<noteq> []" using assms by auto
  then have "\<not> is_space (hd (dropWhile is_space rs))" by (rule hd_dropWhile)
  with z assms show "\<not> is_space (hd (trim_runes rs))" by simp
qed

lemma trim_runes_id:
  "rs = [] \<or> \<not> is_space (hd rs) \<and> \<not> is_space (last rs) \<Longrightarrow> trim_runes rs = rs"
  by (metis dropWhile_eq_self_iff rdrop_while_id trim_runes_def)

lemma line_runes_cut:
  assumes "length (trim_runes (scan u False 0 rs)) > MaxLine"
  obtains pre suf where "trim_runes (scan u False 0 rs) = pre @ suf"
    "line_runes u rs = pre @ [ellipsis]" "length pre < MaxLine"
proof -
  let ?s = "trim_runes (scan u False 0 rs)"
  let ?cut = "rdrop_while (tbl_M u) (take (MaxLine - 1) ?s)"
  obtain zs where z: "take (MaxLine - 1) ?s = ?cut @ zs" using rdrop_while_split by blast
  have "?s = ?cut @ zs @ drop (MaxLine - 1) ?s"
    by (metis append_assoc append_take_drop_id z)
  moreover have "length ?cut < MaxLine"
    using arg_cong [OF z, of length] assms by (simp add: MaxLine_def)
  moreover have "line_runes u rs = ?cut @ [ellipsis]"
    using assms by (simp add: line_runes_def)
  ultimately show ?thesis using that by blast
qed

lemma line_runes_cases:
  obtains "line_runes u rs = trim_runes (scan u False 0 rs)" "length (line_runes u rs) \<le> MaxLine"
  | pre suf where "trim_runes (scan u False 0 rs) = pre @ suf"
      "line_runes u rs = pre @ [ellipsis]" "length pre < MaxLine"
proof (cases "length (trim_runes (scan u False 0 rs)) > MaxLine")
  case True
  then show ?thesis using line_runes_cut that(2) by metis
next
  case False
  then show ?thesis using that(1) by (simp add: line_runes_def)
qed

lemma line_runes_length: "length (line_runes u rs) \<le> MaxLine"
  by (rule line_runes_cases [of u rs]) auto

lemma trim_scan_infix:
  "\<exists>a c. scan u False 0 rs = a @ trim_runes (scan u False 0 rs) @ c"
  by (rule trim_runes_infix)

lemma ellipsis_plain: "\<not> folded ellipsis" "\<not> is_control ellipsis" "\<not> is_space ellipsis"
  "ellipsis \<noteq> 32"
  by (simp_all add: ellipsis_def folded_def is_control_def is_space_def)

lemma line_runes_set:
  "r \<in> set (line_runes u rs) \<Longrightarrow> r = ellipsis \<or> r \<in> set (scan u False 0 rs)"
  by (rule line_runes_cases [of u rs]; insert trim_scan_infix [of u rs])
    (metis Un_iff set_append, metis Un_iff list.set(1,2) set_append insert_iff empty_iff)

lemma line_runes_clean:
  "unicode_ok u \<Longrightarrow> r \<in> set (line_runes u rs) \<Longrightarrow> \<not> is_control r \<and> \<not> tbl_Cf u r"
  using line_runes_set scan_clean ellipsis_plain by (metis unicode_ok_def)

lemma line_runes_marks: "unicode_ok u \<Longrightarrow> mark_runs u 0 (line_runes u rs)"
proof -
  assume u: "unicode_ok u"
  have "mark_runs u 0 (scan u False 0 rs)"
    by (rule keeps_mark_runs [OF keeps_scan u]) simp
  then have t: "mark_runs u 0 (trim_runes (scan u False 0 rs))"
    using trim_scan_infix [of u rs] mark_runs_append by metis
  show ?thesis
  proof (rule line_runes_cases [of u rs])
    fix pre suf
    assume "trim_runes (scan u False 0 rs) = pre @ suf" "line_runes u rs = pre @ [ellipsis]"
    with t u show ?thesis by (metis mark_runs_append mark_runs_snoc unicode_ok_def)
  qed (simp add: t)
qed

lemma line_runes_scalar:
  "(\<And>r. r \<in> set rs \<Longrightarrow> scalar r) \<Longrightarrow> r \<in> set (line_runes u rs) \<Longrightarrow> scalar r"
  using line_runes_set scan_subset by (fastforce simp: ellipsis_def scalar_def)

lemma to_valid_line: "to_valid b (line u s) = line_runes u (to_valid False s)"
  unfolding line_def
  by (rule to_valid_encode) (rule line_runes_scalar, auto dest: to_valid_scalar)

text \<open>
  C35. The postcondition of \<open>safetext.Line\<close> on any bytes: decoding the result again gives at most 512
  runes, none of them a control or a formatting character, and no more than four combining marks
  in a row.
\<close>

theorem line_safe:
  assumes "unicode_ok u"
  shows "length (to_valid False (line u s)) \<le> MaxLine \<and>
    (\<forall>r \<in> set (to_valid False (line u s)). \<not> is_control r \<and> \<not> tbl_Cf u r) \<and>
    mark_runs u 0 (to_valid False (line u s)) \<and>
    line u s = encode (to_valid False (line u s))"
proof -
  have "line u s = encode (to_valid False (line u s))"
    unfolding to_valid_line by (simp add: line_def)
  moreover have "\<forall>r \<in> set (to_valid False (line u s)). \<not> is_control r \<and> \<not> tbl_Cf u r"
    unfolding to_valid_line using line_runes_clean [OF assms] by blast
  ultimately show ?thesis
    using line_runes_length line_runes_marks [OF assms] by (metis to_valid_line)
qed

section \<open>Idempotence\<close>

text \<open>
  \<open>strings.TrimSpace\<close> trims every \<open>unicode.IsSpace\<close> character, but the loop treats only U+0020 as a
  gap that no mark can sit on. An odd space is one of the others: the loop takes it for a base
  character.
\<close>

definition odd_space :: "rune \<Rightarrow> bool" where
  "odd_space r \<longleftrightarrow> is_space r \<and> \<not> folded r \<and> r \<noteq> 32 \<and> r \<noteq> 133"

lemma scan_spaces:
  assumes "\<And>r. r \<in> set rs \<Longrightarrow> \<not> odd_space r" and "r \<in> set (scan u b m rs)" and "is_space r"
  shows "r = 32"
proof (rule ccontr)
  assume "r \<noteq> 32"
  then have "r \<in> set rs" "\<not> folded r" using assms(2) scan_subset by blast+
  then have "r = 133" using assms(1,3) \<open>r \<noteq> 32\<close> by (auto simp: odd_space_def)
  then show False using scan_clean [OF assms(2)] by (simp add: is_control_def)
qed

lemma keeps_dropWhile:
  "keeps u False 0 rs \<Longrightarrow> (\<And>r. r \<in> set rs \<Longrightarrow> is_space r \<Longrightarrow> r = 32) \<Longrightarrow>
   keeps u False 0 (dropWhile is_space rs)"
proof (induction rs)
  case (Cons r rs)
  show ?case
  proof (cases "is_space r")
    case True
    then have "r = 32" using Cons.prems(2) by (meson list.set_intros(1))
    then have "keeps u False 0 rs" using Cons.prems(1) by simp
    then have "keeps u False 0 (dropWhile is_space rs)"
      using Cons.IH Cons.prems(2) by (meson list.set_intros(2))
    with True show ?thesis by simp
  next
    case False
    with Cons.prems(1) show ?thesis by (simp only: dropWhile.simps if_False)
  qed
qed simp

lemma keeps_trim:
  assumes "keeps u False 0 rs" and "\<And>r. r \<in> set rs \<Longrightarrow> is_space r \<Longrightarrow> r = 32"
  shows "keeps u False 0 (trim_runes rs)"
proof -
  have "keeps u False 0 (dropWhile is_space rs)" using assms by (rule keeps_dropWhile)
  then show ?thesis unfolding trim_runes_def
    using rdrop_while_split [of "dropWhile is_space rs" is_space] keeps_append by metis
qed

lemma line_runes_fixed:
  assumes "keeps u False 0 rs" and "length rs \<le> MaxLine"
    and "rs = [] \<or> \<not> is_space (hd rs) \<and> \<not> is_space (last rs)"
  shows "line_runes u rs = rs"
  using assms by (simp add: line_runes_def scan_keeps trim_runes_id)

lemma line_runes_idempotent:
  assumes u: "unicode_ok u" and odd: "\<And>r. r \<in> set rs \<Longrightarrow> \<not> odd_space r"
  shows "line_runes u (line_runes u rs) = line_runes u rs"
proof -
  let ?t = "trim_runes (scan u False 0 rs)"
  have k: "keeps u False 0 ?t"
    by (rule keeps_trim [OF keeps_scan]) (rule scan_spaces [OF odd])
  show ?thesis
  proof (rule line_runes_cases [of u rs])
    assume r: "line_runes u rs = ?t" and l: "length (line_runes u rs) \<le> MaxLine"
    have "?t = [] \<or> \<not> is_space (hd ?t) \<and> \<not> is_space (last ?t)"
      using trim_runes_ends by blast
    then have "line_runes u ?t = ?t" using k l unfolding r by (intro line_runes_fixed)
    then show ?thesis by (simp add: r)
  next
    fix pre suf
    assume t: "?t = pre @ suf" and r: "line_runes u rs = pre @ [ellipsis]" and l: "length pre < MaxLine"
    have "keeps u False 0 (pre @ [ellipsis])"
      using k t u ellipsis_plain by (metis keeps_append keeps_snoc unicode_ok_def)
    moreover have "\<not> is_space (hd (pre @ [ellipsis]))"
      using t ellipsis_plain trim_runes_ends(1) [of "scan u False 0 rs"] by (cases pre) auto
    ultimately have "line_runes u (pre @ [ellipsis]) = pre @ [ellipsis]"
      using l ellipsis_plain by (intro line_runes_fixed) auto
    then show ?thesis by (simp add: r)
  qed
qed

text \<open>
  \<open>safetext.Line\<close> is idempotent on every input that holds no space character other than
  U+0020, the whitespace controls and the two line separators.
\<close>

theorem line_idempotent:
  assumes "unicode_ok u" and "\<forall>r \<in> set (to_valid False s). \<not> odd_space r"
  shows "line u (line u s) = line u s"
  using line_runes_idempotent [of u "to_valid False s"] assms
  by (simp add: line_def [of u "line u s"] to_valid_line) (simp add: line_def)

text \<open>A printable ASCII line, which the function returns as it is.\<close>

definition plain_line :: "string \<Rightarrow> bool" where
  "plain_line s \<longleftrightarrow> list_all (\<lambda>c. 32 \<le> (of_char c :: nat) \<and> (of_char c :: nat) < 127) s \<and>
     length s \<le> MaxLine \<and> (s \<noteq> [] \<longrightarrow> hd s \<noteq> CHR '' '' \<and> last s \<noteq> CHR '' '')"

definition ascii_letters :: "unicode_tables \<Rightarrow> bool" where
  "ascii_letters u \<longleftrightarrow> (\<forall>r < 128. \<not> tbl_Cf u r \<and> \<not> tbl_M u r)"

lemma decode_ascii: "(of_char c :: nat) < 128 \<Longrightarrow> decode_rune (c # s) = Some (of_char c, 1)"
  by (simp add: decode_rune_def)

lemma to_valid_ascii: "ascii s \<Longrightarrow> to_valid b s = map of_char s"
  by (induction s arbitrary: b) (simp_all add: ascii_def decode_ascii)

lemma go_runes_ascii: "ascii s \<Longrightarrow> go_runes s = map of_char s"
  by (induction s) (simp_all add: ascii_def decode_ascii)

lemma encode_ascii: "ascii s \<Longrightarrow> encode (map of_char s) = s"
  by (induction s) (simp_all add: ascii_def encode_def encode_rune_def)

lemma keeps_ascii:
  "ascii_letters u \<Longrightarrow> list_all (\<lambda>c. 32 \<le> (of_char c :: nat) \<and> (of_char c :: nat) < 127) s \<Longrightarrow>
   scan u b m (map of_char s) = map of_char s"
  by (induction s arbitrary: b m) (simp_all add: ascii_letters_def Let_def folded_def is_control_def)

lemma of_char_32: "(of_char c :: nat) = 32 \<longleftrightarrow> c = CHR '' ''"
proof
  assume "(of_char c :: nat) = 32"
  then have "c = char_of (32 :: nat)" by (metis char_of_char)
  then show "c = CHR '' ''" by (simp add: char_of_def bit_0)
qed simp

lemma line_plain:
  assumes "ascii_letters u" and "plain_line s"
  shows "line u s = s"
proof -
  have asc: "ascii s" and range: "list_all (\<lambda>c. 32 \<le> (of_char c :: nat) \<and> (of_char c :: nat) < 127) s"
    using assms(2) by (auto simp: plain_line_def ascii_def list_all_iff)
  have space: "is_space (of_char c) \<longleftrightarrow> c = CHR '' ''" if "c \<in> set s" for c
    using that range by (auto simp: is_space_def list_all_iff of_char_32)
  have "trim_runes (map of_char s) = map of_char s"
    using assms(2) space by (intro trim_runes_id) (auto simp: plain_line_def hd_map last_map)
  then have "line_runes u (map of_char s) = map of_char s"
    using assms range keeps_ascii [OF assms(1) range, of False 0] by (simp add: line_runes_def plain_line_def)
  with asc show ?thesis by (simp add: line_def to_valid_ascii encode_ascii)
qed

text \<open>Two small tables for concrete inputs: the combining diacritical marks and a few Cf blocks.\<close>

definition small_tables :: unicode_tables where
  "small_tables = \<lparr>tbl_Cf = (\<lambda>r. r = 173 \<or> 8203 \<le> r \<and> r \<le> 8207 \<or> 8234 \<le> r \<and> r \<le> 8238 \<or> r = 65279),
     tbl_M = (\<lambda>r. 768 \<le> r \<and> r \<le> 879),
     tbl_lower = (\<lambda>r. if 65 \<le> r \<and> r \<le> 90 then r + 32 else if r = 570 then 11365 else r)\<rparr>"

lemmas eval_line = line_def line_runes_def trim_runes_def rdrop_while_def is_space_def folded_def
  is_control_def MaxCombining_def MaxLine_def small_tables_def encode_def encode_rune_def
  decode_rune_def cont_def scalar_def bytes_def of_char_of replacement_def Let_def

lemma small_tables_ok: "unicode_ok small_tables"
  by (simp add: unicode_ok_def small_tables_def ellipsis_def)

lemma small_tables_ascii: "ascii_letters small_tables"
  by (simp add: ascii_letters_def small_tables_def)

theorem line_safe_witness:
  "unicode_ok small_tables \<and>
   length (to_valid False (line small_tables (bytes [27, 91, 50, 74, 120, 255, 254, 121]))) \<le> MaxLine"
  using line_safe [OF small_tables_ok] small_tables_ok by blast

theorem line_idempotent_witness:
  "line small_tables (line small_tables (bytes [9, 97, 204, 129, 27, 10, 98, 32])) =
     line small_tables (bytes [9, 97, 204, 129, 27, 10, 98, 32]) \<and>
   line small_tables (bytes [9, 97, 204, 129, 27, 10, 98, 32]) = bytes [97, 204, 129, 32, 98]"
proof
  show "line small_tables (bytes [9, 97, 204, 129, 27, 10, 98, 32]) = bytes [97, 204, 129, 32, 98]"
    by (simp add: eval_line)
  have "\<forall>r \<in> set (to_valid False (bytes [9, 97, 204, 129, 27, 10, 98, 32])). \<not> odd_space r"
    by (simp add: eval_line odd_space_def)
  then show "line small_tables (line small_tables (bytes [9, 97, 204, 129, 27, 10, 98, 32])) =
      line small_tables (bytes [9, 97, 204, 129, 27, 10, 98, 32])"
    by (rule line_idempotent [OF small_tables_ok])
qed

text \<open>
  Without that restriction \<open>Line\<close> is not idempotent, although its comment and its fuzz target
  say so: a no-break space counts as a base character in the loop and is then trimmed away, so the
  mark behind it opens the line and a second pass drops it. The input is U+00A0 U+0301 x, for any
  tables that call U+0301 a mark and U+00A0 and x neither a mark nor a formatting character.
\<close>

theorem line_not_idempotent:
  assumes "tbl_M u 769" "\<not> tbl_Cf u 769" "\<not> tbl_M u 160" "\<not> tbl_Cf u 160" "\<not> tbl_M u 120" "\<not> tbl_Cf u 120"
  shows "line u (bytes [194, 160, 204, 129, 120]) = bytes [204, 129, 120] \<and>
    line u (line u (bytes [194, 160, 204, 129, 120])) = bytes [120]"
proof -
  have v: "to_valid False (bytes [194, 160, 204, 129, 120]) = [160, 769, 120]"
    "to_valid False (bytes [204, 129, 120]) = [769, 120]"
    by (simp_all add: eval_line)
  have s: "scan u False 0 [160, 769, 120] = [160, 769, 120]" "scan u False 0 [769, 120] = [120]"
    using assms by (simp_all add: Let_def folded_def is_control_def MaxCombining_def)
  have t: "trim_runes [160, 769, 120] = [769, 120]" "trim_runes [120] = [120]"
    by (simp_all add: eval_line)
  have 1: "line u (bytes [194, 160, 204, 129, 120]) = bytes [204, 129, 120]"
    unfolding line_def v line_runes_def s t by (simp add: eval_line)
  moreover have "line u (bytes [204, 129, 120]) = bytes [120]"
    unfolding line_def v line_runes_def s t by (simp add: eval_line)
  ultimately show ?thesis by simp
qed

theorem line_not_idempotent_witness:
  "line small_tables (line small_tables (bytes [194, 160, 204, 129, 120])) \<noteq>
   line small_tables (bytes [194, 160, 204, 129, 120])"
proof -
  have "tbl_M small_tables 769 \<and> \<not> tbl_Cf small_tables 769 \<and> \<not> tbl_M small_tables 160 \<and>
    \<not> tbl_Cf small_tables 160 \<and> \<not> tbl_M small_tables 120 \<and> \<not> tbl_Cf small_tables 120"
    by (simp add: small_tables_def)
  then have "line small_tables (bytes [194, 160, 204, 129, 120]) = bytes [204, 129, 120]"
    and "line small_tables (line small_tables (bytes [194, 160, 204, 129, 120])) = bytes [120]"
    using line_not_idempotent [of small_tables] by blast+
  then show ?thesis by (simp add: bytes_def)
qed

end
