(* ===== verification/Kube_Api.thy ===== *)
theory Kube_Api
  imports Safetext
begin

text \<open>
  The Kubernetes objects the components read, as records with exactly the fields they read. The
  types themselves belong to \<open>k8s.io/api\<close>; a pointer field is an \<open>option\<close>, a resource quantity is
  the text its \<open>String\<close> method gives.
\<close>

section \<open>Pods\<close>

record terminated_state =
  tm_exit_code :: int
  tm_reason :: string
  tm_finished_at :: time

record container_state =
  st_waiting :: "(string \<times> string) option"
  st_running :: "time option"
  st_terminated :: "terminated_state option"

record container_status =
  cs_name :: string
  cs_image :: string
  cs_ready :: bool
  cs_restart_count :: int
  cs_state :: container_state
  cs_last_terminated :: "terminated_state option"

record probe =
  pr_exec :: bool
  pr_http_get :: bool
  pr_tcp_socket :: bool
  pr_grpc :: bool

record container =
  c_name :: string
  c_image :: string
  c_requests :: "(string, string) gomap"
  c_limits :: "(string, string) gomap"
  c_readiness :: "probe option"
  c_liveness :: "probe option"
  c_startup :: "probe option"

record pod_condition =
  pc_type :: string
  pc_status :: string
  pc_reason :: string
  pc_message :: string

record owner_reference =
  or_kind :: string
  or_name :: string
  or_controller :: "bool option"

record pod =
  p_namespace :: string
  p_name :: string
  p_owners :: "owner_reference list"
  p_created :: time
  p_deleted :: "time option"
  p_phase :: string
  p_conditions :: "pod_condition list"
  p_statuses :: "container_status list"
  p_init_statuses :: "container_status list"
  p_containers :: "container list"
  p_init_containers :: "container list"
  p_node :: string
  p_ip :: string

record event =
  ev_name :: string
  ev_reason :: string
  ev_message :: string
  ev_last :: time
  ev_field_path :: string

section \<open>Findings\<close>

text \<open>\<open>internal/diagnose/diagnose.go\<close>: what a detector reads, and what it reports.\<close>

record pod_facts =
  pf_pod :: pod
  pf_events :: "event list"

record container_resources =
  res_container :: string
  res_cpu_request :: string
  res_cpu_limit :: string
  res_mem_request :: string
  res_mem_limit :: string

record suggestion =
  sg_next_step :: string
  sg_command :: string

record finding =
  f_pod :: string
  f_kind :: string
  f_issue :: string
  f_reason :: string
  f_evidence :: string
  f_resources :: "container_resources option"
  f_container :: string
  f_image :: string
  f_confidence :: string
  f_log_cause :: string
  f_log_excerpt :: string
  f_suggestion :: "suggestion option"

text \<open>The zero value of the struct, from which the composite literals of the code start.\<close>

definition blank_finding :: finding where
  "blank_finding = \<lparr>f_pod = [], f_kind = [], f_issue = [], f_reason = [], f_evidence = [],
     f_resources = None, f_container = [], f_image = [], f_confidence = [], f_log_cause = [],
     f_log_excerpt = [], f_suggestion = None\<rparr>"

definition pod_ref :: "pod \<Rightarrow> string" where
  "pod_ref p = p_namespace p @ ''/'' @ p_name p"

text \<open>An em dash with its spaces, in UTF-8.\<close>

definition dash :: string where
  "dash = bytes [32, 226, 128, 148, 32]"

end
