(* ===== verification/Inventory.thy ===== *)
theory Inventory
  imports Kube_Api
begin

text \<open>
  \<open>internal/inventory/inventory.go\<close>: pods grouped into workloads, with their replica health, restart
  history and findings, and the filtering for the report. The maps of \<open>Assemble\<close> are association
  lists; a workload behind a pointer is written back with \<open>mput\<close>. The instant at which the rows are
  aged (\<open>time.Now\<close> in the code) is an argument.
\<close>

section \<open>Data\<close>

record pod_row =
  row_name :: string
  row_phase :: string
  row_state :: string
  row_ready :: string
  row_restarts :: int
  row_last_restart :: string
  row_node :: string
  row_ip :: string
  row_age :: string
  row_image :: string

record rollout_change =
  rc_revision :: string
  rc_since :: string
  rc_old_image :: string
  rc_new_image :: string
  rc_container :: string

datatype hyp_verdict = VerdictAttributed | VerdictRuledOut | VerdictOutranked

record hypothesis =
  hy_cause :: string
  hy_kind :: string
  hy_verdict :: hyp_verdict
  hy_reason :: string
  hy_object :: string

record workload =
  w_namespace :: string
  w_name :: string
  w_kind :: string
  w_desired :: int
  w_ready :: int
  w_status :: string
  w_restarts :: int
  w_last_restart :: string
  w_image :: string
  w_pods :: "pod_row list"
  w_findings :: "finding list"
  w_pods_omitted :: nat
  w_schedule :: string
  w_priority :: nat
  w_network_policies :: "string list"
  w_rollout :: "rollout_change option"
  w_root_cause :: string
  w_trace :: "hypothesis list"
  w_root_confidence :: string

definition blank_workload :: "string \<Rightarrow> string \<Rightarrow> string \<Rightarrow> workload" where
  "blank_workload kind ns nm = \<lparr>w_namespace = ns, w_name = nm, w_kind = kind, w_desired = 0, w_ready = 0,
     w_status = [], w_restarts = 0, w_last_restart = [], w_image = [], w_pods = [], w_findings = [],
     w_pods_omitted = 0, w_schedule = [], w_priority = 0, w_network_policies = [], w_rollout = None,
     w_root_cause = [], w_trace = [], w_root_confidence = []\<rparr>"

definition flagged :: "workload \<Rightarrow> bool" where
  "flagged w \<longleftrightarrow> w_findings w \<noteq> [] \<or> w_ready w < w_desired w \<or> w_status w = ''Failed''"

text \<open>The controllers, with the fields the code reads.\<close>

record deployment =
  d_namespace :: string
  d_name :: string
  d_replicas :: "int option"
  d_ready :: int

record daemon_set =
  ds_namespace :: string
  ds_name :: string
  ds_desired :: int
  ds_ready :: int

record replica_set =
  rs_namespace :: string
  rs_name :: string
  rs_owners :: "owner_reference list"

record job =
  j_namespace :: string
  j_name :: string
  j_owners :: "owner_reference list"
  j_conditions :: "(string \<times> string) list"
  j_active :: int

record cron_job =
  cj_namespace :: string
  cj_name :: string
  cj_active :: nat
  cj_schedule :: string

record inputs =
  in_pods :: "pod list"
  in_deployments :: "deployment list"
  in_replica_sets :: "replica_set list"
  in_stateful_sets :: "deployment list"
  in_daemon_sets :: "daemon_set list"
  in_jobs :: "job list"
  in_cron_jobs :: "cron_job list"

section \<open>Text\<close>

text \<open>
  \<open>time.Time.UTC().Format(time.RFC3339)\<close>: the civil date of the day count since 1 January of year 1
  (the proleptic Gregorian calendar, in cycles of 400 years), and the time of day.
\<close>

definition civil :: "int \<Rightarrow> int \<times> int \<times> int" where
  "civil days =
    (let z = days + 306; era = z div 146097; doe = z mod 146097;
         yoe = (doe - doe div 1460 + doe div 36524 - doe div 146096) div 365;
         doy = doe - (365 * yoe + yoe div 4 - yoe div 100); mp = (5 * doy + 2) div 153;
         d = doy - (153 * mp + 2) div 5 + 1; m = (if mp < 10 then mp + 3 else mp - 9);
         y = yoe + era * 400 + (if m \<le> 2 then 1 else 0)
     in (y, m, d))"

definition pad :: "nat \<Rightarrow> int \<Rightarrow> string" where
  "pad n i = replicate (n - length (itoa i)) (CHR ''0'') @ itoa i"

definition rfc3339 :: "time \<Rightarrow> string" where
  "rfc3339 t =
    (let secs = t div second; (y, m, d) = civil (secs div 86400); s = secs mod 86400
     in pad 4 y @ ''-'' @ pad 2 m @ ''-'' @ pad 2 d @ ''T'' @ pad 2 (s div 3600) @ '':'' @
        pad 2 (s div 60 mod 60) @ '':'' @ pad 2 (s mod 60) @ ''Z'')"

definition term_time :: "time \<Rightarrow> string" where
  "term_time t = (if is_zero_time t then [] else rfc3339 t)"

definition human_age :: "time \<Rightarrow> time \<Rightarrow> string" where
  "human_age t now =
    (let d0 = time_sub now t; d = (if d0 < 0 then 0 else d0)
     in if d \<ge> 24 * hour then itoa (d div hour div 24) @ ''d''
        else if d \<ge> hour then itoa (d div hour) @ ''h''
        else if d \<ge> minute then itoa (d div minute) @ ''m''
        else itoa (d div second) @ ''s'')"

section \<open>Pods\<close>

definition controller_owner :: "owner_reference list \<Rightarrow> owner_reference option" where
  "controller_owner refs = (case find (\<lambda>r. or_controller r = Some True) refs of Some r \<Rightarrow> Some r
     | None \<Rightarrow> (case refs of [] \<Rightarrow> None | r # _ \<Rightarrow> Some r))"

definition pod_restarts :: "pod \<Rightarrow> int \<times> time" where
  "pod_restarts p = fold (\<lambda>cs (n, latest).
     (n + cs_restart_count cs,
      case cs_last_terminated cs of None \<Rightarrow> latest
      | Some tm \<Rightarrow> if is_zero_time latest \<or> tm_finished_at tm > latest then tm_finished_at tm else latest))
     (p_statuses p) (0, 0)"

definition pod_ready_text :: "pod \<Rightarrow> string" where
  "pod_ready_text p = itoa (int (length (filter cs_ready (p_statuses p)))) @ ''/'' @ itoa (int (length (p_containers p)))"

definition pod_is_ready :: "pod \<Rightarrow> bool" where
  "pod_is_ready p = (if p_statuses p = [] then False else list_all cs_ready (p_statuses p))"

definition pod_image :: "pod \<Rightarrow> string" where
  "pod_image p = (case p_containers p of c # _ \<Rightarrow> c_image c | [] \<Rightarrow> [])"

definition container_reason :: "container_status \<Rightarrow> bool \<Rightarrow> string" where
  "container_reason cs is_init = (case st_waiting (cs_state cs) of Some (r, _) \<Rightarrow> r
     | None \<Rightarrow> (case st_terminated (cs_state cs) of None \<Rightarrow> []
         | Some tm \<Rightarrow> if is_init \<and> tm_exit_code tm = 0 then [] else tm_reason tm))"

definition pod_state :: "unicode_tables \<Rightarrow> pod \<Rightarrow> string" where
  "pod_state u p =
    (if p_deleted p \<noteq> None then ''Terminating''
     else case find (\<lambda>r. r \<noteq> []) (map (\<lambda>cs. line u (container_reason cs True)) (p_init_statuses p)) of
       Some r \<Rightarrow> ''Init:'' @ r
     | None \<Rightarrow> (case find (\<lambda>r. r \<noteq> []) (map (\<lambda>cs. line u (container_reason cs False)) (p_statuses p)) of
         Some r \<Rightarrow> r | None \<Rightarrow> p_phase p))"

definition pod_row_for :: "unicode_tables \<Rightarrow> time \<Rightarrow> pod \<Rightarrow> pod_row" where
  "pod_row_for u now p = (let (restarts, latest) = pod_restarts p in
     \<lparr>row_name = p_name p, row_phase = p_phase p, row_state = pod_state u p, row_ready = pod_ready_text p,
      row_restarts = restarts, row_last_restart = term_time latest, row_node = p_node p, row_ip = p_ip p,
      row_age = human_age (p_created p) now, row_image = pod_image p\<rparr>)"

definition workload_status :: "int \<Rightarrow> int \<Rightarrow> string" where
  "workload_status ready desired = (if desired = 0 then ''Scaled Down''
     else if ready \<ge> desired then ''Running'' else ''Degraded'')"

definition terminal_pod_status :: "pod_row list \<Rightarrow> string" where
  "terminal_pod_status rows =
    (if rows = [] then []
     else if list_ex (\<lambda>r. row_phase r \<noteq> ''Succeeded'' \<and> row_phase r \<noteq> ''Failed'') rows then []
     else if list_ex (\<lambda>r. row_phase r = ''Failed'') rows then ''Failed'' else ''Complete'')"

definition job_status :: "job \<Rightarrow> string" where
  "job_status j =
    (case find (\<lambda>(ty, st). st = ''True'' \<and> (ty = ''Failed'' \<or> ty = ''Complete'')) (j_conditions j) of
       Some (ty, _) \<Rightarrow> ty
     | None \<Rightarrow> if j_active j > 0 then ''Running'' else ''Pending'')"

definition cron_job_status :: "cron_job \<Rightarrow> string" where
  "cron_job_status cj = (if cj_active cj > 0 then ''Active('' @ itoa (int (cj_active cj)) @ '')'' else ''Idle'')"

definition job_pod_cap :: nat where "job_pod_cap = 3"

section \<open>Owners\<close>

record owner =
  ow_kind :: string
  ow_namespace :: string
  ow_name :: string

definition ns_name :: "string \<Rightarrow> string \<Rightarrow> string" where
  "ns_name ns nm = ns @ ''/'' @ nm"

definition rs_to_deploy :: "inputs \<Rightarrow> (string, string) gomap" where
  "rs_to_deploy i = fold (\<lambda>rs m. case controller_owner (rs_owners rs) of
     Some o1 \<Rightarrow> if or_kind o1 = ''Deployment'' then mput (ns_name (rs_namespace rs) (rs_name rs)) (or_name o1) m else m
   | None \<Rightarrow> m) (in_replica_sets i) []"

definition job_to_cron :: "inputs \<Rightarrow> (string, string) gomap" where
  "job_to_cron i = fold (\<lambda>j m. case controller_owner (j_owners j) of
     Some o1 \<Rightarrow> if or_kind o1 = ''CronJob'' then mput (ns_name (j_namespace j) (j_name j)) (or_name o1) m else m
   | None \<Rightarrow> m) (in_jobs i) []"

definition pod_owner :: "inputs \<Rightarrow> pod \<Rightarrow> string \<times> string" where
  "pod_owner i p = (case controller_owner (p_owners p) of
     None \<Rightarrow> (''Pod'', p_name p)
   | Some o1 \<Rightarrow>
       if or_kind o1 = ''ReplicaSet'' then
         (case mget (rs_to_deploy i) (ns_name (p_namespace p) (or_name o1)) of
            Some dep \<Rightarrow> (''Deployment'', dep) | None \<Rightarrow> (''ReplicaSet'', or_name o1))
       else if or_kind o1 = ''Job'' then
         (case mget (job_to_cron i) (ns_name (p_namespace p) (or_name o1)) of
            Some cj \<Rightarrow>
              if ns_name (p_namespace p) cj \<in> set (map (\<lambda>c. ns_name (cj_namespace c) (cj_name c)) (in_cron_jobs i))
              then (''CronJob'', cj) else (''Job'', or_name o1)
          | None \<Rightarrow> (''Job'', or_name o1))
       else (or_kind o1, or_name o1))"

definition pod_owners :: "inputs \<Rightarrow> (string, owner) gomap" where
  "pod_owners i = fold (\<lambda>p. let (kind, nm) = pod_owner i p
     in mput (ns_name (p_namespace p) (p_name p)) \<lparr>ow_kind = kind, ow_namespace = p_namespace p, ow_name = nm\<rparr>)
     (in_pods i) []"

section \<open>Assemble\<close>

definition wkey_of :: "string \<Rightarrow> string \<Rightarrow> string \<Rightarrow> string" where
  "wkey_of kind ns nm = kind @ ''/'' @ ns @ ''/'' @ nm"

definition seed :: "string \<Rightarrow> string \<Rightarrow> string \<Rightarrow> int \<Rightarrow> int \<Rightarrow> (string, workload) gomap \<Rightarrow> (string, workload) gomap" where
  "seed kind ns nm desired ready = mput (wkey_of kind ns nm)
     ((blank_workload kind ns nm)\<lparr>w_desired := desired, w_ready := ready\<rparr>)"

definition seed_job_like :: "string \<Rightarrow> string \<Rightarrow> string \<Rightarrow> string \<Rightarrow> string \<Rightarrow> (string, workload) gomap \<Rightarrow> (string, workload) gomap" where
  "seed_job_like kind ns nm status schedule = mput (wkey_of kind ns nm)
     ((blank_workload kind ns nm)\<lparr>w_status := status, w_schedule := schedule\<rparr>)"

text \<open>The workloads with a controller object: the seeded map, whose keys are \<open>controllerKeys\<close>.\<close>

definition seeded :: "inputs \<Rightarrow> (string, workload) gomap" where
  "seeded i =
    (let m1 = fold (\<lambda>d. seed ''Deployment'' (d_namespace d) (d_name d)
           (case d_replicas d of None \<Rightarrow> 1 | Some n \<Rightarrow> n) (d_ready d)) (in_deployments i) [];
         m2 = fold (\<lambda>d. seed ''StatefulSet'' (d_namespace d) (d_name d)
           (case d_replicas d of None \<Rightarrow> 1 | Some n \<Rightarrow> n) (d_ready d)) (in_stateful_sets i) m1;
         m3 = fold (\<lambda>d. seed ''DaemonSet'' (ds_namespace d) (ds_name d) (ds_desired d) (ds_ready d)) (in_daemon_sets i) m2;
         m4 = fold (\<lambda>c. seed_job_like ''CronJob'' (cj_namespace c) (cj_name c) (cron_job_status c) (cj_schedule c))
           (in_cron_jobs i) m3
     in fold (\<lambda>j m. if map_option or_kind (controller_owner (j_owners j)) = Some ''CronJob'' then m
          else seed_job_like ''Job'' (j_namespace j) (j_name j) (job_status j) [] m) (in_jobs i) m4)"

record assembly =
  as_workloads :: "(string, workload) gomap"
  as_pod_key :: "(string, string) gomap"
  as_derived_ready :: "(string, nat) gomap"

definition add_pod :: "unicode_tables \<Rightarrow> time \<Rightarrow> (string, owner) gomap \<Rightarrow> pod \<Rightarrow> assembly \<Rightarrow> assembly" where
  "add_pod u now owners p a =
    (let o1 = mget_zero \<lparr>ow_kind = [], ow_namespace = [], ow_name = []\<rparr> owners (ns_name (p_namespace p) (p_name p));
         k = wkey_of (ow_kind o1) (p_namespace p) (ow_name o1);
         w = (case mget (as_workloads a) k of Some w \<Rightarrow> w
              | None \<Rightarrow> blank_workload (ow_kind o1) (p_namespace p) (ow_name o1));
         (restarts, latest) = pod_restarts p;
         lt = term_time latest;
         w1 = w\<lparr>w_restarts := w_restarts w + restarts,
           w_last_restart := (if lt \<noteq> [] \<and> lt > w_last_restart w then lt else w_last_restart w),
           w_image := (if w_image w = [] then pod_image p else w_image w),
           w_pods := w_pods w @ [pod_row_for u now p]\<rparr>
     in a\<lparr>as_workloads := mput k w1 (as_workloads a),
          as_derived_ready := (if pod_is_ready p
            then mput k (mget_zero 0 (as_derived_ready a) k + 1) (as_derived_ready a) else as_derived_ready a),
          as_pod_key := mput (ns_name (p_namespace p) (p_name p)) k (as_pod_key a)\<rparr>)"

definition attach_finding :: "finding \<Rightarrow> assembly \<Rightarrow> assembly" where
  "attach_finding f a = (case mget (as_pod_key a) (f_pod f) of None \<Rightarrow> a
     | Some k \<Rightarrow> (case mget (as_workloads a) k of None \<Rightarrow> a
         | Some w \<Rightarrow> a\<lparr>as_workloads := mput k (w\<lparr>w_findings := w_findings w @ [f]\<rparr>) (as_workloads a)\<rparr>))"

definition finish_workload :: "string list \<Rightarrow> (string, nat) gomap \<Rightarrow> string \<times> workload \<Rightarrow> workload" where
  "finish_workload controllers derived = (\<lambda>(k, w).
     let w1 = (if k \<in> set controllers then w
               else let s = terminal_pod_status (w_pods w)
                    in if s \<noteq> [] then w\<lparr>w_desired := 0, w_ready := 0, w_status := s\<rparr>
                       else w\<lparr>w_desired := int (length (w_pods w)), w_ready := int (mget_zero 0 derived k)\<rparr>);
         w2 = (if (w_kind w1 = ''Job'' \<or> w_kind w1 = ''CronJob'') \<and> length (w_pods w1) > job_pod_cap
               then w1\<lparr>w_pods_omitted := length (w_pods w1) - job_pod_cap, w_pods := take job_pod_cap (w_pods w1)\<rparr>
               else w1)
     in if w_status w2 = [] then w2\<lparr>w_status := workload_status (w_ready w2) (w_desired w2)\<rparr> else w2)"

definition sort_key_of :: "workload \<Rightarrow> bool \<times> string \<times> string \<times> string" where
  "sort_key_of w = (\<not> flagged w, w_namespace w, w_name w, w_kind w)"

definition workload_less :: "workload \<Rightarrow> workload \<Rightarrow> bool" where
  "workload_less a b =
    (if flagged a \<noteq> flagged b then flagged a
     else if w_namespace a \<noteq> w_namespace b then w_namespace a < w_namespace b
     else if w_name a \<noteq> w_name b then w_name a < w_name b
     else w_kind a < w_kind b)"

definition sort_workloads :: "workload list \<Rightarrow> workload list" where
  "sort_workloads = sort_slice workload_less"

definition assembled :: "unicode_tables \<Rightarrow> time \<Rightarrow> inputs \<Rightarrow> finding list \<Rightarrow> assembly" where
  "assembled u now i fs = fold attach_finding fs
     (fold (add_pod u now (pod_owners i)) (in_pods i)
        \<lparr>as_workloads = seeded i, as_pod_key = [], as_derived_ready = []\<rparr>)"

definition assemble :: "unicode_tables \<Rightarrow> time \<Rightarrow> inputs \<Rightarrow> finding list \<Rightarrow> workload list" where
  "assemble u now i fs =
    (let a = assembled u now i fs
     in sort_workloads (map (finish_workload (mkeys (seeded i)) (as_derived_ready a)) (as_workloads a)))"

section \<open>Prioritize\<close>

record inv_opts =
  op_include_restarts :: bool
  op_include_cron :: bool

record inv_result =
  ir_workloads :: "workload list"
  ir_hidden_restarts :: nat
  ir_hidden_cron :: nat
  ir_good :: nat
  ir_total :: nat

definition priority_problem :: nat where "priority_problem = 2"
definition priority_restart :: nat where "priority_restart = 3"
definition priority_cron :: nat where "priority_cron = 4"

definition show_as :: "nat \<Rightarrow> workload \<Rightarrow> inv_result \<Rightarrow> inv_result" where
  "show_as prio w r = r\<lparr>ir_workloads := ir_workloads r @ [w\<lparr>w_priority := prio\<rparr>]\<rparr>"

definition prioritize_one :: "inv_opts \<Rightarrow> workload \<Rightarrow> inv_result \<Rightarrow> inv_result" where
  "prioritize_one opts w r0 =
    (let r = (if w_kind w \<noteq> ''Job'' \<and> w_kind w \<noteq> ''CronJob''
              then r0\<lparr>ir_total := ir_total r0 + 1, ir_good := (if flagged w then ir_good r0 else ir_good r0 + 1)\<rparr>
              else r0)
     in if w_kind w = ''CronJob'' then
          (if flagged w then show_as priority_problem w r
           else if op_include_cron opts then show_as priority_cron w r
           else r\<lparr>ir_hidden_cron := ir_hidden_cron r + 1\<rparr>)
        else if flagged w then show_as priority_problem w r
        else if w_restarts w > 0 then
          (if op_include_restarts opts then show_as priority_restart w r
           else r\<lparr>ir_hidden_restarts := ir_hidden_restarts r + 1\<rparr>)
        else r)"

definition shown_less :: "workload \<Rightarrow> workload \<Rightarrow> bool" where
  "shown_less a b =
    (if w_priority a \<noteq> w_priority b then w_priority a < w_priority b
     else if w_namespace a \<noteq> w_namespace b then w_namespace a < w_namespace b
     else if w_name a \<noteq> w_name b then w_name a < w_name b
     else w_kind a < w_kind b)"

definition prioritize :: "workload list \<Rightarrow> inv_opts \<Rightarrow> inv_result" where
  "prioritize ws opts =
    (let r = fold (prioritize_one opts) ws
       \<lparr>ir_workloads = [], ir_hidden_restarts = 0, ir_hidden_cron = 0, ir_good = 0, ir_total = 0\<rparr>
     in r\<lparr>ir_workloads := sort_slice shown_less (ir_workloads r)\<rparr>)"

section \<open>Orders\<close>

interpretation workload_order: slice_less workload_less
  by (rule slice_lessI [of _ sort_key_of])
    (auto simp: workload_less_def sort_key_of_def less_prod_def)

definition shown_key :: "workload \<Rightarrow> nat \<times> string \<times> string \<times> string" where
  "shown_key w = (w_priority w, w_namespace w, w_name w, w_kind w)"

lemma workload_less_key: "workload_less = key_less sort_key_of"
  by (intro ext) (auto simp: workload_less_def key_less_def sort_key_of_def less_prod_def)

lemma shown_less_key: "shown_less = key_less shown_key"
  by (intro ext) (auto simp: shown_less_def key_less_def shown_key_def less_prod_def)

interpretation shown_order: slice_less shown_less
  unfolding shown_less_key by (rule kl.slice_less_axioms)

section \<open>What Prioritize keeps\<close>

definition shown_priority :: "inv_opts \<Rightarrow> workload \<Rightarrow> nat option" where
  "shown_priority opts w =
    (if flagged w then Some priority_problem
     else if w_kind w = ''CronJob'' then (if op_include_cron opts then Some priority_cron else None)
     else if w_restarts w > 0 \<and> op_include_restarts opts then Some priority_restart else None)"

definition long_running :: "workload \<Rightarrow> bool" where
  "long_running w \<longleftrightarrow> w_kind w \<noteq> ''Job'' \<and> w_kind w \<noteq> ''CronJob''"

definition shown :: "inv_opts \<Rightarrow> workload \<Rightarrow> workload option" where
  "shown opts w = map_option (\<lambda>p. w\<lparr>w_priority := p\<rparr>) (shown_priority opts w)"

lemma prioritize_one_eq:
  "prioritize_one opts w r =
    r\<lparr>ir_workloads := ir_workloads r @ (case shown opts w of None \<Rightarrow> [] | Some v \<Rightarrow> [v]),
      ir_hidden_restarts := ir_hidden_restarts r + (if \<not> flagged w \<and> w_kind w \<noteq> ''CronJob'' \<and> w_restarts w > 0 \<and> \<not> op_include_restarts opts then 1 else 0),
      ir_hidden_cron := ir_hidden_cron r + (if \<not> flagged w \<and> w_kind w = ''CronJob'' \<and> \<not> op_include_cron opts then 1 else 0),
      ir_good := ir_good r + (if long_running w \<and> \<not> flagged w then 1 else 0),
      ir_total := ir_total r + (if long_running w then 1 else 0)\<rparr>"
  by (simp add: prioritize_one_def show_as_def shown_def shown_priority_def long_running_def Let_def)

lemma prioritize_fold:
  "fold (prioritize_one opts) ws r =
    r\<lparr>ir_workloads := ir_workloads r @ List.map_filter (shown opts) ws,
      ir_hidden_restarts := ir_hidden_restarts r + length (filter (\<lambda>w. \<not> flagged w \<and> w_kind w \<noteq> ''CronJob'' \<and> w_restarts w > 0 \<and> \<not> op_include_restarts opts) ws),
      ir_hidden_cron := ir_hidden_cron r + length (filter (\<lambda>w. \<not> flagged w \<and> w_kind w = ''CronJob'' \<and> \<not> op_include_cron opts) ws),
      ir_good := ir_good r + length (filter (\<lambda>w. long_running w \<and> \<not> flagged w) ws),
      ir_total := ir_total r + length (filter long_running ws)\<rparr>"
  by (induction ws arbitrary: r) (auto simp: prioritize_one_eq split: option.splits)

section \<open>What Assemble keeps\<close>

definition pod_count :: "workload \<Rightarrow> nat" where
  "pod_count w = length (w_pods w) + w_pods_omitted w"

definition finding_bag :: "workload \<Rightarrow> finding multiset" where
  "finding_bag w = mset (w_findings w)"

definition fresh :: "(string, workload) gomap \<Rightarrow> bool" where
  "fresh m \<longleftrightarrow> mok m \<and> (\<forall>(k, w)\<in>set m. w_pods w = [] \<and> w_pods_omitted w = 0 \<and> w_findings w = [])"

lemma fresh_mput:
  "fresh m \<Longrightarrow> w_pods w = [] \<Longrightarrow> w_pods_omitted w = 0 \<Longrightarrow> w_findings w = [] \<Longrightarrow> fresh (mput k w m)"
  by (auto simp: fresh_def gm.entries_put)

lemma fresh_seed: "fresh m \<Longrightarrow> fresh (seed kind ns nm d r m)"
  and fresh_seed_job: "fresh m \<Longrightarrow> fresh (seed_job_like kind ns nm st sc m)"
  by (simp_all add: seed_def seed_job_like_def fresh_mput blank_workload_def)

lemma fresh_seeded: "fresh (seeded i)"
proof -
  have "fresh []" by (simp add: fresh_def)
  then show ?thesis
    unfolding seeded_def Let_def
    by (intro fold_inv [of _ fresh]) (auto simp: fresh_seed fresh_seed_job)
qed

definition assembly_ok :: "assembly \<Rightarrow> bool" where
  "assembly_ok a \<longleftrightarrow> mok (as_workloads a) \<and>
     (\<forall>ref k. mget (as_pod_key a) ref = Some k \<longrightarrow> mget (as_workloads a) k \<noteq> None) \<and>
     (\<forall>(k, w)\<in>set (as_workloads a). w_pods_omitted w = 0)"

lemma add_pod_step:
  assumes "assembly_ok a"
  shows "assembly_ok (add_pod u now owners p a)"
    and "msum pod_count (as_workloads (add_pod u now owners p a)) = Suc (msum pod_count (as_workloads a))"
    and "dom (mget (as_pod_key (add_pod u now owners p a))) = insert (pod_ref p) (dom (mget (as_pod_key a)))"
    and "msum finding_bag (as_workloads (add_pod u now owners p a)) = msum finding_bag (as_workloads a)"
proof -
  obtain restarts latest where pr: "pod_restarts p = (restarts, latest)" by fastforce
  define o1 where "o1 = mget_zero \<lparr>ow_kind = [], ow_namespace = [], ow_name = []\<rparr> owners (ns_name (p_namespace p) (p_name p))"
  define k where "k = wkey_of (ow_kind o1) (p_namespace p) (ow_name o1)"
  define w where "w = (case mget (as_workloads a) k of Some w \<Rightarrow> w
     | None \<Rightarrow> blank_workload (ow_kind o1) (p_namespace p) (ow_name o1))"
  obtain w1 where w1: "as_workloads (add_pod u now owners p a) = mput k w1 (as_workloads a)"
      "pod_count w1 = Suc (pod_count w)" "w_pods_omitted w1 = w_pods_omitted w"
      "w_findings w1 = w_findings w"
    and key: "as_pod_key (add_pod u now owners p a) = mput (ns_name (p_namespace p) (p_name p)) k (as_pod_key a)"
    by (simp add: add_pod_def Let_def pr o1_def [symmetric] k_def [symmetric] w_def [symmetric] pod_count_def)
  have mok: "mok (as_workloads a)" using assms by (simp add: assembly_ok_def)
  have om: "w_pods_omitted w = 0"
    using assms in_set_mget [OF mok] unfolding w_def assembly_ok_def
    by (fastforce simp: blank_workload_def split: option.splits)
  show "assembly_ok (add_pod u now owners p a)"
    using assms om w1(3) by (auto simp: assembly_ok_def w1(1) key gm.entries_put [OF mok])
  have "pod_count (blank_workload kd ns nm) = 0" for kd ns nm by (simp add: pod_count_def blank_workload_def)
  then show "msum pod_count (as_workloads (add_pod u now owners p a)) = Suc (msum pod_count (as_workloads a))"
    using msum_mput [OF mok, of pod_count k w1] w1(2) by (simp add: w1(1) w_def split: option.splits)
  show "msum finding_bag (as_workloads (add_pod u now owners p a)) = msum finding_bag (as_workloads a)"
    using msum_mput [OF mok, of finding_bag k w1] w1(4)
    by (simp add: w1(1) w_def finding_bag_def blank_workload_def split: option.splits)
  show "dom (mget (as_pod_key (add_pod u now owners p a))) = insert (pod_ref p) (dom (mget (as_pod_key a)))"
    unfolding key by (auto simp: dom_def ns_name_def pod_ref_def)
qed

lemma add_pods_fold:
  assumes "assembly_ok a"
  shows "assembly_ok (fold (add_pod u now owners) ps a) \<and>
    msum pod_count (as_workloads (fold (add_pod u now owners) ps a)) = msum pod_count (as_workloads a) + length ps \<and>
    msum finding_bag (as_workloads (fold (add_pod u now owners) ps a)) = msum finding_bag (as_workloads a) \<and>
    dom (mget (as_pod_key (fold (add_pod u now owners) ps a))) = dom (mget (as_pod_key a)) \<union> pod_ref ` set ps"
  using assms
proof (induction ps arbitrary: a)
  case (Cons p ps)
  from Cons.IH [OF add_pod_step(1) [OF Cons.prems]] show ?case
    by (simp add: add_pod_step [OF Cons.prems])
qed simp

lemma attach_step:
  assumes "assembly_ok a"
  shows "assembly_ok (attach_finding f a)"
    and "as_pod_key (attach_finding f a) = as_pod_key a"
    and "msum pod_count (as_workloads (attach_finding f a)) = msum pod_count (as_workloads a)"
    and "msum finding_bag (as_workloads (attach_finding f a)) = msum finding_bag (as_workloads a) +
           (if f_pod f \<in> dom (mget (as_pod_key a)) then {#f#} else {#})"
proof -
  have mok: "mok (as_workloads a)" using assms by (simp add: assembly_ok_def)
  show "as_pod_key (attach_finding f a) = as_pod_key a" by (simp add: attach_finding_def split: option.split)
  have om: "w_pods_omitted w = 0" if "mget (as_workloads a) k = Some w" for k w
    using assms that in_set_mget [OF mok] by (fastforce simp: assembly_ok_def)
  show "assembly_ok (attach_finding f a)"
    using assms om by (auto simp: assembly_ok_def attach_finding_def gm.entries_put [OF mok] split: option.splits)
  show "msum pod_count (as_workloads (attach_finding f a)) = msum pod_count (as_workloads a)"
  proof (cases "mget (as_pod_key a) (f_pod f)")
    case (Some k)
    have "mget (as_workloads a) k \<noteq> None" using assms Some by (simp only: assembly_ok_def) blast
    then obtain w where w: "mget (as_workloads a) k = Some w" by blast
    show ?thesis
      using msum_mput [OF mok, of pod_count k "w\<lparr>w_findings := w_findings w @ [f]\<rparr>"] Some w
      by (simp add: attach_finding_def pod_count_def)
  qed (simp add: attach_finding_def)
  show "msum finding_bag (as_workloads (attach_finding f a)) = msum finding_bag (as_workloads a) +
      (if f_pod f \<in> dom (mget (as_pod_key a)) then {#f#} else {#})"
  proof (cases "mget (as_pod_key a) (f_pod f)")
    case (Some k)
    have "mget (as_workloads a) k \<noteq> None" using assms Some by (simp only: assembly_ok_def) blast
    then obtain w where w: "mget (as_workloads a) k = Some w" by blast
    show ?thesis
      using msum_mput [OF mok, of finding_bag k "w\<lparr>w_findings := w_findings w @ [f]\<rparr>"] Some w
      by (auto simp: attach_finding_def finding_bag_def domIff)
  qed (simp add: attach_finding_def domIff)
qed

lemma attach_fold:
  assumes "assembly_ok a"
  shows "msum pod_count (as_workloads (fold attach_finding fs a)) = msum pod_count (as_workloads a) \<and>
    msum finding_bag (as_workloads (fold attach_finding fs a)) = msum finding_bag (as_workloads a) +
      mset (filter (\<lambda>f. f_pod f \<in> dom (mget (as_pod_key a))) fs) \<and> assembly_ok (fold attach_finding fs a)"
  using assms
proof (induction fs arbitrary: a)
  case (Cons f fs)
  from Cons.IH [OF attach_step(1) [OF Cons.prems, of f]] show ?case
    by (simp add: attach_step [OF Cons.prems])
qed simp

lemma finish_keeps:
  "w_findings (finish_workload cs d (k, w)) = w_findings w"
  "w_pods_omitted w = 0 \<Longrightarrow> pod_count (finish_workload cs d (k, w)) = pod_count w"
  by (simp_all add: finish_workload_def pod_count_def job_pod_cap_def Let_def)

lemma assembled_ok:
  "assembly_ok (assembled u now i fs) \<and>
   msum pod_count (as_workloads (assembled u now i fs)) = length (in_pods i) \<and>
   msum finding_bag (as_workloads (assembled u now i fs)) =
     mset (filter (\<lambda>f. f_pod f \<in> pod_ref ` set (in_pods i)) fs)"
proof -
  let ?a = "\<lparr>as_workloads = seeded i, as_pod_key = [], as_derived_ready = []\<rparr> :: assembly"
  have fr: "fresh (seeded i)" by (rule fresh_seeded)
  then have "assembly_ok ?a" by (auto simp: assembly_ok_def fresh_def)
  note A = add_pods_fold [OF this, of u now "pod_owners i" "in_pods i"]
  have "msum pod_count (seeded i) = 0" "msum finding_bag (seeded i) = {#}"
    using fr by (auto intro!: msum_zero simp: fresh_def pod_count_def finding_bag_def)
  with A attach_fold [of "fold (add_pod u now (pod_owners i)) (in_pods i) ?a" fs] show ?thesis
    by (simp add: assembled_def)
qed

lemma sum_list_sort: "sum_list (map g (sort_slice lt xs)) = sum_list (map g xs)"
  for g :: "'a \<Rightarrow> 'b::comm_monoid_add"
  by (metis mset_map mset_sort_slice sum_mset_sum_list)

lemma mset_concat_findings: "mset (concat (map w_findings xs)) = sum_list (map finding_bag xs)"
  by (induction xs) (auto simp: finding_bag_def)

section \<open>Properties\<close>

text \<open>
  \<open>Assemble\<close> loses nothing: the pod rows shown and the rows counted as omitted add up to the
  number of pods, every finding about a known pod is attached exactly once, findings about other
  pods are dropped, and the workloads come flagged first, then by namespace, name and kind.
\<close>

theorem assemble_complete:
  "(\<Sum>w\<leftarrow>assemble u now i fs. length (w_pods w) + w_pods_omitted w) = length (in_pods i) \<and>
   mset (concat (map w_findings (assemble u now i fs))) =
     mset (filter (\<lambda>f. f_pod f \<in> pod_ref ` set (in_pods i)) fs) \<and>
   sorted (map sort_key_of (assemble u now i fs))"
proof -
  let ?a = "assembled u now i fs"
  let ?fin = "finish_workload (mkeys (seeded i)) (as_derived_ready ?a)"
  have ok: "assembly_ok ?a" using assembled_ok by blast
  then have om: "\<forall>(k, w)\<in>set (as_workloads ?a). w_pods_omitted w = 0" by (simp add: assembly_ok_def)
  have "(\<Sum>w\<leftarrow>assemble u now i fs. pod_count w) = (\<Sum>e\<leftarrow>as_workloads ?a. pod_count (?fin e))"
    by (simp add: assemble_def Let_def sort_workloads_def sum_list_sort o_def)
  also have "\<dots> = msum pod_count (as_workloads ?a)"
    unfolding msum_def using om by (intro arg_cong [of _ _ sum_list] map_cong) (auto simp: finish_keeps)
  finally have pods: "(\<Sum>w\<leftarrow>assemble u now i fs. pod_count w) = length (in_pods i)" using assembled_ok by simp
  have "mset (concat (map w_findings (assemble u now i fs))) = (\<Sum>e\<leftarrow>as_workloads ?a. finding_bag (?fin e))"
    unfolding mset_concat_findings by (simp add: assemble_def Let_def sort_workloads_def sum_list_sort o_def)
  also have "\<dots> = msum finding_bag (as_workloads ?a)"
    unfolding msum_def by (intro arg_cong [of _ _ sum_list] map_cong) (auto simp: finding_bag_def finish_keeps)
  finally show ?thesis
    using assembled_ok pods kl.sort_sorted [of sort_key_of]
    by (simp add: pod_count_def assemble_def Let_def sort_workloads_def workload_less_key key_sorted_iff)
qed

text \<open>
  \<open>Prioritize\<close>: the census counts every long-running workload and, as good, exactly those that
  are not flagged; every flagged workload is shown, in the first tier; each workload is shown,
  counted as hidden, or healthy and quiet; and the result is sorted by tier, namespace, name and
  kind.
\<close>

theorem prioritize_census:
  "let r = prioritize ws opts in
    ir_total r = length (filter long_running ws) \<and>
    ir_total r - ir_good r = length (filter (\<lambda>w. long_running w \<and> flagged w) ws) \<and> ir_good r \<le> ir_total r \<and>
    (\<lambda>w. w\<lparr>w_priority := priority_problem\<rparr>) ` {w \<in> set ws. flagged w} \<subseteq> set (ir_workloads r) \<and>
    length ws = length (ir_workloads r) + ir_hidden_restarts r + ir_hidden_cron r +
      length (filter (\<lambda>w. \<not> flagged w \<and> w_kind w \<noteq> ''CronJob'' \<and> w_restarts w \<le> 0) ws) \<and>
    sorted (map shown_key (ir_workloads r))"
proof -
  have len: "length ws = length (List.map_filter (shown opts) ws) +
      length (filter (\<lambda>w. \<not> flagged w \<and> w_kind w \<noteq> ''CronJob'' \<and> w_restarts w > 0 \<and> \<not> op_include_restarts opts) ws) +
      length (filter (\<lambda>w. \<not> flagged w \<and> w_kind w = ''CronJob'' \<and> \<not> op_include_cron opts) ws) +
      length (filter (\<lambda>w. \<not> flagged w \<and> w_kind w \<noteq> ''CronJob'' \<and> w_restarts w \<le> 0) ws)"
    by (induction ws) (auto simp: shown_def shown_priority_def)
  have cen: "length (filter long_running ws) = length (filter (\<lambda>w. long_running w \<and> \<not> flagged w) ws) +
      length (filter (\<lambda>w. long_running w \<and> flagged w) ws)"
    by (induction ws) auto
  have kept: "w\<lparr>w_priority := priority_problem\<rparr> \<in> set (List.map_filter (shown opts) ws)"
    if "w \<in> set ws" "flagged w" for w
  proof -
    have "shown opts w = Some (w\<lparr>w_priority := priority_problem\<rparr>)" using that(2) by (simp add: shown_def shown_priority_def)
    then show ?thesis using that(1) unfolding set_map_filter by blast
  qed
  show ?thesis
    using len cen kept kl.sort_sorted [of shown_key]
    by (auto simp: prioritize_def Let_def prioritize_fold shown_less_key key_sorted_iff)
qed

text \<open>
  Pods that have finished are not reported as missing: a pod-derived workload all of whose pods
  have succeeded is not flagged, whatever its readiness, unless a finding is attached to it.
\<close>

theorem finished_not_flagged:
  assumes "k \<notin> set cs" and "w_pods w \<noteq> []" and "list_all (\<lambda>r. row_phase r = ''Succeeded'') (w_pods w)"
    and "w_findings w = []"
  shows "\<not> flagged (finish_workload cs d (k, w)) \<and> w_status (finish_workload cs d (k, w)) = ''Complete''"
proof -
  have "terminal_pod_status (w_pods w) = ''Complete''"
    using assms(2,3) by (auto simp: terminal_pod_status_def list_all_iff list_ex_iff)
  then show ?thesis
    using assms(1,4) by (simp add: finish_workload_def flagged_def Let_def)
qed

definition done_row :: pod_row where
  "done_row = \<lparr>row_name = ''once'', row_phase = ''Succeeded'', row_state = ''Completed'', row_ready = ''0/1'',
     row_restarts = 0, row_last_restart = [], row_node = ''n1'', row_ip = [], row_age = ''5m'', row_image = ''busybox''\<rparr>"

theorem finished_not_flagged_witness:
  "let w = (blank_workload ''Pod'' ''shop'' ''once'')\<lparr>w_pods := [done_row]\<rparr>
   in \<not> flagged (finish_workload [] [] (''Pod/shop/once'', w)) \<and>
      w_status (finish_workload [] [] (''Pod/shop/once'', w)) = ''Complete''"
  unfolding Let_def
  by (rule finished_not_flagged) (simp_all add: blank_workload_def done_row_def)

end
