(* ===== verification/Scan_Result.thy ===== *)
theory Scan_Result
  imports Inventory
begin

text \<open>
  What a scan returns: the issue types of the health packages and the fields of \<open>scan.Result\<close>
  (\<open>internal/scan/scan.go\<close>) that the gate and the daemon read. The cluster, the certificates and the
  volumes contribute the names the readers use.
\<close>

record service_issue =
  si_namespace :: string
  si_name :: string
  si_type :: string
  si_problem :: string
  si_detail :: string
  si_since :: string
  si_expected :: bool
  si_backing :: string

record route_issue =
  ri_namespace :: string
  ri_ingress :: string
  ri_host :: string
  ri_path :: string
  ri_service :: string
  ri_port :: string
  ri_problem :: string
  ri_detail :: string
  ri_expected :: bool

record pvc_issue =
  vi_namespace :: string
  vi_name :: string
  vi_phase :: string
  vi_reason :: string
  vi_detail :: string
  vi_storage_class :: string

record term_issue =
  ti_kind :: string
  ti_namespace :: string
  ti_name :: string
  ti_age :: string
  ti_past_grace :: bool
  ti_reason :: string

record pdb_issue =
  bi_namespace :: string
  bi_name :: string
  bi_rule :: string
  bi_category :: string
  bi_reason :: string

record hpa_issue =
  hi_namespace :: string
  hi_name :: string
  hi_target :: string
  hi_category :: string
  hi_reason :: string

record webhook_issue =
  wi_kind :: string
  wi_config :: string
  wi_webhook :: string
  wi_service :: string
  wi_problem :: string
  wi_reason :: string

record quota_issue =
  qi_namespace :: string
  qi_quota :: string
  qi_resource :: string
  qi_used :: string
  qi_hard :: string
  qi_ratio :: rat
  qi_severity :: string

record read_failure =
  rf_resource :: string
  rf_reason :: string

record cert_report =
  cr_expired :: "(string \<times> string) list"
  cr_expiring :: "(string \<times> string) list"
  cr_invalid :: "(string \<times> string) list"

record volume_usage =
  vu_kind :: string
  vu_namespace :: string
  vu_name :: string
  vu_node :: string

record scan_result =
  sr_inventory :: inv_result
  sr_services :: "service_issue list"
  sr_ingresses :: "route_issue list"
  sr_pvcs :: "pvc_issue list"
  sr_stuck :: "term_issue list"
  sr_pdbs :: "pdb_issue list"
  sr_hpas :: "hpa_issue list"
  sr_webhooks :: "webhook_issue list"
  sr_quotas :: "quota_issue list"
  sr_down_nodes :: "(string \<times> string) list"
  sr_kubelets :: "string list"
  sr_control_plane :: string
  sr_dns :: string
  sr_certs :: "cert_report option"
  sr_disk :: "volume_usage list"
  sr_partial_reads :: "read_failure list"

end
