(* ===== verification/Policy_Path.thy ===== *)
theory Policy_Path
  imports Safetext
begin

text \<open>
  \<open>internal/policy/path.go\<close>: the paths of a policy rule and the slots they name in an object.
  A decoded object is a value of \<open>json\<close>; Go's \<open>any\<close> may hold anything else, which \<open>JOther\<close> stands for.
  The visitor of \<open>walk\<close> is a function on an explicit state that also says whether to go on.
\<close>

section \<open>Values\<close>

text \<open>A float64: not a number, an infinity, or a sign and an exact magnitude.\<close>

datatype float64 = NaN | Inf bool | Finite bool rat

datatype json =
    JNull
  | JBool bool
  | JInt int
  | JFloat float64
  | JStr string
  | JList "json list"
  | JObj "(string \<times> json) list"
  | JOther

record slot =
  s_present :: bool
  s_value :: json

definition absent :: slot where
  "absent = \<lparr>s_present = False, s_value = JNull\<rparr>"

definition present :: "json \<Rightarrow> slot" where
  "present v = \<lparr>s_present = True, s_value = v\<rparr>"

lemma slot_simps [simp]:
  "s_present absent = False" "s_present (present v) = True" "s_value (present v) = v"
  "present v \<noteq> absent"
  by (simp_all add: absent_def present_def)

section \<open>Parsing a path\<close>

record segment =
  seg_key :: string
  seg_wildcard :: bool

definition seg :: "string \<Rightarrow> bool \<Rightarrow> segment" where
  "seg k w = \<lparr>seg_key = k, seg_wildcard = w\<rparr>"

lemma seg_simps [simp]: "seg_key (seg k w) = k" "seg_wildcard (seg k w) = w"
  "seg k w = seg k' w' \<longleftrightarrow> k = k' \<and> w = w'" "seg (seg_key s) (seg_wildcard s) = s"
  by (simp_all add: seg_def)

text \<open>One constructor for each error text of \<open>parsePath\<close> and \<open>parseQuotedKey\<close>.\<close>

datatype path_error = Path_empty | Empty_segment | Star_without_field | Stray_bracket string
  | Bad_bracket string | Unterminated_key | Empty_key | Quote_in_key

definition star :: string where "star = ''[*]''"
definition open_quote :: string where "open_quote = [CHR ''['', CHR 0x22]"
definition close_quote :: string where "close_quote = [CHR 0x22, CHR '']'']"

text \<open>
  \<open>parseQuotedKey\<close>: the text from position \<open>i\<close> on goes in, the key and the text after the closing bracket
  come out.
\<close>

definition parse_quoted_key :: "string \<Rightarrow> path_error + (string \<times> string)" where
  "parse_quoted_key rest =
    (if \<not> has_prefix rest open_quote then Inl (Bad_bracket rest)
     else case str_index (drop 2 rest) close_quote of
       None \<Rightarrow> Inl Unterminated_key
     | Some e \<Rightarrow>
        let key = take e (drop 2 rest) in
        if key = [] then Inl Empty_key
        else if CHR 0x22 \<in> set key then Inl Quote_in_key
        else Inr (key, drop (2 + e + 2) rest))"

text \<open>One segment of the loop in \<open>parsePath\<close>: the \<open>switch\<close>.\<close>

definition in_name :: "char \<Rightarrow> bool" where
  "in_name c \<longleftrightarrow> c \<noteq> CHR ''.'' \<and> c \<noteq> CHR ''[''"

definition parse_segment :: "string \<Rightarrow> path_error + (segment \<times> string)" where
  "parse_segment rest =
    (if has_prefix rest ''.'' then Inl Empty_segment
     else if has_prefix rest star then Inl Star_without_field
     else if has_prefix rest ''['' then
       (case parse_quoted_key rest of Inl e \<Rightarrow> Inl e | Inr (key, next) \<Rightarrow> Inr (seg key False, next))
     else
       let key = takeWhile in_name rest; after = dropWhile in_name rest in
       if CHR '']'' \<in> set key then Inl (Stray_bracket key)
       else if has_prefix after star then Inr (seg key True, drop 3 after)
       else Inr (seg key False, after))"

lemma parse_segment_shrinks:
  assumes "parse_segment rest = Inr (s, next)" and "rest \<noteq> []"
  shows "length next < length rest"
proof (cases "has_prefix rest ''[''")
  case True
  with assms show ?thesis
    by (auto simp: parse_segment_def parse_quoted_key_def Let_def
        split: if_splits sum.splits option.splits)
next
  case False
  with assms have "takeWhile in_name rest \<noteq> []"
    by (cases rest) (auto simp: parse_segment_def in_name_def has_prefix_def split: if_splits)
  then have "length (dropWhile in_name rest) < length rest"
    by (metis length_append length_greater_0_conv less_add_same_cancel2 takeWhile_dropWhile_id)
  with False assms show ?thesis
    by (auto simp: parse_segment_def Let_def split: if_splits)
qed

text \<open>The loop; what follows a segment is a dot, or the next segment at once.\<close>

definition skip_dot :: "string \<Rightarrow> path_error + string" where
  "skip_dot rest =
    (if has_prefix rest ''.'' then (if drop 1 rest = [] then Inl Empty_segment else Inr (drop 1 rest))
     else Inr rest)"

lemma skip_dot_length: "skip_dot a = Inr b \<Longrightarrow> length b \<le> length a"
  by (auto simp: skip_dot_def split: if_splits)

function parse_segments :: "string \<Rightarrow> path_error + segment list" where
  "parse_segments rest =
    (if rest = [] then Inr []
     else case parse_segment rest of
       Inl e \<Rightarrow> Inl e
     | Inr (s, next) \<Rightarrow>
        (case skip_dot next of
          Inl e \<Rightarrow> Inl e
        | Inr rest' \<Rightarrow> (case parse_segments rest' of Inl e \<Rightarrow> Inl e | Inr segs \<Rightarrow> Inr (s # segs))))"
  by pat_completeness auto
termination
  by (relation "measure length") (auto dest!: parse_segment_shrinks skip_dot_length)

declare parse_segments.simps [simp del]

definition parse_path :: "string \<Rightarrow> path_error + segment list" where
  "parse_path path = (if path = [] then Inl Path_empty else parse_segments path)"

section \<open>Walking an object\<close>

text \<open>The inner loop over the elements of a list, left as soon as the visitor answers no.\<close>

fun each :: "('a \<Rightarrow> 's \<Rightarrow> bool \<times> 's) \<Rightarrow> 'a list \<Rightarrow> 's \<Rightarrow> bool \<times> 's" where
  "each f [] st = (True, st)"
| "each f (x # xs) st = (case f x st of (False, st') \<Rightarrow> (False, st') | (True, st') \<Rightarrow> each f xs st')"

text \<open>
  \<open>walkFrom\<close>. The slots a plain segment and a wildcard lead to are the branches of one step.
\<close>

fun walk_from :: "(slot \<Rightarrow> 's \<Rightarrow> bool \<times> 's) \<Rightarrow> segment list \<Rightarrow> slot \<Rightarrow> 's \<Rightarrow> bool \<times> 's" where
  "walk_from visit [] s st = visit s st"
| "walk_from visit (g # rest) s st =
    (if \<not> s_present s then walk_from visit rest absent st
     else case s_value s of
       JObj m \<Rightarrow>
        (case mget m (seg_key g) of
          None \<Rightarrow> walk_from visit rest absent st
        | Some v \<Rightarrow>
           if v = JNull then walk_from visit rest absent st
           else if \<not> seg_wildcard g then walk_from visit rest (present v) st
           else (case v of
              JList es \<Rightarrow> each (\<lambda>e. walk_from visit rest (present e)) es st
            | _ \<Rightarrow> walk_from visit rest absent st))
     | _ \<Rightarrow> walk_from visit rest absent st)"

definition walk :: "(string \<times> json) list \<Rightarrow> segment list \<Rightarrow> (slot \<Rightarrow> 's \<Rightarrow> bool \<times> 's) \<Rightarrow> 's \<Rightarrow> 's" where
  "walk obj segs visit st = snd (walk_from visit segs (present (JObj obj)) st)"

section \<open>The slots a path names\<close>

text \<open>
  The specification: one step leads from a slot to a list of slots, and a path names the slots all its
  steps lead to, in order.
\<close>

definition successors :: "segment \<Rightarrow> slot \<Rightarrow> slot list" where
  "successors g s =
    (if \<not> s_present s then [absent]
     else case s_value s of
       JObj m \<Rightarrow>
        (case mget m (seg_key g) of
          None \<Rightarrow> [absent]
        | Some v \<Rightarrow> if v = JNull then [absent] else if \<not> seg_wildcard g then [present v]
            else (case v of JList es \<Rightarrow> map present es | _ \<Rightarrow> [absent]))
     | _ \<Rightarrow> [absent])"

fun resolve :: "segment list \<Rightarrow> slot \<Rightarrow> slot list" where
  "resolve [] s = [s]"
| "resolve (g # rest) s = concat (map (resolve rest) (successors g s))"

lemma each_append:
  "each f (xs @ ys) st = (case each f xs st of (False, st') \<Rightarrow> (False, st') | (True, st') \<Rightarrow> each f ys st')"
  by (induction xs arbitrary: st) (auto split: prod.splits bool.splits)

lemma each_concat: "each f (concat (map g xs)) st = each (\<lambda>x. each f (g x)) xs st"
  by (induction xs arbitrary: st) (auto simp: each_append split: prod.splits bool.splits)

lemma each_cong: "(\<And>x st. x \<in> set xs \<Longrightarrow> f x st = g x st) \<Longrightarrow> each f xs st = each g xs st"
  by (induction xs arbitrary: st) (auto split: prod.splits bool.splits)

lemma each_single [simp]: "each f [x] st = f x st"
  by (auto split: prod.splits bool.splits)

lemma each_map: "each f (map g xs) st = each (\<lambda>x. f (g x)) xs st"
  by (induction xs arbitrary: st) (auto split: prod.splits bool.splits)

lemma walk_from_step:
  "walk_from visit (g # rest) s st = each (walk_from visit rest) (successors g s) st"
  by (auto simp: successors_def each_map simp del: each.simps split: json.splits option.splits)

lemma walk_from_resolve: "walk_from visit segs s st = each visit (resolve segs s) st"
proof (induction segs arbitrary: s st)
  case (Cons g rest)
  have "walk_from visit (g # rest) s st = each (\<lambda>s. each visit (resolve rest s)) (successors g s) st"
    unfolding walk_from_step by (rule each_cong) (rule Cons.IH)
  then show ?case by (simp add: each_concat)
qed (simp del: each.simps)

lemma walk_resolve: "walk obj segs visit st = snd (each visit (resolve segs (present (JObj obj))) st)"
  by (simp add: walk_def walk_from_resolve)

text \<open>Arity: without a wildcard a path names exactly one slot.\<close>

lemma length_successors: "\<not> seg_wildcard g \<Longrightarrow> length (successors g s) = 1"
  by (auto simp: successors_def split: json.splits option.splits)

lemma length_resolve: "(\<And>g. g \<in> set segs \<Longrightarrow> \<not> seg_wildcard g) \<Longrightarrow> length (resolve segs s) = 1"
proof (induction segs arbitrary: s)
  case (Cons g rest)
  then obtain s' where "successors g s = [s']"
    using length_successors [of g s] by (auto simp: length_Suc_conv)
  with Cons show ?case by simp
qed simp

lemma resolve_absent: "resolve segs absent = [absent]"
  by (induction segs) (simp_all add: successors_def)

section \<open>Writing a path\<close>

text \<open>
  The segments a path can hold, and the text that writes them: a key with no bracket or dot bare, any
  other in the bracket-quoted form, a dot before a bare key only.
\<close>

definition bare_key :: "string \<Rightarrow> bool" where
  "bare_key k \<longleftrightarrow> k \<noteq> [] \<and> list_all in_name k \<and> CHR '']'' \<notin> set k"

definition segment_ok :: "segment \<Rightarrow> bool" where
  "segment_ok g \<longleftrightarrow> bare_key (seg_key g) \<or>
     \<not> seg_wildcard g \<and> seg_key g \<noteq> [] \<and> CHR 0x22 \<notin> set (seg_key g)"

definition print_segment :: "segment \<Rightarrow> string" where
  "print_segment g =
    (if bare_key (seg_key g) then seg_key g @ (if seg_wildcard g then star else [])
     else open_quote @ seg_key g @ close_quote)"

definition print_next :: "segment \<Rightarrow> string" where
  "print_next g = (if bare_key (seg_key g) then ''.'' else []) @ print_segment g"

fun print_path :: "segment list \<Rightarrow> string" where
  "print_path [] = []"
| "print_path (g # gs) = print_segment g @ concat (map print_next gs)"

lemma str_index_append:
  "c \<notin> set a \<Longrightarrow> str_index (a @ (c # cs) @ b) (c # cs) = Some (length a)"
proof (induction a)
  case Nil
  then show ?case by (simp add: has_prefix_def)
next
  case (Cons d a)
  then show ?case by (auto simp: has_prefix_def)
qed

lemma parse_quoted_print:
  assumes "k \<noteq> []" and "CHR 0x22 \<notin> set k"
  shows "parse_quoted_key (open_quote @ k @ close_quote @ rest) = Inr (k, rest)"
  using str_index_append [OF assms(2), of "'']''" rest] assms
  by (simp add: parse_quoted_key_def open_quote_def close_quote_def has_prefix_def numeral_2_eq_2)

lemma parse_segment_quoted:
  assumes "k \<noteq> []" and "CHR 0x22 \<notin> set k"
  shows "parse_segment (open_quote @ k @ close_quote @ rest) = Inr (seg k False, rest)"
  using parse_quoted_print [OF assms, of rest]
  by (simp add: parse_segment_def has_prefix_def star_def open_quote_def)

lemma bare_key_split:
  assumes "bare_key k" and "rest = [] \<or> \<not> in_name (hd rest)"
  shows "takeWhile in_name (k @ rest) = k" and "dropWhile in_name (k @ rest) = rest"
  using assms by (cases rest; simp add: bare_key_def list_all_iff)+

lemma bare_key_hd: "bare_key k \<Longrightarrow> \<exists>c cs. k = c # cs \<and> c \<noteq> CHR ''.'' \<and> c \<noteq> CHR ''[''"
  by (cases k) (auto simp: bare_key_def in_name_def)

lemma parse_segment_bare:
  assumes "bare_key k" and "after = [] \<or> \<not> in_name (hd after)"
  shows "parse_segment (k @ after) =
    Inr (if has_prefix after star then (seg k True, drop 3 after) else (seg k False, after))"
proof -
  obtain c cs where "k = c # cs" "c \<noteq> CHR ''.''" "c \<noteq> CHR ''[''"
    using bare_key_hd [OF assms(1)] by blast
  moreover have "CHR '']'' \<notin> set k" using assms(1) by (simp add: bare_key_def)
  ultimately show ?thesis
    using bare_key_split [OF assms] by (simp add: parse_segment_def has_prefix_def star_def Let_def)
qed

text \<open>What may follow a printed segment.\<close>

definition follows :: "string \<Rightarrow> bool" where
  "follows rest \<longleftrightarrow> rest = [] \<or> has_prefix rest ''.'' \<or> has_prefix rest open_quote"

lemma has_prefix_Cons: "has_prefix s (c # p) \<longleftrightarrow> (\<exists>r. s = c # r \<and> has_prefix r p)"
  by (cases s) (auto simp: has_prefix_def)

lemma parse_segment_print:
  assumes "segment_ok g" and "follows rest"
  shows "parse_segment (print_segment g @ rest) = Inr (g, rest)"
proof (cases "bare_key (seg_key g)")
  case True
  have rest: "rest = [] \<or> \<not> in_name (hd rest)" "\<not> has_prefix rest star"
    using assms(2) by (auto simp: follows_def has_prefix_Cons in_name_def open_quote_def star_def)
  have star: "\<not> in_name (hd (star @ rest))" "has_prefix (star @ rest) star" "drop 3 (star @ rest) = rest"
    by (simp_all add: star_def in_name_def has_prefix_Cons)
  show ?thesis
  proof (cases "seg_wildcard g")
    case True
    with \<open>bare_key (seg_key g)\<close> star show ?thesis
      using parse_segment_bare [of "seg_key g" "star @ rest"] seg_simps(4) [of g]
      by (simp add: print_segment_def)
  next
    case False
    with \<open>bare_key (seg_key g)\<close> rest show ?thesis
      using parse_segment_bare [of "seg_key g" rest] seg_simps(4) [of g]
      by (simp add: print_segment_def)
  qed
next
  case False
  with assms(1) have "\<not> seg_wildcard g" "seg_key g \<noteq> []" "CHR 0x22 \<notin> set (seg_key g)"
    by (simp_all add: segment_ok_def)
  with False show ?thesis
    using parse_segment_quoted [of "seg_key g" rest] seg_simps(4) [of g]
    by (simp add: print_segment_def)
qed

lemma print_segment_nonempty: "print_segment g \<noteq> []"
  by (auto simp: print_segment_def bare_key_def open_quote_def)

lemma follows_print_next: "follows (concat (map print_next gs))"
  by (cases gs) (auto simp: follows_def print_next_def print_segment_def has_prefix_Cons)

lemma skip_dot_print:
  "segment_ok g \<Longrightarrow> skip_dot (print_next g @ rest) = Inr (print_segment g @ rest)"
  using print_segment_nonempty [of g]
  by (auto simp: skip_dot_def print_next_def print_segment_def open_quote_def has_prefix_Cons)

lemma parse_segments_print:
  "list_all segment_ok (g # gs) \<Longrightarrow>
   parse_segments (print_segment g @ concat (map print_next gs)) = Inr (g # gs)"
proof (induction gs arbitrary: g)
  case Nil
  then show ?case
    using parse_segment_print [of g "[]"] print_segment_nonempty [of g]
    by (simp add: parse_segments.simps [of "print_segment g"] follows_def skip_dot_def has_prefix_def
        parse_segments.simps [of "[]"])
next
  case (Cons h hs)
  let ?rest = "concat (map print_next hs)"
  have "parse_segment (print_segment g @ print_next h @ ?rest) = Inr (g, print_next h @ ?rest)"
    using Cons.prems parse_segment_print [of g "print_next h @ ?rest"] follows_print_next [of "h # hs"]
    by simp
  moreover have "skip_dot (print_next h @ ?rest) = Inr (print_segment h @ ?rest)"
    using Cons.prems by (simp add: skip_dot_print)
  moreover have "parse_segments (print_segment h @ ?rest) = Inr (h # hs)"
    using Cons.prems Cons.IH [of h] by simp
  ultimately show ?case
    using print_segment_nonempty [of g]
    by (simp add: parse_segments.simps [of "print_segment g @ print_next h @ ?rest"])
qed

text \<open>Everything \<open>parsePath\<close> accepts is such a list.\<close>

lemma parse_segment_ok: "parse_segment rest = Inr (g, next) \<Longrightarrow> rest \<noteq> [] \<Longrightarrow> segment_ok g"
proof (cases "has_prefix rest ''[''")
  case True
  moreover assume "parse_segment rest = Inr (g, next)"
  ultimately show ?thesis
    by (auto simp: parse_segment_def parse_quoted_key_def segment_ok_def Let_def
        split: if_splits sum.splits option.splits)
next
  case False
  assume "parse_segment rest = Inr (g, next)" and "rest \<noteq> []"
  with False have "seg_key g = takeWhile in_name rest" "bare_key (seg_key g)"
    by (cases rest; auto simp: parse_segment_def bare_key_def list_all_iff Let_def in_name_def
        has_prefix_Cons split: if_splits dest: set_takeWhileD)+
  then show ?thesis by (simp add: segment_ok_def)
qed

lemma parse_segments_ok: "parse_segments rest = Inr segs \<Longrightarrow> list_all segment_ok segs"
proof (induction rest arbitrary: segs rule: parse_segments.induct)
  case (1 rest)
  show ?case
  proof (cases "rest = []")
    case True
    with 1(2) show ?thesis by (simp add: parse_segments.simps [of "[]"])
  next
    case False
    with 1(2) obtain g nxt rest' segs' where *: "parse_segment rest = Inr (g, nxt)" "skip_dot nxt = Inr rest'"
      "parse_segments rest' = Inr segs'" "segs = g # segs'"
      by (auto simp: parse_segments.simps [of rest] split: sum.splits)
    then have "segment_ok g" using parse_segment_ok False by blast
    moreover have "list_all segment_ok segs'" by (rule 1(1) [OF False *(1) refl *(2) *(3)])
    ultimately show ?thesis using * by simp
  qed
qed

lemma parse_path_nonempty: "parse_path path = Inr segs \<Longrightarrow> segs \<noteq> []"
  by (auto simp: parse_path_def parse_segments.simps [of path] split: if_splits sum.splits)


end
