(* ===== verification/Glob.thy ===== *)
theory Glob
  imports Go_Strings
begin

text \<open>
  The matcher of \<open>internal/glob/glob.go\<close>: \<open>match_loop\<close> is the loop of \<open>Match\<close> with its four
  cursors (\<open>starP\<close> is \<open>None\<close> where Go has -1), \<open>skip_stars\<close> the loop over trailing stars. The
  inductive predicate \<open>glob_matches\<close> says what a pattern means; the lemma \<open>glob_match_iff\<close> is that
  backtracking to the last star alone decides it.
\<close>

abbreviation star :: char where
  "star \<equiv> CHR ''*''"

abbreviation qmark :: char where
  "qmark \<equiv> CHR ''?''"

function skip_stars :: "string \<Rightarrow> nat \<Rightarrow> nat" where
  "skip_stars pattern p =
    (if p < length pattern \<and> pattern ! p = star then skip_stars pattern (p + 1) else p)"
  by pat_completeness auto
termination
  by (relation "measure (\<lambda>(pattern, p). length pattern - p)") auto

function match_loop :: "string \<Rightarrow> string \<Rightarrow> nat \<Rightarrow> nat \<Rightarrow> nat option \<Rightarrow> nat \<Rightarrow> bool" where
  "match_loop pattern s p i starP starI =
    (if i < length s then
       if p < length pattern \<and> pattern ! p = star then
         match_loop pattern s (p + 1) i (Some p) i
       else if p < length pattern \<and> (pattern ! p = qmark \<or> pattern ! p = s ! i) then
         match_loop pattern s (p + 1) (i + 1) starP starI
       else (case starP of
           Some sp \<Rightarrow> match_loop pattern s (sp + 1) (starI + 1) starP (starI + 1)
         | None \<Rightarrow> False)
     else skip_stars pattern p = length pattern)"
  by pat_completeness auto
termination
  by (relation "measures
      [\<lambda>(pattern, s, p, i, starP, starI).
         case starP of Some sp \<Rightarrow> if sp < p then length pattern - sp else length pattern + 1
         | None \<Rightarrow> length pattern + 1,
       \<lambda>(pattern, s, p, i, starP, starI). length s - starI,
       \<lambda>(pattern, s, p, i, starP, starI). length s - i]")
    (auto split: option.splits)

declare skip_stars.simps [simp del] match_loop.simps [simp del]

definition glob_match :: "string \<Rightarrow> string \<Rightarrow> bool" where
  "glob_match pattern s = match_loop pattern s 0 0 None 0"

section \<open>What a pattern means\<close>

inductive glob_matches :: "string \<Rightarrow> string \<Rightarrow> bool" where
  stop: "glob_matches [] []"
| run: "glob_matches p s \<Longrightarrow> glob_matches (star # p) (xs @ s)"
| one: "glob_matches p s \<Longrightarrow> glob_matches (qmark # p) (c # s)"
| lit: "c \<noteq> star \<Longrightarrow> c \<noteq> qmark \<Longrightarrow> glob_matches p s \<Longrightarrow> glob_matches (c # p) (c # s)"

inductive_simps glob_matches_Nil [simp]: "glob_matches [] s"
inductive_cases glob_matches_ConsE: "glob_matches (c # p) s"

lemma glob_matches_star:
  "glob_matches (star # p) s \<longleftrightarrow> (\<exists>k \<le> length s. glob_matches p (drop k s))"
proof
  assume "glob_matches (star # p) s"
  then obtain xs s' where "s = xs @ s'" and "glob_matches p s'"
    by (auto elim: glob_matches_ConsE)
  then show "\<exists>k \<le> length s. glob_matches p (drop k s)"
    by (intro exI [of _ "length xs"]) simp
next
  assume "\<exists>k \<le> length s. glob_matches p (drop k s)"
  then show "glob_matches (star # p) s"
    by (metis append_take_drop_id glob_matches.run)
qed

lemma glob_matches_nonstar:
  assumes "c \<noteq> star"
  shows "glob_matches (c # p) s \<longleftrightarrow> (\<exists>d r. s = d # r \<and> (c = qmark \<or> c = d) \<and> glob_matches p r)"
  using assms by (auto elim: glob_matches_ConsE intro: glob_matches.intros)

lemma glob_matches_segment:
  "star \<notin> set seg \<Longrightarrow> glob_matches (seg @ p) s \<Longrightarrow>
   length seg \<le> length s \<and> glob_matches p (drop (length seg) s)"
  by (induction seg arbitrary: s) (auto simp: glob_matches_nonstar)

lemma glob_matches_empty: "glob_matches p [] \<longleftrightarrow> set p \<subseteq> {star}"
proof (induction p)
  case (Cons c p)
  then show ?case
    by (cases "c = star") (auto simp: glob_matches_star glob_matches_nonstar)
qed simp

lemma skip_stars_end:
  "p \<le> length pattern \<Longrightarrow> skip_stars pattern p = length pattern \<longleftrightarrow> set (drop p pattern) \<subseteq> {star}"
proof (induction pattern p rule: skip_stars.induct)
  case (1 pattern p)
  show ?case
  proof (cases "p < length pattern")
    case True
    then have "drop p pattern = pattern ! p # drop (p + 1) pattern"
      by (simp add: Cons_nth_drop_Suc)
    with 1 True show ?thesis by (subst skip_stars.simps) auto
  next
    case False
    with 1 show ?thesis by (subst skip_stars.simps) auto
  qed
qed

section \<open>The loop against the meaning\<close>

text \<open>
  The invariant of the loop: since the last star at \<open>sp\<close> the two cursors advanced together, and the
  pattern bytes in between hold no star.
\<close>

definition loop_inv :: "string \<Rightarrow> string \<Rightarrow> nat \<Rightarrow> nat \<Rightarrow> nat option \<Rightarrow> nat \<Rightarrow> bool" where
  "loop_inv pattern s p i starP starI \<longleftrightarrow> p \<le> length pattern \<and> i \<le> length s \<and>
    (\<forall>sp. starP = Some sp \<longrightarrow> sp < p \<and> i = starI + (p - (sp + 1)) \<and>
       star \<notin> set (take (p - (sp + 1)) (drop (sp + 1) pattern)))"

text \<open>What is still open in a state: the rest matches here, or the last star takes more bytes.\<close>

definition still_open :: "string \<Rightarrow> string \<Rightarrow> nat \<Rightarrow> nat \<Rightarrow> nat option \<Rightarrow> nat \<Rightarrow> bool" where
  "still_open pattern s p i starP starI \<longleftrightarrow>
    glob_matches (drop p pattern) (drop i s) \<or>
    (\<exists>sp k. starP = Some sp \<and> starI < k \<and> k \<le> length s \<and>
       glob_matches (drop (sp + 1) pattern) (drop k s))"

lemma earlier_star_subsumed:
  assumes inv: "loop_inv pattern s p i (Some sp) starI" and k: "starI < k" "k \<le> length s"
    and m: "glob_matches (drop (sp + 1) pattern) (drop k s)"
  shows "\<exists>j. i < j \<and> j \<le> length s \<and> glob_matches (drop p pattern) (drop j s)"
proof -
  let ?n = "p - (sp + 1)"
  from inv have sp: "sp < p" "p \<le> length pattern" and i: "i = starI + ?n"
    and nostar: "star \<notin> set (take ?n (drop (sp + 1) pattern))"
    by (auto simp: loop_inv_def)
  have "drop (sp + 1) pattern = take ?n (drop (sp + 1) pattern) @ drop p pattern"
    using sp by (metis (no_types, lifting) Suc_eq_plus1 Suc_leI append_take_drop_id drop_drop
        le_add_diff_inverse2)
  with m nostar glob_matches_segment
  have *: "length (take ?n (drop (sp + 1) pattern)) \<le> length (drop k s)"
    "glob_matches (drop p pattern) (drop (length (take ?n (drop (sp + 1) pattern))) (drop k s))"
    by metis+
  moreover have "length (take ?n (drop (sp + 1) pattern)) = ?n" using sp by simp
  ultimately show ?thesis using k i
    by (intro exI [of _ "k + ?n"]) (auto simp: add.commute)
qed

lemma ex_drop_shift:
  assumes "i \<le> length s"
  shows "(\<exists>k \<le> length (drop i s). P (drop k (drop i s))) \<longleftrightarrow>
    (\<exists>j. i \<le> j \<and> j \<le> length s \<and> P (drop j s))" (is "?l \<longleftrightarrow> ?r")
proof
  assume ?l
  then obtain k where "k \<le> length (drop i s)" "P (drop k (drop i s))" by blast
  then show ?r using assms by (intro exI [of _ "k + i"]) auto
next
  assume ?r
  then obtain j where "i \<le> j" "j \<le> length s" "P (drop j s)" by blast
  then show ?l by (intro exI [of _ "j - i"]) auto
qed

lemma star_step:
  assumes inv: "loop_inv pattern s p i starP starI" and p: "p < length pattern" "pattern ! p = star"
  shows "still_open pattern s (p + 1) i (Some p) i \<longleftrightarrow> still_open pattern s p i starP starI"
proof -
  have d: "drop p pattern = star # drop (p + 1) pattern"
    using p by (metis Cons_nth_drop_Suc Suc_eq_plus1)
  have i: "i \<le> length s" using inv by (simp add: loop_inv_def)
  have new: "still_open pattern s (p + 1) i (Some p) i \<longleftrightarrow> glob_matches (drop p pattern) (drop i s)"
  proof -
    have "glob_matches (drop p pattern) (drop i s) \<longleftrightarrow>
        (\<exists>j. i \<le> j \<and> j \<le> length s \<and> glob_matches (drop (p + 1) pattern) (drop j s))"
      unfolding d glob_matches_star by (rule ex_drop_shift [OF i])
    then show ?thesis unfolding still_open_def using i by (auto simp: le_less)
  qed
  have "glob_matches (drop p pattern) (drop i s)"
    if h: "starP = Some sp" "starI < k" "k \<le> length s"
      "glob_matches (drop (sp + 1) pattern) (drop k s)" for sp k
  proof -
    obtain j where j: "i < j" "j \<le> length s" "glob_matches (drop p pattern) (drop j s)"
      using earlier_star_subsumed inv h by blast
    then obtain l where "l \<le> length (drop j s)" "glob_matches (drop (p + 1) pattern) (drop l (drop j s))"
      unfolding d glob_matches_star by blast
    then show ?thesis unfolding d glob_matches_star using j
      by (intro exI [of _ "l + j - i"]) (auto simp: algebra_simps)
  qed
  with new show ?thesis by (auto simp: still_open_def)
qed

lemma lit_step:
  assumes "i < length s" "p < length pattern" "pattern ! p \<noteq> star"
    "pattern ! p = qmark \<or> pattern ! p = s ! i"
  shows "still_open pattern s (p + 1) (i + 1) starP starI \<longleftrightarrow> still_open pattern s p i starP starI"
proof -
  have "drop p pattern = pattern ! p # drop (p + 1) pattern" "drop i s = s ! i # drop (i + 1) s"
    using assms by (metis Cons_nth_drop_Suc Suc_eq_plus1)+
  then have "glob_matches (drop p pattern) (drop i s) \<longleftrightarrow>
      glob_matches (drop (p + 1) pattern) (drop (i + 1) s)"
    using assms by (simp add: glob_matches_nonstar)
  then show ?thesis by (simp add: still_open_def)
qed

lemma mismatch:
  assumes "i < length s" "\<not> (p < length pattern \<and> pattern ! p = star)"
    "\<not> (p < length pattern \<and> (pattern ! p = qmark \<or> pattern ! p = s ! i))"
  shows "\<not> glob_matches (drop p pattern) (drop i s)"
proof (cases "p < length pattern")
  case True
  have "drop p pattern = pattern ! p # drop (p + 1) pattern" "drop i s = s ! i # drop (i + 1) s"
    using assms True by (metis Cons_nth_drop_Suc Suc_eq_plus1)+
  with assms True show ?thesis by (auto simp: glob_matches_nonstar)
qed (use assms in auto)

lemma mismatch_step:
  assumes "i < length s" "loop_inv pattern s p i (Some sp) starI"
    "\<not> glob_matches (drop p pattern) (drop i s)"
  shows "still_open pattern s (sp + 1) (starI + 1) (Some sp) (starI + 1) \<longleftrightarrow>
    still_open pattern s p i (Some sp) starI"
proof -
  have "starI + 1 \<le> length s" using assms by (auto simp: loop_inv_def)
  moreover have "starI < k \<longleftrightarrow> k = starI + 1 \<or> starI + 1 < k" for k by auto
  ultimately show ?thesis using assms(3) by (auto simp: still_open_def)
qed

lemma end_step:
  assumes inv: "loop_inv pattern s p i starP starI" and i: "\<not> i < length s"
  shows "still_open pattern s p i starP starI \<longleftrightarrow> skip_stars pattern p = length pattern"
proof -
  have "\<not> (\<exists>sp k. starP = Some sp \<and> starI < k \<and> k \<le> length s \<and>
      glob_matches (drop (sp + 1) pattern) (drop k s))"
    using inv i earlier_star_subsumed by fastforce
  moreover have "p \<le> length pattern" and "drop i s = []" using inv i by (auto simp: loop_inv_def)
  ultimately show ?thesis by (auto simp: still_open_def skip_stars_end glob_matches_empty)
qed

lemma loop_inv_star:
  "loop_inv pattern s p i starP starI \<Longrightarrow> p < length pattern \<Longrightarrow>
   loop_inv pattern s (p + 1) i (Some p) i"
  by (simp add: loop_inv_def)

lemma loop_inv_lit:
  assumes inv: "loop_inv pattern s p i starP starI" and "p < length pattern" "i < length s"
    "pattern ! p \<noteq> star"
  shows "loop_inv pattern s (p + 1) (i + 1) starP starI"
proof -
  have "star \<notin> set (take (p + 1 - (sp + 1)) (drop (sp + 1) pattern))" if "starP = Some sp" for sp
  proof -
    have sp: "sp < p" and "star \<notin> set (take (p - (sp + 1)) (drop (sp + 1) pattern))"
      using inv that by (auto simp: loop_inv_def)
    moreover have "take (p + 1 - (sp + 1)) (drop (sp + 1) pattern) =
        take (p - (sp + 1)) (drop (sp + 1) pattern) @ [pattern ! p]"
      using assms(2) sp take_Suc_conv_app_nth [of "p - (sp + 1)" "drop (sp + 1) pattern"]
      by (simp add: Suc_diff_Suc)
    ultimately show ?thesis using assms(4) by simp
  qed
  with assms show ?thesis by (auto simp: loop_inv_def)
qed

lemma loop_inv_retry:
  "loop_inv pattern s p i (Some sp) starI \<Longrightarrow> i < length s \<Longrightarrow>
   loop_inv pattern s (sp + 1) (starI + 1) (Some sp) (starI + 1)"
  by (auto simp: loop_inv_def)

lemma match_loop_correct:
  "loop_inv pattern s p i starP starI \<Longrightarrow>
   match_loop pattern s p i starP starI \<longleftrightarrow> still_open pattern s p i starP starI"
proof (induction pattern s p i starP starI rule: match_loop.induct)
  case (1 pattern s p i starP starI)
  note inv = "1.prems"
  consider (fin) "\<not> i < length s"
    | (wild) "i < length s" "p < length pattern \<and> pattern ! p = star"
    | (byte) "i < length s" "\<not> (p < length pattern \<and> pattern ! p = star)"
        "p < length pattern \<and> (pattern ! p = qmark \<or> pattern ! p = s ! i)"
    | (miss) "i < length s" "\<not> (p < length pattern \<and> pattern ! p = star)"
        "\<not> (p < length pattern \<and> (pattern ! p = qmark \<or> pattern ! p = s ! i))"
    by blast
  then show ?case
  proof cases
    case fin
    then show ?thesis by (subst match_loop.simps) (simp add: end_step inv)
  next
    case wild
    then show ?thesis using "1.IH"(1) loop_inv_star [OF inv] star_step [OF inv]
      by (subst match_loop.simps) simp
  next
    case byte
    then show ?thesis using "1.IH"(2) loop_inv_lit [OF inv] lit_step
      by (subst match_loop.simps) auto
  next
    case miss
    note no = mismatch [OF miss]
    show ?thesis
    proof (cases starP)
      case None
      with miss no show ?thesis by (subst match_loop.simps) (auto simp: still_open_def)
    next
      case (Some sp)
      with miss no "1.IH"(3) inv loop_inv_retry mismatch_step show ?thesis
        by (subst match_loop.simps) auto
    qed
  qed
qed

text \<open>
  C34. \<open>glob.Match\<close> decides exactly the meaning of the pattern: the single remembered star is
  enough, whatever other stars the pattern holds, and a star or question mark in the value is an
  ordinary byte.
\<close>

theorem glob_match_iff: "glob_match pattern s \<longleftrightarrow> glob_matches pattern s"
proof -
  have "loop_inv pattern s 0 0 None 0" by (simp add: loop_inv_def)
  then show ?thesis by (simp add: glob_match_def match_loop_correct still_open_def)
qed

section \<open>Facts the callers use\<close>

lemma glob_match_self:
  assumes "star \<notin> set s" and "qmark \<notin> set s"
  shows "glob_match s s"
proof -
  have "glob_matches s s" using assms by (induction s) (auto intro: glob_matches.intros)
  then have "still_open s s 0 0 None 0" by (simp add: still_open_def)
  moreover have "loop_inv s s 0 0 None 0" by (simp add: loop_inv_def)
  ultimately show ?thesis by (simp add: glob_match_def match_loop_correct)
qed

end
