(* ===== verification/Policy.thy ===== *)
theory Policy
  imports Policy_Path Glob
begin

text \<open>
  \<open>internal/policy/policy.go\<close>, \<open>op.go\<close>, \<open>relation.go\<close> and \<open>eval.go\<close>: the rules an operator writes, the
  operators, the two relations and \<open>Evaluate\<close>. Numbers beyond int64 (float64 text and Kubernetes
  quantities) come from a library the definitions take as an argument; the accessors of
  \<open>unstructured\<close> are fields of the object, so that an object may answer them in any way.
\<close>

section \<open>Rules and results\<close>

record policy_match =
  m_kind :: string
  m_namespaces :: "string list"
  m_labels :: "(string, string) gomap"
  m_ns_labels :: "(string, string) gomap"

record policy_assert =
  a_path :: string
  a_op :: string
  a_values :: "string list"
  a_relation :: string

record rule =
  r_id :: string
  r_match :: policy_match
  r_assert :: policy_assert
  r_level :: string
  r_message :: string

record violation =
  v_rule :: string
  v_level :: string
  v_kind :: string
  v_namespace :: string
  v_name :: string
  v_message :: string
  v_evidence :: string

record unevaluated =
  ne_rule :: string
  ne_level :: string
  ne_kind :: string
  ne_reason :: string

abbreviation LevelCritical :: string where "LevelCritical \<equiv> ''critical''"
abbreviation LevelWarning :: string where "LevelWarning \<equiv> ''warning''"
abbreviation LevelInfo :: string where "LevelInfo \<equiv> ''info''"

abbreviation OpExists :: string where "OpExists \<equiv> ''exists''"
abbreviation OpNotExists :: string where "OpNotExists \<equiv> ''notExists''"
abbreviation OpIn :: string where "OpIn \<equiv> ''in''"
abbreviation OpNotIn :: string where "OpNotIn \<equiv> ''notIn''"
abbreviation OpMatches :: string where "OpMatches \<equiv> ''matches''"
abbreviation OpNotMatches :: string where "OpNotMatches \<equiv> ''notMatches''"
abbreviation OpGt :: string where "OpGt \<equiv> ''gt''"
abbreviation OpGte :: string where "OpGte \<equiv> ''gte''"
abbreviation OpLt :: string where "OpLt \<equiv> ''lt''"
abbreviation OpLte :: string where "OpLte \<equiv> ''lte''"

abbreviation RelationHasPDB :: string where "RelationHasPDB \<equiv> ''hasPodDisruptionBudget''"
abbreviation RelationHasHPA :: string where "RelationHasHPA \<equiv> ''hasHorizontalPodAutoscaler''"

text \<open>The table of kinds, with whether each is namespaced, and what can be asked of it.\<close>

definition selectable_kinds :: "(string, bool) gomap" where
  "selectable_kinds =
    [(''ConfigMap'', True), (''Namespace'', False), (''Node'', False), (''PersistentVolume'', False),
     (''PersistentVolumeClaim'', True), (''Pod'', True), (''ResourceQuota'', True), (''Service'', True),
     (''DaemonSet'', True), (''Deployment'', True), (''ReplicaSet'', True), (''StatefulSet'', True),
     (''CronJob'', True), (''Job'', True), (''EndpointSlice'', True), (''Ingress'', True),
     (''IngressClass'', False), (''NetworkPolicy'', True), (''StorageClass'', False),
     (''PodDisruptionBudget'', True), (''HorizontalPodAutoscaler'', True),
     (''MutatingWebhookConfiguration'', False), (''ValidatingWebhookConfiguration'', False)]"

definition SelectableKinds :: "string list" where
  "SelectableKinds = sort (mkeys selectable_kinds)"

definition kind_selectable :: "string \<Rightarrow> bool" where
  "kind_selectable k \<longleftrightarrow> mget selectable_kinds k \<noteq> None"

definition kind_namespaced :: "string \<Rightarrow> bool \<times> bool" where
  "kind_namespaced k = (mget_zero False selectable_kinds k, mget selectable_kinds k \<noteq> None)"

definition relation_kinds :: "(string, string list) gomap" where
  "relation_kinds =
    [(RelationHasPDB, [''Deployment'', ''StatefulSet'', ''ReplicaSet'', ''DaemonSet'']),
     (RelationHasHPA, [''Deployment'', ''StatefulSet'', ''ReplicaSet''])]"

definition relation_valid_for_kind :: "string \<Rightarrow> string \<Rightarrow> bool" where
  "relation_valid_for_kind r k \<longleftrightarrow> k \<in> set (mget_zero [] relation_kinds r)"

definition valid_op :: "string \<Rightarrow> bool" where
  "valid_op op \<longleftrightarrow> op \<in> set [OpExists, OpNotExists, OpIn, OpNotIn, OpMatches, OpNotMatches, OpGt, OpGte, OpLt, OpLte]"

definition valid_relation :: "string \<Rightarrow> bool" where
  "valid_relation r \<longleftrightarrow> mget relation_kinds r \<noteq> None"

definition valid_level :: "string \<Rightarrow> bool" where
  "valid_level l \<longleftrightarrow> l = LevelCritical \<or> l = LevelWarning \<or> l = LevelInfo"

section \<open>Objects\<close>

text \<open>
  An \<open>*unstructured.Unstructured\<close>: its content, and what its accessors answer. A nested lookup
  finds a value, finds nothing, or fails on a value of another type.
\<close>

datatype 'a lookup = Found 'a | Missing | Wrong

record uobj =
  u_object :: "(string \<times> json) list"
  u_namespace :: string
  u_name :: string
  u_kind :: string
  u_labels :: "(string, string) gomap"
  u_nested_field :: "string list \<Rightarrow> json lookup"
  u_nested_string :: "string list \<Rightarrow> string lookup"
  u_nested_string_map :: "string list \<Rightarrow> (string, string) gomap lookup"

record policy_inputs =
  i_objects :: "(string, uobj option list) gomap"
  i_namespaces :: "uobj option list"
  i_pdbs :: "uobj option list"
  i_hpas :: "uobj option list"
  i_unreadable :: "(string, bool) gomap"

definition inputs_from :: "(string, uobj option list) gomap \<Rightarrow> (string, bool) gomap \<Rightarrow> policy_inputs" where
  "inputs_from objects unreadable = \<lparr>i_objects = objects,
     i_namespaces = mget_zero [] objects ''Namespace'', i_pdbs = mget_zero [] objects ''PodDisruptionBudget'',
     i_hpas = mget_zero [] objects ''HorizontalPodAutoscaler'', i_unreadable = unreadable\<rparr>"

section \<open>Operators\<close>

definition max_match_len :: nat where "max_match_len = 4096"

text \<open>
  The parts of \<open>strconv\<close> and of \<open>resource\<close> that turn text into a float64 or a quantity and back. A
  quantity is compared by its exact value.
\<close>

record number_lib =
  nl_format_float :: "float64 \<Rightarrow> string"
  nl_parse_float :: "string \<Rightarrow> float64 option"
  nl_parse_quantity :: "string \<Rightarrow> rat option"

definition string_of :: "number_lib \<Rightarrow> json \<Rightarrow> string option" where
  "string_of n v = (case v of
     JStr s \<Rightarrow> Some s
   | JBool b \<Rightarrow> Some (if b then ''true'' else ''false'')
   | JInt i \<Rightarrow> Some (itoa i)
   | JFloat f \<Rightarrow> (case f of Finite _ _ \<Rightarrow> Some (nl_format_float n f) | _ \<Rightarrow> None)
   | _ \<Rightarrow> None)"

definition three_way :: "'a::linorder \<Rightarrow> 'a \<Rightarrow> int" where
  "three_way a b = (if a < b then -1 else if a > b then 1 else 0)"

fun float_value :: "float64 \<Rightarrow> rat option" where
  "float_value (Finite neg m) = Some (if neg then - m else m)"
| "float_value _ = None"

definition compare_numeric :: "number_lib \<Rightarrow> string \<Rightarrow> string \<Rightarrow> int option" where
  "compare_numeric n a b =
    (case (atoi a, atoi b) of
      (Some x, Some y) \<Rightarrow> Some (three_way x y)
    | _ \<Rightarrow>
      (case (nl_parse_float n a, nl_parse_float n b) of
        (Some f, Some g) \<Rightarrow>
          (case (float_value f, float_value g) of
            (Some x, Some y) \<Rightarrow> Some (three_way x y)
          | _ \<Rightarrow> None)
      | _ \<Rightarrow>
        (case nl_parse_quantity n a of
          None \<Rightarrow> None
        | Some x \<Rightarrow> (case nl_parse_quantity n b of None \<Rightarrow> None | Some y \<Rightarrow> Some (three_way x y)))))"

text \<open>\<open>checkOp\<close>: the pair of \<open>ok\<close> and \<open>skip\<close>.\<close>

definition check_op :: "number_lib \<Rightarrow> string \<Rightarrow> slot \<Rightarrow> string list \<Rightarrow> bool \<times> bool" where
  "check_op n op s values =
    (if op = OpExists then (s_present s, False)
     else if op = OpNotExists then (\<not> s_present s, False)
     else if \<not> s_present s then (False, True)
     else if values = [] then (False, True)
     else case string_of n (s_value s) of
       None \<Rightarrow> (False, True)
     | Some got \<Rightarrow>
       if op = OpIn then (list_ex (\<lambda>v. got = v) values, False)
       else if op = OpNotIn then (\<not> list_ex (\<lambda>v. got = v) values, False)
       else if op = OpMatches \<or> op = OpNotMatches then
         (if length got > max_match_len then (False, True)
          else if list_ex (\<lambda>v. glob_match v got) values then (op = OpMatches, False)
          else (op = OpNotMatches, False))
       else if op = OpGt \<or> op = OpGte \<or> op = OpLt \<or> op = OpLte then
         (case compare_numeric n got (hd values) of
           None \<Rightarrow> (False, True)
         | Some c \<Rightarrow>
           (if op = OpGt then c > 0 else if op = OpGte then c \<ge> 0 else if op = OpLt then c < 0 else c \<le> 0, False))
       else (False, True))"

section \<open>Relations\<close>

definition subset_labels :: "(string, string) gomap \<Rightarrow> (string, string) gomap \<Rightarrow> bool" where
  "subset_labels want have \<longleftrightarrow> list_all (\<lambda>(k, v). mget_zero [] have k = v) want"

definition pod_template_labels :: "uobj \<Rightarrow> (string, string) gomap" where
  "pod_template_labels obj =
    (case u_nested_string_map obj [''spec'', ''template'', ''metadata'', ''labels''] of Found m \<Rightarrow> m | _ \<Rightarrow> [])"

definition nonempty_list :: "json option \<Rightarrow> bool" where
  "nonempty_list v \<longleftrightarrow> (case v of Some (JList (e # es)) \<Rightarrow> True | _ \<Rightarrow> False)"

text \<open>One pass of the loop of \<open>coveredByPDB\<close>: whether this budget covers the workload.\<close>

definition pdb_covers :: "string \<Rightarrow> (string, string) gomap \<Rightarrow> uobj option \<Rightarrow> bool" where
  "pdb_covers ns labels p = (case p of
     None \<Rightarrow> False
   | Some p \<Rightarrow>
     if u_namespace p \<noteq> ns then False
     else case u_nested_field p [''spec'', ''selector''] of
       Found (JObj selector) \<Rightarrow>
         if nonempty_list (mget selector ''matchExpressions'') then False
         else (case u_nested_string_map p [''spec'', ''selector'', ''matchLabels''] of
            Wrong \<Rightarrow> False
          | Missing \<Rightarrow> subset_labels [] labels
          | Found m \<Rightarrow> subset_labels m labels)
     | _ \<Rightarrow> False)"

definition covered_by_pdb :: "uobj \<Rightarrow> uobj option list \<Rightarrow> bool" where
  "covered_by_pdb obj pdbs = list_ex (pdb_covers (u_namespace obj) (pod_template_labels obj)) pdbs"

definition nested_string :: "uobj \<Rightarrow> string list \<Rightarrow> string option" where
  "nested_string h path = (case u_nested_string h path of Found s \<Rightarrow> Some s | Missing \<Rightarrow> Some [] | Wrong \<Rightarrow> None)"

definition hpa_targets :: "uobj \<Rightarrow> uobj option \<Rightarrow> bool" where
  "hpa_targets obj h = (case h of
     None \<Rightarrow> False
   | Some h \<Rightarrow>
     if u_namespace h \<noteq> u_namespace obj then False
     else nested_string h [''spec'', ''scaleTargetRef'', ''kind''] = Some (u_kind obj) \<and>
          nested_string h [''spec'', ''scaleTargetRef'', ''name''] = Some (u_name obj))"

definition targeted_by_hpa :: "uobj \<Rightarrow> uobj option list \<Rightarrow> bool" where
  "targeted_by_hpa obj hpas = list_ex (hpa_targets obj) hpas"

definition relation_holds :: "string \<Rightarrow> uobj \<Rightarrow> policy_inputs \<Rightarrow> bool" where
  "relation_holds rel obj inp =
    (if rel = RelationHasPDB then covered_by_pdb obj (i_pdbs inp)
     else if rel = RelationHasHPA then targeted_by_hpa obj (i_hpas inp)
     else False)"

section \<open>Evaluation\<close>

definition evidence_limit :: nat where "evidence_limit = 120"

definition unreadable_reason :: string where
  "unreadable_reason = ''kubeagent could not read this kind, so the rule was not evaluated''"

definition unreadable_support_reason :: string where
  "unreadable_support_reason =
     ''kubeagent could not read the objects this rule compares against, so the rule was not evaluated''"

definition is_unreadable :: "policy_inputs \<Rightarrow> string \<Rightarrow> bool" where
  "is_unreadable inp k = mget_zero False (i_unreadable inp) k"

definition unreadable_for :: "rule \<Rightarrow> policy_inputs \<Rightarrow> string" where
  "unreadable_for r inp =
    (if is_unreadable inp (m_kind (r_match r)) then unreadable_reason
     else if m_ns_labels (r_match r) \<noteq> [] \<and> is_unreadable inp ''Namespace'' then unreadable_support_reason
     else if a_relation (r_assert r) = RelationHasPDB \<and> is_unreadable inp ''PodDisruptionBudget''
       then unreadable_support_reason
     else if a_relation (r_assert r) = RelationHasHPA \<and> is_unreadable inp ''HorizontalPodAutoscaler''
       then unreadable_support_reason
     else [])"

definition evidence :: "unicode_tables \<Rightarrow> number_lib \<Rightarrow> slot \<Rightarrow> string" where
  "evidence u n s =
    (if \<not> s_present s then []
     else case string_of n (s_value s) of
       None \<Rightarrow> []
     | Some raw \<Rightarrow>
        let clean = go_runes (line u raw) in
        if length clean > evidence_limit then line u (encode (take evidence_limit clean))
        else encode clean)"

definition violation_for :: "rule \<Rightarrow> uobj \<Rightarrow> string \<Rightarrow> violation" where
  "violation_for r obj ev = \<lparr>v_rule = r_id r, v_level = r_level r, v_kind = m_kind (r_match r),
     v_namespace = u_namespace obj, v_name = u_name obj, v_message = r_message r, v_evidence = ev\<rparr>"

definition namespace_label_index :: "uobj option list \<Rightarrow> (string, (string, string) gomap) gomap" where
  "namespace_label_index namespaces =
    fold (\<lambda>ns m. case ns of None \<Rightarrow> m | Some ns \<Rightarrow> mput (u_name ns) (u_labels ns) m) namespaces []"

definition policy_matches :: "policy_match \<Rightarrow> uobj \<Rightarrow> (string, (string, string) gomap) gomap \<Rightarrow> bool" where
  "policy_matches m obj ns_labels =
    (if m_namespaces m \<noteq> [] \<and> \<not> list_ex (\<lambda>want. u_namespace obj = want) (m_namespaces m) then False
     else if m_labels m \<noteq> [] \<and> \<not> subset_labels (m_labels m) (u_labels obj) then False
     else if m_ns_labels m \<noteq> [] then
       (case mget ns_labels (u_namespace obj) of
          None \<Rightarrow> False
        | Some labels \<Rightarrow> subset_labels (m_ns_labels m) labels)
     else True)"

text \<open>
  \<open>check\<close>. The closure's variables \<open>anySlot\<close>, \<open>violation\<close> and \<open>violated\<close> are the state the visitor
  works on.
\<close>

definition check_visit :: "unicode_tables \<Rightarrow> number_lib \<Rightarrow> rule \<Rightarrow> uobj \<Rightarrow> slot \<Rightarrow>
    bool \<times> violation option \<Rightarrow> bool \<times> (bool \<times> violation option)" where
  "check_visit u n r obj s st =
    (case check_op n (a_op (r_assert r)) s (a_values (r_assert r)) of (ok, skip) \<Rightarrow>
      if skip \<or> ok then (True, (True, snd st))
      else (False, (True, Some (violation_for r obj (evidence u n s)))))"

definition check :: "unicode_tables \<Rightarrow> number_lib \<Rightarrow> rule \<Rightarrow> segment list \<Rightarrow> uobj \<Rightarrow> policy_inputs \<Rightarrow>
    violation option" where
  "check u n r segs obj inp =
    (if a_relation (r_assert r) \<noteq> [] then
       (if relation_holds (a_relation (r_assert r)) obj inp then None else Some (violation_for r obj []))
     else
       (case walk (u_object obj) segs (check_visit u n r obj) (False, None) of (any_slot, violated) \<Rightarrow>
          (case violated of
             Some v \<Rightarrow> Some v
           | None \<Rightarrow>
             if \<not> any_slot \<and> a_op (r_assert r) = OpExists then Some (violation_for r obj [])
             else None)))"

definition violation_key :: "violation \<Rightarrow> string \<times> string \<times> string \<times> string" where
  "violation_key v = (v_rule v, v_kind v, v_namespace v, v_name v)"

definition violation_less :: "violation \<Rightarrow> violation \<Rightarrow> bool" where
  "violation_less a b =
    (if v_rule a \<noteq> v_rule b then v_rule a < v_rule b
     else if v_kind a \<noteq> v_kind b then v_kind a < v_kind b
     else if v_namespace a \<noteq> v_namespace b then v_namespace a < v_namespace b
     else v_name a < v_name b)"

definition unevaluated_less :: "unevaluated \<Rightarrow> unevaluated \<Rightarrow> bool" where
  "unevaluated_less a b \<longleftrightarrow> ne_rule a < ne_rule b"

text \<open>The body of the loop over the rules, what it appends to the two slices.\<close>

definition rule_unevaluated :: "rule \<Rightarrow> policy_inputs \<Rightarrow> unevaluated list" where
  "rule_unevaluated r inp =
    (if unreadable_for r inp \<noteq> [] then
       [\<lparr>ne_rule = r_id r, ne_level = r_level r, ne_kind = m_kind (r_match r), ne_reason = unreadable_for r inp\<rparr>]
     else [])"

definition rule_segments :: "rule \<Rightarrow> path_error + segment list" where
  "rule_segments r = (if a_path (r_assert r) \<noteq> [] then parse_path (a_path (r_assert r)) else Inr [])"

definition object_violation :: "unicode_tables \<Rightarrow> number_lib \<Rightarrow> policy_inputs \<Rightarrow> rule \<Rightarrow> segment list \<Rightarrow>
    uobj option \<Rightarrow> violation option" where
  "object_violation u n inp r segs o' =
    (case o' of
       None \<Rightarrow> None
     | Some obj \<Rightarrow>
        if \<not> policy_matches (r_match r) obj (namespace_label_index (i_namespaces inp)) then None
        else check u n r segs obj inp)"

definition rule_violations :: "unicode_tables \<Rightarrow> number_lib \<Rightarrow> rule \<Rightarrow> policy_inputs \<Rightarrow> violation list" where
  "rule_violations u n r inp =
    (if unreadable_for r inp \<noteq> [] then []
     else case rule_segments r of
       Inl _ \<Rightarrow> []
     | Inr segs \<Rightarrow>
        List.map_filter (object_violation u n inp r segs) (mget_zero [] (i_objects inp) (m_kind (r_match r))))"

definition evaluate :: "unicode_tables \<Rightarrow> number_lib \<Rightarrow> rule list \<Rightarrow> policy_inputs \<Rightarrow>
    violation list \<times> unevaluated list" where
  "evaluate u n rules inp =
    (sort_slice violation_less (concat (map (\<lambda>r. rule_violations u n r inp) rules)),
     sort_slice unevaluated_less (concat (map (\<lambda>r. rule_unevaluated r inp) rules)))"

section \<open>What must be read\<close>

text \<open>\<open>Kinds\<close> and \<open>Needs\<close> of \<open>load.go\<close>, and \<open>ReadPlan\<close>.\<close>

definition add_kind :: "rule \<Rightarrow> string list \<Rightarrow> string list" where
  "add_kind r out = (if m_kind (r_match r) \<in> set out then out else out @ [m_kind (r_match r)])"

definition kinds :: "rule list \<Rightarrow> string list" where
  "kinds rules = sort (fold add_kind rules [])"

record aux =
  aux_namespaces :: bool
  aux_pdbs :: bool
  aux_hpas :: bool

definition add_needs :: "rule \<Rightarrow> aux \<Rightarrow> aux" where
  "add_needs r a =
    (let a1 = (if m_ns_labels (r_match r) \<noteq> [] then a\<lparr>aux_namespaces := True\<rparr> else a)
     in if a_relation (r_assert r) = RelationHasPDB then a1\<lparr>aux_pdbs := True\<rparr>
        else if a_relation (r_assert r) = RelationHasHPA then a1\<lparr>aux_hpas := True\<rparr>
        else a1)"

definition needs :: "rule list \<Rightarrow> aux" where
  "needs rules = fold add_needs rules \<lparr>aux_namespaces = False, aux_pdbs = False, aux_hpas = False\<rparr>"

definition read_plan :: "rule list \<Rightarrow> string list" where
  "read_plan rules =
    (let seen = fold (\<lambda>k. mput k True) (kinds rules) [];
         a = needs rules;
         seen = (if aux_namespaces a then mput ''Namespace'' True seen else seen);
         seen = (if aux_pdbs a then mput ''PodDisruptionBudget'' True seen else seen);
         seen = (if aux_hpas a then mput ''HorizontalPodAutoscaler'' True seen else seen)
     in sort (mkeys seen))"

section \<open>What a rule reports about an object\<close>

definition violates :: "number_lib \<Rightarrow> rule \<Rightarrow> slot \<Rightarrow> bool" where
  "violates n r s \<longleftrightarrow>
    (case check_op n (a_op (r_assert r)) s (a_values (r_assert r)) of (ok, skip) \<Rightarrow> \<not> ok \<and> \<not> skip)"

lemma check_visit_eq:
  "check_visit u n r obj s st =
    (if violates n r s then (False, (True, Some (violation_for r obj (evidence u n s))))
     else (True, (True, snd st)))"
  by (auto simp: check_visit_def violates_def split: prod.splits)

lemma each_check_visit:
  "each (check_visit u n r obj) slots (any_slot, None) =
    (case find (violates n r) slots of
       Some s \<Rightarrow> (False, (True, Some (violation_for r obj (evidence u n s))))
     | None \<Rightarrow> (True, (any_slot \<or> slots \<noteq> [], None)))"
  by (induction slots arbitrary: any_slot) (auto simp: check_visit_eq split: option.splits)

text \<open>The slots a rule looks at.\<close>

definition slots_of :: "uobj \<Rightarrow> segment list \<Rightarrow> slot list" where
  "slots_of obj segs = resolve segs (present (JObj (u_object obj)))"

lemma check_slots:
  "check u n r segs obj inp =
    (if a_relation (r_assert r) \<noteq> [] then
       (if relation_holds (a_relation (r_assert r)) obj inp then None else Some (violation_for r obj []))
     else case find (violates n r) (slots_of obj segs) of
       Some s \<Rightarrow> Some (violation_for r obj (evidence u n s))
     | None \<Rightarrow> if slots_of obj segs = [] \<and> a_op (r_assert r) = OpExists
                then Some (violation_for r obj []) else None)"
  by (auto simp: check_def walk_resolve slots_of_def each_check_visit split: option.splits)

text \<open>
  What \<open>check\<close> reports is decided by the list of slots the path names, although the traversal
  never builds it and stops early: the first slot that fails the operator gives the violation and its
  evidence, an empty list fails only \<open>exists\<close>, and a relation quotes nothing.
\<close>

theorem check_first_slot:
  "check u n r segs obj inp =
    (if a_relation (r_assert r) \<noteq> [] then
       (if relation_holds (a_relation (r_assert r)) obj inp then None else Some (violation_for r obj []))
     else case find (violates n r) (slots_of obj segs) of
       Some s \<Rightarrow> Some (violation_for r obj (evidence u n s))
     | None \<Rightarrow> if slots_of obj segs = [] \<and> a_op (r_assert r) = OpExists
                then Some (violation_for r obj []) else None)"
  by (rule check_slots)

lemma check_object:
  "check u n r segs obj inp = Some v \<Longrightarrow> v = violation_for r obj (v_evidence v)"
  by (auto simp: check_def walk_resolve each_check_visit violation_for_def split: if_splits option.splits)

lemma check_rule: "check u n r segs obj inp = Some v \<Longrightarrow> v_rule v = r_id r"
  by (drule check_object) (metis violation.select_convs(1) violation_for_def)

lemma object_violation_rule: "object_violation u n inp r segs o' = Some v \<Longrightarrow> v_rule v = r_id r"
  by (auto simp: object_violation_def check_rule split: option.splits if_splits)

lemma rule_violations_rule: "v \<in> set (rule_violations u n r inp) \<Longrightarrow> v_rule v = r_id r"
  by (auto simp: rule_violations_def set_map_filter object_violation_rule split: if_splits sum.splits)

lemma rule_unevaluated_rule: "x \<in> set (rule_unevaluated r inp) \<Longrightarrow> ne_rule x = r_id r"
  by (auto simp: rule_unevaluated_def split: if_splits)

lemma filter_concat_key:
  assumes "distinct (map key rs)" and "r \<in> set rs"
    and "\<And>r x. x \<in> set (f r) \<Longrightarrow> k x = key r"
  shows "filter (\<lambda>x. k x = key r) (concat (map f rs)) = f r"
  using assms(1,2)
proof (induction rs)
  case (Cons a rs)
  have none: "filter (\<lambda>x. k x = key r) (f b) = []" if "key b \<noteq> key r" for b
    using that assms(3) by (auto simp: filter_empty_conv)
  have every: "filter (\<lambda>x. k x = key r) (f r) = f r"
    using assms(3) by (auto simp: filter_id_conv)
  show ?case
  proof (cases "r = a")
    case True
    with Cons.prems have "\<forall>b\<in>set rs. key b \<noteq> key r" by (simp add: image_iff) metis
    then have "filter (\<lambda>x. k x = key r) (concat (map f rs)) = []"
      using none by (induction rs) auto
    with True every show ?thesis by simp
  next
    case False
    with Cons.prems have "key a \<noteq> key r" by auto
    with False Cons none show ?thesis by auto
  qed
qed simp

lemma filter_concat_key_sorted:
  assumes "distinct (map key rs)" and "r \<in> set rs"
    and "\<And>r x. x \<in> set (f r) \<Longrightarrow> k x = key r"
  shows "mset (filter (\<lambda>x. k x = key r) (sort_slice lt (concat (map f rs)))) = mset (f r)"
  using arg_cong [OF filter_concat_key [OF assms(1,2), of f k], of mset] assms(3)
  by (simp add: mset_filter del: mset_map mset_concat)

text \<open>
  C6. A refused read is never a pass: with the distinct identifiers the loader enforces, a rule that
  cannot be evaluated appears exactly once among the unevaluated ones, with its reason, and has no
  violation; a rule that can be evaluated is not among them, and its violations are one for
  each object it selects and that fails it, no object twice.
\<close>

theorem evaluate_rule:
  assumes "distinct (map r_id rules)" and "r \<in> set rules"
  shows "filter (\<lambda>x. ne_rule x = r_id r) (snd (evaluate u n rules inp)) =
      (if unreadable_for r inp = [] then []
       else [\<lparr>ne_rule = r_id r, ne_level = r_level r, ne_kind = m_kind (r_match r),
              ne_reason = unreadable_for r inp\<rparr>]) \<and>
    mset (filter (\<lambda>v. v_rule v = r_id r) (fst (evaluate u n rules inp))) =
      (if unreadable_for r inp \<noteq> [] then {#}
       else case rule_segments r of Inl _ \<Rightarrow> {#}
       | Inr segs \<Rightarrow> mset (List.map_filter (object_violation u n inp r segs)
           (mget_zero [] (i_objects inp) (m_kind (r_match r)))))"
proof
  let ?f = "\<lambda>r. rule_unevaluated r inp"
  have "mset (filter (\<lambda>x. ne_rule x = r_id r) (snd (evaluate u n rules inp))) = mset (?f r)"
    unfolding evaluate_def snd_conv
    by (rule filter_concat_key_sorted [OF assms]) (rule rule_unevaluated_rule)
  then show "filter (\<lambda>x. ne_rule x = r_id r) (snd (evaluate u n rules inp)) =
      (if unreadable_for r inp = [] then []
       else [\<lparr>ne_rule = r_id r, ne_level = r_level r, ne_kind = m_kind (r_match r),
              ne_reason = unreadable_for r inp\<rparr>])"
    by (cases "unreadable_for r inp = []") (simp_all add: rule_unevaluated_def mset_single_iff del: mset_filter)
  have "mset (filter (\<lambda>v. v_rule v = r_id r) (fst (evaluate u n rules inp))) =
      mset (rule_violations u n r inp)"
    unfolding evaluate_def fst_conv
    by (rule filter_concat_key_sorted [OF assms]) (rule rule_violations_rule)
  then show "mset (filter (\<lambda>v. v_rule v = r_id r) (fst (evaluate u n rules inp))) =
      (if unreadable_for r inp \<noteq> [] then {#}
       else case rule_segments r of Inl _ \<Rightarrow> {#}
       | Inr segs \<Rightarrow> mset (List.map_filter (object_violation u n inp r segs)
           (mget_zero [] (i_objects inp) (m_kind (r_match r)))))"
    by (auto simp: rule_violations_def split: sum.splits)
qed

section \<open>The read plan is enough\<close>

lemma set_fold_add_kind: "set (fold add_kind rules out) = set out \<union> (\<lambda>r. m_kind (r_match r)) ` set rules"
  by (induction rules arbitrary: out) (auto simp: add_kind_def)

lemma needs_fold:
  "aux_namespaces (fold add_needs rules a) = (aux_namespaces a \<or> (\<exists>r\<in>set rules. m_ns_labels (r_match r) \<noteq> []))"
  "aux_pdbs (fold add_needs rules a) = (aux_pdbs a \<or> (\<exists>r\<in>set rules. a_relation (r_assert r) = RelationHasPDB))"
  "aux_hpas (fold add_needs rules a) = (aux_hpas a \<or> (\<exists>r\<in>set rules. a_relation (r_assert r) = RelationHasHPA))"
  by (induction rules arbitrary: a) (auto simp: add_needs_def Let_def)

lemma set_fold_mput: "fst ` set (fold (\<lambda>k. mput k v) ks m) = fst ` set m \<union> set ks"
  by (induction ks arbitrary: m) (auto simp: dom_update)

lemma set_read_plan:
  "set (read_plan rules) = (\<lambda>r. m_kind (r_match r)) ` set rules \<union>
     (if \<exists>r\<in>set rules. m_ns_labels (r_match r) \<noteq> [] then {''Namespace''} else {}) \<union>
     (if \<exists>r\<in>set rules. a_relation (r_assert r) = RelationHasPDB then {''PodDisruptionBudget''} else {}) \<union>
     (if \<exists>r\<in>set rules. a_relation (r_assert r) = RelationHasHPA then {''HorizontalPodAutoscaler''} else {})"
  by (simp add: read_plan_def Let_def needs_def needs_fold kinds_def set_fold_mput set_fold_add_kind
      dom_update insert_commute)

lemma policy_matches_index:
  "(m_ns_labels m \<noteq> [] \<Longrightarrow> idx = idx') \<Longrightarrow> policy_matches m obj idx = policy_matches m obj idx'"
  by (auto simp: policy_matches_def)

lemma relation_holds_inputs:
  assumes "rel = RelationHasPDB \<Longrightarrow> i_pdbs inp = i_pdbs inp'"
    and "rel = RelationHasHPA \<Longrightarrow> i_hpas inp = i_hpas inp'"
  shows "relation_holds rel obj inp = relation_holds rel obj inp'"
  using assms by (auto simp: relation_holds_def)

lemma object_violation_inputs:
  assumes "m_ns_labels (r_match r) \<noteq> [] \<Longrightarrow> i_namespaces inp = i_namespaces inp'"
    and "a_relation (r_assert r) = RelationHasPDB \<Longrightarrow> i_pdbs inp = i_pdbs inp'"
    and "a_relation (r_assert r) = RelationHasHPA \<Longrightarrow> i_hpas inp = i_hpas inp'"
  shows "object_violation u n inp r segs o' = object_violation u n inp' r segs o'"
proof (cases o')
  case (Some obj)
  have "relation_holds (a_relation (r_assert r)) obj inp = relation_holds (a_relation (r_assert r)) obj inp'"
    using assms by (intro relation_holds_inputs)
  then have "check u n r segs obj inp = check u n r segs obj inp'" by (simp add: check_def)
  moreover have "policy_matches (r_match r) obj (namespace_label_index (i_namespaces inp)) =
      policy_matches (r_match r) obj (namespace_label_index (i_namespaces inp'))"
    using assms by (intro policy_matches_index) simp
  ultimately show ?thesis using Some by (simp add: object_violation_def)
qed (simp add: object_violation_def)

lemma rule_reads:
  assumes "r \<in> set rules"
    and "\<And>k. k \<in> set (read_plan rules) \<Longrightarrow> mget_zero [] objects k = mget_zero [] objects' k"
    and "\<And>k. k \<in> set (read_plan rules) \<Longrightarrow> mget_zero False unread k = mget_zero False unread' k"
  shows "rule_violations u n r (inputs_from objects unread) = rule_violations u n r (inputs_from objects' unread')"
    and "rule_unevaluated r (inputs_from objects unread) = rule_unevaluated r (inputs_from objects' unread')"
proof -
  let ?inp = "inputs_from objects unread" and ?inp' = "inputs_from objects' unread'"
  have plan: "m_kind (r_match r) \<in> set (read_plan rules)"
    "m_ns_labels (r_match r) \<noteq> [] \<Longrightarrow> ''Namespace'' \<in> set (read_plan rules)"
    "a_relation (r_assert r) = RelationHasPDB \<Longrightarrow> ''PodDisruptionBudget'' \<in> set (read_plan rules)"
    "a_relation (r_assert r) = RelationHasHPA \<Longrightarrow> ''HorizontalPodAutoscaler'' \<in> set (read_plan rules)"
    using assms(1) by (auto simp: set_read_plan)
  have unread: "unreadable_for r ?inp = unreadable_for r ?inp'"
    using plan assms(3) by (auto simp: unreadable_for_def is_unreadable_def inputs_from_def)
  then show "rule_unevaluated r ?inp = rule_unevaluated r ?inp'" by (simp add: rule_unevaluated_def)
  have "object_violation u n ?inp r segs o' = object_violation u n ?inp' r segs o'" for segs o'
    using plan assms(2) by (intro object_violation_inputs) (simp_all add: inputs_from_def)
  then have "object_violation u n ?inp r = object_violation u n ?inp' r" by (intro ext)
  moreover have "mget_zero [] (i_objects ?inp) (m_kind (r_match r)) = mget_zero [] (i_objects ?inp') (m_kind (r_match r))"
    using plan assms(2) by (simp add: inputs_from_def)
  ultimately show "rule_violations u n r ?inp = rule_violations u n r ?inp'"
    by (simp add: rule_violations_def unread split: sum.split)
qed

text \<open>
  C17. \<open>ReadPlan\<close> names everything an evaluation looks at: two clusters that agree on the kinds of the
  plan, both on the objects read and on which reads were refused, get the same report, so reading
  no other kind loses nothing.
\<close>

theorem read_plan_enough:
  assumes "\<And>k. k \<in> set (read_plan rules) \<Longrightarrow> mget_zero [] objects k = mget_zero [] objects' k"
    and "\<And>k. k \<in> set (read_plan rules) \<Longrightarrow> mget_zero False unread k = mget_zero False unread' k"
  shows "evaluate u n rules (inputs_from objects unread) = evaluate u n rules (inputs_from objects' unread')"
proof -
  have "map (\<lambda>r. rule_violations u n r (inputs_from objects unread)) rules =
      map (\<lambda>r. rule_violations u n r (inputs_from objects' unread')) rules"
    using assms by (intro map_cong refl rule_reads(1)) auto
  moreover have "map (\<lambda>r. rule_unevaluated r (inputs_from objects unread)) rules =
      map (\<lambda>r. rule_unevaluated r (inputs_from objects' unread')) rules"
    using assms by (intro map_cong refl rule_reads(2)) auto
  ultimately show ?thesis by (simp only: evaluate_def)
qed

end
