(* ===== verification/Findings.thy ===== *)
theory Findings
  imports Scan_Result Policy
begin

text \<open>
  \<open>internal/findings/findings.go\<close>: the severity levels and the projection of a scan result, a policy
  run and a baseline report into one ordered list. A float64 rate is an exact rational.
\<close>

text \<open>The part of a baseline comparison this package reads.\<close>

record deviation =
  dv_kind :: string
  dv_namespace :: string
  dv_name :: string
  dv_baseline_rate :: rat
  dv_current_rate :: rat
  dv_pods :: int

record baseline_report =
  br_deviations :: "deviation list"
  br_compared :: nat
  br_not_in_baseline :: nat
  br_gone :: nat

section \<open>Levels\<close>

datatype level = Info | Warning | Critical

fun ordinal :: "level \<Rightarrow> nat" where
  "ordinal Info = 0"
| "ordinal Warning = 1"
| "ordinal Critical = 2"

lemma ordinal_inj: "ordinal a = ordinal b \<Longrightarrow> a = b"
  by (cases a; cases b) simp_all

instantiation level :: linorder
begin

definition less_eq_level :: "level \<Rightarrow> level \<Rightarrow> bool" where
  "less_eq_level a b \<longleftrightarrow> ordinal a \<le> ordinal b"

definition less_level :: "level \<Rightarrow> level \<Rightarrow> bool" where
  "less_level a b \<longleftrightarrow> ordinal a < ordinal b"

instance
  by standard (auto simp: less_eq_level_def less_level_def ordinal_inj)

end

lemma Info_least [simp]: "Info \<le> l"
  by (simp add: less_eq_level_def)

fun level_string :: "level \<Rightarrow> string" where
  "level_string Critical = ''critical''"
| "level_string Warning = ''warning''"
| "level_string Info = ''info''"

definition parse_level :: "unicode_tables \<Rightarrow> string \<Rightarrow> string + level" where
  "parse_level u s =
    (let t = to_lower u (trim_space s) in
     if t = ''info'' then Inr Info else if t = ''warning'' then Inr Warning
     else if t = ''critical'' then Inr Critical else Inl s)"

section \<open>Findings\<close>

record gate_finding =
  gf_level :: level
  gf_kind :: string
  gf_namespace :: string
  gf_name :: string
  gf_issue :: string
  gf_reason :: string
  gf_owner :: string

definition mk_finding :: "level \<Rightarrow> string \<Rightarrow> string \<Rightarrow> string \<Rightarrow> string \<Rightarrow> string \<Rightarrow> gate_finding" where
  "mk_finding l k ns nm iss rs = \<lparr>gf_level = l, gf_kind = k, gf_namespace = ns, gf_name = nm,
     gf_issue = iss, gf_reason = rs, gf_owner = []\<rparr>"

definition split_namespaced_name :: "string \<Rightarrow> string \<times> string" where
  "split_namespaced_name s =
    (case str_index s ''/'' of Some i \<Rightarrow> (take i s, drop (i + 1) s) | None \<Rightarrow> ([], s))"

definition with_evidence :: "string \<Rightarrow> string \<Rightarrow> string" where
  "with_evidence reason ev = (if ev \<noteq> [] then trim_space (reason @ '' ('' @ ev @ '')'') else reason)"

definition from_diagnose :: "finding \<Rightarrow> string \<Rightarrow> gate_finding" where
  "from_diagnose f owner =
    (case split_namespaced_name (f_pod f) of (ns, name) \<Rightarrow>
      (mk_finding Critical ''Pod'' ns name (f_issue f) (with_evidence (f_reason f) (f_evidence f)))
        \<lparr>gf_owner := owner\<rparr>)"

definition owner_of :: "workload \<Rightarrow> string" where
  "owner_of w = w_kind w @ ''/'' @ w_name w"

definition from_workload :: "workload \<Rightarrow> gate_finding" where
  "from_workload w =
    (mk_finding Warning (w_kind w) (w_namespace w) (w_name w) (w_status w)
      (itoa (w_ready w) @ ''/'' @ itoa (w_desired w) @ '' ready''))\<lparr>gf_owner := owner_of w\<rparr>"

definition pdb_category_to_issue :: "(string, string) gomap" where
  "pdb_category_to_issue = [(''unsatisfiable'', ''PDBUnsatisfiable''), (''stale'', ''PDBStale''),
     (''blocking'', ''PDBBlocked''), (''singleton'', ''PDBSingleton'')]"

definition pdb_issue_name :: "string \<Rightarrow> string" where
  "pdb_issue_name c = (case mget pdb_category_to_issue c of Some v \<Rightarrow> v | None \<Rightarrow> c)"

definition hpa_category_to_issue :: "(string, string) gomap" where
  "hpa_category_to_issue = [(''unable'', ''HPAUnableToScale''), (''metrics'', ''HPAMetricsFailed''),
     (''disabled'', ''HPAScalingDisabled''), (''ambiguous'', ''HPAAmbiguousSelector''), (''capped'', ''HPACapped'')]"

definition hpa_issue_name :: "string \<Rightarrow> string" where
  "hpa_issue_name c = (case mget hpa_category_to_issue c of Some v \<Rightarrow> v | None \<Rightarrow> c)"

text \<open>The comparator of \<open>Sort\<close>: highest level first, then the object, then the issue.\<close>

definition finding_key :: "gate_finding \<Rightarrow> nat \<times> string \<times> string \<times> string \<times> string" where
  "finding_key f = (2 - ordinal (gf_level f), gf_namespace f, gf_kind f, gf_name f, gf_issue f)"

definition finding_less :: "gate_finding \<Rightarrow> gate_finding \<Rightarrow> bool" where
  "finding_less x y =
    (if gf_level x \<noteq> gf_level y then gf_level x > gf_level y
     else if gf_namespace x \<noteq> gf_namespace y then gf_namespace x < gf_namespace y
     else if gf_kind x \<noteq> gf_kind y then gf_kind x < gf_kind y
     else if gf_name x \<noteq> gf_name y then gf_name x < gf_name y
     else gf_issue x < gf_issue y)"

definition sort_findings :: "gate_finding list \<Rightarrow> gate_finding list" where
  "sort_findings fs = sort_slice finding_less fs"

text \<open>The body of the loop over the workloads in \<open>Flatten\<close>, and \<open>Flatten\<close>.\<close>

definition flatten_workload :: "workload \<Rightarrow> gate_finding list" where
  "flatten_workload w =
    (if w_findings w = [] then (if flagged w then [from_workload w] else [])
     else map (\<lambda>f. from_diagnose f (owner_of w)) (w_findings w))"

definition flatten :: "scan_result \<Rightarrow> gate_finding list" where
  "flatten res = sort_findings
    (concat (map flatten_workload (ir_workloads (sr_inventory res))) @
     map (\<lambda>i. mk_finding Warning ''Service'' (si_namespace i) (si_name i) (si_problem i) (si_detail i))
       (filter (\<lambda>i. \<not> si_expected i) (sr_services res)) @
     map (\<lambda>i. mk_finding Warning ''Ingress'' (ri_namespace i) (ri_ingress i) (ri_problem i) (ri_detail i))
       (filter (\<lambda>i. \<not> ri_expected i) (sr_ingresses res)) @
     map (\<lambda>i. mk_finding Warning ''PersistentVolumeClaim'' (vi_namespace i) (vi_name i) (vi_reason i) (vi_detail i))
       (sr_pvcs res) @
     map (\<lambda>i. mk_finding Warning (ti_kind i) (ti_namespace i) (ti_name i) ''StuckTerminating'' (ti_reason i))
       (sr_stuck res) @
     map (\<lambda>i. mk_finding Warning ''PodDisruptionBudget'' (bi_namespace i) (bi_name i)
         (pdb_issue_name (bi_category i)) (bi_reason i)) (sr_pdbs res) @
     map (\<lambda>i. mk_finding Warning ''HorizontalPodAutoscaler'' (hi_namespace i) (hi_name i)
         (hpa_issue_name (hi_category i)) (hi_reason i)) (sr_hpas res) @
     map (\<lambda>i. mk_finding Warning (wi_kind i) [] (wi_config i @ ''/'' @ wi_webhook i) (wi_problem i) (wi_reason i))
       (sr_webhooks res) @
     map (\<lambda>i. mk_finding Warning ''ResourceQuota'' (qi_namespace i) (qi_quota i) (qi_severity i)
         (qi_resource i @ '' '' @ qi_used i @ ''/'' @ qi_hard i @ '' used'')) (sr_quotas res))"

section \<open>Policy and baseline\<close>

definition policy_level :: "string \<Rightarrow> level" where
  "policy_level l = (if l = LevelCritical then Critical else if l = LevelWarning then Warning else Info)"

definition from_violation :: "violation \<Rightarrow> gate_finding" where
  "from_violation v = mk_finding (policy_level (v_level v)) (v_kind v) (v_namespace v) (v_name v)
     (''policy/'' @ v_rule v) (with_evidence (v_message v) (v_evidence v))"

definition from_unevaluated :: "unevaluated \<Rightarrow> gate_finding" where
  "from_unevaluated x = mk_finding (policy_level (ne_level x)) (ne_kind x) [] [] (''policy/'' @ ne_rule x) (ne_reason x)"

definition from_policy :: "violation list \<Rightarrow> unevaluated list \<Rightarrow> gate_finding list" where
  "from_policy vs ns = map from_violation vs @ map from_unevaluated ns"

text \<open>\<open>fmt\<close>'s \<open>%.2f\<close> and \<open>%.0f\<close>: rounded to nearest, a tie to the even neighbour.\<close>

definition round_even :: "rat \<Rightarrow> int" where
  "round_even q =
    (let f = \<lfloor>q\<rfloor>; d = q - of_int f in
     if d < 1 / 2 then f else if d > 1 / 2 then f + 1 else if even f then f else f + 1)"

definition fixed :: "nat \<Rightarrow> rat \<Rightarrow> string" where
  "fixed places q =
    (let scaled = nat (round_even (\<bar>q\<bar> * 10 ^ places));
         whole = show_nat (scaled div 10 ^ places);
         frac = show_nat (scaled mod 10 ^ places);
         body = (if places = 0 then whole
                 else whole @ ''.'' @ replicate (places - length frac) (CHR ''0'') @ frac)
     in if q < 0 then ''-'' @ body else body)"

definition baseline_reason :: "deviation \<Rightarrow> string" where
  "baseline_reason d =
    (if dv_baseline_rate d \<le> 0 then
       fixed 2 (dv_baseline_rate d) @ '' -> '' @ fixed 2 (dv_current_rate d) @ '' restarts/hour ('' @
         itoa (dv_pods d) @ '' pods)''
     else
       fixed 2 (dv_baseline_rate d) @ '' -> '' @ fixed 2 (dv_current_rate d) @ '' restarts/hour ('' @
         fixed 0 (dv_current_rate d / dv_baseline_rate d) @ ''x baseline, '' @ itoa (dv_pods d) @ '' pods)'')"

definition from_baseline :: "baseline_report option \<Rightarrow> gate_finding list" where
  "from_baseline r = (case r of None \<Rightarrow> []
     | Some r \<Rightarrow> map (\<lambda>d. mk_finding Info (dv_kind d) (dv_namespace d) (dv_name d)
         ''RestartRateDeviation'' (baseline_reason d)) (br_deviations r))"

section \<open>Facts\<close>

lemma mk_finding_simps [simp]:
  "gf_level (mk_finding l k ns nm iss rs) = l" "gf_kind (mk_finding l k ns nm iss rs) = k"
  "gf_namespace (mk_finding l k ns nm iss rs) = ns" "gf_name (mk_finding l k ns nm iss rs) = nm"
  "gf_issue (mk_finding l k ns nm iss rs) = iss" "gf_reason (mk_finding l k ns nm iss rs) = rs"
  "gf_owner (mk_finding l k ns nm iss rs) = []"
  by (simp_all add: mk_finding_def)

lemma finding_less_key: "finding_less x y \<longleftrightarrow> finding_key x < finding_key y"
proof -
  have "2 - ordinal a < 2 - ordinal b \<longleftrightarrow> b < a" "2 - ordinal a = 2 - ordinal b \<longleftrightarrow> a = b" for a b
    by (cases a; cases b; simp add: less_level_def)+
  then show ?thesis by (simp only: finding_less_def finding_key_def lex_less)
qed

lemma finding_less_eq: "finding_less = key_less finding_key"
  by (simp add: fun_eq_iff finding_less_key key_less_def)

interpretation finding_order: slice_less finding_less
  by (rule slice_lessI [of _ finding_key]) (rule finding_less_key)

lemma set_sort_findings [simp]: "set (sort_findings fs) = set fs"
  by (simp add: sort_findings_def)

lemma sort_findings_Nil [simp]: "sort_findings fs = [] \<longleftrightarrow> fs = []"
  by (simp add: sort_findings_def)

lemma mset_sort_findings [simp]: "mset (sort_findings fs) = mset fs"
  by (simp add: sort_findings_def)

end
