(* ===== verification/Resources.thy ===== *)
theory Resources
  imports Findings
begin

text \<open>
  What the capacity arithmetic rests on: nodes as the API server reports them, resource quantities,
  int64 arithmetic with its wrap-around, and the cluster-wide summary of
  \<open>internal/resources/resources.go\<close> with its two formatters.

  A quantity is the text that was parsed into it. How a text is read is
  \<open>k8s.io/apimachinery\<close>'s business: \<open>quantity_lib\<close> holds its \<open>MilliValue\<close>, \<open>Value\<close>, \<open>IsZero\<close>,
  \<open>Sign\<close>, \<open>Add\<close> and \<open>Sub\<close> as parameters.
\<close>

record quantity_lib =
  q_milli :: "string \<Rightarrow> int"
  q_value :: "string \<Rightarrow> int"
  q_zero :: "string \<Rightarrow> bool"
  q_sign :: "string \<Rightarrow> int"
  q_add :: "string \<Rightarrow> string \<Rightarrow> string"
  q_sub :: "string \<Rightarrow> string \<Rightarrow> string"

type_synonym resource_list = "(string, string) gomap"

record node_condition =
  cn_type :: string
  cn_status :: string
  cn_reason :: string
  cn_message :: string

record node_object =
  no_name :: string
  no_labels :: "(string, string) gomap"
  no_conditions :: "node_condition list"
  no_unschedulable :: bool
  no_taints :: "string list"
  no_allocatable :: resource_list
  no_capacity :: resource_list

section \<open>Integers of 64 bits\<close>

text \<open>The int64 that a computation over the integers leaves behind, and Go's truncating division.\<close>

definition wrap64 :: "int \<Rightarrow> int" where
  "wrap64 x = (x + 2 ^ 63) mod 2 ^ 64 - 2 ^ 63"

definition go_quot :: "int \<Rightarrow> int \<Rightarrow> int" where
  "go_quot a b = sgn a * sgn b * (\<bar>a\<bar> div \<bar>b\<bar>)"

definition in_int64 :: "int \<Rightarrow> bool" where
  "in_int64 x \<longleftrightarrow> - (2 ^ 63) \<le> x \<and> x < 2 ^ 63"

lemma wrap64_id: "in_int64 x \<Longrightarrow> wrap64 x = x"
  by (simp add: wrap64_def in_int64_def mod_pos_pos_trivial)

lemma wrap64_range: "in_int64 (wrap64 x)"
  by (simp add: wrap64_def in_int64_def)

lemma wrap64_add: "wrap64 (wrap64 a + b) = wrap64 (a + b)"
proof -
  have "(wrap64 a + b + 2 ^ 63) mod 2 ^ 64 = (((a + 2 ^ 63) mod 2 ^ 64) + b) mod 2 ^ 64"
    by (simp add: wrap64_def)
  also have "\<dots> = (a + 2 ^ 63 + b) mod 2 ^ 64"
    by (rule mod_add_left_eq)
  finally show ?thesis by (simp add: wrap64_def ac_simps)
qed

lemma wrap64_add_right: "wrap64 (a + wrap64 b) = wrap64 (a + b)"
  using wrap64_add [of b a] by (simp add: add.commute)

lemma wrap64_minus: "wrap64 (a - wrap64 b) = wrap64 (a - b)"
proof -
  have "(a - wrap64 b + 2 ^ 63) mod 2 ^ 64 = (a + 2 ^ 63 + 2 ^ 63 - ((b + 2 ^ 63) mod 2 ^ 64)) mod 2 ^ 64"
    by (simp add: wrap64_def algebra_simps)
  also have "\<dots> = (a + 2 ^ 63 + 2 ^ 63 - (b + 2 ^ 63)) mod 2 ^ 64"
    by (rule mod_diff_right_eq)
  finally show ?thesis by (simp add: wrap64_def algebra_simps)
qed

lemma wrap64_0 [simp]: "wrap64 0 = 0"
  by (simp add: wrap64_def)

section \<open>Numbers of 64 bits with a point\<close>

text \<open>
  The float64 nearest to a rational, a tie to the even significand. Numbers this small never
  overflow and the ones here are never subnormal.
\<close>

definition scale2 :: "int \<Rightarrow> rat \<Rightarrow> rat" where
  "scale2 k x = (if 0 \<le> k then x * 2 ^ nat k else x / 2 ^ nat (- k))"

fun bit_len :: "nat \<Rightarrow> nat" where
  "bit_len n = (if n = 0 then 0 else Suc (bit_len (n div 2)))"

declare bit_len.simps [simp del]

definition binade :: "rat \<Rightarrow> int" where
  "binade x =
    (let e = int (bit_len (nat (fst (quotient_of x)))) - int (bit_len (nat (snd (quotient_of x)))) in
     if scale2 e 1 \<le> x then e else e - 1)"

definition nearest_double :: "rat \<Rightarrow> rat" where
  "nearest_double x =
    (if x = 0 then 0
     else let k = binade \<bar>x\<bar> - 52 in sgn x * scale2 k (of_int (round_even (scale2 (- k) \<bar>x\<bar>))))"

text \<open>An integer of at most 53 bits is its own nearest float64.\<close>

lemma bit_len_le: "n < 2 ^ m \<Longrightarrow> bit_len n \<le> m"
proof (induction m arbitrary: n)
  case 0
  then show ?case by (simp add: bit_len.simps)
next
  case (Suc m)
  then have "bit_len (n div 2) \<le> m" by auto
  then show ?case by (subst bit_len.simps) simp
qed

lemma bit_len_1: "bit_len 1 = 1"
  by (simp add: bit_len.simps)

lemma round_even_int: "round_even (of_int n) = n"
  by (simp add: round_even_def)

lemma nearest_double_int:
  assumes "0 \<le> n" and "n < 2 ^ 53"
  shows "nearest_double (of_int n) = of_int n"
proof (cases "n = 0")
  case True
  then show ?thesis by (simp add: nearest_double_def)
next
  case False
  let ?k = "binade (of_int n) - 52"
  have q: "quotient_of (of_int n) = (n, 1)"
    using quotient_of_int [of n] by (simp add: Rat.of_int_def)
  have "nat n < 2 ^ 53" using assms by auto
  then have "bit_len (nat n) \<le> 53" by (rule bit_len_le)
  then have "?k \<le> 0" using bit_len_1 by (auto simp: binade_def q Let_def)
  then obtain m where m: "?k = - int m" using nonneg_int_cases [of "- ?k"] by (metis minus_minus neg_0_le_iff_le)
  have up: "scale2 (- ?k) (of_int n) = of_int (n * 2 ^ m)" by (simp add: m scale2_def)
  have "scale2 ?k (of_int (n * 2 ^ m)) = of_int n" by (simp add: m scale2_def)
  then show ?thesis
    using False assms round_even_int [of "n * 2 ^ m"]
    by (simp add: nearest_double_def Let_def up [unfolded minus_diff_eq])
qed

lemma nearest_double_numeral: "(numeral k :: int) < 2 ^ 53 \<Longrightarrow> nearest_double (numeral k) = numeral k"
  using nearest_double_int [of "numeral k"] by simp

section \<open>The two formatters\<close>

definition format_milli_cpu :: "int \<Rightarrow> string" where
  "format_milli_cpu m = fixed 1 (nearest_double (nearest_double (of_int m) / 1000))"

definition format_bytes :: "int \<Rightarrow> string" where
  "format_bytes b =
    (if 2 ^ 30 \<le> b then fixed 0 (nearest_double (of_int b) / 2 ^ 30) @ ''Gi''
     else fixed 0 (nearest_double (of_int b) / 2 ^ 20) @ ''Mi'')"

definition format_cpu :: "quantity_lib \<Rightarrow> string \<Rightarrow> string" where
  "format_cpu q t = format_milli_cpu (q_milli q t)"

definition format_mem :: "quantity_lib \<Rightarrow> string \<Rightarrow> string" where
  "format_mem q t = format_bytes (q_value q t)"

section \<open>Reading a resource list\<close>

definition zero_quantity :: string where
  "zero_quantity = ''0''"

definition res_text :: "resource_list \<Rightarrow> string \<Rightarrow> string" where
  "res_text rl n = mget_zero zero_quantity rl n"

definition res_milli :: "quantity_lib \<Rightarrow> resource_list \<Rightarrow> int" where
  "res_milli q rl = (case mget rl ''cpu'' of None \<Rightarrow> 0 | Some t \<Rightarrow> q_milli q t)"

definition res_bytes :: "quantity_lib \<Rightarrow> resource_list \<Rightarrow> int" where
  "res_bytes q rl = (case mget rl ''memory'' of None \<Rightarrow> 0 | Some t \<Rightarrow> q_value q t)"

definition res_unset :: "quantity_lib \<Rightarrow> resource_list \<Rightarrow> string \<Rightarrow> bool" where
  "res_unset q rl n = (case mget rl n of None \<Rightarrow> True | Some t \<Rightarrow> q_zero q t)"

definition terminal_pod :: "pod \<Rightarrow> bool" where
  "terminal_pod p \<longleftrightarrow> p_phase p = ''Succeeded'' \<or> p_phase p = ''Failed''"

section \<open>The cluster summary\<close>

record res_line =
  rl_allocatable :: string
  rl_requests :: string
  rl_limits :: string
  rl_usage :: string
  rl_requests_pct :: int
  rl_limits_pct :: int
  rl_usage_pct :: int

record res_summary =
  sm_cpu :: res_line
  sm_memory :: res_line
  sm_metrics_available :: bool

definition ratio_pct :: "int \<Rightarrow> int \<Rightarrow> int" where
  "ratio_pct part whole = (if whole \<le> 0 then 0 else go_quot (wrap64 (part * 100)) whole)"

definition q_sum :: "quantity_lib \<Rightarrow> string list \<Rightarrow> string" where
  "q_sum q ts = foldl (q_add q) zero_quantity ts"

definition cpu_line :: "quantity_lib \<Rightarrow> string \<Rightarrow> string \<Rightarrow> string \<Rightarrow> string \<Rightarrow> bool \<Rightarrow> res_line" where
  "cpu_line q alloc req limit use available =
    (let a = q_milli q alloc in
     \<lparr>rl_allocatable = format_cpu q alloc, rl_requests = format_cpu q req, rl_limits = format_cpu q limit,
      rl_usage = (if available then format_cpu q use else []),
      rl_requests_pct = ratio_pct (q_milli q req) a, rl_limits_pct = ratio_pct (q_milli q limit) a,
      rl_usage_pct = (if available then ratio_pct (q_milli q use) a else 0)\<rparr>)"

definition mem_line :: "quantity_lib \<Rightarrow> string \<Rightarrow> string \<Rightarrow> string \<Rightarrow> string \<Rightarrow> bool \<Rightarrow> res_line" where
  "mem_line q alloc req limit use available =
    (let a = q_value q alloc in
     \<lparr>rl_allocatable = format_mem q alloc, rl_requests = format_mem q req, rl_limits = format_mem q limit,
      rl_usage = (if available then format_mem q use else []),
      rl_requests_pct = ratio_pct (q_value q req) a, rl_limits_pct = ratio_pct (q_value q limit) a,
      rl_usage_pct = (if available then ratio_pct (q_value q use) a else 0)\<rparr>)"

definition live_containers :: "pod list \<Rightarrow> container list" where
  "live_containers pods = concat (map p_containers (filter (\<lambda>p. \<not> terminal_pod p) pods))"

definition summarize :: "quantity_lib \<Rightarrow> node_object list \<Rightarrow> pod list \<Rightarrow> (string, resource_list) gomap \<Rightarrow> res_summary" where
  "summarize q nodes pods usage =
    (let cs = live_containers pods;
         available = (usage \<noteq> []);
         sum_of = (\<lambda>n rls. q_sum q (map (\<lambda>rl. res_text rl n) rls))
     in \<lparr>sm_cpu = cpu_line q (sum_of ''cpu'' (map no_allocatable nodes)) (sum_of ''cpu'' (map c_requests cs))
           (sum_of ''cpu'' (map c_limits cs)) (sum_of ''cpu'' (map snd usage)) available,
         sm_memory = mem_line q (sum_of ''memory'' (map no_allocatable nodes)) (sum_of ''memory'' (map c_requests cs))
           (sum_of ''memory'' (map c_limits cs)) (sum_of ''memory'' (map snd usage)) available,
         sm_metrics_available = available\<rparr>)"

lemma go_quot_pos: "0 \<le> a \<Longrightarrow> 0 < b \<Longrightarrow> go_quot a b = a div b"
  by (cases "a = 0") (simp_all add: go_quot_def)

lemma ratio_pct_exact:
  "0 \<le> part \<Longrightarrow> in_int64 (part * 100) \<Longrightarrow> 0 < whole \<Longrightarrow> ratio_pct part whole = part * 100 div whole"
  by (simp add: ratio_pct_def wrap64_id go_quot_pos)

text \<open>Pods that have stopped reserve nothing, whatever they ask for.\<close>

lemma live_containers_terminal:
  "live_containers (us @ p # vs) = live_containers (us @ vs)" if "terminal_pod p"
  using that by (simp add: live_containers_def)

end
