(* ===== verification/Cluster_Health.thy ===== *)
theory Cluster_Health
  imports Resources
begin

text \<open>
  \<open>internal/clusterhealth\<close>: the verdict on nodes and system workloads, and which nodes are down;
  \<open>internal/controlplane\<close>: what the API server's \<open>/readyz\<close> says; \<open>internal/nodehealth\<close> and
  \<open>internal/nodereserve\<close>: the kubelets' answers and what each node keeps for itself.
\<close>

section \<open>Nodes\<close>

definition system_namespace :: string where "system_namespace = ''kube-system''"

text \<open>\<open>RenewTime\<close> of a Lease, named like its node.\<close>

record lease =
  le_name :: string
  le_renewed :: "time option"

record heartbeat =
  hb_leases :: "lease list"
  hb_now :: time
  hb_threshold :: duration
  hb_unavailable :: bool

record cluster_health =
  ch_verdict :: string
  ch_nodes_total :: nat
  ch_nodes_ready :: nat
  ch_stale :: nat
  ch_absent :: nat
  ch_node_issues :: "string list"
  ch_system_issues :: "string list"
  ch_scope_note :: string
  ch_down_nodes :: "(string \<times> string) list"

text \<open>The first line, trimmed, cut to so many runes.\<close>

definition trim_line :: "string \<Rightarrow> nat \<Rightarrow> string" where
  "trim_line s n =
    (let t = trim_space (takeWhile (\<lambda>c. c \<noteq> CHR 0x0A) s); r = go_runes t in
     if length r > n then encode (take n r) @ bytes [226, 128, 166] else t)"

definition not_ready_issue :: "string \<Rightarrow> string \<Rightarrow> string" where
  "not_ready_issue rsn message =
    (let m = trim_line message 120 in
     ''NotReady'' @
     (if rsn \<noteq> [] \<and> m \<noteq> [] then '': '' @ rsn @ dash @ m
      else if rsn \<noteq> [] then '': '' @ rsn
      else if m \<noteq> [] then '': '' @ m else []))"

record node_state =
  ns_ready :: bool
  ns_issues :: "string list"
  ns_reason :: string
  ns_message :: string

definition see_condition :: "unicode_tables \<Rightarrow> node_condition \<Rightarrow> node_state \<Rightarrow> node_state" where
  "see_condition u c s =
    (if cn_type c = ''Ready''
     then s\<lparr>ns_ready := cn_status c = ''True'', ns_reason := line u (cn_reason c), ns_message := line u (cn_message c)\<rparr>
     else if cn_type c \<in> {''MemoryPressure'', ''DiskPressure'', ''PIDPressure''} \<and> cn_status c = ''True''
     then s\<lparr>ns_issues := ns_issues s @ [cn_type c]\<rparr>
     else s)"

definition node_health :: "unicode_tables \<Rightarrow> node_object \<Rightarrow> bool \<times> string list" where
  "node_health u n =
    (let s = fold (see_condition u) (no_conditions n) \<lparr>ns_ready = False, ns_issues = [], ns_reason = [], ns_message = []\<rparr>
     in (ns_ready s, ns_issues s @
         (if ns_ready s then [] else [not_ready_issue (ns_reason s) (ns_message s)]) @
         (if no_unschedulable n then [''SchedulingDisabled''] else [])))"

text \<open>\<open>Duration.Round(time.Second)\<close> of a duration that is not negative, printed.\<close>

definition rounded_seconds :: "duration \<Rightarrow> string" where
  "rounded_seconds d =
    (let r = d mod second in
     if 2 * r < second then duration_string (d - r)
     else if d + second - r \<le> max_duration then duration_string (d + second - r)
     else ''2562047h47m16.854775807s'')"

definition lease_map :: "lease list \<Rightarrow> (string, lease) gomap" where
  "lease_map ls = fold (\<lambda>l. mput (le_name l) l) ls []"

definition stale_heartbeat :: "(string, lease) gomap \<Rightarrow> string \<Rightarrow> time \<Rightarrow> duration \<Rightarrow> (string \<times> string) option" where
  "stale_heartbeat leases nm now limit =
    (case mget leases nm of
       None \<Rightarrow> Some (''no kubelet lease'', ''no kubelet lease'')
     | Some l \<Rightarrow>
         (case le_renewed l of
            None \<Rightarrow> Some (''no kubelet lease'', ''no kubelet lease'')
          | Some t \<Rightarrow>
              let staleness = time_sub now t in
              if staleness > limit
              then Some (''kubelet not heartbeating (lease '' @ rounded_seconds staleness @ '' stale)'', ''kubelet not heartbeating'')
              else None))"

definition assess_node :: "unicode_tables \<Rightarrow> heartbeat \<Rightarrow> (string, lease) gomap \<Rightarrow> node_object \<Rightarrow> cluster_health \<Rightarrow> cluster_health" where
  "assess_node u hb leases n ch =
    (let h = node_health u n;
         stale = (if fst h \<and> hb_threshold hb > 0 \<and> \<not> hb_unavailable hb
                  then stale_heartbeat leases (no_name n) (hb_now hb) (hb_threshold hb) else None);
         issues = snd h @ (case stale of None \<Rightarrow> [] | Some i \<Rightarrow> [fst i]) in
     ch\<lparr>ch_nodes_ready := (if fst h then ch_nodes_ready ch + 1 else ch_nodes_ready ch),
        ch_stale := (if stale = None then ch_stale ch else ch_stale ch + 1),
        ch_down_nodes := ch_down_nodes ch @ (if \<not> fst h then [(no_name n, ''NotReady'')]
          else (case stale of None \<Rightarrow> [] | Some i \<Rightarrow> [(no_name n, snd i)])),
        ch_node_issues := ch_node_issues ch @ map (\<lambda>i. no_name n @ '' '' @ i) issues\<rparr>)"

definition clean_expected :: "string list \<Rightarrow> string list" where
  "clean_expected expected =
    sort (fold (\<lambda>e out. let nm = trim_space e in if nm = [] \<or> nm \<in> set out then out else out @ [nm]) expected [])"

definition expect_node :: "string set \<Rightarrow> string \<Rightarrow> cluster_health \<Rightarrow> cluster_health" where
  "expect_node names nm ch =
    (if nm \<in> names then ch
     else ch\<lparr>ch_node_issues := ch_node_issues ch @ [nm @ '' expected but absent from the cluster''],
             ch_absent := ch_absent ch + 1\<rparr>)"

definition system_issue :: "workload \<Rightarrow> string option" where
  "system_issue w =
    (if w_namespace w = system_namespace \<and> flagged w
     then Some (if w_kind w = ''Job'' \<or> w_kind w = ''CronJob''
       then w_namespace w @ ''/'' @ w_name w @ '' '' @ w_status w
       else w_namespace w @ ''/'' @ w_name w @ '' '' @ itoa (w_ready w) @ ''/'' @ itoa (w_desired w) @ '' '' @ w_status w)
     else None)"

definition assess_cluster :: "unicode_tables \<Rightarrow> node_object list \<Rightarrow> heartbeat \<Rightarrow> string list \<Rightarrow> workload list \<Rightarrow> cluster_health" where
  "assess_cluster u nodes hb expected ws =
    (let start = \<lparr>ch_verdict = [], ch_nodes_total = length nodes, ch_nodes_ready = 0, ch_stale = 0, ch_absent = 0,
           ch_node_issues = [], ch_system_issues = [], ch_scope_note = [], ch_down_nodes = []\<rparr>;
         ch1 = fold (assess_node u hb (lease_map (hb_leases hb))) nodes start;
         ch2 = fold (expect_node (no_name ` set nodes)) (clean_expected expected) ch1;
         ch3 = ch2\<lparr>ch_system_issues := List.map_filter system_issue ws\<rparr>
     in ch3\<lparr>ch_verdict := (if ch_node_issues ch3 = [] \<and> ch_system_issues ch3 = [] then ''Healthy'' else ''Degraded'')\<rparr>)"

definition namespace_scope_note :: "string \<Rightarrow> string" where
  "namespace_scope_note ns =
    (if ns = [] then []
     else join ((if ns \<noteq> system_namespace
         then [''node health only'' @ dash @ ''re-run without -n (or with -n kube-system) for the system workload check'']
         else []) @ [''cluster-wide checks skipped under -n: admission webhooks'']) [CHR 0x0A])"

section \<open>The control plane\<close>

definition max_failed_checks :: nat where "max_failed_checks = 20"

record readyz_probe =
  rz_status :: string
  rz_failed :: "string list"

text \<open>\<open>strings.Fields(s)[0]\<close>, empty where there is no field.\<close>

fun until_space :: "string \<Rightarrow> string" where
  "until_space [] = []"
| "until_space (c # s) = (if lead_space (c # s) \<noteq> None then [] else c # until_space s)"

definition first_field :: "string \<Rightarrow> string" where
  "first_field s = until_space (trim_left s)"

definition see_check :: "unicode_tables \<Rightarrow> string \<Rightarrow> string list \<Rightarrow> string list" where
  "see_check u row failed =
    (if length failed = max_failed_checks + 1 then failed
     else let t = trim_space row in
       if has_prefix t ''[-]'' \<and> first_field (drop 3 t) \<noteq> [] then failed @ [line u (first_field (drop 3 t))] else failed)"

definition failed_checks :: "unicode_tables \<Rightarrow> string \<Rightarrow> string list" where
  "failed_checks u body = fold (see_check u) (split_byte (CHR 0x0A) body) []"

definition parse_readyz :: "unicode_tables \<Rightarrow> int \<Rightarrow> string \<Rightarrow> readyz_probe" where
  "parse_readyz u code body =
    (if code = 200 then \<lparr>rz_status = ''ok'', rz_failed = []\<rparr>
     else if code = 401 \<or> code = 403 then \<lparr>rz_status = ''forbidden'', rz_failed = []\<rparr>
     else if code = 0 then \<lparr>rz_status = ''unreachable'', rz_failed = []\<rparr>
     else \<lparr>rz_status = ''unhealthy'', rz_failed = failed_checks u body\<rparr>)"

section \<open>Kubelets\<close>

record kubelet_probe =
  kp_node :: string
  kp_status :: string
  kp_detail :: string

record kubelet_report =
  kr_unhealthy :: "(string \<times> string) list"
  kr_probed :: nat
  kr_forbidden :: nat
  kr_unreachable :: nat

definition assess_kubelets :: "kubelet_probe list \<Rightarrow> kubelet_report" where
  "assess_kubelets ps = \<lparr>
     kr_unhealthy = map (\<lambda>p. (kp_node p, kp_detail p)) (filter (\<lambda>p. kp_status p = ''unhealthy'') ps),
     kr_probed = length ps,
     kr_forbidden = length (filter (\<lambda>p. kp_status p = ''forbidden'') ps),
     kr_unreachable = length (filter (\<lambda>p. kp_status p = ''unreachable'') ps)\<rparr>"

section \<open>What nodes reserve\<close>

record node_reservation =
  nr_name :: string
  nr_role :: string
  nr_cpu :: string
  nr_mem :: string
  nr_ephemeral :: string
  nr_warning :: bool
  nr_no_ephemeral :: bool
  nr_no_cpu :: bool

record reserve_report =
  rr_nodes :: "node_reservation list"
  rr_warn :: nat
  rr_ephemeral_none :: nat
  rr_cpu_none :: nat
  rr_ephemeral_reporting :: nat

definition reserved :: "quantity_lib \<Rightarrow> string \<Rightarrow> string \<Rightarrow> string" where
  "reserved q cap alloc = (let d = q_sub q cap alloc in if q_sign q d < 0 then zero_quantity else d)"

definition node_role :: "node_object \<Rightarrow> string" where
  "node_role n = (if \<exists>k\<in>set (mkeys (no_labels n)). k = ''node-role.kubernetes.io/control-plane'' \<or>
     k = ''node-role.kubernetes.io/master'' then ''control-plane'' else ''worker'')"

definition reserve_cpu :: "quantity_lib \<Rightarrow> string \<Rightarrow> string" where
  "reserve_cpu q t = (let m = q_milli q t in if m \<le> 0 then ''0'' else itoa m @ ''m'')"

definition reserve_mem :: "quantity_lib \<Rightarrow> string \<Rightarrow> string" where
  "reserve_mem q t = (let b = q_value q t in if b \<le> 0 then ''0'' else format_bytes b)"

definition reserve_node :: "quantity_lib \<Rightarrow> node_object \<Rightarrow> reserve_report \<Rightarrow> reserve_report" where
  "reserve_node q n r =
    (let cpu = reserved q (res_text (no_capacity n) ''cpu'') (res_text (no_allocatable n) ''cpu'');
         mem = reserved q (res_text (no_capacity n) ''memory'') (res_text (no_allocatable n) ''memory'');
         warn = (q_value q mem = 0); no_cpu = (q_milli q cpu = 0);
         eph = (case mget (no_capacity n) ''ephemeral-storage'' of None \<Rightarrow> None
           | Some c \<Rightarrow> Some (reserved q c (res_text (no_allocatable n) ''ephemeral-storage'')));
         no_eph = (case eph of None \<Rightarrow> False | Some e \<Rightarrow> q_value q e = 0) in
     r\<lparr>rr_warn := (if warn then rr_warn r + 1 else rr_warn r),
       rr_cpu_none := (if no_cpu then rr_cpu_none r + 1 else rr_cpu_none r),
       rr_ephemeral_reporting := (if eph \<noteq> None then rr_ephemeral_reporting r + 1 else rr_ephemeral_reporting r),
       rr_ephemeral_none := (if no_eph then rr_ephemeral_none r + 1 else rr_ephemeral_none r),
       rr_nodes := rr_nodes r @ [\<lparr>nr_name = no_name n, nr_role = node_role n, nr_cpu = reserve_cpu q cpu, nr_mem = reserve_mem q mem,
         nr_ephemeral = (case eph of None \<Rightarrow> bytes [226, 128, 148] | Some e \<Rightarrow> reserve_mem q e),
         nr_warning = warn, nr_no_ephemeral = no_eph, nr_no_cpu = no_cpu\<rparr>]\<rparr>)"

definition assess_reserve :: "quantity_lib \<Rightarrow> node_object list \<Rightarrow> reserve_report" where
  "assess_reserve q nodes = fold (reserve_node q) nodes
     \<lparr>rr_nodes = [], rr_warn = 0, rr_ephemeral_none = 0, rr_cpu_none = 0, rr_ephemeral_reporting = 0\<rparr>"

section \<open>What the verdict says\<close>

text \<open>The state a node is in: its last \<open>Ready\<close> condition, no pressure, schedulable.\<close>

definition node_ready :: "node_object \<Rightarrow> bool" where
  "node_ready n \<longleftrightarrow> (case find (\<lambda>c. cn_type c = ''Ready'') (List.rev (no_conditions n)) of None \<Rightarrow> False
     | Some c \<Rightarrow> cn_status c = ''True'')"

definition under_pressure :: "node_object \<Rightarrow> bool" where
  "under_pressure n \<longleftrightarrow> (\<exists>c\<in>set (no_conditions n).
     cn_type c \<in> {''MemoryPressure'', ''DiskPressure'', ''PIDPressure''} \<and> cn_status c = ''True'')"

definition heartbeats_checked :: "heartbeat \<Rightarrow> bool" where
  "heartbeats_checked hb \<longleftrightarrow> hb_threshold hb > 0 \<and> \<not> hb_unavailable hb"

text \<open>The last Lease of that name was renewed within the threshold.\<close>

definition beating :: "heartbeat \<Rightarrow> string \<Rightarrow> bool" where
  "beating hb nm \<longleftrightarrow> (\<exists>l t. find (\<lambda>l. le_name l = nm) (List.rev (hb_leases hb)) = Some l \<and> le_renewed l = Some t \<and>
     time_sub (hb_now hb) t \<le> hb_threshold hb)"

definition node_fine :: "heartbeat \<Rightarrow> node_object \<Rightarrow> bool" where
  "node_fine hb n \<longleftrightarrow> node_ready n \<and> \<not> under_pressure n \<and> \<not> no_unschedulable n \<and>
     (heartbeats_checked hb \<longrightarrow> beating hb (no_name n))"

lemma see_conditions:
  "ns_ready (fold (see_condition u) cs s) =
     (case find (\<lambda>c. cn_type c = ''Ready'') (List.rev cs) of None \<Rightarrow> ns_ready s | Some c \<Rightarrow> cn_status c = ''True'') \<and>
   (ns_issues (fold (see_condition u) cs s) = [] \<longleftrightarrow> ns_issues s = [] \<and>
     \<not> (\<exists>c\<in>set cs. cn_type c \<in> {''MemoryPressure'', ''DiskPressure'', ''PIDPressure''} \<and> cn_status c = ''True''))"
  by (induction cs rule: rev_induct) (auto simp: see_condition_def)

lemma node_health_ready: "fst (node_health u n) = node_ready n"
  by (auto simp: node_health_def Let_def see_conditions node_ready_def split: option.splits)

lemma node_health_issues:
  "snd (node_health u n) = [] \<longleftrightarrow> node_ready n \<and> \<not> under_pressure n \<and> \<not> no_unschedulable n"
  by (auto simp: node_health_def Let_def see_conditions node_ready_def under_pressure_def split: option.splits)

lemma lease_map_get: "mget (lease_map ls) nm = find (\<lambda>l. le_name l = nm) (List.rev ls)"
  by (induction ls rule: rev_induct) (auto simp: lease_map_def)

lemma stale_iff: "stale_heartbeat (lease_map (hb_leases hb)) nm (hb_now hb) (hb_threshold hb) = None \<longleftrightarrow> beating hb nm"
  by (auto simp: stale_heartbeat_def lease_map_get beating_def Let_def not_less split: option.splits)

lemma stale_reason:
  "stale_heartbeat m nm now limit = Some i \<Longrightarrow> snd i = ''no kubelet lease'' \<or> snd i = ''kubelet not heartbeating''"
  by (auto simp: stale_heartbeat_def Let_def split: option.splits if_splits)

text \<open>What one node adds.\<close>

definition node_stale :: "heartbeat \<Rightarrow> node_object \<Rightarrow> bool" where
  "node_stale hb n \<longleftrightarrow> node_ready n \<and> heartbeats_checked hb \<and> \<not> beating hb (no_name n)"

definition adds :: "heartbeat \<Rightarrow> node_object list \<Rightarrow> cluster_health \<Rightarrow> cluster_health \<Rightarrow> bool" where
  "adds hb nodes ch r \<longleftrightarrow>
    ch_nodes_ready r = ch_nodes_ready ch + length (filter node_ready nodes) \<and>
    ch_stale r = ch_stale ch + length (filter (node_stale hb) nodes) \<and>
    map fst (ch_down_nodes r) = map fst (ch_down_nodes ch) @ map no_name (filter (\<lambda>n. \<not> node_ready n \<or> node_stale hb n) nodes) \<and>
    (ch_node_issues r = [] \<longleftrightarrow> ch_node_issues ch = [] \<and> (\<forall>n\<in>set nodes. node_fine hb n)) \<and>
    ch_nodes_total r = ch_nodes_total ch \<and> ch_absent r = ch_absent ch \<and> ch_system_issues r = ch_system_issues ch"

lemma assess_node_adds: "adds hb [n] ch (assess_node u hb (lease_map (hb_leases hb)) n ch)"
  using stale_iff [of hb "no_name n"] node_health_issues [of u n]
  by (auto simp: adds_def assess_node_def Let_def node_health_ready node_stale_def node_fine_def heartbeats_checked_def
      split: option.splits)

lemma adds_trans: "adds hb xs a b \<Longrightarrow> adds hb ys b c \<Longrightarrow> adds hb (xs @ ys) a c"
  by (auto simp: adds_def)

lemma assess_nodes_add: "adds hb nodes ch (fold (assess_node u hb (lease_map (hb_leases hb))) nodes ch)"
proof (induction nodes arbitrary: ch)
  case Nil
  show ?case by (simp add: adds_def)
next
  case (Cons n nodes)
  from adds_trans [OF assess_node_adds Cons] show ?case by simp
qed

lemma expect_nodes:
  "ch_node_issues (fold (expect_node names) xs ch) = [] \<longleftrightarrow> ch_node_issues ch = [] \<and> set xs \<subseteq> names"
  "ch_absent (fold (expect_node names) xs ch) = ch_absent ch + length (filter (\<lambda>x. x \<notin> names) xs)"
  "ch_down_nodes (fold (expect_node names) xs ch) = ch_down_nodes ch"
  "ch_nodes_ready (fold (expect_node names) xs ch) = ch_nodes_ready ch"
  "ch_nodes_total (fold (expect_node names) xs ch) = ch_nodes_total ch"
  "ch_stale (fold (expect_node names) xs ch) = ch_stale ch"
  "ch_system_issues (fold (expect_node names) xs ch) = ch_system_issues ch"
  by (induction xs arbitrary: ch) (auto simp: expect_node_def)

lemma clean_expected_set: "set (clean_expected xs) = trim_space ` set xs - {[]} \<and> distinct (clean_expected xs)"
proof -
  have "set (fold (\<lambda>e out. let nm = trim_space e in if nm = [] \<or> nm \<in> set out then out else out @ [nm]) xs out) =
      set out \<union> (trim_space ` set xs - {[]}) \<and>
    (distinct out \<longrightarrow> distinct (fold (\<lambda>e out. let nm = trim_space e in if nm = [] \<or> nm \<in> set out then out else out @ [nm]) xs out))" for out
    by (induction xs arbitrary: out) (auto simp: Let_def)
  from this [of "[]"] show ?thesis by (simp add: clean_expected_def)
qed

lemma system_issues_none: "List.map_filter system_issue ws = [] \<longleftrightarrow>
    \<not> (\<exists>w\<in>set ws. w_namespace w = system_namespace \<and> flagged w)"
  by (induction ws) (auto simp: system_issue_def)

text \<open>The counters and lists of the whole assessment.\<close>

lemma assess_cluster_facts:
  fixes u nodes hb expected ws
  shows "(ch_verdict (assess_cluster u nodes hb expected ws) = ''Healthy'' \<longleftrightarrow>
      (\<forall>n\<in>set nodes. node_fine hb n) \<and>
      (\<forall>e\<in>set expected. trim_space e = [] \<or> trim_space e \<in> no_name ` set nodes) \<and>
      \<not> (\<exists>w\<in>set ws. w_namespace w = system_namespace \<and> flagged w))"
    and "map fst (ch_down_nodes (assess_cluster u nodes hb expected ws)) =
      map no_name (filter (\<lambda>n. \<not> node_ready n \<or> node_stale hb n) nodes)"
    and "ch_nodes_ready (assess_cluster u nodes hb expected ws) = length (filter node_ready nodes)"
    and "ch_stale (assess_cluster u nodes hb expected ws) = length (filter (node_stale hb) nodes)"
    and "ch_nodes_total (assess_cluster u nodes hb expected ws) = length nodes"
    and "ch_absent (assess_cluster u nodes hb expected ws) = card ((trim_space ` set expected - {[]}) - no_name ` set nodes)"
proof -
  let ?start = "\<lparr>ch_verdict = [], ch_nodes_total = length nodes, ch_nodes_ready = 0, ch_stale = 0, ch_absent = 0,
    ch_node_issues = [], ch_system_issues = [], ch_scope_note = [], ch_down_nodes = []\<rparr>"
  note a = assess_nodes_add [of hb nodes ?start u, unfolded adds_def]
  note e = clean_expected_set [of expected]
  have "distinct (filter (\<lambda>x. x \<notin> no_name ` set nodes) (clean_expected expected))" using e by simp
  then have c: "length (filter (\<lambda>x. x \<notin> no_name ` set nodes) (clean_expected expected)) =
    card ((trim_space ` set expected - {[]}) - no_name ` set nodes)"
    using e by (simp add: distinct_card [symmetric] set_diff_eq)
  show "(ch_verdict (assess_cluster u nodes hb expected ws) = ''Healthy'' \<longleftrightarrow>
      (\<forall>n\<in>set nodes. node_fine hb n) \<and>
      (\<forall>e\<in>set expected. trim_space e = [] \<or> trim_space e \<in> no_name ` set nodes) \<and>
      \<not> (\<exists>w\<in>set ws. w_namespace w = system_namespace \<and> flagged w))"
    using a e by (auto simp: assess_cluster_def Let_def expect_nodes system_issues_none)
  show "map fst (ch_down_nodes (assess_cluster u nodes hb expected ws)) =
      map no_name (filter (\<lambda>n. \<not> node_ready n \<or> node_stale hb n) nodes)"
    "ch_nodes_ready (assess_cluster u nodes hb expected ws) = length (filter node_ready nodes)"
    "ch_stale (assess_cluster u nodes hb expected ws) = length (filter (node_stale hb) nodes)"
    "ch_nodes_total (assess_cluster u nodes hb expected ws) = length nodes"
    "ch_absent (assess_cluster u nodes hb expected ws) = card ((trim_space ` set expected - {[]}) - no_name ` set nodes)"
    using a c by (auto simp: assess_cluster_def Let_def expect_nodes)
qed

text \<open>Without a usable list of Leases the assessment does not depend on it.\<close>

lemma unchecked_heartbeats:
  assumes "\<not> heartbeats_checked hb" and "\<not> heartbeats_checked hb'"
  shows "assess_cluster u nodes hb expected ws = assess_cluster u nodes hb' expected ws"
proof -
  have "assess_node u hb m = assess_node u hb' m'" for m m'
    using assms by (auto simp: fun_eq_iff assess_node_def heartbeats_checked_def Let_def)
  then show ?thesis unfolding assess_cluster_def Let_def by metis
qed

section \<open>What \<open>readyz\<close> may print\<close>

definition failing_check :: "unicode_tables \<Rightarrow> string \<Rightarrow> string option" where
  "failing_check u row =
    (let t = trim_space row in
     if has_prefix t ''[-]'' \<and> first_field (drop 3 t) \<noteq> [] then Some (line u (first_field (drop 3 t))) else None)"

lemma failed_checks_eq:
  "failed_checks u body = take (max_failed_checks + 1) (List.map_filter (failing_check u) (split_byte (CHR 0x0A) body))"
proof -
  have "fold (see_check u) rows acc = take (max_failed_checks + 1) (acc @ List.map_filter (failing_check u) rows)"
    if "length acc \<le> max_failed_checks + 1" for rows acc
    using that
  proof (induction rows arbitrary: acc)
    case (Cons row rows)
    have "length (see_check u row acc) \<le> max_failed_checks + 1"
      using Cons.prems by (auto simp: see_check_def Let_def)
    moreover have "take (max_failed_checks + 1) (see_check u row acc @ List.map_filter (failing_check u) rows) =
      take (max_failed_checks + 1) (acc @ List.map_filter (failing_check u) (row # rows))"
      using Cons.prems
      by (cases "length acc = Suc max_failed_checks")
        (auto simp: see_check_def failing_check_def Let_def Suc_diff_le)
    ultimately show ?case by (simp add: Cons.IH)
  qed simp
  then show ?thesis by (simp add: failed_checks_def)
qed

section \<open>Properties\<close>

text \<open>
  C40. The cluster is called healthy exactly when every node is: its last \<open>Ready\<close> condition is true, it is
  under no pressure and schedulable, and, where heartbeats are checked, its Lease was renewed
  within the threshold; every expected node is there; and no workload of \<open>kube-system\<close> is flagged.
  The counts are the numbers of such nodes, and the down nodes are exactly those that are not ready
  or have stopped beating, in the order they came.
\<close>

theorem cluster_verdict:
  "(ch_verdict (assess_cluster u nodes hb expected ws) = ''Healthy'' \<longleftrightarrow>
      set nodes \<subseteq> Collect (node_fine hb) \<and>
      trim_space ` set expected - {[]} \<subseteq> no_name ` set nodes \<and>
      \<not> (\<exists>w\<in>set ws. w_namespace w = system_namespace \<and> flagged w)) \<and>
   map fst (ch_down_nodes (assess_cluster u nodes hb expected ws)) =
      map no_name (filter (\<lambda>n. if node_ready n then node_stale hb n else True) nodes) \<and>
   ch_nodes_ready (assess_cluster u nodes hb expected ws) = length (filter node_ready nodes) \<and>
   ch_stale (assess_cluster u nodes hb expected ws) = length (filter (node_stale hb) nodes) \<and>
   ch_absent (assess_cluster u nodes hb expected ws) = card ((trim_space ` set expected - {[]}) - no_name ` set nodes)"
  by (auto simp: assess_cluster_facts)

text \<open>
  A Lease list that could not be read claims nothing: the assessment is then what it would be with
  the heartbeat check switched off, no node counts as stale, and the down nodes are those that
  report not being ready.
\<close>

theorem blind_heartbeats:
  assumes "hb_unavailable hb"
  shows "assess_cluster u nodes hb expected ws = assess_cluster u nodes (hb\<lparr>hb_leases := [], hb_threshold := 0\<rparr>) expected ws \<and>
    ch_stale (assess_cluster u nodes hb expected ws) = 0 \<and>
    map fst (ch_down_nodes (assess_cluster u nodes hb expected ws)) = map no_name (filter (\<lambda>n. \<not> node_ready n) nodes)"
proof (intro conjI)
  have n: "\<not> heartbeats_checked hb" "\<not> heartbeats_checked (hb\<lparr>hb_leases := [], hb_threshold := 0\<rparr>)"
    using assms by (simp_all add: heartbeats_checked_def)
  show "assess_cluster u nodes hb expected ws = assess_cluster u nodes (hb\<lparr>hb_leases := [], hb_threshold := 0\<rparr>) expected ws"
    by (rule unchecked_heartbeats [OF n])
  show "ch_stale (assess_cluster u nodes hb expected ws) = 0"
    "map fst (ch_down_nodes (assess_cluster u nodes hb expected ws)) = map no_name (filter (\<lambda>n. \<not> node_ready n) nodes)"
    using n(1) by (simp_all add: assess_cluster_facts node_stale_def)
qed

definition silent_node :: node_object where
  "silent_node = \<lparr>no_name = ''n1'', no_labels = [],
     no_conditions = [\<lparr>cn_type = ''Ready'', cn_status = ''True'', cn_reason = [], cn_message = []\<rparr>],
     no_unschedulable = False, no_taints = [], no_allocatable = [], no_capacity = []\<rparr>"

theorem blind_heartbeats_witness:
  "ch_stale (assess_cluster small_tables [silent_node] \<lparr>hb_leases = [], hb_now = 0, hb_threshold = minute, hb_unavailable = True\<rparr> [] []) = 0 \<and>
   ch_stale (assess_cluster small_tables [silent_node] \<lparr>hb_leases = [], hb_now = 0, hb_threshold = minute, hb_unavailable = False\<rparr> [] []) = 1"
  using blind_heartbeats [of "\<lparr>hb_leases = [], hb_now = 0, hb_threshold = minute, hb_unavailable = True\<rparr>" small_tables "[silent_node]" "[]" "[]"]
  by (simp add: assess_cluster_facts node_stale_def node_ready_def silent_node_def heartbeats_checked_def beating_def time_units)

text \<open>
  The answer of \<open>/readyz\<close> is one of four, decided by the status code alone, and what it makes kubeagent
  print is bounded: the failing checks are the first 21 lines marked \<open>[-]\<close> that name one, and
  each name is one safe line.
\<close>

theorem readyz_bounded:
  assumes "unicode_ok u"
  shows "(rz_status (parse_readyz u code body) =
       (if code = 200 then ''ok'' else if code \<in> {401, 403} then ''forbidden'' else if code = 0 then ''unreachable'' else ''unhealthy'')) \<and>
    rz_failed (parse_readyz u code body) =
       (if rz_status (parse_readyz u code body) = ''unhealthy''
        then take (max_failed_checks + 1) (List.map_filter (failing_check u) (split_byte (CHR 0x0A) body)) else []) \<and>
    length (rz_failed (parse_readyz u code body)) \<le> 21 \<and>
    (\<forall>f\<in>set (rz_failed (parse_readyz u code body)). length (to_valid False f) \<le> MaxLine \<and>
       (\<forall>r\<in>set (to_valid False f). \<not> is_control r \<and> \<not> tbl_Cf u r))"
proof -
  have "length (to_valid False f) \<le> MaxLine \<and> (\<forall>r\<in>set (to_valid False f). \<not> is_control r \<and> \<not> tbl_Cf u r)"
    if f: "f \<in> set (failed_checks u body)" for f
  proof -
    from f have "f \<in> set (List.map_filter (failing_check u) (split_byte (CHR 0x0A) body))"
      unfolding failed_checks_eq by (rule in_set_takeD)
    then obtain t where "f = line u t"
      by (auto simp: set_map_filter failing_check_def Let_def split: if_splits)
    then show ?thesis using line_runes_clean [OF assms] by (simp add: to_valid_line line_runes_length)
  qed
  moreover have "length (failed_checks u body) \<le> 21" by (simp add: failed_checks_eq max_failed_checks_def)
  ultimately show ?thesis by (auto simp: parse_readyz_def failed_checks_eq)
qed

theorem readyz_bounded_witness:
  "rz_status (parse_readyz small_tables 500 ''[-]etcd failed'') = ''unhealthy'' \<and>
   length (rz_failed (parse_readyz small_tables 500 ''[-]etcd failed'')) \<le> 21"
  using readyz_bounded [OF small_tables_ok, of 500 "''[-]etcd failed''"] by (auto simp del: list.size)

end
