(* ===== verification/Tui.thy ===== *)
theory Tui
  imports Findings Cluster_Health
begin

text \<open>
  \<open>internal/tui/key.go\<close> and \<open>model.go\<close>: the decoding of key presses from terminal bytes, the model of
  the terminal browser and \<open>Update\<close>, its only transition function. \<open>decode_key\<close> is \<open>decodeKey\<close>,
  \<open>drain_keys\<close> the loop that applies every complete key of the pending bytes, \<open>clamp\<close> the single place
  where cursor and scroll position are bounded. Rows and columns are mathematical integers: a terminal
  reports 16-bit sizes and a list position never leaves the list. The lemmas show that decoding does not
  depend on how the bytes were cut into reads, and the bounds every screen relies on.
\<close>

section \<open>Keys\<close>

text \<open>A key press; the rune of the source's struct belongs to \<open>KeyRune\<close> alone.\<close>

datatype key = KeyRune rune | KeyUp | KeyDown | KeyLeft | KeyRight | KeyEnter | KeyEsc | KeyCtrlC | KeyUnknown

definition no_key :: key where "no_key = KeyRune 0"

definition decode_esc :: "string \<Rightarrow> bool \<Rightarrow> key \<times> nat" where
  "decode_esc b final =
    (if length b = 1 then if final then (KeyEsc, 1) else (no_key, 0)
     else if b ! 1 \<noteq> CHR ''['' then (KeyEsc, 2)
     else if length b = 2 then if final then (KeyUnknown, 2) else (no_key, 0)
     else if b ! 2 = CHR ''A'' then (KeyUp, 3)
     else if b ! 2 = CHR ''B'' then (KeyDown, 3)
     else if b ! 2 = CHR ''C'' then (KeyRight, 3)
     else if b ! 2 = CHR ''D'' then (KeyLeft, 3)
     else (KeyUnknown, 3))"

text \<open>The length a lead byte announces.\<close>

definition rune_want :: "nat \<Rightarrow> nat option" where
  "rune_want b0 =
    (if 194 \<le> b0 \<and> b0 \<le> 223 then Some 2
     else if 224 \<le> b0 \<and> b0 \<le> 239 then Some 3
     else if 240 \<le> b0 \<and> b0 \<le> 244 then Some 4 else None)"

definition rune_prefix :: "string \<Rightarrow> bool" where
  "rune_prefix b =
    (let bs = map of_char b in
     if bs = [] \<or> length bs \<ge> 4 then False
     else case rune_want (hd bs) of
       None \<Rightarrow> False
     | Some want \<Rightarrow> length bs < want \<and> list_all cont (tl bs))"

definition decode_key :: "string \<Rightarrow> bool \<Rightarrow> key \<times> nat" where
  "decode_key b final =
    (if b = [] then (no_key, 0)
     else if hd b = CHR 0x03 then (KeyCtrlC, 1)
     else if hd b = CHR 0x0D \<or> hd b = CHR 0x0A then (KeyEnter, 1)
     else if hd b = CHR 0x1B then decode_esc b final
     else case decode_rune b of
       Some (r, n) \<Rightarrow> (KeyRune r, n)
     | None \<Rightarrow> if \<not> final \<and> rune_prefix b then (no_key, 0) else (KeyUnknown, 1))"

section \<open>The model\<close>

datatype tui_mode = ModeList | ModeDetail | ModeBlind | ModeHelp

datatype tui_filter = FilterAll | FilterWarning | FilterCritical

record tui_model =
  tm_version :: string
  tm_scope :: string
  tm_generated :: string
  tm_health :: cluster_health
  tm_workloads :: nat
  tm_all :: "gate_finding list"
  tm_blind :: "read_failure list"
  tm_mode :: tui_mode
  tm_filter :: tui_filter
  tm_cursor :: int
  tm_top :: int
  tm_width :: int
  tm_height :: int
  tm_colour :: bool
  tm_scanning :: bool
  tm_err :: string
  tm_quit :: bool

definition visible :: "tui_model \<Rightarrow> gate_finding list" where
  "visible m =
    (if tm_filter m = FilterAll then tm_all m
     else let floor = (if tm_filter m = FilterCritical then Critical else Warning)
       in filter (\<lambda>f. gf_level f \<ge> floor) (tm_all m))"

definition list_rows :: "tui_model \<Rightarrow> int" where
  "list_rows m = tm_height m - 6"

record tui_snapshot =
  ts_findings :: "gate_finding list"
  ts_blind :: "read_failure list"
  ts_health :: cluster_health
  ts_workloads :: nat
  ts_generated :: string

text \<open>An event carries what its kind makes meaningful; a scan that failed has no snapshot and a message.\<close>

datatype tui_event = EventKey key | EventResize int int | EventScanned "tui_snapshot option" string

definition clamp :: "tui_model \<Rightarrow> tui_model" where
  "clamp m =
    (let n = int (length (visible m)) in
     if n = 0 then
       (let m = m\<lparr>tm_cursor := 0, tm_top := 0\<rparr> in if tm_mode m = ModeDetail then m\<lparr>tm_mode := ModeList\<rparr> else m)
     else
       let m = (if tm_cursor m \<ge> n then m\<lparr>tm_cursor := n - 1\<rparr> else m);
           m = (if tm_cursor m < 0 then m\<lparr>tm_cursor := 0\<rparr> else m);
           rows = (if list_rows m < 1 then 1 else list_rows m);
           m = (if tm_cursor m < tm_top m then m\<lparr>tm_top := tm_cursor m\<rparr> else m);
           m = (if tm_cursor m \<ge> tm_top m + rows then m\<lparr>tm_top := tm_cursor m - rows + 1\<rparr> else m);
           m = (if tm_top m > n - rows then m\<lparr>tm_top := n - rows\<rparr> else m)
       in (if tm_top m < 0 then m\<lparr>tm_top := 0\<rparr> else m))"

definition toggle :: "tui_mode \<Rightarrow> tui_mode \<Rightarrow> tui_mode" where
  "toggle current want = (if current = want then ModeList else want)"

definition move :: "tui_model \<Rightarrow> int \<Rightarrow> tui_model" where
  "move m delta = clamp (m\<lparr>tm_cursor := tm_cursor m + delta\<rparr>)"

definition open_detail :: "tui_model \<Rightarrow> tui_model" where
  "open_detail m = (if tm_mode m = ModeList \<and> length (visible m) > 0 then m\<lparr>tm_mode := ModeDetail\<rparr> else m)"

definition update_rune :: "tui_model \<Rightarrow> rune \<Rightarrow> tui_model" where
  "update_rune m r =
    (if r = of_char (CHR ''q'') then m\<lparr>tm_quit := True\<rparr>
     else if r = of_char (CHR ''j'') then move m 1
     else if r = of_char (CHR ''k'') then move m (- 1)
     else if r = of_char (CHR ''l'') then open_detail m
     else if r = of_char (CHR ''h'') then m\<lparr>tm_mode := ModeList\<rparr>
     else if r = of_char (CHR ''g'') then clamp (m\<lparr>tm_cursor := 0\<rparr>)
     else if r = of_char (CHR ''G'') then clamp (m\<lparr>tm_cursor := int (length (visible m)) - 1\<rparr>)
     else if r = of_char (CHR ''1'') then clamp (m\<lparr>tm_filter := FilterCritical\<rparr>)
     else if r = of_char (CHR ''2'') then clamp (m\<lparr>tm_filter := FilterWarning\<rparr>)
     else if r = of_char (CHR ''0'') \<or> r = of_char (CHR ''a'') then clamp (m\<lparr>tm_filter := FilterAll\<rparr>)
     else if r = of_char (CHR ''b'') then m\<lparr>tm_mode := toggle (tm_mode m) ModeBlind\<rparr>
     else if r = of_char (CHR ''?'') then m\<lparr>tm_mode := toggle (tm_mode m) ModeHelp\<rparr>
     else if r = of_char (CHR ''r'') then m\<lparr>tm_scanning := True\<rparr>
     else m)"

fun update_key :: "tui_model \<Rightarrow> key \<Rightarrow> tui_model" where
  "update_key m KeyCtrlC = m\<lparr>tm_quit := True\<rparr>"
| "update_key m KeyUp = move m (- 1)"
| "update_key m KeyDown = move m 1"
| "update_key m KeyEnter = open_detail m"
| "update_key m KeyRight = open_detail m"
| "update_key m KeyEsc = m\<lparr>tm_mode := ModeList\<rparr>"
| "update_key m KeyLeft = m\<lparr>tm_mode := ModeList\<rparr>"
| "update_key m (KeyRune r) = update_rune m r"
| "update_key m KeyUnknown = m"

fun tui_update :: "tui_model \<Rightarrow> tui_event \<Rightarrow> tui_model" where
  "tui_update m (EventResize w h) = clamp (m\<lparr>tm_width := w, tm_height := h\<rparr>)"
| "tui_update m (EventScanned None e) = m\<lparr>tm_scanning := False, tm_err := e\<rparr>"
| "tui_update m (EventScanned (Some s) e) =
    clamp (m\<lparr>tm_scanning := False, tm_err := [], tm_all := ts_findings s, tm_blind := ts_blind s,
      tm_health := ts_health s, tm_workloads := ts_workloads s, tm_generated := ts_generated s\<rparr>)"
| "tui_update m (EventKey k) = update_key m k"

text \<open>The loop of \<open>drainKeys\<close> stops as soon as the browser is to quit or to scan again.\<close>

definition stopped :: "tui_model \<Rightarrow> bool" where
  "stopped m \<longleftrightarrow> tm_quit m \<or> tm_scanning m"

lemma decode_key_shrinks: "0 < snd (decode_key b final) \<Longrightarrow> b \<noteq> []"
  by (auto simp: decode_key_def)

function drain_keys :: "string \<Rightarrow> tui_model \<Rightarrow> bool \<Rightarrow> string \<times> tui_model" where
  "drain_keys pending m final =
    (let k = decode_key pending final in
     if snd k = 0 then (pending, m)
     else let m' = tui_update m (EventKey (fst k)); pending' = drop (snd k) pending in
       if stopped m' then (pending', m') else drain_keys pending' m' final)"
  by pat_completeness auto
termination
  by (relation "measure (\<lambda>(p, _, _). length p)") (auto intro!: diff_less dest: decode_key_shrinks)

declare drain_keys.simps [simp del]

section \<open>Decoding makes progress and ignores how the bytes were cut\<close>

lemma decode_rune_width: "decode_rune b = Some (r, n) \<Longrightarrow> 1 \<le> n \<and> n \<le> length b"
  by (cases b) (auto simp: decode_rune_def Let_def split: list.splits if_splits)

lemma decode_rune_more: "decode_rune b = Some (r, n) \<Longrightarrow> decode_rune (b @ c) = Some (r, n)"
  by (cases b) (auto simp: decode_rune_def Let_def split: list.splits if_splits)


lemma decode_rune_invalid_more:
  assumes "decode_rune b = None" and "b \<noteq> []" and "\<not> rune_prefix b"
  shows "decode_rune (b @ c) = None" and "\<not> rune_prefix (b @ c)"
proof -
  consider b0 where "b = [b0]" | b0 b1 where "b = [b0, b1]" | b0 b1 b2 where "b = [b0, b1, b2]"
    | b0 b1 b2 b3 s where "b = b0 # b1 # b2 # b3 # s"
    using assms(2) by (metis neq_Nil_conv)
  then show "decode_rune (b @ c) = None"
    by cases (use assms(1,3) in \<open>auto simp: decode_rune_def rune_prefix_def rune_want_def Let_def
      split: list.splits if_splits option.splits\<close>)
  show "\<not> rune_prefix (b @ c)"
    using assms(2,3) unfolding rune_prefix_def Let_def by (cases b) (auto split: option.splits if_splits)
qed

lemma decode_esc_more: "b \<noteq> [] \<Longrightarrow> decode_esc b False = (k, n) \<Longrightarrow> n \<noteq> 0 \<Longrightarrow> decode_esc (b @ c) False = (k, n)"
  by (cases b rule: remdups_adj.cases)
    (auto simp: decode_esc_def nth_append split: if_splits)

lemma decode_key_more: "decode_key b False = (k, n) \<Longrightarrow> n \<noteq> 0 \<Longrightarrow> decode_key (b @ c) False = (k, n)"
  by (cases "b = []"; cases "decode_rune b")
    (auto simp: decode_key_def decode_esc_more hd_append decode_rune_invalid_more decode_rune_more split: if_splits)

lemma decode_esc_width: "b \<noteq> [] \<Longrightarrow> snd (decode_esc b final) \<le> length b"
  by (cases b rule: remdups_adj.cases) (auto simp: decode_esc_def Suc_le_eq neq_Nil_conv)

text \<open>A key never takes more bytes than there are, so that the slice in \<open>drainKeys\<close> is in bounds.\<close>

lemma decode_key_width: "snd (decode_key b final) \<le> length b"
  by (cases "b = []")
    (auto simp: decode_key_def decode_esc_width Suc_le_eq dest: decode_rune_width split: option.splits)

lemma decode_key_final: "b \<noteq> [] \<Longrightarrow> snd (decode_key b True) \<noteq> 0"
  by (auto simp: decode_key_def decode_esc_def dest: decode_rune_width split: option.splits)

lemma decode_key_starved: "b \<noteq> [] \<Longrightarrow> snd (decode_key b final) = 0 \<Longrightarrow> \<not> final \<and> length b \<le> 3"
  unfolding decode_key_def decode_esc_def rune_prefix_def Let_def
  by (auto dest: decode_rune_width split: option.splits if_splits)

text \<open>What \<open>drain_keys\<close> leaves: nothing but an unfinished key, unless it stopped.\<close>

lemma drain_keys_rest:
  "drain_keys p m final = (rest, m') \<Longrightarrow> \<not> stopped m' \<Longrightarrow> length rest \<le> (if final then 0 else 3)"
proof (induction p m final rule: drain_keys.induct)
  case (1 p m final)
  show ?case
  proof (cases "snd (decode_key p final) = 0")
    case True
    then have "p \<noteq> [] \<Longrightarrow> \<not> final \<and> length p \<le> 3" by (rule decode_key_starved [rotated])
    with 1 True show ?thesis by (cases "p = []") (auto simp: drain_keys.simps [of p] drain_keys.simps [of "[]"])
  next
    case False
    with 1(2,3) 1(1) [OF refl False refl refl] show ?thesis
      by (auto simp: drain_keys.simps [of p] Let_def split: if_splits)
  qed
qed

lemma drain_keys_append:
  "\<not> stopped m \<Longrightarrow> drain_keys p m False = (rest, m') \<Longrightarrow>
   drain_keys (p @ q) m False = (if stopped m' then (rest @ q, m') else drain_keys (rest @ q) m' False)"
proof (induction p m "False" rule: drain_keys.induct)
  case (1 p m)
  obtain k n where kn: "decode_key p False = (k, n)" by force
  show ?case
  proof (cases "n = 0")
    case True
    with 1(2,3) kn show ?thesis by (simp add: drain_keys.simps [of p])
  next
    case False
    define m1 where "m1 = tui_update m (EventKey k)"
    have le: "n \<le> length p" using decode_key_width [of p False] kn by simp
    note more = decode_key_more [OF kn False, of q]
    show ?thesis
    proof (cases "stopped m1")
      case True
      with 1(3) kn False more le show ?thesis
        by (simp add: drain_keys.simps [of p] drain_keys.simps [of "p @ q"] m1_def Let_def)
    next
      case ns: False
      from 1(3) kn False ns have d: "drain_keys (drop n p) m1 False = (rest, m')"
        by (simp add: drain_keys.simps [of p] m1_def Let_def)
      have "drain_keys (drop n p @ q) m1 False = (if stopped m' then (rest @ q, m') else drain_keys (rest @ q) m' False)"
        using 1(1) [OF refl] kn False ns d by (simp add: m1_def)
      with kn False ns more le show ?thesis
        by (simp add: drain_keys.simps [of "p @ q"] m1_def Let_def)
    qed
  qed
qed

text \<open>The bytes as the reads deliver them, each read drained on its own, as the input loop does.\<close>

fun feed :: "string list \<Rightarrow> string \<times> tui_model \<Rightarrow> string \<times> tui_model" where
  "feed [] st = st"
| "feed (c # cs) st =
    (if stopped (snd st) then (fst st @ concat (c # cs), snd st) else feed cs (drain_keys (fst st @ c) (snd st) False))"

lemma feed_drain: "\<not> stopped m \<Longrightarrow> feed cs (drain_keys p m False) = drain_keys (p @ concat cs) m False"
proof (induction cs arbitrary: p m)
  case (Cons c cs)
  obtain rest m' where d: "drain_keys p m False = (rest, m')" by force
  show ?case
  proof (cases "stopped m'")
    case True
    with drain_keys_append [OF Cons.prems d, of "concat (c # cs)"] d show ?thesis by simp
  next
    case False
    with drain_keys_append [OF Cons.prems d, of "concat (c # cs)"] d Cons.IH [OF False, of "rest @ c"]
    show ?thesis by simp
  qed
qed simp

lemma drain_keys_Nil: "drain_keys [] m final = ([], m)"
  by (simp add: drain_keys.simps [of "[]"] decode_key_def)

section \<open>Cursor and scroll bounds\<close>

text \<open>
  What every screen relies on: the cursor names a visible finding and its row is on the screen, no row is
  left blank while findings are scrolled off above, and the detail pane has a finding to show.
\<close>

definition in_view :: "tui_model \<Rightarrow> bool" where
  "in_view m \<longleftrightarrow>
    (let n = int (length (visible m)); rows = max 1 (list_rows m) in
     0 \<le> tm_top m \<and> tm_top m \<le> tm_cursor m \<and> tm_cursor m < tm_top m + rows \<and> tm_cursor m < max 1 n \<and>
     tm_top m \<le> max 0 (n - rows) \<and> (n = 0 \<longrightarrow> tm_mode m \<noteq> ModeDetail))"

lemma unmoved [simp]:
  "visible (m\<lparr>tm_cursor := c\<rparr>) = visible m" "visible (m\<lparr>tm_top := t\<rparr>) = visible m" "visible (m\<lparr>tm_mode := mo\<rparr>) = visible m"
  "visible (m\<lparr>tm_quit := q\<rparr>) = visible m" "visible (m\<lparr>tm_scanning := sc\<rparr>) = visible m" "visible (m\<lparr>tm_err := er\<rparr>) = visible m"
  "list_rows (m\<lparr>tm_cursor := c\<rparr>) = list_rows m" "list_rows (m\<lparr>tm_top := t\<rparr>) = list_rows m" "list_rows (m\<lparr>tm_mode := mo\<rparr>) = list_rows m"
  "list_rows (m\<lparr>tm_quit := q\<rparr>) = list_rows m" "list_rows (m\<lparr>tm_scanning := sc\<rparr>) = list_rows m" "list_rows (m\<lparr>tm_err := er\<rparr>) = list_rows m"
  by (simp_all add: visible_def list_rows_def)

text \<open>The bounds of a non-empty list, in one arithmetic step per field.\<close>

definition held :: "int \<Rightarrow> int \<Rightarrow> int" where "held n c = max 0 (min (n - 1) c)"

definition scrolled :: "int \<Rightarrow> int \<Rightarrow> int \<Rightarrow> int \<Rightarrow> int" where
  "scrolled n rows c t = max 0 (min (n - rows) (max (c - rows + 1) (min c t)))"

lemma max_zero: "max 0 q = (if q < 0 then 0 else q)" for q :: int
  by (simp add: max_def)

lemma scrolled_bounds:
  assumes "1 \<le> rows" and "0 \<le> c" and "c < n"
  shows "0 \<le> scrolled n rows c t" and "scrolled n rows c t \<le> c" and "c < scrolled n rows c t + rows"
    and "scrolled n rows c t \<le> max 0 (n - rows)"
proof -
  define t1 where "t1 = min c t"
  define t2 where "t2 = max (c - rows + 1) t1"
  define t3 where "t3 = min (n - rows) t2"
  have e: "scrolled n rows c t = max 0 t3" by (simp add: scrolled_def t1_def t2_def t3_def)
  have "t1 \<le> c" by (simp add: t1_def)
  with assms have 2: "c < t2 + rows" "t2 \<le> c" by (auto simp: t2_def)
  then have 3: "t3 \<le> t2" "t3 \<le> n - rows" "c < t3 + rows" using assms by (auto simp: t3_def)
  with 2 assms show "0 \<le> scrolled n rows c t" "scrolled n rows c t \<le> c" "c < scrolled n rows c t + rows"
    "scrolled n rows c t \<le> max 0 (n - rows)"
    unfolding e by linarith+
qed

lemma clamp_some:
  assumes "visible m \<noteq> []"
  defines "n \<equiv> int (length (visible m))"
  shows "clamp m = m\<lparr>tm_cursor := held n (tm_cursor m), tm_top := scrolled n (max 1 (list_rows m)) (held n (tm_cursor m)) (tm_top m)\<rparr>"
proof -
  define c where "c = held n (tm_cursor m)"
  define rows where "rows = max 1 (list_rows m)"
  define k where "k = (if tm_cursor m \<ge> n then m\<lparr>tm_cursor := n - 1\<rparr> else m)"
  define m1 where "m1 = (if tm_cursor k < 0 then k\<lparr>tm_cursor := 0\<rparr> else k)"
  define m2 where "m2 = (if tm_cursor m1 < tm_top m1 then m1\<lparr>tm_top := tm_cursor m1\<rparr> else m1)"
  define m3 where "m3 = (if tm_cursor m2 \<ge> tm_top m2 + rows then m2\<lparr>tm_top := tm_cursor m2 - rows + 1\<rparr> else m2)"
  define m4 where "m4 = (if tm_top m3 > n - rows then m3\<lparr>tm_top := n - rows\<rparr> else m3)"
  have n: "1 \<le> n" "n \<noteq> 0" using assms by (auto simp: Suc_le_eq)
  have m1: "m1 = m\<lparr>tm_cursor := c\<rparr>" using n by (auto simp: m1_def k_def c_def held_def)
  have rows: "(if list_rows m1 < 1 then 1 else list_rows m1) = rows" by (simp add: m1 rows_def)
  have m2: "m2 = m1\<lparr>tm_top := min c (tm_top m)\<rparr>" by (simp add: m2_def m1 min_def)
  have m3: "m3 = m1\<lparr>tm_top := max (c - rows + 1) (min c (tm_top m))\<rparr>" by (auto simp: m3_def m2 m1 max_def)
  have m4: "m4 = m1\<lparr>tm_top := min (n - rows) (max (c - rows + 1) (min c (tm_top m)))\<rparr>" by (simp add: m4_def m3 min_def)
  have "clamp m = (if tm_top m4 < 0 then m4\<lparr>tm_top := 0\<rparr> else m4)"
    unfolding clamp_def n_def [symmetric] Let_def using n(2)
    by (simp only: if_False k_def [symmetric] m1_def [symmetric] rows m2_def [symmetric] m3_def [symmetric] m4_def [symmetric])
  also have "\<dots> = m1\<lparr>tm_top := scrolled n rows c (tm_top m)\<rparr>"
    by (simp add: m4 scrolled_def max_zero)
  finally show ?thesis by (simp add: m1 c_def rows_def)
qed

lemma clamp_in_view: "in_view (clamp m)"
proof (cases "visible m = []")
  case True
  then show ?thesis by (simp add: clamp_def in_view_def Let_def)
next
  case False
  define n where "n = int (length (visible m))"
  define rows where "rows = max 1 (list_rows m)"
  define c where "c = held n (tm_cursor m)"
  define t where "t = scrolled n rows c (tm_top m)"
  have n: "1 \<le> n" using False by (simp add: n_def Suc_le_eq)
  then have c: "0 \<le> c" "c < n" unfolding c_def held_def by linarith+
  have r: "1 \<le> rows" by (simp add: rows_def)
  note b = scrolled_bounds [OF r c, of "tm_top m", folded t_def]
  have "max 1 n = n" using n by simp
  with n c b show ?thesis
    unfolding clamp_some [OF False] n_def [symmetric] rows_def [symmetric] c_def [symmetric] t_def [symmetric]
    by (simp add: in_view_def Let_def n_def [symmetric] rows_def [symmetric])
qed

lemma update_in_view: "in_view m \<Longrightarrow> in_view (tui_update m e)"
proof (cases e)
  case (EventKey k)
  assume "in_view m"
  then have "in_view (m\<lparr>tm_quit := q\<rparr>)" "in_view (m\<lparr>tm_scanning := sc\<rparr>)" "in_view (open_detail m)"
    "in_view (m\<lparr>tm_mode := ModeList\<rparr>)" "in_view (m\<lparr>tm_mode := toggle (tm_mode m) ModeBlind\<rparr>)"
    "in_view (m\<lparr>tm_mode := toggle (tm_mode m) ModeHelp\<rparr>)" for q sc
    by (auto simp: in_view_def Let_def open_detail_def toggle_def)
  with \<open>in_view m\<close> EventKey show ?thesis
    by (cases k) (auto simp: update_rune_def move_def clamp_in_view)
next
  case (EventScanned r er)
  assume "in_view m"
  then have "in_view (m\<lparr>tm_scanning := False, tm_err := er\<rparr>)" by (simp add: in_view_def)
  with EventScanned show ?thesis by (cases r) (simp_all add: clamp_in_view)
qed (auto simp: clamp_in_view)

lemma drain_in_view: "in_view m \<Longrightarrow> in_view (snd (drain_keys p m final))"
proof (induction p m final rule: drain_keys.induct)
  case (1 p m final)
  then show ?case
    using update_in_view [OF 1(2), of "EventKey (fst (decode_key p final))"]
    by (simp add: drain_keys.simps [of p] Let_def)
qed


text \<open>
  The browser never points outside its list. However many keys, resizes and scan results arrive, with
  whatever sizes and lists, after a first snapshot the cursor names a visible finding whose row is on the
  screen, the window is not scrolled past the end of the list, and the detail pane is open only with
  a finding to show.
\<close>

theorem browser_in_view: "in_view (foldl tui_update m (EventScanned (Some s) er # es))"
proof -
  have "in_view (foldl tui_update m es)" if "in_view m" for m
    using that by (induction es arbitrary: m) (simp_all add: update_in_view)
  then show ?thesis by (simp add: clamp_in_view)
qed

definition no_health :: cluster_health where
  "no_health = \<lparr>ch_verdict = [], ch_nodes_total = 0, ch_nodes_ready = 0, ch_stale = 0, ch_absent = 0, ch_node_issues = [],
     ch_system_issues = [], ch_scope_note = [], ch_down_nodes = []\<rparr>"

definition two_findings :: tui_model where
  "two_findings = \<lparr>tm_version = [], tm_scope = [], tm_generated = [], tm_health = no_health, tm_workloads = 1,
     tm_all = [mk_finding Critical ''Pod'' ''shop'' ''web'' ''CrashLoopBackOff'' [],
       mk_finding Warning ''Pod'' ''shop'' ''db'' ''RestartLoop'' []],
     tm_blind = [], tm_mode = ModeList, tm_filter = FilterAll, tm_cursor = 0, tm_top = 0, tm_width = 80, tm_height = 24,
     tm_colour = True, tm_scanning = False, tm_err = [], tm_quit = False\<rparr>"


end
