(* ===== verification/Gate.thy ===== *)
theory Gate
  imports Findings
begin

text \<open>
  \<open>internal/gate/gate.go\<close> and \<open>text.go\<close>: the verdict of the CI gate over a scan result, the outcome of
  the policy run and the baseline comparison, and the text that shows it.
\<close>

section \<open>Data\<close>

abbreviation (input) CodePass :: nat where "CodePass \<equiv> 0"
abbreviation (input) CodeFail :: nat where "CodeFail \<equiv> 1"
abbreviation (input) CodeInconclusive :: nat where "CodeInconclusive \<equiv> 2"
abbreviation (input) CodeTimeout :: nat where "CodeTimeout \<equiv> 3"

record gate_options =
  go_fail_on :: level
  go_scope_kind :: string
  go_scope_name :: string
  go_scope_namespace :: string
  go_allow_partial :: "string list"
  go_timed_out :: bool
  go_timeout_detail :: string
  go_violations :: "violation list"
  go_not_evaluated :: "unevaluated list"
  go_baseline :: "baseline_report option"

record blindspot =
  bs_resource :: string
  bs_reason :: string
  bs_waived :: bool

record gate_verdict =
  gv_schema_version :: string
  gv_verdict :: string
  gv_code :: nat
  gv_fail_on :: level
  gv_scope :: string
  gv_detail :: string
  gv_failing :: "gate_finding list"
  gv_reported :: "gate_finding list"
  gv_inconclusive :: "blindspot list"
  gv_not_evaluated :: "unevaluated list"

section \<open>Scope\<close>

definition policy_issue_prefix :: string where
  "policy_issue_prefix = ''policy/''"

definition is_unevaluated_rule :: "gate_finding \<Rightarrow> bool" where
  "is_unevaluated_rule f \<longleftrightarrow> has_prefix (gf_issue f) policy_issue_prefix \<and> gf_name f = []"

definition in_scope :: "gate_options \<Rightarrow> gate_finding \<Rightarrow> bool" where
  "in_scope o' f =
    (if go_scope_kind o' = [] then True
     else if is_unevaluated_rule f then True
     else if gf_namespace f \<noteq> go_scope_namespace o' then False
     else if gf_kind f = go_scope_kind o' \<and> gf_name f = go_scope_name o' then True
     else gf_owner f = go_scope_kind o' @ ''/'' @ go_scope_name o')"

section \<open>Decide\<close>

definition gate_version :: string where
  "gate_version = ''1.1''"

definition waived :: "gate_options \<Rightarrow> (string, bool) gomap" where
  "waived o' = fold (\<lambda>r. mput r True) (go_allow_partial o') []"

definition blindspots :: "scan_result \<Rightarrow> gate_options \<Rightarrow> blindspot list" where
  "blindspots res o' = map (\<lambda>pr. \<lparr>bs_resource = rf_resource pr, bs_reason = rf_reason pr,
     bs_waived = mget_zero False (waived o') (rf_resource pr)\<rparr>) (sr_partial_reads res)"

definition all_findings :: "scan_result \<Rightarrow> gate_options \<Rightarrow> gate_finding list" where
  "all_findings res o' = sort_findings
    (flatten res @ from_policy (go_violations o') (go_not_evaluated o') @ from_baseline (go_baseline o'))"

text \<open>The loop that puts each finding into one of the two lists.\<close>

definition split_finding :: "gate_options \<Rightarrow> gate_finding \<Rightarrow> gate_finding list \<times> gate_finding list \<Rightarrow>
    gate_finding list \<times> gate_finding list" where
  "split_finding o' f st =
    (if in_scope o' f \<and> gf_level f \<ge> go_fail_on o' then (fst st @ [f], snd st) else (fst st, snd st @ [f]))"

definition scope_text :: "gate_options \<Rightarrow> string" where
  "scope_text o' = (if go_scope_kind o' \<noteq> []
     then go_scope_kind o' @ ''/'' @ go_scope_name o' @ '' in '' @ go_scope_namespace o' else ''cluster'')"

definition decide :: "scan_result \<Rightarrow> gate_options \<Rightarrow> gate_verdict" where
  "decide res o' =
    (let inconclusive = blindspots res o';
         blind = list_ex (\<lambda>b. \<not> bs_waived b) inconclusive;
         (failing0, reported0) = fold (split_finding o') (all_findings res o') ([], []);
         failing = sort_findings failing0;
         reported = sort_findings reported0;
         unevaluated_failing = list_ex is_unevaluated_rule failing;
         (verdict, code) =
           (if go_timed_out o' then (''timeout'', CodeTimeout)
            else if unevaluated_failing then (''fail'', CodeFail)
            else if blind then (''inconclusive'', CodeInconclusive)
            else if length failing > 0 then (''fail'', CodeFail)
            else (''pass'', CodePass))
     in \<lparr>gv_schema_version = gate_version, gv_verdict = verdict, gv_code = code, gv_fail_on = go_fail_on o',
         gv_scope = scope_text o', gv_detail = go_timeout_detail o', gv_failing = failing,
         gv_reported = reported, gv_inconclusive = inconclusive, gv_not_evaluated = go_not_evaluated o'\<rparr>)"

section \<open>Text\<close>

definition plural :: "nat \<Rightarrow> string \<Rightarrow> string \<Rightarrow> string" where
  "plural n one many = itoa (int n) @ '' '' @ (if n = 1 then one else many)"

definition finding_identity :: "gate_finding \<Rightarrow> string" where
  "finding_identity f = (if gf_namespace f = [] then gf_name f else gf_namespace f @ ''/'' @ gf_name f)"

definition newline :: string where
  "newline = [CHR 0x0A]"

definition headline :: "gate_verdict \<Rightarrow> string" where
  "headline v =
    (let scope = '' (scope: '' @ gv_scope v @ '')''; lvl = level_string (gv_fail_on v) in
     if gv_verdict v = ''pass'' then ''GATE: pass'' @ dash @ ''nothing at or above '' @ lvl @ scope
     else if gv_verdict v = ''fail'' then
       ''GATE: fail'' @ dash @ plural (length (gv_failing v)) ''finding'' ''findings'' @ '' at or above '' @ lvl @ scope
     else if gv_verdict v = ''inconclusive'' then
       ''GATE: inconclusive'' @ dash @ ''kubeagent could not see enough to judge'' @ scope
     else if gv_verdict v = ''timeout'' then
       ''GATE: timeout'' @ dash @ ''the rollout did not settle'' @ scope
     else ''GATE: '' @ gv_verdict v @ scope)"

text \<open>
  The pieces \<open>RenderText\<close> writes, in order; the writer is a parameter of the code, so the model
  returns what is written to it when no write fails.
\<close>

definition render_text :: "gate_verdict \<Rightarrow> string list" where
  "render_text v =
    [headline v @ newline] @
    (if gv_verdict v = ''timeout'' \<and> gv_detail v \<noteq> []
     then [''  last observed: '' @ gv_detail v @ newline] else []) @
    concat (map (\<lambda>f.
      [newline @ ''  '' @ level_string (gf_level f) @ ''  '' @ gf_kind f @ '' '' @ finding_identity f @ ''  '' @
         gf_issue f @ newline] @
      (if gf_reason f \<noteq> [] then [''            '' @ gf_reason f @ newline] else [])) (gv_failing v)) @
    map (\<lambda>b. newline @ ''  could not read '' @ bs_resource b @ '': '' @ bs_reason b @
      (if bs_waived b then '' (waived)'' else []) @ newline) (gv_inconclusive v) @
    (if length (gv_reported v) > 0
     then [newline @ ''not counted (below --fail-on): '' @ plural (length (gv_reported v)) ''finding'' ''findings'' @ newline]
     else [])"

section \<open>What the verdict says\<close>

definition counted :: "gate_options \<Rightarrow> gate_finding \<Rightarrow> bool" where
  "counted o' f \<longleftrightarrow> in_scope o' f \<and> gf_level f \<ge> go_fail_on o'"

lemma fold_split_finding:
  "fold (split_finding o') fs st = (fst st @ filter (counted o') fs, snd st @ filter (\<lambda>f. \<not> counted o' f) fs)"
  by (induction fs arbitrary: st) (auto simp: split_finding_def counted_def)

lemma waived_iff: "mget_zero False (waived o') r \<longleftrightarrow> r \<in> set (go_allow_partial o')"
proof -
  have "mget_zero False (fold (\<lambda>r. mput r True) rs m) r \<longleftrightarrow> r \<in> set rs \<or> mget_zero False m r"
    for rs and m :: "(string, bool) gomap"
    by (induction rs arbitrary: m) auto
  then show ?thesis by (simp add: waived_def mget_zero_def)
qed

definition blind_read :: "scan_result \<Rightarrow> gate_options \<Rightarrow> bool" where
  "blind_read res o' \<longleftrightarrow> (\<exists>pr\<in>set (sr_partial_reads res). rf_resource pr \<notin> set (go_allow_partial o'))"

lemma blindspots_blind: "list_ex (\<lambda>b. \<not> bs_waived b) (blindspots res o') \<longleftrightarrow> blind_read res o'"
  by (simp add: blindspots_def blind_read_def list_ex_iff waived_iff)

lemma decide_simps:
  "gv_failing (decide res o') = sort_findings (filter (counted o') (all_findings res o'))"
  "gv_reported (decide res o') = sort_findings (filter (\<lambda>f. \<not> counted o' f) (all_findings res o'))"
  "gv_inconclusive (decide res o') = blindspots res o'"
  "gv_not_evaluated (decide res o') = go_not_evaluated o'"
  by (simp_all add: decide_def fold_split_finding Let_def split: prod.split)

lemma decide_code:
  "(gv_verdict (decide res o'), gv_code (decide res o')) =
    (if go_timed_out o' then (''timeout'', CodeTimeout)
     else if \<exists>f\<in>set (all_findings res o'). counted o' f \<and> is_unevaluated_rule f then (''fail'', CodeFail)
     else if blind_read res o' then (''inconclusive'', CodeInconclusive)
     else if \<exists>f\<in>set (all_findings res o'). counted o' f then (''fail'', CodeFail)
     else (''pass'', CodePass))"
proof -
  have "list_ex is_unevaluated_rule (sort_findings (filter (counted o') (all_findings res o'))) \<longleftrightarrow>
      (\<exists>f\<in>set (all_findings res o'). counted o' f \<and> is_unevaluated_rule f)"
    by (auto simp: list_ex_iff)
  moreover have "0 < length (sort_findings (filter (counted o') (all_findings res o'))) \<longleftrightarrow>
      (\<exists>f\<in>set (all_findings res o'). counted o' f)"
    by (auto simp: filter_empty_conv)
  ultimately show ?thesis
    by (auto simp add: decide_def fold_split_finding Let_def blindspots_blind)
qed

lemma gate_code:
  "gv_code (decide res o') =
    (if go_timed_out o' then CodeTimeout
     else if \<exists>f\<in>set (all_findings res o'). counted o' f \<and> is_unevaluated_rule f then CodeFail
     else if blind_read res o' then CodeInconclusive
     else if \<exists>f\<in>set (all_findings res o'). counted o' f then CodeFail
     else CodePass)"
  using arg_cong [OF decide_code [of res o'], of snd] by (simp only: snd_conv if_distrib [of snd])

text \<open>
  C8. The decision of the gate. A run passes exactly if the rollout settled, every read that failed was
  waived by name, and no finding of the scan, the policy run or the baseline comparison is both in
  scope and at or above the threshold; a timeout overrides everything; every finding is shown
  exactly once, as failing or as reported; the word and the code of the verdict agree; every failed
  read stays in it.
\<close>

theorem gate_decision:
  "(gv_code (decide res o') = CodePass \<longleftrightarrow>
     \<not> go_timed_out o' \<and> \<not> blind_read res o' \<and> \<not> (\<exists>f\<in>set (all_findings res o'). counted o' f)) \<and>
   (gv_code (decide res o') = CodeTimeout \<longleftrightarrow> go_timed_out o') \<and>
   (gv_code (decide res o') = CodeInconclusive \<longleftrightarrow>
     \<not> go_timed_out o' \<and> blind_read res o' \<and>
     \<not> (\<exists>f\<in>set (all_findings res o'). counted o' f \<and> is_unevaluated_rule f)) \<and>
   mset (gv_failing (decide res o')) + mset (gv_reported (decide res o')) =
     mset (flatten res) + mset (from_policy (go_violations o') (go_not_evaluated o')) +
     mset (from_baseline (go_baseline o')) \<and>
   (gv_verdict (decide res o'), gv_code (decide res o')) \<in>
     {(''pass'', CodePass), (''fail'', CodeFail), (''inconclusive'', CodeInconclusive), (''timeout'', CodeTimeout)} \<and>
   length (gv_inconclusive (decide res o')) = length (sr_partial_reads res)"
proof (intro conjI)
  have part: "mset (gv_failing (decide res o')) + mset (gv_reported (decide res o')) = mset (all_findings res o')"
    by (simp only: decide_simps mset_sort_findings mset_filter multiset_partition [symmetric])
  show "gv_code (decide res o') = CodePass \<longleftrightarrow>
     \<not> go_timed_out o' \<and> \<not> blind_read res o' \<and> \<not> (\<exists>f\<in>set (all_findings res o'). counted o' f)"
    unfolding gate_code by auto
  show "gv_code (decide res o') = CodeTimeout \<longleftrightarrow> go_timed_out o'"
    unfolding gate_code by auto
  show "gv_code (decide res o') = CodeInconclusive \<longleftrightarrow>
     \<not> go_timed_out o' \<and> blind_read res o' \<and>
     \<not> (\<exists>f\<in>set (all_findings res o'). counted o' f \<and> is_unevaluated_rule f)"
    unfolding gate_code by auto
  show "mset (gv_failing (decide res o')) + mset (gv_reported (decide res o')) =
     mset (flatten res) + mset (from_policy (go_violations o') (go_not_evaluated o')) +
     mset (from_baseline (go_baseline o'))"
    by (simp only: part) (simp add: all_findings_def)
  show "(gv_verdict (decide res o'), gv_code (decide res o')) \<in>
      {(''pass'', CodePass), (''fail'', CodeFail), (''inconclusive'', CodeInconclusive), (''timeout'', CodeTimeout)}"
    unfolding decide_code by auto
  show "length (gv_inconclusive (decide res o')) = length (sr_partial_reads res)"
    by (simp add: decide_simps blindspots_def)
qed

lemma unevaluated_finding:
  "is_unevaluated_rule (from_unevaluated x)" "in_scope o' (from_unevaluated x)"
  "gf_level (from_unevaluated x) = policy_level (ne_level x)"
  by (simp_all add: is_unevaluated_rule_def from_unevaluated_def policy_issue_prefix_def in_scope_def has_prefix_def)

lemma unevaluated_fails:
  assumes "x \<in> set (go_not_evaluated o')" and "policy_level (ne_level x) \<ge> go_fail_on o'"
  shows "gv_code (decide res o') = (if go_timed_out o' then CodeTimeout else CodeFail)"
proof -
  have "from_unevaluated x \<in> set (all_findings res o')"
    using assms(1) by (simp add: all_findings_def from_policy_def)
  moreover have "counted o' (from_unevaluated x)"
    using assms(2) by (simp add: counted_def unevaluated_finding)
  ultimately have "\<exists>f\<in>set (all_findings res o'). counted o' f \<and> is_unevaluated_rule f"
    using unevaluated_finding(1) by blast
  then show ?thesis by (simp only: gate_code if_True)
qed

text \<open>
  A policy rule that never ran cannot be waived or scoped away: if its level reaches the threshold
  the gate fails, whichever reads the operator has accepted to lose, whatever workload the gate is
  scoped to, and whatever else the scan found.
\<close>

theorem unevaluated_rule_fails:
  assumes "x \<in> set (go_not_evaluated o')" and "policy_level (ne_level x) \<ge> go_fail_on o'"
    and "\<not> go_timed_out o'"
  shows "gv_code (decide res (o'\<lparr>go_allow_partial := reads, go_scope_kind := k, go_scope_name := nm,
    go_scope_namespace := ns, go_violations := vs\<rparr>)) = CodeFail"
  using assms by (subst unevaluated_fails [of x]) simp_all

definition empty_scan :: scan_result where
  "empty_scan = \<lparr>sr_inventory = \<lparr>ir_workloads = [], ir_hidden_restarts = 0, ir_hidden_cron = 0, ir_good = 0,
     ir_total = 0\<rparr>, sr_services = [], sr_ingresses = [], sr_pvcs = [], sr_stuck = [], sr_pdbs = [], sr_hpas = [],
     sr_webhooks = [], sr_quotas = [], sr_down_nodes = [], sr_kubelets = [], sr_control_plane = ''ok'',
     sr_dns = ''ok'', sr_certs = None, sr_disk = [], sr_partial_reads = []\<rparr>"

theorem unevaluated_rule_fails_witness:
  "gv_code (decide empty_scan (\<lparr>go_fail_on = Warning, go_scope_kind = [], go_scope_name = [], go_scope_namespace = [],
     go_allow_partial = [], go_timed_out = False, go_timeout_detail = [], go_violations = [],
     go_not_evaluated = [\<lparr>ne_rule = ''r'', ne_level = ''critical'', ne_kind = ''Pod'', ne_reason = ''unread''\<rparr>],
     go_baseline = None\<rparr>\<lparr>go_allow_partial := [''pods''], go_scope_kind := ''Deployment'', go_scope_name := ''api'',
     go_scope_namespace := ''shop'', go_violations := []\<rparr>)) = CodeFail"
  by (rule unevaluated_rule_fails [of "\<lparr>ne_rule = ''r'', ne_level = ''critical'', ne_kind = ''Pod'', ne_reason = ''unread''\<rparr>"])
    (simp_all add: policy_level_def less_eq_level_def)

end
