(* ===== verification/Root_Cause.thy ===== *)
theory Root_Cause
  imports Scan_Result
begin

text \<open>
  \<open>internal/rootcause/rootcause.go\<close>: flagged workloads are attributed to a down node, a broken claim or
  a registry, in this order, and every candidate that was considered is traced with its verdict. Also
  \<open>internal/confidence/confidence.go\<close>. A loop that rewrites \<open>workloads[i]\<close> and looks at no other workload
  is a \<open>map\<close>.
\<close>

section \<open>Candidates\<close>

definition trace_record :: "string \<Rightarrow> string \<Rightarrow> string \<Rightarrow> hyp_verdict \<Rightarrow> string \<Rightarrow> workload \<Rightarrow> workload" where
  "trace_record cause kind obj v reason w =
    w\<lparr>w_trace := w_trace w @ [\<lparr>hy_cause = cause, hy_kind = kind, hy_verdict = v, hy_reason = reason, hy_object = obj\<rparr>]\<rparr>"

text \<open>One candidate of the node pass or the claim pass, with what the switch over it needs.\<close>

record candidate =
  ca_cause :: string
  ca_kind :: string
  ca_object :: string
  ca_placed :: bool
  ca_why_not :: string
  ca_why :: string

definition stronger :: "workload \<Rightarrow> string" where
  "stronger w = w_root_cause w @ '' is the stronger cause''"

definition judge :: "candidate \<Rightarrow> workload \<Rightarrow> workload" where
  "judge c w =
    (if \<not> ca_placed c then trace_record (ca_cause c) (ca_kind c) (ca_object c) VerdictRuledOut (ca_why_not c) w
     else if w_root_cause w = [] then
       trace_record (ca_cause c) (ca_kind c) (ca_object c) VerdictAttributed (ca_why c) (w\<lparr>w_root_cause := ca_cause c\<rparr>)
     else trace_record (ca_cause c) (ca_kind c) (ca_object c) VerdictOutranked (stronger w) w)"

section \<open>Down nodes\<close>

definition pod_nodes :: "workload \<Rightarrow> string list" where
  "pod_nodes w = filter (\<lambda>n. n \<noteq> []) (map row_node (w_pods w))"

definition pod_on :: "workload \<Rightarrow> string \<Rightarrow> string" where
  "pod_on w node = (case find (\<lambda>p. row_node p = node) (w_pods w) of None \<Rightarrow> [] | Some p \<Rightarrow> row_name p)"

text \<open>The name and the reason of each down node; a name reported twice keeps its last reason.\<close>

definition reason_by_node :: "(string \<times> string) list \<Rightarrow> (string, string) gomap" where
  "reason_by_node down = fold (\<lambda>(n, r). mput n r) down []"

definition down_names :: "(string \<times> string) list \<Rightarrow> string list" where
  "down_names down = sort (remdups (map fst down))"

definition node_candidate :: "(string \<times> string) list \<Rightarrow> workload \<Rightarrow> string \<Rightarrow> candidate" where
  "node_candidate down w name = \<lparr>
     ca_cause = ''node '' @ name @ '' ('' @ mget_zero [] (reason_by_node down) name @ '')'',
     ca_kind = ''node'', ca_object = name, ca_placed = (name \<in> set (pod_nodes w)),
     ca_why_not = ''no pod of this workload is scheduled on it'',
     ca_why = ''pod '' @ pod_on w name @ '' is scheduled on it''\<rparr>"

definition annotate_nodes :: "(string \<times> string) list \<Rightarrow> workload list \<Rightarrow> workload list" where
  "annotate_nodes down ws =
    (if down = [] then ws
     else map (\<lambda>w. if flagged w then fold judge (map (node_candidate down w) (down_names down)) w else w) ws)"

section \<open>Broken claims\<close>

definition claim_key :: "pvc_issue \<Rightarrow> string" where
  "claim_key is = vi_namespace is @ ''/'' @ vi_name is"

definition reason_by_claim :: "pvc_issue list \<Rightarrow> (string, string) gomap" where
  "reason_by_claim issues = fold (\<lambda>is. mput (claim_key is) (vi_reason is)) issues []"

definition claim_keys :: "pvc_issue list \<Rightarrow> string list" where
  "claim_keys issues = sort (remdups (map claim_key issues))"

text \<open>The claims mounted by the pods of a workload, each with the first pod that mounts it.\<close>

definition mounted_claims :: "(string, string list) gomap \<Rightarrow> workload \<Rightarrow> (string, string) gomap" where
  "mounted_claims pod_pvcs w =
    fold (\<lambda>p m. fold (\<lambda>claim m. let key = w_namespace w @ ''/'' @ claim in
            case mget m key of None \<Rightarrow> mput key (row_name p) m | Some _ \<Rightarrow> m)
          (mget_zero [] pod_pvcs (w_namespace w @ ''/'' @ row_name p)) m)
      (w_pods w) []"

definition after_slash :: "string \<Rightarrow> string" where
  "after_slash key = (case str_index key ''/'' of None \<Rightarrow> key | Some i \<Rightarrow> drop (i + 1) key)"

definition claim_candidate :: "(string, string list) gomap \<Rightarrow> pvc_issue list \<Rightarrow> workload \<Rightarrow> string \<Rightarrow> candidate" where
  "claim_candidate pod_pvcs issues w key = \<lparr>
     ca_cause = ''PVC '' @ after_slash key @ '' ('' @ mget_zero [] (reason_by_claim issues) key @ '')'',
     ca_kind = ''pvc'', ca_object = after_slash key, ca_placed = (mget (mounted_claims pod_pvcs w) key \<noteq> None),
     ca_why_not = ''not mounted by this workload's pods'',
     ca_why = ''pod '' @ mget_zero [] (mounted_claims pod_pvcs w) key @ '' mounts it''\<rparr>"

definition own_claims :: "pvc_issue list \<Rightarrow> workload \<Rightarrow> string list" where
  "own_claims issues w = filter (\<lambda>key. has_prefix key (w_namespace w @ ''/'')) (claim_keys issues)"

definition annotate_pvcs :: "(string, string list) gomap \<Rightarrow> pvc_issue list \<Rightarrow> workload list \<Rightarrow> workload list" where
  "annotate_pvcs pod_pvcs issues ws =
    (if issues = [] \<or> pod_pvcs = [] then ws
     else map (\<lambda>w. if flagged w then fold judge (map (claim_candidate pod_pvcs issues w) (own_claims issues w)) w else w) ws)"

section \<open>Registries\<close>

definition pull_image :: "workload \<Rightarrow> string \<times> bool" where
  "pull_image w =
    (case find (\<lambda>f. f_issue f = ''ImagePullBackOff'' \<or> f_issue f = ''ErrImagePull'') (w_findings w) of
      None \<Rightarrow> ([], False) | Some f \<Rightarrow> (f_image f, True))"

definition registry_host :: "string \<Rightarrow> string" where
  "registry_host img =
    (case str_index img ''/'' of
      None \<Rightarrow> ''docker.io''
    | Some i \<Rightarrow> let seg = take i img in
        if CHR ''.'' \<notin> set seg \<and> CHR '':'' \<notin> set seg \<and> seg \<noteq> ''localhost'' then ''docker.io'' else seg)"

text \<open>The first loop: workload \<open>i\<close> is recorded at once, or joins the group of its host.\<close>

fun registry_visit :: "unicode_tables \<Rightarrow> nat \<Rightarrow> workload list \<times> (string, nat list) gomap \<Rightarrow>
    workload list \<times> (string, nat list) gomap" where
  "registry_visit u i (ws, groups) =
    (let w = ws ! i; (img, has_pull) = pull_image w in
     if \<not> flagged w \<or> \<not> has_pull then (ws, groups)
     else if img = [] then
       (ws[i := trace_record ''registry unknown'' ''registry'' [] VerdictRuledOut ''image reference undeterminable'' w], groups)
     else let host = registry_host img in
       if w_root_cause w \<noteq> [] then
         (ws[i := trace_record (''registry '' @ line u host) ''registry'' host VerdictOutranked (stronger w) w], groups)
       else (ws, mput host (mget_zero [] groups host @ [i]) groups))"

definition registry_cause :: "unicode_tables \<Rightarrow> string \<Rightarrow> nat \<Rightarrow> string" where
  "registry_cause u host n =
    ''registry '' @ line u host @ '' ('' @ itoa (int n) @ '' workloads failing to pull)''"

definition registry_alone :: "unicode_tables \<Rightarrow> string \<Rightarrow> workload \<Rightarrow> workload" where
  "registry_alone u host =
    trace_record (''registry '' @ line u host) ''registry'' host VerdictRuledOut
      ''only workload failing to pull from this host; threshold is 2''"

definition registry_shared :: "unicode_tables \<Rightarrow> string \<Rightarrow> nat \<Rightarrow> workload \<Rightarrow> workload" where
  "registry_shared u host n w =
    trace_record (registry_cause u host n) ''registry'' host VerdictAttributed
      (itoa (int n) @ '' workloads failing to pull from this host clear the threshold of 2'')
      (w\<lparr>w_root_cause := registry_cause u host n\<rparr>)"

definition registry_group :: "unicode_tables \<Rightarrow> (string, nat list) gomap \<Rightarrow> string \<Rightarrow> workload list \<Rightarrow> workload list" where
  "registry_group u groups host ws =
    (let members = mget_zero [] groups host; n = length members in
     if n < 2 then fold (\<lambda>i ws. ws[i := registry_alone u host (ws ! i)]) members ws
     else fold (\<lambda>i ws. ws[i := registry_shared u host n (ws ! i)]) members ws)"

definition annotate_registry :: "unicode_tables \<Rightarrow> workload list \<Rightarrow> workload list" where
  "annotate_registry u ws =
    (case fold (registry_visit u) [0..<length ws] (ws, []) of
      (ws', groups) \<Rightarrow> fold (registry_group u groups) (sort (mkeys groups)) ws')"

section \<open>Confidence\<close>

definition for_issue :: "string \<Rightarrow> string" where
  "for_issue issue = (if issue \<in> {''RestartLoop'', ''ProbeFailure'', ''ContainerStartError''} then ''medium'' else ''high'')"

definition for_root_cause :: "string \<Rightarrow> string" where
  "for_root_cause c =
    (if has_prefix c ''node '' then ''high''
     else if has_prefix c ''PVC '' then ''high''
     else if has_prefix c ''registry '' then ''medium''
     else [])"

definition confide :: "finding \<Rightarrow> finding" where
  "confide f = (if f_confidence f = [] then f\<lparr>f_confidence := for_issue (f_issue f)\<rparr> else f)"

definition annotate_confidence :: "workload list \<Rightarrow> workload list" where
  "annotate_confidence ws =
    map (\<lambda>w. let w = (if for_root_cause (w_root_cause w) \<noteq> [] then w\<lparr>w_root_confidence := for_root_cause (w_root_cause w)\<rparr> else w)
             in w\<lparr>w_findings := map confide (w_findings w)\<rparr>) ws"

text \<open>The attribution as \<open>scan.Evaluate\<close> composes it.\<close>

definition attribute :: "unicode_tables \<Rightarrow> (string \<times> string) list \<Rightarrow> (string, string list) gomap \<Rightarrow> pvc_issue list \<Rightarrow>
    workload list \<Rightarrow> workload list" where
  "attribute u down pod_pvcs issues ws =
    annotate_confidence (annotate_registry u (annotate_pvcs pod_pvcs issues (annotate_nodes down ws)))"


section \<open>What the passes leave alone\<close>

lemma trace_record_simps [simp]:
  "flagged (trace_record c k ob v r w) = flagged w"
  "w_root_cause (trace_record c k ob v r w) = w_root_cause w"
  "w_findings (trace_record c k ob v r w) = w_findings w"
  "w_pods (trace_record c k ob v r w) = w_pods w"
  "w_namespace (trace_record c k ob v r w) = w_namespace w"
  "w_root_confidence (trace_record c k ob v r w) = w_root_confidence w"
  "w_trace (trace_record c k ob v r w) = w_trace w @ [\<lparr>hy_cause = c, hy_kind = k, hy_verdict = v, hy_reason = r, hy_object = ob\<rparr>]"
  by (simp_all add: trace_record_def flagged_def)

lemma flagged_root_cause [simp]: "flagged (w\<lparr>w_root_cause := c\<rparr>) = flagged w"
  by (simp add: flagged_def)

lemma judge_keeps [simp]:
  "flagged (judge c w) = flagged w" "w_findings (judge c w) = w_findings w" "w_pods (judge c w) = w_pods w"
  "w_namespace (judge c w) = w_namespace w" "w_root_confidence (judge c w) = w_root_confidence w"
  by (simp_all add: judge_def)

lemma fold_judge_keeps [simp]:
  "flagged (fold judge cs w) = flagged w" "w_findings (fold judge cs w) = w_findings w"
  "w_pods (fold judge cs w) = w_pods w" "w_namespace (fold judge cs w) = w_namespace w"
  "w_root_confidence (fold judge cs w) = w_root_confidence w"
  by (induction cs arbitrary: w) simp_all

lemma pull_image_keeps [simp]:
  "pull_image (trace_record c k ob v r w) = pull_image w" "pull_image (fold judge cs w) = pull_image w"
  "pull_image (w\<lparr>w_root_cause := x\<rparr>) = pull_image w"
  by (simp_all add: pull_image_def)

section \<open>The trace explains the attribution\<close>

text \<open>
  Apart from the candidates that were ruled out, the trace of an attributed workload is the attribution
  itself, followed by candidates outranked by it.
\<close>

definition outranked_by :: "string \<Rightarrow> hypothesis \<Rightarrow> bool" where
  "outranked_by cause h \<longleftrightarrow> hy_verdict h = VerdictOutranked \<and> hy_reason h = cause @ '' is the stronger cause''"

definition standing :: "workload \<Rightarrow> hypothesis list" where
  "standing w = filter (\<lambda>h. hy_verdict h \<noteq> VerdictRuledOut) (w_trace w)"

definition explained :: "workload \<Rightarrow> bool" where
  "explained w \<longleftrightarrow> (case standing w of
     [] \<Rightarrow> w_root_cause w = []
   | h # rest \<Rightarrow> w_root_cause w \<noteq> [] \<and> hy_verdict h = VerdictAttributed \<and> hy_cause h = w_root_cause w \<and>
       (\<forall>h'\<in>set rest. outranked_by (w_root_cause w) h'))"

lemma explained_ruled_out: "explained w \<Longrightarrow> explained (trace_record c k ob VerdictRuledOut r w)"
  by (auto simp: explained_def standing_def split: list.splits)

lemma explained_outranked:
  "explained w \<Longrightarrow> w_root_cause w \<noteq> [] \<Longrightarrow> explained (trace_record c k ob VerdictOutranked (stronger w) w)"
  by (auto simp: explained_def standing_def outranked_by_def stronger_def split: list.splits)

lemma explained_attributed:
  "explained w \<Longrightarrow> w_root_cause w = [] \<Longrightarrow> c \<noteq> [] \<Longrightarrow>
    explained (trace_record c k ob VerdictAttributed r (w\<lparr>w_root_cause := c\<rparr>))"
  by (auto simp: explained_def standing_def split: list.splits)

lemma explained_judge: "explained w \<Longrightarrow> ca_cause c \<noteq> [] \<Longrightarrow> explained (judge c w)"
  by (simp add: judge_def explained_ruled_out explained_outranked explained_attributed)

lemma explained_fold_judge:
  "explained w \<Longrightarrow> \<forall>c\<in>set cs. ca_cause c \<noteq> [] \<Longrightarrow> explained (fold judge cs w)"
  by (induction cs arbitrary: w) (simp_all add: explained_judge)

lemma explained_nodes: "\<forall>w\<in>set ws. explained w \<Longrightarrow> \<forall>w\<in>set (annotate_nodes down ws). explained w"
  by (auto simp: annotate_nodes_def node_candidate_def intro!: explained_fold_judge)

lemma explained_pvcs: "\<forall>w\<in>set ws. explained w \<Longrightarrow> \<forall>w\<in>set (annotate_pvcs pod_pvcs issues ws). explained w"
  by (auto simp: annotate_pvcs_def claim_candidate_def intro!: explained_fold_judge)

text \<open>The cause a list of candidates leads to.\<close>

lemma root_cause_fold:
  "w_root_cause (fold judge cs w) =
    (if w_root_cause w \<noteq> [] then w_root_cause w
     else case find ca_placed cs of None \<Rightarrow> [] | Some c \<Rightarrow> ca_cause c)"
  if "\<forall>c\<in>set cs. ca_cause c \<noteq> []"
  using that
proof (induction cs arbitrary: w)
  case (Cons c cs)
  then show ?case by (cases "ca_placed c") (auto simp: judge_def)
qed simp


section \<open>The registry pass, workload by workload\<close>

text \<open>The host whose group a workload joins, and what the first loop does to the others.\<close>

definition joins :: "workload \<Rightarrow> string option" where
  "joins w = (case pull_image w of (img, has_pull) \<Rightarrow>
     if flagged w \<and> has_pull \<and> img \<noteq> [] \<and> w_root_cause w = [] then Some (registry_host img) else None)"

definition first_look :: "unicode_tables \<Rightarrow> workload \<Rightarrow> workload" where
  "first_look u w = (case pull_image w of (img, has_pull) \<Rightarrow>
     if \<not> flagged w \<or> \<not> has_pull then w
     else if img = [] then trace_record ''registry unknown'' ''registry'' [] VerdictRuledOut ''image reference undeterminable'' w
     else if w_root_cause w \<noteq> [] then
       trace_record (''registry '' @ line u (registry_host img)) ''registry'' (registry_host img) VerdictOutranked (stronger w) w
     else w)"

definition settle :: "unicode_tables \<Rightarrow> string \<Rightarrow> nat \<Rightarrow> workload \<Rightarrow> workload" where
  "settle u host n w = (if n < 2 then registry_alone u host w else registry_shared u host n w)"

lemma first_look_joins: "joins w = Some host \<Longrightarrow> first_look u w = w"
  by (auto simp: joins_def first_look_def split: prod.splits if_splits)

lemma nth_update_map:
  assumes "length ws' = length ws" "\<forall>i<length ws. ws' ! i = (if i < k then f (ws ! i) else ws ! i)" "k < length ws"
  shows "\<forall>i<length ws. (ws'[k := f (ws ! k)]) ! i = (if i < Suc k then f (ws ! i) else ws ! i)"
  using assms by (auto simp: nth_list_update less_Suc_eq)

lemma registry_visits:
  "k \<le> length ws \<Longrightarrow> (case fold (registry_visit u) [0..<k] (ws, []) of (ws', groups) \<Rightarrow>
     length ws' = length ws \<and> (\<forall>i<length ws. ws' ! i = (if i < k then first_look u (ws ! i) else ws ! i)) \<and>
     (\<forall>host. mget_zero [] groups host = filter (\<lambda>i. joins (ws ! i) = Some host) [0..<k]) \<and> mok groups)"
proof (induction k)
  case 0
  then show ?case by (simp add: mget_zero_def)
next
  case (Suc k)
  obtain ws' groups where fold: "fold (registry_visit u) [0..<k] (ws, []) = (ws', groups)" by force
  with Suc have IH: "length ws' = length ws" "\<forall>i<length ws. ws' ! i = (if i < k then first_look u (ws ! i) else ws ! i)"
    "\<forall>host. mget_zero [] groups host = filter (\<lambda>i. joins (ws ! i) = Some host) [0..<k]" "mok groups" by auto
  have here: "ws' ! k = ws ! k" and k: "k < length ws" using IH(2) Suc.prems by auto
  obtain img has where pull: "pull_image (ws ! k) = (img, has)" by force
  have step: "registry_visit u k (ws', groups) =
    (ws'[k := first_look u (ws ! k)], case joins (ws ! k) of None \<Rightarrow> groups
       | Some host \<Rightarrow> mput host (mget_zero [] groups host @ [k]) groups)"
    using here k IH(1) list_update_id [of ws' k]
    by (auto simp: pull first_look_def joins_def Let_def)
  show ?case
    using nth_update_map [OF IH(1,2) k] IH
    by (auto simp: fold step split: option.split simp del: registry_visit.simps)
qed

lemma fold_update_nth:
  "distinct is \<Longrightarrow> \<forall>i\<in>set is. i < length ws \<Longrightarrow>
    length (fold (\<lambda>i ws. ws[i := g (ws ! i)]) is ws) = length ws \<and>
    (\<forall>j<length ws. fold (\<lambda>i ws. ws[i := g (ws ! i)]) is ws ! j = (if j \<in> set is then g (ws ! j) else ws ! j))"
  by (induction "is" arbitrary: ws) (auto simp: nth_list_update)

lemma registry_group_nth:
  assumes "distinct (mget_zero [] groups host)" "\<forall>i\<in>set (mget_zero [] groups host). i < length ws"
  shows "length (registry_group u groups host ws) = length ws \<and>
    (\<forall>j<length ws. registry_group u groups host ws ! j =
      (if j \<in> set (mget_zero [] groups host) then settle u host (length (mget_zero [] groups host)) (ws ! j) else ws ! j))"
  using fold_update_nth [OF assms, of "registry_alone u host"]
    fold_update_nth [OF assms, of "registry_shared u host (length (mget_zero [] groups host))"]
  by (auto simp: registry_group_def settle_def Let_def)

lemma registry_groups_nth:
  assumes "distinct hosts" and "\<And>host. mget_zero [] groups host = filter (\<lambda>i. own i = Some host) [0..<length ws]"
  shows "length (fold (registry_group u groups) hosts ws) = length ws \<and>
    (\<forall>j<length ws. fold (registry_group u groups) hosts ws ! j =
      (case own j of None \<Rightarrow> ws ! j
       | Some host \<Rightarrow> if host \<in> set hosts then settle u host (length (mget_zero [] groups host)) (ws ! j) else ws ! j))"
  using assms
proof (induction hosts arbitrary: ws)
  case (Cons h hosts)
  have "distinct (mget_zero [] groups h)" "\<forall>i\<in>set (mget_zero [] groups h). i < length ws" using Cons.prems(2) by auto
  from registry_group_nth [OF this, of u] Cons.prems(2) have g: "length (registry_group u groups h ws) = length ws"
    "\<And>j. j < length ws \<Longrightarrow> registry_group u groups h ws ! j =
      (if own j = Some h then settle u h (length (mget_zero [] groups h)) (ws ! j) else ws ! j)" by auto
  have IH: "length (fold (registry_group u groups) hosts (registry_group u groups h ws)) = length ws \<and>
    (\<forall>j<length ws. fold (registry_group u groups) hosts (registry_group u groups h ws) ! j =
      (case own j of None \<Rightarrow> registry_group u groups h ws ! j
       | Some host \<Rightarrow> if host \<in> set hosts then settle u host (length (mget_zero [] groups host)) (registry_group u groups h ws ! j)
           else registry_group u groups h ws ! j))"
    using Cons.IH [of "registry_group u groups h ws"] Cons.prems g(1) by simp
  then show ?case using Cons.prems(1) by (auto simp: g(2) split: option.split)
qed (simp split: option.split)

lemma annotate_registry_nth:
  shows "length (annotate_registry u ws) = length ws"
    and "j < length ws \<Longrightarrow> annotate_registry u ws ! j =
      (case joins (ws ! j) of None \<Rightarrow> first_look u (ws ! j)
       | Some host \<Rightarrow> settle u host (length (filter (\<lambda>w. joins w = Some host) ws)) (ws ! j))"
proof -
  obtain ws' groups where fold: "fold (registry_visit u) [0..<length ws] (ws, []) = (ws', groups)" by force
  with registry_visits [of "length ws" ws u]
  have v: "length ws' = length ws" "\<forall>i<length ws. ws' ! i = first_look u (ws ! i)"
    "\<And>host. mget_zero [] groups host = filter (\<lambda>i. joins (ws ! i) = Some host) [0..<length ws]" "mok groups" by auto
  have count: "length (filter (\<lambda>i. joins (ws ! i) = Some host) [0..<length ws]) = length (filter (\<lambda>w. joins w = Some host) ws)" for host
    by (metis (mono_tags, lifting) filter_cong length_map map_nth filter_map o_apply)
  have keys: "i < length ws \<Longrightarrow> joins (ws ! i) = Some host \<Longrightarrow> host \<in> set (mkeys groups)" for i host
  proof -
    assume "i < length ws" "joins (ws ! i) = Some host"
    then have "mget_zero [] groups host \<noteq> []" by (auto simp: v(3) filter_empty_conv)
    then have "mget groups host \<noteq> None" by (auto simp: mget_zero_def split: option.splits)
    then show ?thesis using mkeys_mget [of groups] by blast
  qed
  have "distinct (sort (mkeys groups))" using v(4) by (simp add: mok_def)
  note r = registry_groups_nth [OF this, of groups "\<lambda>i. joins (ws ! i)" ws' u]
  have r': "length (fold (registry_group u groups) (sort (mkeys groups)) ws') = length ws'"
    "\<And>j host. j < length ws' \<Longrightarrow> joins (ws ! j) = Some host \<Longrightarrow> fold (registry_group u groups) (sort (mkeys groups)) ws' ! j =
      settle u host (length (filter (\<lambda>w. joins w = Some host) ws)) (ws' ! j)"
    "\<And>j. j < length ws' \<Longrightarrow> joins (ws ! j) = None \<Longrightarrow> fold (registry_group u groups) (sort (mkeys groups)) ws' ! j = ws' ! j"
    using r keys by (auto simp: v(1,3) count simp del: set_map)
  show "length (annotate_registry u ws) = length ws" by (simp add: annotate_registry_def fold r'(1) v(1))
  assume "j < length ws"
  then show "annotate_registry u ws ! j = (case joins (ws ! j) of None \<Rightarrow> first_look u (ws ! j)
       | Some host \<Rightarrow> settle u host (length (filter (\<lambda>w. joins w = Some host) ws)) (ws ! j))"
    using v(1,2) r'(2,3) by (auto simp: annotate_registry_def fold first_look_joins split: option.split)
qed


section \<open>The attribution\<close>

lemma explained_registry:
  assumes "\<forall>w\<in>set ws. explained w"
  shows "\<forall>w\<in>set (annotate_registry u ws). explained w"
proof
  fix w assume "w \<in> set (annotate_registry u ws)"
  then obtain j where j: "j < length ws" "w = annotate_registry u ws ! j"
    by (metis annotate_registry_nth(1) in_set_conv_nth)
  then have e: "explained (ws ! j)" using assms by simp
  have "joins (ws ! j) = Some host \<Longrightarrow> explained (settle u host n (ws ! j))" for host n
    using e by (auto simp: joins_def settle_def registry_alone_def registry_shared_def registry_cause_def
      intro!: explained_ruled_out explained_attributed split: prod.splits if_splits)
  moreover have "explained (first_look u (ws ! j))"
    using e by (auto simp: first_look_def intro!: explained_ruled_out explained_outranked split: prod.split)
  ultimately show "explained w" by (simp add: j annotate_registry_nth(2) split: option.split)
qed

lemma explained_cong: "w_trace w = w_trace w' \<Longrightarrow> w_root_cause w = w_root_cause w' \<Longrightarrow> explained w = explained w'"
  by (simp add: explained_def standing_def split: list.split)

lemma explained_confidence: "\<forall>w\<in>set ws. explained w \<Longrightarrow> \<forall>w\<in>set (annotate_confidence ws). explained w"
proof
  fix w' assume all: "\<forall>w\<in>set ws. explained w" and "w' \<in> set (annotate_confidence ws)"
  then obtain w where w: "w \<in> set ws" "w_trace w' = w_trace w" "w_root_cause w' = w_root_cause w"
    by (auto simp: annotate_confidence_def Let_def)
  from w(1) all explained_cong [OF w(2,3)] show "explained w'" by blast
qed

lemma blank_explained: "w_trace w = [] \<Longrightarrow> w_root_cause w = [] \<Longrightarrow> explained w"
  by (simp add: explained_def standing_def)

lemma attribute_explained:
  assumes "\<forall>w\<in>set ws. w_trace w = [] \<and> w_root_cause w = []"
  shows "\<forall>w\<in>set (attribute u down pod_pvcs issues ws). explained w"
  unfolding attribute_def
  by (intro explained_confidence explained_registry explained_pvcs explained_nodes)
    (use assms blank_explained in blast)

text \<open>
  The trace explains the attribution. After node, claim and registry pass, the candidates of a
  workload that were not ruled out are none when it has no root cause; otherwise the first of them is
  the one attributed, it is the only one, and every later one says that this cause outranks it.
\<close>

theorem trace_explains:
  assumes "\<forall>w\<in>set ws. w_trace w = [] \<and> w_root_cause w = []"
  shows "\<forall>w\<in>set (attribute u down pod_pvcs issues ws). explained w"
  using assms by (rule attribute_explained)

text \<open>The causes in order of strength, read off the workload.\<close>

definition node_cause :: "(string \<times> string) list \<Rightarrow> workload \<Rightarrow> string" where
  "node_cause down w =
    (if flagged w then
       case find (\<lambda>n. \<exists>p\<in>set (w_pods w). row_node p = n \<and> n \<noteq> []) (down_names down) of
         None \<Rightarrow> [] | Some n \<Rightarrow> ''node '' @ n @ '' ('' @ mget_zero [] (reason_by_node down) n @ '')''
     else [])"

definition mounts :: "(string, string list) gomap \<Rightarrow> workload \<Rightarrow> string \<Rightarrow> bool" where
  "mounts pod_pvcs w key \<longleftrightarrow> (\<exists>p\<in>set (w_pods w).
     \<exists>claim\<in>set (mget_zero [] pod_pvcs (w_namespace w @ ''/'' @ row_name p)). key = w_namespace w @ ''/'' @ claim)"

definition claim_cause :: "(string, string list) gomap \<Rightarrow> pvc_issue list \<Rightarrow> workload \<Rightarrow> string" where
  "claim_cause pod_pvcs issues w =
    (if flagged w then
       case find (mounts pod_pvcs w) (own_claims issues w) of
         None \<Rightarrow> [] | Some key \<Rightarrow> ''PVC '' @ after_slash key @ '' ('' @ mget_zero [] (reason_by_claim issues) key @ '')''
     else [])"

definition evidence_cause :: "(string \<times> string) list \<Rightarrow> (string, string list) gomap \<Rightarrow> pvc_issue list \<Rightarrow> workload \<Rightarrow> string" where
  "evidence_cause down pod_pvcs issues w =
    (if node_cause down w \<noteq> [] then node_cause down w else claim_cause pod_pvcs issues w)"

definition pulls_from :: "workload \<Rightarrow> string option" where
  "pulls_from w = (case pull_image w of (img, has_pull) \<Rightarrow>
     if flagged w \<and> has_pull \<and> img \<noteq> [] then Some (registry_host img) else None)"

lemma mounted_claims_keys: "mget (mounted_claims pod_pvcs w) key \<noteq> None \<longleftrightarrow> mounts pod_pvcs w key"
proof -
  have inner: "mget (fold (\<lambda>claim m. let k = w_namespace w @ ''/'' @ claim in
        case mget m k of None \<Rightarrow> mput k v m | Some _ \<Rightarrow> m) cs m) key \<noteq> None \<longleftrightarrow>
      (mget m key \<noteq> None \<or> (\<exists>claim\<in>set cs. key = w_namespace w @ ''/'' @ claim))" for cs v m
    by (induction cs arbitrary: m) (auto simp: Let_def split: option.split)
  have "mget (fold (\<lambda>p m. fold (\<lambda>claim m. let k = w_namespace w @ ''/'' @ claim in
        case mget m k of None \<Rightarrow> mput k (row_name p) m | Some _ \<Rightarrow> m)
          (mget_zero [] pod_pvcs (w_namespace w @ ''/'' @ row_name p)) m) ps m) key \<noteq> None \<longleftrightarrow>
      (mget m key \<noteq> None \<or> (\<exists>p\<in>set ps.
         \<exists>claim\<in>set (mget_zero [] pod_pvcs (w_namespace w @ ''/'' @ row_name p)). key = w_namespace w @ ''/'' @ claim))" for ps m
  proof (induction ps arbitrary: m)
    case (Cons p ps)
    show ?case by (subst fold_Cons, subst o_apply, subst Cons.IH, subst inner) auto
  qed simp
  from this [of "w_pods w" "[]"] show ?thesis by (simp add: mounted_claims_def mounts_def)
qed

lemma find_map: "find P (map f xs) = map_option f (find (P \<circ> f) xs)"
  by (induction xs) auto

lemma nodes_nth:
  assumes "j < length ws" "w_root_cause (ws ! j) = []"
  shows "w_root_cause (annotate_nodes down ws ! j) = node_cause down (ws ! j)"
proof -
  have "(\<lambda>n. n \<in> set (pod_nodes w)) = (\<lambda>n. \<exists>p\<in>set (w_pods w). row_node p = n \<and> n \<noteq> [])" for w
    by (auto simp: pod_nodes_def)
  then have "find (ca_placed \<circ> node_candidate down w) ns = find (\<lambda>n. \<exists>p\<in>set (w_pods w). row_node p = n \<and> n \<noteq> []) ns" for w ns
    by (simp add: node_candidate_def comp_def)
  with assms show ?thesis
    by (simp add: annotate_nodes_def node_cause_def down_names_def root_cause_fold find_map)
      (auto simp: node_candidate_def down_names_def root_cause_fold find_map split: option.split)
qed


lemma pvcs_nth:
  assumes "j < length ws"
  shows "w_root_cause (annotate_pvcs pod_pvcs issues ws ! j) =
    (if w_root_cause (ws ! j) \<noteq> [] then w_root_cause (ws ! j) else claim_cause pod_pvcs issues (ws ! j))"
proof -
  have "find (ca_placed \<circ> claim_candidate pod_pvcs issues w) keys = find (mounts pod_pvcs w) keys" for w keys
    by (simp add: claim_candidate_def comp_def mounted_claims_keys del: not_None_eq)
  moreover have "\<not> mounts [] w key" for w key by (simp add: mounts_def mget_zero_def)
  then have "find (mounts [] w) keys = None" for w keys by (simp add: find_None_iff)
  moreover have "\<forall>c\<in>set (map (claim_candidate pod_pvcs issues w) keys). ca_cause c \<noteq> []" for w keys
    by (simp add: claim_candidate_def)
  ultimately show ?thesis using assms
    by (auto simp: annotate_pvcs_def claim_cause_def own_claims_def claim_keys_def root_cause_fold find_map
      claim_candidate_def split: option.split)
qed

lemma passes_keep:
  "j < length ws \<Longrightarrow> flagged (annotate_nodes down ws ! j) = flagged (ws ! j)"
  "j < length ws \<Longrightarrow> w_pods (annotate_nodes down ws ! j) = w_pods (ws ! j)"
  "j < length ws \<Longrightarrow> w_namespace (annotate_nodes down ws ! j) = w_namespace (ws ! j)"
  "j < length ws \<Longrightarrow> pull_image (annotate_nodes down ws ! j) = pull_image (ws ! j)"
  "j < length ws \<Longrightarrow> flagged (annotate_pvcs pod_pvcs issues ws ! j) = flagged (ws ! j)"
  "j < length ws \<Longrightarrow> pull_image (annotate_pvcs pod_pvcs issues ws ! j) = pull_image (ws ! j)"
  "j < length ws \<Longrightarrow> w_root_confidence (annotate_nodes down ws ! j) = w_root_confidence (ws ! j)"
  "j < length ws \<Longrightarrow> w_root_confidence (annotate_pvcs pod_pvcs issues ws ! j) = w_root_confidence (ws ! j)"
  "length (annotate_nodes down ws) = length ws" "length (annotate_pvcs pod_pvcs issues ws) = length ws"
  by (simp_all add: annotate_nodes_def annotate_pvcs_def)

lemma evidence_nth:
  assumes "j < length ws" "w_root_cause (ws ! j) = []"
  shows "w_root_cause (annotate_pvcs pod_pvcs issues (annotate_nodes down ws) ! j) = evidence_cause down pod_pvcs issues (ws ! j)"
proof -
  have "mounts pod_pvcs (annotate_nodes down ws ! j) = mounts pod_pvcs (ws ! j)"
    by (rule ext) (simp add: mounts_def passes_keep assms(1))
  then have "claim_cause pod_pvcs issues (annotate_nodes down ws ! j) = claim_cause pod_pvcs issues (ws ! j)"
    using assms(1) by (simp add: claim_cause_def own_claims_def passes_keep)
  then show ?thesis using assms by (simp add: pvcs_nth passes_keep nodes_nth evidence_cause_def)
qed

lemma joins_nth:
  assumes "j < length ws" "w_root_cause (ws ! j) = []"
  shows "joins (annotate_pvcs pod_pvcs issues (annotate_nodes down ws) ! j) =
    (if evidence_cause down pod_pvcs issues (ws ! j) = [] then pulls_from (ws ! j) else None)"
  using assms by (auto simp: joins_def pulls_from_def passes_keep evidence_nth split: prod.split)

lemma count_nth:
  "length xs = length ys \<Longrightarrow> (\<And>j. j < length ys \<Longrightarrow> P (xs ! j) = Q (ys ! j)) \<Longrightarrow> length (filter P xs) = length (filter Q ys)"
proof (induction xs ys rule: list_induct2)
  case (Cons x xs y ys)
  have "P x = Q y" using Cons.prems [of 0] by simp
  moreover have "length (filter P xs) = length (filter Q ys)" using Cons.IH Cons.prems [of "Suc _"] by simp
  ultimately show ?case by simp
qed simp

lemma for_root_cause_simps [simp]:
  "for_root_cause [] = []" "for_root_cause (''node '' @ s) = ''high''" "for_root_cause (''PVC '' @ s) = ''high''"
  "for_root_cause (registry_cause u host n) = ''medium''"
  by (simp_all add: for_root_cause_def registry_cause_def has_prefix_def)

lemma evidence_high: "evidence_cause down pod_pvcs issues w \<noteq> [] \<Longrightarrow> for_root_cause (evidence_cause down pod_pvcs issues w) = ''high''"
  by (auto simp: evidence_cause_def node_cause_def claim_cause_def for_root_cause_def has_prefix_def split: if_splits option.splits)

lemma confidence_nth:
  "j < length ws \<Longrightarrow> w_root_cause (annotate_confidence ws ! j) = w_root_cause (ws ! j)"
  "j < length ws \<Longrightarrow> w_root_confidence (ws ! j) = [] \<Longrightarrow>
    w_root_confidence (annotate_confidence ws ! j) = for_root_cause (w_root_cause (ws ! j))"
  by (simp_all add: annotate_confidence_def Let_def)


text \<open>
  What a workload's failure is attributed to, and how sure the scan is. The strongest evidence
  wins: the first down node, by name, that hosts one of its pods; else the first broken claim of its
  namespace, by key, that one of its pods mounts; both are certain. Else, if it fails to pull an image
  and at least one other workload without such evidence fails to pull from the same registry, that
  registry with their number, as a weaker inference. Otherwise it is not attributed.
\<close>

theorem root_cause_chosen:
  assumes "\<forall>w\<in>set ws. w_root_cause w = [] \<and> w_root_confidence w = []" and "j < length ws"
  shows "w_root_cause (attribute u down pod_pvcs issues ws ! j) =
      (if evidence_cause down pod_pvcs issues (ws ! j) \<noteq> [] then evidence_cause down pod_pvcs issues (ws ! j)
       else case pulls_from (ws ! j) of None \<Rightarrow> []
         | Some host \<Rightarrow> let n = length (filter (\<lambda>w. evidence_cause down pod_pvcs issues w = [] \<and> pulls_from w = Some host) ws)
             in if n < 2 then [] else registry_cause u host n) \<and>
    w_root_confidence (attribute u down pod_pvcs issues ws ! j) =
      (if w_root_cause (attribute u down pod_pvcs issues ws ! j) = [] then []
       else if evidence_cause down pod_pvcs issues (ws ! j) \<noteq> [] then ''high'' else ''medium'')"
proof -
  define mid where "mid = annotate_pvcs pod_pvcs issues (annotate_nodes down ws)"
  let ?ev = "evidence_cause down pod_pvcs issues"
  have len: "length mid = length ws" by (simp add: mid_def passes_keep)
  have root: "w_root_cause (mid ! i) = ?ev (ws ! i)" "joins (mid ! i) = (if ?ev (ws ! i) = [] then pulls_from (ws ! i) else None)"
    if "i < length ws" for i
    using assms(1) that by (simp_all add: mid_def evidence_nth joins_nth)
  have conf: "w_root_confidence (mid ! j) = []" using assms by (simp add: mid_def passes_keep)
  have count: "length (filter (\<lambda>w. joins w = Some host) mid) = length (filter (\<lambda>w. ?ev w = [] \<and> pulls_from w = Some host) ws)" for host
    by (rule count_nth) (auto simp: len root)
  have first: "w_root_cause (first_look u w) = w_root_cause w" "w_root_confidence (first_look u w) = w_root_confidence w" for w
    by (simp_all add: first_look_def split: prod.split)
  have settled: "w_root_cause (settle u host n w) = (if n < 2 then w_root_cause w else registry_cause u host n)"
    "w_root_confidence (settle u host n w) = w_root_confidence w" for host n w
    by (simp_all add: settle_def registry_alone_def registry_shared_def)
  have "w_root_confidence (annotate_registry u mid ! j) = []"
    using assms(2) by (simp add: annotate_registry_nth(2) len first settled conf split: option.split)
  moreover have "w_root_cause (annotate_registry u mid ! j) = (if ?ev (ws ! j) \<noteq> [] then ?ev (ws ! j)
       else case pulls_from (ws ! j) of None \<Rightarrow> []
         | Some host \<Rightarrow> let n = length (filter (\<lambda>w. ?ev w = [] \<and> pulls_from w = Some host) ws)
             in if n < 2 then [] else registry_cause u host n)"
    using assms(2) by (auto simp: annotate_registry_nth(2) len first settled root count Let_def split: option.split)
  moreover have "registry_cause u host n \<noteq> []" for host n by (simp add: registry_cause_def)
  ultimately show ?thesis using assms(2) evidence_high
    by (auto simp: attribute_def mid_def [symmetric] confidence_nth annotate_registry_nth(1) len Let_def split: option.splits)
qed

text \<open>Three workloads: one on a down node, two that share a registry.\<close>

definition pulling :: "string \<Rightarrow> string \<Rightarrow> workload" where
  "pulling nm node = (blank_workload ''Deployment'' ''shop'' nm)
     \<lparr>w_findings := [blank_finding\<lparr>f_pod := ''shop/p'', f_issue := ''ErrImagePull'', f_image := ''r.io/app''\<rparr>],
      w_pods := [\<lparr>row_name = ''p'', row_phase = [], row_state = [], row_ready = [], row_restarts = 0, row_last_restart = [],
        row_node = node, row_ip = [], row_age = [], row_image = []\<rparr>]\<rparr>"


lemma plain_host: "line small_tables ''r.io'' = ''r.io''"
  by (rule line_plain [OF small_tables_ascii]) (simp add: plain_line_def MaxLine_def)

theorem trace_explains_witness:
  "explained (attribute small_tables [(''n1'', ''NotReady'')] [] [] [pulling ''a'' ''n1'', pulling ''b'' ''n2'', pulling ''c'' ''n2''] ! 1)"
proof -
  have "attribute small_tables [(''n1'', ''NotReady'')] [] [] [pulling ''a'' ''n1'', pulling ''b'' ''n2'', pulling ''c'' ''n2''] ! 1
    \<in> set (attribute small_tables [(''n1'', ''NotReady'')] [] [] [pulling ''a'' ''n1'', pulling ''b'' ''n2'', pulling ''c'' ''n2''])"
    by (rule nth_mem) (simp add: attribute_def annotate_registry_nth(1) passes_keep annotate_confidence_def)
  then show ?thesis
    using trace_explains [of "[pulling ''a'' ''n1'', pulling ''b'' ''n2'', pulling ''c'' ''n2'']" small_tables
      "[(''n1'', ''NotReady'')]" "[]" "[]"]
    by (auto simp: pulling_def blank_workload_def)
qed

theorem root_cause_chosen_witness:
  "w_root_cause (attribute small_tables [(''n1'', ''NotReady'')] [] [] [pulling ''a'' ''n1'', pulling ''b'' ''n2'', pulling ''c'' ''n2''] ! 0)
    = ''node n1 (NotReady)'' \<and>
   w_root_cause (attribute small_tables [(''n1'', ''NotReady'')] [] [] [pulling ''a'' ''n1'', pulling ''b'' ''n2'', pulling ''c'' ''n2''] ! 1)
    = ''registry r.io (2 workloads failing to pull)''"
proof -
  let ?ws = "[pulling ''a'' ''n1'', pulling ''b'' ''n2'', pulling ''c'' ''n2'']"
  have blank: "\<forall>w\<in>set ?ws. w_root_cause w = [] \<and> w_root_confidence w = []" by (simp add: pulling_def blank_workload_def)
  have pulls: "pulls_from (pulling nm node) = Some ''r.io''" for nm node
    by (simp add: pulls_from_def pull_image_def pulling_def flagged_def registry_host_def blank_finding_def has_prefix_def)
  have ev: "evidence_cause [(''n1'', ''NotReady'')] [] [] (pulling nm node) =
      (if node = ''n1'' then ''node n1 (NotReady)'' else [])" for nm node
    by (simp add: evidence_cause_def node_cause_def claim_cause_def own_claims_def claim_keys_def down_names_def
      reason_by_node_def pulling_def flagged_def mget_zero_def)
  have two: "show_nat 2 = ''2''" by code_simp
  show ?thesis
    using root_cause_chosen [OF blank, of 0 small_tables "[(''n1'', ''NotReady'')]" "[]" "[]"]
      root_cause_chosen [OF blank, of 1 small_tables "[(''n1'', ''NotReady'')]" "[]" "[]"]
    by (simp add: ev pulls registry_cause_def plain_host itoa_def two)
qed

end
