(* ===== verification/Diagnose.thy ===== *)
theory Diagnose
  imports Kube_Api
begin

text \<open>
  \<open>internal/diagnose\<close>: the eleven detectors, in the order \<open>DefaultDetectors\<close> registers them, and
  \<open>Run\<close>. A detector is a function of one pod's facts; the clock three of them read is an argument,
  and so are the Unicode tables of \<open>safetext.Line\<close>. The first matching container decides a finding:
  each \<open>for\<close> loop with a \<open>return\<close> in its body is \<open>first_some\<close>. Only \<open>ProbeFailureDetector\<close> can panic
  (it slices a string at a computed offset), so a detector returns a \<^typ>\<open>'a go\<close>.
\<close>

type_synonym detector_fun = "pod_facts \<Rightarrow> finding option go"

fun first_some :: "('a \<Rightarrow> 'b option) \<Rightarrow> 'a list \<Rightarrow> 'b option" where
  "first_some f [] = None"
| "first_some f (x # xs) = (case f x of None \<Rightarrow> first_some f xs | Some y \<Rightarrow> Some y)"

definition waiting_for :: "container_status \<Rightarrow> string option" where
  "waiting_for cs = map_option fst (st_waiting (cs_state cs))"

section \<open>CrashLoopBackOff and RestartLoop\<close>

definition RestartThreshold :: int where "RestartThreshold = 3"
definition restart_recency :: duration where "restart_recency = 10 * minute"

text \<open>The last termination, when it was an error other than an OOM kill.\<close>

definition error_exit :: "container_status \<Rightarrow> terminated_state option" where
  "error_exit cs = (case cs_last_terminated cs of None \<Rightarrow> None
     | Some tm \<Rightarrow> if tm_exit_code tm = 0 \<or> tm_reason tm = ''OOMKilled'' then None else Some tm)"

definition crash_evidence :: "unicode_tables \<Rightarrow> time \<Rightarrow> container_status \<Rightarrow> string" where
  "crash_evidence u now cs =
    (let plain = ''container '' @ go_quote (cs_name cs) @ '', restartCount='' @ itoa (cs_restart_count cs)
     in if cs_restart_count cs < RestartThreshold then plain
        else case error_exit cs of None \<Rightarrow> plain
        | Some tm \<Rightarrow> plain @ '', last exit '' @ itoa (tm_exit_code tm) @ '' ('' @ line u (tm_reason tm) @ ''), '' @
            duration_string (trunc_second (time_sub now (tm_finished_at tm))) @ '' ago'')"

definition crash_loop_detect :: "unicode_tables \<Rightarrow> time \<Rightarrow> pod_facts \<Rightarrow> finding option" where
  "crash_loop_detect u now facts = first_some (\<lambda>cs.
     if waiting_for cs = Some ''CrashLoopBackOff''
     then Some (blank_finding\<lparr>f_pod := pod_ref (pf_pod facts), f_issue := ''CrashLoopBackOff'',
       f_reason := ''Container repeatedly crashes after starting'',
       f_evidence := crash_evidence u now cs, f_container := cs_name cs\<rparr>)
     else None) (p_statuses (pf_pod facts))"

definition restart_loop_detect :: "unicode_tables \<Rightarrow> time \<Rightarrow> pod_facts \<Rightarrow> finding option" where
  "restart_loop_detect u now facts = first_some (\<lambda>cs.
     case st_running (cs_state cs) of None \<Rightarrow> None
     | Some started \<Rightarrow>
         if time_sub now started > restart_recency then None
         else if cs_restart_count cs < RestartThreshold then None
         else case error_exit cs of None \<Rightarrow> None
         | Some tm \<Rightarrow> Some (blank_finding\<lparr>f_pod := pod_ref (pf_pod facts), f_issue := ''RestartLoop'',
             f_reason := ''Container keeps exiting with an error and restarting'',
             f_evidence := ''container '' @ go_quote (cs_name cs) @ '', '' @ itoa (cs_restart_count cs) @
               '' restarts, last exit '' @ itoa (tm_exit_code tm) @ '' ('' @ line u (tm_reason tm) @ ''), '' @
               duration_string (trunc_second (time_sub now (tm_finished_at tm))) @ '' ago'',
             f_container := cs_name cs\<rparr>)) (p_statuses (pf_pod facts))"

section \<open>Image pull, OOM kill, scheduling\<close>

definition image_reason :: "string \<Rightarrow> bool" where
  "image_reason r \<longleftrightarrow> r = ''ImagePullBackOff'' \<or> r = ''ErrImagePull''"

definition image_pull_detect :: "unicode_tables \<Rightarrow> pod_facts \<Rightarrow> finding option" where
  "image_pull_detect u facts = first_some (\<lambda>cs.
     case st_waiting (cs_state cs) of None \<Rightarrow> None
     | Some (r, msg) \<Rightarrow>
         if image_reason r
         then Some (blank_finding\<lparr>f_pod := pod_ref (pf_pod facts), f_issue := r,
           f_reason := ''Bad image reference or registry authentication'',
           f_evidence := ''container '' @ go_quote (cs_name cs) @ '': '' @ line u msg,
           f_image := cs_image cs\<rparr>)
         else None) (p_statuses (pf_pod facts))"

definition quantity_or_unset :: "(string, string) gomap \<Rightarrow> string \<Rightarrow> string" where
  "quantity_or_unset rl n = (case mget rl n of Some q \<Rightarrow> q | None \<Rightarrow> ''unset'')"

definition container_resources_of :: "pod \<Rightarrow> string \<Rightarrow> container_resources option" where
  "container_resources_of p nm = map_option (\<lambda>c.
     \<lparr>res_container = nm, res_cpu_request = quantity_or_unset (c_requests c) ''cpu'',
      res_cpu_limit = quantity_or_unset (c_limits c) ''cpu'',
      res_mem_request = quantity_or_unset (c_requests c) ''memory'',
      res_mem_limit = quantity_or_unset (c_limits c) ''memory''\<rparr>)
     (find (\<lambda>c. c_name c = nm) (p_containers p @ p_init_containers p))"

text \<open>The current termination before the previous one.\<close>

definition oom_kill :: "container_status \<Rightarrow> terminated_state option" where
  "oom_kill cs = first_some (\<lambda>t. case t of Some tm \<Rightarrow> if tm_reason tm = ''OOMKilled'' then Some tm else None | None \<Rightarrow> None)
     [st_terminated (cs_state cs), cs_last_terminated cs]"

definition oom_killed_detect :: "pod_facts \<Rightarrow> finding option" where
  "oom_killed_detect facts = first_some (\<lambda>cs. map_option (\<lambda>tm.
     blank_finding\<lparr>f_pod := pod_ref (pf_pod facts), f_issue := ''OOMKilled'',
       f_reason := ''Container exceeded its memory limit and was killed'',
       f_evidence := ''container '' @ go_quote (cs_name cs) @ '', exitCode='' @ itoa (tm_exit_code tm),
       f_resources := container_resources_of (pf_pod facts) (cs_name cs), f_container := cs_name cs\<rparr>)
     (oom_kill cs)) (p_statuses (pf_pod facts))"

definition pending_detect :: "unicode_tables \<Rightarrow> pod_facts \<Rightarrow> finding option" where
  "pending_detect u facts =
    (if p_phase (pf_pod facts) \<noteq> ''Pending'' then None
     else first_some (\<lambda>c.
       if pc_type c = ''PodScheduled'' \<and> pc_status c = ''False'' \<and> pc_reason c = ''Unschedulable''
       then Some (blank_finding\<lparr>f_pod := pod_ref (pf_pod facts), f_issue := ''Unschedulable'',
         f_reason := ''No node can schedule this pod'', f_evidence := line u (pc_message c)\<rparr>)
       else None) (p_conditions (pf_pod facts)))"

section \<open>Volumes\<close>

definition pod_ready_cond :: "pod \<Rightarrow> bool" where
  "pod_ready_cond p = (case find (\<lambda>c. pc_type c = ''Ready'') (p_conditions p) of
     Some c \<Rightarrow> pc_status c = ''True'' | None \<Rightarrow> False)"

definition stuck_creating :: "pod \<Rightarrow> bool" where
  "stuck_creating p = (if p_statuses p = [] then True
     else list_ex (\<lambda>cs. waiting_for cs = Some ''ContainerCreating'') (p_statuses p))"

definition newest_event :: "string \<Rightarrow> event list \<Rightarrow> event option" where
  "newest_event reason evs =
    (case sort_slice (\<lambda>a b. ev_last a > ev_last b) (filter (\<lambda>e. ev_reason e = reason) evs) of
       [] \<Rightarrow> None | e # _ \<Rightarrow> Some e)"

definition volume_attach_detect :: "unicode_tables \<Rightarrow> pod_facts \<Rightarrow> finding option" where
  "volume_attach_detect u facts =
    (if pod_ready_cond (pf_pod facts) \<or> \<not> stuck_creating (pf_pod facts) then None
     else case newest_event ''FailedAttachVolume'' (pf_events facts) of None \<Rightarrow> None
     | Some ev \<Rightarrow> Some (blank_finding\<lparr>f_pod := pod_ref (pf_pod facts), f_issue := ''VolumeAttachError'',
         f_reason := (if contains (ev_message ev) ''Multi-Attach''
           then ''the volume is attached to another node (Multi-Attach)'' @ dash @ ''the pod cannot mount it''
           else ''a volume cannot be attached to the pod'' @ bytes [39] @ ''s node''),
         f_evidence := line u (ev_message ev)\<rparr>))"

definition absent_volume_source :: "string \<Rightarrow> bool" where
  "absent_volume_source msg = (if \<not> contains msg ''not found'' then False
     else contains msg ''configmap '' \<or> contains msg ''secret '')"

definition volume_mount_detect :: "unicode_tables \<Rightarrow> pod_facts \<Rightarrow> finding option" where
  "volume_mount_detect u facts =
    (if pod_ready_cond (pf_pod facts) \<or> \<not> stuck_creating (pf_pod facts) then None
     else case newest_event ''FailedMount'' (pf_events facts) of None \<Rightarrow> None
     | Some ev \<Rightarrow> Some (blank_finding\<lparr>f_pod := pod_ref (pf_pod facts), f_issue := ''VolumeMountError'',
         f_reason := (if absent_volume_source (ev_message ev)
           then ''a ConfigMap or Secret the pod mounts as a volume does not exist'' @ dash @ ''the pod cannot start''
           else ''a volume the pod needs could not be mounted'' @ dash @ ''the pod cannot start''),
         f_evidence := line u (ev_message ev)\<rparr>))"

section \<open>Init containers\<close>

definition apos :: string where "apos = bytes [39]"

text \<open>The arms of \<open>initFinding\<close>, in the order of their precedence.\<close>

definition init_base :: "pod \<Rightarrow> container_status \<Rightarrow> finding" where
  "init_base p cs = blank_finding\<lparr>f_pod := pod_ref p, f_container := cs_name cs\<rparr>"

definition init_image_arm :: "unicode_tables \<Rightarrow> pod \<Rightarrow> string \<Rightarrow> container_status \<Rightarrow> finding option" where
  "init_image_arm u p who cs = (case st_waiting (cs_state cs) of None \<Rightarrow> None
     | Some (r, msg) \<Rightarrow> if image_reason r then Some ((init_base p cs)\<lparr>f_issue := ''Init:'' @ r,
         f_reason := ''an init container'' @ apos @ ''s image cannot be pulled'' @ dash @ ''the pod cannot start'',
         f_evidence := who @ '': '' @ line u msg, f_image := cs_image cs\<rparr>) else None)"

definition init_oom_arm :: "pod \<Rightarrow> string \<Rightarrow> container_status \<Rightarrow> finding option" where
  "init_oom_arm p who cs = map_option (\<lambda>tm. (init_base p cs)\<lparr>f_issue := ''Init:OOMKilled'',
     f_reason := ''an init container was killed for exceeding its memory limit'' @ dash @ ''the pod cannot start'',
     f_evidence := who @ '', exitCode='' @ itoa (tm_exit_code tm),
     f_resources := container_resources_of p (cs_name cs)\<rparr>) (oom_kill cs)"

definition init_config_arm :: "unicode_tables \<Rightarrow> pod \<Rightarrow> string \<Rightarrow> container_status \<Rightarrow> finding option" where
  "init_config_arm u p who cs = (case st_waiting (cs_state cs) of None \<Rightarrow> None
     | Some (r, msg) \<Rightarrow> if r = ''CreateContainerConfigError'' then Some ((init_base p cs)\<lparr>f_issue := ''Init:'' @ r,
         f_reason := ''an init container'' @ apos @ ''s ConfigMap or Secret is missing, or a required key is absent'' @ dash @ ''the pod cannot start'',
         f_evidence := who @ '': '' @ line u msg\<rparr>) else None)"

definition init_crashing :: "container_status \<Rightarrow> bool" where
  "init_crashing cs \<longleftrightarrow> waiting_for cs = Some ''CrashLoopBackOff'' \<or>
     (case st_terminated (cs_state cs) of None \<Rightarrow> False
      | Some tm \<Rightarrow> tm_exit_code tm \<noteq> 0 \<and> tm_reason tm \<noteq> ''OOMKilled'' \<and> cs_restart_count cs \<ge> 1)"

definition init_crash_arm :: "pod \<Rightarrow> string \<Rightarrow> container_status \<Rightarrow> finding option" where
  "init_crash_arm p who cs = (if init_crashing cs then Some ((init_base p cs)\<lparr>f_issue := ''Init:CrashLoopBackOff'',
     f_reason := ''an init container is crash-looping'' @ dash @ ''the pod cannot start its main containers'',
     f_evidence := who @ '', restartCount='' @ itoa (cs_restart_count cs)\<rparr>) else None)"

definition init_finding :: "unicode_tables \<Rightarrow> pod \<Rightarrow> nat \<Rightarrow> nat \<times> container_status \<Rightarrow> finding option" where
  "init_finding u p n = (\<lambda>(idx, cs).
     let who = ''init container '' @ go_quote (cs_name cs) @ '' ('' @ itoa (int idx + 1) @ ''/'' @ itoa (int n) @ '')''
     in first_some id [init_image_arm u p who cs, init_oom_arm p who cs, init_config_arm u p who cs,
          init_crash_arm p who cs])"

definition init_container_detect :: "unicode_tables \<Rightarrow> pod_facts \<Rightarrow> finding option" where
  "init_container_detect u facts =
    (let statuses = p_init_statuses (pf_pod facts)
     in first_some (init_finding u (pf_pod facts) (length statuses)) (enumerate 0 statuses))"

section \<open>Configuration and start errors\<close>

definition config_error_detect :: "unicode_tables \<Rightarrow> pod_facts \<Rightarrow> finding option" where
  "config_error_detect u facts = first_some (\<lambda>cs.
     case st_waiting (cs_state cs) of None \<Rightarrow> None
     | Some (r, msg) \<Rightarrow>
         if r = ''CreateContainerConfigError''
         then Some (blank_finding\<lparr>f_pod := pod_ref (pf_pod facts), f_issue := ''CreateContainerConfigError'',
           f_reason := ''a referenced ConfigMap or Secret is missing, or a required key is absent'' @ dash @ ''the container cannot start'',
           f_evidence := ''container '' @ go_quote (cs_name cs) @ '': '' @ line u msg,
           f_container := cs_name cs\<rparr>)
         else None) (p_statuses (pf_pod facts))"

definition container_start_dwell :: duration where "container_start_dwell = 60 * second"

definition container_start_reasons :: "string list" where
  "container_start_reasons = [''RunContainerError'', ''CreateContainerError'', ''PreStartHookError'',
     ''PostStartHookError'', ''StartError'']"

definition container_start_detect :: "unicode_tables \<Rightarrow> time \<Rightarrow> pod_facts \<Rightarrow> finding option" where
  "container_start_detect u now facts = first_some (\<lambda>cs.
     case st_waiting (cs_state cs) of None \<Rightarrow> None
     | Some (r, msg) \<Rightarrow>
         if r \<notin> set container_start_reasons then None
         else if cs_restart_count cs = 0 \<and> time_sub now (p_created (pf_pod facts)) < container_start_dwell then None
         else Some (blank_finding\<lparr>f_pod := pod_ref (pf_pod facts), f_issue := ''ContainerStartError'',
           f_reason := ''the container image was resolved but the container could not be started'',
           f_evidence := ''container '' @ go_quote (cs_name cs) @ '': '' @ line u r @ '': '' @ line u msg,
           f_container := cs_name cs\<rparr>)) (p_statuses (pf_pod facts))"

end
