(* ===== verification/Annotators.thy ===== *)
theory Annotators
  imports Root_Cause Diagnose
begin

text \<open>
  The passes that add to the assembled workloads what the controllers say: \<open>internal/batchhealth\<close>,
  \<open>internal/createhealth\<close>, \<open>internal/rollouthealth\<close>, \<open>internal/netpolicy\<close> and \<open>internal/rollout\<close>, and their
  composition with the attribution in \<open>scan.Evaluate\<close>.
\<close>

section \<open>The controllers and events read\<close>

record job_object =
  jo_namespace :: string
  jo_name :: string
  jo_owners :: "owner_reference list"
  jo_created :: time
  jo_conditions :: "pod_condition list"

record object_event =
  oe_kind :: string
  oe_namespace :: string
  oe_name :: string
  oe_reason :: string
  oe_message :: string
  oe_last :: time

record deploy_object =
  dp_namespace :: string
  dp_name :: string
  dp_conditions :: "pod_condition list"

record sts_object =
  ss_namespace :: string
  ss_name :: string
  ss_created :: time
  ss_replicas :: "int option"
  ss_update_revision :: string
  ss_current_revision :: string
  ss_updated :: int
  ss_ready :: int

record ds_object =
  dm_namespace :: string
  dm_name :: string
  dm_created :: time
  dm_desired :: int
  dm_ready :: int
  dm_updated :: int

record rs_object = replica_set +
  rs_created :: time
  rs_annotations :: "(string, string) gomap"
  rs_containers :: "(string \<times> string) list"

text \<open>The selector of a policy is what \<open>LabelSelectorAsSelector\<close> gives for it, \<open>None\<close> for an error.\<close>

record network_policy =
  np_namespace :: string
  np_name :: string
  np_selector :: "((string, string) gomap \<Rightarrow> bool) option"

section \<open>Failed jobs\<close>

definition cron_failed_status :: string where "cron_failed_status = ''Last run failed''"

definition controlled_owner :: "string \<Rightarrow> owner_reference list \<Rightarrow> string option" where
  "controlled_owner kind owners =
    map_option or_name (find (\<lambda>o'. or_kind o' = kind \<and> or_controller o' = Some True) owners)"

definition owned_by_cron_job :: "job_object \<Rightarrow> string option" where
  "owned_by_cron_job j = controlled_owner ''CronJob'' (jo_owners j)"

fun newest_job :: "job_object option \<Rightarrow> job_object list \<Rightarrow> job_object option" where
  "newest_job best [] = best"
| "newest_job None (j # js) = newest_job (Some j) js"
| "newest_job (Some b) (j # js) = newest_job (if jo_created j > jo_created b then Some j else Some b) js"

definition human_reason :: "unicode_tables \<Rightarrow> string \<Rightarrow> string" where
  "human_reason u reason =
    (if reason = ''BackoffLimitExceeded'' then ''exhausted its retries (BackoffLimitExceeded)''
     else if reason = ''DeadlineExceeded'' then ''hit its deadline (DeadlineExceeded)''
     else line u reason)"

definition job_failed_finding :: "unicode_tables \<Rightarrow> job_object \<Rightarrow> string \<Rightarrow> bool \<Rightarrow> finding option" where
  "job_failed_finding u j wk from_cron =
    (case find (\<lambda>c. pc_type c = ''Failed'' \<and> pc_status c = ''True'') (jo_conditions j) of
      None \<Rightarrow> None
    | Some c \<Rightarrow>
        let msg = line u (pc_message c);
            base = (if from_cron then ''the most recent scheduled run failed'' else ''the Job failed'');
            p = human_reason u (pc_reason c)
        in Some (blank_finding\<lparr>f_pod := wk, f_kind := if from_cron then ''CronJob'' else ''Job'', f_issue := ''JobFailed'',
             f_reason := if p \<noteq> [] then base @ dash @ p else base,
             f_evidence := if from_cron then ''job '' @ go_quote (jo_name j) @ '': '' @ msg else msg\<rparr>))"

definition jobs_by_key :: "job_object list \<Rightarrow> (string, job_object) gomap" where
  "jobs_by_key jobs = fold (\<lambda>j. mput (jo_namespace j @ ''/'' @ jo_name j) j) jobs []"

definition cron_job_jobs :: "job_object list \<Rightarrow> string \<Rightarrow> job_object list" where
  "cron_job_jobs jobs wk =
    filter (\<lambda>j. case owned_by_cron_job j of None \<Rightarrow> False | Some name \<Rightarrow> jo_namespace j @ ''/'' @ name = wk) jobs"

definition annotate_jobs_one :: "unicode_tables \<Rightarrow> job_object list \<Rightarrow> workload \<Rightarrow> workload" where
  "annotate_jobs_one u jobs w =
    (let wk = w_namespace w @ ''/'' @ w_name w in
     if w_kind w = ''Job'' then
       (case mget (jobs_by_key jobs) wk of
         None \<Rightarrow> w
       | Some j \<Rightarrow> (case job_failed_finding u j wk False of
           None \<Rightarrow> w
         | Some f \<Rightarrow> w\<lparr>w_findings := w_findings w @ [f]\<rparr>))
     else if w_kind w = ''CronJob'' then
       (case newest_job None (cron_job_jobs jobs wk) of
         None \<Rightarrow> w
       | Some j \<Rightarrow> (case job_failed_finding u j wk True of
           None \<Rightarrow> w
         | Some f \<Rightarrow> w\<lparr>w_findings := w_findings w @ [f], w_status := cron_failed_status\<rparr>))
     else w)"

definition annotate_jobs :: "unicode_tables \<Rightarrow> job_object list \<Rightarrow> workload list \<Rightarrow> workload list" where
  "annotate_jobs u jobs = map (annotate_jobs_one u jobs)"

section \<open>Pods that cannot be created\<close>

definition owned_by_deployment :: "owner_reference list \<Rightarrow> string option" where
  "owned_by_deployment owners = controlled_owner ''Deployment'' owners"

definition set_owners :: "rs_object list \<Rightarrow> (string, string) gomap" where
  "set_owners sets = fold (\<lambda>rs m. case owned_by_deployment (rs_owners rs) of
      None \<Rightarrow> m | Some name \<Rightarrow> mput (rs_namespace rs @ ''/'' @ rs_name rs) name m) sets []"

definition event_workload :: "object_event \<Rightarrow> (string, string) gomap \<Rightarrow> string" where
  "event_workload e to_deploy =
    (if oe_kind e = ''ReplicaSet'' then
       (case mget to_deploy (oe_namespace e @ ''/'' @ oe_name e) of
         Some dep \<Rightarrow> ''Deployment/'' @ oe_namespace e @ ''/'' @ dep
       | None \<Rightarrow> ''ReplicaSet/'' @ oe_namespace e @ ''/'' @ oe_name e)
     else if oe_kind e = ''StatefulSet'' \<or> oe_kind e = ''DaemonSet'' then
       oe_kind e @ ''/'' @ oe_namespace e @ ''/'' @ oe_name e
     else [])"

definition newest_create_event :: "(string, string) gomap \<Rightarrow> object_event list \<Rightarrow> (string, object_event) gomap" where
  "newest_create_event to_deploy events =
    fold (\<lambda>e m. if oe_reason e \<noteq> ''FailedCreate'' then m
        else let key = event_workload e to_deploy in
          if key = [] then m
          else case mget m key of
            None \<Rightarrow> mput key e m
          | Some best \<Rightarrow> if oe_last e > oe_last best then mput key e m else m) events []"

definition classify_create_failure :: "unicode_tables \<Rightarrow> string \<Rightarrow> string" where
  "classify_create_failure u msg =
    (let m = to_lower u msg in
     if contains m ''exceeded quota'' then ''blocked by a ResourceQuota''
     else if contains m ''admission webhook'' then ''rejected by an admission webhook''
     else if contains m ''failed calling webhook'' then ''an admission webhook could not be reached''
     else if contains m ''limitrange'' \<or> contains m ''minimum '' \<or> contains m ''maximum '' then ''violates a LimitRange''
     else if contains m ''forbidden'' then ''forbidden by admission''
     else ''pod creation is failing'')"

definition short_of_pods :: "workload \<Rightarrow> bool" where
  "short_of_pods w \<longleftrightarrow> int (length (w_pods w) + w_pods_omitted w) < w_desired w"

definition create_finding :: "unicode_tables \<Rightarrow> workload \<Rightarrow> object_event \<Rightarrow> finding" where
  "create_finding u w e = blank_finding\<lparr>f_pod := w_namespace w @ ''/'' @ w_name w, f_issue := ''FailedCreate'',
     f_reason := ''the controller cannot create pods'' @ dash @ classify_create_failure u (oe_message e),
     f_evidence := line u (oe_message e)\<rparr>"

definition annotate_create_one :: "unicode_tables \<Rightarrow> (string, object_event) gomap \<Rightarrow> workload \<Rightarrow> workload" where
  "annotate_create_one u by_workload w =
    (if \<not> flagged w \<or> \<not> short_of_pods w then w
     else case mget by_workload (w_kind w @ ''/'' @ w_namespace w @ ''/'' @ w_name w) of
       None \<Rightarrow> w
     | Some e \<Rightarrow> w\<lparr>w_findings := w_findings w @ [create_finding u w e]\<rparr>)"

definition annotate_create :: "unicode_tables \<Rightarrow> rs_object list \<Rightarrow> object_event list \<Rightarrow> workload list \<Rightarrow> workload list" where
  "annotate_create u sets events =
    map (annotate_create_one u (newest_create_event (set_owners sets) events))"

section \<open>Stuck rollouts\<close>

definition rollout_grace :: duration where "rollout_grace = 600 * second"

definition restarting :: "workload \<Rightarrow> bool" where
  "restarting w \<longleftrightarrow> (\<exists>p\<in>set (w_pods w). row_restarts p \<ge> RestartThreshold)"

definition controlled_by :: "pod \<Rightarrow> string \<Rightarrow> string \<Rightarrow> bool" where
  "controlled_by p kind name \<longleftrightarrow>
    (\<exists>o'\<in>set (p_owners p). or_controller o' = Some True \<and> or_kind o' = kind \<and> or_name o' = name)"

definition settled :: "workload \<Rightarrow> time \<Rightarrow> pod list \<Rightarrow> time \<Rightarrow> bool" where
  "settled w created pods now \<longleftrightarrow> time_sub now created \<ge> rollout_grace \<and>
    (\<forall>p\<in>set pods. p_namespace p \<noteq> w_namespace w \<or> \<not> controlled_by p (w_kind w) (w_name w) \<or> pod_ready_cond p \<or>
       time_sub now (p_created p) \<ge> rollout_grace)"

definition stuck_condition :: "unicode_tables \<Rightarrow> deploy_object \<Rightarrow> string option" where
  "stuck_condition u dep =
    (case find (\<lambda>c. pc_type c = ''ReplicaFailure'' \<and> pc_status c = ''True'') (dp_conditions dep) of
      Some c \<Rightarrow> Some (''ReplicaFailure: '' @ line u (pc_message c))
    | None \<Rightarrow> (case find (\<lambda>c. pc_type c = ''Progressing'' \<and> pc_status c = ''False'' \<and> pc_reason c = ''ProgressDeadlineExceeded'')
          (dp_conditions dep) of
        Some c \<Rightarrow> Some (''Progressing (ProgressDeadlineExceeded): '' @ line u (pc_message c))
      | None \<Rightarrow> None))"

definition stuck_stateful_set :: "sts_object \<Rightarrow> string option" where
  "stuck_stateful_set s =
    (let desired = (case ss_replicas s of None \<Rightarrow> 1 | Some n \<Rightarrow> n) in
     if desired \<le> 0 then None
     else if ss_update_revision s \<noteq> ss_current_revision s then
       (if ss_updated s < desired
        then Some (''updatedReplicas '' @ itoa (ss_updated s) @ ''/'' @ itoa desired @ '', update revision pending'') else None)
     else if ss_ready s < desired
       then Some (''readyReplicas '' @ itoa (ss_ready s) @ ''/'' @ itoa desired @ '', revision unchanged'')
     else None)"

definition stuck_daemon_set :: "ds_object \<Rightarrow> string option" where
  "stuck_daemon_set d =
    (if dm_desired d \<le> 0 \<or> dm_ready d \<ge> dm_desired d then None
     else if dm_updated d < dm_desired d then
       Some (''numberReady '' @ itoa (dm_ready d) @ ''/'' @ itoa (dm_desired d) @ '', updatedNumberScheduled '' @
         itoa (dm_updated d) @ ''/'' @ itoa (dm_desired d))
     else Some (''numberReady '' @ itoa (dm_ready d) @ ''/'' @ itoa (dm_desired d) @ '', all pods updated''))"

definition rollout_finding :: "workload \<Rightarrow> string \<Rightarrow> string \<Rightarrow> finding" where
  "rollout_finding w ev confidence = blank_finding\<lparr>f_pod := w_namespace w @ ''/'' @ w_name w, f_issue := ''RolloutStuck'',
     f_reason := ''the '' @ w_kind w @ bytes [39] @ ''s rollout cannot complete'' @ dash @ ''the new pods are not becoming available'',
     f_evidence := ev, f_confidence := confidence\<rparr>"

text \<open>The objects by \<open>namespace/name\<close>; of two with the same key the later one counts.\<close>

definition by_name :: "('a \<Rightarrow> string) \<Rightarrow> ('a \<Rightarrow> string) \<Rightarrow> 'a list \<Rightarrow> (string, 'a) gomap" where
  "by_name ns name xs = fold (\<lambda>x. mput (ns x @ ''/'' @ name x) x) xs []"

text \<open>The finding the pass adds to a workload, if any.\<close>

definition stuck_finding :: "unicode_tables \<Rightarrow> deploy_object list \<Rightarrow> sts_object list \<Rightarrow> ds_object list \<Rightarrow> pod list \<Rightarrow>
    time \<Rightarrow> workload \<Rightarrow> finding option" where
  "stuck_finding u deps stses dses pods now w =
    (if \<not> flagged w \<or> w_findings w \<noteq> [] \<or> restarting w then None
     else let key = w_namespace w @ ''/'' @ w_name w in
       if w_kind w = ''Deployment'' then
         (case mget (by_name dp_namespace dp_name deps) key of
           None \<Rightarrow> None
         | Some dep \<Rightarrow> map_option (\<lambda>ev. rollout_finding w ev ''high'') (stuck_condition u dep))
       else if w_kind w = ''StatefulSet'' then
         (case mget (by_name ss_namespace ss_name stses) key of
           None \<Rightarrow> None
         | Some s \<Rightarrow> (case stuck_stateful_set s of
             None \<Rightarrow> None
           | Some ev \<Rightarrow> if settled w (ss_created s) pods now then Some (rollout_finding w ev ''medium'') else None))
       else if w_kind w = ''DaemonSet'' then
         (case mget (by_name dm_namespace dm_name dses) key of
           None \<Rightarrow> None
         | Some d \<Rightarrow> (case stuck_daemon_set d of
             None \<Rightarrow> None
           | Some ev \<Rightarrow> if settled w (dm_created d) pods now then Some (rollout_finding w ev ''medium'') else None))
       else None)"

definition annotate_stuck :: "unicode_tables \<Rightarrow> deploy_object list \<Rightarrow> sts_object list \<Rightarrow> ds_object list \<Rightarrow> pod list \<Rightarrow>
    time \<Rightarrow> workload list \<Rightarrow> workload list" where
  "annotate_stuck u deps stses dses pods now =
    map (\<lambda>w. case stuck_finding u deps stses dses pods now w of
        None \<Rightarrow> w | Some f \<Rightarrow> w\<lparr>w_findings := w_findings w @ [f]\<rparr>)"

section \<open>Network policies\<close>

definition only_probe_failures :: "finding list \<Rightarrow> bool" where
  "only_probe_failures fs \<longleftrightarrow> (\<forall>f\<in>set fs. f_issue f = ''ProbeFailure'')"

definition selecting_policies :: "workload \<Rightarrow> (string, (string, string) gomap) gomap \<Rightarrow> network_policy list \<Rightarrow> string list" where
  "selecting_policies w pod_labels policies =
    sort (remdups (map np_name (filter (\<lambda>p. np_namespace p = w_namespace w \<and>
      (case np_selector p of None \<Rightarrow> False
       | Some sel \<Rightarrow> \<exists>pr\<in>set (w_pods w). sel (mget_zero [] pod_labels (w_namespace w @ ''/'' @ row_name pr)))) policies)))"

definition annotate_policies :: "(string, (string, string) gomap) gomap \<Rightarrow> network_policy list \<Rightarrow> workload list \<Rightarrow> workload list" where
  "annotate_policies pod_labels policies =
    map (\<lambda>w. if \<not> flagged w \<or> \<not> only_probe_failures (w_findings w) then w
        else if selecting_policies w pod_labels policies = [] then w
        else w\<lparr>w_network_policies := selecting_policies w pod_labels policies\<rparr>)"

section \<open>Recent rollouts\<close>

definition revision_annotation :: string where "revision_annotation = ''deployment.kubernetes.io/revision''"
definition recency_window :: duration where "recency_window = 7 * 24 * hour"

definition set_owned_by :: "rs_object \<Rightarrow> string \<Rightarrow> bool" where
  "set_owned_by rs deployment \<longleftrightarrow> (\<exists>o'\<in>set (rs_owners rs). or_kind o' = ''Deployment'' \<and> or_name o' = deployment)"

definition rev_of :: "rs_object \<Rightarrow> int" where
  "rev_of rs = (case mget (rs_annotations rs) revision_annotation of None \<Rightarrow> 0
     | Some v \<Rightarrow> (case atoi v of None \<Rightarrow> 0 | Some n \<Rightarrow> n))"

text \<open>The owned replica sets, newest revision first.\<close>

definition owned_sets :: "string \<Rightarrow> string \<Rightarrow> rs_object list \<Rightarrow> rs_object list" where
  "owned_sets ns deployment sets =
    sort_slice (\<lambda>a b. rev_of a > rev_of b)
      (filter (\<lambda>rs. rs_namespace rs = ns \<and> set_owned_by rs deployment \<and> rev_of rs > 0) sets)"

definition current_and_prev :: "string \<Rightarrow> string \<Rightarrow> rs_object list \<Rightarrow> rs_object option \<times> rs_object option" where
  "current_and_prev ns deployment sets =
    (case owned_sets ns deployment sets of
      [] \<Rightarrow> (None, None) | [c] \<Rightarrow> (Some c, None) | c # p # _ \<Rightarrow> (Some c, Some p))"

definition first_image :: "rs_object \<Rightarrow> string" where
  "first_image rs = (case rs_containers rs of [] \<Rightarrow> [] | c # _ \<Rightarrow> snd c)"

definition first_container_name :: "rs_object \<Rightarrow> string" where
  "first_container_name rs = (case rs_containers rs of [] \<Rightarrow> [] | c # _ \<Rightarrow> fst c)"

definition finding_image :: "workload \<Rightarrow> string option" where
  "finding_image w = map_option f_image (find (\<lambda>f. f_image f \<noteq> []) (w_findings w))"

definition container_by_image :: "rs_object \<Rightarrow> string \<Rightarrow> string option" where
  "container_by_image rs img = map_option fst (find (\<lambda>c. snd c = img) (rs_containers rs))"

definition image_by_name :: "rs_object \<Rightarrow> string \<Rightarrow> string option" where
  "image_by_name rs name = map_option snd (find (\<lambda>c. fst c = name) (rs_containers rs))"

definition changed_container :: "workload \<Rightarrow> rs_object \<Rightarrow> rs_object \<Rightarrow> (string \<times> string \<times> string) option" where
  "changed_container w prev cur =
    (case finding_image w of None \<Rightarrow> None
     | Some img \<Rightarrow> (case container_by_image cur img of None \<Rightarrow> None
       | Some name \<Rightarrow> (case image_by_name prev name of None \<Rightarrow> None
         | Some old \<Rightarrow> if old = [] \<or> old = img then None else Some (old, img, name))))"

text \<open>\<open>HumanSince\<close> on a formatted time: the text has whole seconds.\<close>

definition human_since_time :: "time \<Rightarrow> time \<Rightarrow> string" where
  "human_since_time t now = human_age (t - t mod second) now @ '' ago''"

definition rollout_of :: "workload \<Rightarrow> rs_object \<Rightarrow> rs_object option \<Rightarrow> time \<Rightarrow> rollout_change" where
  "rollout_of w cur prev now =
    (let rc = \<lparr>rc_revision = itoa (rev_of cur), rc_since = human_since_time (rs_created cur) now,
               rc_old_image = [], rc_new_image = [], rc_container = []\<rparr> in
     case prev of None \<Rightarrow> rc
     | Some p \<Rightarrow>
       (case (case changed_container w p cur of None \<Rightarrow> (first_image p, first_image cur, []) | Some m \<Rightarrow> m) of
         (o', n, container) \<Rightarrow>
           if o' \<noteq> n \<and> o' \<noteq> [] \<and> n \<noteq> [] then
             rc\<lparr>rc_old_image := o', rc_new_image := n,
                rc_container := if container \<noteq> [] \<and> container \<noteq> first_container_name cur then container else []\<rparr>
           else rc))"

definition annotate_rollout_one :: "rs_object list \<Rightarrow> time \<Rightarrow> workload \<Rightarrow> workload" where
  "annotate_rollout_one sets now w =
    (if \<not> flagged w \<or> w_kind w \<noteq> ''Deployment'' then w
     else case current_and_prev (w_namespace w) (w_name w) sets of
       (None, _) \<Rightarrow> w
     | (Some cur, prev) \<Rightarrow>
         if time_sub now (rs_created cur) > recency_window then w
         else if rev_of cur \<le> 1 then w
         else w\<lparr>w_rollout := Some (rollout_of w cur prev now)\<rparr>)"

definition annotate_rollout :: "rs_object list \<Rightarrow> time \<Rightarrow> workload list \<Rightarrow> workload list" where
  "annotate_rollout sets now = map (annotate_rollout_one sets now)"

section \<open>The composition\<close>

text \<open>What the scan hands the passes.\<close>

record scan_evidence =
  ed_sets :: "rs_object list"
  ed_create_events :: "object_event list"
  ed_deployments :: "deploy_object list"
  ed_stateful_sets :: "sts_object list"
  ed_daemon_sets :: "ds_object list"
  ed_pods :: "pod list"
  ed_pod_labels :: "(string, (string, string) gomap) gomap"
  ed_policies :: "network_policy list"
  ed_down :: "(string \<times> string) list"
  ed_pod_pvcs :: "(string, string list) gomap"
  ed_pvc_issues :: "pvc_issue list"

definition add_findings :: "unicode_tables \<Rightarrow> scan_evidence \<Rightarrow> time \<Rightarrow> workload list \<Rightarrow> workload list" where
  "add_findings u ed now ws =
    annotate_stuck u (ed_deployments ed) (ed_stateful_sets ed) (ed_daemon_sets ed) (ed_pods ed) now
      (annotate_create u (ed_sets ed) (ed_create_events ed) ws)"

definition enrich :: "unicode_tables \<Rightarrow> scan_evidence \<Rightarrow> time \<Rightarrow> workload list \<Rightarrow> workload list" where
  "enrich u ed now ws =
    attribute u (ed_down ed) (ed_pod_pvcs ed) (ed_pvc_issues ed)
      (annotate_rollout (ed_sets ed) now
        (annotate_policies (ed_pod_labels ed) (ed_policies ed)
          (add_findings u ed now ws)))"

section \<open>What the passes add\<close>

text \<open>The part of a workload no pass touches.\<close>

definition core :: "workload \<Rightarrow> workload" where
  "core w = w\<lparr>w_findings := [], w_network_policies := [], w_rollout := None, w_root_cause := [], w_trace := [],
     w_root_confidence := []\<rparr>"

lemma core_update [simp]:
  "core (w\<lparr>w_findings := fs\<rparr>) = core w" "core (w\<lparr>w_network_policies := ns\<rparr>) = core w" "core (w\<lparr>w_rollout := r\<rparr>) = core w"
  "core (w\<lparr>w_root_cause := c\<rparr>) = core w" "core (w\<lparr>w_root_confidence := c\<rparr>) = core w"
  "core (trace_record c k ob v why w) = core w"
  by (simp_all add: core_def trace_record_def)

lemma core_judge [simp]: "core (fold judge cs w) = core w"
  by (induction cs arbitrary: w) (simp_all add: judge_def)

lemma attribute_nth:
  assumes "j < length ws"
  shows "core (attribute u down pod_pvcs issues ws ! j) = core (ws ! j) \<and>
    w_findings (attribute u down pod_pvcs issues ws ! j) = map confide (w_findings (ws ! j))"
proof -
  define mid where "mid = annotate_pvcs pod_pvcs issues (annotate_nodes down ws)"
  have mid: "length mid = length ws" "core (mid ! j) = core (ws ! j)" "w_findings (mid ! j) = w_findings (ws ! j)"
    using assms by (simp_all add: mid_def annotate_pvcs_def annotate_nodes_def)
  have "core (first_look u w) = core w" "w_findings (first_look u w) = w_findings w"
    "core (settle u host n w) = core w" "w_findings (settle u host n w) = w_findings w" for w host n
    by (simp_all add: first_look_def settle_def registry_alone_def registry_shared_def split: prod.split)
  then have "core (annotate_registry u mid ! j) = core (ws ! j)" "w_findings (annotate_registry u mid ! j) = w_findings (ws ! j)"
    using assms mid by (simp_all add: annotate_registry_nth(2) split: option.split)
  then show ?thesis using assms mid(1)
    by (simp add: attribute_def mid_def [symmetric] annotate_confidence_def annotate_registry_nth(1) Let_def)
qed

lemma attribute_unflagged:
  assumes "j < length ws" "\<not> flagged (ws ! j)" "w_root_cause (ws ! j) = []"
  shows "attribute u down pod_pvcs issues ws ! j = ws ! j"
proof -
  define mid where "mid = annotate_pvcs pod_pvcs issues (annotate_nodes down ws)"
  have mid: "length mid = length ws" "mid ! j = ws ! j"
    using assms by (simp_all add: mid_def annotate_pvcs_def annotate_nodes_def)
  have "joins (ws ! j) = None" "first_look u (ws ! j) = ws ! j"
    using assms(2) by (simp_all add: joins_def first_look_def split: prod.split)
  then have "annotate_registry u mid ! j = ws ! j" using assms(1) mid by (simp add: annotate_registry_nth(2))
  moreover have "w_findings (ws ! j) = []" using assms(2) by (simp add: flagged_def)
  ultimately show ?thesis using assms(1,3) mid(1)
    by (simp add: attribute_def mid_def [symmetric] annotate_confidence_def annotate_registry_nth(1) for_root_cause_def
      has_prefix_def Let_def)
qed

lemma flagged_update [simp]:
  "flagged (w\<lparr>w_network_policies := ns\<rparr>) = flagged w" "flagged (w\<lparr>w_rollout := r\<rparr>) = flagged w"
  by (simp_all add: flagged_def)

lemma rollout_nth:
  "j < length ws \<Longrightarrow> core (annotate_rollout sets now (annotate_policies labels policies ws) ! j) = core (ws ! j)"
  "j < length ws \<Longrightarrow> w_findings (annotate_rollout sets now (annotate_policies labels policies ws) ! j) = w_findings (ws ! j)"
  "j < length ws \<Longrightarrow> w_root_cause (annotate_rollout sets now (annotate_policies labels policies ws) ! j) = w_root_cause (ws ! j)"
  "j < length ws \<Longrightarrow> flagged (annotate_rollout sets now (annotate_policies labels policies ws) ! j) = flagged (ws ! j)"
  "j < length ws \<Longrightarrow> \<not> flagged (ws ! j) \<Longrightarrow> annotate_rollout sets now (annotate_policies labels policies ws) ! j = ws ! j"
  "length (annotate_rollout sets now (annotate_policies labels policies ws)) = length ws"
  by (auto simp: annotate_rollout_def annotate_policies_def annotate_rollout_one_def split: prod.split option.split)

text \<open>The finding the controllers of a workload add to it: at most one.\<close>

definition controller_finding :: "unicode_tables \<Rightarrow> scan_evidence \<Rightarrow> time \<Rightarrow> workload \<Rightarrow> finding list" where
  "controller_finding u ed now w =
    (if \<not> flagged w then []
     else case (if short_of_pods w then
         mget (newest_create_event (set_owners (ed_sets ed)) (ed_create_events ed)) (w_kind w @ ''/'' @ w_namespace w @ ''/'' @ w_name w)
         else None) of
       Some e \<Rightarrow> [create_finding u w e]
     | None \<Rightarrow> (case stuck_finding u (ed_deployments ed) (ed_stateful_sets ed) (ed_daemon_sets ed) (ed_pods ed) now w of
         Some f \<Rightarrow> [f] | None \<Rightarrow> []))"

lemma add_findings_nth:
  assumes "j < length ws"
  shows "add_findings u ed now ws ! j = (ws ! j)\<lparr>w_findings := w_findings (ws ! j) @ controller_finding u ed now (ws ! j)\<rparr>"
proof -
  have "stuck_finding u d s ds p now (w\<lparr>w_findings := w_findings w @ [f]\<rparr>) = None" for d s ds p w f
    by (simp add: stuck_finding_def)
  moreover have "\<not> flagged w \<Longrightarrow> stuck_finding u d s ds p now w = None" for d s ds p w by (simp add: stuck_finding_def)
  ultimately show ?thesis using assms
    by (auto simp: add_findings_def annotate_stuck_def annotate_create_def annotate_create_one_def controller_finding_def
      split: option.split)
qed

text \<open>The events that say that the controller of workload \<open>key\<close> cannot create pods.\<close>

definition create_events :: "(string, string) gomap \<Rightarrow> string \<Rightarrow> object_event list \<Rightarrow> object_event set" where
  "create_events to_deploy key events = {e\<in>set events. oe_reason e = ''FailedCreate'' \<and> event_workload e to_deploy = key}"

lemma newest_create_event_get:
  assumes "key \<noteq> []"
  shows "case mget (newest_create_event to_deploy events) key of
      None \<Rightarrow> create_events to_deploy key events = {}
    | Some e \<Rightarrow> e \<in> create_events to_deploy key events \<and> (\<forall>e'\<in>create_events to_deploy key events. oe_last e' \<le> oe_last e)"
proof (induction events rule: rev_induct)
  case Nil
  then show ?case by (simp add: newest_create_event_def create_events_def)
next
  case (snoc e events)
  have new: "create_events to_deploy key (events @ [e]) =
    (if oe_reason e = ''FailedCreate'' \<and> event_workload e to_deploy = key then insert e (create_events to_deploy key events)
     else create_events to_deploy key events)"
    by (auto simp: create_events_def)
  show ?case
  proof (cases "oe_reason e = ''FailedCreate'' \<and> event_workload e to_deploy = key")
    case True
    then show ?thesis using snoc assms unfolding new
      by (cases "mget (newest_create_event to_deploy events) key") (auto simp: newest_create_event_def)
  next
    case False
    then have "mget (newest_create_event to_deploy (events @ [e])) key = mget (newest_create_event to_deploy events) key"
      by (auto simp: newest_create_event_def Let_def split: option.split)
    with snoc False show ?thesis by (simp only: new if_False)
  qed
qed

lemma stuck_findingD:
  assumes "stuck_finding u deps stses dses pods now w = Some f"
  shows "f_issue f = ''RolloutStuck'' \<and> w_findings w = [] \<and> \<not> restarting w \<and>
    f_confidence f = (if w_kind w = ''Deployment'' then ''high'' else ''medium'') \<and>
    (w_kind w \<noteq> ''Deployment'' \<longrightarrow> (\<forall>p\<in>set pods. p_namespace p = w_namespace w \<and> controlled_by p (w_kind w) (w_name w) \<and>
       \<not> pod_ready_cond p \<longrightarrow> rollout_grace \<le> time_sub now (p_created p)))"
  using assms
  by (auto simp: stuck_finding_def rollout_finding_def settled_def Let_def split: if_splits option.splits)

lemma confide_confidence: "f_confidence (confide f) \<noteq> []"
  by (auto simp: confide_def for_issue_def)

text \<open>
  What the scan adds to an assembled workload. The passes touch nothing but the findings and the annotations
  of flagged workloads and leave every other workload as it was; they add at most one finding: either
  \<open>FailedCreate\<close>, from a newest event of the workload's controller and only while pods are missing, or
  \<open>RolloutStuck\<close>, only if nothing else explains the workload and no pod of it is restarting, and for a stateful or
  daemon set only if every unready pod is past the grace period. Every finding ends with a confidence.
\<close>

theorem scan_adds:
  assumes "j < length ws" and "w_root_cause (ws ! j) = []" and "new = controller_finding u ed now (ws ! j)"
  shows "core (enrich u ed now ws ! j) = core (ws ! j) \<and>
    w_findings (enrich u ed now ws ! j) = map confide (w_findings (ws ! j) @ new) \<and>
    (\<forall>f\<in>set (w_findings (enrich u ed now ws ! j)). f_confidence f \<noteq> []) \<and>
    (flagged (ws ! j) \<or> enrich u ed now ws ! j = ws ! j) \<and> length new \<le> 1 \<and>
    (\<forall>f\<in>set new.
      (\<exists>e\<in>create_events (set_owners (ed_sets ed)) (w_kind (ws ! j) @ ''/'' @ w_namespace (ws ! j) @ ''/'' @ w_name (ws ! j)) (ed_create_events ed).
         f = create_finding u (ws ! j) e \<and> short_of_pods (ws ! j) \<and>
         (\<forall>e'\<in>create_events (set_owners (ed_sets ed)) (w_kind (ws ! j) @ ''/'' @ w_namespace (ws ! j) @ ''/'' @ w_name (ws ! j)) (ed_create_events ed).
            oe_last e' \<le> oe_last e)) \<or>
      f_issue f = ''RolloutStuck'' \<and> w_findings (ws ! j) = [] \<and> \<not> restarting (ws ! j) \<and>
      (w_kind (ws ! j) \<noteq> ''Deployment'' \<longrightarrow> (\<forall>p\<in>set (ed_pods ed). p_namespace p = w_namespace (ws ! j) \<and>
         controlled_by p (w_kind (ws ! j)) (w_name (ws ! j)) \<and> \<not> pod_ready_cond p \<longrightarrow> rollout_grace \<le> time_sub now (p_created p))))"
proof -
  let ?w = "ws ! j" and ?mid = "add_findings u ed now ws"
  let ?key = "w_kind ?w @ ''/'' @ w_namespace ?w @ ''/'' @ w_name ?w"
  have len: "length ?mid = length ws" by (simp add: add_findings_def annotate_stuck_def annotate_create_def)
  have mid: "?mid ! j = ?w\<lparr>w_findings := w_findings ?w @ new\<rparr>" using add_findings_nth assms by simp
  have fields: "core (enrich u ed now ws ! j) = core ?w" "w_findings (enrich u ed now ws ! j) = map confide (w_findings ?w @ new)"
    using attribute_nth assms(1) by (simp_all add: enrich_def rollout_nth len mid)
  moreover have "\<not> flagged ?w \<Longrightarrow> enrich u ed now ws ! j = ?w"
    using assms by (simp add: enrich_def attribute_unflagged rollout_nth len mid controller_finding_def)
  moreover have "length new \<le> 1" by (simp add: assms(3) controller_finding_def split: option.split)
  moreover have "(\<exists>e\<in>create_events (set_owners (ed_sets ed)) ?key (ed_create_events ed). f = create_finding u ?w e \<and> short_of_pods ?w \<and>
         (\<forall>e'\<in>create_events (set_owners (ed_sets ed)) ?key (ed_create_events ed). oe_last e' \<le> oe_last e)) \<or>
      stuck_finding u (ed_deployments ed) (ed_stateful_sets ed) (ed_daemon_sets ed) (ed_pods ed) now ?w = Some f"
    if "f \<in> set new" for f
    using that newest_create_event_get [of ?key "set_owners (ed_sets ed)" "ed_create_events ed"]
    by (auto simp: assms(3) controller_finding_def split: if_splits option.splits)
  ultimately show ?thesis using stuck_findingD confide_confidence by (auto dest!: stuck_findingD)
qed

definition starved :: workload where
  "starved = (blank_workload ''StatefulSet'' ''shop'' ''db'')\<lparr>w_desired := 2\<rparr>"

definition quota_event :: object_event where
  "quota_event = \<lparr>oe_kind = ''StatefulSet'', oe_namespace = ''shop'', oe_name = ''db'', oe_reason = ''FailedCreate'',
     oe_message = ''exceeded quota'', oe_last = 7\<rparr>"

definition starved_evidence :: scan_evidence where
  "starved_evidence = \<lparr>ed_sets = [], ed_create_events = [quota_event], ed_deployments = [], ed_stateful_sets = [],
     ed_daemon_sets = [], ed_pods = [], ed_pod_labels = [], ed_policies = [], ed_down = [], ed_pod_pvcs = [], ed_pvc_issues = []\<rparr>"

theorem scan_adds_witness:
  "w_findings (enrich small_tables starved_evidence 0 [starved] ! 0) = map confide [create_finding small_tables starved quota_event]"
proof -
  have "controller_finding small_tables starved_evidence 0 starved = [create_finding small_tables starved quota_event]"
    by (simp add: controller_finding_def starved_def blank_workload_def flagged_def short_of_pods_def starved_evidence_def
      newest_create_event_def quota_event_def event_workload_def set_owners_def)
  then show ?thesis
    using scan_adds [of 0 "[starved]" _ small_tables starved_evidence 0] by (simp add: starved_def blank_workload_def)
qed

section \<open>Only the last run of a cron job counts\<close>

lemma newest_job_max:
  "(\<And>b. newest_job (Some b) js = Some j \<Longrightarrow> (j = b \<or> j \<in> set js) \<and> jo_created b \<le> jo_created j \<and> (\<forall>k\<in>set js. jo_created k \<le> jo_created j))"
  "newest_job (Some b) js \<noteq> None"
  by (induction js arbitrary: b) (fastforce split: if_splits)+

lemma newest_job_None:
  "case newest_job None js of None \<Rightarrow> js = [] | Some j \<Rightarrow> j \<in> set js \<and> (\<forall>k\<in>set js. jo_created k \<le> jo_created j)"
  using newest_job_max by (cases js) (auto split: option.split)

text \<open>
  A cron job is reported as failed for its newest run only. If every newest run of a cron job has not failed, its
  workload is left as it is, whatever the runs before; if every newest run has failed it gets one finding and says so
  in its status.
\<close>

theorem cron_job_last_run:
  assumes "w_kind w = ''CronJob''" and "runs = cron_job_jobs jobs (w_namespace w @ ''/'' @ w_name w)" and "runs \<noteq> []"
    and "newest = {j\<in>set runs. \<forall>k\<in>set runs. jo_created k \<le> jo_created j}"
    and "failed = (\<lambda>j. \<exists>c\<in>set (jo_conditions j). pc_type c = ''Failed'' \<and> pc_status c = ''True'')"
  shows "((\<forall>j\<in>newest. \<not> failed j) \<longrightarrow> annotate_jobs_one u jobs w = w) \<and>
    ((\<forall>j\<in>newest. failed j) \<longrightarrow> (\<exists>f. annotate_jobs_one u jobs w = w\<lparr>w_findings := w_findings w @ [f], w_status := cron_failed_status\<rparr> \<and>
       f_issue f = ''JobFailed'' \<and> f_kind f = ''CronJob''))"
proof -
  obtain j where j: "newest_job None runs = Some j" "j \<in> newest"
    using newest_job_None [of runs] assms(3,4) by (auto split: option.splits)
  have finding: "(job_failed_finding u j wk True = None) = (\<not> failed j)"
    "job_failed_finding u j wk True = Some f \<Longrightarrow> f_issue f = ''JobFailed'' \<and> f_kind f = ''CronJob''" for wk f
    by (auto simp: job_failed_finding_def assms(5) find_None_iff find_Some_split Let_def split: option.splits)
  have "annotate_jobs_one u jobs w = (case job_failed_finding u j (w_namespace w @ ''/'' @ w_name w) True of None \<Rightarrow> w
      | Some f \<Rightarrow> w\<lparr>w_findings := w_findings w @ [f], w_status := cron_failed_status\<rparr>)"
    using j(1) by (simp add: annotate_jobs_one_def assms(1,2))
  with j(2) finding show ?thesis by (cases "job_failed_finding u j (w_namespace w @ ''/'' @ w_name w) True") auto
qed

definition cron_run :: "string \<Rightarrow> time \<Rightarrow> string \<Rightarrow> job_object" where
  "cron_run nm t failed = \<lparr>jo_namespace = ''shop'', jo_name = nm, jo_owners = [\<lparr>or_kind = ''CronJob'', or_name = ''report'', or_controller = Some True\<rparr>],
     jo_created = t, jo_conditions = [\<lparr>pc_type = ''Failed'', pc_status = failed, pc_reason = [], pc_message = []\<rparr>]\<rparr>"

theorem cron_job_last_run_witness:
  "annotate_jobs_one small_tables [cron_run ''a'' 10 ''True'', cron_run ''b'' 20 ''False''] (blank_workload ''CronJob'' ''shop'' ''report'')
    = blank_workload ''CronJob'' ''shop'' ''report''"
proof -
  let ?w = "blank_workload ''CronJob'' ''shop'' ''report''" and ?jobs = "[cron_run ''a'' 10 ''True'', cron_run ''b'' 20 ''False'']"
  have runs: "cron_job_jobs ?jobs (w_namespace ?w @ ''/'' @ w_name ?w) = ?jobs"
    by (simp add: cron_job_jobs_def owned_by_cron_job_def controlled_owner_def cron_run_def blank_workload_def)
  have kind: "w_kind ?w = ''CronJob''" by (simp add: blank_workload_def)
  have jobs: "?jobs \<noteq> []" by simp
  show ?thesis
    by (rule conjunct1 [OF cron_job_last_run [OF kind runs [symmetric] jobs refl refl, of small_tables], THEN mp])
      (auto simp: cron_run_def)
qed

end
