(* ===== verification/Service_Health.thy ===== *)
theory Service_Health
  imports Scan_Result Policy
begin

text \<open>
  What stands between a request and the pods: \<open>internal/svchealth\<close> (Services without ready endpoints or
  without an address), \<open>internal/ingresshealth\<close> (Ingress routes to such a Service) and
  \<open>internal/webhookhealth\<close> (admission webhooks whose backend is down). The labels of a pod are not among
  the fields of \<open>pod\<close> the other components read and come as a function.
\<close>

type_synonym labels = "(string, string) gomap"

record service_object =
  sv_namespace :: string
  sv_name :: string
  sv_type :: string
  sv_selector :: labels
  sv_annotations :: labels
  sv_created :: time
  sv_addresses :: nat
  sv_ports :: "(string \<times> int) list"

text \<open>An endpoint: whether its readiness is set and to what, and how many addresses it has.\<close>

record endpoint_slice =
  es_namespace :: string
  es_labels :: labels
  es_endpoints :: "(bool option \<times> nat) list"

record backend =
  bk_kind :: string
  bk_namespace :: string
  bk_labels :: labels
  bk_desired :: int
  bk_ephemeral :: bool

section \<open>Endpoints\<close>

definition service_name_label :: string where "service_name_label = ''kubernetes.io/service-name''"

definition ready_addresses :: "endpoint_slice \<Rightarrow> nat" where
  "ready_addresses sl = sum_list (map snd (filter (\<lambda>e. fst e \<noteq> Some False) (es_endpoints sl)))"

definition ready_endpoints :: "service_object \<Rightarrow> endpoint_slice list \<Rightarrow> nat" where
  "ready_endpoints s slices = sum_list (map ready_addresses (filter (\<lambda>sl. es_namespace sl = sv_namespace s \<and>
     mget_zero [] (es_labels sl) service_name_label = sv_name s) slices))"

section \<open>Backends\<close>

text \<open>\<open>BackendsFrom\<close>: a controller with its namespace, template labels and, where it has one, its replica count.\<close>

record controller =
  ct_namespace :: string
  ct_labels :: labels
  ct_replicas :: "int option"

definition replicated :: "string \<Rightarrow> controller \<Rightarrow> backend" where
  "replicated kind c = \<lparr>bk_kind = kind, bk_namespace = ct_namespace c, bk_labels = ct_labels c,
     bk_desired = (case ct_replicas c of None \<Rightarrow> 1 | Some n \<Rightarrow> n), bk_ephemeral = False\<rparr>"

definition per_node :: "controller \<times> int \<Rightarrow> backend" where
  "per_node c = \<lparr>bk_kind = ''DaemonSet'', bk_namespace = ct_namespace (fst c), bk_labels = ct_labels (fst c),
     bk_desired = snd c, bk_ephemeral = False\<rparr>"

definition passing :: "string \<Rightarrow> controller \<Rightarrow> backend" where
  "passing kind c = \<lparr>bk_kind = kind, bk_namespace = ct_namespace c, bk_labels = ct_labels c, bk_desired = 0, bk_ephemeral = True\<rparr>"

definition backends_from :: "controller list \<Rightarrow> controller list \<Rightarrow> (controller \<times> int) list \<Rightarrow> controller list \<Rightarrow> controller list \<Rightarrow> backend list" where
  "backends_from deploys sts ds jobs cronjobs =
    map (replicated ''Deployment'') deploys @ map (replicated ''StatefulSet'') sts @ map per_node ds @
    map (passing ''Job'') jobs @ map (passing ''CronJob'') cronjobs"

definition selector_matches :: "labels \<Rightarrow> labels \<Rightarrow> bool" where
  "selector_matches sel lab \<longleftrightarrow> sel \<noteq> [] \<and> (\<forall>(k, v)\<in>set sel. mget_zero [] lab k = v)"

definition expected_empty_annotation :: string where "expected_empty_annotation = ''kubeagent.io/expected-empty''"

definition annotated_expected_empty :: "service_object \<Rightarrow> bool" where
  "annotated_expected_empty s \<longleftrightarrow> map lower_char (mget_zero [] (sv_annotations s) expected_empty_annotation) = ''true''"

definition backing_reason :: "string \<Rightarrow> string" where
  "backing_reason kind = (if kind = ''Job'' \<or> kind = ''CronJob'' then ''expected between runs''
     else if kind = ''DaemonSet'' then ''0 desired'' else ''scaled to 0'')"

text \<open>A kind that is not in the table has order 0, the zero value.\<close>

definition backing_order :: "string \<Rightarrow> nat" where
  "backing_order kind = mget_zero 0 [(''CronJob'', 0), (''Job'', 1), (''DaemonSet'', 2), (''Deployment'', 3), (''StatefulSet'', 4)] kind"

definition pick_backing :: "backend list \<Rightarrow> backend" where
  "pick_backing ms = fold (\<lambda>b best. if backing_order (bk_kind b) < backing_order (bk_kind best) then b else best) (tl ms) (hd ms)"

definition backing_detail :: "backend \<Rightarrow> string" where
  "backing_detail b =
    (if bk_kind b = ''CronJob'' then ''no ready endpoints (backs CronJob'' @ dash @ ''expected between runs)''
     else if bk_kind b = ''Job'' then ''no ready endpoints (backs Job'' @ dash @ ''expected between runs)''
     else if bk_kind b = ''DaemonSet'' then ''no ready endpoints (backs DaemonSet'' @ dash @ ''0 desired)''
     else if bk_kind b = ''Deployment'' then ''no ready endpoints (backs Deployment'' @ dash @ ''scaled to 0)''
     else if bk_kind b = ''StatefulSet'' then ''no ready endpoints (backs StatefulSet'' @ dash @ ''scaled to 0)''
     else ''no ready endpoints'')"

definition matching_backends :: "service_object \<Rightarrow> backend list \<Rightarrow> backend list" where
  "matching_backends s bs = filter (\<lambda>b. bk_namespace b = sv_namespace s \<and> selector_matches (sv_selector s) (bk_labels b)) bs"

definition classify_backing :: "service_object \<Rightarrow> backend list \<Rightarrow> (string \<times> string) option" where
  "classify_backing s bs =
    (let ms = matching_backends s bs in
     if ms = [] then None
     else if \<exists>b\<in>set ms. \<not> bk_ephemeral b \<and> bk_desired b > 0 then None
     else let b = pick_backing ms in Some (bk_kind b, backing_detail b))"

definition expected_empty :: "service_object \<Rightarrow> backend list \<Rightarrow> string option" where
  "expected_empty s bs =
    (if annotated_expected_empty s then Some (''declared via '' @ expected_empty_annotation)
     else map_option (\<lambda>c. backing_reason (fst c)) (classify_backing s bs))"

section \<open>Services\<close>

definition blank_service_issue :: "service_object \<Rightarrow> string \<Rightarrow> string \<Rightarrow> service_issue" where
  "blank_service_issue s problem detail = \<lparr>si_namespace = sv_namespace s, si_name = sv_name s, si_type = sv_type s,
     si_problem = problem, si_detail = detail, si_since = [], si_expected = False, si_backing = []\<rparr>"

definition no_address :: "service_object \<Rightarrow> service_issue list" where
  "no_address s =
    (if sv_type s = ''LoadBalancer'' \<and> sv_addresses s = 0
     then [(blank_service_issue s ''NoExternalAddress'' ''no external address'')
       \<lparr>si_since := (if is_zero_time (sv_created s) then [] else rfc3339 (sv_created s))\<rparr>]
     else [])"

definition no_endpoints :: "endpoint_slice list \<Rightarrow> backend list \<Rightarrow> service_object \<Rightarrow> service_issue list" where
  "no_endpoints slices bs s =
    (if sv_selector s = [] \<or> ready_endpoints s slices \<noteq> 0 then []
     else let i = blank_service_issue s ''NoEndpoints'' ''no ready endpoints'' in
       [case classify_backing s bs of
          Some c \<Rightarrow> i\<lparr>si_expected := True, si_backing := fst c, si_detail := snd c\<rparr>
        | None \<Rightarrow>
            if annotated_expected_empty s
            then i\<lparr>si_expected := True, si_detail := ''no ready endpoints'' @ dash @ ''declared via '' @ expected_empty_annotation\<rparr>
            else i])"

definition service_issue_less :: "service_issue \<Rightarrow> service_issue \<Rightarrow> bool" where
  "service_issue_less a b =
    (if si_namespace a \<noteq> si_namespace b then si_namespace a < si_namespace b
     else if si_name a \<noteq> si_name b then si_name a < si_name b else si_problem a < si_problem b)"

definition service_issues :: "endpoint_slice list \<Rightarrow> backend list \<Rightarrow> service_object \<Rightarrow> service_issue list" where
  "service_issues slices bs s = (if sv_type s = ''ExternalName'' then [] else no_address s @ no_endpoints slices bs s)"

definition assess_services :: "service_object list \<Rightarrow> endpoint_slice list \<Rightarrow> backend list \<Rightarrow> service_issue list" where
  "assess_services services slices bs = sort_slice service_issue_less (concat (map (service_issues slices bs) services))"

section \<open>Causes\<close>

definition ready_pod :: "pod \<Rightarrow> bool" where
  "ready_pod p \<longleftrightarrow> (case find (\<lambda>c. pc_type c = ''Ready'') (p_conditions p) of None \<Rightarrow> False | Some c \<Rightarrow> pc_status c = ''True'')"

text \<open>The down nodes the pods are on, each once, in the order of the pods.\<close>

definition down_hits :: "(string, string) gomap \<Rightarrow> pod list \<Rightarrow> string list" where
  "down_hits down ps = map (\<lambda>n. n @ '' ('' @ mget_zero [] down n @ '')'')
     (fold (\<lambda>p seen. let n = p_node p in
        if n = [] \<or> n \<in> set seen then seen else if mget down n = None then seen else seen @ [n]) ps [])"

definition endpoint_cause :: "(pod \<Rightarrow> labels) \<Rightarrow> service_object \<Rightarrow> pod list \<Rightarrow> (string, string) gomap \<Rightarrow> string" where
  "endpoint_cause lab s pods down =
    (let ms = filter (\<lambda>p. p_namespace p = sv_namespace s \<and> selector_matches (sv_selector s) (lab p)) pods in
     if ms = [] then ''the selector matches no pods''
     else let hits = down_hits down ms in
       if length hits = 1 then ''matching pods on down node '' @ hd hits
       else if length hits > 1 then ''matching pods on '' @ itoa (int (length hits)) @ '' down nodes''
       else if filter ready_pod ms = []
       then itoa (int (length ms)) @ '' matching '' @ (if length ms = 1 then ''pod'' else ''pods'') @ '', 0 ready''
       else [])"

definition down_map :: "(string \<times> string) list \<Rightarrow> (string, string) gomap" where
  "down_map down = fold (\<lambda>(n, r). mput n r) down []"

definition endpoint_cause_of :: "(pod \<Rightarrow> labels) \<Rightarrow> service_object \<Rightarrow> pod list \<Rightarrow> (string \<times> string) list \<Rightarrow> string" where
  "endpoint_cause_of lab s pods down = endpoint_cause lab s pods (down_map down)"

definition service_map :: "service_object list \<Rightarrow> (string, service_object) gomap" where
  "service_map services = fold (\<lambda>s. mput (sv_namespace s @ ''/'' @ sv_name s) s) services []"

definition annotate_cause :: "(pod \<Rightarrow> labels) \<Rightarrow> (string, service_object) gomap \<Rightarrow> pod list \<Rightarrow> (string, string) gomap \<Rightarrow> service_issue \<Rightarrow> service_issue" where
  "annotate_cause lab by_id pods down i =
    (if si_problem i \<noteq> ''NoEndpoints'' \<or> si_expected i then i
     else (case mget by_id (si_namespace i @ ''/'' @ si_name i) of
       None \<Rightarrow> i
     | Some s \<Rightarrow> let cause = endpoint_cause lab s pods down in
         if cause \<noteq> [] then i\<lparr>si_detail := ''no ready endpoints'' @ dash @ cause\<rparr> else i))"

definition annotate_endpoint_cause :: "(pod \<Rightarrow> labels) \<Rightarrow> service_issue list \<Rightarrow> service_object list \<Rightarrow> pod list \<Rightarrow> (string \<times> string) list \<Rightarrow> service_issue list" where
  "annotate_endpoint_cause lab issues services pods down =
    map (annotate_cause lab (service_map services) pods (down_map down)) issues"

section \<open>Ingress routes\<close>

record backend_port =
  bp_name :: string
  bp_number :: int

record ingress_backend =
  ib_name :: string
  ib_port :: backend_port

text \<open>A backend that is no Service (a Resource) is \<open>None\<close>; so is a rule without HTTP paths.\<close>

record ingress_object =
  ig_namespace :: string
  ig_name :: string
  ig_default :: "ingress_backend option"
  ig_rules :: "(string \<times> (string \<times> ingress_backend option) list option) list"

definition port_string :: "backend_port \<Rightarrow> string" where
  "port_string p = (if bp_name p \<noteq> [] then bp_name p else if bp_number p \<noteq> 0 then itoa (bp_number p) else [])"

definition port_matches :: "backend_port \<Rightarrow> service_object \<Rightarrow> bool" where
  "port_matches p s \<longleftrightarrow> (bp_name p = [] \<and> bp_number p = 0) \<or>
     (\<exists>sp\<in>set (sv_ports s). (bp_name p \<noteq> [] \<and> fst sp = bp_name p) \<or> (bp_number p \<noteq> 0 \<and> snd sp = bp_number p))"

record route_env =
  re_services :: "(string, service_object) gomap"
  re_slices :: "endpoint_slice list"
  re_backends :: "backend list"
  re_labels :: "pod \<Rightarrow> labels"
  re_pods :: "pod list"
  re_down :: "(string \<times> string) list"

definition check_route :: "route_env \<Rightarrow> string \<Rightarrow> string \<Rightarrow> string \<Rightarrow> string \<Rightarrow> ingress_backend \<Rightarrow> route_issue option" where
  "check_route env ns ing host path be =
    (let port = port_string (ib_port be);
         r = \<lparr>ri_namespace = ns, ri_ingress = ing, ri_host = host, ri_path = path, ri_service = ib_name be, ri_port = port,
              ri_problem = [], ri_detail = [], ri_expected = False\<rparr> in
     case mget (re_services env) (ns @ ''/'' @ ib_name be) of
       None \<Rightarrow> Some (r\<lparr>ri_problem := ''NoService'', ri_detail := ''backend Service '' @ ib_name be @ '' not found''\<rparr>)
     | Some s \<Rightarrow>
         if sv_type s = ''ExternalName'' then None
         else if sv_selector s = [] then None
         else if ready_endpoints s (re_slices env) = 0
         then (case expected_empty s (re_backends env) of
             Some rsn \<Rightarrow> Some (r\<lparr>ri_problem := ''NoEndpoints'', ri_expected := True,
               ri_detail := ''backend Service '' @ ib_name be @ '' is intentionally empty ('' @ rsn @ '')'' @ dash @ ''route parked''\<rparr>)
           | None \<Rightarrow>
               let base = (if port \<noteq> [] \<and> port_matches (ib_port be) s
                     then ''backend Service '' @ ib_name be @ '':'' @ port @ '' has no ready endpoints (likely 502/503)''
                     else ''backend Service '' @ ib_name be @ '' has no ready endpoints (likely 502/503)'');
                   cause = endpoint_cause_of (re_labels env) s (re_pods env) (re_down env)
               in Some (r\<lparr>ri_problem := ''NoEndpoints'', ri_detail := (if cause \<noteq> [] then base @ dash @ cause else base)\<rparr>))
         else if \<not> port_matches (ib_port be) s
         then Some (r\<lparr>ri_problem := ''PortNotExposed'', ri_detail := ''backend Service '' @ ib_name be @ '' does not expose port '' @ port\<rparr>)
         else None)"

definition ingress_routes :: "ingress_object \<Rightarrow> (string \<times> string \<times> ingress_backend) list" where
  "ingress_routes ing =
    (case ig_default ing of None \<Rightarrow> [] | Some be \<Rightarrow> [([], [], be)]) @
    concat (map (\<lambda>(host, paths). case paths of None \<Rightarrow> []
      | Some ps \<Rightarrow> List.map_filter (\<lambda>(path, be). map_option (\<lambda>b. (host, path, b)) be) ps) (ig_rules ing))"

definition check_ingress :: "route_env \<Rightarrow> ingress_object \<Rightarrow> route_issue list" where
  "check_ingress env ing = List.map_filter (\<lambda>(host, path, be). check_route env (ig_namespace ing) (ig_name ing) host path be)
     (ingress_routes ing)"

definition assess_ingresses :: "(pod \<Rightarrow> labels) \<Rightarrow> ingress_object list \<Rightarrow> service_object list \<Rightarrow> endpoint_slice list \<Rightarrow> backend list \<Rightarrow>
    pod list \<Rightarrow> (string \<times> string) list \<Rightarrow> route_issue list" where
  "assess_ingresses lab ings services slices bs pods down =
    concat (map (check_ingress \<lparr>re_services = service_map services, re_slices = slices, re_backends = bs, re_labels = lab,
      re_pods = pods, re_down = down\<rparr>) ings)"

section \<open>Admission webhooks\<close>

record hook =
  hk_kind :: string
  hk_config :: string
  hk_name :: string
  hk_policy :: "string option"
  hk_service :: "(string \<times> string) option"
  hk_url :: "string option"
  hk_timeout :: "int option"
  hk_has_rules :: bool

definition fails_closed :: "string option \<Rightarrow> bool" where
  "fails_closed fp \<longleftrightarrow> fp = None \<or> fp = Some ''Fail''"

definition at_least_sign :: string where "at_least_sign = bytes [226, 137, 165]"

definition timeout_suffix :: "int option \<Rightarrow> int \<Rightarrow> string" where
  "timeout_suffix timeout limit =
    (case timeout of None \<Rightarrow> []
     | Some t \<Rightarrow> if t < limit then [] else '' (and timeoutSeconds '' @ itoa t @ '' '' @ at_least_sign @ '' '' @ itoa limit @ ''s)'')"

definition find_service :: "service_object list \<Rightarrow> string \<Rightarrow> string \<Rightarrow> service_object option" where
  "find_service services ns nm = find (\<lambda>s. sv_namespace s = ns \<and> sv_name s = nm) services"

text \<open>What the backend of a hook is flagged with: the problem and the start of the reason.\<close>

definition backend_problem :: "service_object list \<Rightarrow> endpoint_slice list \<Rightarrow> string \<times> string \<Rightarrow> (string \<times> string) option" where
  "backend_problem services slices ref =
    (let ident = fst ref @ ''/'' @ snd ref in
     case find_service services (fst ref) (snd ref) of
       None \<Rightarrow> Some (''MissingService'', ''backend Service '' @ ident @ '' does not exist'' @ dash @
         ''failurePolicy Fail rejects every intercepted create/update'')
     | Some s \<Rightarrow>
         if sv_type s = ''ExternalName'' then None
         else if ready_endpoints s slices = 0
         then Some (''NoEndpoints'', ''backend Service '' @ ident @ '' has no ready endpoints'' @ dash @
           ''failurePolicy Fail rejects every intercepted create/update'')
         else None)"

definition assess_hook :: "service_object list \<Rightarrow> endpoint_slice list \<Rightarrow> int \<Rightarrow> hook \<Rightarrow> webhook_issue option" where
  "assess_hook services slices limit h =
    (let ident = (case hk_service h of None \<Rightarrow> [] | Some ref \<Rightarrow> fst ref @ ''/'' @ snd ref);
         i = \<lparr>wi_kind = hk_kind h, wi_config = hk_config h, wi_webhook = hk_name h, wi_service = ident, wi_problem = [], wi_reason = []\<rparr>
     in case (case hk_service h of None \<Rightarrow> None | Some ref \<Rightarrow> backend_problem services slices ref) of
          Some p \<Rightarrow> Some (i\<lparr>wi_problem := fst p, wi_reason := snd p @ timeout_suffix (hk_timeout h) limit\<rparr>)
        | None \<Rightarrow>
            (case hk_timeout h of
               None \<Rightarrow> None
             | Some t \<Rightarrow>
                 if t \<ge> limit
                 then Some (i\<lparr>wi_problem := ''HighTimeout'', wi_reason := ''timeoutSeconds '' @ itoa t @ '' '' @ at_least_sign @ '' '' @ itoa limit @
                   ''s under failurePolicy Fail'' @ dash @ ''a slow webhook blocks every intercepted create/update for up to '' @ itoa t @
                   ''s, then rejects it''\<rparr>)
                 else None))"

definition in_hook_scope :: "hook \<Rightarrow> bool" where
  "in_hook_scope h \<longleftrightarrow> fails_closed (hk_policy h) \<and> hk_has_rules h"

definition webhook_less :: "webhook_issue \<Rightarrow> webhook_issue \<Rightarrow> bool" where
  "webhook_less a b =
    (if wi_kind a \<noteq> wi_kind b then wi_kind a < wi_kind b
     else if wi_config a \<noteq> wi_config b then wi_config a < wi_config b else wi_webhook a < wi_webhook b)"

definition assess_webhooks :: "hook list \<Rightarrow> hook list \<Rightarrow> service_object list \<Rightarrow> endpoint_slice list \<Rightarrow> int \<Rightarrow> webhook_issue list \<times> nat" where
  "assess_webhooks validating mutating services slices limit =
    (let hs = filter in_hook_scope (validating @ mutating) in
     (sort_slice webhook_less (List.map_filter (assess_hook services slices limit) hs),
      length (filter (\<lambda>h. hk_service h = None \<and> hk_url h \<noteq> None) hs)))"

section \<open>What the three agree on\<close>

lemma ready_endpoints_zero_iff:
  "ready_endpoints s slices = 0 \<longleftrightarrow> \<not> (\<exists>sl\<in>set slices. es_namespace sl = sv_namespace s \<and>
     mget_zero [] (es_labels sl) service_name_label = sv_name s \<and> (\<exists>e\<in>set (es_endpoints sl). fst e \<noteq> Some False \<and> 0 < snd e))"
  by (simp add: ready_endpoints_def ready_addresses_def sum_list_eq_0_iff) (fastforce simp: image_iff)

text \<open>A Service whose emptiness its workloads explain, or the operator declared.\<close>

definition excused :: "backend list \<Rightarrow> service_object \<Rightarrow> bool" where
  "excused bs s \<longleftrightarrow> annotated_expected_empty s \<or>
     (matching_backends s bs \<noteq> [] \<and> (\<forall>b\<in>set (matching_backends s bs). bk_ephemeral b \<or> bk_desired b \<le> 0))"

lemma classify_backing_iff:
  "classify_backing s bs \<noteq> None \<longleftrightarrow>
    matching_backends s bs \<noteq> [] \<and> (\<forall>b\<in>set (matching_backends s bs). bk_ephemeral b \<or> bk_desired b \<le> 0)"
  by (auto simp: classify_backing_def Let_def not_less)

lemma expected_empty_iff: "expected_empty s bs \<noteq> None \<longleftrightarrow> excused bs s"
  using classify_backing_iff [of s bs] by (auto simp: expected_empty_def excused_def)

definition empty_service :: "endpoint_slice list \<Rightarrow> service_object \<Rightarrow> bool" where
  "empty_service slices s \<longleftrightarrow> sv_type s \<noteq> ''ExternalName'' \<and> sv_selector s \<noteq> [] \<and> ready_endpoints s slices = 0"

lemma blank_service_issue_fields [simp]:
  "si_namespace (blank_service_issue s p d) = sv_namespace s" "si_name (blank_service_issue s p d) = sv_name s"
  "si_problem (blank_service_issue s p d) = p" "si_expected (blank_service_issue s p d) = False"
  by (simp_all add: blank_service_issue_def)

lemma service_issues_endpoints:
  "(\<exists>i\<in>set (service_issues slices bs s). si_problem i = ''NoEndpoints'' \<and> si_expected i = e) \<longleftrightarrow>
    empty_service slices s \<and> e = excused bs s"
  using classify_backing_iff [of s bs]
  by (auto simp: service_issues_def no_address_def no_endpoints_def empty_service_def excused_def Let_def split: option.splits)

lemma service_issues_ref: "i \<in> set (service_issues slices bs s) \<Longrightarrow> si_namespace i = sv_namespace s \<and> si_name i = sv_name s"
  by (auto simp: service_issues_def no_address_def no_endpoints_def Let_def split: if_splits option.splits)

lemma assess_services_endpoints:
  assumes "s \<in> set services" and "distinct (map (\<lambda>s. (sv_namespace s, sv_name s)) services)"
  shows "(\<exists>i\<in>set (assess_services services slices bs). si_namespace i = sv_namespace s \<and> si_name i = sv_name s \<and>
      si_problem i = ''NoEndpoints'' \<and> si_expected i = e) \<longleftrightarrow> empty_service slices s \<and> e = excused bs s"
proof -
  have "(\<exists>i\<in>set (assess_services services slices bs). si_namespace i = sv_namespace s \<and> si_name i = sv_name s \<and>
      si_problem i = ''NoEndpoints'' \<and> si_expected i = e) \<longleftrightarrow>
    (\<exists>i\<in>set (service_issues slices bs s). si_problem i = ''NoEndpoints'' \<and> si_expected i = e)"
  proof
    assume "\<exists>i\<in>set (assess_services services slices bs). si_namespace i = sv_namespace s \<and> si_name i = sv_name s \<and>
      si_problem i = ''NoEndpoints'' \<and> si_expected i = e"
    then obtain i s' where w: "s' \<in> set services" "i \<in> set (service_issues slices bs s')" "si_namespace i = sv_namespace s"
      "si_name i = sv_name s" "si_problem i = ''NoEndpoints''" "si_expected i = e"
      by (auto simp: assess_services_def)
    with service_issues_ref [OF w(2)] have "s' = s" using assms by (auto simp: distinct_map inj_on_def)
    with w show "\<exists>i\<in>set (service_issues slices bs s). si_problem i = ''NoEndpoints'' \<and> si_expected i = e" by blast
  next
    assume "\<exists>i\<in>set (service_issues slices bs s). si_problem i = ''NoEndpoints'' \<and> si_expected i = e"
    with assms(1) service_issues_ref show "\<exists>i\<in>set (assess_services services slices bs). si_namespace i = sv_namespace s \<and>
      si_name i = sv_name s \<and> si_problem i = ''NoEndpoints'' \<and> si_expected i = e"
      by (fastforce simp: assess_services_def)
  qed
  then show ?thesis by (simp add: service_issues_endpoints)
qed

lemma check_route_endpoints:
  assumes "mget (re_services env) (ns @ ''/'' @ ib_name be) = Some s"
  shows "(\<exists>r. check_route env ns ing host path be = Some r \<and> ri_problem r = ''NoEndpoints'' \<and> ri_expected r = e) \<longleftrightarrow>
    empty_service (re_slices env) s \<and> e = excused (re_backends env) s"
  using assms expected_empty_iff [of s "re_backends env"]
  by (auto simp: check_route_def empty_service_def Let_def split: option.splits)

definition service_key :: "service_object \<Rightarrow> string" where
  "service_key s = sv_namespace s @ ''/'' @ sv_name s"

lemma service_map_get:
  assumes "s \<in> set services" and "distinct (map service_key services)"
  shows "mget (service_map services) (service_key s) = Some s"
  using assms
proof (induction services rule: rev_induct)
  case (snoc x services)
  have m: "service_map (services @ [x]) = mput (service_key x) x (service_map services)"
    by (simp add: service_map_def service_key_def)
  show ?case using snoc by (auto simp: m image_iff)
qed simp

lemma check_route_fields: "check_route env ns ing host path be = Some r \<Longrightarrow> ri_namespace r = ns \<and> ri_service r = ib_name be"
  by (auto simp: check_route_def Let_def split: option.splits if_splits)

lemma assess_ingresses_in:
  "r \<in> set (assess_ingresses lab ings services slices bs pods down) \<longleftrightarrow>
    (\<exists>ing\<in>set ings. \<exists>host path be. (host, path, be) \<in> set (ingress_routes ing) \<and>
       check_route \<lparr>re_services = service_map services, re_slices = slices, re_backends = bs, re_labels = lab,
         re_pods = pods, re_down = down\<rparr> (ig_namespace ing) (ig_name ing) host path be = Some r)"
  by (auto simp: assess_ingresses_def check_ingress_def set_map_filter) (force+)

lemma filter_map_filter_one:
  assumes "distinct xs" and "\<And>x i. x \<in> set xs \<Longrightarrow> f x = Some i \<Longrightarrow> P i \<Longrightarrow> x = h" and "\<And>i. f h = Some i \<Longrightarrow> P i"
  shows "filter P (List.map_filter f xs) = (if h \<in> set xs then (case f h of None \<Rightarrow> [] | Some i \<Rightarrow> [i]) else [])"
  using assms(1,2)
proof (induction xs)
  case (Cons x xs)
  then have IH: "filter P (List.map_filter f xs) = (if h \<in> set xs then (case f h of None \<Rightarrow> [] | Some i \<Rightarrow> [i]) else [])" by simp
  show ?case
  proof (cases "x = h")
    case True
    then show ?thesis using IH Cons.prems(1) assms(3) by (cases "f h") auto
  next
    case False
    then show ?thesis using IH Cons.prems(2) [of x] by (cases "f x") auto
  qed
qed simp

lemma hook_problem:
  "map_option wi_problem (assess_hook services slices limit h) =
    (if \<exists>ns nm. hk_service h = Some (ns, nm) \<and> (\<forall>s\<in>set services. \<not> (sv_namespace s = ns \<and> sv_name s = nm)) then Some ''MissingService''
     else if \<exists>ns nm s. hk_service h = Some (ns, nm) \<and> find_service services ns nm = Some s \<and> sv_type s \<noteq> ''ExternalName'' \<and>
        ready_endpoints s slices = 0 then Some ''NoEndpoints''
     else if \<exists>t. hk_timeout h = Some t \<and> limit \<le> t then Some ''HighTimeout'' else None)"
proof (cases "hk_service h")
  case None
  then show ?thesis by (cases "hk_timeout h") (simp_all add: assess_hook_def Let_def)
next
  case (Some ref)
  obtain ns nm where [simp]: "ref = (ns, nm)" by (cases ref)
  have missing: "find_service services ns nm = None \<longleftrightarrow> (\<forall>s\<in>set services. \<not> (sv_namespace s = ns \<and> sv_name s = nm))"
    by (auto simp: find_service_def find_None_iff)
  show ?thesis
  proof (cases "find_service services ns nm")
    case None
    then show ?thesis using Some missing by (simp add: assess_hook_def backend_problem_def Let_def)
  next
    case (Some s)
    then have "\<not> (\<forall>s\<in>set services. \<not> (sv_namespace s = ns \<and> sv_name s = nm))" using missing by simp
    with Some \<open>hk_service h = Some ref\<close> show ?thesis
      by (cases "hk_timeout h") (simp_all add: assess_hook_def backend_problem_def Let_def)
  qed
qed

definition issues_of_hook :: "hook \<Rightarrow> webhook_issue list \<Rightarrow> webhook_issue list" where
  "issues_of_hook h xs = filter (\<lambda>i. wi_kind i = hk_kind h \<and> wi_config i = hk_config h \<and> wi_webhook i = hk_name h) xs"

section \<open>Properties\<close>

text \<open>
  C39. The Service view and the Ingress view agree: for a Service that some Ingress of its namespace
  routes to, the Services list it as without endpoints exactly when the Ingresses list such a
  route, and both say that this is expected, or both that it is not. They do so exactly when the
  Service has a selector, is no ExternalName, and has no ready address in its slices; it is
  expected exactly when the operator declared it or some workload matches its selector and none
  of the matching ones wants pods all the time.
\<close>

theorem ingress_agrees:
  assumes "s \<in> set services" and "distinct (map service_key services)"
    and "ing \<in> set ings" and "(host, path, be) \<in> set (ingress_routes ing)"
    and "ig_namespace ing = sv_namespace s" and "ib_name be = sv_name s"
  shows "((\<exists>i\<in>set (assess_services services slices bs). si_namespace i = sv_namespace s \<and> si_name i = sv_name s \<and>
        si_problem i = ''NoEndpoints'' \<and> si_expected i = e) \<longleftrightarrow>
      (\<exists>r\<in>set (assess_ingresses lab ings services slices bs pods down). ri_namespace r = sv_namespace s \<and>
        ri_service r = sv_name s \<and> ri_problem r = ''NoEndpoints'' \<and> ri_expected r = e)) \<and>
    ((\<exists>i\<in>set (assess_services services slices bs). si_namespace i = sv_namespace s \<and> si_name i = sv_name s \<and>
        si_problem i = ''NoEndpoints'' \<and> si_expected i = e) \<longleftrightarrow> empty_service slices s \<and> e = excused bs s)"
proof -
  let ?env = "\<lparr>re_services = service_map services, re_slices = slices, re_backends = bs, re_labels = lab,
    re_pods = pods, re_down = down\<rparr>"
  have d: "distinct (map (\<lambda>s. (sv_namespace s, sv_name s)) services)"
    using assms(2) by (auto simp: distinct_map inj_on_def service_key_def)
  have m: "mget (re_services ?env) (sv_namespace s @ ''/'' @ sv_name s) = Some s"
    using service_map_get [OF assms(1,2)] by (simp add: service_key_def)
  have "(\<exists>r\<in>set (assess_ingresses lab ings services slices bs pods down). ri_namespace r = sv_namespace s \<and>
      ri_service r = sv_name s \<and> ri_problem r = ''NoEndpoints'' \<and> ri_expected r = e) \<longleftrightarrow> empty_service slices s \<and> e = excused bs s"
  proof
    assume "\<exists>r\<in>set (assess_ingresses lab ings services slices bs pods down). ri_namespace r = sv_namespace s \<and>
      ri_service r = sv_name s \<and> ri_problem r = ''NoEndpoints'' \<and> ri_expected r = e"
    then obtain r where "r \<in> set (assess_ingresses lab ings services slices bs pods down)"
      and f: "ri_namespace r = sv_namespace s" "ri_service r = sv_name s" "ri_problem r = ''NoEndpoints''" "ri_expected r = e"
      by blast
    then obtain ns' nm' host' path' be' where w: "check_route ?env ns' nm' host' path' be' = Some r"
      unfolding assess_ingresses_in by blast
    with check_route_fields [OF w] f have "mget (re_services ?env) (ns' @ ''/'' @ ib_name be') = Some s"
      using m by simp
    from check_route_endpoints [OF this, of nm' host' path' e] check_route_fields [OF w] w f
    show "empty_service slices s \<and> e = excused bs s" by auto
  next
    assume es: "empty_service slices s \<and> e = excused bs s"
    have "mget (re_services ?env) (ig_namespace ing @ ''/'' @ ib_name be) = Some s" using m assms(5,6) by simp
    from check_route_endpoints [OF this, of "ig_name ing" host path e] es obtain r where
      r: "check_route ?env (ig_namespace ing) (ig_name ing) host path be = Some r" "ri_problem r = ''NoEndpoints''" "ri_expected r = e"
      by auto
    then have "r \<in> set (assess_ingresses lab ings services slices bs pods down)"
      using assms(3,4) by (force simp: assess_ingresses_in)
    with r check_route_fields [OF r(1)] assms(5,6)
    show "\<exists>r\<in>set (assess_ingresses lab ings services slices bs pods down). ri_namespace r = sv_namespace s \<and>
      ri_service r = sv_name s \<and> ri_problem r = ''NoEndpoints'' \<and> ri_expected r = e" by auto
  qed
  with assess_services_endpoints [OF assms(1) d] show ?thesis by blast
qed

definition web_service :: service_object where
  "web_service = \<lparr>sv_namespace = ''prod'', sv_name = ''web'', sv_type = ''ClusterIP'', sv_selector = [(''app'', ''web'')],
     sv_annotations = [], sv_created = 0, sv_addresses = 0, sv_ports = [(''http'', 80)]\<rparr>"

definition web_ingress :: ingress_object where
  "web_ingress = \<lparr>ig_namespace = ''prod'', ig_name = ''ing'', ig_default = Some \<lparr>ib_name = ''web'', ib_port = \<lparr>bp_name = [], bp_number = 80\<rparr>\<rparr>,
     ig_rules = []\<rparr>"

definition parked_backend :: backend where
  "parked_backend = \<lparr>bk_kind = ''Deployment'', bk_namespace = ''prod'', bk_labels = [(''app'', ''web'')], bk_desired = 0, bk_ephemeral = False\<rparr>"

theorem ingress_agrees_witness:
  "(\<exists>r\<in>set (assess_ingresses (\<lambda>_. []) [web_ingress] [web_service] [] [parked_backend] [] []). ri_namespace r = ''prod'' \<and>
     ri_service r = ''web'' \<and> ri_problem r = ''NoEndpoints'' \<and> ri_expected r = True)"
proof -
  have es: "empty_service [] web_service" "excused [parked_backend] web_service"
    by (simp_all add: empty_service_def web_service_def ready_endpoints_def excused_def matching_backends_def parked_backend_def
        selector_matches_def mget_zero_def)
  have n: "sv_namespace web_service = ''prod''" "sv_name web_service = ''web''" by (simp_all add: web_service_def)
  have h: "web_service \<in> set [web_service]" "distinct (map service_key [web_service])" "web_ingress \<in> set [web_ingress]"
    "([], [], \<lparr>ib_name = ''web'', ib_port = \<lparr>bp_name = [], bp_number = 80\<rparr>\<rparr>) \<in> set (ingress_routes web_ingress)"
    "ig_namespace web_ingress = sv_namespace web_service"
    "ib_name \<lparr>ib_name = ''web'', ib_port = \<lparr>bp_name = [], bp_number = 80\<rparr>\<rparr> = sv_name web_service"
    by (simp_all add: ingress_routes_def web_ingress_def web_service_def)
  from ingress_agrees [OF h, of "[]" "[parked_backend]" True "\<lambda>_. []" "[]" "[]"] es show ?thesis
    unfolding n by blast
qed

text \<open>
  What is listed for a webhook: nothing unless it fails closed and intercepts something; then its
  Service is missing, or it is no ExternalName and has no ready address; only when neither holds, a
  timeout at or above the threshold. A webhook has at most one issue, and the ones that
  are called by URL are counted, not judged.
\<close>

theorem webhook_issues:
  assumes "h \<in> set (validating @ mutating)"
    and "distinct (map (\<lambda>h. (hk_kind h, hk_config h, hk_name h)) (validating @ mutating))"
  shows "map wi_problem (issues_of_hook h (fst (assess_webhooks validating mutating services slices limit))) =
    (if \<not> in_hook_scope h then []
     else if \<exists>ns nm. hk_service h = Some (ns, nm) \<and> (\<forall>s\<in>set services. \<not> (sv_namespace s = ns \<and> sv_name s = nm)) then [''MissingService'']
     else if \<exists>ns nm s. hk_service h = Some (ns, nm) \<and> find_service services ns nm = Some s \<and> sv_type s \<noteq> ''ExternalName'' \<and>
        ready_endpoints s slices = 0 then [''NoEndpoints'']
     else if \<exists>t. hk_timeout h = Some t \<and> limit \<le> t then [''HighTimeout''] else [])"
proof -
  let ?mine = "issues_of_hook h (fst (assess_webhooks validating mutating services slices limit))"
  let ?P = "\<lambda>i. wi_kind i = hk_kind h \<and> wi_config i = hk_config h \<and> wi_webhook i = hk_name h"
  let ?a = "assess_hook services slices limit"
  have ref: "?a x = Some i \<Longrightarrow> wi_kind i = hk_kind x \<and> wi_config i = hk_config x \<and> wi_webhook i = hk_name x" for x i
    by (auto simp: assess_hook_def Let_def split: option.splits if_splits)
  let ?hs = "filter in_hook_scope (validating @ mutating)"
  have "x = h" if "x \<in> set ?hs" "?a x = Some i" "?P i" for x i
  proof (rule inj_onD)
    show "inj_on (\<lambda>h. (hk_kind h, hk_config h, hk_name h)) (set (validating @ mutating))"
      using assms(2) by (simp only: distinct_map)
    show "(hk_kind x, hk_config x, hk_name x) = (hk_kind h, hk_config h, hk_name h)"
      using ref [OF that(2)] that(3) by (metis (no_types))
    show "x \<in> set (validating @ mutating)" using that(1) by auto
    show "h \<in> set (validating @ mutating)" by (rule assms(1))
  qed
  moreover have "?P i" if "?a h = Some i" for i using ref [OF that] by simp
  moreover have "distinct ?hs" using assms(2) by (metis distinct_filter distinct_map)
  ultimately have "filter ?P (List.map_filter ?a ?hs) = (if h \<in> set ?hs then (case ?a h of None \<Rightarrow> [] | Some i \<Rightarrow> [i]) else [])"
    by (intro filter_map_filter_one) blast+
  then have "filter ?P (List.map_filter ?a ?hs) = (if in_hook_scope h then (case ?a h of None \<Rightarrow> [] | Some i \<Rightarrow> [i]) else [])"
    using assms(1) by auto
  moreover have "mset ?mine = mset (filter ?P (List.map_filter ?a ?hs))"
    unfolding issues_of_hook_def assess_webhooks_def Let_def fst_conv mset_filter mset_sort_slice ..
  ultimately have "mset ?mine = mset (if in_hook_scope h then (case ?a h of None \<Rightarrow> [] | Some i \<Rightarrow> [i]) else [])"
    by simp
  then have "?mine = (if in_hook_scope h then (case ?a h of None \<Rightarrow> [] | Some i \<Rightarrow> [i]) else [])"
    by (auto split: option.splits if_splits)
  then have "map wi_problem ?mine = (if in_hook_scope h then (case map_option wi_problem (?a h) of None \<Rightarrow> [] | Some p \<Rightarrow> [p]) else [])"
    by (simp split: option.split)
  then show ?thesis
    by (cases "in_hook_scope h") (simp_all add: hook_problem)
qed

definition blocking_hook :: hook where
  "blocking_hook = \<lparr>hk_kind = ''ValidatingWebhookConfiguration'', hk_config = ''c'', hk_name = ''w'', hk_policy = None,
     hk_service = Some (''prod'', ''web''), hk_url = None, hk_timeout = Some 30, hk_has_rules = True\<rparr>"

theorem webhook_issues_witness:
  "map wi_problem (issues_of_hook blocking_hook (fst (assess_webhooks [blocking_hook] [] [web_service] [] 10))) = [''NoEndpoints'']"
  using webhook_issues [of blocking_hook "[blocking_hook]" "[]" "[web_service]" "[]" 10]
  by (simp add: blocking_hook_def in_hook_scope_def fails_closed_def web_service_def find_service_def ready_endpoints_def)

end
