(* ===== verification/Storage_Health.thy ===== *)
theory Storage_Health
  imports Resources Scan_Result
begin

text \<open>
  What is wedged: \<open>internal/pvchealth\<close> (claims that cannot be provisioned or bound) and
  \<open>internal/termhealth\<close> (namespaces, pods and claims stuck Terminating). How two quantities compare and
  how one is printed is \<open>k8s.io/apimachinery\<close>'s business (\<open>storage_lib\<close>); the selector of a claim, where
  it has one, is the predicate on labels that \<open>LabelSelectorAsSelector\<close> makes of it, or the one that
  matches nothing.
\<close>

section \<open>The objects\<close>

record storage_lib =
  st_cmp :: "string \<Rightarrow> string \<Rightarrow> int"
  st_show :: "string \<Rightarrow> string"

record pvc_object =
  cl_namespace :: string
  cl_name :: string
  cl_phase :: string
  cl_created :: time
  cl_deleted :: "time option"
  cl_finalizers :: "string list"
  cl_class :: "string option"
  cl_requests :: resource_list
  cl_modes :: "string list"
  cl_volume_mode :: "string option"
  cl_selector :: "((string, string) gomap \<Rightarrow> bool) option"

record storage_class =
  sk_name :: string
  sk_provisioner :: string
  sk_binding :: "string option"
  sk_annotations :: "(string, string) gomap"

record volume =
  vl_phase :: string
  vl_claimed :: bool
  vl_class :: string
  vl_capacity :: resource_list
  vl_modes :: "string list"
  vl_volume_mode :: "string option"
  vl_labels :: "(string, string) gomap"

record object_message =
  om_kind :: string
  om_namespace :: string
  om_name :: string
  om_reason :: string
  om_message :: string
  om_last :: time

section \<open>Durations with their fraction\<close>

text \<open>\<open>time.Duration.String\<close>: the fraction without its trailing zeros.\<close>

definition with_fraction :: "nat \<Rightarrow> int \<Rightarrow> string" where
  "with_fraction prec v =
    (let ds = itoa (v mod 10 ^ prec);
         fr = rdrop_while (\<lambda>c. c = CHR ''0'') (replicate (prec - length ds) (CHR ''0'') @ ds)
     in itoa (v div 10 ^ prec) @ (if fr = [] then [] else ''.'' @ fr))"

definition full_duration :: "duration \<Rightarrow> string" where
  "full_duration d =
    (let a = \<bar>d\<bar>; m = a div minute; h = m div 60;
         body = (if a = 0 then ''0s''
                 else if a < 1000 then itoa a @ ''ns''
                 else if a < 1000000 then with_fraction 3 a @ bytes [194, 181, 115]
                 else if a < second then with_fraction 6 a @ ''ms''
                 else (if h > 0 then itoa h @ ''h'' else []) @ (if m > 0 then itoa (m mod 60) @ ''m'' else []) @
                   with_fraction 9 (a mod minute) @ ''s'')
     in if d < 0 then ''-'' @ body else body)"

section \<open>Claims that stay pending\<close>

definition class_name_of :: "pvc_object \<Rightarrow> string" where
  "class_name_of c = (case cl_class c of None \<Rightarrow> [] | Some n \<Rightarrow> n)"

definition class_exists :: "string \<Rightarrow> storage_class list \<Rightarrow> bool" where
  "class_exists n scs \<longleftrightarrow> list_ex (\<lambda>s. sk_name s = n) scs"

definition find_storage_class :: "string \<Rightarrow> storage_class list \<Rightarrow> storage_class option" where
  "find_storage_class n scs = find (\<lambda>s. sk_name s = n) scs"

definition default_class_annotation :: string where
  "default_class_annotation = ''storageclass.kubernetes.io/is-default-class''"

definition has_default_class :: "storage_class list \<Rightarrow> bool" where
  "has_default_class scs \<longleftrightarrow> list_ex (\<lambda>s. mget_zero [] (sk_annotations s) default_class_annotation = ''true'') scs"

definition volume_mode_satisfied :: "string option \<Rightarrow> string option \<Rightarrow> bool" where
  "volume_mode_satisfied want have' \<longleftrightarrow>
    (case want of None \<Rightarrow> ''Filesystem'' | Some w \<Rightarrow> w) = (case have' of None \<Rightarrow> ''Filesystem'' | Some h \<Rightarrow> h)"

definition modes_satisfied :: "string list \<Rightarrow> string list \<Rightarrow> bool" where
  "modes_satisfied want have' \<longleftrightarrow>
    (let offered = fold (\<lambda>m. mput m True) have' [] in list_all (mget_zero False offered) want)"

text \<open>The selector of a claim; without one every volume is a candidate.\<close>

definition claim_selects :: "pvc_object \<Rightarrow> volume \<Rightarrow> bool" where
  "claim_selects c v \<longleftrightarrow> (case cl_selector c of None \<Rightarrow> True | Some sel \<Rightarrow> sel (vl_labels v))"

text \<open>The loop over the volumes, with the number of those only the selector excluded so far.\<close>

fun any_matching_pv :: "storage_lib \<Rightarrow> pvc_object \<Rightarrow> nat \<Rightarrow> volume list \<Rightarrow> bool \<times> nat" where
  "any_matching_pv l c excluded [] = (False, excluded)"
| "any_matching_pv l c excluded (v # vs) =
    (if vl_phase v \<noteq> ''Available'' \<or> vl_claimed v then any_matching_pv l c excluded vs
     else if vl_class v \<noteq> [] then any_matching_pv l c excluded vs
     else if st_cmp l (mget_zero zero_quantity (vl_capacity v) ''storage'') (mget_zero zero_quantity (cl_requests c) ''storage'') < 0
     then any_matching_pv l c excluded vs
     else if \<not> modes_satisfied (cl_modes c) (vl_modes v) then any_matching_pv l c excluded vs
     else if \<not> volume_mode_satisfied (cl_volume_mode c) (vl_volume_mode v) then any_matching_pv l c excluded vs
     else if \<not> claim_selects c v then any_matching_pv l c (excluded + 1) vs
     else (True, 0))"

definition request_size :: "storage_lib \<Rightarrow> pvc_object \<Rightarrow> string" where
  "request_size l c = (case mget (cl_requests c) ''storage'' of Some q \<Rightarrow> st_show l q | None \<Rightarrow> ''?'')"

definition mode_list :: "pvc_object \<Rightarrow> string" where
  "mode_list c = (if cl_modes c = [] then ''?'' else join (cl_modes c) '','')"

definition volume_noun :: "nat \<Rightarrow> string \<Rightarrow> string \<Rightarrow> string" where
  "volume_noun n one many = (if n = 1 then one else many)"

definition match_outcome :: "storage_lib \<Rightarrow> pvc_object \<Rightarrow> volume list \<Rightarrow> (string \<times> string) option" where
  "match_outcome l c vs =
    (let r = any_matching_pv l c 0 vs in
     if fst r then None
     else if snd r > 0
     then Some (''PVSelectorMismatch'', ''no available PersistentVolume matches its selector ('' @ itoa (int (snd r)) @
       '' otherwise-suitable '' @ volume_noun (snd r) ''volume'' ''volumes'' @ '' excluded)'')
     else Some (''NoMatchingPV'', ''no available PersistentVolume matches its request ('' @ request_size l c @ '', '' @
       mode_list c @ '')''))"

definition structural_cause ::
    "storage_lib \<Rightarrow> pvc_object \<Rightarrow> storage_class list \<Rightarrow> volume list \<Rightarrow> (string \<times> string) option" where
  "structural_cause l c scs vs =
    (case cl_class c of
       Some n \<Rightarrow>
         if n \<noteq> [] then
           (if \<not> class_exists n scs
            then Some (''MissingStorageClass'', ''references StorageClass '' @ go_quote n @ '' which does not exist'')
            else None)
         else match_outcome l c vs
     | None \<Rightarrow> if has_default_class scs then None else match_outcome l c vs)"

definition about_claim :: "string \<Rightarrow> string \<Rightarrow> object_message \<Rightarrow> bool" where
  "about_claim ns n e \<longleftrightarrow> om_kind e = ''PersistentVolumeClaim'' \<and> om_namespace e = ns \<and> om_name e = n"

definition failure_reason :: "object_message \<Rightarrow> bool" where
  "failure_reason e \<longleftrightarrow> om_reason e = ''ProvisioningFailed'' \<or> om_reason e = ''FailedBinding''"

text \<open>The newest failure, unless the claim has a strictly newer event of any reason.\<close>

definition newest_failure_event :: "object_message list \<Rightarrow> string \<Rightarrow> string \<Rightarrow> object_message option" where
  "newest_failure_event events ns n =
    (case fold (\<lambda>e best. if \<not> about_claim ns n e \<or> \<not> failure_reason e then best
        else (case best of None \<Rightarrow> Some e | Some b \<Rightarrow> if om_last b < om_last e then Some e else best)) events None of
       None \<Rightarrow> None
     | Some b \<Rightarrow> if list_ex (\<lambda>e. about_claim ns n e \<and> om_last b < om_last e) events then None else Some b)"

definition provisioner_stalled ::
    "unicode_tables \<Rightarrow> pvc_object \<Rightarrow> storage_class list \<Rightarrow> duration \<Rightarrow> time \<Rightarrow> (string \<times> string) option" where
  "provisioner_stalled u c scs threshold now =
    (let n = class_name_of c in
     if n = [] then None
     else case find_storage_class n scs of
       None \<Rightarrow> None
     | Some sc \<Rightarrow>
         if sk_binding sc = Some ''WaitForFirstConsumer'' then None
         else if time_sub now (cl_created c) < threshold then None
         else Some (''ProvisionerNotResponding'', ''provisioner '' @ go_quote (line u (sk_provisioner sc)) @
           '' on StorageClass '' @ go_quote n @ '' has not responded in over '' @ full_duration threshold))"

definition pending_issue :: "pvc_object \<Rightarrow> string \<times> string \<Rightarrow> pvc_issue" where
  "pending_issue c p = \<lparr>vi_namespace = cl_namespace c, vi_name = cl_name c, vi_phase = ''Pending'',
     vi_reason = fst p, vi_detail = snd p, vi_storage_class = class_name_of c\<rparr>"

definition claim_issue ::
    "unicode_tables \<Rightarrow> storage_lib \<Rightarrow> object_message list \<Rightarrow> storage_class list \<Rightarrow> volume list \<Rightarrow> duration \<Rightarrow> time \<Rightarrow>
     pvc_object \<Rightarrow> pvc_issue option" where
  "claim_issue u l events scs vs threshold now c =
    (if cl_phase c \<noteq> ''Pending'' then None
     else case structural_cause l c scs vs of
       Some p \<Rightarrow> Some (pending_issue c p)
     | None \<Rightarrow>
         (case newest_failure_event events (cl_namespace c) (cl_name c) of
            Some e \<Rightarrow> Some (pending_issue c (om_reason e, line u (om_message e)))
          | None \<Rightarrow> map_option (pending_issue c) (provisioner_stalled u c scs threshold now)))"

definition assess_claims ::
    "unicode_tables \<Rightarrow> storage_lib \<Rightarrow> pvc_object list \<Rightarrow> object_message list \<Rightarrow> storage_class list \<Rightarrow> volume list \<Rightarrow>
     duration \<Rightarrow> time \<Rightarrow> pvc_issue list" where
  "assess_claims u l cs events scs vs threshold now =
    sort_slice (\<lambda>a b. if vi_namespace a \<noteq> vi_namespace b then vi_namespace a < vi_namespace b else vi_name a < vi_name b)
      (List.map_filter (claim_issue u l events scs vs threshold now) cs)"

section \<open>Objects that stay Terminating\<close>

record namespace_object =
  nz_name :: string
  nz_deleted :: "time option"
  nz_conditions :: "node_condition list"
  nz_finalizers :: "string list"

text \<open>A volume of a pod is here the claim it mounts, where it mounts one.\<close>

record ending_pod =
  ep_namespace :: string
  ep_name :: string
  ep_deleted :: "time option"
  ep_finalizers :: "string list"
  ep_node :: string
  ep_volumes :: "string option list"

definition ns_condition_order :: "string list" where
  "ns_condition_order = [''NamespaceDeletionContentFailure'', ''NamespaceFinalizersRemaining'', ''NamespaceContentRemaining'']"

definition compact_dur :: "duration \<Rightarrow> string" where
  "compact_dur d =
    (if d \<ge> 24 * hour then itoa (d div (24 * hour)) @ ''d''
     else if d \<ge> hour then itoa (d div hour) @ ''h''
     else if d \<ge> minute then itoa (d div minute) @ ''m''
     else ''<1m'')"

definition stuck_for :: "time option \<Rightarrow> duration \<Rightarrow> time \<Rightarrow> string option" where
  "stuck_for dt threshold now =
    (case dt of None \<Rightarrow> None
     | Some t \<Rightarrow> if time_sub now t \<le> threshold then None else Some (compact_dur (time_sub now t)))"

definition node_not_ready :: "node_object \<Rightarrow> bool" where
  "node_not_ready n = (case find (\<lambda>c. cn_type c = ''Ready'') (no_conditions n) of
     Some c \<Rightarrow> cn_status c \<noteq> ''True'' | None \<Rightarrow> True)"

definition unconfirmed :: string where
  "unconfirmed = ''deletion not confirmed (node gone or kubelet not reporting)''"

definition ending_pod_reason :: "ending_pod \<Rightarrow> node_object list \<Rightarrow> string" where
  "ending_pod_reason p nodes =
    (if ep_finalizers p \<noteq> [] then ''finalizer '' @ join (ep_finalizers p) '', ''
     else if ep_node p = [] \<or> nodes = [] then unconfirmed
     else case find (\<lambda>n. no_name n = ep_node p) nodes of
       Some n \<Rightarrow> if node_not_ready n then ''deletion not confirmed'' @ dash @ ''node '' @ ep_node p @ '' is NotReady'' else unconfirmed
     | None \<Rightarrow> ''deletion not confirmed'' @ dash @ ''node '' @ ep_node p @ '' no longer exists'')"

definition mounting_pods :: "pvc_object \<Rightarrow> ending_pod list \<Rightarrow> string list" where
  "mounting_pods c pods = map (\<lambda>p. ep_namespace p @ ''/'' @ ep_name p)
     (filter (\<lambda>p. ep_namespace p = cl_namespace c \<and> list_ex (\<lambda>v. v = Some (cl_name c)) (ep_volumes p)) pods)"

definition cap_list :: "string list \<Rightarrow> nat \<Rightarrow> string" where
  "cap_list items n =
    (if length items \<le> n then join items '', ''
     else join (take n items) '', '' @ '' +'' @ itoa (int (length items - n)) @ '' more'')"

definition stuck_claim_reason :: "pvc_object \<Rightarrow> ending_pod list \<Rightarrow> string" where
  "stuck_claim_reason c pods =
    (if list_ex (\<lambda>f. f = ''kubernetes.io/pvc-protection'') (cl_finalizers c) then
       (let mp = mounting_pods c pods in
        if mp \<noteq> [] then ''pvc-protection'' @ dash @ ''still mounted by '' @ (if length mp > 1 then ''pods'' else ''pod'') @ '' '' @ cap_list mp 3
        else ''pvc-protection'')
     else if cl_finalizers c \<noteq> [] then ''finalizer '' @ join (cl_finalizers c) '', ''
     else ''deletion pending'')"

definition trim_condition_text :: "string \<Rightarrow> string" where
  "trim_condition_text s = rdrop_while (\<lambda>c. c = CHR ''.'') (trim_space s)"

definition true_conditions :: "namespace_object \<Rightarrow> (string, node_condition) gomap" where
  "true_conditions ns = fold (\<lambda>c m. if cn_status c = ''True'' then mput (cn_type c) c m else m) (nz_conditions ns) []"

definition ns_reason :: "unicode_tables \<Rightarrow> namespace_object \<Rightarrow> string" where
  "ns_reason u ns =
    (case List.map_filter (\<lambda>t. map_option (Pair t) (mget (true_conditions ns) t)) ns_condition_order of
       (t, c) # _ \<Rightarrow> t @ dash @ trim_condition_text (line u (cn_message c))
     | [] \<Rightarrow>
         (let fs = filter (\<lambda>f. f \<noteq> ''kubernetes'') (nz_finalizers ns) in
          if fs \<noteq> [] then ''finalizers '' @ join fs '', ''
          else ''deletion pending'' @ dash @ ''no namespace finalizer names the blocker''))"

definition fall_through :: "string \<Rightarrow> bool" where
  "fall_through r = list_all (\<lambda>t. \<not> has_prefix r (t @ dash)) ns_condition_order"

definition stuck_namespace :: "unicode_tables \<Rightarrow> duration \<Rightarrow> time \<Rightarrow> namespace_object \<Rightarrow> term_issue option" where
  "stuck_namespace u threshold now ns = map_option (\<lambda>age. \<lparr>ti_kind = ''Namespace'', ti_namespace = [], ti_name = nz_name ns,
     ti_age = age, ti_past_grace = False, ti_reason = ns_reason u ns\<rparr>) (stuck_for (nz_deleted ns) threshold now)"

definition stuck_pod :: "node_object list \<Rightarrow> duration \<Rightarrow> time \<Rightarrow> ending_pod \<Rightarrow> term_issue option" where
  "stuck_pod nodes threshold now p = map_option (\<lambda>age. \<lparr>ti_kind = ''Pod'', ti_namespace = ep_namespace p, ti_name = ep_name p,
     ti_age = age, ti_past_grace = True, ti_reason = ending_pod_reason p nodes\<rparr>) (stuck_for (ep_deleted p) threshold now)"

definition stuck_claim :: "ending_pod list \<Rightarrow> duration \<Rightarrow> time \<Rightarrow> pvc_object \<Rightarrow> term_issue option" where
  "stuck_claim pods threshold now c = map_option (\<lambda>age. \<lparr>ti_kind = ''PersistentVolumeClaim'', ti_namespace = cl_namespace c,
     ti_name = cl_name c, ti_age = age, ti_past_grace = False, ti_reason = stuck_claim_reason c pods\<rparr>)
     (stuck_for (cl_deleted c) threshold now)"

definition term_less :: "term_issue \<Rightarrow> term_issue \<Rightarrow> bool" where
  "term_less a b = (if ti_kind a \<noteq> ti_kind b then ti_kind a < ti_kind b
     else if ti_namespace a \<noteq> ti_namespace b then ti_namespace a < ti_namespace b
     else ti_name a < ti_name b)"

text \<open>The second pass writes the reasons in place, one namespace after the other.\<close>

definition explain_at :: "nat \<Rightarrow> term_issue list \<Rightarrow> term_issue list" where
  "explain_at i out =
    (if ti_kind (out ! i) \<noteq> ''Namespace'' \<or> \<not> fall_through (ti_reason (out ! i)) then out
     else let blockers = map (\<lambda>b. ti_namespace b @ ''/'' @ ti_name b @ '' ('' @ ti_kind b @ '', '' @ ti_reason b @ '')'')
                (filter (\<lambda>b. ti_namespace b = ti_name (out ! i)) out)
          in if blockers \<noteq> []
             then out[i := (out ! i)\<lparr>ti_reason := ti_reason (out ! i) @ dash @ ''blocked by '' @ cap_list blockers 3\<rparr>]
             else out)"

definition assess_terminating ::
    "unicode_tables \<Rightarrow> namespace_object list \<Rightarrow> ending_pod list \<Rightarrow> pvc_object list \<Rightarrow> node_object list \<Rightarrow> duration \<Rightarrow> time \<Rightarrow>
     term_issue list" where
  "assess_terminating u nss pods cs nodes threshold now =
    (let out = sort_slice term_less
           (List.map_filter (stuck_namespace u threshold now) nss @ List.map_filter (stuck_pod nodes threshold now) pods @
            List.map_filter (stuck_claim pods threshold now) cs)
     in fold explain_at [0..<length out] out)"

section \<open>What a pending claim is missing\<close>

text \<open>A volume that would do but for the selector, and a failure no later event speaks past.\<close>

definition would_suit :: "storage_lib \<Rightarrow> pvc_object \<Rightarrow> volume \<Rightarrow> bool" where
  "would_suit l c v \<longleftrightarrow> vl_phase v = ''Available'' \<and> \<not> vl_claimed v \<and> vl_class v = [] \<and>
     st_cmp l (mget_zero zero_quantity (vl_capacity v) ''storage'') (mget_zero zero_quantity (cl_requests c) ''storage'') \<ge> 0 \<and>
     set (cl_modes c) \<subseteq> set (vl_modes v) \<and> volume_mode_satisfied (cl_volume_mode c) (vl_volume_mode v)"

definition live_failure :: "object_message list \<Rightarrow> string \<Rightarrow> string \<Rightarrow> object_message \<Rightarrow> bool" where
  "live_failure events ns n e \<longleftrightarrow> about_claim ns n e \<and> failure_reason e \<and>
     (\<forall>e'\<in>set events. about_claim ns n e' \<longrightarrow> om_last e' \<le> om_last e)"

definition static_claim :: "pvc_object \<Rightarrow> storage_class list \<Rightarrow> bool" where
  "static_claim c scs \<longleftrightarrow> (case cl_class c of Some n \<Rightarrow> n = [] | None \<Rightarrow> \<not> has_default_class scs)"

definition cause_named ::
    "storage_lib \<Rightarrow> object_message list \<Rightarrow> storage_class list \<Rightarrow> volume list \<Rightarrow> duration \<Rightarrow> time \<Rightarrow> pvc_object \<Rightarrow> string option" where
  "cause_named l events scs vs threshold now c =
    (if class_name_of c \<noteq> [] \<and> class_name_of c \<notin> sk_name ` set scs then Some ''MissingStorageClass''
     else if static_claim c scs \<and> \<not> (\<exists>v\<in>set vs. would_suit l c v \<and> claim_selects c v)
     then Some (if \<exists>v\<in>set vs. would_suit l c v then ''PVSelectorMismatch'' else ''NoMatchingPV'')
     else case find (live_failure events (cl_namespace c) (cl_name c)) events of
       Some e \<Rightarrow> Some (om_reason e)
     | None \<Rightarrow>
         if class_name_of c \<noteq> [] \<and> threshold \<le> time_sub now (cl_created c) \<and>
            (case find (\<lambda>s. sk_name s = class_name_of c) scs of None \<Rightarrow> False | Some s \<Rightarrow> sk_binding s \<noteq> Some ''WaitForFirstConsumer'')
         then Some ''ProvisionerNotResponding'' else None)"

lemma modes_satisfied_iff: "modes_satisfied want offered \<longleftrightarrow> set want \<subseteq> set offered"
proof -
  have "mget_zero False (fold (\<lambda>m. mput m True) xs acc) m \<longleftrightarrow> m \<in> set xs \<or> mget_zero False acc m" for xs acc m
    by (induction xs arbitrary: acc) (auto simp: mget_zero_def split: option.splits)
  from this [of offered "[]"] show ?thesis
    by (auto simp: modes_satisfied_def list_all_iff) (auto simp: mget_zero_def)
qed

lemma any_matching_pv_Cons:
  "any_matching_pv l c k (v # vs) =
    (if \<not> would_suit l c v then any_matching_pv l c k vs
     else if \<not> claim_selects c v then any_matching_pv l c (k + 1) vs else (True, 0))"
  by (auto simp: would_suit_def modes_satisfied_iff)

lemma any_matching_pv_iff:
  "fst (any_matching_pv l c k vs) \<longleftrightarrow> (\<exists>v\<in>set vs. would_suit l c v \<and> claim_selects c v)"
  "\<not> fst (any_matching_pv l c k vs) \<Longrightarrow> snd (any_matching_pv l c k vs) = k + length (filter (would_suit l c) vs)"
  by (induction vs arbitrary: k) (auto simp: any_matching_pv_Cons simp del: any_matching_pv.simps(2))

lemma match_outcome_reason:
  "map_option fst (match_outcome l c vs) =
    (if \<exists>v\<in>set vs. would_suit l c v \<and> claim_selects c v then None
     else Some (if \<exists>v\<in>set vs. would_suit l c v then ''PVSelectorMismatch'' else ''NoMatchingPV''))"
  using any_matching_pv_iff(2) [of l c 0 vs]
  by (auto simp: match_outcome_def Let_def any_matching_pv_iff(1) filter_empty_conv)

text \<open>The first of the newest elements with a property, as a loop keeps it.\<close>

lemma fold_newest:
  fixes t :: "'a \<Rightarrow> 'b::linorder"
  shows "fold (\<lambda>e best. if \<not> P e then best else (case best of None \<Rightarrow> Some e | Some b \<Rightarrow> if t b < t e then Some e else best)) xs None =
    find (\<lambda>e. P e \<and> (\<forall>e'\<in>set xs. P e' \<longrightarrow> t e' \<le> t e)) xs" (is "?F xs = ?G xs")
proof -
  have inv: "case ?F xs of None \<Rightarrow> (\<forall>e\<in>set xs. \<not> P e)
     | Some b \<Rightarrow> \<exists>ys zs. xs = ys @ b # zs \<and> P b \<and> (\<forall>e\<in>set ys. P e \<longrightarrow> t e < t b) \<and> (\<forall>e\<in>set zs. P e \<longrightarrow> t e \<le> t b)"
  proof (induction xs rule: rev_induct)
    case (snoc x xs)
    have new: "\<exists>ys zs. xs @ [x] = ys @ x # zs \<and> P x \<and> (\<forall>e\<in>set ys. P e \<longrightarrow> t e < t x) \<and> (\<forall>e\<in>set zs. P e \<longrightarrow> t e \<le> t x)"
      if "P x" "\<forall>e\<in>set xs. P e \<longrightarrow> t e < t x" using that by (intro exI [of _ xs] exI [of _ "[]"]) simp
    show ?case
    proof (cases "?F xs")
      case None
      with snoc new show ?thesis by (cases "P x") auto
    next
      case (Some b)
      with snoc obtain ys zs where w: "xs = ys @ b # zs" "P b" "\<forall>e\<in>set ys. P e \<longrightarrow> t e < t b" "\<forall>e\<in>set zs. P e \<longrightarrow> t e \<le> t b"
        by auto
      show ?thesis
      proof (cases "P x \<and> t b < t x")
        case True
        with w have "\<forall>e\<in>set xs. P e \<longrightarrow> t e < t x" by fastforce
        with True Some new show ?thesis by auto
      next
        case False
        with w have "xs @ [x] = ys @ b # (zs @ [x]) \<and> (\<forall>e\<in>set (zs @ [x]). P e \<longrightarrow> t e \<le> t b)" by auto
        then have "\<exists>ys zs. xs @ [x] = ys @ b # zs \<and> P b \<and> (\<forall>e\<in>set ys. P e \<longrightarrow> t e < t b) \<and> (\<forall>e\<in>set zs. P e \<longrightarrow> t e \<le> t b)"
          using w(2,3) by blast
        with False Some show ?thesis by auto
      qed
    qed
  qed simp
  show ?thesis
  proof (cases "?F xs")
    case None
    with inv have "?G xs = None" by (auto simp: find_None_iff)
    with None show ?thesis by simp
  next
    case (Some b)
    with inv obtain ys zs where w: "xs = ys @ b # zs" "P b" "\<forall>e\<in>set ys. P e \<longrightarrow> t e < t b" "\<forall>e\<in>set zs. P e \<longrightarrow> t e \<le> t b"
      by auto
    have "?G xs = Some b" unfolding find_Some_split
      using w by (intro exI [of _ ys] exI [of _ zs]) (auto simp: not_le less_imp_le)
    with Some show ?thesis by simp
  qed
qed

lemma newest_failure_live: "newest_failure_event events ns n = find (live_failure events ns n) events"
proof -
  let ?P = "\<lambda>e. about_claim ns n e \<and> failure_reason e"
  let ?Q = "\<lambda>e. ?P e \<and> (\<forall>e'\<in>set events. ?P e' \<longrightarrow> om_last e' \<le> om_last e)"
  have f: "newest_failure_event events ns n = (case find ?Q events of None \<Rightarrow> None
      | Some b \<Rightarrow> if list_ex (\<lambda>e. about_claim ns n e \<and> om_last b < om_last e) events then None else Some b)"
    unfolding newest_failure_event_def fold_newest [of ?P om_last, symmetric] by (simp add: de_Morgan_conj)
  show ?thesis
  proof (cases "find ?Q events")
    case None
    then have "find (live_failure events ns n) events = None" by (auto simp: find_None_iff live_failure_def)
    with None f show ?thesis by simp
  next
    case (Some b)
    then obtain ys zs where w: "events = ys @ b # zs" "?Q b" "\<forall>e\<in>set ys. \<not> ?Q e" unfolding find_Some_split by blast
    show ?thesis
    proof (cases "list_ex (\<lambda>e. about_claim ns n e \<and> om_last b < om_last e) events")
      case True
      then have "find (live_failure events ns n) events = None"
        using w(2) by (auto simp: find_None_iff live_failure_def list_ex_iff) (meson order.trans not_le)
      with True Some f show ?thesis by simp
    next
      case False
      then have "live_failure events ns n b" using w(2) by (auto simp: live_failure_def list_ex_iff not_less)
      moreover have "\<forall>e\<in>set ys. \<not> live_failure events ns n e" using w(3) by (auto simp: live_failure_def)
      ultimately have "find (live_failure events ns n) events = Some b"
        unfolding find_Some_split using w(1) by blast
      with False Some f show ?thesis by simp
    qed
  qed
qed

lemma claim_issue_named:
  "map_option (\<lambda>i. (vi_namespace i, vi_name i, vi_reason i)) (claim_issue u l events scs vs threshold now c) =
    (if cl_phase c \<noteq> ''Pending'' then None
     else map_option (\<lambda>r. (cl_namespace c, cl_name c, r)) (cause_named l events scs vs threshold now c))"
proof -
  have s: "map_option fst (structural_cause l c scs vs) =
      (if class_name_of c \<noteq> [] \<and> class_name_of c \<notin> sk_name ` set scs then Some ''MissingStorageClass''
       else if static_claim c scs \<and> \<not> (\<exists>v\<in>set vs. would_suit l c v \<and> claim_selects c v)
       then Some (if \<exists>v\<in>set vs. would_suit l c v then ''PVSelectorMismatch'' else ''NoMatchingPV'') else None)"
    using match_outcome_reason [of l c vs]
    by (cases "cl_class c") (auto simp: structural_cause_def class_name_of_def static_claim_def class_exists_def list_ex_iff
        split: if_splits)
  have p: "map_option fst (provisioner_stalled u c scs threshold now) =
      (if class_name_of c \<noteq> [] \<and> threshold \<le> time_sub now (cl_created c) \<and>
          (case find (\<lambda>s. sk_name s = class_name_of c) scs of None \<Rightarrow> False | Some s \<Rightarrow> sk_binding s \<noteq> Some ''WaitForFirstConsumer'')
       then Some ''ProvisionerNotResponding'' else None)"
    by (auto simp: provisioner_stalled_def Let_def find_storage_class_def not_le split: option.splits)
  show ?thesis
  proof (cases "structural_cause l c scs vs")
    case (Some r)
    have "cause_named l events scs vs threshold now c = Some (fst r)"
      using s Some by (auto simp: cause_named_def split: if_splits)
    with Some show ?thesis by (simp add: claim_issue_def pending_issue_def)
  next
    case None
    have "cause_named l events scs vs threshold now c =
        (case find (live_failure events (cl_namespace c) (cl_name c)) events of Some e \<Rightarrow> Some (om_reason e)
         | None \<Rightarrow> map_option fst (provisioner_stalled u c scs threshold now))"
      using s None p by (auto simp: cause_named_def split: if_splits option.splits)
    with None show ?thesis
      by (auto simp: claim_issue_def pending_issue_def newest_failure_live option.map_comp o_def split: option.splits)
  qed
qed

text \<open>
  The claims listed are the pending ones with a cause, each once and with the first cause that applies:
  the class it names is missing; it is a static claim and no volume serves it, by the selector alone
  or not at all; a failure was reported and nothing later was; the provisioner of its class has not
  answered within the threshold, where the class binds at once. They are sorted by namespace and name.
\<close>

theorem pending_claims_explained:
  "mset (map (\<lambda>i. (vi_namespace i, vi_name i, vi_reason i)) (assess_claims u l cs events scs vs threshold now)) =
     mset (List.map_filter (\<lambda>c. map_option (\<lambda>r. (cl_namespace c, cl_name c, r)) (cause_named l events scs vs threshold now c))
       (filter (\<lambda>c. cl_phase c = ''Pending'') cs)) \<and>
   sorted (map (\<lambda>i. (vi_namespace i, vi_name i)) (assess_claims u l cs events scs vs threshold now))"
proof
  let ?row = "\<lambda>i. (vi_namespace i, vi_name i, vi_reason i)"
  have k: "assess_claims u l cs events scs vs threshold now =
      sort_slice (key_less (\<lambda>i. (vi_namespace i, vi_name i))) (List.map_filter (claim_issue u l events scs vs threshold now) cs)"
    unfolding assess_claims_def by (rule arg_cong [where f = "\<lambda>lt. sort_slice lt _"]) (auto simp: fun_eq_iff key_less_def lex_less)
  have "map ?row (List.map_filter (claim_issue u l events scs vs threshold now) cs) =
      List.map_filter (\<lambda>c. map_option (\<lambda>r. (cl_namespace c, cl_name c, r)) (cause_named l events scs vs threshold now c))
        (filter (\<lambda>c. cl_phase c = ''Pending'') cs)"
  proof (induction cs)
    case (Cons c cs)
    from claim_issue_named [of u l events scs vs threshold now c] Cons show ?case
      by (cases "claim_issue u l events scs vs threshold now c"; cases "cause_named l events scs vs threshold now c")
        (auto simp: map_filter_simps split: if_splits)
  qed (simp add: map_filter_simps)
  then show "mset (map ?row (assess_claims u l cs events scs vs threshold now)) =
     mset (List.map_filter (\<lambda>c. map_option (\<lambda>r. (cl_namespace c, cl_name c, r)) (cause_named l events scs vs threshold now c))
       (filter (\<lambda>c. cl_phase c = ''Pending'') cs))"
    unfolding k mset_map mset_sort_slice by (metis mset_map)
  show "sorted (map (\<lambda>i. (vi_namespace i, vi_name i)) (assess_claims u l cs events scs vs threshold now))"
    unfolding k key_sorted_iff [symmetric] by (rule kl.sort_sorted)
qed

section \<open>What holds a namespace\<close>

definition blocking_condition :: "namespace_object \<Rightarrow> bool" where
  "blocking_condition ns \<longleftrightarrow> (\<exists>c\<in>set (nz_conditions ns). cn_status c = ''True'' \<and> cn_type c \<in> set ns_condition_order)"

definition blocker_text :: "term_issue \<Rightarrow> string" where
  "blocker_text b = ti_namespace b @ ''/'' @ ti_name b @ '' ('' @ ti_kind b @ '', '' @ ti_reason b @ '')''"

definition held_in :: "string \<Rightarrow> term_issue list \<Rightarrow> term_issue list" where
  "held_in n out = filter (\<lambda>b. ti_namespace b = n) out"

definition with_blockers :: "term_issue list \<Rightarrow> term_issue \<Rightarrow> term_issue" where
  "with_blockers out i =
    (if ti_kind i \<noteq> ''Namespace'' \<or> \<not> fall_through (ti_reason i) \<or> held_in (ti_name i) out = [] then i
     else i\<lparr>ti_reason := ti_reason i @ dash @ ''blocked by '' @ cap_list (map blocker_text (held_in (ti_name i) out)) 3\<rparr>)"

lemma with_blockers_simps [simp]:
  "ti_kind (with_blockers out i) = ti_kind i" "ti_namespace (with_blockers out i) = ti_namespace i"
  "ti_name (with_blockers out i) = ti_name i" "ti_age (with_blockers out i) = ti_age i"
  by (simp_all add: with_blockers_def)

definition flat :: "term_issue \<Rightarrow> bool" where
  "flat i \<longleftrightarrow> (ti_kind i = ''Namespace'' \<longrightarrow> ti_namespace i = [] \<and> ti_name i \<noteq> [])"

lemma held_in_with_blockers:
  assumes "\<forall>i\<in>set xs. flat i" "n \<noteq> []"
  shows "held_in n (map (with_blockers out) xs) = held_in n xs"
  using assms by (induction xs) (auto simp: held_in_def flat_def with_blockers_def)

lemma explain_at_step:
  assumes "\<forall>i\<in>set out. flat i" "k < length out"
  shows "explain_at k (map (with_blockers out) (take k out) @ drop k out) =
    map (with_blockers out) (take (Suc k) out) @ drop (Suc k) out"
proof -
  let ?xs = "map (with_blockers out) (take k out) @ drop k out"
  have d: "drop k out = out ! k # drop (Suc k) out" using assms(2) by (rule Cons_nth_drop_Suc [symmetric])
  have n: "?xs ! k = out ! k" using assms(2) by (simp add: nth_append)
  have h: "held_in (ti_name (out ! k)) ?xs = held_in (ti_name (out ! k)) out" if "ti_kind (out ! k) = ''Namespace''"
  proof -
    have ne: "ti_name (out ! k) \<noteq> []" using that assms by (auto simp: flat_def)
    have fl: "\<forall>i\<in>set (take k out). flat i" using assms(1) by (meson in_set_takeD)
    have ap: "held_in n (xs @ ys) = held_in n xs @ held_in n ys" for n xs ys by (simp add: held_in_def)
    have "held_in (ti_name (out ! k)) ?xs = held_in (ti_name (out ! k)) (take k out @ drop k out)"
      unfolding ap held_in_with_blockers [OF fl ne] ..
    then show ?thesis by simp
  qed
  have u: "?xs[k := y] = map (with_blockers out) (take k out) @ y # drop (Suc k) out" for y
    using assms(2) by (subst d) (simp add: list_update_append)
  have same: "?xs[k := out ! k] = ?xs" using n by (metis list_update_id)
  have e: "explain_at k ?xs = ?xs[k := with_blockers out (out ! k)]"
  proof (cases "ti_kind (out ! k) = ''Namespace'' \<and> fall_through (ti_reason (out ! k))")
    case True
    then have "explain_at k ?xs = (if held_in (ti_name (out ! k)) out \<noteq> []
        then ?xs[k := (out ! k)\<lparr>ti_reason := ti_reason (out ! k) @ dash @ ''blocked by '' @
          cap_list (map blocker_text (held_in (ti_name (out ! k)) out)) 3\<rparr>] else ?xs)"
      unfolding explain_at_def n Let_def h [symmetric, OF conjunct1 [OF True]]
      by (simp add: held_in_def blocker_text_def [abs_def])
    with True same show ?thesis by (cases "held_in (ti_name (out ! k)) out = []") (simp_all add: with_blockers_def)
  next
    case False
    then have "explain_at k ?xs = ?xs" by (auto simp: explain_at_def n)
    moreover have "with_blockers out (out ! k) = out ! k" using False by (auto simp: with_blockers_def)
    ultimately show ?thesis using same by simp
  qed
  show ?thesis unfolding e u using assms(2) by (simp add: take_Suc_conv_app_nth)
qed

lemma explain_all:
  assumes "\<forall>i\<in>set out. flat i"
  shows "fold explain_at [0..<length out] out = map (with_blockers out) out"
proof -
  have "k \<le> length out \<Longrightarrow> fold explain_at [0..<k] out = map (with_blockers out) (take k out) @ drop k out" for k
    by (induction k) (simp_all add: explain_at_step [OF assms])
  from this [of "length out"] show ?thesis by simp
qed

lemma true_conditions_get:
  "mget (true_conditions ns) t = find (\<lambda>c. cn_status c = ''True'' \<and> cn_type c = t) (List.rev (nz_conditions ns))"
proof -
  have "mget (fold (\<lambda>c m. if cn_status c = ''True'' then mput (cn_type c) c m else m) cs []) t =
      find (\<lambda>c. cn_status c = ''True'' \<and> cn_type c = t) (List.rev cs)" for cs
    by (induction cs rule: rev_induct) auto
  then show ?thesis by (simp add: true_conditions_def)
qed

lemma ns_reason_fall_through: "fall_through (ns_reason u ns) \<longleftrightarrow> \<not> blocking_condition ns"
proof -
  let ?found = "List.map_filter (\<lambda>t. map_option (Pair t) (mget (true_conditions ns) t)) ns_condition_order"
  have e: "?found = [] \<longleftrightarrow> \<not> blocking_condition ns"
    by (auto simp: map_filter_def filter_empty_conv true_conditions_get blocking_condition_def find_None_iff)
  show ?thesis
  proof (cases ?found)
    case Nil
    then have "\<exists>r. ns_reason u ns = ''finalizers '' @ r \<or> ns_reason u ns = ''deletion pending'' @ r"
      unfolding ns_reason_def by (auto simp: Let_def)
    then have "fall_through (ns_reason u ns)"
      by (auto simp: fall_through_def list_all_iff ns_condition_order_def has_prefix_def)
    with Nil e show ?thesis by simp
  next
    case (Cons p ps)
    have "p \<in> set ?found" by (simp add: Cons)
    then have "fst p \<in> set ns_condition_order" by (auto simp: set_map_filter)
    moreover have "has_prefix (ns_reason u ns) (fst p @ dash)"
      unfolding ns_reason_def Cons by (auto simp: has_prefix_iff split: prod.splits)
    ultimately have "\<not> fall_through (ns_reason u ns)" by (auto simp: fall_through_def list_all_iff)
    with Cons e show ?thesis by simp
  qed
qed

lemma term_less_key: "term_less = key_less (\<lambda>i. (ti_kind i, ti_namespace i, ti_name i))"
  by (auto simp: fun_eq_iff term_less_def key_less_def lex_less)

definition stuck_objects ::
    "unicode_tables \<Rightarrow> namespace_object list \<Rightarrow> ending_pod list \<Rightarrow> pvc_object list \<Rightarrow> node_object list \<Rightarrow> duration \<Rightarrow> time \<Rightarrow>
     term_issue list" where
  "stuck_objects u nss pods cs nodes threshold now =
     List.map_filter (stuck_namespace u threshold now) nss @ List.map_filter (stuck_pod nodes threshold now) pods @
     List.map_filter (stuck_claim pods threshold now) cs"

lemma assess_terminating_eq:
  assumes "\<forall>ns\<in>set nss. nz_name ns \<noteq> []"
  shows "assess_terminating u nss pods cs nodes threshold now =
    map (with_blockers (sort_slice term_less (stuck_objects u nss pods cs nodes threshold now)))
      (sort_slice term_less (stuck_objects u nss pods cs nodes threshold now))"
proof -
  have "\<forall>i\<in>set (sort_slice term_less (stuck_objects u nss pods cs nodes threshold now)). flat i"
    using assms by (auto simp: stuck_objects_def set_map_filter stuck_namespace_def stuck_pod_def stuck_claim_def flat_def)
  from explain_all [OF this] show ?thesis by (simp add: assess_terminating_def stuck_objects_def Let_def)
qed

text \<open>
  What is listed as stuck is exactly what has been terminating for longer than the threshold, in
  the order of kind, namespace and name. A stuck namespace is given its blocking condition where it
  has one, and otherwise the first three of the listed objects inside it, with the reasons they are
  themselves listed with: nothing that is not in the list is ever named as a blocker.
\<close>

theorem stuck_explained:
  assumes "\<forall>ns\<in>set nss. nz_name ns \<noteq> []"
  shows "mset (map (\<lambda>i. (ti_kind i, ti_namespace i, ti_name i, ti_age i)) (assess_terminating u nss pods cs nodes threshold now)) =
      mset (map (\<lambda>i. (ti_kind i, ti_namespace i, ti_name i, ti_age i)) (stuck_objects u nss pods cs nodes threshold now)) \<and>
    sorted (map (\<lambda>i. (ti_kind i, ti_namespace i, ti_name i)) (assess_terminating u nss pods cs nodes threshold now)) \<and>
    (\<forall>ns\<in>set nss. \<forall>age. stuck_for (nz_deleted ns) threshold now = Some age \<longrightarrow>
      (\<exists>i\<in>set (assess_terminating u nss pods cs nodes threshold now).
        ti_kind i = ''Namespace'' \<and> ti_name i = nz_name ns \<and> ti_age i = age \<and>
        ti_reason i = ns_reason u ns @
          (if blocking_condition ns \<or> held_in (nz_name ns) (assess_terminating u nss pods cs nodes threshold now) = [] then []
           else dash @ ''blocked by '' @
             cap_list (map blocker_text (held_in (nz_name ns) (assess_terminating u nss pods cs nodes threshold now))) 3)))"
proof (intro conjI ballI allI impI)
  let ?objs = "stuck_objects u nss pods cs nodes threshold now"
  let ?out = "sort_slice term_less ?objs"
  note eq = assess_terminating_eq [OF assms, of u pods cs nodes threshold now]
  show "mset (map (\<lambda>i. (ti_kind i, ti_namespace i, ti_name i, ti_age i)) (assess_terminating u nss pods cs nodes threshold now)) =
      mset (map (\<lambda>i. (ti_kind i, ti_namespace i, ti_name i, ti_age i)) ?objs)"
    unfolding eq by (simp add: o_def)
  have "sorted (map (\<lambda>i. (ti_kind i, ti_namespace i, ti_name i)) ?out)"
    unfolding term_less_key key_sorted_iff [symmetric] by (rule kl.sort_sorted)
  then show "sorted (map (\<lambda>i. (ti_kind i, ti_namespace i, ti_name i)) (assess_terminating u nss pods cs nodes threshold now))"
    unfolding eq by (simp add: o_def)
  fix ns age assume ns: "ns \<in> set nss" "stuck_for (nz_deleted ns) threshold now = Some age"
  let ?i = "\<lparr>ti_kind = ''Namespace'', ti_namespace = [], ti_name = nz_name ns, ti_age = age, ti_past_grace = False,
      ti_reason = ns_reason u ns\<rparr>"
  have fl: "\<forall>i\<in>set ?out. flat i"
    using assms by (auto simp: stuck_objects_def set_map_filter stuck_namespace_def stuck_pod_def stuck_claim_def flat_def)
  have held: "held_in (nz_name ns) (assess_terminating u nss pods cs nodes threshold now) = held_in (nz_name ns) ?out"
    unfolding eq by (rule held_in_with_blockers [OF fl]) (use assms ns in auto)
  have "stuck_namespace u threshold now ns = Some ?i" using ns by (simp add: stuck_namespace_def)
  then have "?i \<in> set ?out" using ns(1) by (auto simp: stuck_objects_def set_map_filter)
  then have mem: "with_blockers ?out ?i \<in> set (assess_terminating u nss pods cs nodes threshold now)" unfolding eq by simp
  show "\<exists>i\<in>set (assess_terminating u nss pods cs nodes threshold now).
      ti_kind i = ''Namespace'' \<and> ti_name i = nz_name ns \<and> ti_age i = age \<and>
      ti_reason i = ns_reason u ns @
        (if blocking_condition ns \<or> held_in (nz_name ns) (assess_terminating u nss pods cs nodes threshold now) = [] then []
         else dash @ ''blocked by '' @
           cap_list (map blocker_text (held_in (nz_name ns) (assess_terminating u nss pods cs nodes threshold now))) 3)"
    by (rule bexI [OF _ mem]) (auto simp: with_blockers_def held ns_reason_fall_through)
qed

definition stuck_web :: namespace_object where
  "stuck_web = \<lparr>nz_name = ''web'', nz_deleted = Some 0, nz_conditions = [], nz_finalizers = [''kubernetes'']\<rparr>"

definition held_pod :: ending_pod where
  "held_pod = \<lparr>ep_namespace = ''web'', ep_name = ''a'', ep_deleted = Some 0, ep_finalizers = [''x/y''], ep_node = [], ep_volumes = []\<rparr>"

theorem stuck_explained_witness:
  "\<exists>i\<in>set (assess_terminating small_tables [stuck_web] [held_pod] [] [] minute (2 * hour)).
     ti_name i = ''web'' \<and> has_suffix (ti_reason i) ''blocked by web/a (Pod, finalizer x/y)''"
proof -
  let ?r = "assess_terminating small_tables [stuck_web] [held_pod] [] [] minute (2 * hour)"
  have two: "itoa 2 = ''2''" by code_simp
  have ne: "\<forall>ns\<in>set [stuck_web]. nz_name ns \<noteq> []" by (simp add: stuck_web_def)
  have nm: "nz_name stuck_web = ''web''" by (simp add: stuck_web_def)
  have age: "stuck_for (nz_deleted stuck_web) minute (2 * hour) = Some ''2h''"
    by (simp add: stuck_for_def stuck_web_def time_sub_def max_duration_def min_duration_def time_units compact_dur_def two)
  have h: "held_in ''web'' ?r = [\<lparr>ti_kind = ''Pod'', ti_namespace = ''web'', ti_name = ''a'', ti_age = ''2h'', ti_past_grace = True,
      ti_reason = ''finalizer x/y''\<rparr>]"
    unfolding assess_terminating_eq [OF ne]
    by (simp add: stuck_objects_def map_filter_simps stuck_namespace_def stuck_pod_def stuck_web_def held_pod_def stuck_for_def
        time_sub_def max_duration_def min_duration_def time_units compact_dur_def two term_less_def held_in_def with_blockers_def ending_pod_reason_def)
  have "\<exists>i\<in>set ?r. ti_kind i = ''Namespace'' \<and> ti_name i = ''web'' \<and> ti_age i = ''2h'' \<and>
      ti_reason i = ns_reason small_tables stuck_web @
        (if blocking_condition stuck_web \<or> held_in ''web'' ?r = [] then []
         else dash @ ''blocked by '' @ cap_list (map blocker_text (held_in ''web'' ?r)) 3)"
    using stuck_explained [OF ne, of small_tables "[held_pod]" "[]" "[]" minute "2 * hour", THEN conjunct2, THEN conjunct2,
        rule_format, OF _ age] by (simp only: nm list.set insert_iff simp_thms)
  moreover have "\<not> blocking_condition stuck_web" by (simp add: blocking_condition_def stuck_web_def)
  ultimately show ?thesis
    unfolding h by (auto simp: cap_list_def blocker_text_def has_suffix_iff)
qed

end
