(* ===== verification/Object_Health.thy ===== *)
theory Object_Health
  imports Resources
begin

text \<open>
  The assessors that read one kind of object each: \<open>internal/pdbhealth\<close>, \<open>internal/hpahealth\<close>,
  \<open>internal/quotahealth\<close> and \<open>internal/pvcreclaim\<close>.
\<close>

section \<open>PodDisruptionBudgets\<close>

text \<open>A rule is the text of its \<open>IntOrString\<close>.\<close>

record pdb_object =
  pb_namespace :: string
  pb_name :: string
  pb_min_available :: "string option"
  pb_max_unavailable :: "string option"
  pb_expected :: int
  pb_desired :: int
  pb_current :: int
  pb_allowed :: int

definition pdb_rule :: "pdb_object \<Rightarrow> string" where
  "pdb_rule p = (case pb_min_available p of Some t \<Rightarrow> ''minAvailable: '' @ t
     | None \<Rightarrow> (case pb_max_unavailable p of Some t \<Rightarrow> ''maxUnavailable: '' @ t | None \<Rightarrow> []))"

definition classify_pdb :: "pdb_object \<Rightarrow> (string \<times> string) option" where
  "classify_pdb p =
    (if pb_min_available p = None \<and> pb_max_unavailable p = None
     then Some (''unsatisfiable'', ''neither minAvailable nor maxUnavailable is set'' @ dash @
       ''the API server allows no voluntary eviction at all; every node drain will hang'')
     else if pb_expected p = 0 then Some (''stale'', ''selector currently matches no pods'')
     else if pb_expected p = 1 \<and> pb_desired p \<ge> pb_expected p
     then Some (''singleton'', ''single-replica workload with no disruption headroom'' @ dash @
       ''often deliberate, but no voluntary eviction is possible; draining its node will hang'')
     else if pb_expected p > 1 \<and> pb_desired p \<ge> pb_expected p
     then (if pb_desired p > pb_expected p
           then Some (''unsatisfiable'', ''requires '' @ itoa (pb_desired p) @ '' healthy pods but only '' @ itoa (pb_expected p) @
             '' exist'' @ dash @ ''no voluntary eviction can ever proceed; every node drain will hang'')
           else Some (''unsatisfiable'', ''covers all '' @ itoa (pb_expected p) @ '' pods'' @ dash @
             ''no voluntary eviction can ever proceed; every node drain will hang''))
     else if pb_allowed p = 0 \<and> pb_current p < pb_desired p
     then Some (''blocking'', ''PDB status reports '' @ itoa (pb_current p) @ ''/'' @ itoa (pb_desired p) @ '' guarded pods healthy'')
     else None)"

definition pdb_issue_of :: "pdb_object \<Rightarrow> pdb_issue option" where
  "pdb_issue_of p = map_option (\<lambda>c. \<lparr>bi_namespace = pb_namespace p, bi_name = pb_name p,
     bi_rule = (if pdb_rule p = [] then ''(no rule set)'' else pdb_rule p), bi_category = fst c, bi_reason = snd c\<rparr>)
     (classify_pdb p)"

definition assess_pdbs :: "pdb_object list \<Rightarrow> pdb_issue list" where
  "assess_pdbs ps = sort_slice (\<lambda>a b. if bi_namespace a \<noteq> bi_namespace b then bi_namespace a < bi_namespace b
     else bi_name a < bi_name b) (List.map_filter pdb_issue_of ps)"

section \<open>HorizontalPodAutoscalers\<close>

record hpa_condition =
  hc_type :: string
  hc_status :: string
  hc_reason :: string
  hc_message :: string

record hpa_object =
  ho_namespace :: string
  ho_name :: string
  ho_target_kind :: string
  ho_target_name :: string
  ho_conditions :: "hpa_condition list"
  ho_current :: int
  ho_max :: int

definition hpa_condition_of :: "hpa_object \<Rightarrow> string \<Rightarrow> hpa_condition option" where
  "hpa_condition_of h t = find (\<lambda>c. hc_type c = t) (ho_conditions h)"

text \<open>\<open>strings.TrimRight(strings.TrimSpace(s), ". ")\<close>\<close>

definition trim_msg :: "string \<Rightarrow> string" where
  "trim_msg s = rdrop_while (\<lambda>c. c = CHR ''.'' \<or> c = CHR '' '') (trim_space s)"

definition hpa_reason :: "string \<Rightarrow> string \<Rightarrow> string" where
  "hpa_reason pre msg = (let m = trim_msg msg in if m \<noteq> [] then pre @ dash @ m else pre)"

text \<open>The condition of a type, where it has a status.\<close>

definition condition_with :: "hpa_object \<Rightarrow> string \<Rightarrow> string \<Rightarrow> hpa_condition option" where
  "condition_with h t status = (case hpa_condition_of h t of None \<Rightarrow> None
     | Some c \<Rightarrow> if hc_status c = status then Some c else None)"

definition classify_limited :: "hpa_object \<Rightarrow> (string \<times> string) option" where
  "classify_limited h =
    (case condition_with h ''ScalingLimited'' ''True'' of
       None \<Rightarrow> None
     | Some c \<Rightarrow>
         if hc_reason c \<noteq> ''TooManyReplicas'' then None
         else if ho_current h < ho_max h
         then Some (''capped'', ''at '' @ itoa (ho_current h) @ '' of maxReplicas '' @ itoa (ho_max h) @ dash @ ''desired exceeds the cap'')
         else Some (''capped'', ''pinned at maxReplicas '' @ itoa (ho_max h) @ dash @ ''desired exceeds the cap''))"

definition classify_hpa :: "unicode_tables \<Rightarrow> hpa_object \<Rightarrow> (string \<times> string) option" where
  "classify_hpa u h =
    (case condition_with h ''AbleToScale'' ''False'' of
       Some c \<Rightarrow> Some (''unable'', hpa_reason (''can'' @ [CHR 0x27] @ ''t scale'') (line u (hc_message c)))
     | None \<Rightarrow>
         (case condition_with h ''ScalingActive'' ''False'' of
            Some c \<Rightarrow>
              if hc_reason c = ''ScalingDisabled'' then Some (''disabled'', hpa_reason ''scaling is disabled'' (line u (hc_message c)))
              else if hc_reason c = ''AmbiguousSelector''
              then Some (''ambiguous'', hpa_reason ''two HPAs target the same pods'' (line u (hc_message c)))
              else Some (''metrics'', hpa_reason (''can'' @ [CHR 0x27] @ ''t fetch metrics'') (line u (hc_message c)))
          | None \<Rightarrow> classify_limited h))"

definition hpa_issue_of :: "unicode_tables \<Rightarrow> hpa_object \<Rightarrow> hpa_issue option" where
  "hpa_issue_of u h = map_option (\<lambda>c. \<lparr>hi_namespace = ho_namespace h, hi_name = ho_name h,
     hi_target = line u (ho_target_kind h) @ ''/'' @ line u (ho_target_name h),
     hi_category = fst c, hi_reason = snd c\<rparr>) (classify_hpa u h)"

definition assess_hpas :: "unicode_tables \<Rightarrow> hpa_object list \<Rightarrow> hpa_issue list" where
  "assess_hpas u hs = sort_slice (\<lambda>a b. if hi_namespace a \<noteq> hi_namespace b then hi_namespace a < hi_namespace b
     else hi_name a < hi_name b) (List.map_filter (hpa_issue_of u) hs)"

section \<open>ResourceQuotas\<close>

text \<open>
  \<open>AsApproximateFloat64\<close> and \<open>String\<close> of a quantity are functions; a quantity that is missing from
  \<open>used\<close> is the zero quantity.
\<close>

record quota_object =
  qo_namespace :: string
  qo_name :: string
  qo_hard :: "(string, string) gomap"
  qo_used :: "(string, string) gomap"

record approx_lib =
  ap_float :: "string \<Rightarrow> rat"
  ap_string :: "string \<Rightarrow> string"

definition quota_entry :: "approx_lib \<Rightarrow> rat \<Rightarrow> quota_object \<Rightarrow> string \<times> string \<Rightarrow> quota_issue option" where
  "quota_entry ap limit q e =
    (let hf = ap_float ap (snd e); used = mget_zero zero_quantity (qo_used q) (fst e) in
     if hf \<le> 0 then None
     else let ratio = nearest_double (ap_float ap used / hf) in
       if ratio < limit then None
       else Some \<lparr>qi_namespace = qo_namespace q, qi_quota = qo_name q, qi_resource = fst e, qi_used = ap_string ap used,
         qi_hard = ap_string ap (snd e), qi_ratio = ratio, qi_severity = (if ratio \<ge> 1 then ''exhausted'' else ''near'')\<rparr>)"

definition sev_rank :: "string \<Rightarrow> nat" where
  "sev_rank s = (if s = ''exhausted'' then 0 else 1)"

definition quota_less :: "quota_issue \<Rightarrow> quota_issue \<Rightarrow> bool" where
  "quota_less a b =
    (if sev_rank (qi_severity a) \<noteq> sev_rank (qi_severity b) then sev_rank (qi_severity a) < sev_rank (qi_severity b)
     else if qi_ratio a \<noteq> qi_ratio b then qi_ratio a > qi_ratio b
     else if qi_namespace a \<noteq> qi_namespace b then qi_namespace a < qi_namespace b
     else if qi_quota a \<noteq> qi_quota b then qi_quota a < qi_quota b
     else qi_resource a < qi_resource b)"

definition assess_quotas :: "approx_lib \<Rightarrow> quota_object list \<Rightarrow> rat \<Rightarrow> quota_issue list" where
  "assess_quotas ap qs limit =
    sort_slice quota_less (concat (map (\<lambda>q. List.map_filter (quota_entry ap limit q) (qo_hard q)) qs))"

section \<open>Reclaim policies\<close>

record claim_object =
  co_namespace :: string
  co_name :: string
  co_phase :: string
  co_volume :: string
  co_storage_class :: "string option"
  co_capacity :: "(string, string) gomap"

record volume_object =
  vo_name :: string
  vo_reclaim :: string

record pvc_reclaim =
  pr_namespace :: string
  pr_name :: string
  pr_pv :: string
  pr_storage_class :: string
  pr_capacity :: string

definition reclaim_policies :: "volume_object list \<Rightarrow> (string, string) gomap" where
  "reclaim_policies vs = fold (\<lambda>v. mput (vo_name v) (vo_reclaim v)) vs []"

definition reclaim_of :: "approx_lib \<Rightarrow> (string, string) gomap \<Rightarrow> claim_object \<Rightarrow> pvc_reclaim option" where
  "reclaim_of ap policy c =
    (if co_phase c \<noteq> ''Bound'' \<or> co_volume c = [] then None
     else if mget policy (co_volume c) \<noteq> Some ''Delete'' then None
     else Some \<lparr>pr_namespace = co_namespace c, pr_name = co_name c, pr_pv = co_volume c,
       pr_storage_class = (case co_storage_class c of None \<Rightarrow> [] | Some t \<Rightarrow> t),
       pr_capacity = (case mget (co_capacity c) ''storage'' of None \<Rightarrow> [] | Some t \<Rightarrow> ap_string ap t)\<rparr>)"

definition assess_reclaim :: "approx_lib \<Rightarrow> claim_object list \<Rightarrow> volume_object list \<Rightarrow> pvc_reclaim list \<times> nat" where
  "assess_reclaim ap cs vs = (let out = List.map_filter (reclaim_of ap (reclaim_policies vs)) cs in (out, length out))"

section \<open>What a disruption budget blocks\<close>

text \<open>
  What the disruption controller documents about a status it maintains: at most the expected pods are
  healthy, and the evictions it allows are the healthy pods above the desired ones.
\<close>

definition status_maintained :: "pdb_object \<Rightarrow> bool" where
  "status_maintained p \<longleftrightarrow> 0 < pb_expected p \<and> 0 \<le> pb_current p \<and> pb_current p \<le> pb_expected p \<and>
     pb_allowed p = max 0 (pb_current p - pb_desired p)"

definition listed_pdb :: "pdb_object list \<Rightarrow> pdb_object \<Rightarrow> pdb_issue \<Rightarrow> bool" where
  "listed_pdb ps p i \<longleftrightarrow> i \<in> set (assess_pdbs ps) \<and> bi_namespace i = pb_namespace p \<and> bi_name i = pb_name p"

lemma pdb_issue_of_ref: "pdb_issue_of p = Some i \<Longrightarrow> bi_namespace i = pb_namespace p \<and> bi_name i = pb_name p"
  by (auto simp: pdb_issue_of_def)

lemma listed_pdb_iff:
  assumes "p \<in> set ps" and "distinct (map (\<lambda>p. (pb_namespace p, pb_name p)) ps)"
  shows "listed_pdb ps p i \<longleftrightarrow> pdb_issue_of p = Some i"
proof
  assume "listed_pdb ps p i"
  then obtain p' where p': "p' \<in> set ps" "pdb_issue_of p' = Some i" "bi_namespace i = pb_namespace p" "bi_name i = pb_name p"
    by (auto simp: listed_pdb_def assess_pdbs_def set_map_filter)
  with pdb_issue_of_ref [OF p'(2)] have "p' = p" using assms by (auto simp: distinct_map inj_on_def)
  with p' show "pdb_issue_of p = Some i" by simp
next
  assume "pdb_issue_of p = Some i"
  with assms(1) pdb_issue_of_ref show "listed_pdb ps p i"
    by (auto simp: listed_pdb_def assess_pdbs_def set_map_filter)
qed

lemma classify_pdb_iff:
  assumes "pb_min_available p \<noteq> None \<or> pb_max_unavailable p \<noteq> None" and "status_maintained p"
  shows "classify_pdb p \<noteq> None \<longleftrightarrow> pb_expected p \<le> pb_desired p \<or> pb_current p < pb_desired p"
    and "classify_pdb p = Some c \<Longrightarrow> fst c \<in> {''singleton'', ''unsatisfiable''} \<longleftrightarrow> pb_expected p \<le> pb_desired p"
  using assms by (auto simp: classify_pdb_def status_maintained_def split: if_splits)

section \<open>Quotas in any order\<close>

definition quota_key :: "quota_issue \<Rightarrow> nat \<times> rat \<times> string \<times> string \<times> string" where
  "quota_key i = (sev_rank (qi_severity i), - qi_ratio i, qi_namespace i, qi_quota i, qi_resource i)"

lemma quota_less_key: "quota_less = key_less quota_key"
  by (auto simp: fun_eq_iff quota_less_def key_less_def quota_key_def lex_less)

definition quota_issues :: "approx_lib \<Rightarrow> rat \<Rightarrow> quota_object list \<Rightarrow> quota_issue list" where
  "quota_issues ap limit qs = concat (map (\<lambda>q. List.map_filter (quota_entry ap limit q) (qo_hard q)) qs)"

lemma quota_entry_ref: "quota_entry ap limit q e = Some i \<Longrightarrow>
    qi_namespace i = qo_namespace q \<and> qi_quota i = qo_name q \<and> qi_resource i = fst e"
  by (auto simp: quota_entry_def Let_def split: if_splits)

lemma quota_issues_iff:
  "i \<in> set (quota_issues ap limit qs) \<longleftrightarrow> (\<exists>q\<in>set qs. \<exists>e\<in>set (qo_hard q). quota_entry ap limit q e = Some i)"
  by (auto simp: quota_issues_def set_map_filter)

lemma quota_issues_inj:
  assumes "distinct (map (\<lambda>q. (qo_namespace q, qo_name q)) qs)" and "\<forall>q\<in>set qs. mok (qo_hard q)"
  shows "inj_on quota_key (set (quota_issues ap limit qs))"
proof (rule inj_onI)
  fix i j assume ij: "i \<in> set (quota_issues ap limit qs)" "j \<in> set (quota_issues ap limit qs)" "quota_key i = quota_key j"
  from ij obtain q e q' e' where w: "q \<in> set qs" "e \<in> set (qo_hard q)" "quota_entry ap limit q e = Some i"
    "q' \<in> set qs" "e' \<in> set (qo_hard q')" "quota_entry ap limit q' e' = Some j"
    by (auto simp: quota_issues_iff)
  have k: "qi_namespace i = qi_namespace j" "qi_quota i = qi_quota j" "qi_resource i = qi_resource j"
    using ij(3) by (simp_all add: quota_key_def)
  have "(qo_namespace q, qo_name q) = (qo_namespace q', qo_name q')" and "fst e = fst e'"
    using quota_entry_ref [OF w(3)] quota_entry_ref [OF w(6)] k by simp_all
  with w(1,4) assms(1) have "q' = q" by (auto simp: distinct_map inj_on_def)
  moreover from this have "e' = e" using w assms(2) \<open>fst e = fst e'\<close>
    by (metis eq_key_imp_eq_value mok_def prod.collapse)
  ultimately show "i = j" using w by simp
qed

lemma mset_map_filter: "mset xs = mset ys \<Longrightarrow> mset (List.map_filter f xs) = mset (List.map_filter f ys)"
proof -
  have e: "mset (List.map_filter f zs) = image_mset (the \<circ> f) (filter_mset (\<lambda>x. f x \<noteq> None) (mset zs))" for zs
    by (induction zs) (auto split: option.split)
  show "mset xs = mset ys \<Longrightarrow> mset (List.map_filter f xs) = mset (List.map_filter f ys)" by (simp add: e)
qed

text \<open>The same quota read twice, its limits in another order.\<close>

definition same_quota :: "quota_object \<Rightarrow> quota_object \<Rightarrow> bool" where
  "same_quota a b \<longleftrightarrow> qo_namespace a = qo_namespace b \<and> qo_name a = qo_name b \<and> qo_used a = qo_used b \<and>
     mset (qo_hard a) = mset (qo_hard b)"

lemma quota_issues_perm:
  assumes "list_all2 same_quota qs qs'"
  shows "mset (quota_issues ap limit qs) = mset (quota_issues ap limit qs')"
  using assms
proof (induction rule: list_all2_induct)
  case (Cons q qs q' qs')
  have same: "qo_namespace q = qo_namespace q'" "qo_name q = qo_name q'" "qo_used q = qo_used q'"
    using Cons(1) by (simp_all add: same_quota_def)
  have "quota_entry ap limit q = quota_entry ap limit q'"
    unfolding fun_eq_iff quota_entry_def same by simp
  moreover have "mset (List.map_filter (quota_entry ap limit q') (qo_hard q)) =
    mset (List.map_filter (quota_entry ap limit q') (qo_hard q'))"
    using Cons(1) by (intro mset_map_filter) (simp add: same_quota_def)
  ultimately show ?case using Cons(3) by (simp add: quota_issues_def)
qed (simp add: quota_issues_def)

lemma assess_quotas_eq: "assess_quotas ap qs limit = sort_slice (key_less quota_key) (quota_issues ap limit qs)"
  by (simp add: assess_quotas_def quota_issues_def quota_less_key)

section \<open>Properties\<close>

text \<open>
  What a listed PodDisruptionBudget means, for a status the disruption controller maintains: a budget
  with a rule is listed exactly when no eviction can ever be allowed, or when it allows none now
  because pods are missing. It is called unsatisfiable or a singleton exactly in the first case:
  then no number of healthy pods would allow one. A budget that is not listed allows an eviction
  now, or is healthy and exactly at its floor with room above it.
\<close>

theorem pdb_blocks_drain:
  assumes "p \<in> set ps" and "distinct (map (\<lambda>p. (pb_namespace p, pb_name p)) ps)"
    and "pb_min_available p \<noteq> None \<or> pb_max_unavailable p \<noteq> None" and "status_maintained p"
  shows "((\<exists>i. listed_pdb ps p i) \<longleftrightarrow> pb_expected p \<le> pb_desired p \<or> pb_current p < pb_desired p) \<and>
    (\<forall>i. listed_pdb ps p i \<longrightarrow>
       (bi_category i \<in> {''singleton'', ''unsatisfiable''} \<longleftrightarrow> (\<forall>healthy\<le>pb_expected p. max 0 (healthy - pb_desired p) = 0)) \<and>
       pb_allowed p = 0) \<and>
    (\<not> (\<exists>i. listed_pdb ps p i) \<longrightarrow> pb_desired p < pb_expected p \<and> (0 < pb_allowed p \<or> pb_current p = pb_desired p))"
proof -
  note l = listed_pdb_iff [OF assms(1,2)] and c = classify_pdb_iff [OF assms(3,4)]
  have ex: "(\<exists>i. listed_pdb ps p i) \<longleftrightarrow> pb_expected p \<le> pb_desired p \<or> pb_current p < pb_desired p"
    using c(1) by (auto simp: l pdb_issue_of_def)
  have never: "(\<forall>healthy\<le>pb_expected p. max 0 (healthy - pb_desired p) = 0) \<longleftrightarrow> pb_expected p \<le> pb_desired p"
    by (auto simp: max_def) (metis eq_iff linear)
  have "(bi_category i \<in> {''singleton'', ''unsatisfiable''} \<longleftrightarrow> pb_expected p \<le> pb_desired p) \<and> pb_allowed p = 0"
    if w: "listed_pdb ps p i" for i
  proof -
    obtain k where k: "classify_pdb p = Some k" "bi_category i = fst k"
      using w unfolding l by (cases "classify_pdb p") (auto simp: pdb_issue_of_def)
    have "pb_expected p \<le> pb_desired p \<or> pb_current p < pb_desired p" using ex w by blast
    then have "pb_allowed p = 0" using assms(4) by (auto simp: status_maintained_def)
    with c(2) [OF k(1)] k(2) show ?thesis by simp
  qed
  with ex never assms(4) show ?thesis by (auto simp: status_maintained_def)
qed

definition floor_pdb :: pdb_object where
  "floor_pdb = \<lparr>pb_namespace = ''prod'', pb_name = ''web'', pb_min_available = Some ''2'', pb_max_unavailable = None,
     pb_expected = 3, pb_desired = 2, pb_current = 1, pb_allowed = 0\<rparr>"

theorem pdb_blocks_drain_witness:
  "\<exists>i. listed_pdb [floor_pdb] floor_pdb i"
  using pdb_blocks_drain [of floor_pdb "[floor_pdb]"] by (simp add: floor_pdb_def status_maintained_def)

text \<open>
  The quota issues do not depend on the order a map is iterated in: reading the same quotas with their
  limits in another order gives the same list. An entry is reported exactly when its limit is
  positive and its ratio reaches the threshold, as exhausted exactly when the ratio is at least 1.
\<close>

theorem quotas_in_any_order:
  assumes "distinct (map (\<lambda>q. (qo_namespace q, qo_name q)) qs)" and "\<forall>q\<in>set qs. mok (qo_hard q)"
    and "list_all2 same_quota qs qs'"
  shows "assess_quotas ap qs limit = assess_quotas ap qs' limit \<and>
    (\<forall>q\<in>set qs. \<forall>(n, hard)\<in>set (qo_hard q).
       (\<exists>i\<in>set (assess_quotas ap qs limit). qi_namespace i = qo_namespace q \<and> qi_quota i = qo_name q \<and> qi_resource i = n) \<longleftrightarrow>
         0 < ap_float ap hard \<and>
         limit \<le> nearest_double (ap_float ap (mget_zero zero_quantity (qo_used q) n) / ap_float ap hard)) \<and>
    (\<forall>i\<in>set (assess_quotas ap qs limit). qi_severity i = ''exhausted'' \<longleftrightarrow> 1 \<le> qi_ratio i)"
proof (intro conjI ballI)
  show "assess_quotas ap qs limit = assess_quotas ap qs' limit"
    unfolding assess_quotas_eq
    by (rule sort_slice_inj [OF quota_issues_perm [OF assms(3)] quota_issues_inj [OF assms(1,2)]])
next
  fix i assume "i \<in> set (assess_quotas ap qs limit)"
  then show "qi_severity i = ''exhausted'' \<longleftrightarrow> 1 \<le> qi_ratio i"
    by (auto simp: assess_quotas_eq quota_issues_iff quota_entry_def Let_def split: if_splits)
next
  fix q e assume q: "q \<in> set qs" and e: "e \<in> set (qo_hard q)"
  obtain n hard where [simp]: "e = (n, hard)" by (cases e)
  have "(\<exists>i\<in>set (assess_quotas ap qs limit). qi_namespace i = qo_namespace q \<and> qi_quota i = qo_name q \<and> qi_resource i = n) \<longleftrightarrow>
    quota_entry ap limit q (n, hard) \<noteq> None"
  proof
    assume "\<exists>i\<in>set (assess_quotas ap qs limit). qi_namespace i = qo_namespace q \<and> qi_quota i = qo_name q \<and> qi_resource i = n"
    then obtain i q' e' where w: "q' \<in> set qs" "e' \<in> set (qo_hard q')" "quota_entry ap limit q' e' = Some i"
      "qi_namespace i = qo_namespace q" "qi_quota i = qo_name q" "qi_resource i = n"
      by (auto simp: assess_quotas_eq quota_issues_iff)
    with quota_entry_ref [OF w(3)] q assms(1) have "q' = q" "fst e' = n" by (auto simp: distinct_map inj_on_def)
    then have "e' = (n, hard)" using w(2) e q assms(2) by (metis \<open>e = (n, hard)\<close> eq_key_imp_eq_value mok_def prod.collapse)
    with w(3) \<open>q' = q\<close> show "quota_entry ap limit q (n, hard) \<noteq> None" by simp
  next
    assume "quota_entry ap limit q (n, hard) \<noteq> None"
    then obtain i where i: "quota_entry ap limit q (n, hard) = Some i" by blast
    then have "i \<in> set (assess_quotas ap qs limit)" using q e by (auto simp: assess_quotas_eq quota_issues_iff)
    with quota_entry_ref [OF i]
    show "\<exists>i\<in>set (assess_quotas ap qs limit). qi_namespace i = qo_namespace q \<and> qi_quota i = qo_name q \<and> qi_resource i = n"
      by auto
  qed
  then show "case e of (n, hard) \<Rightarrow>
      (\<exists>i\<in>set (assess_quotas ap qs limit). qi_namespace i = qo_namespace q \<and> qi_quota i = qo_name q \<and> qi_resource i = n) \<longleftrightarrow>
         0 < ap_float ap hard \<and>
         limit \<le> nearest_double (ap_float ap (mget_zero zero_quantity (qo_used q) n) / ap_float ap hard)"
    by (auto simp: quota_entry_def Let_def not_le not_less)
qed

definition unary_floats :: approx_lib where
  "unary_floats = \<lparr>ap_float = (\<lambda>t. of_nat (length t)), ap_string = (\<lambda>t. t)\<rparr>"

definition full_quota :: "(string, string) gomap \<Rightarrow> quota_object" where
  "full_quota hard = \<lparr>qo_namespace = ''prod'', qo_name = ''q'', qo_hard = hard, qo_used = [(''pods'', ''xx''), (''secrets'', ''xx'')]\<rparr>"

theorem quotas_in_any_order_witness:
  "assess_quotas unary_floats [full_quota [(''pods'', ''xx''), (''secrets'', ''xxxx'')]] (1 / 2) =
   assess_quotas unary_floats [full_quota [(''secrets'', ''xxxx''), (''pods'', ''xx'')]] (1 / 2)"
  using quotas_in_any_order [of "[full_quota [(''pods'', ''xx''), (''secrets'', ''xxxx'')]]"
      "[full_quota [(''secrets'', ''xxxx''), (''pods'', ''xx'')]]" unary_floats "1 / 2"]
  by (auto simp: full_quota_def same_quota_def)

end
