(* ===== verification/Probe_Failure.thy ===== *)
theory Probe_Failure
  imports Diagnose
begin

text \<open>
  \<open>internal/diagnose/probefailure.go\<close>: the detector that names the failing probe. The probe's output
  must not be forwarded, so everything in the finding is built from fixed strings, a number and the
  container's name. \<open>http_status_code\<close> slices the message at an offset found in its lower-cased copy;
  where the offset is out of range the slice panics.
\<close>

section \<open>Classification\<close>

definition http_status_code :: "unicode_tables \<Rightarrow> string \<Rightarrow> string go" where
  "http_status_code u msg =
    (case str_index (to_lower u msg) ''statuscode: '' of None \<Rightarrow> Return []
     | Some i \<Rightarrow>
         let start = i + length ''statuscode: ''
         in if start > length msg then Panic
            else Return (takeWhile is_digit (drop start msg)))"

definition probe_reason_tail :: "unicode_tables \<Rightarrow> string \<Rightarrow> string go" where
  "probe_reason_tail u msg =
    (let m = to_lower u msg
     in if contains m ''connection refused'' then Return ''connection refused''
        else if contains m ''connection reset'' then Return ''connection reset''
        else if contains m ''no route to host'' \<or> contains m ''network is unreachable'' then Return ''unreachable''
        else if contains m ''no such host'' \<or> contains m ''server misbehaving'' then Return ''DNS lookup failed''
        else if contains m ''context deadline exceeded'' \<or> contains m ''timeout'' then Return ''timed out''
        else if contains m ''statuscode:'' then
          go_bind (http_status_code u msg) (\<lambda>code. Return (if code \<noteq> [] then ''HTTP '' @ code else []))
        else if contains m ''not_serving'' then Return ''gRPC NOT_SERVING''
        else Return [])"

definition classify_probe :: "unicode_tables \<Rightarrow> string \<Rightarrow> (string \<times> string) go" where
  "classify_probe u msg =
    (let pt = (if has_prefix msg ''Readiness probe failed'' then ''readiness''
               else if has_prefix msg ''Liveness probe failed'' then ''liveness''
               else if has_prefix msg ''Startup probe failed'' then ''startup'' else [])
     in if pt = [] then Return ([], []) else go_bind (probe_reason_tail u msg) (\<lambda>r. Return (pt, r)))"

definition probe_weight :: "string \<Rightarrow> int" where
  "probe_weight pt = (if pt = ''liveness'' then 3 else if pt = ''startup'' then 2
     else if pt = ''readiness'' then 1 else 0)"

section \<open>Containers\<close>

fun index_byte :: "string \<Rightarrow> char \<Rightarrow> nat option" where
  "index_byte [] c = None"
| "index_byte (d # s) c = (if d = c then Some 0 else map_option Suc (index_byte s c))"

definition container_from_field_path :: "string \<Rightarrow> string" where
  "container_from_field_path fp =
    (case (index_byte fp (CHR ''{''), index_byte fp (CHR ''}'')) of
       (Some i, Some j) \<Rightarrow> if j < i then [] else take (j - (i + 1)) (drop (i + 1) fp)
     | _ \<Rightarrow> [])"

definition container_running :: "pod \<Rightarrow> string \<Rightarrow> bool" where
  "container_running p nm = (case find (\<lambda>cs. cs_name cs = nm) (p_statuses p) of
     Some cs \<Rightarrow> st_running (cs_state cs) \<noteq> None | None \<Rightarrow> False)"

definition probe_container_eligible :: "pod \<Rightarrow> string \<Rightarrow> bool" where
  "probe_container_eligible p nm = (if nm \<noteq> [] then container_running p nm else p_phase p = ''Running'')"

definition container_spec :: "pod \<Rightarrow> string \<Rightarrow> container option" where
  "container_spec p nm = (if nm = [] then None
     else first_some (find (\<lambda>c. c_name c = nm)) [p_containers p, p_init_containers p])"

definition probe_handler :: "pod \<Rightarrow> string \<Rightarrow> string \<Rightarrow> string" where
  "probe_handler p nm pt = (case container_spec p nm of None \<Rightarrow> []
     | Some c \<Rightarrow>
         let pr = (if pt = ''readiness'' then c_readiness c else if pt = ''liveness'' then c_liveness c
                   else if pt = ''startup'' then c_startup c else None)
         in case pr of None \<Rightarrow> []
            | Some q \<Rightarrow> if pr_exec q then ''exec'' else if pr_http_get q then ''httpGet''
                else if pr_tcp_socket q then ''tcpSocket'' else if pr_grpc q then ''gRPC'' else [])"

section \<open>Candidates\<close>

record probe_candidate =
  cand_container :: string
  cand_type :: string
  cand_reason :: string
  cand_event :: event

definition probe_rank_window :: duration where "probe_rank_window = 2 * minute"

text \<open>One event of the loop: skipped, classified, or a panic.\<close>

definition candidate_of :: "unicode_tables \<Rightarrow> pod \<Rightarrow> time \<Rightarrow> event \<Rightarrow> probe_candidate option go" where
  "candidate_of u p cutoff e =
    (if ev_reason e \<noteq> ''Unhealthy'' \<or> ev_last e < cutoff then Return None
     else go_bind (classify_probe u (ev_message e)) (\<lambda>(pt, r).
       if pt = [] then Return None
       else let nm = container_from_field_path (ev_field_path e)
            in Return (if \<not> probe_container_eligible p nm then None
                 else Some \<lparr>cand_container = nm, cand_type = pt, cand_reason = r, cand_event = e\<rparr>)))"

definition candidate_less :: "probe_candidate \<Rightarrow> probe_candidate \<Rightarrow> bool" where
  "candidate_less a b =
    (let ea = cand_event a; eb = cand_event b
     in if probe_weight (cand_type a) \<noteq> probe_weight (cand_type b)
        then probe_weight (cand_type a) > probe_weight (cand_type b)
        else if ev_last ea \<noteq> ev_last eb then ev_last ea > ev_last eb
        else if ev_name ea \<noteq> ev_name eb then ev_name ea < ev_name eb
        else if ev_field_path ea \<noteq> ev_field_path eb then ev_field_path ea < ev_field_path eb
        else ev_message ea < ev_message eb)"

definition probe_candidates :: "unicode_tables \<Rightarrow> pod_facts \<Rightarrow> probe_candidate list go" where
  "probe_candidates u facts =
    (case newest_event ''Unhealthy'' (pf_events facts) of None \<Rightarrow> Return []
     | Some newest \<Rightarrow>
         go_bind (go_map (candidate_of u (pf_pod facts) (ev_last newest - probe_rank_window)) (pf_events facts))
           (\<lambda>cs. Return (sort_slice candidate_less (List.map_filter (\<lambda>x. x) cs))))"

definition probe_types_for :: "probe_candidate list \<Rightarrow> string \<Rightarrow> string list" where
  "probe_types_for cands nm = fold (\<lambda>c types.
     if cand_container c \<noteq> nm then types
     else if cand_type c \<in> set types then types else types @ [cand_type c]) cands []"

section \<open>The finding\<close>

definition probe_reason :: "string \<Rightarrow> string" where
  "probe_reason pt =
    (if pt = ''readiness'' then ''the readiness probe keeps failing'' @ dash @ ''the pod is kept out of Service endpoints''
     else if pt = ''liveness'' then ''the liveness probe keeps failing'' @ dash @ ''the kubelet restarts the container''
     else if pt = ''startup'' then ''the startup probe keeps failing'' @ dash @ ''the container never finishes starting''
     else ''a probe keeps failing'')"

definition join_probe_types :: "string list \<Rightarrow> string" where
  "join_probe_types types = (case types of [] \<Rightarrow> ''probe failed'' | [t] \<Rightarrow> t @ '' probe failed''
     | _ \<Rightarrow> join (butlast types) '', '' @ '' and '' @ last types @ '' probes failed'')"

definition probe_evidence :: "string \<Rightarrow> string list \<Rightarrow> string \<Rightarrow> string" where
  "probe_evidence nm types reason =
    (let e = join_probe_types types;
         e1 = (if nm \<noteq> [] then ''container '' @ go_quote nm @ '': '' @ e else e)
     in if reason \<noteq> [] then e1 @ dash @ reason else e1)"

definition probe_finding :: "unicode_tables \<Rightarrow> pod \<Rightarrow> probe_candidate list \<Rightarrow> finding option" where
  "probe_finding u p cands = (case cands of [] \<Rightarrow> None
     | sel # _ \<Rightarrow>
         let h = probe_handler p (cand_container sel) (cand_type sel);
             reason = (if cand_reason sel = [] \<and> h \<noteq> [] then h @ '' probe, output withheld'' else cand_reason sel)
         in Some (blank_finding\<lparr>f_pod := pod_ref p, f_issue := ''ProbeFailure'',
              f_reason := probe_reason (cand_type sel),
              f_evidence := probe_evidence (cand_container sel) (probe_types_for cands (cand_container sel)) reason,
              f_container := line u (cand_container sel)\<rparr>))"

definition probe_failure_detect :: "unicode_tables \<Rightarrow> pod_facts \<Rightarrow> finding option go" where
  "probe_failure_detect u facts =
    (if pod_ready_cond (pf_pod facts) then Return None
     else go_bind (probe_candidates u facts) (\<lambda>cands. Return (probe_finding u (pf_pod facts) cands)))"

section \<open>The detector set\<close>

definition default_detectors :: "unicode_tables \<Rightarrow> time \<Rightarrow> detector_fun list" where
  "default_detectors u now =
    [\<lambda>f. Return (crash_loop_detect u now f), \<lambda>f. Return (image_pull_detect u f),
     \<lambda>f. Return (oom_killed_detect f), \<lambda>f. Return (pending_detect u f),
     \<lambda>f. Return (volume_attach_detect u f), \<lambda>f. Return (volume_mount_detect u f),
     \<lambda>f. Return (restart_loop_detect u now f), \<lambda>f. Return (init_container_detect u f),
     probe_failure_detect u, \<lambda>f. Return (config_error_detect u f),
     \<lambda>f. Return (container_start_detect u now f)]"

definition run_detectors :: "detector_fun list \<Rightarrow> pod_facts list \<Rightarrow> finding list go" where
  "run_detectors ds facts = go_bind (go_map (\<lambda>f. go_map (\<lambda>d. d f) ds) facts)
     (\<lambda>rows. Return (concat (map (List.map_filter (\<lambda>x. x)) rows)))"

section \<open>The detectors' contract\<close>

text \<open>
  What \<open>Run\<close> and everything behind it rely on: a finding names the pod that was inspected, and its
  issue is one of the detector's own.
\<close>

locale detector =
  fixes detect :: detector_fun and issues :: "string set"
  assumes names_pod: "detect facts = Return (Some f) \<Longrightarrow> f_pod f = pod_ref (pf_pod facts)"
    and own_issue: "detect facts = Return (Some f) \<Longrightarrow> f_issue f \<in> issues"
begin

lemma reports:
  "detect facts = Return (Some f) \<Longrightarrow> issues \<subseteq> S \<Longrightarrow> f_pod f = pod_ref (pf_pod facts) \<and> f_issue f \<in> S"
  using names_pod own_issue by blast

end

lemma first_some_SomeD: "first_some f xs = Some y \<Longrightarrow> \<exists>x\<in>set xs. f x = Some y"
  by (induction xs) (auto split: option.splits)

lemmas finding_defs = blank_finding_def init_base_def

interpretation crash_loop: detector "\<lambda>f. Return (crash_loop_detect u now f)" "{''CrashLoopBackOff''}" for u now
  by unfold_locales (auto simp: crash_loop_detect_def finding_defs dest!: first_some_SomeD split: if_splits)

interpretation image_pull: detector "\<lambda>f. Return (image_pull_detect u f)" "{''ImagePullBackOff'', ''ErrImagePull''}" for u
  by unfold_locales (auto simp: image_pull_detect_def image_reason_def finding_defs dest!: first_some_SomeD
      split: if_splits option.splits)

interpretation oom_killed: detector "\<lambda>f. Return (oom_killed_detect f)" "{''OOMKilled''}"
  by unfold_locales (auto simp: oom_killed_detect_def finding_defs dest!: first_some_SomeD)

interpretation pending: detector "\<lambda>f. Return (pending_detect u f)" "{''Unschedulable''}" for u
  by unfold_locales (auto simp: pending_detect_def finding_defs dest!: first_some_SomeD split: if_splits)

interpretation volume_attach: detector "\<lambda>f. Return (volume_attach_detect u f)" "{''VolumeAttachError''}" for u
  by unfold_locales (auto simp: volume_attach_detect_def finding_defs split: if_splits option.splits)

interpretation volume_mount: detector "\<lambda>f. Return (volume_mount_detect u f)" "{''VolumeMountError''}" for u
  by unfold_locales (auto simp: volume_mount_detect_def finding_defs split: if_splits option.splits)

interpretation restart_loop: detector "\<lambda>f. Return (restart_loop_detect u now f)" "{''RestartLoop''}" for u now
  by unfold_locales (auto simp: restart_loop_detect_def finding_defs dest!: first_some_SomeD
      split: if_splits option.splits)

interpretation config_error: detector "\<lambda>f. Return (config_error_detect u f)" "{''CreateContainerConfigError''}" for u
  by unfold_locales (auto simp: config_error_detect_def finding_defs dest!: first_some_SomeD
      split: if_splits option.splits)

interpretation container_start: detector "\<lambda>f. Return (container_start_detect u now f)" "{''ContainerStartError''}" for u now
  by unfold_locales (auto simp: container_start_detect_def finding_defs dest!: first_some_SomeD
      split: if_splits option.splits)

definition init_issues :: "string set" where
  "init_issues = {''Init:ImagePullBackOff'', ''Init:ErrImagePull'', ''Init:OOMKilled'',
     ''Init:CreateContainerConfigError'', ''Init:CrashLoopBackOff''}"

lemma init_finding_sound:
  assumes "init_finding u p n e = Some f"
  shows "f_pod f = pod_ref p \<and> f_issue f \<in> init_issues"
  using assms
  by (auto simp: init_finding_def init_image_arm_def init_oom_arm_def init_config_arm_def init_crash_arm_def
      init_issues_def image_reason_def finding_defs Let_def split: prod.splits option.splits if_splits)

interpretation init_container: detector "\<lambda>f. Return (init_container_detect u f)" init_issues for u
  by unfold_locales (auto simp: init_container_detect_def Let_def dest!: first_some_SomeD init_finding_sound)

lemma probe_finding_sound:
  "probe_finding u p cands = Some f \<Longrightarrow> f_pod f = pod_ref p \<and> f_issue f = ''ProbeFailure''"
  by (cases cands) (auto simp: probe_finding_def Let_def finding_defs)

interpretation probe_failure: detector "probe_failure_detect u" "{''ProbeFailure''}" for u
  by unfold_locales
    (auto simp: probe_failure_detect_def go_bind_Return dest!: probe_finding_sound split: if_splits)

definition known_issues :: "string set" where
  "known_issues = {''CrashLoopBackOff'', ''ImagePullBackOff'', ''ErrImagePull'', ''OOMKilled'', ''Unschedulable'',
     ''VolumeAttachError'', ''VolumeMountError'', ''RestartLoop'', ''ProbeFailure'', ''CreateContainerConfigError'',
     ''ContainerStartError''} \<union> init_issues"

definition reported_ok :: "pod_facts \<Rightarrow> finding \<Rightarrow> bool" where
  "reported_ok facts f \<longleftrightarrow> f_pod f = pod_ref (pf_pod facts) \<and> f_issue f \<in> known_issues"

lemma default_reports:
  assumes "d \<in> set (default_detectors u now)" and "d facts = Return (Some f)"
  shows "f_pod f = pod_ref (pf_pod facts) \<and> f_issue f \<in> known_issues"
proof -
  have sub: "{''CrashLoopBackOff''} \<subseteq> known_issues" "{''ImagePullBackOff'', ''ErrImagePull''} \<subseteq> known_issues"
    "{''OOMKilled''} \<subseteq> known_issues" "{''Unschedulable''} \<subseteq> known_issues" "{''VolumeAttachError''} \<subseteq> known_issues"
    "{''VolumeMountError''} \<subseteq> known_issues" "{''RestartLoop''} \<subseteq> known_issues" "init_issues \<subseteq> known_issues"
    "{''ProbeFailure''} \<subseteq> known_issues" "{''CreateContainerConfigError''} \<subseteq> known_issues"
    "{''ContainerStartError''} \<subseteq> known_issues"
    by (auto simp: known_issues_def)
  note reports = crash_loop.reports [OF _ sub(1)] image_pull.reports [OF _ sub(2)] oom_killed.reports [OF _ sub(3)]
    pending.reports [OF _ sub(4)] volume_attach.reports [OF _ sub(5)] volume_mount.reports [OF _ sub(6)]
    restart_loop.reports [OF _ sub(7)] init_container.reports [OF _ sub(8)] probe_failure.reports [OF _ sub(9)]
    config_error.reports [OF _ sub(10)] container_start.reports [OF _ sub(11)]
  have "list_all (\<lambda>d. \<forall>facts f. d facts = Return (Some f) \<longrightarrow> reported_ok facts f) (default_detectors u now)"
    unfolding default_detectors_def list.pred_inject
    by (intro conjI allI impI TrueI; (rule reports [folded reported_ok_def], assumption)?) simp
  with assms have "reported_ok facts f" by (auto simp: list_all_iff)
  then show ?thesis by (simp add: reported_ok_def)
qed

section \<open>Lower case and offsets\<close>

lemma to_lower_ascii: "ascii s \<Longrightarrow> length (to_lower u s) = length s"
  by (simp add: to_lower_def)

lemma http_status_code_ascii: "ascii msg \<Longrightarrow> http_status_code u msg \<noteq> Panic"
  using str_index_Some [of "to_lower u msg" "''statuscode: ''"] to_lower_ascii [of msg u]
  by (auto simp: http_status_code_def Let_def has_prefix_iff dest!: arg_cong [of _ _ length]
      split: option.splits)

lemma classify_probe_ascii: "ascii msg \<Longrightarrow> classify_probe u msg \<noteq> Panic"
  using http_status_code_ascii [of msg u]
  by (cases "http_status_code u msg") (auto simp: classify_probe_def probe_reason_tail_def Let_def)

lemma probe_failure_ascii:
  assumes "\<And>e. e \<in> set (pf_events facts) \<Longrightarrow> ascii (ev_message e)"
  shows "probe_failure_detect u facts \<noteq> Panic"
proof -
  have one: "candidate_of u p cutoff e \<noteq> Panic" if "e \<in> set (pf_events facts)" for p cutoff e
    using classify_probe_ascii [OF assms [OF that], of u]
    by (cases "classify_probe u (ev_message e)") (auto simp: candidate_of_def Let_def split: prod.splits)
  have "probe_candidates u facts \<noteq> Panic"
    using one by (auto simp: probe_candidates_def go_map_eq split: option.splits)
  then show ?thesis
    by (cases "probe_candidates u facts") (auto simp: probe_failure_detect_def)
qed

section \<open>Order and time\<close>

definition candidate_key :: "probe_candidate \<Rightarrow> int \<times> int \<times> string \<times> string \<times> string" where
  "candidate_key c = (- probe_weight (cand_type c), - ev_last (cand_event c), ev_name (cand_event c),
     ev_field_path (cand_event c), ev_message (cand_event c))"

lemma candidate_less_key: "candidate_less = key_less candidate_key"
  by (intro ext) (auto simp: candidate_less_def key_less_def candidate_key_def Let_def less_prod_def)

lemma newest_event_key:
  "newest_event reason evs = (case sort_slice (key_less (\<lambda>e. - ev_last e)) (filter (\<lambda>e. ev_reason e = reason) evs) of
     [] \<Rightarrow> None | e # _ \<Rightarrow> Some e)"
proof -
  have "(\<lambda>(a :: event) b. ev_last a > ev_last b) = key_less (\<lambda>e. - ev_last e)"
    by (intro ext) (simp add: key_less_def)
  then show ?thesis by (simp add: newest_event_def)
qed

lemma newest_event_None: "newest_event reason evs = None \<longleftrightarrow> filter (\<lambda>e. ev_reason e = reason) evs = []"
  unfolding newest_event_def
  by (metis list.case(1) list.case(2) list.exhaust option.distinct(1) sort_slice_eq_Nil)

text \<open>Only the newest instant matters to the ranking window, and it does not depend on the order.\<close>

lemma newest_event_last:
  assumes "newest_event reason evs = Some e"
  shows "ev_last e = Max (ev_last ` {x \<in> set evs. ev_reason x = reason})"
proof -
  obtain es where "sort_slice (key_less (\<lambda>e. - ev_last e)) (filter (\<lambda>e. ev_reason e = reason) evs) = e # es"
    using assms unfolding newest_event_key by (auto split: list.splits)
  from sort_slice_hd [OF this] show ?thesis by (intro Max_eqI [symmetric]) auto
qed

lemma candidate_ofD:
  "candidate_of u p cutoff e = Return (Some c) \<Longrightarrow> cand_event c = e \<and> ev_reason e = ''Unhealthy'' \<and>
     cand_container c = container_from_field_path (ev_field_path e) \<and>
     classify_probe u (ev_message e) = Return (cand_type c, cand_reason c)"
  by (auto simp: candidate_of_def go_bind_Return Let_def split: if_splits prod.splits)

lemma candidates_inj:
  "inj_on candidate_key {c. \<exists>e. candidate_of u p cutoff e = Return (Some c)}"
proof (rule inj_onI)
  fix c c'
  assume "c \<in> {c. \<exists>e. candidate_of u p cutoff e = Return (Some c)}"
    and "c' \<in> {c. \<exists>e. candidate_of u p cutoff e = Return (Some c)}"
    and key: "candidate_key c = candidate_key c'"
  then have c: "ev_reason (cand_event c) = ''Unhealthy''"
      "cand_container c = container_from_field_path (ev_field_path (cand_event c))"
      "classify_probe u (ev_message (cand_event c)) = Return (cand_type c, cand_reason c)"
    and c': "ev_reason (cand_event c') = ''Unhealthy''"
      "cand_container c' = container_from_field_path (ev_field_path (cand_event c'))"
      "classify_probe u (ev_message (cand_event c')) = Return (cand_type c', cand_reason c')"
    by (auto dest: candidate_ofD)
  have "cand_event c = cand_event c'"
    using key c(1) c'(1) by (intro event.equality) (auto simp: candidate_key_def)
  then show "c = c'" using c c' by (intro probe_candidate.equality) auto
qed

lemma probe_candidates_perm:
  assumes "mset evs = mset evs'"
  shows "probe_candidates u \<lparr>pf_pod = p, pf_events = evs\<rparr> = probe_candidates u \<lparr>pf_pod = p, pf_events = evs'\<rparr>"
proof -
  have set: "set evs = set evs'" using assms by (rule mset_eq_setD)
  show ?thesis
  proof (cases "newest_event ''Unhealthy'' evs")
    case None
    then have "newest_event ''Unhealthy'' evs' = None"
      using set by (auto simp: newest_event_None filter_empty_conv)
    with None show ?thesis by (simp add: probe_candidates_def)
  next
    case (Some e)
    then have "newest_event ''Unhealthy'' evs' \<noteq> None"
      using set newest_event_None [of "''Unhealthy''" evs] by (auto simp: newest_event_None filter_empty_conv)
    then obtain e' where e': "newest_event ''Unhealthy'' evs' = Some e'" by blast
    have last: "ev_last e = ev_last e'"
      using newest_event_last [OF Some] newest_event_last [OF e'] set by simp
    let ?f = "candidate_of u p (ev_last e - probe_rank_window)"
    let ?c = "\<lambda>evs. List.map_filter (\<lambda>x. returned (?f x)) evs"
    have "mset (?c evs) = mset (?c evs')"
      using assms by (simp add: List.map_filter_def mset_filter)
    moreover have "set (?c evs) \<subseteq> {c. \<exists>e. ?f e = Return (Some c)}" if "\<not> (\<exists>x\<in>set evs. ?f x = Panic)"
      using that by (auto simp: set_map_filter) (metis go.exhaust returned.simps(1))
    ultimately have "sort_slice candidate_less (?c evs) = sort_slice candidate_less (?c evs')"
      if "\<not> (\<exists>x\<in>set evs. ?f x = Panic)"
      using that unfolding candidate_less_key
      by (intro sort_slice_inj inj_on_subset [OF candidates_inj])
    moreover have "List.map_filter (\<lambda>x. x) (map h xs) = List.map_filter h xs" for h :: "event \<Rightarrow> probe_candidate option" and xs
      by (induction xs) (auto split: option.splits)
    ultimately show ?thesis
      using set by (auto simp: probe_candidates_def Some e' last go_map_eq)
  qed
qed

text \<open>Moving all events by the same amount of time.\<close>

definition shift_event :: "duration \<Rightarrow> event \<Rightarrow> event" where
  "shift_event d e = e\<lparr>ev_last := ev_last e + d\<rparr>"

definition shift_candidate :: "duration \<Rightarrow> probe_candidate \<Rightarrow> probe_candidate" where
  "shift_candidate d c = c\<lparr>cand_event := shift_event d (cand_event c)\<rparr>"

lemma shift_candidate_simps [simp]:
  "cand_container (shift_candidate d c) = cand_container c" "cand_type (shift_candidate d c) = cand_type c"
  "cand_reason (shift_candidate d c) = cand_reason c" "cand_event (shift_candidate d c) = shift_event d (cand_event c)"
  by (simp_all add: shift_candidate_def)

lemma newest_event_shift:
  "newest_event reason (map (shift_event d) evs) = map_option (shift_event d) (newest_event reason evs)"
proof -
  have "filter (\<lambda>e. ev_reason e = reason) (map (shift_event d) evs) =
      map (shift_event d) (filter (\<lambda>e. ev_reason e = reason) evs)"
    by (simp add: filter_map o_def shift_event_def)
  moreover have "sort_slice (\<lambda>(a :: event) b. ev_last a > ev_last b) (map (shift_event d) xs) =
      map (shift_event d) (sort_slice (\<lambda>(a :: event) b. ev_last a > ev_last b) xs)" for xs
    by (rule sort_slice_map) (simp add: shift_event_def)
  ultimately show ?thesis by (simp add: newest_event_def split: list.split)
qed

lemma candidate_of_shift:
  "candidate_of u p (cutoff + d) (shift_event d e) =
    (case candidate_of u p cutoff e of Panic \<Rightarrow> Panic | Return c \<Rightarrow> Return (map_option (shift_candidate d) c))"
  by (cases "classify_probe u (ev_message e)")
    (auto simp: candidate_of_def shift_event_def shift_candidate_def Let_def split: prod.splits)

lemma map_filter_shift: "List.map_filter (\<lambda>x. x) (map (map_option f) xs) = map f (List.map_filter (\<lambda>x. x) xs)"
  by (induction xs) (auto split: option.splits)

lemma go_map_shift:
  "go_map (candidate_of u p (cutoff + d)) (map (shift_event d) evs) =
    (case go_map (candidate_of u p cutoff) evs of Panic \<Rightarrow> Panic | Return cs \<Rightarrow> Return (map (map_option (shift_candidate d)) cs))"
  by (induction evs) (auto simp: candidate_of_shift split: go.splits)

lemma probe_finding_shift: "probe_finding u p (map (shift_candidate d) cands) = probe_finding u p cands"
proof -
  define F where "F nm = (\<lambda>(c :: probe_candidate) types. if cand_container c \<noteq> nm then types
     else if cand_type c \<in> set types then types else types @ [cand_type c])" for nm
  have "F nm (shift_candidate d c) = F nm c" for nm c by (simp add: F_def cong: if_cong)
  then have "fold (F nm) (map (shift_candidate d) cs) acc = fold (F nm) cs acc" for cs nm acc
    by (induction cs arbitrary: acc) auto
  then have "probe_types_for (map (shift_candidate d) cs) nm = probe_types_for cs nm" for cs nm
    by (simp add: probe_types_for_def F_def)
  from this [of cands] show ?thesis by (cases cands) (auto simp: probe_finding_def Let_def)
qed

lemma probe_candidates_shift:
  "probe_candidates u \<lparr>pf_pod = p, pf_events = map (shift_event d) evs\<rparr> =
    (case probe_candidates u \<lparr>pf_pod = p, pf_events = evs\<rparr> of Panic \<Rightarrow> Panic
     | Return cs \<Rightarrow> Return (map (shift_candidate d) cs))"
proof (cases "newest_event ''Unhealthy'' evs")
  case (Some e)
  have cut: "ev_last (shift_event d e) - probe_rank_window = (ev_last e - probe_rank_window) + d"
    by (simp add: shift_event_def)
  have less: "candidate_less (shift_candidate d a) (shift_candidate d b) = candidate_less a b" for a b
    by (simp add: candidate_less_def shift_event_def Let_def)
  note sort = sort_slice_map [where f = "shift_candidate d" and lt = candidate_less and lt' = candidate_less, OF less]
  show ?thesis
    unfolding probe_candidates_def
    by (simp add: newest_event_shift Some cut go_map_shift del: diff_add_eq split: go.splits)
      (auto simp: map_filter_shift sort)
qed (simp add: probe_candidates_def newest_event_shift)

section \<open>Properties\<close>

lemma row_sound:
  assumes "go_map (\<lambda>d. d pf) (default_detectors u now) = Return row"
  shows "length (List.map_filter (\<lambda>x. x) row) \<le> 11 \<and> (\<forall>f\<in>set (List.map_filter (\<lambda>x. x) row).
      f_issue f \<in> known_issues \<and> f_pod f = pod_ref (pf_pod pf))"
proof -
  have l: "list_all2 (\<lambda>d y. d pf = Return y) (default_detectors u now) row" by (rule go_map_ReturnD [OF assms])
  have "length row = 11" using list_all2_lengthD [OF l] by (simp add: default_detectors_def)
  moreover have "length (List.map_filter (\<lambda>x. x) row) \<le> length row" by (simp add: List.map_filter_def)
  moreover have "f_issue f \<in> known_issues \<and> f_pod f = pod_ref (pf_pod pf)"
    if "f \<in> set (List.map_filter (\<lambda>x. x) row)" for f
  proof -
    from that have "Some f \<in> set row" by (simp add: set_map_filter)
    then obtain i where i: "i < length row" "row ! i = Some f" by (auto simp: in_set_conv_nth)
    then have "default_detectors u now ! i \<in> set (default_detectors u now)"
      "(default_detectors u now ! i) pf = Return (Some f)"
      using l by (auto simp: list_all2_conv_all_nth)
    then show ?thesis using default_reports by blast
  qed
  ultimately show ?thesis by simp
qed


text \<open>
  Diagnosis does not panic on ASCII events: \<open>Run\<close> with the default detectors returns a list of
  findings for any pods, whatever their state, if no event message contains a byte beyond ASCII.
\<close>

theorem run_no_panic:
  assumes "\<And>pf e. pf \<in> set facts \<Longrightarrow> e \<in> set (pf_events pf) \<Longrightarrow> ascii (ev_message e)"
  shows "\<exists>fs. run_detectors (default_detectors u now) facts = Return fs"
proof -
  have "d pf \<noteq> Panic" if "pf \<in> set facts" "d \<in> set (default_detectors u now)" for pf d
    using that(2) probe_failure_ascii [of pf u] assms [OF that(1)] by (auto simp: default_detectors_def)
  then show ?thesis by (auto simp: run_detectors_def go_map_eq)
qed

text \<open>
  The probe finding does not depend on the order in which the API server listed the events.
\<close>

theorem probe_order_independent:
  assumes "mset evs = mset evs'"
  shows "probe_failure_detect u \<lparr>pf_pod = p, pf_events = evs\<rparr> = probe_failure_detect u \<lparr>pf_pod = p, pf_events = evs'\<rparr>"
  using probe_candidates_perm [OF assms, of u p] by (simp add: probe_failure_detect_def)

text \<open>
  The probe finding does not depend on how old the events are, only on their distances: moving
  all of them by the same amount of time changes nothing.
\<close>

theorem probe_shift:
  "probe_failure_detect u \<lparr>pf_pod = p, pf_events = map (shift_event d) evs\<rparr> =
   probe_failure_detect u \<lparr>pf_pod = p, pf_events = evs\<rparr>"
  using probe_candidates_shift [of u p d evs]
  by (auto simp: probe_failure_detect_def probe_finding_shift split: go.splits)

definition closed_phrase :: "string \<Rightarrow> bool" where
  "closed_phrase r \<longleftrightarrow> r \<in> {[], ''connection refused'', ''connection reset'', ''unreachable'', ''DNS lookup failed'',
      ''timed out'', ''gRPC NOT_SERVING''} \<or> (\<exists>ds. r = ''HTTP '' @ ds \<and> ds \<noteq> [] \<and> list_all is_digit ds)"

text \<open>
  No probe output leaks: whatever the message says, the reason derived from it is one of seven
  fixed phrases, \<open>HTTP\<close> with a decimal number, or nothing.
\<close>

theorem probe_reason_closed:
  assumes "probe_reason_tail u msg = Return r"
  shows "closed_phrase r"
proof -
  define ok where "ok m \<longleftrightarrow> (case m of Panic \<Rightarrow> True | Return r \<Rightarrow> closed_phrase r)" for m
  have "list_all is_digit code" if "http_status_code u msg = Return code" for code
    using that by (auto simp: http_status_code_def Let_def list_all_iff dest: set_takeWhileD
        split: option.splits if_splits)
  then have http: "ok (go_bind (http_status_code u msg) (\<lambda>code. Return (if code \<noteq> [] then ''HTTP '' @ code else [])))"
    by (cases "http_status_code u msg") (auto simp: ok_def closed_phrase_def)
  have pick: "ok a \<Longrightarrow> ok b \<Longrightarrow> ok (if c then a else b)" for a b c by simp
  have "ok (probe_reason_tail u msg)"
    unfolding probe_reason_tail_def Let_def
    by (intro pick http) (simp_all add: ok_def closed_phrase_def)
  then show ?thesis using assms by (simp add: ok_def)
qed

section \<open>Concrete pods\<close>

definition sample_status :: container_status where
  "sample_status = \<lparr>cs_name = ''web'', cs_image = ''shop/web:1'', cs_ready = False, cs_restart_count = 2,
     cs_state = \<lparr>st_waiting = None, st_running = Some 5, st_terminated = None\<rparr>,
     cs_last_terminated = Some \<lparr>tm_exit_code = 137, tm_reason = ''OOMKilled'', tm_finished_at = 4\<rparr>\<rparr>"

definition sample_pod :: pod where
  "sample_pod = \<lparr>p_namespace = ''shop'', p_name = ''web-1'', p_owners = [], p_created = 1, p_deleted = None,
     p_phase = ''Running'', p_conditions = [], p_statuses = [sample_status], p_init_statuses = [],
     p_containers = [], p_init_containers = [], p_node = ''n1'', p_ip = ''10.0.0.1''\<rparr>"

definition sample_event :: "string \<Rightarrow> string \<Rightarrow> time \<Rightarrow> event" where
  "sample_event nm msg t = \<lparr>ev_name = nm, ev_reason = ''Unhealthy'', ev_message = msg, ev_last = t,
     ev_field_path = ''spec.containers{web}''\<rparr>"


theorem run_no_panic_witness:
  "\<exists>fs. run_detectors (default_detectors small_tables 9)
     [\<lparr>pf_pod = sample_pod, pf_events = [sample_event ''e'' ''Readiness probe failed: statuscode: 503'' 7]\<rparr>] = Return fs"
  by (rule run_no_panic) (auto simp: sample_event_def ascii_def)

theorem probe_order_independent_witness:
  "let a = sample_event ''a'' ''Readiness probe failed: timeout'' 7; b = sample_event ''b'' ''Liveness probe failed: timeout'' 8
   in probe_failure_detect small_tables \<lparr>pf_pod = sample_pod, pf_events = [a, b]\<rparr> =
      probe_failure_detect small_tables \<lparr>pf_pod = sample_pod, pf_events = [b, a]\<rparr>"
  unfolding Let_def by (rule probe_order_independent) simp

theorem probe_reason_closed_witness:
  "probe_reason_tail small_tables ''Readiness probe failed: statuscode: 503'' = Return ''HTTP 503'' \<and>
   closed_phrase ''HTTP 503''"
proof -
  have "probe_reason_tail small_tables ''Readiness probe failed: statuscode: 503'' = Return ''HTTP 503''"
    by code_simp
  with probe_reason_closed [OF this] show ?thesis by simp
qed

definition long_lower_message :: string where
  "long_lower_message = ''Readiness probe failed: '' @ bytes [200, 186] @ ''statuscode: ''"

text \<open>
  C37. A probe message beyond ASCII can panic the diagnosis: lower-casing may lengthen the text (U+023A
  has two bytes, its lower case U+2C65 three), so the offset of the status code in the lower-cased copy can lie
  beyond the end of the message that is sliced.
\<close>

theorem probe_panics:
  "run_detectors (default_detectors small_tables 9)
     [\<lparr>pf_pod = sample_pod, pf_events = [sample_event ''e'' long_lower_message 7]\<rparr>] = Panic"
proof -
  let ?m = "''readiness probe failed: '' @ [CHR 0xE2, CHR 0xB1, CHR 0xA5] @ ''statuscode: ''"
  have lower: "to_lower small_tables long_lower_message = ?m"
    by (simp add: to_lower_def ascii_def long_lower_message_def eval_line) (simp add: char_of_def bit_0)
  have idx: "str_index ?m ''statuscode: '' = Some 27" by code_simp
  have none: "list_all (\<lambda>p. \<not> contains ?m p) [''connection refused'', ''connection reset'', ''no route to host'',
      ''network is unreachable'', ''no such host'', ''server misbehaving'', ''context deadline exceeded'', ''timeout'']"
    and some: "contains ?m ''statuscode:''" by code_simp+
  have "http_status_code small_tables long_lower_message = Panic"
    unfolding http_status_code_def lower idx by (simp add: long_lower_message_def bytes_def)
  then have "probe_reason_tail small_tables long_lower_message = Panic"
    using none some unfolding probe_reason_tail_def lower Let_def by simp
  then have "classify_probe small_tables long_lower_message = Panic"
    by (simp add: classify_probe_def Let_def has_prefix_def long_lower_message_def)
  moreover have "probe_container_eligible sample_pod (container_from_field_path ''spec.containers{web}'')"
    by code_simp
  ultimately have "probe_failure_detect small_tables \<lparr>pf_pod = sample_pod, pf_events = [sample_event ''e'' long_lower_message 7]\<rparr> = Panic"
    by (simp add: probe_failure_detect_def probe_candidates_def newest_event_def candidate_of_def sample_event_def
        pod_ready_cond_def probe_rank_window_def time_units) (simp add: sample_pod_def)
  then show ?thesis by (simp add: run_detectors_def default_detectors_def)
qed

end
