(* ===== verification/Baseline.thy ===== *)
theory Baseline
  imports Resources
begin

text \<open>
  \<open>internal/baseline\<close>: what a workload's restart rate normally is, and whether it deviates now; with
  \<open>podSamples\<close>, \<open>loadBaseline\<close> and \<open>baselineReport\<close> of \<open>internal/cli/baseline.go\<close>. Rates are computed in float64:
  every operation rounds to the nearest one. The JSON decoder is a parameter; what it may hand to
  \<open>Load\<close> includes numbers that are not finite.
\<close>

section \<open>Data\<close>

definition baseline_schema :: string where "baseline_schema = ''1.0''"
definition default_factor :: rat where "default_factor = 3"
definition default_floor :: rat where "default_floor = 1 / 2"
definition default_min_pod_age :: duration where "default_min_pod_age = hour"
definition max_version_len :: nat where "max_version_len = 32"

record pod_sample =
  ps_kind :: string
  ps_namespace :: string
  ps_name :: string
  ps_restarts :: int
  ps_age :: float64

record baseline_entry =
  be_kind :: string
  be_namespace :: string
  be_name :: string
  be_rate :: rat
  be_pods :: int
  be_observed :: rat

record baseline_document =
  bd_schema :: string
  bd_captured_at :: string
  bd_min_age :: rat
  bd_workloads :: "baseline_entry list"

record compare_options =
  co_factor :: float64
  co_floor :: float64

definition base_key :: "string \<Rightarrow> string \<Rightarrow> string \<Rightarrow> string" where
  "base_key kind ns nm = kind @ ''/'' @ ns @ ''/'' @ nm"

definition sample_key :: "pod_sample \<Rightarrow> string" where
  "sample_key p = base_key (ps_kind p) (ps_namespace p) (ps_name p)"

definition entry_key :: "baseline_entry \<Rightarrow> string" where
  "entry_key e = base_key (be_kind e) (be_namespace e) (be_name e)"

section \<open>Rates\<close>

text \<open>The value of a finite float64.\<close>

fun finite_value :: "float64 \<Rightarrow> rat option" where
  "finite_value (Finite neg m) = Some (if neg then - m else m)"
| "finite_value (Inf neg) = None"
| "finite_value NaN = None"

fun counts_sample :: "pod_sample \<Rightarrow> rat \<Rightarrow> bool" where
  "counts_sample p min_seconds =
    (case finite_value (ps_age p) of
       None \<Rightarrow> False
     | Some a \<Rightarrow> if a \<le> 0 then False else if ps_restarts p < 0 then False else a \<ge> min_seconds)"

declare counts_sample.simps [simp del]

definition sample_age :: "pod_sample \<Rightarrow> rat" where
  "sample_age p = (case finite_value (ps_age p) of Some a \<Rightarrow> a | None \<Rightarrow> 0)"

record rate_acc =
  ra_id :: pod_sample
  ra_restarts :: int
  ra_seconds :: rat
  ra_pods :: int

definition add_sample :: "rat \<Rightarrow> pod_sample \<Rightarrow> (string, rate_acc) gomap \<Rightarrow> (string, rate_acc) gomap" where
  "add_sample min_seconds p totals =
    (if \<not> counts_sample p min_seconds then totals
     else let a = mget_zero \<lparr>ra_id = p, ra_restarts = 0, ra_seconds = 0, ra_pods = 0\<rparr> totals (sample_key p) in
       mput (sample_key p) \<lparr>ra_id = ra_id a, ra_restarts = wrap64 (ra_restarts a + ps_restarts p),
         ra_seconds = nearest_double (ra_seconds a + sample_age p), ra_pods = ra_pods a + 1\<rparr> totals)"

definition rate_per_hour :: "int \<Rightarrow> rat \<Rightarrow> rat" where
  "rate_per_hour restarts secs =
    (if secs \<le> 0 then 0 else nearest_double (nearest_double (of_int restarts) / nearest_double (secs / 3600)))"

definition entry_less :: "baseline_entry \<Rightarrow> baseline_entry \<Rightarrow> bool" where
  "entry_less a b =
    (if be_kind a \<noteq> be_kind b then be_kind a < be_kind b
     else if be_namespace a \<noteq> be_namespace b then be_namespace a < be_namespace b
     else be_name a < be_name b)"

definition entry_of :: "rate_acc \<Rightarrow> baseline_entry" where
  "entry_of a = \<lparr>be_kind = ps_kind (ra_id a), be_namespace = ps_namespace (ra_id a), be_name = ps_name (ra_id a),
     be_rate = rate_per_hour (ra_restarts a) (ra_seconds a), be_pods = ra_pods a, be_observed = ra_seconds a\<rparr>"

definition rate_totals :: "pod_sample list \<Rightarrow> rat \<Rightarrow> (string, rate_acc) gomap" where
  "rate_totals pods min_seconds = fold (add_sample min_seconds) pods []"

definition rates :: "pod_sample list \<Rightarrow> rat \<Rightarrow> baseline_entry list" where
  "rates pods min_seconds = sort_slice entry_less (map (\<lambda>e. entry_of (snd e)) (rate_totals pods min_seconds))"

section \<open>Capture\<close>

text \<open>\<open>time.Duration.Seconds\<close>: whole seconds plus the rest over a billion.\<close>

definition duration_seconds :: "duration \<Rightarrow> rat" where
  "duration_seconds d =
    (let s = go_quot d second in nearest_double (of_int s + nearest_double (of_int (d - s * second) / 1000000000)))"

definition capture :: "pod_sample list \<Rightarrow> duration \<Rightarrow> time \<Rightarrow> baseline_document" where
  "capture pods min_pod_age now =
    (let m = duration_seconds min_pod_age; min_seconds = (if m < 0 then 0 else m) in
     \<lparr>bd_schema = baseline_schema, bd_captured_at = rfc3339 now, bd_min_age = min_seconds,
      bd_workloads = rates pods min_seconds\<rparr>)"

section \<open>Compare\<close>

definition threshold :: "float64 \<Rightarrow> float64 \<Rightarrow> float64" where
  "threshold deflt x = (case x of NaN \<Rightarrow> deflt | Inf neg \<Rightarrow> (if neg then deflt else x)
     | Finite neg m \<Rightarrow> (if (if neg then - m else m) \<le> 0 then deflt else x))"

definition normal_options :: "compare_options \<Rightarrow> compare_options" where
  "normal_options op = \<lparr>co_factor = threshold (Finite False default_factor) (co_factor op),
     co_floor = threshold (Finite False default_floor) (co_floor op)\<rparr>"

text \<open>
  The product with a factor and the comparison with a floor. An infinite factor makes the product
  infinite, or not a number when the rate is 0: no finite rate reaches either.
\<close>

definition deviates :: "rat \<Rightarrow> rat \<Rightarrow> compare_options \<Rightarrow> bool" where
  "deviates base_rate current_rate op \<longleftrightarrow>
    (case finite_value (co_factor op) of None \<Rightarrow> False | Some f \<Rightarrow> current_rate \<ge> nearest_double (base_rate * f)) \<and>
    (case finite_value (co_floor op) of None \<Rightarrow> False | Some f \<Rightarrow> nearest_double (current_rate - base_rate) \<ge> f)"

definition deviation_less :: "deviation \<Rightarrow> deviation \<Rightarrow> bool" where
  "deviation_less a b =
    (if dv_kind a \<noteq> dv_kind b then dv_kind a < dv_kind b
     else if dv_namespace a \<noteq> dv_namespace b then dv_namespace a < dv_namespace b
     else dv_name a < dv_name b)"

definition deviation_of :: "baseline_entry \<Rightarrow> baseline_entry \<Rightarrow> deviation" where
  "deviation_of b e = \<lparr>dv_kind = be_kind e, dv_namespace = be_namespace e, dv_name = be_name e,
     dv_baseline_rate = be_rate b, dv_current_rate = be_rate e, dv_pods = be_pods e\<rparr>"

record comparing =
  cg_report :: baseline_report
  cg_seen :: "string list"

definition compare_entry :: "(string, baseline_entry) gomap \<Rightarrow> compare_options \<Rightarrow> baseline_entry \<Rightarrow> comparing \<Rightarrow> comparing" where
  "compare_entry base op e s =
    (let k = entry_key e; r = cg_report s in
     (case mget base k of
        None \<Rightarrow> s\<lparr>cg_report := r\<lparr>br_not_in_baseline := br_not_in_baseline r + 1\<rparr>\<rparr>
      | Some b \<Rightarrow>
          let r1 = r\<lparr>br_compared := br_compared r + 1\<rparr>;
              r2 = (if deviates (be_rate b) (be_rate e) op
                    then r1\<lparr>br_deviations := br_deviations r1 @ [deviation_of b e]\<rparr> else r1)
          in \<lparr>cg_report = r2, cg_seen = k # cg_seen s\<rparr>))"

definition base_map :: "baseline_entry list \<Rightarrow> (string, baseline_entry) gomap" where
  "base_map es = fold (\<lambda>e. mput (entry_key e) e) es []"

definition compare_baseline :: "baseline_document \<Rightarrow> pod_sample list \<Rightarrow> compare_options \<Rightarrow> baseline_report" where
  "compare_baseline doc pods op =
    (let op' = normal_options op;
         s = fold (compare_entry (base_map (bd_workloads doc)) op') (rates pods (bd_min_age doc))
           \<lparr>cg_report = \<lparr>br_deviations = [], br_compared = 0, br_not_in_baseline = 0, br_gone = 0\<rparr>, cg_seen = []\<rparr>;
         r = cg_report s
     in r\<lparr>br_gone := length (filter (\<lambda>e. entry_key e \<notin> set (cg_seen s)) (bd_workloads doc)),
          br_deviations := sort_slice deviation_less (br_deviations r)\<rparr>)"

section \<open>Load\<close>

text \<open>What the decoder makes of the file: numbers that need not be usable, a list that may be absent.\<close>

record raw_entry =
  rw_kind :: string
  rw_namespace :: string
  rw_name :: string
  rw_rate :: float64
  rw_pods :: int
  rw_observed :: float64

record raw_document =
  rd_schema :: string
  rd_captured_at :: string
  rd_min_age :: float64
  rd_workloads :: "raw_entry list option"

datatype load_baseline_error =
    Parsing_baseline
  | No_schema_version
  | Version_too_long nat
  | Not_major_minor string
  | Other_major string string string
  | Unusable_min_age
  | No_kind_or_name nat
  | Unusable_rate nat
  | Unusable_observed nat

definition major_of :: "string \<Rightarrow> load_baseline_error + string" where
  "major_of v =
    (if length v > max_version_len then Inl (Version_too_long (length v))
     else (case str_index v ''.'' of
       None \<Rightarrow> Inl (Not_major_minor v)
     | Some i \<Rightarrow>
         if i = 0 \<or> i = length v - 1 then Inl (Not_major_minor v)
         else if atoi (take i v) = None then Inl (Not_major_minor v)
         else if atoi (drop (i + 1) v) = None then Inl (Not_major_minor v)
         else Inr (take i v)))"

text \<open>The value of a number that is usable and not negative.\<close>

definition usable_value :: "float64 \<Rightarrow> rat option" where
  "usable_value x = (case finite_value x of None \<Rightarrow> None | Some q \<Rightarrow> if q < 0 then None else Some q)"

fun load_entries :: "nat \<Rightarrow> raw_entry list \<Rightarrow> load_baseline_error + baseline_entry list" where
  "load_entries i [] = Inr []"
| "load_entries i (e # es) =
    (if rw_kind e = [] \<or> rw_name e = [] then Inl (No_kind_or_name i)
     else (case usable_value (rw_rate e) of
       None \<Rightarrow> Inl (Unusable_rate i)
     | Some r \<Rightarrow>
         (case usable_value (rw_observed e) of
            None \<Rightarrow> Inl (Unusable_observed i)
          | Some ob \<Rightarrow>
              (case load_entries (i + 1) es of
                 Inl x \<Rightarrow> Inl x
               | Inr rest \<Rightarrow> Inr (\<lparr>be_kind = rw_kind e, be_namespace = rw_namespace e, be_name = rw_name e,
                   be_rate = r, be_pods = rw_pods e, be_observed = ob\<rparr> # rest)))))"

definition load_baseline :: "(string \<Rightarrow> raw_document option) \<Rightarrow> string \<Rightarrow> load_baseline_error + baseline_document" where
  "load_baseline decode b =
    (case decode b of
       None \<Rightarrow> Inl Parsing_baseline
     | Some d \<Rightarrow>
         if rd_schema d = [] then Inl No_schema_version
         else (case major_of (rd_schema d) of
           Inl x \<Rightarrow> Inl x
         | Inr got \<Rightarrow>
             (case major_of baseline_schema of
                Inl x \<Rightarrow> Inl x
              | Inr want \<Rightarrow>
                  if got \<noteq> want then Inl (Other_major (rd_schema d) got want)
                  else (case usable_value (rd_min_age d) of
                    None \<Rightarrow> Inl Unusable_min_age
                  | Some m \<Rightarrow>
                      (case load_entries 0 (case rd_workloads d of None \<Rightarrow> [] | Some es \<Rightarrow> es) of
                         Inl x \<Rightarrow> Inl x
                       | Inr ws \<Rightarrow> Inr \<lparr>bd_schema = rd_schema d, bd_captured_at = rd_captured_at d, bd_min_age = m,
                           bd_workloads = ws\<rparr>)))))"

section \<open>The command line's half\<close>

text \<open>
  \<open>podSamples\<close>. The start time of a pod is not among the fields of \<open>pod\<close> the other components read and
  comes as a function.
\<close>

definition pod_sample_of :: "inputs \<Rightarrow> (pod \<Rightarrow> time option) \<Rightarrow> time \<Rightarrow> pod \<Rightarrow> pod_sample option" where
  "pod_sample_of i started now p =
    (case started p of
       None \<Rightarrow> None
     | Some t \<Rightarrow>
         let age = duration_seconds (time_sub now t) in
         if age \<le> 0 then None
         else (case mget (pod_owners i) (ns_name (p_namespace p) (p_name p)) of
           None \<Rightarrow> None
         | Some ow \<Rightarrow> Some \<lparr>ps_kind = ow_kind ow, ps_namespace = ow_namespace ow, ps_name = ow_name ow,
             ps_restarts = sum_list (map cs_restart_count (p_statuses p)), ps_age = Finite False age\<rparr>))"

definition pod_samples :: "inputs \<Rightarrow> (pod \<Rightarrow> time option) \<Rightarrow> time \<Rightarrow> pod_sample list" where
  "pod_samples i started now = List.map_filter (pod_sample_of i started now) (in_pods i)"

definition run_report :: "baseline_document option \<Rightarrow> compare_options \<Rightarrow> inputs \<Rightarrow> (pod \<Rightarrow> time option) \<Rightarrow> time \<Rightarrow> baseline_report option" where
  "run_report doc op i started now = map_option (\<lambda>d. compare_baseline d (pod_samples i started now) op) doc"

section \<open>What a rate is\<close>

text \<open>The samples that count towards one workload, and what they add up to, in their order.\<close>

definition counted_for :: "pod_sample list \<Rightarrow> rat \<Rightarrow> string \<Rightarrow> pod_sample list" where
  "counted_for pods m k = filter (\<lambda>p. counts_sample p m \<and> sample_key p = k) pods"

definition acc_of :: "pod_sample list \<Rightarrow> rate_acc option" where
  "acc_of ps = (if ps = [] then None
     else Some \<lparr>ra_id = hd ps, ra_restarts = foldl (\<lambda>n p. wrap64 (n + ps_restarts p)) 0 ps,
       ra_seconds = foldl (\<lambda>s p. nearest_double (s + sample_age p)) 0 ps, ra_pods = int (length ps)\<rparr>)"

lemma acc_of_snoc:
  "acc_of (ps @ [p]) =
    (let a = (case acc_of ps of None \<Rightarrow> \<lparr>ra_id = p, ra_restarts = 0, ra_seconds = 0, ra_pods = 0\<rparr> | Some a \<Rightarrow> a)
     in Some \<lparr>ra_id = ra_id a, ra_restarts = wrap64 (ra_restarts a + ps_restarts p),
       ra_seconds = nearest_double (ra_seconds a + sample_age p), ra_pods = ra_pods a + 1\<rparr>)"
  by (cases ps) (simp_all add: acc_of_def)

lemma counted_for_snoc:
  "counted_for (pods @ [p]) m k = counted_for pods m k @ (if counts_sample p m \<and> sample_key p = k then [p] else [])"
  by (simp add: counted_for_def)

lemma rate_totals_get: "mget (rate_totals pods m) k = acc_of (counted_for pods m k)"
proof (induction pods rule: rev_induct)
  case Nil
  show ?case by (simp add: rate_totals_def acc_of_def counted_for_def)
next
  case (snoc p pods)
  have "rate_totals (pods @ [p]) m = add_sample m p (rate_totals pods m)" by (simp add: rate_totals_def)
  with snoc show ?case
    by (auto simp: add_sample_def counted_for_snoc acc_of_snoc Let_def mget_zero_def split: option.split)
qed

lemma rate_totals_ok: "mok (rate_totals pods m)"
  by (induction pods rule: rev_induct) (simp_all add: rate_totals_def add_sample_def Let_def)

lemma acc_key:
  assumes "(k, a) \<in> set (rate_totals pods m)"
  shows "entry_key (entry_of a) = k"
proof -
  have "acc_of (counted_for pods m k) = Some a"
    using assms by (simp add: in_set_mget [OF rate_totals_ok] rate_totals_get)
  then have ne: "counted_for pods m k \<noteq> []" "ra_id a = hd (counted_for pods m k)"
    by (auto simp: acc_of_def split: if_splits)
  have "hd (counted_for pods m k) \<in> set (counted_for pods m k)" using ne(1) by (rule hd_in_set)
  then have "sample_key (hd (counted_for pods m k)) = k" by (simp add: counted_for_def)
  with ne(2) show ?thesis by (simp add: entry_key_def entry_of_def sample_key_def)
qed

lemma rates_keys: "mset (map entry_key (rates pods m)) = mset (mkeys (rate_totals pods m))"
proof -
  have "mset (map entry_key (rates pods m)) = mset (map entry_key (map (\<lambda>e. entry_of (snd e)) (rate_totals pods m)))"
    by (simp only: rates_def mset_map mset_sort_slice)
  also have "map entry_key (map (\<lambda>e. entry_of (snd e)) (rate_totals pods m)) = mkeys (rate_totals pods m)"
    using acc_key by (auto intro!: map_cong)
  finally show ?thesis .
qed

lemma distinct_rates: "distinct (map entry_key (rates pods m))"
  using rates_keys rate_totals_ok [of pods m] by (metis mok_def mset_eq_imp_distinct_iff)

text \<open>An entry of the rates is what its key's samples add up to.\<close>

lemma rates_entry_iff:
  "e \<in> set (rates pods m) \<longleftrightarrow> (\<exists>a. acc_of (counted_for pods m (entry_key e)) = Some a \<and> e = entry_of a)"
proof
  assume "e \<in> set (rates pods m)"
  then obtain k a where "(k, a) \<in> set (rate_totals pods m)" "e = entry_of a" by (auto simp: rates_def)
  then show "\<exists>a. acc_of (counted_for pods m (entry_key e)) = Some a \<and> e = entry_of a"
    using acc_key by (metis in_set_mget rate_totals_get rate_totals_ok)
next
  assume "\<exists>a. acc_of (counted_for pods m (entry_key e)) = Some a \<and> e = entry_of a"
  then obtain a where "mget (rate_totals pods m) (entry_key e) = Some a" "e = entry_of a"
    by (auto simp: rate_totals_get)
  then show "e \<in> set (rates pods m)" by (auto simp: rates_def dest!: map_of_SomeD intro: rev_image_eqI)
qed

section \<open>What a comparison counts\<close>

definition base_of :: "baseline_entry list \<Rightarrow> string \<Rightarrow> baseline_entry option" where
  "base_of ws k = find (\<lambda>e. entry_key e = k) (List.rev ws)"

lemma base_map_get: "mget (base_map ws) k = base_of ws k"
  by (induction ws rule: rev_induct) (auto simp: base_map_def base_of_def)

definition deviation_list :: "baseline_entry list \<Rightarrow> compare_options \<Rightarrow> baseline_entry list \<Rightarrow> deviation list" where
  "deviation_list ws op es = List.map_filter (\<lambda>e. case base_of ws (entry_key e) of
     Some b \<Rightarrow> if deviates (be_rate b) (be_rate e) op then Some (deviation_of b e) else None | None \<Rightarrow> None) es"

lemma compare_fold:
  "fold (compare_entry (base_map ws) op) es s =
    \<lparr>cg_report = (cg_report s)\<lparr>br_deviations := br_deviations (cg_report s) @ deviation_list ws op es,
       br_compared := br_compared (cg_report s) + length (filter (\<lambda>e. base_of ws (entry_key e) \<noteq> None) es),
       br_not_in_baseline := br_not_in_baseline (cg_report s) + length (filter (\<lambda>e. base_of ws (entry_key e) = None) es)\<rparr>,
     cg_seen = List.rev (map entry_key (filter (\<lambda>e. base_of ws (entry_key e) \<noteq> None) es)) @ cg_seen s\<rparr>"
proof (induction es arbitrary: s)
  case Nil
  show ?case by (simp add: deviation_list_def)
next
  case (Cons e es)
  have d: "deviation_list ws op (e # es) = (case base_of ws (entry_key e) of
     Some b \<Rightarrow> if deviates (be_rate b) (be_rate e) op then [deviation_of b e] else [] | None \<Rightarrow> []) @ deviation_list ws op es"
    by (simp add: deviation_list_def split: option.split)
  show ?case
    unfolding fold_simps Cons.IH d
    by (simp add: compare_entry_def Let_def base_map_get split: option.split)
qed

lemma base_of_None: "base_of ws k = None \<longleftrightarrow> k \<notin> entry_key ` set ws"
  by (auto simp: base_of_def find_None_iff)

lemma compare_baseline_eq:
  "compare_baseline doc pods op =
    (let es = rates pods (bd_min_age doc); ws = bd_workloads doc in
     \<lparr>br_deviations = sort_slice deviation_less (deviation_list ws (normal_options op) es),
      br_compared = length (filter (\<lambda>e. entry_key e \<in> entry_key ` set ws) es),
      br_not_in_baseline = length (filter (\<lambda>e. entry_key e \<notin> entry_key ` set ws) es),
      br_gone = length (filter (\<lambda>w. entry_key w \<notin> entry_key ` set es) ws)\<rparr>)"
proof -
  have "(entry_key w \<notin> entry_key ` {x \<in> set es. entry_key x \<in> entry_key ` set ws}) =
    (entry_key w \<notin> entry_key ` set es)" if "w \<in> set ws" for w ws and es :: "baseline_entry list"
    using that by (auto simp: image_iff) metis
  then have "filter (\<lambda>w. entry_key w \<notin> entry_key ` {x \<in> set es. entry_key x \<in> entry_key ` set ws}) ws =
    filter (\<lambda>w. entry_key w \<notin> entry_key ` set es) ws" for ws and es :: "baseline_entry list"
    by (rule filter_cong [OF refl])
  then show ?thesis
    by (simp add: compare_baseline_def compare_fold base_of_None Let_def)
qed

section \<open>Only increases deviate\<close>

lemma scale2_nonneg: "0 \<le> x \<Longrightarrow> 0 \<le> scale2 k x"
  by (simp add: scale2_def)

lemma round_even_nonneg: "0 \<le> x \<Longrightarrow> 0 \<le> round_even x"
  by (simp add: round_even_def Let_def)

lemma nearest_double_sgn: "x \<le> 0 \<Longrightarrow> nearest_double x \<le> 0"
proof -
  assume x: "x \<le> 0"
  have "0 \<le> scale2 k (of_int (round_even (scale2 (- k) \<bar>x\<bar>)))" for k
    by (intro scale2_nonneg) (simp add: round_even_nonneg scale2_nonneg)
  from this [of "binade \<bar>x\<bar> - 52"] x show ?thesis by (simp add: nearest_double_def Let_def sgn_if)
qed

lemma nearest_double_0 [simp]: "nearest_double 0 = 0"
  by (simp add: nearest_double_def)

lemma normal_floor_pos: "finite_value (co_floor (normal_options op)) = Some f \<Longrightarrow> 0 < f"
  by (auto simp: normal_options_def threshold_def default_floor_def split: float64.splits if_splits)

lemma deviates_increase: "deviates b c (normal_options op) \<Longrightarrow> b < c"
proof -
  assume "deviates b c (normal_options op)"
  then obtain f where "finite_value (co_floor (normal_options op)) = Some f" "f \<le> nearest_double (c - b)"
    by (auto simp: deviates_def split: option.splits)
  then have "0 < nearest_double (c - b)" using normal_floor_pos by fastforce
  then show "b < c" using nearest_double_sgn [of "c - b"] by fastforce
qed

section \<open>A captured document is accepted\<close>

text \<open>What \<open>Marshal\<close> writes, as the decoder should hand it back.\<close>

definition marshalled :: "baseline_document \<Rightarrow> raw_document" where
  "marshalled d = \<lparr>rd_schema = bd_schema d, rd_captured_at = bd_captured_at d, rd_min_age = Finite False (bd_min_age d),
     rd_workloads = Some (map (\<lambda>e. \<lparr>rw_kind = be_kind e, rw_namespace = be_namespace e, rw_name = be_name e,
       rw_rate = Finite False (be_rate e), rw_pods = be_pods e, rw_observed = Finite False (be_observed e)\<rparr>) (bd_workloads d))\<rparr>"

definition loadable_entry :: "baseline_entry \<Rightarrow> bool" where
  "loadable_entry e \<longleftrightarrow> be_kind e \<noteq> [] \<and> be_name e \<noteq> [] \<and> 0 \<le> be_rate e \<and> 0 \<le> be_observed e"

lemma load_entries_marshalled:
  "\<forall>e\<in>set es. loadable_entry e \<Longrightarrow>
    load_entries i (map (\<lambda>e. \<lparr>rw_kind = be_kind e, rw_namespace = be_namespace e, rw_name = be_name e,
       rw_rate = Finite False (be_rate e), rw_pods = be_pods e, rw_observed = Finite False (be_observed e)\<rparr>) es) = Inr es"
  by (induction es arbitrary: i) (auto simp: loadable_entry_def usable_value_def)

lemma own_major: "major_of baseline_schema = Inr ''1''"
  by code_simp

lemma load_marshalled:
  assumes "bd_schema d = baseline_schema" and "0 \<le> bd_min_age d" and "\<forall>e\<in>set (bd_workloads d). loadable_entry e"
    and "decode b = Some (marshalled d)"
  shows "load_baseline decode b = Inr d"
proof -
  have "usable_value (Finite False (bd_min_age d)) = Some (bd_min_age d)"
    using assms(2) by (simp add: usable_value_def)
  moreover have "baseline_schema \<noteq> []" by (simp add: baseline_schema_def)
  ultimately show ?thesis
    using assms by (simp add: load_baseline_def marshalled_def own_major load_entries_marshalled)
qed

lemma load_entries_sound: "load_entries i es = Inr ws \<Longrightarrow> \<forall>e\<in>set ws. loadable_entry e"
proof (induction es arbitrary: i ws)
  case (Cons e es)
  from Cons.prems obtain r ob rest where
    "rw_kind e \<noteq> []" "rw_name e \<noteq> []" "usable_value (rw_rate e) = Some r" "usable_value (rw_observed e) = Some ob"
    "load_entries (i + 1) es = Inr rest"
    "ws = \<lparr>be_kind = rw_kind e, be_namespace = rw_namespace e, be_name = rw_name e,
       be_rate = r, be_pods = rw_pods e, be_observed = ob\<rparr> # rest"
    by (auto split: if_splits option.splits sum.splits)
  with Cons.IH [of "i + 1" rest] show ?case
    by (auto simp: loadable_entry_def usable_value_def split: option.splits if_splits)
qed simp

text \<open>Whatever the file holds, a document that loads has usable numbers and this build's major version.\<close>

lemma load_baseline_sound:
  "load_baseline decode b = Inr doc \<Longrightarrow>
    major_of (bd_schema doc) = Inr ''1'' \<and> 0 \<le> bd_min_age doc \<and> (\<forall>e\<in>set (bd_workloads doc). loadable_entry e)"
  by (auto simp: load_baseline_def own_major usable_value_def dest: load_entries_sound
      split: option.splits if_splits sum.splits)

lemma nearest_double_nonneg: "0 \<le> x \<Longrightarrow> 0 \<le> nearest_double x"
proof -
  assume x: "0 \<le> x"
  have "0 \<le> scale2 k (of_int (round_even (scale2 (- k) \<bar>x\<bar>)))" for k
    by (intro scale2_nonneg) (simp add: round_even_nonneg scale2_nonneg)
  from this [of "binade \<bar>x\<bar> - 52"] x show ?thesis by (simp add: nearest_double_def Let_def sgn_if)
qed

lemma rate_per_hour_nonneg: "0 \<le> n \<Longrightarrow> 0 \<le> rate_per_hour n secs"
  by (auto simp: rate_per_hour_def intro!: nearest_double_nonneg divide_nonneg_nonneg)

lemma foldl_restarts:
  assumes "0 \<le> n" and "\<forall>p\<in>set ps. 0 \<le> ps_restarts p" and "n + sum_list (map ps_restarts ps) < 2 ^ 63"
  shows "foldl (\<lambda>n p. wrap64 (n + ps_restarts p)) n ps = n + sum_list (map ps_restarts ps)"
  using assms
proof (induction ps arbitrary: n)
  case (Cons p ps)
  then have "0 \<le> sum_list (map ps_restarts ps)" by (intro sum_list_nonneg) auto
  with Cons show ?case by (simp add: wrap64_id in_int64_def add.assoc)
qed simp

lemma foldl_seconds: "0 \<le> s \<Longrightarrow> \<forall>p\<in>set ps. 0 \<le> sample_age p \<Longrightarrow>
    0 \<le> foldl (\<lambda>s p. nearest_double (s + sample_age p)) s ps"
  by (induction ps arbitrary: s) (simp_all add: nearest_double_nonneg)

lemma counts_sample_facts: "counts_sample p m \<Longrightarrow> 0 < sample_age p \<and> 0 \<le> ps_restarts p \<and> m \<le> sample_age p"
  by (auto simp: counts_sample.simps sample_age_def split: option.splits if_splits)

definition named_samples :: "pod_sample list \<Rightarrow> bool" where
  "named_samples pods \<longleftrightarrow> (\<forall>p\<in>set pods. ps_kind p \<noteq> [] \<and> ps_name p \<noteq> []) \<and>
     sum_list (map (\<lambda>p. max 0 (ps_restarts p)) pods) < 2 ^ 63"

lemma sum_filter_le:
  fixes f g :: "'a \<Rightarrow> int"
  assumes "\<And>x. 0 \<le> g x" and "\<And>x. f x \<le> g x"
  shows "sum_list (map f (filter P xs)) \<le> sum_list (map g xs)"
  using assms by (induction xs) (auto intro: add_mono order.trans)

lemma rates_loadable:
  assumes "named_samples pods" and "e \<in> set (rates pods m)"
  shows "loadable_entry e"
proof -
  let ?ps = "counted_for pods m (entry_key e)"
  obtain a where a: "acc_of ?ps = Some a" "e = entry_of a"
    using assms(2) by (auto simp: rates_entry_iff)
  have c: "\<forall>p\<in>set ?ps. p \<in> set pods \<and> counts_sample p m" by (auto simp: counted_for_def)
  have ne: "?ps \<noteq> []" using a by (auto simp: acc_of_def)
  then have "ra_id a = hd ?ps" using a(1) by (auto simp: acc_of_def)
  then have id: "ra_id a \<in> set pods" using c hd_in_set [OF ne] by simp
  have "sum_list (map ps_restarts ?ps) \<le> sum_list (map (\<lambda>p. max 0 (ps_restarts p)) pods)"
    unfolding counted_for_def by (rule sum_filter_le) auto
  then have "foldl (\<lambda>n p. wrap64 (n + ps_restarts p)) 0 ?ps = sum_list (map ps_restarts ?ps)"
    using assms(1) c counts_sample_facts by (subst foldl_restarts) (auto simp: named_samples_def)
  moreover have "0 \<le> sum_list (map ps_restarts ?ps)" using c counts_sample_facts by (intro sum_list_nonneg) auto
  ultimately have "0 \<le> ra_restarts a" using a(1) by (auto simp: acc_of_def split: if_splits)
  moreover have "0 \<le> foldl (\<lambda>s p. nearest_double (s + sample_age p)) 0 ?ps"
    using c counts_sample_facts by (intro foldl_seconds) (auto intro: less_imp_le)
  then have "0 \<le> ra_seconds a" using a(1) by (auto simp: acc_of_def split: if_splits)
  ultimately show ?thesis
    using a(2) id assms(1) by (auto simp: loadable_entry_def entry_of_def named_samples_def rate_per_hour_nonneg)
qed

lemma not_deviates_self: "\<not> deviates r r (normal_options op)"
  using deviates_increase by blast

lemma base_of_distinct: "distinct (map entry_key ws) \<Longrightarrow> e \<in> set ws \<Longrightarrow> base_of ws (entry_key e) = Some e"
proof -
  assume d: "distinct (map entry_key ws)" and e: "e \<in> set ws"
  then have "base_of ws (entry_key e) \<noteq> None" by (simp add: base_of_None)
  then obtain b where b: "base_of ws (entry_key e) = Some b" by blast
  then have "b \<in> set ws" "entry_key b = entry_key e"
    by (auto simp: base_of_def find_Some_split) (metis in_set_conv_decomp set_rev)
  with d e b show ?thesis by (metis distinct_map inj_onD)
qed

lemma compare_self:
  assumes "bd_min_age doc = m" and "bd_workloads doc = rates pods m"
  shows "compare_baseline doc pods op =
    \<lparr>br_deviations = [], br_compared = length (bd_workloads doc), br_not_in_baseline = 0, br_gone = 0\<rparr>"
proof -
  have "deviation_list (rates pods m) (normal_options op) (rates pods m) = []"
    using base_of_distinct [OF distinct_rates [of pods m]] not_deviates_self
    by (auto simp: deviation_list_def map_filter_def filter_empty_conv)
  then show ?thesis using assms by (simp add: compare_baseline_eq Let_def filter_empty_conv)
qed

section \<open>Properties\<close>

text \<open>
  What a baseline comparison reports is exact: every workload that has a rate now is counted once as
  compared or as not in the baseline, every baseline entry without a rate now as gone, and the
  deviations are exactly the workloads whose rate reaches both thresholds over the entry the
  document holds for them (the last one, where it repeats a key), each of them an increase.
\<close>

theorem compare_exact:
  "br_compared (compare_baseline doc pods op) + br_not_in_baseline (compare_baseline doc pods op) =
     length (rates pods (bd_min_age doc)) \<and>
   br_not_in_baseline (compare_baseline doc pods op) =
     card {e \<in> set (rates pods (bd_min_age doc)). entry_key e \<notin> entry_key ` set (bd_workloads doc)} \<and>
   br_gone (compare_baseline doc pods op) =
     length (filter (\<lambda>w. entry_key w \<notin> entry_key ` set (rates pods (bd_min_age doc))) (bd_workloads doc)) \<and>
   set (br_deviations (compare_baseline doc pods op)) =
     {deviation_of b e | b e. e \<in> set (rates pods (bd_min_age doc)) \<and> base_of (bd_workloads doc) (entry_key e) = Some b \<and>
        deviates (be_rate b) (be_rate e) (normal_options op)} \<and>
   (\<forall>d\<in>set (br_deviations (compare_baseline doc pods op)). dv_baseline_rate d < dv_current_rate d)"
proof -
  let ?es = "rates pods (bd_min_age doc)" and ?ws = "bd_workloads doc"
  have "distinct ?es" using distinct_rates [of pods "bd_min_age doc"] by (simp add: distinct_map)
  then have n: "length (filter P ?es) = card {e \<in> set ?es. P e}" for P
    by (metis distinct_card distinct_filter set_filter)
  have d: "set (deviation_list ?ws (normal_options op) ?es) =
     {deviation_of b e | b e. e \<in> set ?es \<and> base_of ?ws (entry_key e) = Some b \<and>
        deviates (be_rate b) (be_rate e) (normal_options op)}"
    by (auto simp: deviation_list_def set_map_filter split: option.splits if_splits)
  have inc: "dv_baseline_rate x < dv_current_rate x" if "x \<in> set (deviation_list ?ws (normal_options op) ?es)" for x
    using that unfolding d by (auto simp: deviation_of_def deviates_increase)
  show ?thesis
    using length_filter_partition [of "\<lambda>e. entry_key e \<in> entry_key ` set ?ws" ?es] n d inc
    by (simp add: compare_baseline_eq Let_def)
qed

text \<open>
  A document that was just captured loads, whatever the minimum age it was captured with, and the
  cluster it was captured from does not deviate from it, whatever the thresholds: every one of its
  workloads is compared and none is missing on either side.
\<close>

theorem captured_baseline_quiet:
  assumes "named_samples pods" and "decode file = Some (marshalled (capture pods min_pod_age now))"
  shows "load_baseline decode file = Inr (capture pods min_pod_age now) \<and>
    compare_baseline (capture pods min_pod_age now) pods op =
      \<lparr>br_deviations = [], br_compared = length (bd_workloads (capture pods min_pod_age now)),
       br_not_in_baseline = 0, br_gone = 0\<rparr>"
proof
  show "load_baseline decode file = Inr (capture pods min_pod_age now)"
    using assms(2)
    by (intro load_marshalled) (auto simp: capture_def Let_def intro: rates_loadable [OF assms(1)])
  show "compare_baseline (capture pods min_pod_age now) pods op =
      \<lparr>br_deviations = [], br_compared = length (bd_workloads (capture pods min_pod_age now)),
       br_not_in_baseline = 0, br_gone = 0\<rparr>"
    by (rule compare_self [where m = "bd_min_age (capture pods min_pod_age now)"]) (simp_all add: capture_def Let_def)
qed

definition sample_samples :: "pod_sample list" where
  "sample_samples = [\<lparr>ps_kind = ''Deployment'', ps_namespace = ''prod'', ps_name = ''web'', ps_restarts = 4,
     ps_age = Finite False 7200\<rparr>]"

theorem captured_baseline_quiet_witness:
  "load_baseline (\<lambda>_. Some (marshalled (capture sample_samples hour 0))) ''{}'' = Inr (capture sample_samples hour 0)"
  using captured_baseline_quiet [of sample_samples "\<lambda>_. Some (marshalled (capture sample_samples hour 0))" "''{}''" hour 0]
  by (simp add: named_samples_def sample_samples_def)

definition restarting_more :: "pod_sample list" where
  "restarting_more = [\<lparr>ps_kind = ''Deployment'', ps_namespace = ''prod'', ps_name = ''web'', ps_restarts = 40,
     ps_age = Finite False 7200\<rparr>]"

definition quiet_document :: baseline_document where
  "quiet_document = \<lparr>bd_schema = baseline_schema, bd_captured_at = [], bd_min_age = 3600,
     bd_workloads = [\<lparr>be_kind = ''Deployment'', be_namespace = ''prod'', be_name = ''web'', be_rate = 2, be_pods = 1,
       be_observed = 7200\<rparr>]\<rparr>"

lemma restarting_more_rates:
  "rates restarting_more 3600 = [\<lparr>be_kind = ''Deployment'', be_namespace = ''prod'', be_name = ''web'', be_rate = 20,
     be_pods = 1, be_observed = 7200\<rparr>]"
  by (simp add: rates_def rate_totals_def add_sample_def Let_def restarting_more_def counts_sample.simps mget_zero_def
      sample_key_def sample_age_def entry_of_def rate_per_hour_def nearest_double_numeral wrap64_id in_int64_def)

theorem compare_exact_witness:
  "\<exists>d\<in>set (br_deviations (compare_baseline quiet_document restarting_more \<lparr>co_factor = NaN, co_floor = NaN\<rparr>)).
     dv_baseline_rate d < dv_current_rate d"
proof -
  have "br_deviations (compare_baseline quiet_document restarting_more \<lparr>co_factor = NaN, co_floor = NaN\<rparr>) \<noteq> []"
    by (simp add: compare_baseline_def quiet_document_def restarting_more_rates base_map_def compare_entry_def entry_key_def
        base_key_def deviates_def normal_options_def threshold_def default_factor_def default_floor_def
        nearest_double_numeral Let_def)
  then show ?thesis
    using compare_exact [of quiet_document restarting_more "\<lparr>co_factor = NaN, co_floor = NaN\<rparr>"]
    by (metis list.set_sel(1))
qed

end
