(* ===== verification/Regex.thy ===== *)
theory Regex
  imports Safetext
begin

text \<open>
  What the code uses of Go's package \<open>regexp\<close>: expressions over runes, matched leftmost and with the
  preference of a backtracking matcher (the first alternative, the longest repetition). A cursor is
  the rune before it, if any, and the runes after it; \<open>ends\<close> lists where a match that starts at a
  cursor can end, best first. The inductive relation \<open>matches\<close> says the same without an order.
\<close>

datatype re =
    Eps
  | Cls "rune \<Rightarrow> bool"
  | Bos
  | Eos
  | WordB
  | Seq re re
  | Alt re re
  | Star re

type_synonym cursor = "rune option \<times> rune list"

definition is_word :: "rune \<Rightarrow> bool" where
  "is_word r \<longleftrightarrow> 48 \<le> r \<and> r \<le> 57 \<or> 65 \<le> r \<and> r \<le> 90 \<or> 97 \<le> r \<and> r \<le> 122 \<or> r = 95"

definition word_at :: "rune option \<Rightarrow> bool" where
  "word_at p \<longleftrightarrow> (case p of None \<Rightarrow> False | Some r \<Rightarrow> is_word r)"

definition ahead :: "rune list \<Rightarrow> rune option" where
  "ahead xs = (case xs of [] \<Rightarrow> None | x # _ \<Rightarrow> Some x)"

function ends :: "re \<Rightarrow> cursor \<Rightarrow> cursor list" where
  "ends Eps s = [s]"
| "ends (Cls P) s = (case snd s of [] \<Rightarrow> [] | x # xs \<Rightarrow> if P x then [(Some x, xs)] else [])"
| "ends Bos s = (if fst s = None then [s] else [])"
| "ends Eos s = (if snd s = [] then [s] else [])"
| "ends WordB s = (if word_at (fst s) \<noteq> word_at (ahead (snd s)) then [s] else [])"
| "ends (Seq a b) s = concat (map (ends b) (ends a s))"
| "ends (Alt a b) s = ends a s @ ends b s"
| "ends (Star a) s =
    concat (map (ends (Star a)) (filter (\<lambda>t. length (snd t) < length (snd s)) (ends a s))) @ [s]"
  by pat_completeness auto

termination
  by (relation "measures [size \<circ> fst, \<lambda>p. length (snd (snd p))]") auto

declare ends.simps(8) [simp del]

fun match_from :: "re \<Rightarrow> rune option \<Rightarrow> rune list \<Rightarrow> bool" where
  "match_from r p [] \<longleftrightarrow> ends r (p, []) \<noteq> []"
| "match_from r p (x # xs) \<longleftrightarrow> ends r (p, x # xs) \<noteq> [] \<or> match_from r (Some x) xs"

text \<open>\<open>Regexp.MatchString\<close>; \<open>FindStringSubmatch\<close> is not nil for the same strings.\<close>

definition match_string :: "re \<Rightarrow> string \<Rightarrow> bool" where
  "match_string r s \<longleftrightarrow> match_from r None (go_runes s)"

text \<open>
  \<open>Regexp.ReplaceAllString\<close> with a text that refers to no group: the leftmost match with the best end
  is replaced and the search goes on behind it. After an empty match it moves on by one rune; no
  expression it is used with matches the empty string.
\<close>

function replace_from :: "re \<Rightarrow> rune list \<Rightarrow> cursor \<Rightarrow> rune list" where
  "replace_from r t (p, xs) =
    (case filter (\<lambda>e. length (snd e) < length xs) (ends r (p, xs)) of
       e # _ \<Rightarrow> t @ replace_from r t e
     | [] \<Rightarrow> (case xs of [] \<Rightarrow> [] | x # ys \<Rightarrow> x # replace_from r t (Some x, ys)))"
  by pat_completeness auto

termination
proof (relation "measure (\<lambda>(r, t, c). length (snd c))")
  fix r :: re and t :: "rune list" and p xs e es
  assume "filter (\<lambda>e. length (snd e) < length xs) (ends r (p, xs)) = e # es"
  then have "e \<in> set (filter (\<lambda>e. length (snd e) < length xs) (ends r (p, xs)))" by simp
  then show "((r, t, e), r, t, p, xs) \<in> measure (\<lambda>(r, t, c). length (snd c))" by simp
qed auto

section \<open>Shorthands\<close>

definition alts :: "re list \<Rightarrow> re" where
  "alts rs = (case rs of [] \<Rightarrow> Eps | r # rs' \<Rightarrow> foldl Alt r rs')"

definition plus :: "re \<Rightarrow> re" where
  "plus r = Seq r (Star r)"

definition opt :: "re \<Rightarrow> re" where
  "opt r = Alt r Eps"

fun rep :: "nat \<Rightarrow> re \<Rightarrow> re" where
  "rep 0 r = Eps"
| "rep (Suc n) r = Seq r (rep n r)"

text \<open>Between one and so many times, the longest first.\<close>

fun up_to :: "nat \<Rightarrow> re \<Rightarrow> re" where
  "up_to 0 r = Eps"
| "up_to (Suc n) r = opt (Seq r (up_to n r))"

fun seqs :: "re list \<Rightarrow> re" where
  "seqs [] = Eps"
| "seqs (r # rs) = Seq r (seqs rs)"

definition rune_of :: "char \<Rightarrow> rune" where
  "rune_of c = of_char c"

definition lit :: "string \<Rightarrow> re" where
  "lit s = seqs (map (\<lambda>c. Cls (\<lambda>x. x = rune_of c)) s)"

text \<open>
  A letter under \<open>(?i)\<close>: its two cases and, for \<open>k\<close> and \<open>s\<close>, the Kelvin sign and the long s, which
  fold to them.
\<close>

definition same_fold :: "rune \<Rightarrow> rune \<Rightarrow> bool" where
  "same_fold c x \<longleftrightarrow>
    (let l = (if 65 \<le> c \<and> c \<le> 90 then c + 32 else c) in
     (if 65 \<le> x \<and> x \<le> 90 then x + 32 else x) = l \<or> l = 107 \<and> x = 8490 \<or> l = 115 \<and> x = 383)"

definition ilit :: "string \<Rightarrow> re" where
  "ilit s = seqs (map (\<lambda>c. Cls (same_fold (rune_of c))) s)"

definition between :: "char \<Rightarrow> char \<Rightarrow> rune \<Rightarrow> bool" where
  "between a b x \<longleftrightarrow> rune_of a \<le> x \<and> x \<le> rune_of b"

definition digit :: "rune \<Rightarrow> bool" where
  "digit x \<longleftrightarrow> between (CHR ''0'') (CHR ''9'') x"

definition letter :: "rune \<Rightarrow> bool" where
  "letter x \<longleftrightarrow> between (CHR ''A'') (CHR ''Z'') x \<or> between (CHR ''a'') (CHR ''z'') x"

definition any_but_newline :: re where
  "any_but_newline = Cls (\<lambda>x. x \<noteq> 10)"

section \<open>What a match is\<close>

inductive matches :: "re \<Rightarrow> cursor \<Rightarrow> cursor \<Rightarrow> bool" where
  m_eps: "matches Eps s s"
| m_cls: "P x \<Longrightarrow> matches (Cls P) (p, x # xs) (Some x, xs)"
| m_bos: "matches Bos (None, xs) (None, xs)"
| m_eos: "matches Eos (p, []) (p, [])"
| m_word: "word_at p \<noteq> word_at (ahead xs) \<Longrightarrow> matches WordB (p, xs) (p, xs)"
| m_seq: "matches a s t \<Longrightarrow> matches b t u \<Longrightarrow> matches (Seq a b) s u"
| m_left: "matches a s t \<Longrightarrow> matches (Alt a b) s t"
| m_right: "matches b s t \<Longrightarrow> matches (Alt a b) s t"
| m_none: "matches (Star a) s s"
| m_more: "matches a s t \<Longrightarrow> matches (Star a) t u \<Longrightarrow> matches (Star a) s u"

inductive_simps matches_simps:
  "matches Eps s t" "matches (Cls P) s t" "matches Bos s t" "matches Eos s t" "matches WordB s t"
  "matches (Seq a b) s t" "matches (Alt a b) s t"

text \<open>A match never moves back, and one that consumes nothing stays where it is.\<close>

lemma matches_forward: "matches r s t \<Longrightarrow> t = s \<or> length (snd t) < length (snd s)"
  by (induction rule: matches.induct) auto

lemma ends_matches: "t \<in> set (ends r s) \<Longrightarrow> matches r s t"
proof (induction r s arbitrary: t rule: ends.induct)
  case (2 P s)
  then show ?case by (cases s) (auto simp: matches_simps split: list.splits if_splits)
next
  case (3 s)
  then show ?case by (cases s) (auto simp: matches_simps split: if_splits)
next
  case (4 s)
  then show ?case by (cases s) (auto simp: matches_simps split: if_splits)
next
  case (5 s)
  then show ?case by (cases s) (auto simp: matches_simps split: if_splits)
next
  case (6 a b s)
  from 6(3) obtain v where "v \<in> set (ends a s)" "t \<in> set (ends b v)" by auto
  with 6(1,2) show ?case by (blast intro: m_seq)
next
  case (8 a s)
  from 8(3) consider "t = s" | v where "v \<in> set (ends a s)" "length (snd v) < length (snd s)" "t \<in> set (ends (Star a) v)"
    by (subst (asm) ends.simps) auto
  then show ?case
  proof cases
    case 2
    then have "matches a s v" "matches (Star a) v t" using 8(1,2) by simp_all
    then show ?thesis by (rule m_more)
  qed (simp add: m_none)
qed (auto intro: m_eps m_left m_right)

lemma matches_ends: "matches r s t \<Longrightarrow> t \<in> set (ends r s)"
proof (induction rule: matches.induct)
  case (m_more a s t u)
  from matches_forward [OF m_more.hyps(1)] show ?case
  proof
    assume "t = s"
    with m_more.IH(2) show ?thesis by simp
  next
    assume "length (snd t) < length (snd s)"
    then have "u \<in> set (concat (map (ends (Star a)) (filter (\<lambda>t. length (snd t) < length (snd s)) (ends a s))))"
      unfolding set_concat set_map set_filter using m_more.IH by blast
    then show ?thesis by (subst ends.simps) simp
  qed
next
  case (m_none a s)
  then show ?case by (subst ends.simps) simp
qed auto

lemma ends_iff: "t \<in> set (ends r s) \<longleftrightarrow> matches r s t"
  using ends_matches matches_ends by blast

lemma ends_nonempty: "ends r s \<noteq> [] \<longleftrightarrow> (\<exists>t. matches r s t)"
  unfolding ends_iff [symmetric] by (metis ex_in_conv set_empty)

text \<open>The rune before a position.\<close>

definition before :: "rune option \<Rightarrow> rune list \<Rightarrow> rune option" where
  "before p ys = (if ys = [] then p else Some (last ys))"

lemma match_from_iff:
  "match_from r p xs \<longleftrightarrow> (\<exists>ys zs t. xs = ys @ zs \<and> matches r (before p ys, zs) t)"
proof (induction xs arbitrary: p)
  case Nil
  show ?case by (simp add: ends_nonempty before_def)
next
  case (Cons x xs)
  have b: "before (Some x) ys = before p (x # ys)" for ys by (simp add: before_def)
  have "(\<exists>ys zs t. x # xs = ys @ zs \<and> matches r (before p ys, zs) t) \<longleftrightarrow>
      (\<exists>t. matches r (p, x # xs) t) \<or> (\<exists>ys zs t. xs = ys @ zs \<and> matches r (before p (x # ys), zs) t)" (is "?L \<longleftrightarrow> ?A \<or> ?B")
  proof
    assume ?L
    then obtain ys zs t where w: "x # xs = ys @ zs" "matches r (before p ys, zs) t" by blast
    show "?A \<or> ?B"
    proof (cases ys)
      case Nil
      then show ?thesis using w by (intro disjI1 exI [of _ t]) (simp add: before_def)
    next
      case (Cons y ys')
      then show ?thesis using w by (intro disjI2 exI [of _ ys'] exI [of _ zs] exI [of _ t]) simp
    qed
  next
    assume "?A \<or> ?B"
    then show ?L
    proof
      assume ?A
      then obtain t where "matches r (p, x # xs) t" by blast
      then show ?L by (intro exI [of _ "[]"] exI [of _ "x # xs"] exI [of _ t]) (simp add: before_def)
    next
      assume ?B
      then obtain ys zs t where "xs = ys @ zs" "matches r (before p (x # ys), zs) t" by blast
      then show ?L by (intro exI [of _ "x # ys"] exI [of _ zs] exI [of _ t]) simp
    qed
  qed
  then show ?case by (simp add: ends_nonempty Cons.IH b)
qed

section \<open>Literals and repetitions\<close>

lemma before_Nil [simp]: "before p [] = p"
  by (simp add: before_def)

lemma before_Cons: "before (Some x) ys = before p (x # ys)"
  by (simp add: before_def)

lemma matches_lit: "matches (lit s) (p, xs) (q, ys) \<longleftrightarrow> xs = map rune_of s @ ys \<and> q = before p (map rune_of s)"
proof (induction s arbitrary: p xs)
  case Nil
  show ?case by (auto simp: lit_def matches_simps)
next
  case (Cons c s)
  have "matches (lit (c # s)) (p, xs) (q, ys) \<longleftrightarrow>
      (\<exists>xs'. xs = rune_of c # xs' \<and> matches (lit s) (Some (rune_of c), xs') (q, ys))"
    by (auto simp: lit_def matches_simps)
  then show ?case by (auto simp: Cons.IH before_Cons [of _ _ p])
qed

lemma matches_rep:
  "matches (rep n (Cls P)) (p, xs) (q, ys) \<longleftrightarrow> (\<exists>w. length w = n \<and> list_all P w \<and> xs = w @ ys \<and> q = before p w)"
proof (induction n arbitrary: p xs)
  case 0
  show ?case by (auto simp: matches_simps)
next
  case (Suc n)
  have "matches (rep (Suc n) (Cls P)) (p, xs) (q, ys) \<longleftrightarrow>
      (\<exists>x xs'. xs = x # xs' \<and> P x \<and> matches (rep n (Cls P)) (Some x, xs') (q, ys))"
    by (auto simp: matches_simps)
  also have "\<dots> \<longleftrightarrow> (\<exists>w. length w = Suc n \<and> list_all P w \<and> xs = w @ ys \<and> q = before p w)" (is "?L \<longleftrightarrow> ?R")
  proof
    assume ?L
    then obtain x w where "P x" "xs = x # w @ ys" "length w = n" "list_all P w" "q = before (Some x) w"
      by (auto simp: Suc.IH)
    then show ?R by (intro exI [of _ "x # w"]) (simp add: before_Cons [of _ _ p])
  next
    assume ?R
    then obtain x w where "P x" "xs = x # w @ ys" "length w = n" "list_all P w" "q = before p (x # w)"
      by (auto simp: length_Suc_conv)
    then have "matches (rep n (Cls P)) (Some x, w @ ys) (q, ys)"
      unfolding Suc.IH by (intro exI [of _ w]) (simp add: before_Cons [of x w p])
    with \<open>P x\<close> \<open>xs = x # w @ ys\<close> show ?L by blast
  qed
  finally show ?case .
qed

text \<open>An expression without anchors matches in a text exactly where one of its words stands.\<close>

lemma match_words:
  assumes "\<And>p xs q ys. matches r (p, xs) (q, ys) \<longleftrightarrow> (\<exists>w. Q w \<and> xs = w @ ys \<and> q = before p w)"
  shows "match_string r s \<longleftrightarrow> (\<exists>pre w post. go_runes s = pre @ w @ post \<and> Q w)"
proof -
  have e: "(\<exists>t. matches r (p, zs) t) \<longleftrightarrow> (\<exists>w post. Q w \<and> zs = w @ post)" for p zs
    unfolding split_paired_Ex assms by blast
  have "match_string r s \<longleftrightarrow> (\<exists>pre zs. go_runes s = pre @ zs \<and> (\<exists>t. matches r (before None pre, zs) t))"
    unfolding match_string_def match_from_iff by blast
  also have "\<dots> \<longleftrightarrow> (\<exists>pre w post. go_runes s = pre @ w @ post \<and> Q w)"
    unfolding e by blast
  finally show ?thesis .
qed

end
