(* ===== verification/Operators.thy ===== *)
theory Operators
  imports Baseline Storage_Health Regex
begin

text \<open>
  \<open>internal/operators\<close> (the health of operator resources), \<open>internal/gitops\<close> (the drift of Argo CD and
  Flux objects) and \<open>Error\<close> of \<open>internal/redact\<close>. An object is its JSON content; the accessors of
  \<open>k8s.io/apimachinery\<close> for nested fields are parameters (\<open>nested_lib\<close>): they answer \<open>None\<close> for a path that
  is missing or of another type. So are \<open>time.Parse\<close> of a timestamp and the scheme and host that
  \<open>url.Parse\<close> finds in a URL.
\<close>

section \<open>Errors without their URLs\<close>

datatype api_failure =
    Plain_Error string
  | Wrapped_Error string api_failure
  | Url_Error string string api_failure

definition redact_url :: "(string \<Rightarrow> (string \<times> string) option) \<Rightarrow> string \<Rightarrow> string" where
  "redact_url parse raw =
    (case parse raw of
       None \<Rightarrow> ''(redacted)''
     | Some (scheme, host) \<Rightarrow> if scheme = [] \<or> host = [] then ''(redacted)'' else scheme @ ''://'' @ host)"

fun has_url :: "api_failure \<Rightarrow> bool" where
  "has_url (Plain_Error t) = False"
| "has_url (Wrapped_Error t e) = has_url e"
| "has_url (Url_Error op' url e) = True"

text \<open>The first URL error of the chain, whatever wraps it, else the text of the error.\<close>

fun redact_error :: "(string \<Rightarrow> (string \<times> string) option) \<Rightarrow> api_failure \<Rightarrow> string" where
  "redact_error parse (Plain_Error t) = t"
| "redact_error parse (Wrapped_Error t e) = (if has_url e then redact_error parse e else t)"
| "redact_error parse (Url_Error op' url e) = op' @ '' '' @ redact_url parse url @ '': '' @ redact_error parse e"

section \<open>Reading an object\<close>

record nested_lib =
  nl_string :: "json \<Rightarrow> string list \<Rightarrow> string option"
  nl_bool :: "json \<Rightarrow> string list \<Rightarrow> bool option"
  nl_slice :: "json \<Rightarrow> string list \<Rightarrow> json list option"
  nl_map :: "json \<Rightarrow> string list \<Rightarrow> (string \<times> json) list option"

definition nested_text :: "nested_lib \<Rightarrow> json \<Rightarrow> string list \<Rightarrow> string" where
  "nested_text n obj path = (case nl_string n obj path of None \<Rightarrow> [] | Some s \<Rightarrow> s)"

definition is_map :: "json \<Rightarrow> bool" where
  "is_map j = (case j of JObj kvs \<Rightarrow> True | _ \<Rightarrow> False)"

section \<open>The state of an operator resource\<close>

datatype op_state = Healthy | Progressing | Unhealthy | Suspended | Unknown

datatype op_rule =
    Condition_Rule string
  | Field_Rule (fr_path: "string list") (fr_healthy: "string list") (fr_progressing: "string list") (fr_unhealthy: "string list")
      (fr_suspended: "string list")

record adapter =
  ad_operator :: string
  ad_group :: string
  ad_version :: string
  ad_resource :: string
  ad_kind :: string
  ad_suspend_path :: "string list"
  ad_rule :: "op_rule option"

record fetched_item =
  fi_namespace :: string
  fi_name :: string
  fi_object :: json

record fetched =
  fe_adapter :: adapter
  fe_api_version :: string
  fe_items :: "fetched_item list"
  fe_forbidden :: bool
  fe_error :: "api_failure option"

record op_resource =
  or_operator :: string
  or_res_kind :: string
  or_namespace :: string
  or_res_name :: string
  or_state :: op_state
  or_reason :: string

record op_kind_report =
  ok_kind :: string
  ok_api_version :: string
  ok_judged :: bool
  ok_counts :: "(op_state, nat) gomap"
  ok_unhealthy :: "op_resource list"
  ok_truncated :: nat
  ok_forbidden :: bool
  ok_error :: string

record op_report =
  op_operator :: string
  op_api_versions :: "string list"
  op_kinds :: "op_kind_report list"

definition max_reason_runes :: nat where "max_reason_runes = 120"

definition max_unhealthy_per_kind :: nat where "max_unhealthy_per_kind = 20"

definition truncate_runes :: "string \<Rightarrow> nat \<Rightarrow> string" where
  "truncate_runes s n =
    (let r = go_runes s in if length r > n then encode (take n r) @ bytes [226, 128, 166] else s)"

definition short_reason :: "string \<Rightarrow> string" where
  "short_reason s = truncate_runes (trim_space (takeWhile (\<lambda>c. c \<noteq> CHR 0x0D \<and> c \<noteq> CHR 0x0A) s)) max_reason_runes"

definition condition_reason :: "string \<Rightarrow> string \<Rightarrow> string \<Rightarrow> string" where
  "condition_reason t status rsn = short_reason (t @ ''='' @ status @ (if rsn \<noteq> [] then '': '' @ rsn else []))"

definition condition_named :: "nested_lib \<Rightarrow> json \<Rightarrow> string \<Rightarrow> json option" where
  "condition_named n obj t =
    (case nl_slice n obj [''status'', ''conditions''] of
       None \<Rightarrow> None
     | Some cs \<Rightarrow> find (\<lambda>c. is_map c \<and> nested_text n c [''type''] = t) cs)"

definition condition_rule :: "nested_lib \<Rightarrow> string \<Rightarrow> json \<Rightarrow> op_state \<times> string" where
  "condition_rule n t obj =
    (case condition_named n obj t of
       None \<Rightarrow> (Unknown, [])
     | Some m \<Rightarrow>
         (let status = nested_text n m [''status'']; rsn = nested_text n m [''reason''] in
          if status = ''True'' then (Healthy, [])
          else if status = ''False'' then (Unhealthy, condition_reason t status rsn)
          else if status = ''Unknown'' then (Progressing, condition_reason t status rsn)
          else (Unknown, [])))"

definition field_label :: "string list \<Rightarrow> string" where
  "field_label path =
    (let p = (if length path > 1 \<and> hd path = ''status'' then tl path else path) in join p ''.'')"

definition field_rule ::
    "nested_lib \<Rightarrow> string list \<Rightarrow> string list \<Rightarrow> string list \<Rightarrow> string list \<Rightarrow> string list \<Rightarrow> json \<Rightarrow> op_state \<times> string" where
  "field_rule n path healthy progressing unhealthy suspended obj =
    (case nl_string n obj path of
       None \<Rightarrow> (Unknown, [])
     | Some v \<Rightarrow>
         if v = [] then (Unknown, [])
         else let label = short_reason (field_label path @ ''='' @ v) in
           if v \<in> set healthy then (Healthy, [])
           else if v \<in> set progressing then (Progressing, label)
           else if v \<in> set suspended then (Suspended, label)
           else if v \<in> set unhealthy then (Unhealthy, label)
           else (Unknown, []))"

definition rule_evaluate :: "nested_lib \<Rightarrow> op_rule \<Rightarrow> json \<Rightarrow> op_state \<times> string" where
  "rule_evaluate n r obj =
    (case r of Condition_Rule t \<Rightarrow> condition_rule n t obj
     | Field_Rule path h p u s \<Rightarrow> field_rule n path h p u s obj)"

definition op_evaluate :: "nested_lib \<Rightarrow> adapter \<Rightarrow> json \<Rightarrow> op_state \<times> string" where
  "op_evaluate n a obj =
    (if ad_suspend_path a \<noteq> [] \<and> nl_bool n obj (ad_suspend_path a) = Some True then (Suspended, ''suspended'')
     else case ad_rule a of None \<Rightarrow> (Unknown, []) | Some r \<Rightarrow> rule_evaluate n r obj)"

definition bump :: "'s \<Rightarrow> ('s, nat) gomap \<Rightarrow> ('s, nat) gomap" where
  "bump s m = mput s (mget_zero 0 m s + 1) m"

definition op_row :: "nested_lib \<Rightarrow> adapter \<Rightarrow> fetched_item \<Rightarrow> op_resource option" where
  "op_row n a it =
    (let r = op_evaluate n a (fi_object it) in
     if fst r \<noteq> Unhealthy then None
     else Some \<lparr>or_operator = ad_operator a, or_res_kind = ad_kind a, or_namespace = fi_namespace it, or_res_name = fi_name it,
       or_state = fst r, or_reason = snd r\<rparr>)"

definition op_kind :: "nested_lib \<Rightarrow> (string \<Rightarrow> (string \<times> string) option) \<Rightarrow> fetched \<Rightarrow> op_kind_report option" where
  "op_kind n parse f =
    (let a = fe_adapter f;
         err = (case fe_error f of None \<Rightarrow> [] | Some e \<Rightarrow> redact_error parse e);
         k = \<lparr>ok_kind = ad_kind a, ok_api_version = fe_api_version f, ok_judged = (ad_rule a \<noteq> None), ok_counts = [],
           ok_unhealthy = [], ok_truncated = 0, ok_forbidden = fe_forbidden f, ok_error = err\<rparr>
     in if fe_forbidden f \<or> err \<noteq> [] then Some k
        else if fe_items f = [] then None
        else let counts = fold (\<lambda>it. bump (fst (op_evaluate n a (fi_object it)))) (fe_items f) [];
                 rows = sort_slice (\<lambda>x y. if or_namespace x \<noteq> or_namespace y then or_namespace x < or_namespace y
                          else or_res_name x < or_res_name y) (List.map_filter (op_row n a) (fe_items f))
             in Some (if length rows > max_unhealthy_per_kind
               then k\<lparr>ok_counts := counts, ok_truncated := length rows - max_unhealthy_per_kind,
                 ok_unhealthy := take max_unhealthy_per_kind rows\<rparr>
               else k\<lparr>ok_counts := counts, ok_unhealthy := rows\<rparr>))"

definition op_total :: "op_kind_report \<Rightarrow> nat" where
  "op_total k = sum_list (map snd (ok_counts k))"

text \<open>The loop over the results, with the index of each operator's entry.\<close>

definition assess_op ::
    "nested_lib \<Rightarrow> (string \<Rightarrow> (string \<times> string) option) \<Rightarrow> fetched \<Rightarrow> op_report list \<times> (string, nat) gomap \<Rightarrow>
     op_report list \<times> (string, nat) gomap" where
  "assess_op n parse f st =
    (let name = ad_operator (fe_adapter f);
         (reps, index) = (case mget (snd st) name of Some i \<Rightarrow> st
           | None \<Rightarrow> (fst st @ [\<lparr>op_operator = name, op_api_versions = [], op_kinds = []\<rparr>], mput name (length (fst st)) (snd st)));
         i = (case mget index name of Some i \<Rightarrow> i | None \<Rightarrow> 0);
         r = reps ! i;
         r1 = (if fe_api_version f \<noteq> [] \<and> fe_api_version f \<notin> set (op_api_versions r)
               then r\<lparr>op_api_versions := op_api_versions r @ [fe_api_version f]\<rparr> else r);
         r2 = (case op_kind n parse f of None \<Rightarrow> r1 | Some k \<Rightarrow> r1\<lparr>op_kinds := op_kinds r1 @ [k]\<rparr>)
     in (reps[i := r2], index))"

definition assess_operators :: "nested_lib \<Rightarrow> (string \<Rightarrow> (string \<times> string) option) \<Rightarrow> fetched list \<Rightarrow> op_report list" where
  "assess_operators n parse fs = fst (fold (assess_op n parse) fs ([], []))"

definition plain_adapter :: "string \<Rightarrow> string \<Rightarrow> string \<Rightarrow> string \<Rightarrow> string \<Rightarrow> adapter" where
  "plain_adapter op' g v r k = \<lparr>ad_operator = op', ad_group = g, ad_version = v, ad_resource = r, ad_kind = k, ad_suspend_path = [],
     ad_rule = None\<rparr>"

definition operator_adapters :: "adapter list" where
  "operator_adapters =
   [(plain_adapter ''cert-manager'' ''cert-manager.io'' ''v1'' ''certificates'' ''Certificate'')\<lparr>ad_rule := Some (Condition_Rule ''Ready'')\<rparr>,
    (plain_adapter ''cert-manager'' ''cert-manager.io'' ''v1'' ''issuers'' ''Issuer'')\<lparr>ad_rule := Some (Condition_Rule ''Ready'')\<rparr>,
    (plain_adapter ''cert-manager'' ''cert-manager.io'' ''v1'' ''clusterissuers'' ''ClusterIssuer'')\<lparr>ad_rule := Some (Condition_Rule ''Ready'')\<rparr>,
    (plain_adapter ''CloudNativePG'' ''postgresql.cnpg.io'' ''v1'' ''clusters'' ''Cluster'')\<lparr>ad_rule := Some (Condition_Rule ''Ready'')\<rparr>,
    (plain_adapter ''Longhorn'' ''longhorn.io'' ''v1beta2'' ''volumes'' ''Volume'')\<lparr>ad_rule := Some (Field_Rule [''status'', ''robustness'']
       [''healthy''] [] [''degraded'', ''faulted''] [])\<rparr>,
    (plain_adapter ''Argo CD'' ''argoproj.io'' ''v1alpha1'' ''applications'' ''Application'')\<lparr>ad_rule := Some (Field_Rule
       [''status'', ''health'', ''status''] [''Healthy''] [''Progressing''] [''Degraded'', ''Missing''] [''Suspended''])\<rparr>,
    (plain_adapter ''Flux'' ''kustomize.toolkit.fluxcd.io'' ''v1'' ''kustomizations'' ''Kustomization'')\<lparr>ad_suspend_path := [''spec'', ''suspend''],
       ad_rule := Some (Condition_Rule ''Ready'')\<rparr>,
    (plain_adapter ''Flux'' ''helm.toolkit.fluxcd.io'' ''v2'' ''helmreleases'' ''HelmRelease'')\<lparr>ad_suspend_path := [''spec'', ''suspend''],
       ad_rule := Some (Condition_Rule ''Ready'')\<rparr>,
    (plain_adapter ''Prometheus operator'' ''monitoring.coreos.com'' ''v1'' ''prometheuses'' ''Prometheus'')\<lparr>ad_rule := Some (Condition_Rule ''Available'')\<rparr>,
    plain_adapter ''Prometheus operator'' ''monitoring.coreos.com'' ''v1'' ''servicemonitors'' ''ServiceMonitor'']"

section \<open>Drift\<close>

datatype drift_state = Synced | Pending | Stale | Blocked | Unclear

fun drift_severity :: "drift_state \<Rightarrow> nat" where
  "drift_severity Blocked = 0"
| "drift_severity Stale = 1"
| "drift_severity Pending = 2"
| "drift_severity _ = 3"

record drifted_object =
  dr_reconciler :: string
  dr_kind :: string
  dr_namespace :: string
  dr_name :: string
  dr_state :: drift_state
  dr_detail :: string

record drift_kind_report =
  dk_kind :: string
  dk_api_version :: string
  dk_counts :: "(drift_state, nat) gomap"
  dk_drifted :: "drifted_object list"
  dk_truncated :: nat
  dk_forbidden :: bool
  dk_error :: string

record reconciler_report =
  rc_reconciler :: string
  rc_api_versions :: "string list"
  rc_kinds :: "drift_kind_report list"

record drift_report =
  dp_threshold :: string
  dp_reconcilers :: "reconciler_report list"

definition revision_withheld :: string where "revision_withheld = ''(revision withheld)''"

definition lower_hex :: "rune \<Rightarrow> bool" where
  "lower_hex x \<longleftrightarrow> digit x \<or> between (CHR ''a'') (CHR ''f'') x"

definition hex_revision :: re where
  "hex_revision = seqs [Bos, rep 7 (Cls lower_hex), up_to 33 (Cls lower_hex), Eos]"

definition after_last :: "char \<Rightarrow> string \<Rightarrow> string" where
  "after_last c s = (case last_index_byte s c of None \<Rightarrow> s | Some i \<Rightarrow> drop (Suc i) s)"

definition short_revision :: "string \<Rightarrow> string" where
  "short_revision raw =
    (let s = after_last (CHR '':'') (after_last (CHR ''@'') raw) in
     if \<not> match_string hex_revision s then revision_withheld else take 7 s)"

text \<open>\<open>Hours\<close> and \<open>Minutes\<close> of a duration in float64, like \<open>Seconds\<close>.\<close>

definition duration_in :: "int \<Rightarrow> duration \<Rightarrow> rat" where
  "duration_in unit' d =
    (let h = go_quot d unit' in nearest_double (of_int h + nearest_double (of_int (d - h * unit') / of_int unit')))"

definition trunc_rat :: "rat \<Rightarrow> int" where
  "trunc_rat x = (if x < 0 then - \<lfloor>- x\<rfloor> else \<lfloor>x\<rfloor>)"

definition short_age :: "duration \<Rightarrow> string" where
  "short_age d' =
    (let d = (if d' < 0 then 0 else d') in
     if d \<ge> 24 * hour then itoa (go_quot (trunc_rat (duration_in hour d)) 24) @ ''d''
     else if d \<ge> hour then itoa (trunc_rat (duration_in hour d)) @ ''h''
     else if d \<ge> minute then itoa (trunc_rat (duration_in minute d)) @ ''m''
     else itoa (trunc_rat (duration_seconds d)) @ ''s'')"

definition dur_text :: "duration \<Rightarrow> string" where
  "dur_text d =
    (if d \<le> 0 then ''0s''
     else if d mod hour = 0 then itoa (d div hour) @ ''h''
     else if d mod minute = 0 then itoa (d div minute) @ ''m''
     else if d mod second = 0 then itoa (d div second) @ ''s''
     else full_duration d)"

text \<open>\<open>time.Parse\<close> of an RFC 3339 text is a parameter.\<close>

definition parse_time :: "(string \<Rightarrow> time option) \<Rightarrow> string \<Rightarrow> time" where
  "parse_time parse s = (if s = [] then 0 else case parse s of None \<Rightarrow> 0 | Some t \<Rightarrow> t)"

definition age_of :: "time \<Rightarrow> time \<Rightarrow> duration option" where
  "age_of t now = (if is_zero_time t then None else Some (let d = time_sub now t in if d < 0 then 0 else d))"

definition by_age :: "duration option \<Rightarrow> duration \<Rightarrow> drift_state" where
  "by_age age limit = (case age of None \<Rightarrow> Pending | Some d \<Rightarrow> if d > limit then Stale else Pending)"

definition drift_condition :: "nested_lib \<Rightarrow> (string \<Rightarrow> time option) \<Rightarrow> json \<Rightarrow> string \<Rightarrow> (string \<times> string \<times> time) option" where
  "drift_condition n parse obj t =
    map_option (\<lambda>m. (nested_text n m [''status''], nested_text n m [''reason''],
        parse_time parse (nested_text n m [''lastTransitionTime'']))) (condition_named n obj t)"

definition with_reason :: "string \<Rightarrow> string \<Rightarrow> string" where
  "with_reason head rsn = (if rsn = [] then head else head @ '': '' @ rsn)"

definition for_age :: "duration option \<Rightarrow> string" where
  "for_age age = (case age of None \<Rightarrow> '', age unknown'' | Some d \<Rightarrow> '' '' @ short_age d)"

definition has_auto_sync :: "nested_lib \<Rightarrow> json \<Rightarrow> bool" where
  "has_auto_sync n obj \<longleftrightarrow> nl_map n obj [''spec'', ''syncPolicy'', ''automated''] \<noteq> None"

definition assess_argo :: "nested_lib \<Rightarrow> (string \<Rightarrow> time option) \<Rightarrow> json \<Rightarrow> time \<Rightarrow> duration \<Rightarrow> drift_state \<times> string" where
  "assess_argo n parse obj now limit =
    (let sync = nested_text n obj [''status'', ''sync'', ''status''] in
     if sync = ''Synced'' then (Synced, [])
     else if sync \<noteq> ''OutOfSync'' then (Unclear, ''sync state unreported'')
     else let head = ''OutOfSync '' @ short_revision (nested_text n obj [''status'', ''sync'', ''revision'']);
              phase = nested_text n obj [''status'', ''operationState'', ''phase'']
          in if phase = ''Failed'' \<or> phase = ''Error'' then (Blocked, head @ '', last sync failed'')
             else let age = age_of (parse_time parse (nested_text n obj [''status'', ''operationState'', ''finishedAt''])) now;
                      when = (case age of None \<Rightarrow> ''age unknown'' | Some d \<Rightarrow> ''last synced '' @ short_age d @ '' ago'')
                  in if \<not> has_auto_sync n obj then (Blocked, head @ '', '' @ when @ '' (auto-sync off)'')
                     else (by_age age limit, head @ '', '' @ when))"

definition revision_pair :: "nested_lib \<Rightarrow> json \<Rightarrow> string" where
  "revision_pair n obj =
    (let attempted = nested_text n obj [''status'', ''lastAttemptedRevision''];
         applied = nested_text n obj [''status'', ''lastAppliedRevision'']
     in if attempted = [] \<or> attempted = applied then []
        else ''attempted '' @ short_revision attempted @ '', applied '' @ (if applied \<noteq> [] then short_revision applied else ''none''))"

definition filter_stalled :: "(string \<times> string \<times> time) option \<Rightarrow> string option" where
  "filter_stalled c = (case c of None \<Rightarrow> None | Some (status, rsn, t) \<Rightarrow> if status = ''True'' then Some rsn else None)"

definition assess_flux ::
    "nested_lib \<Rightarrow> (string \<Rightarrow> time option) \<Rightarrow> json \<Rightarrow> time \<Rightarrow> duration \<Rightarrow> bool \<Rightarrow> drift_state \<times> string" where
  "assess_flux n parse obj now limit revs =
    (if nl_bool n obj [''spec'', ''suspend''] = Some True then (Blocked, ''suspended'')
     else case filter_stalled (drift_condition n parse obj ''Stalled'') of
       Some rsn \<Rightarrow> (Blocked, with_reason ''stalled'' rsn)
     | None \<Rightarrow>
       (let ready = drift_condition n parse obj ''Ready'';
            age = age_of (case ready of None \<Rightarrow> 0 | Some (s, r, t) \<Rightarrow> t) now;
            revisions = (if revs then revision_pair n obj else []);
            status = (case ready of None \<Rightarrow> [] | Some (s, r, t) \<Rightarrow> s);
            rsn = (case ready of None \<Rightarrow> [] | Some (s, r, t) \<Rightarrow> r)
        in if ready \<noteq> None \<and> status = ''False''
           then (by_age age limit,
             (if revisions \<noteq> [] then revisions @ '', '' else []) @ with_reason (''not ready'' @ for_age age) rsn)
           else if revisions \<noteq> [] then (by_age age limit, revisions @ '', unchanged'' @ for_age age)
           else if ready \<noteq> None \<and> status = ''True'' then (Synced, [])
           else (Unclear, ''Ready not reported'')))"

definition assessor_for ::
    "nested_lib \<Rightarrow> (string \<Rightarrow> time option) \<Rightarrow> adapter \<Rightarrow> (json \<Rightarrow> time \<Rightarrow> duration \<Rightarrow> drift_state \<times> string) option" where
  "assessor_for n parse a =
    (if ad_group a = ''argoproj.io'' \<and> ad_resource a = ''applications'' then Some (assess_argo n parse)
     else if ad_group a = ''kustomize.toolkit.fluxcd.io'' \<and> ad_resource a = ''kustomizations''
     then Some (\<lambda>obj now th. assess_flux n parse obj now th True)
     else if ad_group a = ''helm.toolkit.fluxcd.io'' \<and> ad_resource a = ''helmreleases''
     then Some (\<lambda>obj now th. assess_flux n parse obj now th False)
     else None)"

definition drift_row :: "(json \<Rightarrow> drift_state \<times> string) \<Rightarrow> adapter \<Rightarrow> fetched_item \<Rightarrow> drifted_object option" where
  "drift_row assess a it =
    (let r = assess (fi_object it) in
     if fst r = Synced then None
     else Some \<lparr>dr_reconciler = ad_operator a, dr_kind = ad_kind a, dr_namespace = fi_namespace it, dr_name = fi_name it,
       dr_state = fst r, dr_detail = snd r\<rparr>)"

definition drift_less :: "drifted_object \<Rightarrow> drifted_object \<Rightarrow> bool" where
  "drift_less x y =
    (if drift_severity (dr_state x) \<noteq> drift_severity (dr_state y) then drift_severity (dr_state x) < drift_severity (dr_state y)
     else if dr_namespace x \<noteq> dr_namespace y then dr_namespace x < dr_namespace y
     else dr_name x < dr_name y)"

definition max_per_kind :: nat where "max_per_kind = 20"

definition drift_kind ::
    "(string \<Rightarrow> (string \<times> string) option) \<Rightarrow> fetched \<Rightarrow> (json \<Rightarrow> drift_state \<times> string) \<Rightarrow> drift_kind_report option" where
  "drift_kind parse_url f assess =
    (let a = fe_adapter f;
         err = (case fe_error f of None \<Rightarrow> [] | Some e \<Rightarrow> redact_error parse_url e);
         k = \<lparr>dk_kind = ad_kind a, dk_api_version = fe_api_version f, dk_counts = [], dk_drifted = [], dk_truncated = 0,
           dk_forbidden = fe_forbidden f, dk_error = err\<rparr>
     in if fe_forbidden f \<or> err \<noteq> [] then Some k
        else if fe_items f = [] then None
        else let counts = fold (\<lambda>it. bump (fst (assess (fi_object it)))) (fe_items f) [];
                 rows = sort_slice drift_less (List.map_filter (drift_row assess a) (fe_items f))
             in Some (if length rows > max_per_kind
               then k\<lparr>dk_counts := counts, dk_truncated := length rows - max_per_kind, dk_drifted := take max_per_kind rows\<rparr>
               else k\<lparr>dk_counts := counts, dk_drifted := rows\<rparr>))"

definition drift_total :: "drift_kind_report \<Rightarrow> nat" where
  "drift_total k = sum_list (map snd (dk_counts k))"

definition assess_drift_one ::
    "nested_lib \<Rightarrow> (string \<Rightarrow> time option) \<Rightarrow> (string \<Rightarrow> (string \<times> string) option) \<Rightarrow> time \<Rightarrow> duration \<Rightarrow> fetched \<Rightarrow>
     reconciler_report list \<times> (string, nat) gomap \<Rightarrow> reconciler_report list \<times> (string, nat) gomap" where
  "assess_drift_one n parse parse_url now limit f st =
    (case assessor_for n parse (fe_adapter f) of
       None \<Rightarrow> st
     | Some assess \<Rightarrow>
       (let name = ad_operator (fe_adapter f);
            (reps, index) = (case mget (snd st) name of Some i \<Rightarrow> st
              | None \<Rightarrow> (fst st @ [\<lparr>rc_reconciler = name, rc_api_versions = [], rc_kinds = []\<rparr>], mput name (length (fst st)) (snd st)));
            i = (case mget index name of Some i \<Rightarrow> i | None \<Rightarrow> 0);
            r = reps ! i;
            r1 = (if fe_api_version f \<noteq> [] \<and> fe_api_version f \<notin> set (rc_api_versions r)
                  then r\<lparr>rc_api_versions := rc_api_versions r @ [fe_api_version f]\<rparr> else r);
            r2 = (case drift_kind parse_url f (\<lambda>obj. assess obj now limit) of None \<Rightarrow> r1
                  | Some k \<Rightarrow> r1\<lparr>rc_kinds := rc_kinds r1 @ [k]\<rparr>)
        in (reps[i := r2], index)))"

definition assess_drift ::
    "nested_lib \<Rightarrow> (string \<Rightarrow> time option) \<Rightarrow> (string \<Rightarrow> (string \<times> string) option) \<Rightarrow> fetched list \<Rightarrow> time \<Rightarrow> duration \<Rightarrow>
     drift_report" where
  "assess_drift n parse parse_url fs now limit' =
    (let limit = (if limit' < 0 then 0 else limit') in
     \<lparr>dp_threshold = dur_text limit,
      dp_reconcilers = fst (fold (assess_drift_one n parse parse_url now limit) fs ([], []))\<rparr>)"

definition drift_adapters :: "adapter list" where
  "drift_adapters =
   [plain_adapter ''Argo CD'' ''argoproj.io'' ''v1alpha1'' ''applications'' ''Application'',
    plain_adapter ''Flux'' ''kustomize.toolkit.fluxcd.io'' ''v1'' ''kustomizations'' ''Kustomization'',
    plain_adapter ''Flux'' ''helm.toolkit.fluxcd.io'' ''v2'' ''helmreleases'' ''HelmRelease'']"

section \<open>What a revision shows\<close>

lemma decode_low: "decode_rune (c # s) = Some (r, w) \<Longrightarrow> r < 128 \<Longrightarrow> (of_char c :: nat) < 128"
  by (auto simp: decode_rune_def cont_def Let_def split: list.splits if_splits)

lemma low_runes_ascii: "list_all (\<lambda>r. r < 128) (go_runes s) \<Longrightarrow> ascii s"
proof (induction s)
  case (Cons c s)
  show ?case
  proof (cases "decode_rune (c # s)")
    case None
    with Cons.prems show ?thesis by (simp add: replacement_def)
  next
    case (Some rw)
    obtain r w where rw: "rw = (r, w)" by (cases rw)
    with Some Cons.prems have "r < 128" by simp
    with Some rw have c: "(of_char c :: nat) < 128" by (auto dest: decode_low)
    with Cons.prems have "list_all (\<lambda>r. r < 128) (go_runes s)" by (simp add: decode_ascii)
    with Cons.IH c show ?thesis by (simp add: ascii_def)
  qed
qed (simp add: ascii_def)

lemma matches_up_to: "matches (up_to n (Cls P)) (p, xs) (q, ys) \<Longrightarrow> \<exists>w. length w \<le> n \<and> list_all P w \<and> xs = w @ ys \<and> q = before p w"
proof (induction n arbitrary: p xs)
  case 0
  then show ?case by (auto simp: matches_simps)
next
  case (Suc n)
  then consider "q = p" "ys = xs" | x xs' where "xs = x # xs'" "P x" "matches (up_to n (Cls P)) (Some x, xs') (q, ys)"
    by (auto simp: opt_def matches_simps)
  then show ?case
  proof cases
    case 1
    then show ?thesis by (intro exI [of _ "[]"]) simp
  next
    case 2
    from Suc.IH [OF 2(3)] obtain w where "length w \<le> n" "list_all P w" "xs' = w @ ys" "q = before (Some x) w" by blast
    with 2 show ?thesis by (intro exI [of _ "x # w"]) (simp add: before_Cons [of x w p])
  qed
qed

lemma hex_revision_runes: "match_string hex_revision s \<Longrightarrow> list_all lower_hex (go_runes s) \<and> 7 \<le> length (go_runes s)"
proof -
  assume "match_string hex_revision s"
  then obtain ys zs t where m: "go_runes s = ys @ zs" "matches hex_revision (before None ys, zs) t"
    unfolding match_string_def match_from_iff by blast
  then have ys: "ys = []" by (cases ys) (auto simp: hex_revision_def matches_simps before_def)
  with m obtain q r where r: "matches (rep 7 (Cls lower_hex)) (None, zs) (q, r)" and
      u: "\<exists>p. matches (up_to 33 (Cls lower_hex)) (q, r) (p, [])"
    by (auto simp: hex_revision_def matches_simps simp del: rep.simps up_to.simps numeral_eq_Suc)
  from r obtain w where w: "length w = 7" "list_all lower_hex w" "zs = w @ r" unfolding matches_rep by blast
  from u obtain w' where "list_all lower_hex w'" "r = w' @ []" by (blast dest: matches_up_to)
  with w m(1) ys show ?thesis by simp
qed

text \<open>
  A drift report never carries a revision in clear. Whatever text the object holds there (a URL, a
  token, a branch name), the report shows either the fixed placeholder or exactly seven lower-case
  hexadecimal digits.
\<close>

theorem revision_shown:
  "short_revision raw = revision_withheld \<or>
   length (short_revision raw) = 7 \<and> set (short_revision raw) \<subseteq> set ''0123456789abcdef''"
proof -
  let ?s = "after_last (CHR '':'') (after_last (CHR ''@'') raw)"
  show ?thesis
  proof (cases "match_string hex_revision ?s")
    case False
    then show ?thesis by (simp add: short_revision_def Let_def)
  next
    case True
    then have h: "list_all lower_hex (go_runes ?s)" "7 \<le> length (go_runes ?s)" by (simp_all add: hex_revision_runes)
    have "list_all (\<lambda>r. r < 128) (go_runes ?s)"
      using h(1) by (rule list.pred_mono_strong) (auto simp: lower_hex_def digit_def between_def rune_of_def)
    then have g: "go_runes ?s = map of_char ?s" by (intro go_runes_ascii low_runes_ascii)
    have c: "c \<in> set ''0123456789abcdef''" if "lower_hex (of_char c)" for c
    proof -
      have "c = char_of (of_char c :: nat)" by simp
      moreover have "of_char c \<in> {48..<58} \<union> {97..<(103::nat)}"
        using that by (auto simp: lower_hex_def digit_def between_def rune_of_def)
      ultimately have "c \<in> char_of ` ({48..<58} \<union> {97..<(103::nat)})" by blast
      also have "\<dots> \<subseteq> set ''0123456789abcdef''" by code_simp
      finally show ?thesis .
    qed
    have "set (take 7 ?s) \<subseteq> set ''0123456789abcdef''"
    proof
      fix x assume "x \<in> set (take 7 ?s)"
      then have "of_char x \<in> set (go_runes ?s)" unfolding g by (auto dest: in_set_takeD)
      with h(1) show "x \<in> set ''0123456789abcdef''" unfolding list_all_iff by (intro c) blast
    qed
    moreover have "length (take 7 ?s) = 7" using h(2) unfolding g by simp
    ultimately show ?thesis using True by (simp add: short_revision_def Let_def)
  qed
qed

section \<open>The census of a kind\<close>

lemma bump_count: "mget_zero 0 (fold (\<lambda>it. bump (h it)) xs m) s = mget_zero 0 m s + length (filter (\<lambda>it. h it = s) xs)"
  by (induction xs arbitrary: m) (auto simp: bump_def)

lemma bump_total:
  "mok m \<Longrightarrow> mok (fold (\<lambda>it. bump (h it)) xs m) \<and> msum id (fold (\<lambda>it. bump (h it)) xs m) = msum id m + length xs"
proof (induction xs arbitrary: m)
  case (Cons x xs)
  have "msum id (bump (h x) m) = Suc (msum id m)"
    using msum_mput [OF Cons.prems, of id "h x" "mget_zero 0 m (h x) + 1"]
    by (simp add: bump_def mget_zero_def split: option.splits)
  with Cons.IH [of "bump (h x) m"] Cons.prems show ?case by (simp add: bump_def id_def)
qed simp

lemma drift_less_key: "drift_less = key_less (\<lambda>x. (drift_severity (dr_state x), dr_namespace x, dr_name x))"
  by (auto simp: fun_eq_iff drift_less_def key_less_def lex_less)

text \<open>
  C32. The drift census accounts for every object. For a kind that could be read, the counts by state add
  up to the number of objects and each is exact; the rows are the objects that are not in sync, the worst
  state first; at most twenty of them are listed, the others are counted, and none of those is worse than
  one that is listed.
\<close>

theorem drift_census:
  assumes "drift_kind parse_url f assess = Some k" and "dk_error k = []" and "\<not> dk_forbidden k"
  shows "\<exists>rows. mset rows = mset (List.map_filter (drift_row assess (fe_adapter f)) (fe_items f)) \<and>
    sorted (map (drift_severity \<circ> dr_state) rows) \<and> dk_drifted k = take 20 rows \<and>
    length (dk_drifted k) + dk_truncated k = length rows \<and>
    length rows + mget_zero 0 (dk_counts k) Synced = length (fe_items f) \<and> drift_total k = length (fe_items f) \<and>
    mget_zero 0 (dk_counts k) = (\<lambda>s. length (filter (\<lambda>it. fst (assess (fi_object it)) = s) (fe_items f)))"
proof -
  define rows where "rows = sort_slice drift_less (List.map_filter (drift_row assess (fe_adapter f)) (fe_items f))"
  define counts where "counts = fold (\<lambda>it. bump (fst (assess (fi_object it)))) (fe_items f) ([] :: (drift_state, nat) gomap)"
  have k: "dk_counts k = counts \<and> dk_drifted k = take 20 rows \<and> dk_truncated k = length rows - 20"
    using assms by (auto simp: drift_kind_def Let_def rows_def counts_def max_per_kind_def split: if_splits)
  have c: "mget_zero 0 counts = (\<lambda>s. length (filter (\<lambda>it. fst (assess (fi_object it)) = s) (fe_items f)))"
    unfolding counts_def bump_count by (simp add: mget_zero_def)
  have t: "drift_total k = length (fe_items f)"
    using bump_total [of "[]" "\<lambda>it. fst (assess (fi_object it))" "fe_items f"] k
    by (simp add: drift_total_def counts_def msum_def)
  have "sorted (map (\<lambda>x. (drift_severity (dr_state x), dr_namespace x, dr_name x)) rows)"
    unfolding rows_def drift_less_key key_sorted_iff [symmetric] by (rule kl.sort_sorted)
  then have s: "sorted (map (drift_severity \<circ> dr_state) rows)"
    by (induction rows) (auto simp: less_eq_prod_def)
  have n: "length (List.map_filter (drift_row assess a) its) + length (filter (\<lambda>it. fst (assess (fi_object it)) = Synced) its) = length its" for a its
    by (induction its) (auto simp: drift_row_def Let_def)
  have "length rows + mget_zero 0 counts Synced = length (fe_items f)" unfolding c rows_def using n by simp
  then show ?thesis using k c t s by (intro exI [of _ rows]) (simp add: rows_def)
qed

definition one_kustomization :: fetched where
  "one_kustomization = \<lparr>fe_adapter = plain_adapter ''Flux'' ''kustomize.toolkit.fluxcd.io'' ''v1'' ''kustomizations'' ''Kustomization'',
     fe_api_version = ''v1'', fe_items = [\<lparr>fi_namespace = ''default'', fi_name = ''app'', fi_object = JObj []\<rparr>],
     fe_forbidden = False, fe_error = None\<rparr>"

theorem drift_census_witness:
  "\<exists>k. drift_kind (\<lambda>_. None) one_kustomization (\<lambda>_. (Stale, ''old'')) = Some k \<and> drift_total k = 1"
proof -
  obtain k where k: "drift_kind (\<lambda>_. None) one_kustomization (\<lambda>_. (Stale, ''old'')) = Some k" "dk_error k = []" "\<not> dk_forbidden k"
    by (simp add: drift_kind_def one_kustomization_def max_per_kind_def drift_row_def Let_def split: if_splits)
  from drift_census [OF k] have "drift_total k = 1" by (auto simp: one_kustomization_def)
  with k(1) show ?thesis by blast
qed

section \<open>The reports by operator\<close>

text \<open>The first occurrences of the elements of a list, in order.\<close>

definition firsts :: "'a list \<Rightarrow> 'a list" where
  "firsts xs = fold (\<lambda>x acc. if x \<in> set acc then acc else acc @ [x]) xs []"

lemma firsts_simps [simp]: "firsts [] = []" "firsts (xs @ [x]) = (if x \<in> set xs then firsts xs else firsts xs @ [x])"
  and set_firsts [simp]: "set (firsts xs) = set xs"
  and distinct_firsts [simp]: "distinct (firsts xs)"
proof -
  show "firsts [] = []" by (simp add: firsts_def)
  have s: "set (firsts ys) = set ys \<and> distinct (firsts ys)" for ys :: "'b list"
    by (induction ys rule: rev_induct) (auto simp: firsts_def)
  then show "set (firsts xs) = set xs" "distinct (firsts xs)" by blast+
  show "firsts (xs @ [x]) = (if x \<in> set xs then firsts xs else firsts xs @ [x])" for xs :: "'b list" and x
    using s [of xs] by (simp add: firsts_def)
qed

definition operator_entry :: "nested_lib \<Rightarrow> (string \<Rightarrow> (string \<times> string) option) \<Rightarrow> fetched list \<Rightarrow> string \<Rightarrow> op_report" where
  "operator_entry n parse fs name =
    (let own = filter (\<lambda>f. ad_operator (fe_adapter f) = name) fs in
     \<lparr>op_operator = name, op_api_versions = firsts (filter (\<lambda>v. v \<noteq> []) (map fe_api_version own)),
      op_kinds = List.map_filter (op_kind n parse) own\<rparr>)"

lemma map_filter_snoc: "List.map_filter g (xs @ [x]) = List.map_filter g xs @ (case g x of None \<Rightarrow> [] | Some y \<Rightarrow> [y])"
  by (simp add: List.map_filter_def split: option.splits)

lemma operator_entry_snoc:
  "operator_entry n parse (fs @ [f]) name =
    (let r = operator_entry n parse fs name in
     if ad_operator (fe_adapter f) \<noteq> name then r
     else let r1 = (if fe_api_version f \<noteq> [] \<and> fe_api_version f \<notin> set (op_api_versions r)
                  then r\<lparr>op_api_versions := op_api_versions r @ [fe_api_version f]\<rparr> else r)
       in case op_kind n parse f of None \<Rightarrow> r1 | Some k \<Rightarrow> r1\<lparr>op_kinds := op_kinds r1 @ [k]\<rparr>)"
  by (auto simp: operator_entry_def Let_def map_filter_snoc split: option.splits)

definition op_index :: "fetched list \<Rightarrow> (string, nat) gomap \<Rightarrow> bool" where
  "op_index fs m \<longleftrightarrow> (let names = firsts (map (\<lambda>f. ad_operator (fe_adapter f)) fs) in
     (\<forall>k i. mget m k = Some i \<longleftrightarrow> i < length names \<and> names ! i = k))"

lemma assess_op_step:
  assumes "fst st = map (operator_entry n parse fs) (firsts (map (\<lambda>f. ad_operator (fe_adapter f)) fs))" and "op_index fs (snd st)"
  shows "fst (assess_op n parse f st) = map (operator_entry n parse (fs @ [f])) (firsts (map (\<lambda>f. ad_operator (fe_adapter f)) (fs @ [f]))) \<and>
    op_index (fs @ [f]) (snd (assess_op n parse f st))"
proof -
  define name where "name = ad_operator (fe_adapter f)"
  define old where "old = firsts (map (\<lambda>f. ad_operator (fe_adapter f)) fs)"
  define names where "names = firsts (map (\<lambda>f. ad_operator (fe_adapter f)) (fs @ [f]))"
  have dis: "distinct names" by (simp add: names_def)
  have "\<exists>i m. (case mget (snd st) name of Some i \<Rightarrow> st
        | None \<Rightarrow> (fst st @ [\<lparr>op_operator = name, op_api_versions = [], op_kinds = []\<rparr>], mput name (length (fst st)) (snd st))) =
      (map (operator_entry n parse fs) names, m) \<and> mget m name = Some i \<and> i < length names \<and> names ! i = name \<and> op_index (fs @ [f]) m"
  proof (cases "mget (snd st) name")
    case (Some i)
    with assms(2) have i: "i < length old" "old ! i = name" by (simp_all add: op_index_def Let_def old_def)
    then have "name \<in> set old" by (metis nth_mem)
    then have ns: "names = old" by (simp add: names_def old_def name_def)
    have "op_index (fs @ [f]) (snd st)"
      using assms(2) unfolding op_index_def Let_def old_def [symmetric] names_def [symmetric] ns .
    moreover have "st = (map (operator_entry n parse fs) names, snd st)"
      using assms(1) unfolding old_def [symmetric] ns by (simp add: prod_eq_iff)
    ultimately show ?thesis using i ns Some by (intro exI [of _ i] exI [of _ "snd st"]) simp
  next
    case None
    have new: "name \<notin> set old"
    proof
      assume "name \<in> set old"
      then obtain i where "i < length old" "old ! i = name" by (metis in_set_conv_nth)
      with assms(2) have "mget (snd st) name = Some i" by (simp add: op_index_def Let_def old_def)
      with None show False by simp
    qed
    then have ns: "names = old @ [name]" by (simp add: names_def old_def name_def)
    have "filter (\<lambda>g. ad_operator (fe_adapter g) = name) fs = []"
      using new by (auto simp: old_def filter_empty_conv)
    then have "operator_entry n parse fs name = \<lparr>op_operator = name, op_api_versions = [], op_kinds = []\<rparr>"
      by (simp add: operator_entry_def)
    moreover have "op_index (fs @ [f]) (mput name (length old) (snd st))"
      using assms(2) new unfolding op_index_def Let_def old_def [symmetric] names_def [symmetric] ns
      by (auto simp: nth_append less_Suc_eq)
    ultimately show ?thesis using None assms(1)
      by (intro exI [of _ "length old"] exI [of _ "mput name (length old) (snd st)"]) (simp add: ns old_def [symmetric])
  qed
  then obtain i m where st': "(case mget (snd st) name of Some i \<Rightarrow> st
        | None \<Rightarrow> (fst st @ [\<lparr>op_operator = name, op_api_versions = [], op_kinds = []\<rparr>], mput name (length (fst st)) (snd st))) =
      (map (operator_entry n parse fs) names, m)" and m: "mget m name = Some i" "i < length names" "names ! i = name" "op_index (fs @ [f]) m"
    by blast
  have "fst (assess_op n parse f st) = (map (operator_entry n parse fs) names)[i := operator_entry n parse (fs @ [f]) name]"
    unfolding assess_op_def Let_def name_def [symmetric] st' operator_entry_snoc prod.case m(1) option.case fst_conv
      nth_map [OF m(2)] m(3)
    by simp
  also have "\<dots> = map (operator_entry n parse (fs @ [f])) names"
  proof (rule nth_equalityI)
    fix j assume j: "j < length ((map (operator_entry n parse fs) names)[i := operator_entry n parse (fs @ [f]) name])"
    then have "j \<noteq> i \<Longrightarrow> names ! j \<noteq> name" using dis m by (metis nth_eq_iff_index_eq length_list_update length_map)
    with j m show "(map (operator_entry n parse fs) names)[i := operator_entry n parse (fs @ [f]) name] ! j =
        map (operator_entry n parse (fs @ [f])) names ! j"
      by (cases "j = i") (simp_all add: operator_entry_snoc Let_def name_def)
  qed simp
  finally show ?thesis using m(4) unfolding names_def assess_op_def Let_def name_def [symmetric] st' by simp
qed

text \<open>
  The operator report groups by operator and loses nothing: although it is built in one pass with an
  index of positions, it has one entry per operator, in the order they were first seen, and the entry
  holds every kind of that operator that has something to report and each of its API versions once.
\<close>

theorem operators_grouped:
  "assess_operators n parse fs = map (operator_entry n parse fs) (firsts (map (\<lambda>f. ad_operator (fe_adapter f)) fs))"
proof -
  have "fst (fold (assess_op n parse) fs ([], [])) = map (operator_entry n parse fs) (firsts (map (\<lambda>f. ad_operator (fe_adapter f)) fs)) \<and>
    op_index fs (snd (fold (assess_op n parse) fs ([], [])))"
  proof (induction fs rule: rev_induct)
    case Nil
    show ?case by (simp add: op_index_def)
  next
    case (snoc f fs)
    with assess_op_step [of "fold (assess_op n parse) fs ([], [])" n parse fs f] show ?case by simp
  qed
  then show ?thesis by (simp add: assess_operators_def)
qed

end
