(* ===== verification/Probe_Health.thy ===== *)
theory Probe_Health
  imports Operators Cluster_Health
begin

text \<open>
  Three opt-in checks: \<open>internal/diskusage\<close>, \<open>internal/dnshealth\<close> and \<open>internal/certhealth\<close>. Ratios are
  float64 numbers, rounded after every operation (\<open>nearest_double\<close>). \<open>strconv.ParseFloat\<close>, \<open>pem.Decode\<close>
  and \<open>x509.ParseCertificate\<close> are parameters.
\<close>

section \<open>Disk usage\<close>

record pvc_volume =
  pq_namespace :: string
  pq_name :: string
  pq_used :: int
  pq_cap :: int

record node_summary =
  nu_node :: string
  nu_used :: int
  nu_cap :: int
  nu_volumes :: "pvc_volume list"

record disk_row =
  dw_kind :: string
  dw_node :: string
  dw_namespace :: string
  dw_name :: string
  dw_used :: int
  dw_cap :: int
  dw_ratio :: rat

record disk_report =
  di_over :: "disk_row list"
  di_nodes :: "disk_row list"
  di_threshold :: rat

definition disk_ratio :: "int \<Rightarrow> int \<Rightarrow> rat" where
  "disk_ratio used cap = nearest_double (nearest_double (of_int used) / nearest_double (of_int cap))"

definition node_row :: "node_summary \<Rightarrow> disk_row option" where
  "node_row s =
    (if nu_cap s > 0
     then Some \<lparr>dw_kind = ''node'', dw_node = nu_node s, dw_namespace = [], dw_name = nu_node s, dw_used = nu_used s,
       dw_cap = nu_cap s, dw_ratio = disk_ratio (nu_used s) (nu_cap s)\<rparr>
     else None)"

definition volume_row :: "pvc_volume \<Rightarrow> disk_row option" where
  "volume_row v =
    (if pq_cap v \<le> 0 then None
     else Some \<lparr>dw_kind = ''pvc'', dw_node = [], dw_namespace = pq_namespace v, dw_name = pq_name v, dw_used = pq_used v,
       dw_cap = pq_cap v, dw_ratio = disk_ratio (pq_used v) (pq_cap v)\<rparr>)"

definition at_limit :: "rat \<Rightarrow> disk_row option \<Rightarrow> disk_row option" where
  "at_limit limit r = (case r of None \<Rightarrow> None | Some w \<Rightarrow> if dw_ratio w \<ge> limit then Some w else None)"

definition summary_over :: "rat \<Rightarrow> node_summary \<Rightarrow> disk_row list" where
  "summary_over limit s =
    (case at_limit limit (node_row s) of None \<Rightarrow> [] | Some w \<Rightarrow> [w]) @ List.map_filter (at_limit limit \<circ> volume_row) (nu_volumes s)"

definition disk_less :: "disk_row \<Rightarrow> disk_row \<Rightarrow> bool" where
  "disk_less a b = (if dw_ratio a \<noteq> dw_ratio b then dw_ratio a > dw_ratio b else dw_name a < dw_name b)"

definition assess_disks :: "node_summary list \<Rightarrow> rat \<Rightarrow> disk_report" where
  "assess_disks stats limit =
    \<lparr>di_over = sort_slice disk_less (concat (map (summary_over limit) stats)), di_nodes = List.map_filter node_row stats,
     di_threshold = limit\<rparr>"

section \<open>DNS resolution\<close>

record dns_report =
  dz_status :: string
  dz_ratio :: rat
  dz_errors :: int
  dz_total :: int
  dz_probed :: nat
  dz_answered :: nat

definition max_count :: int where "max_count = 2 ^ 53"

definition max_int64 :: int where "max_int64 = 2 ^ 63 - 1"

definition saturating_add :: "int \<Rightarrow> int \<Rightarrow> int" where
  "saturating_add a b = (if b > 0 \<and> a > max_int64 - b then max_int64 else a + b)"

definition label_value :: "string \<Rightarrow> string \<Rightarrow> string" where
  "label_value ln' key =
    (let needle = key @ ''='' @ bytes [34] in
     case str_index ln' needle of
       None \<Rightarrow> []
     | Some i \<Rightarrow> (let rest = drop (i + length needle) ln' in
         if CHR 0x22 \<in> set rest then takeWhile (\<lambda>c. c \<noteq> CHR 0x22) rest else []))"

definition dns_sample :: "(string \<Rightarrow> float64 option) \<Rightarrow> string \<Rightarrow> (string \<times> int) option" where
  "dns_sample parse_float raw =
    (let t = trim_space raw in
     if t = [] \<or> has_prefix t ''#'' then None
     else if \<not> has_prefix t ''coredns_dns_responses_total{'' \<and> \<not> has_prefix t ''coredns_dns_response_rcode_count_total{'' then None
     else let rcode = label_value t ''rcode'' in
       if rcode = [] then None
       else (case last_index_byte t (CHR ''}'') of
         None \<Rightarrow> None
       | Some brace \<Rightarrow>
         (let field = first_field (drop (Suc brace) t) in
          if field = [] then None
          else (case parse_float field of
            None \<Rightarrow> None
          | Some v \<Rightarrow> (case finite_value v of
              None \<Rightarrow> None
            | Some x \<Rightarrow> if x < 0 then None
                else Some (rcode, if x \<le> of_int max_count then \<lfloor>x\<rfloor> else max_count))))))"

definition parse_responses :: "(string \<Rightarrow> float64 option) \<Rightarrow> string \<Rightarrow> (string, int) gomap" where
  "parse_responses parse_float body =
    fold (\<lambda>(rcode, n) m. mput rcode (saturating_add (mget_zero 0 m rcode) n) m)
      (List.map_filter (dns_sample parse_float) (split_byte (CHR 0x0A) body)) []"

definition blank_dns :: dns_report where
  "blank_dns = \<lparr>dz_status = [], dz_ratio = 0, dz_errors = 0, dz_total = 0, dz_probed = 0, dz_answered = 0\<rparr>"

definition dns_total :: "(string, int) gomap \<Rightarrow> int" where
  "dns_total agg = fold (\<lambda>(k, v) t. if v < 0 then t else saturating_add t v) agg 0"

definition dns_errors :: "(string, int) gomap \<Rightarrow> int" where
  "dns_errors agg =
    (let e = saturating_add (max (mget_zero 0 agg ''SERVFAIL'') 0) (max (mget_zero 0 agg ''REFUSED'') 0)
     in if e > dns_total agg then dns_total agg else e)"

definition assess_dns :: "(string, int) gomap \<Rightarrow> nat \<Rightarrow> nat \<Rightarrow> nat \<Rightarrow> nat \<Rightarrow> rat \<Rightarrow> int \<Rightarrow> dns_report" where
  "assess_dns agg probed answered forbidden unreached limit least =
    (if probed = 0 then blank_dns
     else if forbidden > 0 \<and> forbidden = probed then blank_dns\<lparr>dz_status := ''forbidden''\<rparr>
     else if unreached = probed then blank_dns\<lparr>dz_status := ''unreachable''\<rparr>
     else let total = dns_total agg in
       if total = 0
       then (if forbidden > 0 then blank_dns\<lparr>dz_status := ''forbidden''\<rparr>
             else if unreached > 0 then blank_dns\<lparr>dz_status := ''unreachable''\<rparr>
             else blank_dns\<lparr>dz_probed := probed, dz_answered := answered\<rparr>)
       else let errs = dns_errors agg;
                r = disk_ratio errs total;
                rep = \<lparr>dz_status = [], dz_ratio = r, dz_errors = errs, dz_total = total, dz_probed = probed, dz_answered = answered\<rparr>
         in if total < least then rep
            else if r \<ge> limit then rep\<lparr>dz_status := ''degraded''\<rparr>
            else rep\<lparr>dz_status := ''ok''\<rparr>)"

section \<open>Certificates\<close>

record certificate =
  ct_common_name :: string
  ct_dns_names :: "string list"
  ct_not_after :: time

record tls_secret =
  ts_namespace :: string
  ts_name :: string
  ts_type :: string
  ts_crt :: string

record tls_ingress =
  tg_namespace :: string
  tg_name :: string
  tg_tls :: "(string \<times> string list) list"

record cert_row =
  cw_namespace :: string
  cw_name :: string
  cw_common_name :: string
  cw_not_after :: string
  cw_days :: int
  cw_ingresses :: "string list"

record invalid_cert =
  ic_namespace :: string
  ic_name :: string
  ic_detail :: string

record certs_report =
  ca_checked :: nat
  ca_warn_days :: int
  ca_expired :: "cert_row list"
  ca_expiring :: "cert_row list"
  ca_invalid :: "invalid_cert list"

definition max_cert_blocks :: nat where "max_cert_blocks = 32"

text \<open>\<open>decode\<close> is \<open>pem.Decode\<close>: the type and the bytes of the first block, and what follows it.\<close>

fun earliest_from ::
    "(string \<Rightarrow> (string \<times> string \<times> string) option) \<Rightarrow> (string \<Rightarrow> certificate option) \<Rightarrow> nat \<Rightarrow> string \<Rightarrow>
     certificate option \<Rightarrow> certificate option" where
  "earliest_from decode parse 0 rest best = best"
| "earliest_from decode parse (Suc n) rest best =
    (case decode rest of
       None \<Rightarrow> best
     | Some (kind, block, rest') \<Rightarrow>
         if kind \<noteq> ''CERTIFICATE'' then earliest_from decode parse n rest' best
         else (case parse block of
             None \<Rightarrow> earliest_from decode parse n rest' best
           | Some c \<Rightarrow> earliest_from decode parse n rest'
               (case best of None \<Rightarrow> Some c | Some b \<Rightarrow> if ct_not_after c < ct_not_after b then Some c else Some b)))"

definition earliest_certificate ::
    "(string \<Rightarrow> (string \<times> string \<times> string) option) \<Rightarrow> (string \<Rightarrow> certificate option) \<Rightarrow> string \<Rightarrow> certificate option" where
  "earliest_certificate decode parse crt = earliest_from decode parse max_cert_blocks crt None"

definition max_ingress_hosts :: nat where "max_ingress_hosts = 5"

definition bounded_hosts :: "unicode_tables \<Rightarrow> string list \<Rightarrow> string" where
  "bounded_hosts u hosts =
    (if hosts = [] then []
     else join (map (line u) (take max_ingress_hosts hosts) @
       (if length hosts > max_ingress_hosts then [''+'' @ itoa (int (length hosts - max_ingress_hosts)) @ '' more''] else [])) '', '')"

definition front_label :: "unicode_tables \<Rightarrow> tls_ingress \<Rightarrow> string list \<Rightarrow> string" where
  "front_label u i hosts =
    (let base = tg_namespace i @ ''/'' @ tg_name i; hs = bounded_hosts u hosts
     in if hs \<noteq> [] then base @ '' ('' @ hs @ '')'' else base)"

definition add_fronts :: "unicode_tables \<Rightarrow> tls_ingress \<Rightarrow> (string, string list) gomap \<Rightarrow> (string, string list) gomap" where
  "add_fronts u i m = fold (\<lambda>(secret, hosts) m. if secret = [] then m
     else let key = tg_namespace i @ ''/'' @ secret in mput key (mget_zero [] m key @ [front_label u i hosts]) m) (tg_tls i) m"

definition ingress_fronts :: "unicode_tables \<Rightarrow> tls_ingress list \<Rightarrow> (string, string list) gomap" where
  "ingress_fronts u ings = map (\<lambda>(k, labels). (k, sort labels)) (fold (add_fronts u) ings [])"

definition cert_days :: "time \<Rightarrow> time \<Rightarrow> int" where
  "cert_days not_after now = trunc_rat (nearest_double (duration_in hour (time_sub not_after now) / 24))"

definition cert_name :: "unicode_tables \<Rightarrow> certificate \<Rightarrow> string" where
  "cert_name u c =
    (let n = line u (ct_common_name c) in
     if n = [] \<and> length (ct_dns_names c) > 0 then line u (hd (ct_dns_names c)) else n)"

datatype cert_state = Invalid_Cert invalid_cert | Expired_Cert cert_row | Expiring_Cert cert_row | Fine_Cert

definition judge_secret ::
    "unicode_tables \<Rightarrow> (string \<Rightarrow> (string \<times> string \<times> string) option) \<Rightarrow> (string \<Rightarrow> certificate option) \<Rightarrow>
     (string, string list) gomap \<Rightarrow> int \<Rightarrow> time \<Rightarrow> tls_secret \<Rightarrow> cert_state" where
  "judge_secret u decode parse fronts warn now s =
    (let bad = (\<lambda>detail. Invalid_Cert \<lparr>ic_namespace = ts_namespace s, ic_name = ts_name s, ic_detail = detail\<rparr>) in
     if ts_crt s = [] then bad ''empty tls.crt''
     else (case earliest_certificate decode parse (ts_crt s) of
       None \<Rightarrow> bad ''invalid certificate data''
     | Some c \<Rightarrow>
       (let row = \<lparr>cw_namespace = ts_namespace s, cw_name = ts_name s, cw_common_name = cert_name u c,
              cw_not_after = rfc3339 (ct_not_after c), cw_days = cert_days (ct_not_after c) now,
              cw_ingresses = mget_zero [] fronts (ts_namespace s @ ''/'' @ ts_name s)\<rparr>
        in if \<not> ct_not_after c > now then Expired_Cert row
           else if warn > 0 \<and> cw_days row \<le> warn then Expiring_Cert row
           else Fine_Cert)))"

definition cert_less :: "cert_row \<Rightarrow> cert_row \<Rightarrow> bool" where
  "cert_less a b =
    (if cw_days a \<noteq> cw_days b then cw_days a < cw_days b
     else if cw_namespace a \<noteq> cw_namespace b then cw_namespace a < cw_namespace b
     else cw_name a < cw_name b)"

definition invalid_less :: "invalid_cert \<Rightarrow> invalid_cert \<Rightarrow> bool" where
  "invalid_less a b = (if ic_namespace a \<noteq> ic_namespace b then ic_namespace a < ic_namespace b else ic_name a < ic_name b)"

fun expired_of :: "cert_state \<Rightarrow> cert_row option" where
  "expired_of (Expired_Cert r) = Some r"
| "expired_of _ = None"

fun expiring_of :: "cert_state \<Rightarrow> cert_row option" where
  "expiring_of (Expiring_Cert r) = Some r"
| "expiring_of _ = None"

fun invalid_of :: "cert_state \<Rightarrow> invalid_cert option" where
  "invalid_of (Invalid_Cert i) = Some i"
| "invalid_of _ = None"

definition is_tls :: "tls_secret \<Rightarrow> bool" where
  "is_tls s \<longleftrightarrow> ts_type s = ''kubernetes.io/tls''"

definition assess_certs ::
    "unicode_tables \<Rightarrow> (string \<Rightarrow> (string \<times> string \<times> string) option) \<Rightarrow> (string \<Rightarrow> certificate option) \<Rightarrow>
     tls_secret list \<Rightarrow> tls_ingress list \<Rightarrow> int \<Rightarrow> time \<Rightarrow> certs_report" where
  "assess_certs u decode parse secrets ings warn now =
    (let tls = filter is_tls secrets; states = map (judge_secret u decode parse (ingress_fronts u ings) warn now) tls
     in \<lparr>ca_checked = length tls, ca_warn_days = warn, ca_expired = sort_slice cert_less (List.map_filter expired_of states),
         ca_expiring = sort_slice cert_less (List.map_filter expiring_of states),
         ca_invalid = sort_slice invalid_less (List.map_filter invalid_of states)\<rparr>)"

section \<open>Rounding is monotone\<close>

lemma scale2_powi: "scale2 k x = x * 2 powi k"
  by (cases "0 \<le> k") (simp_all only: scale2_def power_int_def if_True if_False divide_inverse power_inverse)

lemma bit_len_spec: "0 < n \<Longrightarrow> 2 ^ (bit_len n - 1) \<le> n \<and> n < 2 ^ bit_len n \<and> 0 < bit_len n"
proof (induction n rule: less_induct)
  case (less n)
  show ?case
  proof (cases "n div 2 = 0")
    case True
    with less.prems have "n = 1" by auto
    then show ?thesis using bit_len_1 by simp
  next
    case False
    with less.IH [of "n div 2"] less.prems have h: "2 ^ (bit_len (n div 2) - 1) \<le> n div 2" "n div 2 < 2 ^ bit_len (n div 2)"
      "0 < bit_len (n div 2)" by auto
    have e: "bit_len n = Suc (bit_len (n div 2))" using less.prems by (subst bit_len.simps) simp
    from h(3) have "(2 :: nat) ^ bit_len (n div 2) = 2 * 2 ^ (bit_len (n div 2) - 1)" by (metis Suc_pred' power_Suc)
    with h(1) have "2 ^ bit_len (n div 2) \<le> n" by linarith
    moreover have "n < 2 * 2 ^ bit_len (n div 2)" using h(2) by linarith
    ultimately show ?thesis unfolding e by simp
  qed
qed

lemma powi_2_pos: "0 < (2 :: rat) powi k"
  by simp

lemma powi_2_diff: "(2 :: rat) ^ m / 2 ^ n = 2 powi (int m - int n)"
  by (simp add: power_int_diff)

lemma binade_spec:
  assumes "0 < x"
  shows "2 powi binade x \<le> x \<and> x < 2 powi (binade x + 1)"
proof -
  obtain a b where q: "quotient_of x = (a, b)" by (cases "quotient_of x")
  have b: "0 < b" using q by (rule quotient_of_denom_pos)
  have x: "x = of_int a / of_int b" using q by (rule quotient_of_div)
  have a: "0 < a" using assms b unfolding x by (simp add: zero_less_divide_iff)
  define m n where "m = bit_len (nat a)" and "n = bit_len (nat b)"
  note sa = bit_len_spec [of "nat a", folded m_def] and sb = bit_len_spec [of "nat b", folded n_def]
  have m: "0 < m" "2 ^ (m - 1) \<le> a" "a < 2 ^ m"
    using sa a by (auto simp: nat_less_iff le_nat_iff)
  have n: "0 < n" "2 ^ (n - 1) \<le> b" "b < 2 ^ n"
    using sb b by (auto simp: nat_less_iff le_nat_iff)
  have ra: "(2 :: rat) ^ (m - 1) \<le> of_int a" "of_int a < (2 :: rat) ^ m"
    using m(2,3) by (metis of_int_le_iff of_int_numeral of_int_power, metis of_int_less_iff of_int_numeral of_int_power)
  have rb: "(2 :: rat) ^ (n - 1) \<le> of_int b" "of_int b < (2 :: rat) ^ n"
    using n(2,3) by (metis of_int_le_iff of_int_numeral of_int_power, metis of_int_less_iff of_int_numeral of_int_power)
  let ?e = "int m - int n"
  have "x < 2 ^ m / 2 ^ (n - 1)"
    unfolding x using ra rb b a by (intro frac_less) auto
  also have "\<dots> = 2 powi (?e + 1)" unfolding powi_2_diff using n(1) by (simp add: of_nat_diff algebra_simps)
  finally have up: "x < 2 powi (?e + 1)" .
  have "(2 :: rat) powi (?e - 1) = 2 ^ (m - 1) / 2 ^ n" unfolding powi_2_diff using m(1) by (simp add: of_nat_diff algebra_simps)
  also have "\<dots> \<le> x" unfolding x using ra rb b a by (intro frac_le) auto
  finally have low: "2 powi (?e - 1) \<le> x" .
  show ?thesis
  proof (cases "scale2 ?e 1 \<le> x")
    case True
    then show ?thesis using up by (simp add: binade_def q m_def [symmetric] n_def [symmetric] scale2_powi)
  next
    case False
    then show ?thesis using low by (simp add: binade_def q m_def [symmetric] n_def [symmetric] scale2_powi)
  qed
qed

lemma round_even_near: "\<lfloor>q\<rfloor> \<le> round_even q \<and> round_even q \<le> \<lfloor>q\<rfloor> + 1"
  by (simp add: round_even_def Let_def)

lemma round_even_mono:
  assumes "p \<le> q"
  shows "round_even p \<le> round_even q"
proof (cases "\<lfloor>p\<rfloor> = \<lfloor>q\<rfloor>")
  case True
  then show ?thesis using assms by (auto simp: round_even_def Let_def)
next
  case False
  with floor_mono [OF assms] have "\<lfloor>p\<rfloor> + 1 \<le> \<lfloor>q\<rfloor>" by linarith
  with round_even_near [of p] round_even_near [of q] show ?thesis by linarith
qed

lemma nearest_double_pos:
  assumes "0 < x"
  shows "nearest_double x = of_int (round_even (x * 2 powi (52 - binade x))) * 2 powi (binade x - 52)"
  using assms by (simp add: nearest_double_def Let_def scale2_powi)

lemma nearest_double_binade:
  assumes "0 < x"
  shows "2 powi binade x \<le> nearest_double x \<and> nearest_double x \<le> 2 powi (binade x + 1)"
proof -
  let ?b = "binade x"
  have split: "(2 :: rat) powi (i + j) = 2 powi i * 2 powi j" for i j by (simp add: power_int_add)
  have s: "2 powi ?b * 2 powi (52 - ?b) = (2 :: rat) ^ 52" "2 powi (?b + 1) * 2 powi (52 - ?b) = (2 :: rat) ^ 53"
    using split [of ?b "52 - ?b"] split [of "?b + 1" "52 - ?b"] by simp_all
  from binade_spec [OF assms] have "2 ^ 52 \<le> x * 2 powi (52 - ?b)" "x * 2 powi (52 - ?b) \<le> 2 ^ 53"
    unfolding s [symmetric] by (auto intro: mult_right_mono)
  then have "round_even (of_int (2 ^ 52)) \<le> round_even (x * 2 powi (52 - ?b))" "round_even (x * 2 powi (52 - ?b)) \<le> round_even (of_int (2 ^ 53))"
    by (auto intro: round_even_mono)
  then have r: "2 ^ 52 \<le> round_even (x * 2 powi (52 - ?b))" "round_even (x * 2 powi (52 - ?b)) \<le> 2 ^ 53"
    by (simp_all only: round_even_int)
  have t: "2 powi ?b = (2 :: rat) ^ 52 * 2 powi (?b - 52)" "2 powi (?b + 1) = (2 :: rat) ^ 53 * 2 powi (?b - 52)"
    using split [of 52 "?b - 52"] split [of 53 "?b - 52"] by (simp_all add: add.commute)
  from r have "(2 :: rat) ^ 52 \<le> of_int (round_even (x * 2 powi (52 - ?b)))" "of_int (round_even (x * 2 powi (52 - ?b))) \<le> (2 :: rat) ^ 53"
    by (metis of_int_le_iff of_int_numeral of_int_power)+
  then show ?thesis unfolding nearest_double_pos [OF assms] t by (auto intro: mult_right_mono)
qed

lemma nearest_double_mono:
  assumes "0 \<le> x" and "x \<le> y"
  shows "nearest_double x \<le> nearest_double y"
proof (cases "x = 0")
  case True
  then show ?thesis using assms nearest_double_nonneg [of y] by simp
next
  case False
  with assms have p: "0 < x" "0 < y" by simp_all
  note bx = binade_spec [OF p(1)] and by' = binade_spec [OF p(2)]
  have le: "binade x \<le> binade y"
  proof (rule ccontr)
    assume "\<not> binade x \<le> binade y"
    then have "(2 :: rat) powi (binade y + 1) \<le> 2 powi binade x" by (intro power_int_increasing) auto
    with bx by' assms(2) show False by linarith
  qed
  show ?thesis
  proof (cases "binade x = binade y")
    case True
    have "x * 2 powi (52 - binade x) \<le> y * 2 powi (52 - binade x)" using assms(2) by (intro mult_right_mono) auto
    from round_even_mono [OF this] show ?thesis
      unfolding nearest_double_pos [OF p(1)] nearest_double_pos [OF p(2)] True by (intro mult_right_mono) auto
  next
    case False
    with le have "(2 :: rat) powi (binade x + 1) \<le> 2 powi binade y" by (intro power_int_increasing) auto
    with nearest_double_binade [OF p(1)] nearest_double_binade [OF p(2)] show ?thesis by linarith
  qed
qed

lemma nearest_double_1: "nearest_double 1 = 1"
  using nearest_double_int [of 1] by simp

lemma nearest_double_ge1: "1 \<le> x \<Longrightarrow> 1 \<le> nearest_double x"
  using nearest_double_mono [of 1 x] by (simp add: nearest_double_1)

lemma disk_ratio_bounds:
  assumes "0 < cap"
  shows "0 \<le> used \<Longrightarrow> 0 \<le> disk_ratio used cap" and "0 \<le> used \<Longrightarrow> used \<le> cap \<Longrightarrow> disk_ratio used cap \<le> 1"
    and "cap \<le> used \<Longrightarrow> 1 \<le> disk_ratio used cap"
proof -
  have c: "1 \<le> nearest_double (of_int cap)" using assms by (intro nearest_double_ge1) simp
  show "0 \<le> disk_ratio used cap" if "0 \<le> used"
    using that c by (simp add: disk_ratio_def nearest_double_nonneg)
  show "disk_ratio used cap \<le> 1" if "0 \<le> used" "used \<le> cap"
  proof -
    have m: "nearest_double (of_int used) \<le> nearest_double (of_int cap)" "0 \<le> nearest_double (of_int used)"
      using that by (auto intro: nearest_double_mono nearest_double_nonneg)
    then have "nearest_double (nearest_double (of_int used) / nearest_double (of_int cap)) \<le> nearest_double 1"
      using c by (intro nearest_double_mono) (auto simp: divide_le_eq)
    then show ?thesis by (simp add: disk_ratio_def nearest_double_1)
  qed
  show "1 \<le> disk_ratio used cap" if "cap \<le> used"
  proof -
    have "nearest_double (of_int cap) \<le> nearest_double (of_int used)"
      using that assms by (intro nearest_double_mono) auto
    then show ?thesis unfolding disk_ratio_def using c by (intro nearest_double_ge1) (simp add: le_divide_eq)
  qed
qed


section \<open>What the checks report\<close>

definition disk_rows :: "node_summary list \<Rightarrow> disk_row list" where
  "disk_rows stats = concat (map (\<lambda>s. (case node_row s of None \<Rightarrow> [] | Some w \<Rightarrow> [w]) @ List.map_filter volume_row (nu_volumes s)) stats)"

lemma disk_less_key: "disk_less = key_less (\<lambda>w. (- dw_ratio w, dw_name w))"
  by (auto simp: fun_eq_iff disk_less_def key_less_def lex_less)

lemma over_rows: "concat (map (summary_over limit) stats) = filter (\<lambda>w. limit \<le> dw_ratio w) (disk_rows stats)"
proof -
  have "List.map_filter (at_limit limit \<circ> volume_row) vs = filter (\<lambda>w. limit \<le> dw_ratio w) (List.map_filter volume_row vs)" for vs
    by (induction vs) (auto simp: at_limit_def split: option.splits)
  then have "summary_over limit s = filter (\<lambda>w. limit \<le> dw_ratio w)
      ((case node_row s of None \<Rightarrow> [] | Some w \<Rightarrow> [w]) @ List.map_filter volume_row (nu_volumes s))" for s
    by (auto simp: summary_over_def at_limit_def split: option.splits)
  then show ?thesis by (induction stats) (simp_all add: disk_rows_def)
qed

lemma disk_rows_ratio: "w \<in> set (disk_rows stats) \<Longrightarrow> 0 < dw_cap w \<and> dw_ratio w = disk_ratio (dw_used w) (dw_cap w)"
  by (auto simp: disk_rows_def in_map_filter node_row_def volume_row_def split: option.splits if_splits)

text \<open>
  The disk report misses no volume that is full. It lists exactly the volumes (node filesystems and
  claims with a capacity) whose ratio reaches the threshold, the fullest first; the ratio is a rounded
  float64, but rounding never hides a full volume: one that uses its capacity or more has a ratio of at
  least one, so that it is listed for every threshold up to 100 percent, and one within its capacity
  has a ratio between zero and one.
\<close>

theorem disk_exact:
  "mset (di_over (assess_disks stats limit)) = mset (filter (\<lambda>w. limit \<le> dw_ratio w) (disk_rows stats)) \<and>
   sorted (map (\<lambda>w. - dw_ratio w) (di_over (assess_disks stats limit))) \<and>
   {w \<in> set (disk_rows stats). dw_cap w \<le> dw_used w \<and> limit \<le> 1} \<subseteq> set (di_over (assess_disks stats limit)) \<and>
   {w \<in> set (disk_rows stats). 0 \<le> dw_used w \<and> dw_used w \<le> dw_cap w} \<subseteq> {w. 0 \<le> dw_ratio w \<and> dw_ratio w \<le> 1}"
proof -
  have m: "di_over (assess_disks stats limit) = sort_slice disk_less (filter (\<lambda>w. limit \<le> dw_ratio w) (disk_rows stats))"
    by (simp add: assess_disks_def over_rows)
  have "sorted (map (\<lambda>w. (- dw_ratio w, dw_name w)) (di_over (assess_disks stats limit)))"
    unfolding m disk_less_key key_sorted_iff [symmetric] by (rule kl.sort_sorted)
  then have s: "sorted (map (\<lambda>w. - dw_ratio w) (di_over (assess_disks stats limit)))" by (rule sorted_first)
  have f: "limit \<le> dw_ratio w" if "w \<in> set (disk_rows stats)" "dw_cap w \<le> dw_used w" "limit \<le> 1" for w
    using disk_ratio_bounds(3) [of "dw_cap w" "dw_used w"] disk_rows_ratio [OF that(1)] that(2,3) by simp
  have "0 \<le> dw_ratio w \<and> dw_ratio w \<le> 1" if "w \<in> set (disk_rows stats)" "0 \<le> dw_used w" "dw_used w \<le> dw_cap w" for w
    using disk_ratio_bounds(1,2) [of "dw_cap w" "dw_used w"] disk_rows_ratio [OF that(1)] that(2,3) by simp
  then show ?thesis using m s f by auto
qed

text \<open>The saturated sum of the counts that are counts.\<close>

definition dns_sum :: "(string, int) gomap \<Rightarrow> int" where
  "dns_sum agg = min max_int64 (sum_list (map (\<lambda>e. max (snd e) 0) agg))"

lemma saturating_min: "a \<le> max_int64 \<Longrightarrow> saturating_add a b = (if b > 0 then min max_int64 (a + b) else a + b)"
  by (auto simp: saturating_add_def)

lemma dns_total_sum: "dns_total agg = dns_sum agg"
proof -
  have nn: "0 \<le> sum_list (map (\<lambda>e. max (snd e) 0) m)" for m :: "(string, int) gomap"
    by (induction m) auto
  have "a \<le> max_int64 \<Longrightarrow> fold (\<lambda>(k, v) t. if v < 0 then t else saturating_add t v) m a =
      min max_int64 (a + sum_list (map (\<lambda>e. max (snd e) 0) m))" for a and m :: "(string, int) gomap"
  proof (induction m arbitrary: a)
    case (Cons e m)
    obtain k v where e: "e = (k, v)" by (cases e)
    show ?case using Cons.prems Cons.IH [of "saturating_add a v"] Cons.IH [of a] nn [of m]
      by (auto simp: e saturating_min)
  qed simp
  from this [of 0 agg] show ?thesis by (simp add: dns_total_def dns_sum_def max_int64_def)
qed

lemma dns_sum_nonneg: "0 \<le> dns_sum agg"
proof -
  have "0 \<le> sum_list (map (\<lambda>e. max (snd e) 0) agg)" by (induction agg) auto
  then show ?thesis by (simp add: dns_sum_def max_int64_def)
qed

text \<open>
  The DNS verdict. It abstains unless at least one CoreDNS pod answered with at least the minimum
  number of responses; then it is degraded exactly if the error ratio reaches the threshold, else ok. The
  total is the saturated sum of the counts, whatever order the map is read in; the numbers shown are
  consistent: errors are never negative nor more than the total, and the ratio, though rounded, is
  between zero and one.
\<close>

theorem dns_judged:
  "(let r = assess_dns agg probed answered forbidden unreached limit least;
        judged = (0 < probed \<and> forbidden \<noteq> probed \<and> unreached \<noteq> probed \<and> 0 < dns_sum agg \<and> least \<le> dns_sum agg)
    in 0 \<le> dz_errors r \<and> dz_errors r \<le> dz_total r \<and> dz_total r \<le> dns_sum agg \<and> dz_total r \<le> max_int64 \<and>
       0 \<le> dz_ratio r \<and> dz_ratio r \<le> 1 \<and>
       (dz_status r = ''degraded'' \<longleftrightarrow> judged \<and> limit \<le> dz_ratio r) \<and> (dz_status r = ''ok'' \<longleftrightarrow> judged \<and> dz_ratio r < limit))"
proof -
  have e: "0 \<le> dns_errors agg \<and> dns_errors agg \<le> dns_sum agg"
    using dns_sum_nonneg [of agg] by (auto simp: dns_errors_def Let_def dns_total_sum saturating_add_def max_int64_def)
  have t: "dns_sum agg \<le> max_int64" by (simp add: dns_sum_def)
  have r: "0 < dns_sum agg \<Longrightarrow> 0 \<le> disk_ratio (dns_errors agg) (dns_sum agg) \<and> disk_ratio (dns_errors agg) (dns_sum agg) \<le> 1"
    using e by (simp add: disk_ratio_bounds)
  show ?thesis
    using e t r dns_sum_nonneg [of agg]
    by (cases "dns_sum agg = 0") (auto simp: assess_dns_def Let_def dns_total_sum blank_dns_def not_le)
qed

section \<open>What the certificates report\<close>

text \<open>The certificates of the first blocks.\<close>

fun parsed_blocks :: "(string \<Rightarrow> (string \<times> string \<times> string) option) \<Rightarrow> (string \<Rightarrow> certificate option) \<Rightarrow> nat \<Rightarrow> string \<Rightarrow> certificate list" where
  "parsed_blocks decode parse 0 rest = []"
| "parsed_blocks decode parse (Suc n) rest =
    (case decode rest of
       None \<Rightarrow> []
     | Some (kind, block, rest') \<Rightarrow>
         (if kind = ''CERTIFICATE'' then (case parse block of None \<Rightarrow> [] | Some c \<Rightarrow> [c]) else []) @ parsed_blocks decode parse n rest')"

lemma earliest_from_fold:
  "earliest_from decode parse n rest best = fold (\<lambda>c best. case best of None \<Rightarrow> Some c
     | Some b \<Rightarrow> if ct_not_after c < ct_not_after b then Some c else Some b) (parsed_blocks decode parse n rest) best"
proof (induction n arbitrary: rest best)
  case (Suc n)
  show ?case by (cases "decode rest") (auto simp: Suc.IH split: option.splits)
qed simp

lemma earliest_fold_min:
  "fold (\<lambda>c best. case best of None \<Rightarrow> Some c | Some b \<Rightarrow> if ct_not_after c < ct_not_after b then Some c else Some b) cs (Some b) =
     Some x \<Longrightarrow> x \<in> insert b (set cs) \<and> (\<forall>y\<in>insert b (set cs). ct_not_after x \<le> ct_not_after y)"
proof (induction cs arbitrary: b)
  case (Cons c cs)
  define b' where "b' = (if ct_not_after c < ct_not_after b then c else b)"
  have "x \<in> insert b' (set cs) \<and> (\<forall>y\<in>insert b' (set cs). ct_not_after x \<le> ct_not_after y)"
    using Cons by (auto simp: b'_def split: if_splits)
  then show ?case by (auto simp: b'_def split: if_splits)
qed simp

lemma earliest_fold_Some: "\<exists>x. fold (\<lambda>c best. case best of None \<Rightarrow> Some c
     | Some b \<Rightarrow> if ct_not_after c < ct_not_after b then Some c else Some b) cs (Some b) = Some x"
  by (induction cs arbitrary: b) auto

lemma earliest_None: "earliest_certificate decode parse crt = None \<longleftrightarrow> parsed_blocks decode parse 32 crt = []"
proof (cases "parsed_blocks decode parse 32 crt")
  case (Cons c cs)
  then show ?thesis using earliest_fold_Some [of cs c]
    by (auto simp: earliest_certificate_def max_cert_blocks_def earliest_from_fold)
qed (simp add: earliest_certificate_def max_cert_blocks_def earliest_from_fold)

lemma earliest_Some:
  "earliest_certificate decode parse crt = Some x \<Longrightarrow>
    x \<in> set (parsed_blocks decode parse 32 crt) \<and> (\<forall>y\<in>set (parsed_blocks decode parse 32 crt). ct_not_after x \<le> ct_not_after y)"
proof (cases "parsed_blocks decode parse 32 crt")
  case (Cons c cs)
  assume "earliest_certificate decode parse crt = Some x"
  with Cons earliest_fold_min [of cs c x] show ?thesis
    by (simp add: earliest_certificate_def max_cert_blocks_def earliest_from_fold)
qed (simp add: earliest_certificate_def max_cert_blocks_def earliest_from_fold)

text \<open>When the certificates of a Secret first expire, if it has any among the first 32 blocks.\<close>

definition first_expiry :: "(string \<Rightarrow> (string \<times> string \<times> string) option) \<Rightarrow> (string \<Rightarrow> certificate option) \<Rightarrow> tls_secret \<Rightarrow> time option" where
  "first_expiry decode parse s =
    (let cs = parsed_blocks decode parse 32 (ts_crt s) in
     if ts_crt s = [] \<or> cs = [] then None else Some (Min (ct_not_after ` set cs)))"

lemma first_expiry_earliest:
  "ts_crt s \<noteq> [] \<Longrightarrow> first_expiry decode parse s = map_option ct_not_after (earliest_certificate decode parse (ts_crt s))"
proof (cases "earliest_certificate decode parse (ts_crt s)")
  case None
  then show ?thesis by (simp add: first_expiry_def earliest_None)
next
  case (Some x)
  assume "ts_crt s \<noteq> []"
  note e = earliest_Some [OF Some]
  then have "Min (ct_not_after ` set (parsed_blocks decode parse 32 (ts_crt s))) = ct_not_after x"
    by (intro Min_eqI) auto
  with \<open>ts_crt s \<noteq> []\<close> e Some show ?thesis by (auto simp: first_expiry_def Let_def)
qed

definition secret_id :: "tls_secret \<Rightarrow> string \<times> string" where
  "secret_id s = (ts_namespace s, ts_name s)"

lemma judged_secret:
  "map_option (\<lambda>r. (cw_namespace r, cw_name r)) (expired_of (judge_secret u decode parse fronts warn now s)) =
     (case first_expiry decode parse s of None \<Rightarrow> None | Some t \<Rightarrow> if t \<le> now then Some (secret_id s) else None)"
  "map_option (\<lambda>r. (cw_namespace r, cw_name r)) (expiring_of (judge_secret u decode parse fronts warn now s)) =
     (case first_expiry decode parse s of None \<Rightarrow> None
      | Some t \<Rightarrow> if now < t \<and> 0 < warn \<and> cert_days t now \<le> warn then Some (secret_id s) else None)"
  "map_option (\<lambda>r. (ic_namespace r, ic_name r)) (invalid_of (judge_secret u decode parse fronts warn now s)) =
     (case first_expiry decode parse s of None \<Rightarrow> Some (secret_id s) | Some t \<Rightarrow> None)"
proof -
  have z: "first_expiry decode parse s = (if ts_crt s = [] then None else map_option ct_not_after (earliest_certificate decode parse (ts_crt s)))"
    using first_expiry_earliest by (auto simp: first_expiry_def)
  show "map_option (\<lambda>r. (cw_namespace r, cw_name r)) (expired_of (judge_secret u decode parse fronts warn now s)) =
     (case first_expiry decode parse s of None \<Rightarrow> None | Some t \<Rightarrow> if t \<le> now then Some (secret_id s) else None)"
    "map_option (\<lambda>r. (cw_namespace r, cw_name r)) (expiring_of (judge_secret u decode parse fronts warn now s)) =
     (case first_expiry decode parse s of None \<Rightarrow> None
      | Some t \<Rightarrow> if now < t \<and> 0 < warn \<and> cert_days t now \<le> warn then Some (secret_id s) else None)"
    "map_option (\<lambda>r. (ic_namespace r, ic_name r)) (invalid_of (judge_secret u decode parse fronts warn now s)) =
     (case first_expiry decode parse s of None \<Rightarrow> Some (secret_id s) | Some t \<Rightarrow> None)"
    unfolding z by (auto simp: judge_secret_def Let_def secret_id_def split: option.splits)
qed

lemma map_map_filter: "map h (List.map_filter g xs) = List.map_filter (\<lambda>x. map_option h (g x)) xs"
  by (induction xs) (auto split: option.splits)

lemma filter_over_map: "List.map_filter g (map h xs) = List.map_filter (\<lambda>x. g (h x)) xs"
  by (induction xs) (auto split: option.splits)

lemma map_filter_if:
  "List.map_filter (\<lambda>x. case e x of None \<Rightarrow> None | Some t \<Rightarrow> if P t then Some (h x) else None) xs =
     map h (filter (\<lambda>x. \<exists>t. e x = Some t \<and> P t) xs)"
  "List.map_filter (\<lambda>x. case e x of None \<Rightarrow> Some (h x) | Some t \<Rightarrow> None) xs = map h (filter (\<lambda>x. e x = None) xs)"
  by (induction xs) (auto split: option.splits)

lemma mset_map_sorted: "mset (map f (sort_slice lt xs)) = mset (map f xs)"
  by simp

text \<open>
  C31. Every TLS Secret is judged by the certificate in it that expires first, among the first 32 blocks of
  its chain and not only by the leaf. It is listed as expired iff that expiry is not after now, as expiring
  iff it lies ahead within the window (a window of zero days lists nothing), as invalid iff no
  certificate could be read, and otherwise nowhere; no Secret is counted twice, and each is counted as
  checked.
\<close>

theorem certs_partition:
  "(let r = assess_certs u decode parse secrets ings warn now; tls = filter is_tls secrets;
        listed = (\<lambda>P. mset (map secret_id (filter P tls)))
    in ca_checked r = length tls \<and>
       mset (map (\<lambda>c. (cw_namespace c, cw_name c)) (ca_expired r)) =
         listed (\<lambda>s. \<exists>t. first_expiry decode parse s = Some t \<and> t \<le> now) \<and>
       mset (map (\<lambda>c. (cw_namespace c, cw_name c)) (ca_expiring r)) =
         listed (\<lambda>s. \<exists>t. first_expiry decode parse s = Some t \<and> now < t \<and> 0 < warn \<and> cert_days t now \<le> warn) \<and>
       mset (map (\<lambda>c. (ic_namespace c, ic_name c)) (ca_invalid r)) = listed (\<lambda>s. first_expiry decode parse s = None))"
proof -
  note j = judged_secret [of u decode parse "ingress_fronts u ings" warn now]
  let ?st = "map (judge_secret u decode parse (ingress_fronts u ings) warn now) (filter is_tls secrets)"
  have "map (\<lambda>c. (cw_namespace c, cw_name c)) (List.map_filter expired_of ?st) =
      map secret_id (filter (\<lambda>s. \<exists>t. first_expiry decode parse s = Some t \<and> t \<le> now) (filter is_tls secrets))"
    unfolding map_map_filter filter_over_map j by (rule map_filter_if)
  moreover have "map (\<lambda>c. (cw_namespace c, cw_name c)) (List.map_filter expiring_of ?st) =
      map secret_id (filter (\<lambda>s. \<exists>t. first_expiry decode parse s = Some t \<and> now < t \<and> 0 < warn \<and> cert_days t now \<le> warn)
        (filter is_tls secrets))"
    unfolding map_map_filter filter_over_map j by (rule map_filter_if)
  moreover have "map (\<lambda>c. (ic_namespace c, ic_name c)) (List.map_filter invalid_of ?st) =
      map secret_id (filter (\<lambda>s. first_expiry decode parse s = None) (filter is_tls secrets))"
    unfolding map_map_filter filter_over_map j by (rule map_filter_if)
  ultimately show ?thesis
    unfolding assess_certs_def Let_def certs_report.select_convs mset_map_sorted by simp
qed

end
