(* ===== verification/Security_Posture.thy ===== *)
theory Security_Posture
  imports Kube_Api
begin

text \<open>
  \<open>internal/secscan\<close>: the security posture of workloads and Services. Pods, their containers and Services
  are records with the fields the checks read; a missing security context and a missing field of it are
  both \<open>None\<close>.
\<close>

section \<open>Objects\<close>

record sec_context =
  sx_privileged :: "bool option"
  sx_non_root :: "bool option"
  sx_user :: "int option"
  sx_escalation :: "bool option"
  sx_capabilities :: "(string list \<times> string list) option"

record sec_container =
  sc_name :: string
  sc_mounts :: "(string \<times> bool) list"
  sc_host_ports :: "int list"
  sc_context :: "sec_context option"

record sec_pod =
  sp_namespace :: string
  sp_name :: string
  sp_owners :: "owner_reference list"
  sp_host_network :: bool
  sp_host_pid :: bool
  sp_host_ipc :: bool
  sp_volumes :: "(string \<times> string option) list"
  sp_init_containers :: "sec_container list"
  sp_containers :: "sec_container list"
  sp_non_root :: "bool option"
  sp_user :: "int option"

record sec_service =
  se_namespace :: string
  se_name :: string
  se_type :: string
  se_external_ips :: "string list"
  se_ports :: "int list"

text \<open>A ReplicaSet or a Job: its namespace, its name and its owners.\<close>

type_synonym owned_object = "string \<times> string \<times> owner_reference list"

record sec_finding =
  sf_namespace :: string
  sf_workload :: string
  sf_kind :: string
  sf_container :: string
  sf_profile :: string
  sf_check :: string
  sf_detail :: string

definition profile_baseline :: string where "profile_baseline = ''baseline''"

definition profile_restricted :: string where "profile_restricted = ''restricted''"

definition profile_kubeagent :: string where "profile_kubeagent = ''kubeagent''"

section \<open>The workload of a pod\<close>

definition controller_of :: "owner_reference list \<Rightarrow> owner_reference option" where
  "controller_of refs = find (\<lambda>r. or_controller r = Some True) refs"

definition owned_key :: "string \<Rightarrow> string \<Rightarrow> string" where
  "owned_key ns n = ns @ ''/'' @ n"

definition owned_map :: "owned_object list \<Rightarrow> (string, owned_object) gomap" where
  "owned_map os = fold (\<lambda>ob. mput (owned_key (fst ob) (fst (snd ob))) ob) os []"

text \<open>The controller of that kind which owns the named object, if the object is known.\<close>

definition folded_up :: "(string, owned_object) gomap \<Rightarrow> string \<Rightarrow> string \<Rightarrow> string \<Rightarrow> string option" where
  "folded_up m ns n kind =
    (case mget m (owned_key ns n) of
       None \<Rightarrow> None
     | Some ob \<Rightarrow> (case controller_of (snd (snd ob)) of
         None \<Rightarrow> None
       | Some d \<Rightarrow> if or_kind d = kind then Some (or_name d) else None))"

definition resolve_workload ::
    "sec_pod \<Rightarrow> (string, owned_object) gomap \<Rightarrow> (string, owned_object) gomap \<Rightarrow> string \<times> string" where
  "resolve_workload p rss jobs =
    (case controller_of (sp_owners p) of
       None \<Rightarrow> (''Pod'', sp_name p)
     | Some ow \<Rightarrow>
         if or_kind ow = ''Node'' then (''Pod'', sp_name p)
         else if or_kind ow = ''ReplicaSet''
         then (case folded_up rss (sp_namespace p) (or_name ow) ''Deployment'' of
                 Some d \<Rightarrow> (''Deployment'', d) | None \<Rightarrow> (''ReplicaSet'', or_name ow))
         else if or_kind ow = ''Job''
         then (case folded_up jobs (sp_namespace p) (or_name ow) ''CronJob'' of
                 Some c \<Rightarrow> (''CronJob'', c) | None \<Rightarrow> (''Job'', or_name ow))
         else (or_kind ow, or_name ow))"

section \<open>The checks\<close>

definition new_finding :: "sec_pod \<Rightarrow> string \<times> string \<Rightarrow> string \<Rightarrow> string \<Rightarrow> string \<Rightarrow> string \<Rightarrow> sec_finding" where
  "new_finding p wl profile chk ctr detail =
    \<lparr>sf_namespace = sp_namespace p, sf_workload = snd wl, sf_kind = fst wl, sf_container = ctr, sf_profile = profile,
     sf_check = chk, sf_detail = detail\<rparr>"

definition all_containers :: "sec_pod \<Rightarrow> sec_container list" where
  "all_containers p = sp_init_containers p @ sp_containers p"

definition host_namespaces :: "sec_pod \<Rightarrow> string" where
  "host_namespaces p =
    (let s = (if sp_host_network p then [''network''] else []) @ (if sp_host_pid p then [''PID''] else []) @
             (if sp_host_ipc p then [''IPC''] else [])
     in if length s = 0 then [] else if length s = 1 then hd s @ '' namespace'' else join s ''/'' @ '' namespaces'')"

text \<open>The loop over all mounts: it returns at the first writable one.\<close>

fun mounts_read_only :: "string \<Rightarrow> bool \<Rightarrow> (string \<times> bool) list \<Rightarrow> bool" where
  "mounts_read_only v mounted [] = mounted"
| "mounts_read_only v mounted ((n, ro) # ms) =
    (if n \<noteq> v then mounts_read_only v mounted ms else if \<not> ro then False else mounts_read_only v True ms)"

definition host_path_read_only :: "sec_pod \<Rightarrow> string \<Rightarrow> bool" where
  "host_path_read_only p v = mounts_read_only v False (concat (map sc_mounts (all_containers p)))"

definition host_path_finding :: "sec_pod \<Rightarrow> string \<times> string \<Rightarrow> string \<times> string option \<Rightarrow> sec_finding option" where
  "host_path_finding p wl v =
    (case snd v of None \<Rightarrow> None
     | Some path \<Rightarrow> Some (new_finding p wl profile_baseline ''HostPath'' [] (''mounts hostPath '' @ path @ '' ('' @
         (if host_path_read_only p (fst v) then ''read-only host filesystem'' else ''writable host filesystem'') @ '')'')))"

definition baseline_pod_checks :: "sec_pod \<Rightarrow> string \<times> string \<Rightarrow> sec_finding list" where
  "baseline_pod_checks p wl =
    (if host_namespaces p \<noteq> [] then [new_finding p wl profile_baseline ''HostNamespaces'' [] (''pod shares the host '' @ host_namespaces p)]
     else []) @ List.map_filter (host_path_finding p wl) (sp_volumes p)"

definition is_privileged :: "sec_container \<Rightarrow> bool" where
  "is_privileged c \<longleftrightarrow> (case sc_context c of None \<Rightarrow> False | Some x \<Rightarrow> sx_privileged x = Some True)"

definition capabilities :: "sec_container \<Rightarrow> (string list \<times> string list) option" where
  "capabilities c = (case sc_context c of None \<Rightarrow> None | Some x \<Rightarrow> sx_capabilities x)"

definition dangerous_caps :: "sec_container \<Rightarrow> string list" where
  "dangerous_caps c = (case capabilities c of None \<Rightarrow> [] | Some (adds, drops) \<Rightarrow> filter (\<lambda>k. k \<noteq> ''NET_BIND_SERVICE'') adds)"

definition ctr_text :: "sec_container \<Rightarrow> string" where
  "ctr_text c = ''container '' @ go_quote (sc_name c)"

definition baseline_container_checks :: "sec_pod \<Rightarrow> string \<times> string \<Rightarrow> sec_container \<Rightarrow> sec_finding list" where
  "baseline_container_checks p wl c =
    (if is_privileged c
     then [new_finding p wl profile_baseline ''Privileged'' (sc_name c) (ctr_text c @ '' runs privileged (full host access)'')] else []) @
    (case find (\<lambda>q. q \<noteq> 0) (sc_host_ports c) of
       Some q \<Rightarrow> [new_finding p wl profile_baseline ''HostPort'' (sc_name c) (ctr_text c @ '' binds host port '' @ itoa q)]
     | None \<Rightarrow> []) @
    (if length (dangerous_caps c) > 0
     then [new_finding p wl profile_baseline ''AddedCapability'' (sc_name c)
       (ctr_text c @ '' adds capability '' @ join (dangerous_caps c) '', '')] else [])"

definition effective :: "(sec_context \<Rightarrow> 'v option) \<Rightarrow> 'v option \<Rightarrow> sec_container \<Rightarrow> 'v option" where
  "effective field pod_value c =
    (case sc_context c of
       None \<Rightarrow> pod_value
     | Some x \<Rightarrow> (case field x of None \<Rightarrow> pod_value | Some v \<Rightarrow> Some v))"

definition guaranteed_non_root :: "sec_pod \<Rightarrow> sec_container \<Rightarrow> bool" where
  "guaranteed_non_root p c \<longleftrightarrow> effective sx_non_root (sp_non_root p) c = Some True \<or>
     (case effective sx_user (sp_user p) c of None \<Rightarrow> False | Some uid \<Rightarrow> uid > 0)"

definition escalation_disabled :: "sec_container \<Rightarrow> bool" where
  "escalation_disabled c \<longleftrightarrow> (case sc_context c of None \<Rightarrow> False | Some x \<Rightarrow> sx_escalation x = Some False)"

definition drops_all :: "sec_container \<Rightarrow> bool" where
  "drops_all c \<longleftrightarrow> (case capabilities c of None \<Rightarrow> False | Some (adds, drops) \<Rightarrow> ''ALL'' \<in> set drops)"

definition restricted_checks :: "sec_pod \<Rightarrow> string \<times> string \<Rightarrow> sec_container \<Rightarrow> sec_finding list" where
  "restricted_checks p wl c =
    (if \<not> guaranteed_non_root p c
     then [new_finding p wl profile_restricted ''RunAsRoot'' (sc_name c) (ctr_text c @ '' is not guaranteed to run as non-root'')] else []) @
    (if \<not> escalation_disabled c
     then [new_finding p wl profile_restricted ''AllowPrivilegeEscalation'' (sc_name c)
       (ctr_text c @ '' allows privilege escalation (allowPrivilegeEscalation not false)'')] else []) @
    (if \<not> drops_all c
     then [new_finding p wl profile_restricted ''CapabilitiesNotDropped'' (sc_name c) (ctr_text c @ '' does not drop all capabilities'')] else [])"

definition sec_pod_findings :: "sec_pod \<Rightarrow> string \<times> string \<Rightarrow> sec_finding list" where
  "sec_pod_findings p wl = baseline_pod_checks p wl @ concat (map (baseline_container_checks p wl) (all_containers p)) @
     concat (map (restricted_checks p wl) (all_containers p))"

definition service_ports :: "sec_service \<Rightarrow> string" where
  "service_ports s = (if se_ports s = [] then ''no ports'' else ''port(s) '' @ join (map itoa (se_ports s)) '','')"

definition exposure :: "sec_service \<Rightarrow> string option" where
  "exposure s =
    (if se_type s = ''ExternalName'' then None
     else if se_type s = ''LoadBalancer'' then Some ''type LoadBalancer''
     else if se_type s = ''NodePort'' then Some ''type NodePort''
     else if length (se_external_ips s) > 0 then Some ''externalIPs set''
     else None)"

definition exposed_service :: "sec_service \<Rightarrow> sec_finding option" where
  "exposed_service s = map_option (\<lambda>rsn. \<lparr>sf_namespace = se_namespace s, sf_workload = se_name s, sf_kind = ''Service'',
     sf_container = [], sf_profile = profile_kubeagent, sf_check = ''ExposedService'',
     sf_detail = rsn @ '' exposes '' @ service_ports s @ '' externally''\<rparr>) (exposure s)"

section \<open>The assessment\<close>

definition sec_key :: "sec_finding \<Rightarrow> string" where
  "sec_key f = join [sf_namespace f, sf_kind f, sf_workload f, sf_container f, sf_check f, sf_detail f] [CHR 0x00]"

definition add_sec :: "sec_finding \<Rightarrow> string set \<times> sec_finding list \<Rightarrow> string set \<times> sec_finding list" where
  "add_sec f st = (if sec_key f \<in> fst st then st else (insert (sec_key f) (fst st), snd st @ [f]))"

definition profile_rank :: "string \<Rightarrow> nat" where
  "profile_rank p = (if p = profile_restricted then 1 else if p = profile_kubeagent then 2 else 0)"

definition sec_less :: "sec_finding \<Rightarrow> sec_finding \<Rightarrow> bool" where
  "sec_less a b =
    (if profile_rank (sf_profile a) \<noteq> profile_rank (sf_profile b) then profile_rank (sf_profile a) < profile_rank (sf_profile b)
     else if sf_namespace a \<noteq> sf_namespace b then sf_namespace a < sf_namespace b
     else if sf_workload a \<noteq> sf_workload b then sf_workload a < sf_workload b
     else if sf_container a \<noteq> sf_container b then sf_container a < sf_container b
     else sf_check a < sf_check b)"

definition assess_security ::
    "sec_pod list \<Rightarrow> sec_service list \<Rightarrow> owned_object list \<Rightarrow> owned_object list \<Rightarrow> sec_finding list" where
  "assess_security pods svcs rss jobs =
    (let r = owned_map rss; j = owned_map jobs;
         found = concat (map (\<lambda>p. sec_pod_findings p (resolve_workload p r j)) pods) @ List.map_filter exposed_service svcs
     in sort_slice sec_less (snd (fold add_sec found ({}, []))))"

section \<open>What deduplication keeps\<close>

lemma add_sec_fold:
  "fst (fold add_sec fs (sec_key ` set acc, acc)) = sec_key ` set (snd (fold add_sec fs (sec_key ` set acc, acc))) \<and>
   set (snd (fold add_sec fs (sec_key ` set acc, acc))) \<subseteq> set acc \<union> set fs \<and>
   sec_key ` set (snd (fold add_sec fs (sec_key ` set acc, acc))) = sec_key ` (set acc \<union> set fs) \<and>
   (distinct (map sec_key acc) \<longrightarrow> distinct (map sec_key (snd (fold add_sec fs (sec_key ` set acc, acc)))))"
proof (induction fs arbitrary: acc)
  case (Cons f fs)
  show ?case
  proof (cases "sec_key f \<in> sec_key ` set acc")
    case True
    then have "sec_key ` (set acc \<union> set (f # fs)) = sec_key ` (set acc \<union> set fs)" by auto
    with True Cons.IH [of acc] show ?thesis by (auto simp: add_sec_def)
  next
    case False
    have "add_sec f (sec_key ` set acc, acc) = (sec_key ` set (acc @ [f]), acc @ [f])" using False by (simp add: add_sec_def)
    with False Cons.IH [of "acc @ [f]"] show ?thesis by auto
  qed
qed simp

text \<open>The names are names: they hold no NUL, which separates the parts of a key. The detail is the last part.\<close>

definition named_cleanly :: "sec_finding \<Rightarrow> bool" where
  "named_cleanly f \<longleftrightarrow> CHR 0x00 \<notin> set (sf_namespace f) \<union> set (sf_kind f) \<union> set (sf_workload f) \<union> set (sf_container f) \<union> set (sf_check f)"

definition profile_of_check :: "string \<Rightarrow> string" where
  "profile_of_check c = (if c = ''ExposedService'' then profile_kubeagent
     else if c \<in> {''RunAsRoot'', ''AllowPrivilegeEscalation'', ''CapabilitiesNotDropped''} then profile_restricted else profile_baseline)"

definition sec_found :: "sec_pod list \<Rightarrow> sec_service list \<Rightarrow> owned_object list \<Rightarrow> owned_object list \<Rightarrow> sec_finding list" where
  "sec_found pods svcs rss jobs =
    concat (map (\<lambda>p. sec_pod_findings p (resolve_workload p (owned_map rss) (owned_map jobs))) pods) @ List.map_filter exposed_service svcs"

lemma pod_profiles: "f \<in> set (sec_pod_findings p wl) \<Longrightarrow> sf_profile f = profile_of_check (sf_check f)"
  by (auto simp: sec_pod_findings_def baseline_pod_checks_def baseline_container_checks_def restricted_checks_def in_map_filter
      host_path_finding_def new_finding_def profile_of_check_def split: if_splits option.splits)

lemma found_profiles: "f \<in> set (sec_found pods svcs rss jobs) \<Longrightarrow> sf_profile f = profile_of_check (sf_check f)"
  by (auto simp: sec_found_def in_map_filter exposed_service_def profile_of_check_def dest: pod_profiles)

lemma sec_key_inj:
  assumes "named_cleanly f" and "named_cleanly g" and "sec_key f = sec_key g"
    and "sf_profile f = profile_of_check (sf_check f)" and "sf_profile g = profile_of_check (sf_check g)"
  shows "f = g"
proof -
  let ?n = "CHR 0x00"
  have e: "sf_namespace f @ ?n # sf_kind f @ ?n # sf_workload f @ ?n # sf_container f @ ?n # sf_check f @ ?n # sf_detail f =
      sf_namespace g @ ?n # sf_kind g @ ?n # sf_workload g @ ?n # sf_container g @ ?n # sf_check g @ ?n # sf_detail g"
    using assms(3) by (simp add: sec_key_def)
  have nf: "?n \<notin> set (sf_namespace f)" "?n \<notin> set (sf_kind f)" "?n \<notin> set (sf_workload f)" "?n \<notin> set (sf_container f)" "?n \<notin> set (sf_check f)"
    using assms(1) by (simp_all add: named_cleanly_def)
  have ng: "?n \<notin> set (sf_namespace g)" "?n \<notin> set (sf_kind g)" "?n \<notin> set (sf_workload g)" "?n \<notin> set (sf_container g)" "?n \<notin> set (sf_check g)"
    using assms(2) by (simp_all add: named_cleanly_def)
  from e have "sf_namespace f = sf_namespace g \<and> sf_kind f = sf_kind g \<and> sf_workload f = sf_workload g \<and> sf_container f = sf_container g \<and>
      sf_check f = sf_check g \<and> sf_detail f = sf_detail g"
    by (simp only: append_sep_eq [OF nf(1) ng(1)] append_sep_eq [OF nf(2) ng(2)] append_sep_eq [OF nf(3) ng(3)]
        append_sep_eq [OF nf(4) ng(4)] append_sep_eq [OF nf(5) ng(5)])
  with assms(4,5) show ?thesis by (intro sec_finding.equality) simp_all
qed

lemma sec_less_key:
  "sec_less = key_less (\<lambda>f. (profile_rank (sf_profile f), sf_namespace f, sf_workload f, sf_container f, sf_check f))"
  by (auto simp: fun_eq_iff sec_less_def key_less_def lex_less)

text \<open>
  Folding the replicas of a workload into one line loses nothing. Where no name holds a NUL, the report
  lists exactly the findings of the checks on every pod and Service, each once although every replica
  of a workload yields it again, the more dangerous profile first.
\<close>

theorem posture_exact:
  assumes "list_all named_cleanly (sec_found pods svcs rss jobs)"
  shows "set (assess_security pods svcs rss jobs) = set (sec_found pods svcs rss jobs) \<and>
    distinct (assess_security pods svcs rss jobs) \<and>
    sorted (map (profile_rank \<circ> sf_profile) (assess_security pods svcs rss jobs))"
proof -
  let ?found = "sec_found pods svcs rss jobs"
  define kept where "kept = snd (fold add_sec ?found ({}, []))"
  have a: "assess_security pods svcs rss jobs = sort_slice sec_less kept"
    by (simp add: assess_security_def kept_def sec_found_def)
  have k: "set kept \<subseteq> set ?found" "sec_key ` set kept = sec_key ` set ?found" "distinct (map sec_key kept)"
    using add_sec_fold [of ?found "[]"] by (simp_all add: kept_def)
  have "set ?found \<subseteq> set kept"
  proof
    fix f assume f: "f \<in> set ?found"
    then have "sec_key f \<in> sec_key ` set kept" using k(2) by blast
    then obtain g where g: "g \<in> set kept" "sec_key f = sec_key g" by blast
    with k(1) have "g \<in> set ?found" by blast
    with f g(2) assms have "f = g" by (intro sec_key_inj) (auto simp: list_all_iff found_profiles)
    with g(1) show "f \<in> set kept" by simp
  qed
  with k have s: "set kept = set ?found" "distinct kept" by (auto simp: distinct_map)
  have "sorted (map (\<lambda>f. (profile_rank (sf_profile f), sf_namespace f, sf_workload f, sf_container f, sf_check f)) (sort_slice sec_less kept))"
    unfolding sec_less_key key_sorted_iff [symmetric] by (rule kl.sort_sorted)
  then have "sorted (map (profile_rank \<circ> sf_profile) (sort_slice sec_less kept))"
    unfolding comp_def by (rule sorted_first)
  with s show ?thesis unfolding a by simp
qed

definition bare_pod :: "string \<Rightarrow> sec_pod" where
  "bare_pod n = \<lparr>sp_namespace = ''shop'', sp_name = n, sp_owners = [\<lparr>or_kind = ''StatefulSet'', or_name = ''db'', or_controller = Some True\<rparr>],
     sp_host_network = True, sp_host_pid = False, sp_host_ipc = False, sp_volumes = [], sp_init_containers = [], sp_containers = [],
     sp_non_root = None, sp_user = None\<rparr>"

theorem posture_exact_witness:
  "set (assess_security [bare_pod ''db-0'', bare_pod ''db-1''] [] [] []) = set (sec_found [bare_pod ''db-0'', bare_pod ''db-1''] [] [] []) \<and>
   distinct (assess_security [bare_pod ''db-0'', bare_pod ''db-1''] [] [] []) \<and> sec_found [bare_pod ''db-0'', bare_pod ''db-1''] [] [] [] \<noteq> []"
proof -
  have "list_all named_cleanly (sec_found [bare_pod ''db-0'', bare_pod ''db-1''] [] [] [])" by code_simp
  from posture_exact [OF this] show ?thesis
    by (simp add: sec_found_def sec_pod_findings_def baseline_pod_checks_def host_namespaces_def bare_pod_def)
qed

section \<open>When the report is silent\<close>

definition hardened_container :: "sec_pod \<Rightarrow> sec_container \<Rightarrow> bool" where
  "hardened_container p c \<longleftrightarrow> sx_privileged (the (sc_context c)) \<noteq> Some True \<and> set (sc_host_ports c) \<subseteq> {0} \<and>
     sx_escalation (the (sc_context c)) = Some False \<and>
     (\<exists>adds drops. sc_context c \<noteq> None \<and> sx_capabilities (the (sc_context c)) = Some (adds, drops) \<and> set adds \<subseteq> {''NET_BIND_SERVICE''} \<and> ''ALL'' \<in> set drops) \<and>
     (effective sx_non_root (sp_non_root p) c = Some True \<or> (\<exists>uid > 0. effective sx_user (sp_user p) c = Some uid))"

definition hardened_pod :: "sec_pod \<Rightarrow> bool" where
  "hardened_pod p \<longleftrightarrow> \<not> sp_host_network p \<and> \<not> sp_host_pid p \<and> \<not> sp_host_ipc p \<and> snd ` set (sp_volumes p) \<subseteq> {None} \<and>
     list_all (hardened_container p) (all_containers p)"

definition internal_service :: "sec_service \<Rightarrow> bool" where
  "internal_service s \<longleftrightarrow> se_type s = ''ExternalName'' \<or>
     se_type s \<notin> {''LoadBalancer'', ''NodePort''} \<and> se_external_ips s = []"

lemma container_silent:
  "baseline_container_checks p wl c = [] \<and> restricted_checks p wl c = [] \<longleftrightarrow> hardened_container p c"
proof (cases "sc_context c")
  case None
  then show ?thesis by (simp add: restricted_checks_def escalation_disabled_def hardened_container_def)
next
  case (Some x)
  have ports: "find (\<lambda>q. q \<noteq> 0) (sc_host_ports c) = None \<longleftrightarrow> set (sc_host_ports c) \<subseteq> {0}" by (auto simp: find_None_iff)
  have priv: "is_privileged c \<longleftrightarrow> sx_privileged x = Some True" by (simp add: is_privileged_def Some)
  have esc: "escalation_disabled c \<longleftrightarrow> sx_escalation x = Some False" by (simp add: escalation_disabled_def Some)
  have caps: "dangerous_caps c = [] \<and> drops_all c \<longleftrightarrow> (\<exists>adds drops. sx_capabilities x = Some (adds, drops) \<and> set adds \<subseteq> {''NET_BIND_SERVICE''} \<and> ''ALL'' \<in> set drops)"
    by (cases "sx_capabilities x") (auto simp: dangerous_caps_def drops_all_def capabilities_def Some filter_empty_conv)
  have root: "guaranteed_non_root p c \<longleftrightarrow> effective sx_non_root (sp_non_root p) c = Some True \<or> (\<exists>uid > 0. effective sx_user (sp_user p) c = Some uid)"
    by (auto simp: guaranteed_non_root_def split: option.splits)
  have "baseline_container_checks p wl c = [] \<longleftrightarrow> \<not> is_privileged c \<and> find (\<lambda>q. q \<noteq> 0) (sc_host_ports c) = None \<and> dangerous_caps c = []"
    by (simp add: baseline_container_checks_def split: option.splits)
  moreover have "restricted_checks p wl c = [] \<longleftrightarrow> guaranteed_non_root p c \<and> escalation_disabled c \<and> drops_all c"
    by (simp add: restricted_checks_def)
  ultimately have "baseline_container_checks p wl c = [] \<and> restricted_checks p wl c = [] \<longleftrightarrow>
      \<not> is_privileged c \<and> find (\<lambda>q. q \<noteq> 0) (sc_host_ports c) = None \<and> (dangerous_caps c = [] \<and> drops_all c) \<and> guaranteed_non_root p c \<and> escalation_disabled c"
    by blast
  then show ?thesis unfolding ports priv esc caps root hardened_container_def Some option.sel by blast
qed

lemma host_namespaces_Nil: "host_namespaces p = [] \<longleftrightarrow> \<not> sp_host_network p \<and> \<not> sp_host_pid p \<and> \<not> sp_host_ipc p"
  by (simp add: host_namespaces_def)

lemma pod_silent: "sec_pod_findings p wl = [] \<longleftrightarrow> hardened_pod p"
proof -
  have v: "List.map_filter (host_path_finding p wl) vs = [] \<longleftrightarrow> snd ` set vs \<subseteq> {None}" for vs
    by (induction vs) (auto simp: host_path_finding_def split: option.splits)
  have "concat (map (baseline_container_checks p wl) cs) = [] \<and> concat (map (restricted_checks p wl) cs) = [] \<longleftrightarrow>
      list_all (hardened_container p) cs" for cs
    by (induction cs) (auto simp: container_silent [of p wl, symmetric])
  then show ?thesis
    by (auto simp: sec_pod_findings_def baseline_pod_checks_def host_namespaces_Nil v hardened_pod_def)
qed

text \<open>
  C29. The report is silent exactly when there is nothing to say: it lists no finding iff every pod is
  hardened (no shared host namespace, no hostPath, every container unprivileged, without host
  ports and added capabilities but NET_BIND_SERVICE, guaranteed not to run as root under the effective
  settings, with privilege escalation off and all capabilities dropped) and no Service is reachable
  from outside.
\<close>

theorem posture_silent:
  "assess_security pods svcs rss jobs = [] \<longleftrightarrow> list_all hardened_pod pods \<and> list_all internal_service svcs"
proof -
  let ?found = "sec_found pods svcs rss jobs"
  have "sec_key ` set (snd (fold add_sec ?found ({}, []))) = sec_key ` set ?found"
    using add_sec_fold [of ?found "[]"] by simp
  then have "snd (fold add_sec ?found ({}, [])) = [] \<longleftrightarrow> ?found = []" by (metis image_is_empty set_empty)
  then have a: "assess_security pods svcs rss jobs = [] \<longleftrightarrow> ?found = []"
    by (simp add: assess_security_def sec_found_def)
  have s: "List.map_filter exposed_service ss = [] \<longleftrightarrow> list_all internal_service ss" for ss
    by (induction ss) (auto simp: exposed_service_def exposure_def internal_service_def)
  show ?thesis unfolding a unfolding sec_found_def by (auto simp: s pod_silent list_all_iff)
qed

end
