(* ===== verification/Log_Lint.thy ===== *)
theory Log_Lint
  imports Regex
begin

text \<open>
  The packages that read text they must not repeat: \<open>internal/credlint\<close> (credentials in the clear),
  \<open>internal/logscan\<close> (the cause of a crash in the last lines of a log), \<open>Addresses\<close> of
  \<open>internal/redact\<close> and \<open>internal/connectivity\<close> (what a failed API call means). The upper case of a
  code point is a table of the toolchain, like its lower case.
\<close>

section \<open>Credentials in the clear\<close>

record lint_finding =
  lf_namespace :: string
  lf_name :: string
  lf_kind :: string
  lf_location :: string
  lf_pattern :: string

record config_map =
  cm_namespace :: string
  cm_name :: string
  cm_data :: "(string, string) gomap"

record env_var =
  en_name :: string
  en_value :: string
  en_from :: bool

record lint_pod =
  lp_namespace :: string
  lp_name :: string
  lp_init :: "(string \<times> env_var list) list"
  lp_containers :: "(string \<times> env_var list) list"

definition upper_or_digit :: "rune \<Rightarrow> bool" where
  "upper_or_digit x \<longleftrightarrow> digit x \<or> between (CHR ''A'') (CHR ''Z'') x"

definition alphanumeric :: "rune \<Rightarrow> bool" where
  "alphanumeric x \<longleftrightarrow> digit x \<or> letter x"

definition token_rune :: "rune \<Rightarrow> bool" where
  "token_rune x \<longleftrightarrow> alphanumeric x \<or> x = rune_of (CHR ''_'') \<or> x = rune_of (CHR ''-'')"

definition aws_key_re :: re where
  "aws_key_re = Seq (lit ''AKIA'') (rep 16 (Cls upper_or_digit))"

definition gh_token_re :: re where
  "gh_token_re = Alt (Seq (lit ''ghp_'') (rep 36 (Cls alphanumeric)))
     (Seq (lit ''github_pat_'') (Seq (rep 22 (Cls (\<lambda>x. alphanumeric x \<or> x = rune_of (CHR ''_''))))
        (Star (Cls (\<lambda>x. alphanumeric x \<or> x = rune_of (CHR ''_''))))))"

definition jwt_re :: re where
  "jwt_re = seqs [lit ''eyJ'', plus (Cls token_rune), lit ''.eyJ'', plus (Cls token_rune), lit ''.'', plus (Cls token_rune)]"

definition sep :: re where
  "sep = opt (Cls (\<lambda>x. x = rune_of (CHR ''_'') \<or> x = rune_of (CHR ''-'')))"

definition cred_name :: re where
  "cred_name = alts [ilit ''password'', ilit ''passwd'', ilit ''secret'', ilit ''token'',
     seqs [ilit ''api'', sep, ilit ''key''], seqs [ilit ''access'', sep, ilit ''key''],
     seqs [ilit ''private'', sep, ilit ''key''], ilit ''credential'']"

definition numeric_re :: re where
  "numeric_re = seqs [Bos, plus (Cls digit), Star (Seq (lit ''.'') (plus (Cls digit))), Eos]"

definition upper_char :: "char \<Rightarrow> char" where
  "upper_char c = (let n = of_char c :: nat in if 97 \<le> n \<and> n \<le> 122 then char_of (n - 32) else c)"

definition to_upper :: "(rune \<Rightarrow> rune) \<Rightarrow> string \<Rightarrow> string" where
  "to_upper up s = (if ascii s then map upper_char s else encode (map up (go_runes s)))"

definition is_file_ref :: "(rune \<Rightarrow> rune) \<Rightarrow> string \<Rightarrow> bool" where
  "is_file_ref up name \<longleftrightarrow> has_suffix (to_upper up name) ''_FILE''"

definition looks_like_literal_secret :: "unicode_tables \<Rightarrow> string \<Rightarrow> bool" where
  "looks_like_literal_secret u val =
    (let v = trim_space val in
     if v = [] \<or> match_string numeric_re v \<or> has_prefix v ''$'' then False
     else if to_lower u v = ''true'' \<or> to_lower u v = ''false'' then False
     else True)"

definition lint_classify :: "unicode_tables \<Rightarrow> (rune \<Rightarrow> rune) \<Rightarrow> string \<Rightarrow> string \<Rightarrow> string option" where
  "lint_classify u up name val =
    (if match_string aws_key_re val then Some ''AWS access key''
     else if contains val ''-----BEGIN '' \<and> contains val ''PRIVATE KEY-----'' then Some ''private key''
     else if match_string gh_token_re val then Some ''GitHub token''
     else if match_string jwt_re val then Some ''JWT''
     else if match_string cred_name name \<and> \<not> is_file_ref up name \<and> looks_like_literal_secret u val
     then Some ''credential-like name with a literal value''
     else None)"

definition lint_config_map :: "unicode_tables \<Rightarrow> (rune \<Rightarrow> rune) \<Rightarrow> config_map \<Rightarrow> lint_finding list" where
  "lint_config_map u up c =
    List.map_filter (\<lambda>(key, val). map_option (\<lambda>pat. \<lparr>lf_namespace = cm_namespace c, lf_name = cm_name c,
       lf_kind = ''ConfigMap'', lf_location = key, lf_pattern = pat\<rparr>) (lint_classify u up key val)) (cm_data c)"

definition lint_env :: "unicode_tables \<Rightarrow> (rune \<Rightarrow> rune) \<Rightarrow> lint_pod \<Rightarrow> string \<Rightarrow> env_var \<Rightarrow> lint_finding option" where
  "lint_env u up p ctr e =
    (if en_from e \<or> en_value e = [] then None
     else map_option (\<lambda>pat. \<lparr>lf_namespace = lp_namespace p, lf_name = lp_name p, lf_kind = ''Pod'',
       lf_location = ctr @ ''/'' @ en_name e, lf_pattern = pat\<rparr>) (lint_classify u up (en_name e) (en_value e)))"

definition lint_pod_findings :: "unicode_tables \<Rightarrow> (rune \<Rightarrow> rune) \<Rightarrow> lint_pod \<Rightarrow> lint_finding list" where
  "lint_pod_findings u up p =
    concat (map (\<lambda>(ctr, es). List.map_filter (lint_env u up p ctr) es) (lp_init p @ lp_containers p))"

definition lint_key :: "lint_finding \<Rightarrow> string \<times> string \<times> string" where
  "lint_key f = (lf_namespace f, lf_name f, lf_location f)"

definition lint_less :: "lint_finding \<Rightarrow> lint_finding \<Rightarrow> bool" where
  "lint_less a b = (if lf_namespace a \<noteq> lf_namespace b then lf_namespace a < lf_namespace b
     else if lf_name a \<noteq> lf_name b then lf_name a < lf_name b
     else lf_location a < lf_location b)"

definition lint_scan :: "unicode_tables \<Rightarrow> (rune \<Rightarrow> rune) \<Rightarrow> config_map list \<Rightarrow> lint_pod list \<Rightarrow> lint_finding list" where
  "lint_scan u up cms pods =
    sort_slice lint_less (concat (map (lint_config_map u up) cms) @ concat (map (lint_pod_findings u up) pods))"

section \<open>The cause of a crash\<close>

record clue =
  cu_signature :: string
  cu_excerpt :: string
  cu_cause :: string

definition blank_clue :: clue where
  "blank_clue = \<lparr>cu_signature = [], cu_excerpt = [], cu_cause = []\<rparr>"

definition anything :: re where "anything = Star any_but_newline"

definition non_space :: re where
  "non_space = Cls (\<lambda>x. x \<notin> {9, 10, 12, 13, 32})"

definition signatures :: "(string \<times> re \<times> string) list" where
  "signatures =
   [(''panic'', Alt (Seq Bos (ilit ''panic:'')) (seqs [ilit ''goroutine '', plus (Cls digit), ilit '' [running]:'']),
      ''application panic (code bug)''),
    (''entrypoint'', seqs [ilit ''exec:'', anything,
        alts [ilit ''executable file not found'', ilit ''no such file or directory'', ilit ''permission denied'']],
      ''bad command or entrypoint''),
    (''conn-refused'', seqs [ilit ''dial tcp '', plus non_space, ilit '': connect: connection refused''],
      ''cannot reach a dependency'' @ bytes [32, 226, 128, 148, 32] @ ''connection refused''),
    (''dns'', Alt (ilit ''no such host'') (ilit ''server misbehaving''), ''DNS resolution failed (name lookup)''),
    (''oom-inproc'', alts [ilit ''out of memory'', ilit ''cannot allocate memory'', ilit ''std::bad_alloc''],
      ''ran out of memory in-process''),
    (''config'', alts [Seq Bos (ilit ''yaml:''), seqs [ilit ''invalid character '', anything, ilit '' looking for''],
        Seq (alts [ilit ''failed to'', ilit ''unable to'', ilit ''cannot'']) (ilit '' parse''),
        seqs [ilit ''error '', opt (ilit ''during ''), ilit ''parsing''], ilit ''parse error'', ilit ''unknown directive'',
        ilit ''invalid config''],
      ''configuration parse/validation error''),
    (''addr-in-use'', ilit ''address already in use'', ''port already in use''),
    (''auth'', alts [ilit ''password authentication failed'', ilit ''access denied'', ilit ''401 unauthorized'', ilit ''403 forbidden''],
      ''authentication/authorization failure to a dependency''),
    (''perm-denied'', Alt (ilit ''permission denied'') (ilit ''eacces''),
      ''permission denied'' @ bytes [32, 226, 128, 148, 32] @ ''check securityContext / file permissions'')]"

definition max_excerpt :: nat where "max_excerpt = 200"

definition runtime_placeholder :: re where
  "runtime_placeholder = Seq Bos (ilit ''unable to retrieve container logs for '')"

fun only_placeholder :: "bool \<Rightarrow> string list \<Rightarrow> bool" where
  "only_placeholder seen [] = seen"
| "only_placeholder seen (l # ls) =
    (let t = trim_space l in
     if t = [] then only_placeholder seen ls
     else if \<not> match_string runtime_placeholder t then False
     else only_placeholder True ls)"

definition excerpt :: "unicode_tables \<Rightarrow> string \<Rightarrow> string" where
  "excerpt u s =
    (let t = line u s; r = go_runes t in
     if length r > max_excerpt then encode (take max_excerpt r) @ bytes [226, 128, 166] else t)"

definition matching_line :: "re \<Rightarrow> string list \<Rightarrow> string option" where
  "matching_line r ls = find (\<lambda>t. t \<noteq> [] \<and> match_string r t) (map trim_space ls)"

fun first_signature :: "unicode_tables \<Rightarrow> (string \<times> re \<times> string) list \<Rightarrow> string list \<Rightarrow> clue option" where
  "first_signature u [] ls = None"
| "first_signature u ((name, r, cause) # sigs) ls =
    (case matching_line r ls of
       Some t \<Rightarrow> Some \<lparr>cu_signature = name, cu_excerpt = excerpt u t, cu_cause = cause\<rparr>
     | None \<Rightarrow> first_signature u sigs ls)"

definition no_signature :: string where
  "no_signature = ''last output before exit (no signature in the last 25 lines)''"

definition classify_log :: "unicode_tables \<Rightarrow> string \<Rightarrow> clue" where
  "classify_log u body =
    (let ls = split_byte (CHR 0x0A) body in
     if only_placeholder False ls then blank_clue
     else case first_signature u signatures ls of
       Some c \<Rightarrow> c
     | None \<Rightarrow>
         (case find (\<lambda>t. t \<noteq> []) (map trim_space (List.rev ls)) of
            Some t \<Rightarrow> \<lparr>cu_signature = [], cu_excerpt = excerpt u t, cu_cause = no_signature\<rparr>
          | None \<Rightarrow> blank_clue))"

section \<open>Addresses\<close>

text \<open>
  The expression accepts only ASCII, and a byte beyond it is no word character either, so it is matched
  on the bytes, which leaves the others as they are.
\<close>

definition dns_label :: re where
  "dns_label = Seq (Cls alphanumeric)
     (opt (Seq (Star (Cls (\<lambda>x. alphanumeric x \<or> x = rune_of (CHR ''-'')))) (Cls alphanumeric)))"

definition addr_re :: re where
  "addr_re = alts
    [seqs [lit ''['', plus (Cls (\<lambda>x. digit x \<or> between (CHR ''a'') (CHR ''f'') x \<or> between (CHR ''A'') (CHR ''F'') x \<or> x = rune_of (CHR '':''))),
       lit '']:'', plus (Cls digit)],
     seqs [WordB, Cls digit, up_to 2 (Cls digit), rep 3 (seqs [lit ''.'', Cls digit, up_to 2 (Cls digit)]),
       opt (Seq (lit '':'') (plus (Cls digit)))],
     seqs [WordB, dns_label, plus (Seq (lit ''.'') dns_label), lit '':'', plus (Cls digit)]]"

definition addresses :: "string \<Rightarrow> string" where
  "addresses s = map char_of (replace_from addr_re (map rune_of ''<redacted>'') (None, map rune_of s))"

section \<open>A call that failed\<close>

text \<open>
  What \<open>errors.As\<close>, \<open>errors.Is\<close> and \<open>apierrors\<close> find in the chain of an error, its text, and the scheme
  and host of the URL it carries, where that parses and has a host.
\<close>

record call_error =
  ce_certificate :: bool
  ce_unauthorized :: bool
  ce_forbidden :: bool
  ce_refused :: bool
  ce_timeout :: bool
  ce_dns :: bool
  ce_text :: string
  ce_host :: "(string \<times> string) option"

definition server_host :: "call_error \<Rightarrow> string" where
  "server_host e = (case ce_host e of Some (scheme, host) \<Rightarrow> if host \<noteq> [] then scheme @ ''://'' @ host else [] | None \<Rightarrow> [])"

definition capitalize :: "string \<Rightarrow> string" where
  "capitalize s = (case s of [] \<Rightarrow> [] | c # cs \<Rightarrow> upper_char c # cs)"

definition diagnose_call :: "call_error option \<Rightarrow> string option" where
  "diagnose_call err =
    (case err of None \<Rightarrow> None
     | Some e \<Rightarrow>
       (let host = server_host e;
            at' = ''the Kubernetes API server'' @ (if host \<noteq> [] then '' '' @ host else []);
            msg = ce_text e; nl = bytes [10] in
        if ce_certificate e \<or> contains msg ''x509:'' \<or> contains msg ''tls: ''
        then Some (''TLS/certificate problem reaching '' @ at' @ ''.'' @ nl @
          ''The cluster certificates may be expired, or the CA/credentials in your kubeconfig are wrong.'' @ nl @
          ''Check: control-plane certificate expiry and that your kubeconfig matches this cluster.'')
        else if ce_unauthorized e
        then Some (''Authentication failed (401) at '' @ at' @ ''.'' @ nl @
          ''Check: the credentials/token in your kubeconfig are valid and not expired.'')
        else if ce_forbidden e
        then Some (''Authorization failed (403) at '' @ at' @ ''.'' @ nl @
          ''Check: your user has RBAC permission to read this (kubeagent needs only list/get).'')
        else if ce_refused e \<or> contains msg ''connection refused''
        then Some (capitalize at' @ '' refused the connection.'' @ nl @
          ''The control plane may be down (the API server or etcd is not running).'' @ nl @
          ''Check: control-plane pods/processes and the server URL in your kubeconfig.'')
        else if contains msg ''connection reset by peer''
        then Some (capitalize at' @ '' reset the connection.'' @ nl @
          ''The control plane may be unhealthy or restarting (e.g. the API server or etcd).'' @ nl @
          ''Check: control-plane health and recent restarts.'')
        else if ce_timeout e \<or> contains msg ''i/o timeout'' \<or> contains msg ''context deadline exceeded'' \<or> contains msg ''Client.Timeout''
        then Some (''Timed out reaching '' @ at' @ ''.'' @ nl @
          ''Check: network/VPN/firewall reachability and the server URL in your kubeconfig.'')
        else if ce_dns e \<or> contains msg ''no such host'' \<or> contains msg ''server misbehaving''
        then Some (''Cannot resolve '' @ at' @ ''.'' @ nl @ ''Check: the server URL/hostname in your kubeconfig and your DNS.'')
        else None))"

section \<open>What a finding can show\<close>

text \<open>An access key is a word \<open>AKIA\<close> followed by sixteen capitals or digits, anywhere in the value.\<close>

lemma aws_key_iff:
  "match_string aws_key_re s \<longleftrightarrow>
    (\<exists>pre key post. go_runes s = pre @ (map rune_of ''AKIA'' @ key) @ post \<and> length key = 16 \<and> list_all upper_or_digit key)"
proof -
  have "matches aws_key_re (p, xs) (q, ys) \<longleftrightarrow>
      (\<exists>w. (\<exists>key. w = map rune_of ''AKIA'' @ key \<and> length key = 16 \<and> list_all upper_or_digit key) \<and> xs = w @ ys \<and> q = before p w)"
    for p xs q ys
    unfolding aws_key_re_def matches_simps(6)
    by (auto simp only: split_paired_Ex matches_lit matches_rep) (auto simp: before_def)
  from match_words [OF this, of s] show ?thesis by blast
qed

definition lint_labels :: "string set" where
  "lint_labels = {''AWS access key'', ''private key'', ''GitHub token'', ''JWT'', ''credential-like name with a literal value''}"

text \<open>What is left of the inputs when every value is replaced by the label it gets, if any.\<close>

definition map_view :: "unicode_tables \<Rightarrow> (rune \<Rightarrow> rune) \<Rightarrow> config_map \<Rightarrow> string \<times> string \<times> (string \<times> string option) list" where
  "map_view u up c = (cm_namespace c, cm_name c, map (\<lambda>(k, v). (k, lint_classify u up k v)) (cm_data c))"

definition env_view :: "unicode_tables \<Rightarrow> (rune \<Rightarrow> rune) \<Rightarrow> env_var \<Rightarrow> string \<times> string option" where
  "env_view u up e = (en_name e, if en_from e \<or> en_value e = [] then None else lint_classify u up (en_name e) (en_value e))"

definition pod_view ::
    "unicode_tables \<Rightarrow> (rune \<Rightarrow> rune) \<Rightarrow> lint_pod \<Rightarrow> string \<times> string \<times> (string \<times> (string \<times> string option) list) list" where
  "pod_view u up p = (lp_namespace p, lp_name p,
     map (\<lambda>(ctr, es). (ctr, map (env_view u up) es)) (lp_init p @ lp_containers p))"

definition view_hits :: "string \<Rightarrow> string \<Rightarrow> string \<Rightarrow> string \<Rightarrow> (string \<times> string option) list \<Rightarrow> lint_finding list" where
  "view_hits kind ns n pre rows = List.map_filter (\<lambda>(k, l). map_option (\<lambda>pat. \<lparr>lf_namespace = ns, lf_name = n, lf_kind = kind,
     lf_location = pre @ k, lf_pattern = pat\<rparr>) l) rows"

lemma map_filter_over_map: "List.map_filter f (map g xs) = List.map_filter (f \<circ> g) xs"
  by (induction xs) (auto split: option.splits)

lemma lint_config_map_view: "lint_config_map u up c = (\<lambda>(ns, n, rows). view_hits ''ConfigMap'' ns n [] rows) (map_view u up c)"
  by (auto simp: lint_config_map_def map_view_def view_hits_def map_filter_over_map intro!: map_filter_cong)

lemma lint_pod_view:
  "lint_pod_findings u up p =
    (\<lambda>(ns, n, cs). concat (map (\<lambda>(ctr, rows). view_hits ''Pod'' ns n (ctr @ ''/'') rows) cs)) (pod_view u up p)"
proof -
  have "List.map_filter (lint_env u up p ctr) es = view_hits ''Pod'' (lp_namespace p) (lp_name p) (ctr @ ''/'') (map (env_view u up) es)"
    for ctr es
    by (auto simp: view_hits_def map_filter_over_map lint_env_def env_view_def intro!: map_filter_cong)
  then show ?thesis
    by (simp add: lint_pod_findings_def pod_view_def o_def split_def del: map_append)
qed

lemma lint_scan_view:
  assumes "map (map_view u up) cms = map (map_view u up) cms'" and "map (pod_view u up) pods = map (pod_view u up) pods'"
  shows "lint_scan u up cms pods = lint_scan u up cms' pods'"
proof -
  have "map (lint_config_map u up) cms = map (lint_config_map u up) cms'"
    using arg_cong [OF assms(1), of "map (\<lambda>(ns, n, rows). view_hits ''ConfigMap'' ns n [] rows)"]
    by (simp add: lint_config_map_view [abs_def] o_def)
  moreover have "map (lint_pod_findings u up) pods = map (lint_pod_findings u up) pods'"
    using arg_cong [OF assms(2), of "map (\<lambda>(ns, n, cs). concat (map (\<lambda>(ctr, rows). view_hits ''Pod'' ns n (ctr @ ''/'') rows) cs))"]
    by (simp add: lint_pod_view [abs_def] o_def)
  ultimately show ?thesis by (simp add: lint_scan_def)
qed

lemma lint_classify_labels: "lint_classify u up k v = Some pat \<Longrightarrow> pat \<in> lint_labels"
  by (auto simp: lint_classify_def lint_labels_def split: if_splits)

lemma lint_scan_labels: "f \<in> set (lint_scan u up cms pods) \<Longrightarrow> lf_pattern f \<in> lint_labels"
  by (auto simp: lint_scan_def lint_config_map_def lint_pod_findings_def lint_env_def set_map_filter
      split: if_splits dest!: lint_classify_labels)


definition key_map :: "string \<Rightarrow> config_map" where
  "key_map v = \<lparr>cm_namespace = ''a'', cm_name = ''b'', cm_data = [(''k'', v)]\<rparr>"


section \<open>What a clue says\<close>

definition nonblank :: "string list \<Rightarrow> string list" where
  "nonblank ls = filter (\<lambda>t. t \<noteq> []) (map trim_space ls)"

definition shown_lines :: "string \<Rightarrow> string list" where
  "shown_lines body = nonblank (split_byte (CHR 0x0A) body)"

definition first_matching :: "string list \<Rightarrow> (string \<times> re \<times> string) option" where
  "first_matching ts = find (\<lambda>(n, r, c). \<exists>t\<in>set ts. match_string r t) signatures"

lemma only_placeholder_iff:
  "only_placeholder seen ls \<longleftrightarrow> (seen \<or> nonblank ls \<noteq> []) \<and> list_all (match_string runtime_placeholder) (nonblank ls)"
  by (induction ls arbitrary: seen) (auto simp: Let_def nonblank_def)

lemma matching_line_find: "matching_line r ls = find (match_string r) (nonblank ls)"
  unfolding matching_line_def nonblank_def by (induction ls) auto

lemma first_signature_find:
  "first_signature u sigs ls =
    (case find (\<lambda>(n, r, c). \<exists>t\<in>set (nonblank ls). match_string r t) sigs of
       None \<Rightarrow> None
     | Some (n, r, c) \<Rightarrow> Some \<lparr>cu_signature = n, cu_excerpt = excerpt u (the (find (match_string r) (nonblank ls))), cu_cause = c\<rparr>)"
proof (induction sigs)
  case (Cons s sigs)
  obtain n r c where s: "s = (n, r, c)" by (cases s)
  have "(\<exists>t\<in>set (nonblank ls). match_string r t) \<longleftrightarrow> find (match_string r) (nonblank ls) \<noteq> None"
    unfolding find_None_iff by blast
  then show ?case
    by (cases "find (match_string r) (nonblank ls)") (simp_all add: s Cons.IH matching_line_find)
qed simp

lemma classify_log_eq:
  "classify_log u body =
    (let ts = shown_lines body in
     if ts = [] \<or> list_all (match_string runtime_placeholder) ts then blank_clue
     else case first_matching ts of
       Some (n, r, c) \<Rightarrow> \<lparr>cu_signature = n, cu_excerpt = excerpt u (the (find (match_string r) ts)), cu_cause = c\<rparr>
     | None \<Rightarrow> \<lparr>cu_signature = [], cu_excerpt = excerpt u (last ts), cu_cause = no_signature\<rparr>)"
proof -
  have l: "find (\<lambda>t. t \<noteq> []) (List.rev xs) = (case filter (\<lambda>t. t \<noteq> []) xs of [] \<Rightarrow> None | y # ys \<Rightarrow> Some (last (y # ys)))"
    for xs :: "string list"
    by (induction xs rule: rev_induct) (auto split: list.splits)
  have lr: "find (\<lambda>t. t \<noteq> []) (map trim_space (List.rev (split_byte (CHR 0x0A) body))) =
      (case shown_lines body of [] \<Rightarrow> None | y # ys \<Rightarrow> Some (last (y # ys)))"
    unfolding rev_map [symmetric] l shown_lines_def nonblank_def ..
  have fs: "first_signature u signatures ls = (case first_matching (nonblank ls) of None \<Rightarrow> None
      | Some (n, r, c) \<Rightarrow> Some \<lparr>cu_signature = n, cu_excerpt = excerpt u (the (find (match_string r) (nonblank ls))), cu_cause = c\<rparr>)"
    for ls by (simp add: first_signature_find first_matching_def)
  have n: "first_matching [] = None" by (simp add: first_matching_def find_None_iff split_def)
  show ?thesis
    unfolding classify_log_def only_placeholder_iff fs Let_def lr shown_lines_def [symmetric]
    by (cases "shown_lines body"; cases "first_matching (shown_lines body)") (simp_all add: n split: prod.split)
qed

lemma go_runes_encode: "(\<And>r. r \<in> set rs \<Longrightarrow> scalar r) \<Longrightarrow> go_runes (encode rs) = rs"
proof (induction rs)
  case (Cons r rs)
  obtain c s where c: "encode_rune r = c # s"
    using length_encode_rune [of r] by (cases "encode_rune r") auto
  have "decode_rune (encode_rune r @ encode rs) = Some (r, length (encode_rune r))"
    by (rule decode_encode_rune) (simp add: Cons)
  with c Cons show ?case by (simp add: encode_def)
qed (simp add: encode_def)

lemma excerpt_runes:
  assumes "unicode_ok u"
  shows "length (go_runes (excerpt u s)) \<le> 201 \<and> (\<forall>r\<in>set (go_runes (excerpt u s)). \<not> is_control r \<and> \<not> tbl_Cf u r)"
proof -
  define R where "R = line_runes u (to_valid False s)"
  have sc: "scalar r" if "r \<in> set R" for r
    using that line_runes_scalar to_valid_scalar unfolding R_def by blast
  have cl: "\<not> is_control r \<and> \<not> tbl_Cf u r" if "r \<in> set R" for r
    using that line_runes_clean [OF assms] unfolding R_def by blast
  have l: "line u s = encode R" by (simp add: R_def line_def)
  have g: "go_runes (line u s) = R" unfolding l by (rule go_runes_encode) (rule sc)
  have el: "encode (take 200 R) @ bytes [226, 128, 166] = encode (take 200 R @ [ellipsis])"
    by (simp add: encode_def encode_rune_def ellipsis_def bytes_def)
  have ge: "go_runes (encode (take 200 R @ [ellipsis])) = take 200 R @ [ellipsis]"
    by (rule go_runes_encode) (auto dest: in_set_takeD intro: sc, simp add: ellipsis_def scalar_def)
  show ?thesis
  proof (cases "length R > 200")
    case True
    then have "go_runes (excerpt u s) = take 200 R @ [ellipsis]"
      by (simp add: excerpt_def Let_def g max_excerpt_def el ge)
    with assms show ?thesis by (auto dest!: in_set_takeD cl simp: ellipsis_plain unicode_ok_def)
  next
    case False
    then have "go_runes (excerpt u s) = R" by (simp add: excerpt_def Let_def g max_excerpt_def)
    with False cl show ?thesis by auto
  qed
qed

text \<open>
  C24. A crash is classified by the first signature, in their order, that some line of the log matches; with
  no such line the last line is quoted, and a log of nothing but the kubelet's placeholder says nothing.
  The cause is then one of eleven fixed texts, so nothing the container printed reaches it, and the
  excerpt, the only part of the log that does go on, is one clean line of at most 201 runes.
\<close>

theorem clue_sound:
  assumes "unicode_ok u"
  shows "cu_cause (classify_log u body) \<in> {[], no_signature} \<union> (snd \<circ> snd) ` set signatures \<and>
    (cu_signature (classify_log u body), cu_cause (classify_log u body)) =
      (if shown_lines body = [] \<or> list_all (match_string runtime_placeholder) (shown_lines body) then ([], [])
       else case first_matching (shown_lines body) of Some (n, r, c) \<Rightarrow> (n, c) | None \<Rightarrow> ([], no_signature)) \<and>
    length (go_runes (cu_excerpt (classify_log u body))) \<le> 201 \<and>
    (\<forall>r\<in>set (go_runes (cu_excerpt (classify_log u body))). \<not> is_control r \<and> \<not> tbl_Cf u r)"
proof (intro conjI)
  let ?f = "first_matching (shown_lines body)"
  have m: "(n, r, c) \<in> set signatures" if "?f = Some (n, r, c)" for n r c
    using that unfolding first_matching_def find_Some_split by (metis in_set_conv_decomp)
  show "cu_cause (classify_log u body) \<in> {[], no_signature} \<union> (snd \<circ> snd) ` set signatures"
    by (auto simp: classify_log_eq Let_def blank_clue_def split: option.splits dest!: m) (metis comp_apply image_eqI snd_conv)
  show "(cu_signature (classify_log u body), cu_cause (classify_log u body)) =
      (if shown_lines body = [] \<or> list_all (match_string runtime_placeholder) (shown_lines body) then ([], [])
       else case ?f of Some (n, r, c) \<Rightarrow> (n, c) | None \<Rightarrow> ([], no_signature))"
    by (auto simp: classify_log_eq Let_def blank_clue_def split: option.splits)
  have e: "cu_excerpt (classify_log u body) = [] \<or> (\<exists>s. cu_excerpt (classify_log u body) = excerpt u s)"
    by (auto simp: classify_log_eq Let_def blank_clue_def split: option.splits)
  then show "length (go_runes (cu_excerpt (classify_log u body))) \<le> 201"
    and "\<forall>r\<in>set (go_runes (cu_excerpt (classify_log u body))). \<not> is_control r \<and> \<not> tbl_Cf u r"
    using excerpt_runes [OF assms] by auto
qed

theorem clue_sound_witness:
  "cu_cause (classify_log small_tables ''panic: x'') = ''application panic (code bug)'' \<and>
   length (go_runes (cu_excerpt (classify_log small_tables ''panic: x''))) \<le> 201"
proof
  have "shown_lines ''panic: x'' = [''panic: x'']" by code_simp
  moreover have "\<not> match_string runtime_placeholder ''panic: x''" by code_simp
  moreover have "first_matching [''panic: x''] = Some (hd signatures)"
  proof -
    have "match_string (fst (snd (hd signatures))) ''panic: x''" by code_simp
    then show ?thesis by (simp add: first_matching_def signatures_def)
  qed
  ultimately show "cu_cause (classify_log small_tables ''panic: x'') = ''application panic (code bug)''"
    using clue_sound [OF small_tables_ok, of "''panic: x''"] by (simp add: signatures_def)
  show "length (go_runes (cu_excerpt (classify_log small_tables ''panic: x''))) \<le> 201"
    using clue_sound [OF small_tables_ok, of "''panic: x''"] by blast
qed

end
