(* ===== verification/Worker_Pool.thy ===== *)
theory Worker_Pool
  imports Kube_Prelude
begin

text \<open>
  \<open>internal/parallel/parallel.go\<close>: the bounded worker pool, as a step relation over the goroutines. A step
  is one synchronisation: an index handed over the unbuffered channel, a call that ends, the close of
  the channel, a worker that leaves its loop, or the return of \<open>Do\<close>. Also the knob of
  \<open>internal/scan/workers.go\<close> that sizes the pool, and \<open>internal/scan/threshold.go\<close>.
\<close>

section \<open>The knobs\<close>

text \<open>\<open>s\<close> is the value of the environment variable, empty when it is not set.\<close>

definition default_scan_workers :: int where "default_scan_workers = 8"
definition min_scan_workers :: int where "min_scan_workers = 1"
definition max_scan_workers :: int where "max_scan_workers = 64"

definition scan_workers :: "string \<Rightarrow> int" where
  "scan_workers s =
    (if s = [] then default_scan_workers
     else case atoi s of
       None \<Rightarrow> default_scan_workers
     | Some n \<Rightarrow> if n < min_scan_workers then min_scan_workers
                 else if n > max_scan_workers then max_scan_workers else n)"

text \<open>\<open>time.ParseDuration\<close> is a parameter.\<close>

definition default_terminating_threshold :: duration where
  "default_terminating_threshold = 2 * minute"

definition terminating_threshold :: "(string \<Rightarrow> duration option) \<Rightarrow> string \<Rightarrow> duration" where
  "terminating_threshold parse s =
    (if s = [] then default_terminating_threshold
     else case parse s of
       None \<Rightarrow> default_terminating_threshold
     | Some d \<Rightarrow> if d \<le> 0 then default_terminating_threshold else d)"

lemma scan_workers_range: "1 \<le> scan_workers s \<and> scan_workers s \<le> 64"
  by (simp add: scan_workers_def default_scan_workers_def min_scan_workers_def max_scan_workers_def split: option.split)

lemma terminating_threshold_pos: "0 < terminating_threshold parse s"
  by (simp add: terminating_threshold_def default_terminating_threshold_def minute_def second_def split: option.split)

section \<open>The state\<close>

datatype worker_state = Waiting | Running nat | Left

record 'r pool =
  po_next :: nat
  po_closed :: bool
  po_workers :: "worker_state list"
  po_out :: "'r list"
  po_calls :: "nat list"
  po_returned :: bool

definition clamp_workers :: "int \<Rightarrow> nat \<Rightarrow> nat" where
  "clamp_workers workers n = nat (let w = (if workers < 1 then 1 else workers) in if w > int n then int n else w)"

text \<open>
  The state after the goroutines have been started, for \<open>n > 0\<close>; \<open>z\<close> is the zero value the slice is made
  of.
\<close>

definition pool_start :: "int \<Rightarrow> nat \<Rightarrow> 'r \<Rightarrow> 'r pool" where
  "pool_start workers n z = \<lparr>po_next = 0, po_closed = False,
     po_workers = replicate (clamp_workers workers n) Waiting, po_out = replicate n z, po_calls = [],
     po_returned = False\<rparr>"

text \<open>\<open>f i\<close> is what the call for index \<open>i\<close> returns; \<open>po_calls\<close> logs the calls in the order they end.\<close>

inductive pool_step :: "(nat \<Rightarrow> 'r) \<Rightarrow> nat \<Rightarrow> 'r pool \<Rightarrow> 'r pool \<Rightarrow> bool" for f n where
  hand: "w < length (po_workers s) \<Longrightarrow> po_workers s ! w = Waiting \<Longrightarrow> po_next s < n \<Longrightarrow>
    pool_step f n s (s\<lparr>po_next := Suc (po_next s), po_workers := (po_workers s)[w := Running (po_next s)]\<rparr>)"
| finish: "w < length (po_workers s) \<Longrightarrow> po_workers s ! w = Running i \<Longrightarrow>
    pool_step f n s (s\<lparr>po_workers := (po_workers s)[w := Waiting], po_out := (po_out s)[i := f i],
      po_calls := po_calls s @ [i]\<rparr>)"
| close: "po_next s = n \<Longrightarrow> \<not> po_closed s \<Longrightarrow> pool_step f n s (s\<lparr>po_closed := True\<rparr>)"
| leave: "w < length (po_workers s) \<Longrightarrow> po_workers s ! w = Waiting \<Longrightarrow> po_closed s \<Longrightarrow>
    pool_step f n s (s\<lparr>po_workers := (po_workers s)[w := Left]\<rparr>)"
| return: "po_closed s \<Longrightarrow> \<forall>w < length (po_workers s). po_workers s ! w = Left \<Longrightarrow> \<not> po_returned s \<Longrightarrow>
    pool_step f n s (s\<lparr>po_returned := True\<rparr>)"

inductive_cases pool_stepE: "pool_step f n s s'"

inductive pool_reachable :: "(nat \<Rightarrow> 'r) \<Rightarrow> int \<Rightarrow> nat \<Rightarrow> 'r \<Rightarrow> 'r pool \<Rightarrow> bool" for f workers n z where
  start: "pool_reachable f workers n z (pool_start workers n z)"
| step: "pool_reachable f workers n z s \<Longrightarrow> pool_step f n s s' \<Longrightarrow> pool_reachable f workers n z s'"

section \<open>The invariant\<close>

fun running_index :: "worker_state \<Rightarrow> nat multiset" where
  "running_index (Running i) = {#i#}"
| "running_index _ = {#}"

definition running :: "worker_state list \<Rightarrow> nat multiset" where
  "running ws = sum_list (map running_index ws)"

text \<open>
  Every index below \<open>po_next\<close> is either with exactly one worker or was called exactly once; the results
  of the calls that ended are in their places.
\<close>

definition pool_inv :: "(nat \<Rightarrow> 'r) \<Rightarrow> int \<Rightarrow> nat \<Rightarrow> 'r pool \<Rightarrow> bool" where
  "pool_inv f workers n s \<longleftrightarrow>
    length (po_workers s) = clamp_workers workers n \<and> length (po_out s) = n \<and> po_next s \<le> n \<and>
    mset (po_calls s) + running (po_workers s) = mset [0..<po_next s] \<and>
    (\<forall>i\<in>set (po_calls s). po_out s ! i = f i) \<and>
    (po_closed s \<longrightarrow> po_next s = n) \<and>
    (po_returned s \<longrightarrow> po_closed s \<and> (\<forall>w\<in>set (po_workers s). w = Left)) \<and>
    (\<forall>w\<in>set (po_workers s). w = Left \<longrightarrow> po_closed s)"

lemma running_update:
  "w < length ws \<Longrightarrow> running (ws[w := x]) + running_index (ws ! w) = running ws + running_index x"
proof (induction ws arbitrary: w)
  case (Cons a ws)
  then show ?case by (cases w) (auto simp: running_def ac_simps)
qed simp

lemma running_member: "w < length ws \<Longrightarrow> ws ! w = Running i \<Longrightarrow> i \<in># running ws"
proof (induction ws arbitrary: w)
  case (Cons a ws)
  then show ?case by (cases w) (auto simp: running_def)
qed simp

lemma running_Left: "\<forall>w\<in>set ws. w = Left \<Longrightarrow> running ws = {#}"
  by (induction ws) (auto simp: running_def)

lemma running_Waiting [simp]: "running (replicate k Waiting) = {#}"
  by (induction k) (auto simp: running_def)

lemma pool_inv_start: "pool_inv f workers n (pool_start workers n z)"
  by (simp add: pool_inv_def pool_start_def)

lemma pool_inv_bounds:
  assumes "pool_inv f workers n s"
  shows "w < length (po_workers s) \<Longrightarrow> po_workers s ! w = Running i \<Longrightarrow> i < po_next s"
    and "i \<in> set (po_calls s) \<Longrightarrow> i < po_next s"
proof -
  have total: "mset (po_calls s) + running (po_workers s) = mset [0..<po_next s]"
    using assms by (simp add: pool_inv_def)
  have "set_mset (mset (po_calls s)) \<subseteq> {0..<po_next s}" "set_mset (running (po_workers s)) \<subseteq> {0..<po_next s}"
    using arg_cong [OF total, of set_mset] by auto
  then show "w < length (po_workers s) \<Longrightarrow> po_workers s ! w = Running i \<Longrightarrow> i < po_next s"
    and "i \<in> set (po_calls s) \<Longrightarrow> i < po_next s"
    using running_member by (fastforce, auto)
qed

lemma pool_inv_step:
  assumes step: "pool_step f n s s'" and inv: "pool_inv f workers n s"
  shows "pool_inv f workers n s'"
  using step
proof cases
  case (hand w)
  have "running ((po_workers s)[w := Running (po_next s)]) = running (po_workers s) + {#po_next s#}"
    using running_update [OF hand(2), of "Running (po_next s)"] hand(3) by simp
  moreover have "\<forall>x\<in>set ((po_workers s)[w := Running (po_next s)]). x = Left \<longrightarrow> x \<in> set (po_workers s)"
    using set_update_subset_insert [of "po_workers s" w "Running (po_next s)"] by auto
  moreover have "\<not> po_returned s" "\<not> po_closed s"
    using inv hand(2-4) by (auto simp: pool_inv_def)
  ultimately show ?thesis using inv hand by (auto simp: pool_inv_def)
next
  case (finish w i)
  have i: "i < po_next s" using pool_inv_bounds(1) [OF inv finish(2,3)] .
  have upd: "running ((po_workers s)[w := Waiting]) + {#i#} = running (po_workers s)"
    using running_update [OF finish(2), of Waiting] finish(3) by simp
  have "mset (po_calls s @ [i]) + running ((po_workers s)[w := Waiting]) = mset (po_calls s) + running (po_workers s)"
    by (simp flip: upd)
  also have "\<dots> = mset [0..<po_next s]" using inv by (simp add: pool_inv_def)
  finally have "mset (po_calls s @ [i]) + running ((po_workers s)[w := Waiting]) = mset [0..<po_next s]" .
  moreover have "po_out s' ! j = f j" if "j \<in> set (po_calls s @ [i])" for j
    using that inv i finish(1) pool_inv_bounds(2) [OF inv, of j] by (cases "i = j") (auto simp: pool_inv_def)
  moreover have "\<not> po_returned s" using inv finish(3) nth_mem [OF finish(2)] by (auto simp: pool_inv_def)
  moreover have "\<forall>x\<in>set ((po_workers s)[w := Waiting]). x = Left \<longrightarrow> x \<in> set (po_workers s)"
    using set_update_subset_insert [of "po_workers s" w Waiting] by auto
  ultimately show ?thesis using inv finish(1) by (auto simp: pool_inv_def)
next
  case close
  then show ?thesis using inv by (auto simp: pool_inv_def)
next
  case (leave w)
  have "running ((po_workers s)[w := Left]) = running (po_workers s)"
    using running_update [OF leave(2), of Left] leave(3) by simp
  moreover have "\<not> po_returned s" using inv leave(3) nth_mem [OF leave(2)] by (auto simp: pool_inv_def)
  ultimately show ?thesis using inv leave by (auto simp: pool_inv_def)
next
  case return
  then show ?thesis using inv by (auto simp: pool_inv_def in_set_conv_nth)
qed

lemma pool_invariant: "pool_reachable f workers n z s \<Longrightarrow> pool_inv f workers n s"
  by (induction rule: pool_reachable.induct) (auto intro: pool_inv_start pool_inv_step)

section \<open>The result\<close>

lemma pool_result:
  assumes "pool_inv f workers n s" and "po_returned s"
  shows "po_out s = map f [0..<n]" and "mset (po_calls s) = mset [0..<n]"
proof -
  have all: "running (po_workers s) = {#}" and n: "po_next s = n" "length (po_out s) = n"
    using assms running_Left by (auto simp: pool_inv_def)
  then show calls: "mset (po_calls s) = mset [0..<n]" using assms(1) by (simp add: pool_inv_def)
  have "set (po_calls s) = {0..<n}" using arg_cong [OF calls, of set_mset] by simp
  then show "po_out s = map f [0..<n]"
    using assms(1) n by (intro nth_equalityI) (auto simp: pool_inv_def)
qed

text \<open>
  Whatever the interleaving of the goroutines and however the calls overtake one another, when \<open>Do\<close>
  returns every index has been called exactly once and the results stand in index order, as the
  sequential loop would leave them.
\<close>

theorem pool_sequential:
  assumes "pool_reachable f workers n z s" and "po_returned s"
  shows "po_out s = map f [0..<n] \<and> mset (po_calls s) = mset [0..<n]"
  using pool_result [OF pool_invariant [OF assms(1)] assms(2)] by blast

section \<open>The pool neither blocks nor runs for ever\<close>

fun worker_weight :: "worker_state \<Rightarrow> nat" where
  "worker_weight Waiting = 1"
| "worker_weight (Running i) = 2"
| "worker_weight Left = 0"

definition pool_weight :: "nat \<Rightarrow> 'r pool \<Rightarrow> nat" where
  "pool_weight n s = 2 * (n - po_next s) + sum_list (map worker_weight (po_workers s)) +
     (if po_closed s then 0 else 1) + (if po_returned s then 0 else 1)"

lemma weight_update:
  "w < length ws \<Longrightarrow> sum_list (map worker_weight (ws[w := x])) + worker_weight (ws ! w) =
    sum_list (map worker_weight ws) + worker_weight x"
proof (induction ws arbitrary: w)
  case (Cons a ws)
  then show ?case by (cases w) auto
qed simp

lemma pool_weight_step: "pool_step f n s s' \<Longrightarrow> pool_weight n s' < pool_weight n s"
proof (cases rule: pool_step.cases, assumption)
  fix w
  assume "s' = s\<lparr>po_next := Suc (po_next s), po_workers := (po_workers s)[w := Running (po_next s)]\<rparr>"
    and "w < length (po_workers s)" "po_workers s ! w = Waiting" "po_next s < n"
  then show ?thesis using weight_update [of w "po_workers s" "Running (po_next s)"] by (simp add: pool_weight_def)
next
  fix w i
  assume "s' = s\<lparr>po_workers := (po_workers s)[w := Waiting], po_out := (po_out s)[i := f i], po_calls := po_calls s @ [i]\<rparr>"
    and "w < length (po_workers s)" "po_workers s ! w = Running i"
  then show ?thesis using weight_update [of w "po_workers s" Waiting] by (simp add: pool_weight_def)
next
  fix w
  assume "s' = s\<lparr>po_workers := (po_workers s)[w := Left]\<rparr>"
    and "w < length (po_workers s)" "po_workers s ! w = Waiting"
  then show ?thesis using weight_update [of w "po_workers s" Left] by (simp add: pool_weight_def)
qed (simp_all add: pool_weight_def)

lemma pool_progress:
  assumes inv: "pool_inv f workers n s" and "0 < n" and "\<not> po_returned s"
  shows "\<exists>s'. pool_step f n s s'"
proof (cases "\<exists>w < length (po_workers s). \<exists>i. po_workers s ! w = Running i")
  case True
  then show ?thesis by (blast intro: pool_step.finish)
next
  case not_running: False
  show ?thesis
  proof (cases "\<exists>w < length (po_workers s). po_workers s ! w = Waiting")
    case True
    then obtain w where w: "w < length (po_workers s)" "po_workers s ! w = Waiting" by blast
    show ?thesis
    proof (cases "po_next s < n")
      case True
      with w show ?thesis by (blast intro: pool_step.hand)
    next
      case False
      with inv have "po_next s = n" by (simp add: pool_inv_def)
      with w show ?thesis by (cases "po_closed s") (blast intro: pool_step.leave pool_step.close)+
    qed
  next
    case False
    with not_running have all: "\<forall>w < length (po_workers s). po_workers s ! w = Left"
      by (meson worker_state.exhaust)
    have "0 < length (po_workers s)" using inv \<open>0 < n\<close> by (auto simp: pool_inv_def clamp_workers_def Let_def)
    with all have "Left \<in> set (po_workers s)" by (metis nth_mem)
    then have "po_closed s" using inv by (auto simp: pool_inv_def)
    with all assms(3) show ?thesis by (blast intro: pool_step.return)
  qed
qed

text \<open>A run of \<open>k\<close> steps.\<close>

fun pool_run :: "(nat \<Rightarrow> 'r) \<Rightarrow> nat \<Rightarrow> nat \<Rightarrow> 'r pool \<Rightarrow> 'r pool \<Rightarrow> bool" where
  "pool_run f n 0 s s' \<longleftrightarrow> s' = s"
| "pool_run f n (Suc k) s s' \<longleftrightarrow> (\<exists>t. pool_step f n s t \<and> pool_run f n k t s')"

lemma pool_run_weight: "pool_run f n k s s' \<Longrightarrow> k + pool_weight n s' \<le> pool_weight n s"
proof (induction k arbitrary: s)
  case (Suc k)
  then obtain t where "pool_step f n s t" "k + pool_weight n s' \<le> pool_weight n t" by auto
  with pool_weight_step [OF this(1)] show ?case by simp
qed simp

lemma pool_run_reachable:
  "pool_run f n k s s' \<Longrightarrow> pool_reachable f workers n z s \<Longrightarrow> pool_reachable f workers n z s'"
  by (induction k arbitrary: s) (auto intro: pool_reachable.step)

text \<open>
  C22. The pool neither deadlocks nor runs for ever: a run takes at most \<open>2 n + workers + 2\<close> steps, and in
  every state in which \<open>Do\<close> has not returned some goroutine can take one; so every schedule
  leads to the return. At no time are more calls in flight than the capped number of workers.
\<close>

theorem pool_terminates:
  assumes "0 < n" and "pool_run f n k (pool_start workers n z) s"
  shows "k \<le> 2 * n + clamp_workers workers n + 2 \<and>
    (po_returned s \<or> (\<exists>s'. pool_step f n s s')) \<and>
    size (running (po_workers s)) \<le> clamp_workers workers n \<and>
    int (clamp_workers workers n) \<le> max 1 workers"
proof (intro conjI)
  have inv: "pool_inv f workers n s"
    by (rule pool_invariant [OF pool_run_reachable [OF assms(2) pool_reachable.start]])
  have "k \<le> pool_weight n (pool_start workers n z)" using pool_run_weight [OF assms(2)] by simp
  then show "k \<le> 2 * n + clamp_workers workers n + 2"
    by (simp add: pool_weight_def pool_start_def sum_list_replicate)
  show "po_returned s \<or> (\<exists>s'. pool_step f n s s')" using pool_progress [OF inv assms(1)] by blast
  have "size (running ws) \<le> length ws" for ws
  proof (induction ws)
    case (Cons a ws)
    then show ?case by (cases a) (auto simp: running_def)
  qed (simp add: running_def)
  then show "size (running (po_workers s)) \<le> clamp_workers workers n"
    using inv by (metis pool_inv_def)
  show "int (clamp_workers workers n) \<le> max 1 workers" by (auto simp: clamp_workers_def Let_def)
qed

section \<open>A run\<close>

text \<open>Two calls on two workers, the second ending first.\<close>

definition pool_at :: "nat \<Rightarrow> bool \<Rightarrow> worker_state list \<Rightarrow> nat list \<Rightarrow> nat list \<Rightarrow> bool \<Rightarrow> nat pool" where
  "pool_at i c ws out calls ret = \<lparr>po_next = i, po_closed = c, po_workers = ws, po_out = out, po_calls = calls,
     po_returned = ret\<rparr>"

definition tens :: "nat \<Rightarrow> nat" where "tens i = 10 * i + 5"

lemma overtaking_run:
  "pool_run tens 2 8 (pool_start 4 2 0) (pool_at 2 True [Left, Left] [5, 15] [1, 0] True)"
proof -
  let ?step = "pool_step tens 2"
  have s0: "pool_start 4 2 0 = pool_at 0 False [Waiting, Waiting] [0, 0] [] False"
    by (simp add: pool_start_def pool_at_def clamp_workers_def numeral_2_eq_2)
  have "?step (pool_at 0 False [Waiting, Waiting] [0, 0] [] False) (pool_at 1 False [Running 0, Waiting] [0, 0] [] False)"
    using pool_step.hand [of 0 "pool_at 0 False [Waiting, Waiting] [0, 0] [] False" 2 tens] by (simp add: pool_at_def)
  moreover have "?step (pool_at 1 False [Running 0, Waiting] [0, 0] [] False) (pool_at 2 False [Running 0, Running 1] [0, 0] [] False)"
    using pool_step.hand [of 1 "pool_at 1 False [Running 0, Waiting] [0, 0] [] False" 2 tens]
    by (simp add: pool_at_def numeral_2_eq_2)
  moreover have "?step (pool_at 2 False [Running 0, Running 1] [0, 0] [] False) (pool_at 2 False [Running 0, Waiting] [0, 15] [1] False)"
    using pool_step.finish [of 1 "pool_at 2 False [Running 0, Running 1] [0, 0] [] False" 1 tens 2] by (simp add: pool_at_def tens_def)
  moreover have "?step (pool_at 2 False [Running 0, Waiting] [0, 15] [1] False) (pool_at 2 False [Waiting, Waiting] [5, 15] [1, 0] False)"
    using pool_step.finish [of 0 "pool_at 2 False [Running 0, Waiting] [0, 15] [1] False" 0 tens 2] by (simp add: pool_at_def tens_def)
  moreover have "?step (pool_at 2 False [Waiting, Waiting] [5, 15] [1, 0] False) (pool_at 2 True [Waiting, Waiting] [5, 15] [1, 0] False)"
    using pool_step.close [of "pool_at 2 False [Waiting, Waiting] [5, 15] [1, 0] False" 2 tens] by (simp add: pool_at_def)
  moreover have "?step (pool_at 2 True [Waiting, Waiting] [5, 15] [1, 0] False) (pool_at 2 True [Left, Waiting] [5, 15] [1, 0] False)"
    using pool_step.leave [of 0 "pool_at 2 True [Waiting, Waiting] [5, 15] [1, 0] False" tens 2] by (simp add: pool_at_def)
  moreover have "?step (pool_at 2 True [Left, Waiting] [5, 15] [1, 0] False) (pool_at 2 True [Left, Left] [5, 15] [1, 0] False)"
    using pool_step.leave [of 1 "pool_at 2 True [Left, Waiting] [5, 15] [1, 0] False" tens 2] by (simp add: pool_at_def)
  moreover have "?step (pool_at 2 True [Left, Left] [5, 15] [1, 0] False) (pool_at 2 True [Left, Left] [5, 15] [1, 0] True)"
    using pool_step.return [of "pool_at 2 True [Left, Left] [5, 15] [1, 0] False" tens 2]
    by (simp add: pool_at_def less_Suc_eq numeral_2_eq_2)
  ultimately show ?thesis unfolding s0 by (simp add: numeral_eq_Suc) blast
qed

theorem pool_sequential_witness:
  "po_out (pool_at 2 True [Left, Left] [5, 15] [1, 0] True) = map tens [0..<2]"
proof -
  have "pool_reachable tens 4 2 0 (pool_at 2 True [Left, Left] [5, 15] [1, 0] True)"
    by (rule pool_run_reachable [OF overtaking_run pool_reachable.start])
  from pool_sequential [OF this] show ?thesis by (simp add: pool_at_def)
qed

theorem pool_terminates_witness: "(8 :: nat) \<le> 2 * 2 + clamp_workers 4 2 + 2 \<and> clamp_workers 4 2 = 2"
  using pool_terminates [OF _ overtaking_run] by (simp add: clamp_workers_def)

end
