(* ===== verification/Scan_Evaluate.thy ===== *)
theory Scan_Evaluate
  imports Gate Annotators Cluster_Health Service_Health Storage_Health Object_Health Probe_Failure Probe_Health Security_Posture Log_Lint Worker_Pool
begin

text \<open>
  \<open>Evaluate\<close> of \<open>internal/scan/scan.go\<close>: the reads of a scan, what it records when a read fails, the log
  excerpts it attaches, and the composition of the components over what was read. The answers of the
  API server are arguments: for each read an error or nothing, and the objects in the views the
  components have of them. The reads run in a pool, which returns them in order for every schedule
  (\<open>Worker_Pool\<close>), so the model takes them as a function.
\<close>

section \<open>Options and answers\<close>

record scan_options =
  so_namespace :: string
  so_include_cron :: bool
  so_include_restarts :: bool
  so_disk_usage :: bool
  so_disk_threshold :: rat
  so_quota_threshold :: rat
  so_certs :: bool
  so_cert_warn_days :: int
  so_security :: bool
  so_heartbeat_threshold :: duration
  so_expected_nodes :: "string list"
  so_kubelet_health :: bool
  so_control_plane :: bool
  so_dns_health :: bool
  so_dns_ratio :: rat
  so_logs :: bool
  so_webhook_threshold :: int

datatype read_error =
    Refused
  | Broken api_failure

datatype read_id =
    R_Pods | R_Deployments | R_Replica_Sets | R_Stateful_Sets | R_Daemon_Sets | R_Jobs | R_Cron_Jobs | R_Nodes
  | R_Attach | R_Mount | R_Unhealthy | R_Leases | R_Services | R_Slices | R_Ingresses | R_Secrets | R_Claims
  | R_Namespaces | R_Pdbs | R_Hpas | R_Validating | R_Mutating | R_Volumes | R_Claim_Events | R_Storage_Classes
  | R_Quotas | R_Policies | R_Failed_Create

text \<open>An event and the object it is about: its kind, its namespace and name.\<close>

type_synonym involved_event = "(string \<times> string) \<times> event"

text \<open>
  What the reads return, in the views of the components. The pods are read once; the views that hold other
  fields of them than \<open>pod\<close> has are given beside them, and so are those of the controllers.
\<close>

record scan_views =
  vw_inputs :: inputs
  vw_nodes :: "node_object list"
  vw_attach :: "involved_event list"
  vw_mount :: "involved_event list"
  vw_unhealthy :: "involved_event list"
  vw_leases :: "lease list"
  vw_services :: "service_object list"
  vw_slices :: "endpoint_slice list"
  vw_ingresses :: "ingress_object list"
  vw_tls_ingresses :: "tls_ingress list"
  vw_secrets :: "tls_secret list"
  vw_claims :: "pvc_object list"
  vw_claim_objects :: "claim_object list"
  vw_namespaces :: "namespace_object list"
  vw_pdbs :: "pdb_object list"
  vw_hpas :: "hpa_object list"
  vw_validating :: "hook list"
  vw_mutating :: "hook list"
  vw_volumes :: "volume list"
  vw_volume_objects :: "volume_object list"
  vw_claim_events :: "object_message list"
  vw_storage_classes :: "storage_class list"
  vw_quotas :: "quota_object list"
  vw_policies :: "network_policy list"
  vw_create_events :: "object_event list"
  vw_pod_labels :: "pod \<Rightarrow> labels"
  vw_ending_pods :: "ending_pod list"
  vw_sec_pods :: "sec_pod list"
  vw_sec_services :: "sec_service list"
  vw_set_owners :: "owned_object list"
  vw_job_owners :: "owned_object list"
  vw_pod_claims :: "(string \<times> string) list"
  vw_rs_objects :: "rs_object list"
  vw_deploy_objects :: "deploy_object list"
  vw_sts_objects :: "sts_object list"
  vw_ds_objects :: "ds_object list"
  vw_job_objects :: "job_object list"
  vw_controllers :: "controller list \<times> controller list \<times> (controller \<times> int) list \<times> controller list \<times> controller list"

text \<open>
  What the fan-outs of the second phase return: the previous log of a container (nothing for an empty
  one), the kubelet's summary of a node, its \<open>/healthz\<close> probe, the code and body of \<open>/readyz\<close>, and the code
  and body of a CoreDNS pod's metrics.
\<close>

record fan_out =
  fo_logs :: "string \<Rightarrow> string \<Rightarrow> string \<Rightarrow> read_error + string option"
  fo_stats :: "string \<Rightarrow> read_error + node_summary option"
  fo_kubelet :: "string \<Rightarrow> kubelet_probe"
  fo_readyz :: "int \<times> string"
  fo_dns :: "string \<Rightarrow> string \<Rightarrow> int \<times> string"

text \<open>The parameters of the components: library functions and what the environment holds.\<close>

record scan_env =
  nv_unicode :: unicode_tables
  nv_quantity :: quantity_lib
  nv_approx :: approx_lib
  nv_storage :: storage_lib
  nv_url :: "string \<Rightarrow> (string \<times> string) option"
  nv_pem :: "string \<Rightarrow> (string \<times> string \<times> string) option"
  nv_x509 :: "string \<Rightarrow> certificate option"
  nv_float :: "string \<Rightarrow> float64 option"
  nv_stuck_threshold :: duration

section \<open>Filters\<close>

definition system_namespaces :: "string list" where
  "system_namespaces = [''kube-system'', ''kube-node-lease'', ''kube-public'']"

definition non_system_pods :: "sec_pod list \<Rightarrow> sec_pod list" where
  "non_system_pods = filter (\<lambda>p. sp_namespace p \<notin> set system_namespaces)"

definition non_system_services :: "sec_service list \<Rightarrow> sec_service list" where
  "non_system_services = filter (\<lambda>s. se_namespace s \<notin> set system_namespaces)"

definition split_pod_ref :: "string \<Rightarrow> (string \<times> string) option" where
  "split_pod_ref s =
    (let i = length (takeWhile (\<lambda>c. c \<noteq> CHR ''/'') s) in
     if CHR ''/'' \<in> set s \<and> i > 0 \<and> i < length s - 1 then Some (take i s, drop (i + 1) s) else None)"

definition status_named :: "pod \<Rightarrow> string \<Rightarrow> container_status option" where
  "status_named p c =
    (case find (\<lambda>s. cs_name s = c) (p_statuses p) of
       Some s \<Rightarrow> Some s
     | None \<Rightarrow> find (\<lambda>s. cs_name s = c) (p_init_statuses p))"

definition has_previous_instance :: "pod \<Rightarrow> string \<Rightarrow> bool" where
  "has_previous_instance p c \<longleftrightarrow>
     (case status_named p c of None \<Rightarrow> False | Some s \<Rightarrow> cs_restart_count s > 0 \<or> cs_last_terminated s \<noteq> None)"

definition last_termination_reason :: "pod \<Rightarrow> string \<Rightarrow> string" where
  "last_termination_reason p c =
     (case status_named p c of None \<Rightarrow> []
      | Some s \<Rightarrow> (case cs_last_terminated s of None \<Rightarrow> [] | Some t \<Rightarrow> tm_reason t))"

definition core_dns_pods :: "(pod \<Rightarrow> labels) \<Rightarrow> pod list \<Rightarrow> pod list" where
  "core_dns_pods lab = filter (\<lambda>p. p_namespace p = ''kube-system'' \<and> mget_zero [] (lab p) ''k8s-app'' = ''kube-dns'' \<and>
     p_phase p = ''Running'')"

section \<open>Blind spots\<close>

record blind_state =
  bl_seen :: "(string, bool) gomap"
  bl_reads :: "read_failure list"

definition blind_reason :: "string \<Rightarrow> string" where
  "blind_reason action = ''forbidden: kubeagent'' @ bytes [39] @ ''s credentials may not '' @ action"

definition blind_with :: "string \<Rightarrow> string \<Rightarrow> blind_state \<Rightarrow> blind_state" where
  "blind_with resource rsn st =
    (if mget_zero False (bl_seen st) resource then st
     else st\<lparr>bl_seen := mput resource True (bl_seen st), bl_reads := bl_reads st @ [\<lparr>rf_resource = resource, rf_reason = rsn\<rparr>]\<rparr>)"

definition blind :: "string \<Rightarrow> string \<Rightarrow> blind_state \<Rightarrow> blind_state" where
  "blind resource action st =
    (if mget_zero False (bl_seen st) resource then st
     else st\<lparr>bl_seen := mput resource True (bl_seen st),
       bl_reads := bl_reads st @ [\<lparr>rf_resource = resource, rf_reason = blind_reason action\<rparr>]\<rparr>)"

definition note_read :: "(string \<Rightarrow> (string \<times> string) option) \<Rightarrow> string \<Rightarrow> read_error option \<Rightarrow> blind_state \<Rightarrow> blind_state" where
  "note_read parse resource err st =
    (case err of
       None \<Rightarrow> st
     | Some Refused \<Rightarrow> blind resource (''read '' @ resource) st
     | Some (Broken e) \<Rightarrow> st\<lparr>bl_reads := bl_reads st @ [\<lparr>rf_resource = resource, rf_reason = redact_error parse e\<rparr>]\<rparr>)"

section \<open>Events and logs\<close>

definition facts_from :: "pod list \<Rightarrow> involved_event list \<Rightarrow> pod_facts list" where
  "facts_from pods events =
    (let by_pod = fold (\<lambda>(ob, e) m. if fst ob = ''Pod'' then mput (snd ob) (mget_zero [] m (snd ob) @ [e]) m else m) events []
     in map (\<lambda>p. \<lparr>pf_pod = p, pf_events = mget_zero [] by_pod (p_namespace p @ ''/'' @ p_name p)\<rparr>) pods)"

record log_target =
  lt_finding :: nat
  lt_namespace :: string
  lt_pod :: string
  lt_container :: string

definition pod_map :: "pod list \<Rightarrow> (string, pod) gomap" where
  "pod_map pods = fold (\<lambda>p. mput (p_namespace p @ ''/'' @ p_name p) p) pods []"

definition log_step ::
    "(string, pod) gomap \<Rightarrow> nat \<times> finding \<Rightarrow> (string, nat) gomap \<times> log_target list \<Rightarrow> (string, nat) gomap \<times> log_target list" where
  "log_step pods e st =
    (let f = snd e in
     if f_container f = [] then st
     else case mget pods (f_pod f) of
       None \<Rightarrow> st
     | Some p \<Rightarrow>
       if \<not> has_previous_instance p (f_container f) then st
       else let key = f_pod f @ ''/'' @ f_container f in
         (case mget (fst st) key of
            Some i \<Rightarrow>
              (let rsn = last_termination_reason p (f_container f) in
               if rsn \<noteq> [] \<and> f_issue f = rsn then (fst st, (snd st)[i := (snd st ! i)\<lparr>lt_finding := fst e\<rparr>]) else st)
          | None \<Rightarrow>
              (case split_pod_ref (f_pod f) of
                 None \<Rightarrow> st
               | Some (ns, name) \<Rightarrow> (mput key (length (snd st)) (fst st),
                   snd st @ [\<lparr>lt_finding = fst e, lt_namespace = ns, lt_pod = name, lt_container = f_container f\<rparr>]))))"

definition log_targets :: "pod list \<Rightarrow> finding list \<Rightarrow> log_target list" where
  "log_targets pods fs = snd (fold (log_step (pod_map pods)) (enumerate 0 fs) ([], []))"

definition log_answer :: "fan_out \<Rightarrow> log_target \<Rightarrow> read_error + string option" where
  "log_answer fo t = fo_logs fo (lt_namespace t) (lt_pod t) (lt_container t)"

definition attach_log :: "unicode_tables \<Rightarrow> fan_out \<Rightarrow> log_target \<Rightarrow> finding list \<Rightarrow> finding list" where
  "attach_log u fo t fs =
    (case log_answer fo t of
       Inr (Some body) \<Rightarrow>
         (let c = classify_log u body in
          if cu_cause c \<noteq> []
          then fs[lt_finding t := (fs ! lt_finding t)\<lparr>f_log_cause := cu_cause c, f_log_excerpt := addresses (cu_excerpt c)\<rparr>]
          else fs)
     | _ \<Rightarrow> fs)"

definition attach_logs :: "unicode_tables \<Rightarrow> fan_out \<Rightarrow> log_target list \<Rightarrow> finding list \<Rightarrow> finding list" where
  "attach_logs u fo ts fs = fold (attach_log u fo) ts fs"

section \<open>The evaluation\<close>

record evaluation =
  ev_inputs :: inputs
  ev_nodes :: "node_object list"
  ev_reserve :: reserve_report
  ev_reclaim :: "pvc_reclaim list \<times> nat"
  ev_disk :: disk_report
  ev_health :: cluster_health
  ev_inventory :: inv_result
  ev_services :: "service_issue list"
  ev_ingresses :: "route_issue list"
  ev_claims :: "pvc_issue list"
  ev_security :: "sec_finding list"
  ev_kubelets :: kubelet_report
  ev_control_plane :: readyz_probe
  ev_dns :: dns_report
  ev_certs :: "certs_report option"
  ev_stuck :: "term_issue list"
  ev_pdbs :: "pdb_issue list"
  ev_hpas :: "hpa_issue list"
  ev_webhooks :: "webhook_issue list"
  ev_url_backends :: nat
  ev_quotas :: "quota_issue list"
  ev_partial :: "read_failure list"

text \<open>What the code holds after a read: the objects, or nothing if it failed.\<close>

definition seen_list :: "(read_id \<Rightarrow> read_error option) \<Rightarrow> read_id \<Rightarrow> 'a list \<Rightarrow> 'a list" where
  "seen_list errs i xs = (if errs i = None then xs else [])"

text \<open>The reads without which there is no result, in the order they are checked.\<close>

definition fatal_reads :: "read_id list" where
  "fatal_reads = [R_Pods, R_Deployments, R_Replica_Sets, R_Stateful_Sets, R_Daemon_Sets, R_Jobs, R_Cron_Jobs, R_Nodes]"

definition cluster_wide :: "scan_options \<Rightarrow> bool" where
  "cluster_wide op' \<longleftrightarrow> so_namespace op' = []"

definition refused :: "read_error option \<Rightarrow> bool" where
  "refused e \<longleftrightarrow> e = Some Refused"

definition log_error :: "fan_out \<Rightarrow> log_target \<Rightarrow> read_error option" where
  "log_error fo t = (case log_answer fo t of Inl e \<Rightarrow> Some e | Inr b \<Rightarrow> None)"

definition stats_error :: "fan_out \<Rightarrow> node_object \<Rightarrow> read_error option" where
  "stats_error fo n = (case fo_stats fo (no_name n) of Inl e \<Rightarrow> Some e | Inr s \<Rightarrow> None)"

section \<open>The report order\<close>

text \<open>Numbers 1 to 7 of the report order.\<close>

definition note_first ::
    "(string \<Rightarrow> (string \<times> string) option) \<Rightarrow> (read_id \<Rightarrow> read_error option) \<Rightarrow> fan_out \<Rightarrow> log_target list \<Rightarrow> blind_state \<Rightarrow> blind_state" where
  "note_first parse errs fo ts =
    note_read parse ''ingresses'' (errs R_Ingresses) \<circ> note_read parse ''endpointslices'' (errs R_Slices) \<circ>
    note_read parse ''services'' (errs R_Services) \<circ> note_read parse ''leases'' (errs R_Leases) \<circ>
    fold (\<lambda>t. if refused (log_error fo t) then blind ''pods/log'' ''get pods/log'' else id) ts \<circ>
    note_read parse ''events'' (errs R_Unhealthy) \<circ> note_read parse ''events'' (errs R_Mount) \<circ> note_read parse ''events'' (errs R_Attach)"

text \<open>Number 8: the Secrets, when certificates are checked.\<close>

definition note_secrets :: "(string \<Rightarrow> (string \<times> string) option) \<Rightarrow> (read_id \<Rightarrow> read_error option) \<Rightarrow> scan_options \<Rightarrow> blind_state \<Rightarrow> blind_state" where
  "note_secrets parse errs op' =
    (if \<not> so_certs op' then id
     else if refused (errs R_Secrets) then blind ''secrets'' ''list secrets''
     else note_read parse ''secrets'' (errs R_Secrets))"

text \<open>Numbers 9 to 20.\<close>

definition note_rest :: "(string \<Rightarrow> (string \<times> string) option) \<Rightarrow> (read_id \<Rightarrow> read_error option) \<Rightarrow> scan_options \<Rightarrow> blind_state \<Rightarrow> blind_state" where
  "note_rest parse errs op' =
    note_read parse ''events'' (errs R_Failed_Create) \<circ> note_read parse ''networkpolicies'' (errs R_Policies) \<circ>
    note_read parse ''resourcequotas'' (errs R_Quotas) \<circ> note_read parse ''storageclasses'' (errs R_Storage_Classes) \<circ>
    note_read parse ''events'' (errs R_Claim_Events) \<circ> note_read parse ''persistentvolumes'' (errs R_Volumes) \<circ>
    (if cluster_wide op'
     then note_read parse ''mutatingwebhookconfigurations'' (errs R_Mutating) \<circ> note_read parse ''validatingwebhookconfigurations'' (errs R_Validating)
     else id) \<circ>
    note_read parse ''horizontalpodautoscalers'' (errs R_Hpas) \<circ> note_read parse ''poddisruptionbudgets'' (errs R_Pdbs) \<circ>
    note_read parse ''namespaces'' (errs R_Namespaces) \<circ> note_read parse ''persistentvolumeclaims'' (errs R_Claims)"

text \<open>Numbers 21 to 24: the probes.\<close>

definition note_stats :: "fan_out \<Rightarrow> scan_options \<Rightarrow> node_object list \<Rightarrow> blind_state \<Rightarrow> blind_state" where
  "note_stats fo op' nodes =
    (if so_disk_usage op'
     then fold (\<lambda>n. if refused (stats_error fo n) then blind ''nodes/proxy'' ''get nodes/proxy'' else id) nodes else id)"

definition kubelets_of :: "fan_out \<Rightarrow> scan_options \<Rightarrow> node_object list \<Rightarrow> kubelet_report" where
  "kubelets_of fo op' nodes = assess_kubelets (if so_kubelet_health op' then map (\<lambda>n. fo_kubelet fo (no_name n)) nodes else [])"

definition readyz_of :: "unicode_tables \<Rightarrow> fan_out \<Rightarrow> scan_options \<Rightarrow> readyz_probe" where
  "readyz_of u fo op' =
    (if so_control_plane op' then parse_readyz u (fst (fo_readyz fo)) (snd (fo_readyz fo)) else \<lparr>rz_status = [], rz_failed = []\<rparr>)"

record dns_tally =
  dt_agg :: "(string, int) gomap"
  dt_answered :: nat
  dt_forbidden :: nat
  dt_unreachable :: nat

text \<open>The counts are added as int64.\<close>

definition tally_pod :: "(string \<Rightarrow> float64 option) \<Rightarrow> fan_out \<Rightarrow> pod \<Rightarrow> dns_tally \<Rightarrow> dns_tally" where
  "tally_pod parse fo p t =
    (let (code, body) = fo_dns fo (p_namespace p) (p_name p) in
     if code = 401 \<or> code = 403 then t\<lparr>dt_forbidden := dt_forbidden t + 1\<rparr>
     else if code = 200
     then t\<lparr>dt_answered := dt_answered t + 1, dt_agg := fold (\<lambda>(rc, n) m. mput rc (wrap64 (mget_zero 0 m rc + n)) m)
            (parse_responses parse body) (dt_agg t)\<rparr>
     else t\<lparr>dt_unreachable := dt_unreachable t + 1\<rparr>)"

definition dns_tally_of :: "(string \<Rightarrow> float64 option) \<Rightarrow> fan_out \<Rightarrow> pod list \<Rightarrow> dns_tally" where
  "dns_tally_of parse fo ps = fold (tally_pod parse fo) ps \<lparr>dt_agg = [], dt_answered = 0, dt_forbidden = 0, dt_unreachable = 0\<rparr>"

definition dns_of :: "scan_options \<Rightarrow> pod list \<Rightarrow> dns_tally \<Rightarrow> dns_report" where
  "dns_of op' ps t =
    (if \<not> so_dns_health op' then blank_dns
     else assess_dns (dt_agg t) (length ps) (dt_answered t) (dt_forbidden t) (dt_unreachable t)
       (if so_dns_ratio op' \<le> 0 \<or> so_dns_ratio op' > 1 then 5 / 100 else so_dns_ratio op') 100)"

definition note_probes ::
    "scan_options \<Rightarrow> kubelet_report \<Rightarrow> readyz_probe \<Rightarrow> dns_tally \<Rightarrow> dns_report \<Rightarrow> blind_state \<Rightarrow> blind_state" where
  "note_probes op' kr rz t dns =
    (if so_dns_health op' \<and> dz_status dns = ''unreachable''
     then blind_with ''pods/proxy'' ''kubeagent could not reach the CoreDNS :9153/metrics endpoint'' else id) \<circ>
    (if so_dns_health op' \<and> dt_forbidden t > 0 then blind ''pods/proxy'' ''get pods/proxy'' else id) \<circ>
    (if so_control_plane op' \<and> rz_status rz = ''unreachable''
     then blind_with ''/readyz'' ''kubeagent could not reach the apiserver /readyz endpoint'' else id) \<circ>
    (if so_control_plane op' \<and> rz_status rz = ''forbidden'' then blind ''/readyz'' ''get /readyz'' else id) \<circ>
    (if so_kubelet_health op' \<and> kr_forbidden kr > 0 then blind ''nodes/proxy'' ''get nodes/proxy'' else id)"

section \<open>The composition\<close>

definition disk_of :: "fan_out \<Rightarrow> scan_options \<Rightarrow> node_object list \<Rightarrow> disk_report" where
  "disk_of fo op' nodes =
    (if \<not> so_disk_usage op' then \<lparr>di_over = [], di_nodes = [], di_threshold = 0\<rparr>
     else assess_disks (List.map_filter (\<lambda>n. case fo_stats fo (no_name n) of Inl e \<Rightarrow> None | Inr s \<Rightarrow> s) nodes) (so_disk_threshold op'))"

definition pod_claims :: "(string \<times> string) list \<Rightarrow> (string, string list) gomap" where
  "pod_claims pcs = fold (\<lambda>(key, c) m. mput key (mget_zero [] m key @ [c]) m) pcs []"

definition pod_label_map :: "(pod \<Rightarrow> labels) \<Rightarrow> pod list \<Rightarrow> (string, labels) gomap" where
  "pod_label_map lab pods = fold (\<lambda>p. mput (p_namespace p @ ''/'' @ p_name p) (lab p)) pods []"

definition security_of :: "scan_options \<Rightarrow> (read_id \<Rightarrow> read_error option) \<Rightarrow> scan_views \<Rightarrow> sec_finding list" where
  "security_of op' errs v =
    (if \<not> so_security op' then []
     else let ps = vw_sec_pods v; ss = seen_list errs R_Services (vw_sec_services v) in
       assess_security (if cluster_wide op' then non_system_pods ps else ps)
         (if cluster_wide op' then non_system_services ss else ss) (vw_set_owners v) (vw_job_owners v))"

definition webhooks_of :: "scan_options \<Rightarrow> (read_id \<Rightarrow> read_error option) \<Rightarrow> scan_views \<Rightarrow> webhook_issue list \<times> nat" where
  "webhooks_of op' errs v =
    (if \<not> cluster_wide op' then ([], 0)
     else assess_webhooks (seen_list errs R_Validating (vw_validating v)) (seen_list errs R_Mutating (vw_mutating v))
       (seen_list errs R_Services (vw_services v)) (seen_list errs R_Slices (vw_slices v))
       (if so_webhook_threshold op' \<le> 0 then 15 else so_webhook_threshold op'))"

definition certs_of :: "scan_env \<Rightarrow> scan_options \<Rightarrow> (read_id \<Rightarrow> read_error option) \<Rightarrow> scan_views \<Rightarrow> time \<Rightarrow> certs_report option" where
  "certs_of nv op' errs v now =
    (if \<not> so_certs op' then None
     else Some (assess_certs (nv_unicode nv) (nv_pem nv) (nv_x509 nv) (seen_list errs R_Secrets (vw_secrets v))
       (seen_list errs R_Ingresses (vw_tls_ingresses v)) (if so_cert_warn_days op' < 0 then 30 else so_cert_warn_days op') now))"

definition quota_limit :: "scan_options \<Rightarrow> rat" where
  "quota_limit op' = (if so_quota_threshold op' \<le> 0 \<or> so_quota_threshold op' > 1 then 9 / 10 else so_quota_threshold op')"

definition evidence_of_scan ::
    "(read_id \<Rightarrow> read_error option) \<Rightarrow> scan_views \<Rightarrow> (string \<times> string) list \<Rightarrow> pvc_issue list \<Rightarrow> scan_evidence" where
  "evidence_of_scan errs v down issues =
    \<lparr>ed_sets = vw_rs_objects v, ed_create_events = seen_list errs R_Failed_Create (vw_create_events v),
     ed_deployments = vw_deploy_objects v, ed_stateful_sets = vw_sts_objects v, ed_daemon_sets = vw_ds_objects v,
     ed_pods = in_pods (vw_inputs v), ed_pod_labels = pod_label_map (vw_pod_labels v) (in_pods (vw_inputs v)),
     ed_policies = seen_list errs R_Policies (vw_policies v), ed_down = down, ed_pod_pvcs = pod_claims (vw_pod_claims v),
     ed_pvc_issues = issues\<rparr>"

text \<open>The findings of the detectors over the pods and the events that were read.\<close>

definition scan_findings :: "scan_env \<Rightarrow> (read_id \<Rightarrow> read_error option) \<Rightarrow> scan_views \<Rightarrow> time \<Rightarrow> finding list go" where
  "scan_findings nv errs v now =
    run_detectors (default_detectors (nv_unicode nv) now) (facts_from (in_pods (vw_inputs v))
      (seen_list errs R_Attach (vw_attach v) @ seen_list errs R_Mount (vw_mount v) @ seen_list errs R_Unhealthy (vw_unhealthy v)))"

definition log_targets_of :: "scan_options \<Rightarrow> pod list \<Rightarrow> finding list \<Rightarrow> log_target list" where
  "log_targets_of op' pods fs = (if so_logs op' then log_targets pods fs else [])"

definition partial_reads ::
    "scan_env \<Rightarrow> scan_options \<Rightarrow> (read_id \<Rightarrow> read_error option) \<Rightarrow> scan_views \<Rightarrow> fan_out \<Rightarrow> log_target list \<Rightarrow> read_failure list" where
  "partial_reads nv op' errs v fo ts =
    (let cdns = (if so_dns_health op' then core_dns_pods (vw_pod_labels v) (in_pods (vw_inputs v)) else []);
         t = dns_tally_of (nv_float nv) fo cdns
     in bl_reads ((note_probes op' (kubelets_of fo op' (vw_nodes v)) (readyz_of (nv_unicode nv) fo op') t (dns_of op' cdns t) \<circ>
          note_stats fo op' (vw_nodes v) \<circ> note_rest (nv_url nv) errs op' \<circ> note_secrets (nv_url nv) errs op' \<circ>
          note_first (nv_url nv) errs fo ts) \<lparr>bl_seen = [], bl_reads = []\<rparr>))"

definition assess_scan ::
    "scan_env \<Rightarrow> scan_options \<Rightarrow> (read_id \<Rightarrow> read_error option) \<Rightarrow> scan_views \<Rightarrow> fan_out \<Rightarrow> time \<Rightarrow> finding list \<Rightarrow> evaluation" where
  "assess_scan nv op' errs v fo now found =
    (let u = nv_unicode nv; inp = vw_inputs v; pods = in_pods inp; nodes = vw_nodes v;
         ts = log_targets_of op' pods found;
         fs = attach_logs u fo ts found;
         cdns = (if so_dns_health op' then core_dns_pods (vw_pod_labels v) pods else []);
         ws = annotate_jobs u (vw_job_objects v) (assemble u now inp fs);
         health = (assess_cluster u nodes \<lparr>hb_leases = seen_list errs R_Leases (vw_leases v), hb_now = now,
             hb_threshold = so_heartbeat_threshold op', hb_unavailable = (errs R_Leases \<noteq> None)\<rparr> (so_expected_nodes op') ws)
             \<lparr>ch_scope_note := namespace_scope_note (so_namespace op')\<rparr>;
         (cd, cs, cds, cj, cc) = vw_controllers v;
         bs = backends_from cd cs cds cj cc;
         svcs = seen_list errs R_Services (vw_services v); slices = seen_list errs R_Slices (vw_slices v);
         claims = seen_list errs R_Claims (vw_claims v);
         claim_issues = assess_claims u (nv_storage nv) claims (seen_list errs R_Claim_Events (vw_claim_events v))
             (seen_list errs R_Storage_Classes (vw_storage_classes v)) (seen_list errs R_Volumes (vw_volumes v)) (10 * minute) now;
         shown = prioritize ws \<lparr>op_include_restarts = so_include_restarts op', op_include_cron = so_include_cron op'\<rparr>;
         hooks = webhooks_of op' errs v
     in \<lparr>ev_inputs = inp, ev_nodes = nodes, ev_reserve = assess_reserve (nv_quantity nv) nodes,
         ev_reclaim = assess_reclaim (nv_approx nv) (seen_list errs R_Claims (vw_claim_objects v)) (seen_list errs R_Volumes (vw_volume_objects v)),
         ev_disk = disk_of fo op' nodes, ev_health = health,
         ev_inventory = shown\<lparr>ir_workloads := enrich u (evidence_of_scan errs v (ch_down_nodes health) claim_issues) now (ir_workloads shown)\<rparr>,
         ev_services = annotate_endpoint_cause (vw_pod_labels v) (assess_services svcs slices bs) svcs pods (ch_down_nodes health),
         ev_ingresses = assess_ingresses (vw_pod_labels v) (seen_list errs R_Ingresses (vw_ingresses v)) svcs slices bs pods (ch_down_nodes health),
         ev_claims = claim_issues, ev_security = security_of op' errs v, ev_kubelets = kubelets_of fo op' nodes,
         ev_control_plane = readyz_of u fo op', ev_dns = dns_of op' cdns (dns_tally_of (nv_float nv) fo cdns),
         ev_certs = certs_of nv op' errs v now,
         ev_stuck = assess_terminating u (seen_list errs R_Namespaces (vw_namespaces v)) (vw_ending_pods v) claims nodes (nv_stuck_threshold nv) now,
         ev_pdbs = assess_pdbs (seen_list errs R_Pdbs (vw_pdbs v)), ev_hpas = assess_hpas u (seen_list errs R_Hpas (vw_hpas v)),
         ev_webhooks = fst hooks, ev_url_backends = snd hooks,
         ev_quotas = assess_quotas (nv_approx nv) (seen_list errs R_Quotas (vw_quotas v)) (quota_limit op'),
         ev_partial = partial_reads nv op' errs v fo ts\<rparr>)"

text \<open>The first fatal error, or the evaluation; a detector may panic.\<close>

definition scan_evaluate ::
    "scan_env \<Rightarrow> scan_options \<Rightarrow> (read_id \<Rightarrow> read_error option) \<Rightarrow> scan_views \<Rightarrow> fan_out \<Rightarrow> time \<Rightarrow> (read_error + evaluation) go" where
  "scan_evaluate nv op' errs v fo now =
    (case find (\<lambda>i. errs i \<noteq> None) fatal_reads of
       Some i \<Rightarrow> Return (Inl (case errs i of None \<Rightarrow> Refused | Some e \<Rightarrow> e))
     | None \<Rightarrow> go_bind (scan_findings nv errs v now) (\<lambda>found. Return (Inr (assess_scan nv op' errs v fo now found))))"

text \<open>The part of the evaluation the gate and the findings read.\<close>

definition cert_ids :: "certs_report \<Rightarrow> cert_report" where
  "cert_ids r = \<lparr>cr_expired = map (\<lambda>c. (cw_namespace c, cw_name c)) (ca_expired r),
     cr_expiring = map (\<lambda>c. (cw_namespace c, cw_name c)) (ca_expiring r),
     cr_invalid = map (\<lambda>c. (ic_namespace c, ic_name c)) (ca_invalid r)\<rparr>"

definition scan_result_of :: "evaluation \<Rightarrow> scan_result" where
  "scan_result_of e =
    \<lparr>sr_inventory = ev_inventory e, sr_services = ev_services e, sr_ingresses = ev_ingresses e, sr_pvcs = ev_claims e,
     sr_stuck = ev_stuck e, sr_pdbs = ev_pdbs e, sr_hpas = ev_hpas e, sr_webhooks = ev_webhooks e, sr_quotas = ev_quotas e,
     sr_down_nodes = ch_down_nodes (ev_health e), sr_kubelets = map fst (kr_unhealthy (ev_kubelets e)),
     sr_control_plane = rz_status (ev_control_plane e), sr_dns = dz_status (ev_dns e),
     sr_certs = map_option cert_ids (ev_certs e),
     sr_disk = map (\<lambda>w. \<lparr>vu_kind = dw_kind w, vu_namespace = dw_namespace w, vu_name = dw_name w, vu_node = dw_node w\<rparr>) (di_over (ev_disk e)),
     sr_partial_reads = ev_partial e\<rparr>"

section \<open>No read fails in silence\<close>

definition named :: "blind_state \<Rightarrow> string set" where
  "named st = rf_resource ` set (bl_reads st)"

text \<open>What a step of the report does to the resources that are named, as long as the names already seen are named.\<close>

definition names :: "(blind_state \<Rightarrow> blind_state) \<Rightarrow> string set \<Rightarrow> bool" where
  "names f rs \<longleftrightarrow> (\<forall>st. {r. mget_zero False (bl_seen st) r} \<subseteq> named st \<longrightarrow>
     {r. mget_zero False (bl_seen (f st)) r} \<subseteq> named (f st) \<and> named (f st) = named st \<union> rs)"

lemma names_id [intro]: "names id {}"
  by (simp add: names_def)

lemma names_blind_with [intro]: "names (blind_with r why) {r}"
  by (auto simp: names_def blind_with_def named_def)

lemma names_blind [intro]: "names (blind r a) {r}"
  by (auto simp: names_def blind_def named_def)

lemma names_note [intro]: "names (note_read p r e) (if e = None then {} else {r})"
proof (cases e)
  case None
  then show ?thesis by (simp add: names_def note_read_def)
next
  case (Some x)
  then show ?thesis
  proof (cases x)
    case Refused
    have "note_read p r e = blind r (''read '' @ r)" by (rule ext) (simp add: note_read_def Some Refused)
    then show ?thesis using names_blind [of r] by (simp add: Some)
  next
    case (Broken f)
    then show ?thesis using Some by (auto simp: names_def note_read_def named_def)
  qed
qed

lemma names_comp [intro]: "names g b \<Longrightarrow> names f a \<Longrightarrow> names (g \<circ> f) (a \<union> b)"
  unfolding names_def by (metis Un_assoc comp_apply)

lemma names_if [intro]: "names f a \<Longrightarrow> names (if P then f else id) (if P then a else {})"
  using names_id by simp

lemma names_fold:
  assumes "\<And>x. names (f x) (g x)"
  shows "names (fold f xs) (\<Union> (g ` set xs))"
proof (induction xs)
  case Nil
  then show ?case by (simp add: names_def)
next
  case (Cons x xs)
  show ?case using names_comp [OF Cons assms [of x]] by (simp only: fold.simps list.set image_insert Union_insert)
qed

text \<open>The resource a read is reported under, and the reads beyond the fatal ones that the options ask for.\<close>

fun read_resource :: "read_id \<Rightarrow> string" where
  "read_resource R_Leases = ''leases''"
| "read_resource R_Services = ''services''"
| "read_resource R_Slices = ''endpointslices''"
| "read_resource R_Ingresses = ''ingresses''"
| "read_resource R_Secrets = ''secrets''"
| "read_resource R_Claims = ''persistentvolumeclaims''"
| "read_resource R_Namespaces = ''namespaces''"
| "read_resource R_Pdbs = ''poddisruptionbudgets''"
| "read_resource R_Hpas = ''horizontalpodautoscalers''"
| "read_resource R_Validating = ''validatingwebhookconfigurations''"
| "read_resource R_Mutating = ''mutatingwebhookconfigurations''"
| "read_resource R_Volumes = ''persistentvolumes''"
| "read_resource R_Storage_Classes = ''storageclasses''"
| "read_resource R_Quotas = ''resourcequotas''"
| "read_resource R_Policies = ''networkpolicies''"
| "read_resource _ = ''events''"

definition attempted :: "scan_options \<Rightarrow> read_id \<Rightarrow> bool" where
  "attempted op' i \<longleftrightarrow> i \<notin> set fatal_reads \<and> (i = R_Secrets \<longrightarrow> so_certs op') \<and> (i \<in> {R_Validating, R_Mutating} \<longrightarrow> cluster_wide op')"

definition failed_reads :: "scan_options \<Rightarrow> (read_id \<Rightarrow> read_error option) \<Rightarrow> read_id set" where
  "failed_reads op' errs = {i. attempted op' i \<and> errs i \<noteq> None}"

lemma names_secrets: "names (note_secrets p errs op') (if so_certs op' \<and> errs R_Secrets \<noteq> None then {''secrets''} else {})"
proof (cases "so_certs op'")
  case True
  then show ?thesis
    using names_note [of p "''secrets''" "errs R_Secrets"] names_blind [of "''secrets''" "''list secrets''"]
    by (auto simp: note_secrets_def refused_def)
qed (simp add: note_secrets_def names_id)

definition opt_name :: "bool \<Rightarrow> string \<Rightarrow> string set" where
  "opt_name b r = (if b then {r} else {})"

lemma names_read: "names (note_read p r e) (opt_name (e \<noteq> None) r)"
  using names_note [of p r e] by (cases e) (simp_all add: opt_name_def)

lemma names_when: "names f {r} \<Longrightarrow> names (if P then f else id) (opt_name P r)"
  using names_if [of f "{r}" P] by (simp add: opt_name_def)

lemma names_some: "names (fold (\<lambda>x. if P x then blind r a else id) xs) (opt_name (list_ex P xs) r)"
proof -
  have "names (fold (\<lambda>x. if P x then blind r a else id) xs) (\<Union> ((\<lambda>x. opt_name (P x) r) ` set xs))"
    by (intro names_fold names_when names_blind)
  moreover have "\<Union> ((\<lambda>x. opt_name (P x) r) ` set xs) = opt_name (list_ex P xs) r"
    by (auto simp: opt_name_def list_ex_iff split: if_splits)
  ultimately show ?thesis by simp
qed

lemma names_named: "names f rs \<Longrightarrow> rf_resource ` set (bl_reads (f \<lparr>bl_seen = [], bl_reads = []\<rparr>)) = rs"
  by (simp add: names_def named_def mget_zero_def)

lemma failing_names:
  "read_resource ` {i \<in> set is. errs i \<noteq> None} = \<Union> (set (map (\<lambda>i. opt_name (errs i \<noteq> None) (read_resource i)) is))"
  by (auto simp: opt_name_def)

definition first_reads :: "read_id list" where
  "first_reads = [R_Attach, R_Mount, R_Unhealthy, R_Leases, R_Services, R_Slices, R_Ingresses]"

definition rest_reads :: "read_id list" where
  "rest_reads = [R_Claims, R_Namespaces, R_Pdbs, R_Hpas, R_Volumes, R_Claim_Events, R_Storage_Classes, R_Quotas, R_Policies, R_Failed_Create]"

lemma names_first:
  "names (note_first p errs fo ts)
    (read_resource ` {i \<in> set first_reads. errs i \<noteq> None} \<union> opt_name (list_ex (\<lambda>t. refused (log_error fo t)) ts) ''pods/log'')"
proof -
  have "names (note_first p errs fo ts) (((((((opt_name (errs R_Attach \<noteq> None) ''events'' \<union> opt_name (errs R_Mount \<noteq> None) ''events'') \<union>
      opt_name (errs R_Unhealthy \<noteq> None) ''events'') \<union> opt_name (list_ex (\<lambda>t. refused (log_error fo t)) ts) ''pods/log'') \<union>
      opt_name (errs R_Leases \<noteq> None) ''leases'') \<union> opt_name (errs R_Services \<noteq> None) ''services'') \<union>
      opt_name (errs R_Slices \<noteq> None) ''endpointslices'') \<union> opt_name (errs R_Ingresses \<noteq> None) ''ingresses'')"
    unfolding note_first_def comp_assoc by (intro names_comp names_read names_some)
  then show ?thesis unfolding failing_names first_reads_def by (simp only: list.map list.set Union_insert Union_empty read_resource.simps Un_ac Un_empty_right Un_empty_left)
qed

lemma names_rest:
  "names (note_rest p errs op')
    (read_resource ` {i \<in> set rest_reads. errs i \<noteq> None} \<union>
     (if cluster_wide op' then read_resource ` {i \<in> set [R_Validating, R_Mutating]. errs i \<noteq> None} else {}))"
proof -
  let ?w = "if cluster_wide op'
     then note_read p ''mutatingwebhookconfigurations'' (errs R_Mutating) \<circ> note_read p ''validatingwebhookconfigurations'' (errs R_Validating)
     else id"
  have w: "names ?w (if cluster_wide op' then opt_name (errs R_Validating \<noteq> None) ''validatingwebhookconfigurations'' \<union>
      opt_name (errs R_Mutating \<noteq> None) ''mutatingwebhookconfigurations'' else {})"
    by (intro names_if names_comp names_read)
  have "names (note_rest p errs op') ((((((((((opt_name (errs R_Claims \<noteq> None) ''persistentvolumeclaims'' \<union> opt_name (errs R_Namespaces \<noteq> None) ''namespaces'') \<union>
      opt_name (errs R_Pdbs \<noteq> None) ''poddisruptionbudgets'') \<union> opt_name (errs R_Hpas \<noteq> None) ''horizontalpodautoscalers'') \<union>
      (if cluster_wide op' then opt_name (errs R_Validating \<noteq> None) ''validatingwebhookconfigurations'' \<union>
      opt_name (errs R_Mutating \<noteq> None) ''mutatingwebhookconfigurations'' else {})) \<union>
      opt_name (errs R_Volumes \<noteq> None) ''persistentvolumes'') \<union> opt_name (errs R_Claim_Events \<noteq> None) ''events'') \<union>
      opt_name (errs R_Storage_Classes \<noteq> None) ''storageclasses'') \<union> opt_name (errs R_Quotas \<noteq> None) ''resourcequotas'') \<union>
      opt_name (errs R_Policies \<noteq> None) ''networkpolicies'') \<union> opt_name (errs R_Failed_Create \<noteq> None) ''events'')"
    unfolding note_rest_def comp_assoc by (intro names_comp names_read w)
  then show ?thesis unfolding failing_names rest_reads_def
    by (simp only: list.map list.set Union_insert Union_empty read_resource.simps Un_ac Un_empty_right Un_empty_left)
qed

lemma names_stats:
  "names (note_stats fo op' nodes) (opt_name (so_disk_usage op' \<and> list_ex (\<lambda>n. refused (stats_error fo n)) nodes) ''nodes/proxy'')"
  using names_some [of "\<lambda>n. refused (stats_error fo n)" "''nodes/proxy''" "''get nodes/proxy''" nodes]
  by (cases "so_disk_usage op'") (simp_all add: note_stats_def opt_name_def names_id)

lemma names_probes:
  "names (note_probes op' kr rz t dns)
    (opt_name (so_kubelet_health op' \<and> kr_forbidden kr > 0) ''nodes/proxy'' \<union>
     opt_name (so_control_plane op' \<and> rz_status rz \<in> {''forbidden'', ''unreachable''}) ''/readyz'' \<union>
     opt_name (so_dns_health op' \<and> (dt_forbidden t > 0 \<or> dz_status dns = ''unreachable'')) ''pods/proxy'')"
proof -
  have "names (note_probes op' kr rz t dns)
    ((((opt_name (so_kubelet_health op' \<and> kr_forbidden kr > 0) ''nodes/proxy'' \<union> opt_name (so_control_plane op' \<and> rz_status rz = ''forbidden'') ''/readyz'') \<union>
     opt_name (so_control_plane op' \<and> rz_status rz = ''unreachable'') ''/readyz'') \<union> opt_name (so_dns_health op' \<and> dt_forbidden t > 0) ''pods/proxy'') \<union>
     opt_name (so_dns_health op' \<and> dz_status dns = ''unreachable'') ''pods/proxy'')"
    unfolding note_probes_def comp_assoc by (intro names_comp names_when names_blind names_blind_with)
  moreover have "opt_name (a \<and> b) x \<union> opt_name (a \<and> c) x = opt_name (a \<and> (b \<or> c)) x" for a b c x by (simp add: opt_name_def)
  ultimately show ?thesis by (simp only: Un_assoc insert_iff empty_iff simp_thms)
qed

lemma attempted_reads:
  "{i. attempted op' i} = set first_reads \<union> (if so_certs op' then {R_Secrets} else {}) \<union> set rest_reads \<union>
     (if cluster_wide op' then {R_Validating, R_Mutating} else {})"
proof -
  have "i \<in> {i. attempted op' i} \<longleftrightarrow> i \<in> set first_reads \<union> (if so_certs op' then {R_Secrets} else {}) \<union> set rest_reads \<union>
     (if cluster_wide op' then {R_Validating, R_Mutating} else {})" for i
    by (cases i) (simp_all add: attempted_def first_reads_def rest_reads_def fatal_reads_def)
  then show ?thesis by blast
qed

lemma partial_reads_named:
  "rf_resource ` set (partial_reads nv op' errs v fo ts) =
     read_resource ` failed_reads op' errs \<union>
     opt_name (list_ex (\<lambda>t. refused (log_error fo t)) ts) ''pods/log'' \<union>
     opt_name (so_disk_usage op' \<and> list_ex (\<lambda>n. refused (stats_error fo n)) (vw_nodes v) \<or>
       so_kubelet_health op' \<and> kr_forbidden (kubelets_of fo op' (vw_nodes v)) > 0) ''nodes/proxy'' \<union>
     opt_name (so_control_plane op' \<and> rz_status (readyz_of (nv_unicode nv) fo op') \<in> {''forbidden'', ''unreachable''}) ''/readyz'' \<union>
     (let cdns = core_dns_pods (vw_pod_labels v) (in_pods (vw_inputs v)); t = dns_tally_of (nv_float nv) fo cdns
      in opt_name (so_dns_health op' \<and> (dt_forbidden t > 0 \<or> dz_status (dns_of op' cdns t) = ''unreachable'')) ''pods/proxy'')"
proof -
  define cdns where "cdns = (if so_dns_health op' then core_dns_pods (vw_pod_labels v) (in_pods (vw_inputs v)) else [])"
  define t where "t = dns_tally_of (nv_float nv) fo cdns"
  let ?f = "read_resource ` {i \<in> set first_reads. errs i \<noteq> None}"
  let ?s = "if so_certs op' \<and> errs R_Secrets \<noteq> None then {''secrets''} else {}"
  let ?r = "read_resource ` {i \<in> set rest_reads. errs i \<noteq> None} \<union>
     (if cluster_wide op' then read_resource ` {i \<in> set [R_Validating, R_Mutating]. errs i \<noteq> None} else {})"
  have main: "rf_resource ` set (partial_reads nv op' errs v fo ts) =
     ((((?f \<union> opt_name (list_ex (\<lambda>t. refused (log_error fo t)) ts) ''pods/log'') \<union> ?s) \<union> ?r) \<union>
     opt_name (so_disk_usage op' \<and> list_ex (\<lambda>n. refused (stats_error fo n)) (vw_nodes v)) ''nodes/proxy'') \<union>
     (opt_name (so_kubelet_health op' \<and> kr_forbidden (kubelets_of fo op' (vw_nodes v)) > 0) ''nodes/proxy'' \<union>
     opt_name (so_control_plane op' \<and> rz_status (readyz_of (nv_unicode nv) fo op') \<in> {''forbidden'', ''unreachable''}) ''/readyz'' \<union>
     opt_name (so_dns_health op' \<and> (dt_forbidden t > 0 \<or> dz_status (dns_of op' cdns t) = ''unreachable'')) ''pods/proxy'')"
    unfolding partial_reads_def Let_def cdns_def [symmetric] t_def [symmetric] comp_assoc
    by (intro names_named names_comp names_first names_secrets names_rest names_stats names_probes)
  have reads: "?f \<union> ?s \<union> ?r = read_resource ` failed_reads op' errs"
  proof -
    have "{i \<in> {R_Secrets}. errs i \<noteq> None} = (if errs R_Secrets \<noteq> None then {R_Secrets} else {})" by auto
    then have s: "?s = read_resource ` {i \<in> if so_certs op' then {R_Secrets} else {}. errs i \<noteq> None}" by simp
    have w: "(if cluster_wide op' then read_resource ` {i \<in> set [R_Validating, R_Mutating]. errs i \<noteq> None} else {}) =
        read_resource ` {i \<in> if cluster_wide op' then {R_Validating, R_Mutating} else {}. errs i \<noteq> None}" by simp
    have "failed_reads op' errs = {i \<in> set first_reads. errs i \<noteq> None} \<union> {i \<in> if so_certs op' then {R_Secrets} else {}. errs i \<noteq> None} \<union>
        ({i \<in> set rest_reads. errs i \<noteq> None} \<union> {i \<in> if cluster_wide op' then {R_Validating, R_Mutating} else {}. errs i \<noteq> None})"
      unfolding failed_reads_def Collect_conj_eq attempted_reads by blast
    then show ?thesis unfolding s w by (simp only: image_Un)
  qed
  have dns: "opt_name (so_dns_health op' \<and> (dt_forbidden t > 0 \<or> dz_status (dns_of op' cdns t) = ''unreachable'')) ''pods/proxy'' =
     (let cdns = core_dns_pods (vw_pod_labels v) (in_pods (vw_inputs v)); t = dns_tally_of (nv_float nv) fo cdns
      in opt_name (so_dns_health op' \<and> (dt_forbidden t > 0 \<or> dz_status (dns_of op' cdns t) = ''unreachable'')) ''pods/proxy'')"
    by (cases "so_dns_health op'") (simp_all add: t_def cdns_def opt_name_def)
  have either: "opt_name (a \<or> b) x = opt_name a x \<union> opt_name b x" for a b x by (simp add: opt_name_def)
  show ?thesis unfolding main dns [symmetric] reads [symmetric] either
    by (simp only: Un_ac)
qed

text \<open>
  C14. No read fails in silence, and none is made up. The resources named in the partial reads are
  exactly those of the optional reads that failed, for whatever reason, among the reads the options
  ask for, and those of the probes that were refused: pod logs, the kubelets, \<open>/readyz\<close> and the CoreDNS
  metrics, the last two also when they could not be reached.
\<close>

theorem blind_spots_complete:
  "rf_resource ` set (partial_reads nv op' errs v fo ts) =
     read_resource ` failed_reads op' errs \<union>
     opt_name (list_ex (\<lambda>t. refused (log_error fo t)) ts) ''pods/log'' \<union>
     opt_name (so_disk_usage op' \<and> list_ex (\<lambda>n. refused (stats_error fo n)) (vw_nodes v) \<or>
       so_kubelet_health op' \<and> kr_forbidden (kubelets_of fo op' (vw_nodes v)) > 0) ''nodes/proxy'' \<union>
     opt_name (so_control_plane op' \<and> rz_status (readyz_of (nv_unicode nv) fo op') \<in> {''forbidden'', ''unreachable''}) ''/readyz'' \<union>
     (let cdns = core_dns_pods (vw_pod_labels v) (in_pods (vw_inputs v)); t = dns_tally_of (nv_float nv) fo cdns
      in opt_name (so_dns_health op' \<and> (dt_forbidden t > 0 \<or> dz_status (dns_of op' cdns t) = ''unreachable'')) ''pods/proxy'')"
  by (rule partial_reads_named)

lemma assess_scan_reads:
  "ev_partial (assess_scan nv op' errs v fo now found) = partial_reads nv op' errs v fo (log_targets_of op' (in_pods (vw_inputs v)) found)"
  "ev_kubelets (assess_scan nv op' errs v fo now found) = kubelets_of fo op' (vw_nodes v)"
  "ev_control_plane (assess_scan nv op' errs v fo now found) = readyz_of (nv_unicode nv) fo op'"
  by (simp_all only: assess_scan_def Let_def split_def evaluation.select_convs)


definition empty_views :: scan_views where
  "empty_views = \<lparr>vw_inputs = \<lparr>in_pods = [], in_deployments = [], in_replica_sets = [], in_stateful_sets = [], in_daemon_sets = [],
       in_jobs = [], in_cron_jobs = []\<rparr>, vw_nodes = [], vw_attach = [], vw_mount = [], vw_unhealthy = [], vw_leases = [],
     vw_services = [], vw_slices = [], vw_ingresses = [], vw_tls_ingresses = [], vw_secrets = [], vw_claims = [],
     vw_claim_objects = [], vw_namespaces = [], vw_pdbs = [], vw_hpas = [], vw_validating = [], vw_mutating = [], vw_volumes = [],
     vw_volume_objects = [], vw_claim_events = [], vw_storage_classes = [], vw_quotas = [], vw_policies = [], vw_create_events = [],
     vw_pod_labels = (\<lambda>_. []), vw_ending_pods = [], vw_sec_pods = [], vw_sec_services = [], vw_set_owners = [], vw_job_owners = [],
     vw_pod_claims = [], vw_rs_objects = [], vw_deploy_objects = [], vw_sts_objects = [], vw_ds_objects = [], vw_job_objects = [],
     vw_controllers = ([], [], [], [], [])\<rparr>"

definition plain_scan :: scan_options where
  "plain_scan = \<lparr>so_namespace = [], so_include_cron = False, so_include_restarts = False, so_disk_usage = False, so_disk_threshold = 0,
     so_quota_threshold = 0, so_certs = True, so_cert_warn_days = 30, so_security = False, so_heartbeat_threshold = 0,
     so_expected_nodes = [], so_kubelet_health = False, so_control_plane = False, so_dns_health = False, so_dns_ratio = 0,
     so_logs = False, so_webhook_threshold = 0\<rparr>"

definition plain_env :: scan_env where
  "plain_env = \<lparr>nv_unicode = \<lparr>tbl_Cf = (\<lambda>_. False), tbl_M = (\<lambda>_. False), tbl_lower = id\<rparr>,
     nv_quantity = \<lparr>q_milli = (\<lambda>_. 0), q_value = (\<lambda>_. 0), q_zero = (\<lambda>_. True), q_sign = (\<lambda>_. 0), q_add = (\<lambda>a b. a), q_sub = (\<lambda>a b. a)\<rparr>,
     nv_approx = \<lparr>ap_float = (\<lambda>_. 0), ap_string = (\<lambda>s. s)\<rparr>, nv_storage = \<lparr>st_cmp = (\<lambda>_ _. 0), st_show = (\<lambda>s. s)\<rparr>,
     nv_url = (\<lambda>_. None), nv_pem = (\<lambda>_. None), nv_x509 = (\<lambda>_. None), nv_float = (\<lambda>_. None), nv_stuck_threshold = 600\<rparr>"

definition no_fan_out :: fan_out where
  "no_fan_out = \<lparr>fo_logs = (\<lambda>_ _ _. Inr None), fo_stats = (\<lambda>_. Inr None), fo_kubelet = (\<lambda>n. \<lparr>kp_node = n, kp_status = ''ok'', kp_detail = []\<rparr>),
     fo_readyz = (200, []), fo_dns = (\<lambda>_ _. (200, []))\<rparr>"

text \<open>Nothing was read, so nothing is found.\<close>

lemma nothing_assembled:
  "assemble u now \<lparr>in_pods = [], in_deployments = [], in_replica_sets = [], in_stateful_sets = [], in_daemon_sets = [],
       in_jobs = [], in_cron_jobs = []\<rparr> [] = []"
  by (simp add: assemble_def assembled_def seeded_def sort_workloads_def)

lemma nothing_passes [simp]:
  "annotate_jobs u js [] = []" "ir_workloads (prioritize [] op') = []" "enrich u ed now [] = []"
  by (simp_all add: annotate_jobs_def prioritize_def enrich_def add_findings_def annotate_stuck_def annotate_create_def
      annotate_policies_def annotate_rollout_def attribute_def annotate_nodes_def annotate_pvcs_def annotate_registry_def annotate_confidence_def Let_def)

lemma nothing_wrong [simp]:
  "assess_services [] sl bs = []" "annotate_endpoint_cause lab [] svcs pods down = []" "assess_ingresses lab [] svcs sl bs pods down = []"
  "assess_claims u l [] es scs vs th now = []" "assess_pdbs [] = []" "assess_hpas u [] = []" "fst (assess_webhooks [] [] svcs sl limit) = []"
  "assess_quotas ap [] q = []" "seen_list errs i [] = []"
  by (simp_all add: assess_services_def annotate_endpoint_cause_def assess_ingresses_def assess_claims_def assess_pdbs_def assess_hpas_def
      assess_webhooks_def assess_quotas_def seen_list_def)

lemma nothing_ends [simp]: "assess_terminating u [] [] [] nodes th now = []"
  by (simp add: assess_terminating_def Let_def)

lemma flatten_nothing: "flatten (scan_result_of (assess_scan nv plain_scan (\<lambda>_. None) empty_views fo now [])) = []"
  by (simp add: flatten_def scan_result_of_def assess_scan_def empty_views_def plain_scan_def Let_def nothing_assembled
      log_targets_of_def attach_logs_def webhooks_of_def cluster_wide_def sort_findings_def)

definition strict_gate :: gate_options where
  "strict_gate = \<lparr>go_fail_on = Warning, go_scope_kind = [], go_scope_name = [], go_scope_namespace = [], go_allow_partial = [],
     go_timed_out = False, go_timeout_detail = [], go_violations = [], go_not_evaluated = [], go_baseline = None\<rparr>"


section \<open>One log per container\<close>

text \<open>The key under which a target is remembered.\<close>

definition target_key :: "log_target \<Rightarrow> string" where
  "target_key t = lt_namespace t @ ''/'' @ lt_pod t @ ''/'' @ lt_container t"

definition loggable :: "(string, pod) gomap \<Rightarrow> finding \<Rightarrow> bool" where
  "loggable pods f \<longleftrightarrow> f_container f \<noteq> [] \<and> split_pod_ref (f_pod f) \<noteq> None \<and>
     (\<exists>p. mget pods (f_pod f) = Some p \<and> has_previous_instance p (f_container f))"

lemma length_takeWhile_lt: "d \<in> set s \<Longrightarrow> length (takeWhile (\<lambda>c. c \<noteq> d) s) < length s"
  by (induction s) auto

lemma split_named: "split_pod_ref s = Some (ns, name) \<Longrightarrow> s = ns @ ''/'' @ name"
proof -
  assume a: "split_pod_ref s = Some (ns, name)"
  define i where "i = length (takeWhile (\<lambda>c. c \<noteq> CHR ''/'') s)"
  from a have m: "CHR ''/'' \<in> set s" and n: "ns = take i s" "name = drop (i + 1) s"
    by (auto simp: split_pod_ref_def Let_def i_def split: if_splits)
  have lt: "i < length s" using m unfolding i_def by (rule length_takeWhile_lt)
  have "s ! i = CHR ''/''" using nth_length_takeWhile [of "\<lambda>c. c \<noteq> CHR ''/''" s] lt by (simp add: i_def)
  with lt n show ?thesis using id_take_nth_drop [of i s] by simp
qed

text \<open>What the loop has built after some of the findings.\<close>

definition log_inv :: "(string, pod) gomap \<Rightarrow> finding list \<Rightarrow> nat \<Rightarrow> (string, nat) gomap \<times> log_target list \<Rightarrow> bool" where
  "log_inv pods fs n st \<longleftrightarrow>
     (\<forall>k i. mget (fst st) k = Some i \<longrightarrow> i < length (snd st) \<and> target_key (snd st ! i) = k) \<and>
     (\<forall>i < length (snd st). mget (fst st) (target_key (snd st ! i)) = Some i) \<and>
     (\<forall>t \<in> set (snd st). lt_finding t < n \<and> loggable pods (fs ! lt_finding t) \<and>
        f_pod (fs ! lt_finding t) = lt_namespace t @ ''/'' @ lt_pod t \<and> f_container (fs ! lt_finding t) = lt_container t) \<and>
     (\<forall>j < n. loggable pods (fs ! j) \<longrightarrow> mget (fst st) (f_pod (fs ! j) @ ''/'' @ f_container (fs ! j)) \<noteq> None)"

lemma log_inv_skip: "log_inv pods fs n st \<Longrightarrow> \<not> loggable pods (fs ! n) \<Longrightarrow> log_inv pods fs (Suc n) st"
  unfolding log_inv_def by (auto simp: less_Suc_eq)

lemma last_slash: "CHR ''/'' \<notin> set c \<Longrightarrow> CHR ''/'' \<notin> set d \<Longrightarrow> a @ ''/'' @ c = b @ ''/'' @ d \<Longrightarrow> a = b \<and> c = d"
proof -
  assume n: "CHR ''/'' \<notin> set c" "CHR ''/'' \<notin> set d" and e: "a @ ''/'' @ c = b @ ''/'' @ d"
  from e have "rev (a @ ''/'' @ c) = rev (b @ ''/'' @ d)" by (rule arg_cong)
  then have "rev c @ CHR ''/'' # rev a = rev d @ CHR ''/'' # rev b" by simp
  with n show ?thesis using append_sep_eq [of "CHR ''/''" "rev c" "rev d" "rev a" "rev b"] by simp
qed

text \<open>A target that is remembered under the key of a finding is a target of its pod and container.\<close>

lemma log_inv_key:
  assumes inv: "log_inv pods fs n st" and c: "\<And>j. j \<le> n \<Longrightarrow> CHR ''/'' \<notin> set (f_container (fs ! j))"
    and k: "mget (fst st) (f_pod (fs ! n) @ ''/'' @ f_container (fs ! n)) = Some i"
  shows "i < length (snd st) \<and> f_pod (fs ! n) = lt_namespace (snd st ! i) @ ''/'' @ lt_pod (snd st ! i) \<and>
    f_container (fs ! n) = lt_container (snd st ! i) \<and> split_pod_ref (f_pod (fs ! n)) \<noteq> None"
proof -
  from inv k have i: "i < length (snd st)" "target_key (snd st ! i) = f_pod (fs ! n) @ ''/'' @ f_container (fs ! n)"
    unfolding log_inv_def by blast+
  let ?t = "snd st ! i"
  from i(1) inv have t: "lt_finding ?t < n" "loggable pods (fs ! lt_finding ?t)"
    "f_pod (fs ! lt_finding ?t) = lt_namespace ?t @ ''/'' @ lt_pod ?t" "f_container (fs ! lt_finding ?t) = lt_container ?t"
    unfolding log_inv_def by (meson nth_mem)+
  have "CHR ''/'' \<notin> set (lt_container ?t)" using c [of "lt_finding ?t"] t by simp
  with i(2) c [of n] have e: "lt_namespace ?t @ ''/'' @ lt_pod ?t = f_pod (fs ! n) \<and> lt_container ?t = f_container (fs ! n)"
    by (intro last_slash) (simp_all add: target_key_def)
  moreover have "split_pod_ref (f_pod (fs ! lt_finding ?t)) \<noteq> None" using t(2) by (simp add: loggable_def)
  ultimately show ?thesis using i(1) t(3) by simp
qed

lemma log_inv_step:
  assumes inv: "log_inv pods fs n st" and c: "\<And>j. j \<le> n \<Longrightarrow> CHR ''/'' \<notin> set (f_container (fs ! j))"
  shows "log_inv pods fs (Suc n) (log_step pods (n, fs ! n) st)"
proof (cases "loggable pods (fs ! n)")
  case False
  let ?f = "fs ! n" and ?key = "f_pod (fs ! n) @ ''/'' @ f_container (fs ! n)"
  have "log_step pods (n, ?f) st = st"
  proof (cases "f_container ?f = [] \<or> (\<forall>p. mget pods (f_pod ?f) = Some p \<longrightarrow> \<not> has_previous_instance p (f_container ?f))")
    case True
    then show ?thesis by (cases "mget pods (f_pod ?f)") (auto simp: log_step_def Let_def)
  next
    case no: False
    with False have sp: "split_pod_ref (f_pod ?f) = None"
      by (cases "split_pod_ref (f_pod ?f)") (auto simp: loggable_def)
    moreover from log_inv_key [OF inv c] sp have "mget (fst st) ?key = None" by (cases "mget (fst st) ?key") auto
    ultimately show ?thesis by (auto simp: log_step_def Let_def split: option.splits)
  qed
  with False inv show ?thesis by (simp add: log_inv_skip)
next
  case True
  let ?f = "fs ! n" and ?key = "f_pod (fs ! n) @ ''/'' @ f_container (fs ! n)"
  from True obtain p ns name where p: "f_container ?f \<noteq> []" "mget pods (f_pod ?f) = Some p" "has_previous_instance p (f_container ?f)"
    and sp: "split_pod_ref (f_pod ?f) = Some (ns, name)" by (auto simp: loggable_def)
  show ?thesis
  proof (cases "mget (fst st) ?key")
    case None
    let ?t = "\<lparr>lt_finding = n, lt_namespace = ns, lt_pod = name, lt_container = f_container ?f\<rparr>"
    have e: "log_step pods (n, ?f) st = (mput ?key (length (snd st)) (fst st), snd st @ [?t])"
      using p sp None by (simp add: log_step_def Let_def)
    have k: "target_key ?t = ?key" using split_named [OF sp] by (simp add: target_key_def)
    let ?ts = "snd st @ [?t]" and ?m = "mput ?key (length (snd st)) (fst st)"
    from inv have i1: "mget (fst st) k' = Some i \<Longrightarrow> i < length (snd st) \<and> target_key (snd st ! i) = k'"
      and i2: "i < length (snd st) \<Longrightarrow> mget (fst st) (target_key (snd st ! i)) = Some i"
      and i3: "t \<in> set (snd st) \<Longrightarrow> lt_finding t < n \<and> loggable pods (fs ! lt_finding t) \<and>
        f_pod (fs ! lt_finding t) = lt_namespace t @ ''/'' @ lt_pod t \<and> f_container (fs ! lt_finding t) = lt_container t"
      and i4: "j < n \<Longrightarrow> loggable pods (fs ! j) \<Longrightarrow> mget (fst st) (f_pod (fs ! j) @ ''/'' @ f_container (fs ! j)) \<noteq> None"
      for k' i t j unfolding log_inv_def by blast+
    have "i < length ?ts \<and> target_key (?ts ! i) = k'" if "mget ?m k' = Some i" for k' i
      using that i1 [of k' i] k by (cases "k' = ?key") (simp_all add: nth_append)
    moreover have "mget ?m (target_key (?ts ! i)) = Some i" if "i < length ?ts" for i
    proof (cases "i < length (snd st)")
      case True
      with i2 [OF True] None show ?thesis by (auto simp: nth_append)
    next
      case False
      with that have "i = length (snd st)" by simp
      then show ?thesis by (simp add: k)
    qed
    moreover have "lt_finding t < Suc n \<and> loggable pods (fs ! lt_finding t) \<and>
        f_pod (fs ! lt_finding t) = lt_namespace t @ ''/'' @ lt_pod t \<and> f_container (fs ! lt_finding t) = lt_container t"
      if "t \<in> set ?ts" for t
    proof (cases "t \<in> set (snd st)")
      case True
      from i3 [OF this] show ?thesis by simp
    next
      case False
      with that have "t = ?t" by simp
      with True split_named [OF sp] show ?thesis by simp
    qed
    moreover have "mget ?m (f_pod (fs ! j) @ ''/'' @ f_container (fs ! j)) \<noteq> None" if "j < Suc n" "loggable pods (fs ! j)" for j
    proof (cases "j = n")
      case True
      then show ?thesis by simp
    next
      case False
      with that have "j < n" by simp
      from i4 [OF this that(2)] show ?thesis by simp
    qed
    ultimately show ?thesis unfolding e log_inv_def fst_conv snd_conv by blast
  next
    case (Some i)
    note key = log_inv_key [OF inv c Some]
    let ?u = "(snd st)[i := (snd st ! i)\<lparr>lt_finding := n\<rparr>]"
    have tk: "j < length (snd st) \<Longrightarrow> target_key (?u ! j) = target_key (snd st ! j)" for j
      by (cases "j = i") (simp_all add: target_key_def)
    have kept: "log_inv pods fs (Suc n) st"
      using inv Some unfolding log_inv_def by (auto simp: less_Suc_eq)
    have "log_inv pods fs (Suc n) (fst st, ?u)"
      using kept tk key True unfolding log_inv_def fst_conv snd_conv length_list_update
      by (auto simp: set_update_subset_insert dest!: set_update_subset_insert [THEN subsetD])
    moreover have "log_step pods (n, ?f) st \<in> {st, (fst st, ?u)}"
      using p Some by (simp add: log_step_def Let_def)
    ultimately show ?thesis using kept by auto
  qed
qed

lemma log_inv_all:
  assumes "list_all (\<lambda>f. CHR ''/'' \<notin> set (f_container f)) fs"
  shows "log_inv pods fs (length fs) (fold (log_step pods) (enumerate 0 fs) ([], []))"
proof -
  have "n \<le> length fs \<Longrightarrow> log_inv pods fs n (fold (log_step pods) (enumerate 0 (take n fs)) ([], []))" for n
  proof (induction n)
    case 0
    then show ?case by (simp add: log_inv_def)
  next
    case (Suc n)
    then have "take (Suc n) fs = take n fs @ [fs ! n]" by (simp add: take_Suc_conv_app_nth)
    then have "enumerate 0 (take (Suc n) fs) = enumerate 0 (take n fs) @ [(n, fs ! n)]"
      using Suc.prems by (simp add: enumerate_append_eq)
    with Suc log_inv_step [of pods fs n] assms show ?case by (simp add: list_all_length)
  qed
  from this [of "length fs"] show ?thesis by simp
qed

text \<open>Attaching a log changes nothing but the cause and the excerpt of its finding.\<close>

definition without_log :: "finding \<Rightarrow> finding" where
  "without_log f = f\<lparr>f_log_cause := [], f_log_excerpt := []\<rparr>"

lemma attach_log_nth:
  "length (attach_log u fo t fs) = length fs \<and> map without_log (attach_log u fo t fs) = map without_log fs \<and>
   (\<forall>i. i \<noteq> lt_finding t \<longrightarrow> attach_log u fo t fs ! i = fs ! i)"
proof -
  have "map without_log (fs[j := (fs ! j)\<lparr>f_log_cause := a, f_log_excerpt := b\<rparr>]) = map without_log fs" for j a b
  proof (cases "j < length fs")
    case True
    have "without_log ((fs ! j)\<lparr>f_log_cause := a, f_log_excerpt := b\<rparr>) = map without_log fs ! j" using True by (simp add: without_log_def)
    then show ?thesis using True by (simp only: map_update list_update_id)
  next
    case False
    then show ?thesis by (simp add: list_update_beyond)
  qed
  then show ?thesis by (auto simp: attach_log_def Let_def split: sum.splits option.splits)
qed

lemma attach_logs_nth:
  "length (attach_logs u fo ts fs) = length fs \<and> map without_log (attach_logs u fo ts fs) = map without_log fs \<and>
   (\<forall>i. i \<notin> lt_finding ` set ts \<longrightarrow> attach_logs u fo ts fs ! i = fs ! i)"
proof (induction ts arbitrary: fs)
  case Nil
  then show ?case by (simp add: attach_logs_def)
next
  case (Cons t ts)
  have "attach_logs u fo (t # ts) fs = attach_logs u fo ts (attach_log u fo t fs)" by (simp add: attach_logs_def)
  with Cons.IH [of "attach_log u fo t fs"] attach_log_nth [of u fo t fs] show ?case by simp
qed

lemma nths_agree: "length xs = length ys \<Longrightarrow> (\<And>i. i < length xs \<Longrightarrow> i \<in> A \<Longrightarrow> xs ! i = ys ! i) \<Longrightarrow> nths xs A = nths ys A"
proof (induction xs ys arbitrary: A rule: list_induct2)
  case (Cons x xs y ys)
  have "xs ! i = ys ! i" if "i < length xs" "i \<in> {j. Suc j \<in> A}" for i using Cons.prems [of "Suc i"] that by simp
  then have "nths xs {j. Suc j \<in> A} = nths ys {j. Suc j \<in> A}" by (rule Cons.IH)
  moreover have "0 \<in> A \<Longrightarrow> x = y" using Cons.prems [of 0] by simp
  ultimately show ?case by (simp add: nths_Cons)
qed simp

text \<open>
  C25. One log per container, and only where there is one. The logs that are read belong to findings that
  name a container which has exited before; no container's log is read twice; every such finding's
  container is read; and reading them changes nothing of the findings but the cause and the excerpt of
  the targeted ones.
\<close>

theorem logs_read_once:
  assumes "list_all (\<lambda>f. CHR ''/'' \<notin> set (f_container f)) fs"
  shows "distinct (map (\<lambda>t. (lt_namespace t, lt_pod t, lt_container t)) (log_targets pods fs)) \<and>
    list_all (\<lambda>t. lt_finding t < length fs \<and> loggable (pod_map pods) (fs ! lt_finding t) \<and>
      f_pod (fs ! lt_finding t) = lt_namespace t @ ''/'' @ lt_pod t \<and> f_container (fs ! lt_finding t) = lt_container t) (log_targets pods fs) \<and>
    (\<lambda>f. (f_pod f, f_container f)) ` {f \<in> set fs. loggable (pod_map pods) f} \<subseteq>
      (\<lambda>t. (lt_namespace t @ ''/'' @ lt_pod t, lt_container t)) ` set (log_targets pods fs) \<and>
    map without_log (attach_logs u fo (log_targets pods fs) fs) = map without_log fs \<and>
    nths (attach_logs u fo (log_targets pods fs) fs) (- lt_finding ` set (log_targets pods fs)) =
      nths fs (- lt_finding ` set (log_targets pods fs))"
proof -
  define st where "st = fold (log_step (pod_map pods)) (enumerate 0 fs) ([], [])"
  have ts: "log_targets pods fs = snd st" by (simp add: log_targets_def st_def)
  have inv: "log_inv (pod_map pods) fs (length fs) st" unfolding st_def by (rule log_inv_all [OF assms])
  have keys: "distinct (map target_key (snd st))"
  proof (unfold distinct_conv_nth, intro allI impI)
    fix i j assume ij: "i < length (map target_key (snd st))" "j < length (map target_key (snd st))" "i \<noteq> j"
    with inv have "mget (fst st) (target_key (snd st ! i)) = Some i" "mget (fst st) (target_key (snd st ! j)) = Some j"
      unfolding log_inv_def by simp_all
    with ij show "map target_key (snd st) ! i \<noteq> map target_key (snd st) ! j" by auto
  qed
  have "map target_key (snd st) = map (\<lambda>(a, b, c). a @ ''/'' @ b @ ''/'' @ c) (map (\<lambda>t. (lt_namespace t, lt_pod t, lt_container t)) (snd st))"
    by (simp add: target_key_def)
  from keys [unfolded this distinct_map [of "\<lambda>(a, b, c). a @ ''/'' @ b @ ''/'' @ c"]]
  have d: "distinct (map (\<lambda>t. (lt_namespace t, lt_pod t, lt_container t)) (snd st))" by (rule conjunct1)
  have v: "list_all (\<lambda>t. lt_finding t < length fs \<and> loggable (pod_map pods) (fs ! lt_finding t) \<and>
      f_pod (fs ! lt_finding t) = lt_namespace t @ ''/'' @ lt_pod t \<and> f_container (fs ! lt_finding t) = lt_container t) (snd st)"
    using inv unfolding log_inv_def list_all_iff by blast
  have c: "(f_pod f, f_container f) \<in> (\<lambda>t. (lt_namespace t @ ''/'' @ lt_pod t, lt_container t)) ` set (snd st)"
    if f: "f \<in> set fs" "loggable (pod_map pods) f" for f
  proof -
    from f(1) obtain j where j: "j < length fs" "fs ! j = f" by (metis in_set_conv_nth)
    from inv have "\<And>j. j < length fs \<Longrightarrow> loggable (pod_map pods) (fs ! j) \<Longrightarrow> mget (fst st) (f_pod (fs ! j) @ ''/'' @ f_container (fs ! j)) \<noteq> None"
      unfolding log_inv_def by blast
    from this [OF j(1)] j(2) f(2) obtain i where i: "mget (fst st) (f_pod f @ ''/'' @ f_container f) = Some i" by auto
    with inv have "i < length (snd st)" "target_key (snd st ! i) = f_pod f @ ''/'' @ f_container f" unfolding log_inv_def by blast+
    note t = this
    have m: "snd st ! i \<in> set (snd st)" using t(1) by simp
    from inv m have l: "lt_finding (snd st ! i) < length fs" "f_container (fs ! lt_finding (snd st ! i)) = lt_container (snd st ! i)"
      unfolding log_inv_def by blast+
    from assms l have nc: "CHR ''/'' \<notin> set (lt_container (snd st ! i))" unfolding list_all_length by metis
    from assms f(1) have nf: "CHR ''/'' \<notin> set (f_container f)" unfolding list_all_iff by blast
    from t(2) have "(lt_namespace (snd st ! i) @ ''/'' @ lt_pod (snd st ! i)) @ ''/'' @ lt_container (snd st ! i) = f_pod f @ ''/'' @ f_container f"
      by (simp add: target_key_def)
    from last_slash [OF nc nf this] show ?thesis using m by (intro image_eqI [of _ _ "snd st ! i"]) simp_all
  qed
  have n: "nths (attach_logs u fo (snd st) fs) (- lt_finding ` set (snd st)) = nths fs (- lt_finding ` set (snd st))"
  proof -
    show ?thesis using attach_logs_nth [of u fo "snd st" fs] by (intro nths_agree) auto
  qed
  show ?thesis unfolding ts using d v c n attach_logs_nth [of u fo "snd st" fs] by blast
qed

definition restarted_pod :: pod where
  "restarted_pod = \<lparr>p_namespace = ''shop'', p_name = ''web'', p_owners = [], p_created = 0, p_deleted = None, p_phase = ''Running'',
     p_conditions = [], p_statuses = [\<lparr>cs_name = ''app'', cs_image = [], cs_ready = False, cs_restart_count = 3,
       cs_state = \<lparr>st_waiting = None, st_running = None, st_terminated = None\<rparr>, cs_last_terminated = None\<rparr>],
     p_init_statuses = [], p_containers = [], p_init_containers = [], p_node = [], p_ip = []\<rparr>"

definition app_finding :: finding where
  "app_finding = blank_finding\<lparr>f_pod := ''shop/web'', f_container := ''app''\<rparr>"

theorem logs_read_once_witness:
  "length (log_targets [restarted_pod] [app_finding, app_finding]) = 1 \<and>
   distinct (map (\<lambda>t. (lt_namespace t, lt_pod t, lt_container t)) (log_targets [restarted_pod] [app_finding, app_finding]))"
proof -
  have h: "list_all (\<lambda>f. CHR ''/'' \<notin> set (f_container f)) [app_finding, app_finding]" by (simp add: app_finding_def)
  have "length (log_targets [restarted_pod] [app_finding, app_finding]) = 1"
    by (simp add: log_targets_def log_step_def pod_map_def restarted_pod_def app_finding_def blank_finding_def has_previous_instance_def
        status_named_def split_pod_ref_def last_termination_reason_def Let_def)
  with logs_read_once [OF h, of "[restarted_pod]" "nv_unicode plain_env" no_fan_out] show ?thesis by blast
qed

end
