(* ===== verification/Tui_Screen.thy ===== *)
theory Tui_Screen
  imports Tui Scan_Evaluate
begin

text \<open>
  \<open>internal/tui/render.go\<close> and the loop of \<open>tui.go\<close>: the frame the browser writes to the terminal,
  as bytes, and the input loop around \<open>drain_keys\<close> and \<open>tui_update\<close>. An index out of range is the panic
  it would be. Widths count runes, as the source does. The lemmas show that a frame of a browser in view
  has exactly as many lines as the terminal, none wider than it, with the row under the cursor among them,
  and that the screen always shows the current model.
\<close>

section \<open>Fitting text to columns\<close>

definition min_width :: int where "min_width = 40"

definition min_height :: int where "min_height = 10"

definition esc_clear :: string where "esc_clear = bytes [27] @ ''[2J''"

definition esc_home :: string where "esc_home = bytes [27] @ ''[H''"

definition esc_reset :: string where "esc_reset = bytes [27] @ ''[0m''"

definition sgr_critical :: string where "sgr_critical = bytes [27] @ ''[31m''"

definition sgr_warning :: string where "sgr_warning = bytes [27] @ ''[33m''"

definition crlf :: string where "crlf = bytes [13, 10]"

definition col_level :: int where "col_level = 8"

definition col_kind :: int where "col_kind = 12"

definition col_ns :: int where "col_ns = 11"

definition col_name :: int where "col_name = 18"

definition fixed_cols :: int where
  "fixed_cols = 2 + col_level + 1 + col_kind + 1 + col_ns + 1 + col_name + 1"

definition truncate_to :: "string \<Rightarrow> int \<Rightarrow> string" where
  "truncate_to s w =
    (if w \<le> 0 then []
     else let r = go_runes s in
       if int (length r) \<le> w then s
       else if w = 1 then encode [ellipsis]
       else encode (take (nat (w - 1)) r) @ encode [ellipsis])"

definition pad_to :: "string \<Rightarrow> int \<Rightarrow> string" where
  "pad_to s w =
    (let s = truncate_to s w; n = w - int (length (go_runes s))
     in if n > 0 then s @ replicate (nat n) (CHR '' '') else s)"

definition rule_line :: "int \<Rightarrow> string" where
  "rule_line width = (if width < 1 then [] else encode (replicate (nat width) 9472))"

definition issue_width :: "int \<Rightarrow> int" where
  "issue_width width = (let w = width - fixed_cols in if w > 8 then w else 8)"

text \<open>\<open>strings.Fields\<close>.\<close>

lemma trim_left_lead: "lead_space (trim_left s) = None"
proof (induction s rule: trim_left.induct)
  case (1 s)
  then show ?case by (cases "lead_space s") (simp_all add: trim_left.simps [of s])
qed

lemma until_space_nonempty: "s \<noteq> [] \<Longrightarrow> lead_space s = None \<Longrightarrow> until_space s \<noteq> []"
  by (cases s) auto

lemma length_trim_left: "length (trim_left s) \<le> length s"
proof (induction s rule: trim_left.induct)
  case (1 s)
  then show ?case by (cases "lead_space s") (auto simp: trim_left.simps [of s] intro: le_trans)
qed

function fields :: "string \<Rightarrow> string list" where
  "fields s =
    (let t = trim_left s
     in if t = [] then [] else until_space t # fields (drop (length (until_space t)) t))"
  by pat_completeness auto
termination
proof (relation "measure length")
  fix s t
  assume t: "t = trim_left s" and "t \<noteq> []"
  then have "until_space t \<noteq> []" by (simp add: until_space_nonempty trim_left_lead)
  with t \<open>t \<noteq> []\<close> show "(drop (length (until_space t)) t, s) \<in> measure length"
    using length_trim_left [of s] by (cases "until_space t") (auto intro: diff_less order_less_le_trans)
qed simp

declare fields.simps [simp del]

lemma go_runes_encode_append: "list_all scalar rs \<Longrightarrow> go_runes (encode rs @ x) = rs @ go_runes x"
proof (induction rs)
  case (Cons r rs)
  obtain c s where c: "encode_rune r = c # s"
    using length_encode_rune [of r] by (cases "encode_rune r") auto
  have "decode_rune (encode_rune r @ encode rs @ x) = Some (r, length (encode_rune r))"
    by (rule decode_encode_rune) (use Cons.prems in simp)
  with c Cons show ?case by (simp add: encode_def)
qed (simp add: encode_def)

lemma go_runes_of_encode: "list_all scalar rs \<Longrightarrow> go_runes (encode rs) = rs"
  using go_runes_encode_append [of rs "[]"] by simp

lemma go_runes_scalar: "list_all scalar (go_runes s)"
  by (induction s rule: go_runes.induct)
    (auto split: option.splits dest: decode_rune_scalar simp: replacement_def scalar_def)

lemma go_runes_part: "list_all scalar (take n (go_runes s))" "list_all scalar (drop n (go_runes s))"
  using go_runes_scalar [of s] by (auto simp: list_all_iff dest: in_set_takeD in_set_dropD)

text \<open>
  The inner loop of \<open>wrap\<close> with the lines so far, the current line and the rest of the word. A width
  of zero, for which \<open>wrap\<close> returns before the loop, ends it here.
\<close>

function split_word :: "nat \<Rightarrow> string list \<Rightarrow> string \<Rightarrow> string \<Rightarrow> string list \<times> string \<times> string" where
  "split_word w out cur word =
    (let r = go_runes word
     in if w = 0 \<or> length r \<le> w then (out, cur, word)
        else split_word w ((if cur \<noteq> [] then out @ [cur] else out) @ [encode (take w r)]) [] (encode (drop w r)))"
  by pat_completeness auto
termination
  by (relation "measure (\<lambda>(_, _, _, word). length (go_runes word))") (auto simp: go_runes_of_encode go_runes_part)

declare split_word.simps [simp del]

definition wrap_word :: "nat \<Rightarrow> string \<Rightarrow> string list \<times> string \<Rightarrow> string list \<times> string" where
  "wrap_word w word0 st =
    (case split_word w (fst st) (snd st) word0 of
       (out, cur, word) \<Rightarrow>
         if cur = [] then (out, word)
         else if length (go_runes cur) + 1 + length (go_runes word) \<le> w then (out, cur @ '' '' @ word)
         else (out @ [cur], word))"

definition wrap_lines :: "string \<Rightarrow> int \<Rightarrow> string list" where
  "wrap_lines s w =
    (if w \<le> 0 then []
     else case fold (wrap_word (nat w)) (fields s) ([], []) of
       (out, cur) \<Rightarrow> if cur \<noteq> [] then out @ [cur] else out)"

section \<open>The four screens\<close>

definition dot_sep :: string where "dot_sep = '' '' @ encode [183] @ '' ''"

definition level_colour :: "tui_model \<Rightarrow> level \<Rightarrow> string" where
  "level_colour m l =
    (if \<not> tm_colour m then []
     else case l of Critical \<Rightarrow> sgr_critical | Warning \<Rightarrow> sgr_warning | Info \<Rightarrow> [])"

definition screen_row :: "tui_model \<Rightarrow> gate_finding \<Rightarrow> bool \<Rightarrow> int \<Rightarrow> string" where
  "screen_row m f selected issue_w =
    (let gutter = (if selected then encode [9656] @ '' '' else ''  '');
         shown = truncate_to (gutter @ pad_to (level_string (gf_level f)) col_level @ '' '' @ pad_to (gf_kind f) col_kind @ '' '' @
           pad_to (gf_namespace f) col_ns @ '' '' @ pad_to (gf_name f) col_name @ '' '' @ truncate_to (gf_issue f) issue_w) (tm_width m);
         c = level_colour m (gf_level f)
     in if c \<noteq> [] then c @ shown @ esc_reset else shown)"

definition header_lines :: "tui_model \<Rightarrow> string list" where
  "header_lines m =
    (let one = ''kubeagent '' @ tm_version m @ dot_sep @ tm_scope m @ dot_sep @ itoa (int (tm_workloads m)) @ '' workloads'' @
           dot_sep @ tm_generated m;
         h = tm_health m;
         two = ''Cluster: '' @ ch_verdict h @ dot_sep @ itoa (int (ch_nodes_ready h)) @ ''/'' @ itoa (int (ch_nodes_total h)) @
           '' nodes Ready'';
         n = length (tm_blind m);
         two = (if n > 0 then two @ dot_sep @ itoa (int n) @ '' blind spots (b)'' else two)
     in [truncate_to one (tm_width m), truncate_to two (tm_width m)])"

definition footer_tail :: string where "footer_tail = ''? help  q quit''"

definition footer_hints :: "tui_model \<Rightarrow> string list" where
  "footer_hints m =
    [''[1] critical [2] warning+ [0] all ('' @ itoa (int (length (visible m))) @ '')'',
     encode [8593, 8595] @ '' move'', encode [9166] @ '' detail'', ''b blind'', ''r rescan'']"

text \<open>Hints go from the right until the line fits.\<close>

fun shed_hints :: "tui_model \<Rightarrow> nat \<Rightarrow> string" where
  "shed_hints m n =
    (let s = join (take n (footer_hints m) @ [footer_tail]) ''  ''
     in if n = 0 \<or> int (length (go_runes s)) \<le> tm_width m then truncate_to s (tm_width m)
        else shed_hints m (n - 1))"

declare shed_hints.simps [simp del]

definition footer :: "tui_model \<Rightarrow> string" where
  "footer m =
    (if tm_scanning m then truncate_to (''scanning'' @ encode [ellipsis]) (tm_width m)
     else if tm_err m \<noteq> [] then
       truncate_to (''re-scan failed: '' @ tm_err m @ '' '' @ dot_sep @ '' r retry  q quit'') (tm_width m)
     else shed_hints m (length (footer_hints m)))"

text \<open>The padding loop, and the pane cut to its height with the rule and the last line below it.\<close>

definition fill_to :: "int \<Rightarrow> string list \<Rightarrow> string list" where
  "fill_to n ls = ls @ replicate (nat n - length ls) []"

definition finish_pane :: "tui_model \<Rightarrow> string \<Rightarrow> string list \<Rightarrow> string list" where
  "finish_pane m hint ls =
    take (nat (tm_height m - 2)) (fill_to (tm_height m - 2) ls) @
      [rule_line (tm_width m), truncate_to hint (tm_width m)]"

definition list_row :: "tui_model \<Rightarrow> int \<Rightarrow> string go" where
  "list_row m i =
    (let idx = tm_top m + i; vis = visible m
     in if idx \<ge> int (length vis) then Return []
        else if idx < 0 then Panic
        else Return (screen_row m (vis ! nat idx) (idx = tm_cursor m) (issue_width (tm_width m))))"

definition list_lines :: "tui_model \<Rightarrow> string list go" where
  "list_lines m =
    (let above = header_lines m @ [rule_line (tm_width m), truncate_to (''  '' @ pad_to ''LEVEL'' col_level @ '' '' @
           pad_to ''KIND'' col_kind @ '' '' @ pad_to ''NAMESPACE'' col_ns @ '' '' @ pad_to ''NAME'' col_name @ '' '' @ ''ISSUE'') (tm_width m)];
         bottom = [rule_line (tm_width m), footer m]
     in if visible m = [] then
          (let msg = (if tm_filter m \<noteq> FilterAll then ''No findings at this filter. Press 0 to show all.''
             else ''No findings. Every default check passed.'')
           in Return (fill_to (tm_height m - 2) (above @ [[], ''  '' @ truncate_to msg (tm_width m - 2)]) @ bottom))
        else go_bind (go_map (list_row m) (map int [0..<nat (list_rows m)])) (\<lambda>rows. Return (above @ rows @ bottom)))"

definition detail_lines :: "(rune \<Rightarrow> rune) \<Rightarrow> tui_model \<Rightarrow> string list go" where
  "detail_lines up m =
    (let above = header_lines m @ [rule_line (tm_width m)];
         hint = ''esc back  '' @ encode [8593, 8595] @ '' move  q quit''
     in if tm_cursor m \<ge> int (length (visible m)) then Return (finish_pane m hint above)
        else if tm_cursor m < 0 then Panic
        else let f = visible m ! nat (tm_cursor m);
            owner = (if gf_owner f \<noteq> [] then [[], ''  owner: '' @ truncate_to (gf_owner f) (tm_width m - 11)] else []);
            rsn = (if gf_reason f \<noteq> [] then [] # map ((@) ''  '') (wrap_lines (gf_reason f) (tm_width m - 4)) else [])
          in Return (finish_pane m hint (above @
            [''  '' @ truncate_to (to_upper up (level_string (gf_level f)) @ ''  '' @ gf_kind f @ ''  '' @ gf_namespace f @ ''/'' @ gf_name f)
               (tm_width m - 2), [], ''  '' @ truncate_to (gf_issue f) (tm_width m - 2)] @ owner @ rsn)))"

definition blind_entry :: "tui_model \<Rightarrow> read_failure \<Rightarrow> string list" where
  "blind_entry m b =
    (''  '' @ truncate_to (rf_resource b) (tm_width m - 2)) #
      map ((@) ''    '') (wrap_lines (rf_reason b) (tm_width m - 6)) @ [[]]"

definition blind_lines :: "tui_model \<Rightarrow> string list" where
  "blind_lines m =
    finish_pane m ''b or esc back  q quit'' (header_lines m @ [rule_line (tm_width m)] @
      (if tm_blind m = [] then map ((@) ''  '') (wrap_lines ''kubeagent read everything it asked for.'' (tm_width m - 2))
       else map ((@) ''  '') (wrap_lines ''kubeagent could not read the following, so the findings are incomplete.'' (tm_width m - 2)) @
         [[]] @ concat (map (blind_entry m) (tm_blind m))))"

definition help_text :: "string list" where
  "help_text =
    [''  '' @ encode [8593] @ '' k        up                   1     critical only'',
     ''  '' @ encode [8595] @ '' j        down                 2     warning and above'',
     ''  g G        first / last         0 a   all findings'',
     ''  '' @ encode [9166] @ '' '' @ encode [8594] @ '' l      detail               b     blind spots'',
     ''  esc '' @ encode [8592] @ '' h    back                 r     re-scan'',
     ''  ?          this screen          q     quit'',
     [],
     ''  This browses exactly what bare '' @ bytes [39] @ ''kubeagent scan'' @ bytes [39] @ '' reports. The opt-in'',
     ''  checks (--security, --certs, --capacity, --drift, --operators, and'',
     ''  the rest) are not run here '' @ encode [8212] @ '' run '' @ bytes [39] @ ''kubeagent scan'' @ bytes [39] @ '' for those.'']"

definition help_lines :: "tui_model \<Rightarrow> string list" where
  "help_lines m =
    finish_pane m ''? or esc back  q quit''
      (header_lines m @ [rule_line (tm_width m)] @ map (\<lambda>l. truncate_to l (tm_width m)) help_text)"

definition too_small :: "tui_model \<Rightarrow> bool" where
  "too_small m \<longleftrightarrow> tm_width m < min_width \<or> tm_height m < min_height"

definition small_notice :: "tui_model \<Rightarrow> string" where
  "small_notice m = ''terminal too small (need '' @ itoa min_width @ ''x'' @ itoa min_height @ '', have '' @ itoa (tm_width m) @ ''x'' @
     itoa (tm_height m) @ '')'' @ crlf"

definition screen_lines :: "(rune \<Rightarrow> rune) \<Rightarrow> tui_model \<Rightarrow> string list go" where
  "screen_lines up m =
    (case tm_mode m of
       ModeDetail \<Rightarrow> detail_lines up m
     | ModeBlind \<Rightarrow> Return (blind_lines m)
     | ModeHelp \<Rightarrow> Return (help_lines m)
     | ModeList \<Rightarrow> list_lines m)"

definition render :: "(rune \<Rightarrow> rune) \<Rightarrow> tui_model \<Rightarrow> string go" where
  "render up m =
    (if too_small m then Return (esc_clear @ esc_home @ small_notice m)
     else go_bind (screen_lines up m) (\<lambda>ls. Return (esc_clear @ esc_home @ concat (map (\<lambda>l. l @ crlf) ls))))"

section \<open>Widths\<close>

definition columns :: "string \<Rightarrow> int" where "columns s = int (length (go_runes s))"

lemma decode_rune_take:
  assumes "decode_rune b = Some (r, w)"
  shows "decode_rune (take w b) = Some (r, w) \<and> list_all cont (map of_char (tl (take w b)))"
proof -
  obtain c0 s where b: "b = c0 # s" using assms by (cases b) (auto simp: decode_rune_def)
  define n0 :: nat where "n0 = of_char c0"
  consider "n0 < 128" | "194 \<le> n0" "n0 \<le> 223" | "224 \<le> n0" "n0 \<le> 239" | "240 \<le> n0" "n0 \<le> 244"
    using assms by (auto simp: decode_rune_def b n0_def [symmetric] not_less not_le split: if_splits)
  then show ?thesis
  proof cases
    case 1
    with assms show ?thesis by (auto simp: decode_rune_def b n0_def)
  next
    case 2
    with assms obtain c1 t where "s = c1 # t" "cont (of_char c1)" "w = 2"
      by (cases s) (auto simp: decode_rune_def b n0_def split: if_splits)
    with 2 assms show ?thesis by (simp add: decode_rune_def b n0_def)
  next
    case 3
    with assms obtain c1 c2 t where "s = c1 # c2 # t" "cont (of_char c1)" "cont (of_char c2)" "w = 3"
      unfolding decode_rune_def b list.map list.case n0_def [symmetric] Let_def
      by (auto split: if_splits list.splits)
    moreover from 3 have "decode_rune [c0, c1, c2] = decode_rune (c0 # c1 # c2 # t)" by (simp add: decode_rune_def n0_def)
    ultimately show ?thesis using assms by (simp add: b numeral_3_eq_3)
  next
    case 4
    with assms obtain c1 c2 c3 t where "s = c1 # c2 # c3 # t" "cont (of_char c1)" "cont (of_char c2)" "cont (of_char c3)" "w = 4"
      unfolding decode_rune_def b list.map list.case n0_def [symmetric] Let_def
      by (auto split: if_splits list.splits)
    moreover from 4 have "decode_rune [c0, c1, c2, c3] = decode_rune (c0 # c1 # c2 # c3 # t)" by (simp add: decode_rune_def n0_def)
    moreover have "take 4 (c0 # c1 # c2 # c3 # t) = [c0, c1, c2, c3]" by (simp add: numeral_eq_Suc)
    ultimately show ?thesis using assms by (simp add: b)
  qed
qed

lemma decode_none_ascii:
  assumes "decode_rune a = None" and "a \<noteq> []" and "(of_char c :: nat) < 128"
  shows "decode_rune (a @ c # s) = None"
proof (rule ccontr)
  assume "decode_rune (a @ c # s) \<noteq> None"
  then obtain r w where d: "decode_rune (a @ c # s) = Some (r, w)" by auto
  note t = decode_rune_take [OF d]
  have "w \<le> length a"
  proof (rule ccontr)
    assume "\<not> w \<le> length a"
    then have "c \<in> set (tl (take w (a @ c # s)))"
      using assms(2) by (cases a) (auto simp: take_Cons' less_Suc_eq_le)
    with t assms(3) show False by (auto simp: list_all_iff cont_def)
  qed
  with t have "decode_rune (take w a @ drop w a) = Some (r, w)" by (intro decode_rune_more) simp
  with assms(1) show False by simp
qed

text \<open>An ASCII byte is never part of a longer rune, so that counting starts afresh at it.\<close>

lemma go_runes_append_ascii:
  assumes "(of_char c :: nat) < 128"
  shows "go_runes (a @ c # s) = go_runes a @ go_runes (c # s)"
proof (induction a rule: go_runes.induct)
  case (2 d a)
  show ?case
  proof (cases "decode_rune (d # a)")
    case None
    with 2(1) decode_none_ascii [OF None _ assms, of s] show ?thesis by (simp del: go_runes.simps(2) add: go_runes.simps(2) [of d])
  next
    case (Some rw)
    obtain r w where rw: "rw = (r, w)" by force
    have "1 \<le> w" "w \<le> length (d # a)" using decode_rune_width [of "d # a" r w] Some rw by auto
    moreover have "decode_rune ((d # a) @ c # s) = Some (r, w)" using Some rw decode_rune_more by blast
    moreover have "drop w ((d # a) @ c # s) = drop w (d # a) @ c # s" using \<open>w \<le> length (d # a)\<close> by (simp only: drop_append) simp
    ultimately show ?thesis using 2(2) [OF Some rw [symmetric]] Some rw by (simp add: max_def)
  qed
qed simp

lemma columns_simps [simp]:
  "columns [] = 0" "0 \<le> columns s" "columns (CHR '' '' # s) = 1 + columns s"
  "list_all scalar rs \<Longrightarrow> columns (encode rs) = int (length rs)"
  by (simp_all add: columns_def decode_ascii go_runes_of_encode)

lemma columns_join: "columns (s @ CHR '' '' # t) = columns s + 1 + columns t"
  by (simp add: columns_def go_runes_append_ascii [of "CHR '' ''"] decode_ascii)

lemma columns_truncate: "0 \<le> w \<Longrightarrow> columns (truncate_to s w) \<le> w"
  by (auto simp: truncate_to_def columns_def Let_def go_runes_encode_append go_runes_of_encode go_runes_part
    ellipsis_def scalar_def)

lemma columns_rule: "0 \<le> w \<Longrightarrow> columns (rule_line w) \<le> w"
  by (simp add: rule_line_def scalar_def list_all_iff)

lemma split_word_fits:
  "0 < w \<Longrightarrow> list_all (\<lambda>l. columns l \<le> int w) out \<Longrightarrow> columns cur \<le> int w \<Longrightarrow>
   case split_word w out cur word of (out', cur', word') \<Rightarrow>
     list_all (\<lambda>l. columns l \<le> int w) out' \<and> columns cur' \<le> int w \<and> columns word' \<le> int w"
proof (induction w out cur word rule: split_word.induct)
  case (1 w out cur word)
  show ?case
  proof (cases "length (go_runes word) \<le> w")
    case True
    with 1(3,4) show ?thesis by (simp add: split_word.simps [of w out cur word] columns_def)
  next
    case False
    have "columns (encode (take w (go_runes word))) \<le> int w" by (simp add: go_runes_part)
    with 1(3,4) 1(1) [OF refl _ 1(2)] 1(2) False show ?thesis
      by (simp add: split_word.simps [of w out cur word] Let_def)
  qed
qed

lemma wrap_word_fits:
  assumes "0 < w" and "list_all (\<lambda>l. columns l \<le> int w) (fst st) \<and> columns (snd st) \<le> int w"
  shows "list_all (\<lambda>l. columns l \<le> int w) (fst (wrap_word w word st)) \<and> columns (snd (wrap_word w word st)) \<le> int w"
proof -
  obtain out cur wd where s: "split_word w (fst st) (snd st) word = (out, cur, wd)" by (metis prod_cases3)
  have f: "list_all (\<lambda>l. columns l \<le> int w) out" "columns cur \<le> int w" "columns wd \<le> int w"
    using split_word_fits [of w "fst st" "snd st" word] assms s by simp_all
  have "columns (cur @ '' '' @ wd) \<le> int w" if "length (go_runes cur) + 1 + length (go_runes wd) \<le> w"
    using that by (simp add: columns_join) (simp add: columns_def)
  with f s show ?thesis by (auto simp: wrap_word_def)
qed

lemma wrap_lines_fit: "list_all (\<lambda>l. columns l \<le> w) (wrap_lines s w)"
proof (cases "w \<le> 0")
  case False
  define n where "n = nat w"
  have n: "0 < n" "int n = w" using False by (simp_all add: n_def)
  have "list_all (\<lambda>l. columns l \<le> int n) (fst (fold (wrap_word n) ws st)) \<and> columns (snd (fold (wrap_word n) ws st)) \<le> int n"
    if "list_all (\<lambda>l. columns l \<le> int n) (fst st) \<and> columns (snd st) \<le> int n" for ws st
    using that by (induction ws arbitrary: st) (simp_all only: fold.simps comp_apply id_apply wrap_word_fits [OF n(1)])
  from this [of "([], [])" "fields s"] show ?thesis
    using False n by (auto simp: wrap_lines_def n_def [symmetric] split: prod.split)
qed (simp add: wrap_lines_def)

text \<open>What fits: a line of at most so many columns, coloured or plain.\<close>

definition line_fits :: "int \<Rightarrow> string \<Rightarrow> bool" where
  "line_fits w l \<longleftrightarrow> columns l \<le> w \<or>
    (\<exists>t. columns t \<le> w \<and> (l = sgr_critical @ t @ esc_reset \<or> l = sgr_warning @ t @ esc_reset))"

lemma line_fitsI: "columns l \<le> w \<Longrightarrow> line_fits w l"
  by (simp add: line_fits_def)

lemma columns_header: "0 \<le> tm_width m \<Longrightarrow> list_all (\<lambda>l. columns l \<le> tm_width m) (header_lines m)"
  by (simp add: header_lines_def Let_def columns_truncate)

lemma length_header [simp]: "length (header_lines m) = 2"
  by (simp add: header_lines_def Let_def)

lemma shed_hints_fits: "0 \<le> tm_width m \<Longrightarrow> columns (shed_hints m n) \<le> tm_width m"
  by (induction n) (simp_all add: shed_hints.simps columns_truncate Let_def)

lemma columns_footer: "0 \<le> tm_width m \<Longrightarrow> columns (footer m) \<le> tm_width m"
  by (simp add: footer_def columns_truncate shed_hints_fits)

lemma indent_fits:
  "list_all (\<lambda>l. columns l \<le> w) (map ((@) ''  '') ls) \<longleftrightarrow> list_all (\<lambda>l. columns l \<le> w - 2) ls"
  "list_all (\<lambda>l. columns l \<le> w) (map ((@) ''    '') ls) \<longleftrightarrow> list_all (\<lambda>l. columns l \<le> w - 4) ls"
  by (auto simp: list_all_iff)

lemma finish_pane_fits:
  assumes "\<not> too_small m" and "list_all (\<lambda>l. columns l \<le> tm_width m) ls"
  shows "length (finish_pane m hint ls) = nat (tm_height m) \<and> list_all (\<lambda>l. columns l \<le> tm_width m) (finish_pane m hint ls)"
  using assms by (auto simp: finish_pane_def fill_to_def too_small_def min_width_def min_height_def columns_rule columns_truncate
    list_all_iff dest: in_set_takeD)

section \<open>Every frame fits\<close>

lemma text_fits: "list_all (\<lambda>l. columns l \<le> w) ls \<Longrightarrow> list_all (line_fits w) ls"
  by (auto simp: list_all_iff line_fitsI)

lemma coloured_fits:
  assumes "columns t \<le> w"
  shows "line_fits w t" "line_fits w (sgr_critical @ t @ esc_reset)" "line_fits w (sgr_warning @ t @ esc_reset)"
  using assms unfolding line_fits_def by blast+

lemma row_fits:
  assumes "0 \<le> tm_width m"
  shows "line_fits (tm_width m) (screen_row m f sel iw)"
  unfolding screen_row_def Let_def level_colour_def
  by (cases "gf_level f") (simp_all add: coloured_fits columns_truncate [OF assms] del: append_assoc)

lemma join_snoc: "\<exists>pre. join (xs @ [t]) gap = pre @ t"
proof (induction xs)
  case (Cons x xs)
  then obtain pre where "join (xs @ [t]) gap = pre @ t" by blast
  then show ?case by (cases "xs @ [t]") auto
qed simp

lemma footer_leaves:
  assumes "\<not> too_small m" and "\<not> tm_scanning m" and "tm_err m = []"
  shows "\<exists>pre. footer m = pre @ footer_tail"
proof -
  have w: "40 \<le> tm_width m" using assms(1) by (simp add: too_small_def min_width_def)
  have cut: "truncate_to s (tm_width m) = s" if "int (length (go_runes s)) \<le> tm_width m" for s
    using that w by (simp add: truncate_to_def)
  have "length (go_runes footer_tail) = 14" by code_simp
  then have "\<exists>pre. shed_hints m n = pre @ footer_tail" for n
  proof (induction n)
    case 0
    with w show ?case by (simp add: shed_hints.simps [of m 0] cut)
  next
    case (Suc n)
    let ?s = "join (take (Suc n) (footer_hints m) @ [footer_tail]) ''  ''"
    obtain pre where "?s = pre @ footer_tail" using join_snoc by blast
    with Suc cut [of ?s] show ?case by (simp add: shed_hints.simps [of m "Suc n"] Let_def)
  qed
  with assms show ?thesis by (simp add: footer_def)
qed

text \<open>The screen under the conditions the browser keeps.\<close>

definition good_screen :: "tui_model \<Rightarrow> string list \<Rightarrow> bool" where
  "good_screen m ls \<longleftrightarrow> int (length ls) = tm_height m \<and> list_all (line_fits (tm_width m)) ls \<and>
    (tm_mode m = ModeList \<and> visible m \<noteq> [] \<longrightarrow>
      ls ! nat (4 + tm_cursor m - tm_top m) = screen_row m (visible m ! nat (tm_cursor m)) True (issue_width (tm_width m))) \<and>
    (tm_mode m = ModeList \<and> \<not> tm_scanning m \<and> tm_err m = [] \<longrightarrow> (\<exists>pre. last ls = pre @ footer_tail))"

lemma pane_good:
  assumes "\<not> too_small m" and "list_all (\<lambda>l. columns l \<le> tm_width m) ls" and "tm_mode m \<noteq> ModeList"
  shows "good_screen m (finish_pane m hint ls)"
  using finish_pane_fits [OF assms(1,2), of hint] assms
  by (simp add: good_screen_def text_fits too_small_def min_height_def)

lemma header_fits:
  "\<not> too_small m \<Longrightarrow> list_all (\<lambda>l. columns l \<le> tm_width m) (header_lines m @ [rule_line (tm_width m)])"
  using columns_header [of m] columns_rule [of "tm_width m"] by (simp add: too_small_def min_width_def)

lemma list_lines_good:
  assumes "in_view m" and "\<not> too_small m" and "tm_mode m = ModeList"
  shows "\<exists>ls. list_lines m = Return ls \<and> good_screen m ls"
proof -
  have w: "40 \<le> tm_width m" "10 \<le> tm_height m" using assms(2) by (simp_all add: too_small_def min_width_def min_height_def)
  define above where "above = header_lines m @ [rule_line (tm_width m), truncate_to (''  '' @ pad_to ''LEVEL'' col_level @ '' '' @
    pad_to ''KIND'' col_kind @ '' '' @ pad_to ''NAMESPACE'' col_ns @ '' '' @ pad_to ''NAME'' col_name @ '' '' @ ''ISSUE'') (tm_width m)]"
  define below where "below = [rule_line (tm_width m), footer m]"
  have a: "length above = 4" "list_all (line_fits (tm_width m)) above"
    using w columns_header [of m] by (simp_all add: above_def text_fits line_fitsI columns_rule columns_truncate)
  have b: "length below = 2" "list_all (line_fits (tm_width m)) below" "last below = footer m"
    using w by (simp_all add: below_def line_fitsI columns_rule columns_footer)
  have leave: "tm_mode m = ModeList \<and> \<not> tm_scanning m \<and> tm_err m = [] \<longrightarrow> (\<exists>pre. footer m = pre @ footer_tail)"
    using footer_leaves [OF assms(2)] by blast
  have bn: "below \<noteq> []" by (simp add: below_def)
  show ?thesis
  proof (cases "visible m = []")
    case True
    let ?msg = "''  '' @ truncate_to (if tm_filter m \<noteq> FilterAll then ''No findings at this filter. Press 0 to show all.''
      else ''No findings. Every default check passed.'') (tm_width m - 2)"
    have "line_fits (tm_width m) ?msg"
      using columns_truncate [of "tm_width m - 2"] w by (intro line_fitsI) (simp add: le_diff_eq algebra_simps)
    moreover have "list_all (line_fits (tm_width m)) (replicate k [])" for k
      using w by (simp add: list_all_iff line_fitsI)
    ultimately have "good_screen m (fill_to (tm_height m - 2) (above @ [[], ?msg]) @ below)"
      using w a b leave True bn by (simp add: good_screen_def fill_to_def line_fitsI)
    with True show ?thesis by (simp add: list_lines_def Let_def above_def below_def)
  next
    case False
    define row where "row i = (if tm_top m + i \<ge> int (length (visible m)) then []
      else screen_row m (visible m ! nat (tm_top m + i)) (tm_top m + i = tm_cursor m) (issue_width (tm_width m)))" for i
    define rows where "rows = map row (map int [0..<nat (list_rows m)])"
    have v: "0 \<le> tm_top m" "tm_top m \<le> tm_cursor m" "tm_cursor m < tm_top m + list_rows m" "tm_cursor m < int (length (visible m))"
      using assms(1) False w by (simp_all add: in_view_def Let_def list_rows_def Suc_le_eq split: if_splits)
    have "list_row m i = Return (row i)" if "0 \<le> i" for i
      using that v(1) by (simp add: list_row_def row_def Let_def)
    then have "go_map (list_row m) (map int [0..<nat (list_rows m)]) = Return rows"
      unfolding rows_def by (intro go_map_Return) auto
    then have l: "list_lines m = Return (above @ rows @ below)"
      using False by (simp add: list_lines_def Let_def above_def below_def)
    have "list_all (line_fits (tm_width m)) rows"
      using w by (auto simp: rows_def row_def list_all_iff row_fits line_fitsI)
    moreover have "(above @ rows @ below) ! nat (4 + tm_cursor m - tm_top m) = row (tm_cursor m - tm_top m)"
    proof -
      have "nat (4 + tm_cursor m - tm_top m) = length above + nat (tm_cursor m - tm_top m)" using v a(1) by simp
      moreover have "nat (tm_cursor m - tm_top m) < length rows" using v by (simp add: rows_def)
      ultimately show ?thesis using v by (simp add: nth_append rows_def)
    qed
    moreover have "row (tm_cursor m - tm_top m) = screen_row m (visible m ! nat (tm_cursor m)) True (issue_width (tm_width m))"
      using v by (simp add: row_def)
    ultimately have "good_screen m (above @ rows @ below)"
      using w a b leave bn by (simp add: good_screen_def rows_def list_rows_def)
    with l show ?thesis by blast
  qed
qed

lemma detail_lines_good:
  assumes "in_view m" and "\<not> too_small m" and "tm_mode m = ModeDetail"
  shows "\<exists>ls. detail_lines up m = Return ls \<and> good_screen m ls"
proof -
  have w: "40 \<le> tm_width m" using assms(2) by (simp add: too_small_def min_width_def)
  have v: "\<not> tm_cursor m < 0" "\<not> int (length (visible m)) \<le> tm_cursor m"
    using assms(1,3) by (auto simp: in_view_def Let_def Suc_le_eq split: if_splits)
  have t: "columns (truncate_to s (tm_width m - 2)) \<le> tm_width m - 2" "columns (truncate_to s (tm_width m - 11)) \<le> tm_width m - 11" for s
    using w columns_truncate [of "tm_width m - 2"] columns_truncate [of "tm_width m - 11"] by auto
  have o': "columns (''  owner: '' @ s) = columns s + 9" for s by (simp add: columns_def decode_ascii)
  have i2: "columns (''  '' @ s) = columns s + 2" for s by simp
  define f where "f = visible m ! nat (tm_cursor m)"
  define owner where "owner = (if gf_owner f \<noteq> [] then [[], ''  owner: '' @ truncate_to (gf_owner f) (tm_width m - 11)] else [])"
  define rsn where "rsn = (if gf_reason f \<noteq> [] then [] # map ((@) ''  '') (wrap_lines (gf_reason f) (tm_width m - 4)) else [])"
  have r: "list_all (\<lambda>l. columns l \<le> tm_width m) owner" "list_all (\<lambda>l. columns l \<le> tm_width m) rsn"
    using w t(2) [of "gf_owner f"] wrap_lines_fit [of "tm_width m - 4" "gf_reason f"]
    by (auto simp: owner_def rsn_def o' list_all_iff simp del: append.simps)
      (fastforce simp: i2 simp del: append.simps)
  have two: "columns (''  '' @ truncate_to s (tm_width m - 2)) \<le> tm_width m" for s using t(1) [of s] by simp
  define body where "body = (header_lines m @ [rule_line (tm_width m)]) @
    [''  '' @ truncate_to (to_upper up (level_string (gf_level f)) @ ''  '' @ gf_kind f @ ''  '' @ gf_namespace f @ ''/'' @ gf_name f)
       (tm_width m - 2), [], ''  '' @ truncate_to (gf_issue f) (tm_width m - 2)] @ owner @ rsn"
  have "list_all (\<lambda>l. columns l \<le> tm_width m) body"
    unfolding body_def list_all_append list.pred_inject using header_fits [OF assms(2)] two r w by simp
  from pane_good [OF assms(2) this] assms(3)
  have "good_screen m (finish_pane m (''esc back  '' @ encode [8593, 8595] @ '' move  q quit'') body)" by simp
  moreover have "detail_lines up m = Return (finish_pane m (''esc back  '' @ encode [8593, 8595] @ '' move  q quit'') body)"
    unfolding detail_lines_def Let_def f_def [symmetric] owner_def [symmetric] rsn_def [symmetric] body_def
    using v by (simp only: if_False append_assoc)
  ultimately show ?thesis by blast
qed

lemma blind_lines_good:
  assumes "\<not> too_small m" and "tm_mode m = ModeBlind"
  shows "good_screen m (blind_lines m)"
proof -
  have w: "40 \<le> tm_width m" using assms(1) by (simp add: too_small_def min_width_def)
  have i: "columns (''  '' @ s) = columns s + 2" "columns (''    '' @ s) = columns s + 4" for s by simp_all
  have wrapped: "list_all (\<lambda>l. columns l \<le> tm_width m) (map ((@) ''  '') (wrap_lines s (tm_width m - 2)))" for s
    unfolding indent_fits by (rule wrap_lines_fit)
  have t: "columns (truncate_to s (tm_width m - 2)) \<le> tm_width m - 2" for s
    using w by (intro columns_truncate) simp
  have "list_all (\<lambda>l. columns l \<le> tm_width m) (map ((@) ''    '') (wrap_lines s (tm_width m - 6)))" for s
    unfolding indent_fits using wrap_lines_fit [of "tm_width m - 6" s] by (auto simp: list_all_iff)
  then have "list_all (\<lambda>l. columns l \<le> tm_width m) (blind_entry m b)" for b
    unfolding blind_entry_def list.pred_inject list_all_append i using w t [of "rf_resource b"] by simp
  then have "list_all (\<lambda>l. columns l \<le> tm_width m) (concat (map (blind_entry m) bs))" for bs
    by (induction bs) simp_all
  with wrapped w header_fits [OF assms(1)] show ?thesis
    unfolding blind_lines_def
    by (intro pane_good [OF assms(1)]) (simp_all add: assms(2))
qed

lemma help_lines_good:
  assumes "\<not> too_small m" and "tm_mode m = ModeHelp"
  shows "good_screen m (help_lines m)"
proof -
  have "0 \<le> tm_width m" using assms(1) by (simp add: too_small_def min_width_def)
  then have "list_all (\<lambda>l. columns l \<le> tm_width m) (map (\<lambda>l. truncate_to l (tm_width m)) ls)" for ls
    by (simp add: list_all_iff columns_truncate)
  with header_fits [OF assms(1)] show ?thesis
    unfolding help_lines_def by (intro pane_good [OF assms(1)]) (simp_all add: assms(2))
qed

text \<open>What the terminal shows of a model: the notice, or a screen of lines, each ended.\<close>

definition frame_of :: "string list \<Rightarrow> string" where
  "frame_of ls = esc_clear @ esc_home @ concat (map (\<lambda>l. l @ crlf) ls)"

definition shows_model :: "tui_model \<Rightarrow> string \<Rightarrow> bool" where
  "shows_model m frame \<longleftrightarrow>
    (if too_small m then frame = esc_clear @ esc_home @ small_notice m else \<exists>ls. frame = frame_of ls \<and> good_screen m ls)"

lemma render_shows:
  assumes "in_view m"
  obtains frame where "render up m = Return frame" and "shows_model m frame"
proof (cases "too_small m")
  case True
  then show thesis by (intro that [of "esc_clear @ esc_home @ small_notice m"]) (simp_all add: render_def shows_model_def)
next
  case False
  obtain ls where "screen_lines up m = Return ls" "good_screen m ls"
    using list_lines_good [OF assms False] detail_lines_good [OF assms False, of up] blind_lines_good [OF False] help_lines_good [OF False]
    by (cases "tm_mode m") (auto simp: screen_lines_def)
  with False show thesis by (intro that [of "frame_of ls"]) (auto simp: render_def shows_model_def frame_of_def)
qed

section \<open>The input loop\<close>

text \<open>\<open>Snapshot\<close>: what the browser keeps of a scan, with the time formatted in UTC.\<close>

definition utc_stamp :: "time \<Rightarrow> string" where
  "utc_stamp t =
    (let secs = t div second; (y, m, d) = civil (secs div 86400); s = secs mod 86400
     in Inventory.pad 4 y @ ''-'' @ Inventory.pad 2 m @ ''-'' @ Inventory.pad 2 d @ '' '' @ Inventory.pad 2 (s div 3600) @ '':'' @
        Inventory.pad 2 (s div 60 mod 60) @ '':'' @ Inventory.pad 2 (s mod 60) @ '' UTC'')"

definition tui_snapshot_of :: "evaluation \<Rightarrow> time \<Rightarrow> tui_snapshot" where
  "tui_snapshot_of e now =
    \<lparr>ts_findings = flatten (scan_result_of e), ts_blind = ev_partial e, ts_health = ev_health e,
     ts_workloads = length (ir_workloads (ev_inventory e)), ts_generated = utc_stamp now\<rparr>"

text \<open>
  What \<open>select\<close> can yield in \<open>Run\<close>: a read of the terminal, the escape timer, a change of size (with
  what asking for the size answers), or one of the events that end the session. The screen is the list
  of the frames written so far; a scan is answered by its error or its snapshot.
\<close>

datatype tui_input = Context_Done | Stdin_Closed | Other_Signal | Stdin string | Escape_Timer | Winch "(int \<times> int) option"

record tui_session =
  se_pending :: string
  se_model :: tui_model
  se_frames :: "string list"
  se_running :: bool

definition draw :: "(rune \<Rightarrow> rune) \<Rightarrow> tui_session \<Rightarrow> tui_session go" where
  "draw up st = go_bind (render up (se_model st)) (\<lambda>frame. Return (st\<lparr>se_frames := se_frames st @ [frame]\<rparr>))"

definition scanned :: "(string \<Rightarrow> (string \<times> string) option) \<Rightarrow> api_failure + tui_snapshot \<Rightarrow> tui_event" where
  "scanned parse answer =
    (case answer of Inl e \<Rightarrow> EventScanned None (redact_error parse e) | Inr s \<Rightarrow> EventScanned (Some s) [])"

text \<open>The end of an iteration: quit, or re-scan behind a busy frame, and draw.\<close>

definition settle_screen ::
    "(rune \<Rightarrow> rune) \<Rightarrow> (string \<Rightarrow> (string \<times> string) option) \<Rightarrow> api_failure + tui_snapshot \<Rightarrow> tui_session \<Rightarrow> tui_session go" where
  "settle_screen up parse answer st =
    (if tm_quit (se_model st) then Return (st\<lparr>se_running := False\<rparr>)
     else if tm_scanning (se_model st) then
       go_bind (draw up st) (\<lambda>st. draw up (st\<lparr>se_model := tui_update (se_model st) (scanned parse answer)\<rparr>))
     else draw up st)"

definition drained :: "bool \<Rightarrow> string \<Rightarrow> tui_session \<Rightarrow> tui_session" where
  "drained final b st =
    (case drain_keys b (se_model st) final of (rest, m) \<Rightarrow> st\<lparr>se_pending := rest, se_model := m\<rparr>)"

fun session_step ::
    "(rune \<Rightarrow> rune) \<Rightarrow> (string \<Rightarrow> (string \<times> string) option) \<Rightarrow> api_failure + tui_snapshot \<Rightarrow> tui_input \<Rightarrow> tui_session \<Rightarrow>
     tui_session go" where
  "session_step up parse answer Context_Done st = Return (st\<lparr>se_running := False\<rparr>)"
| "session_step up parse answer Stdin_Closed st = Return (st\<lparr>se_running := False\<rparr>)"
| "session_step up parse answer Other_Signal st = Return (st\<lparr>se_running := False\<rparr>)"
| "session_step up parse answer (Stdin b) st = settle_screen up parse answer (drained False (se_pending st @ b) st)"
| "session_step up parse answer Escape_Timer st =
    (if se_pending st = [] then Return st else settle_screen up parse answer (drained True (se_pending st) st))"
| "session_step up parse answer (Winch None) st = settle_screen up parse answer st"
| "session_step up parse answer (Winch (Some (w, h))) st =
    settle_screen up parse answer (st\<lparr>se_model := tui_update (se_model st) (EventResize w h)\<rparr>)"

fun session_run ::
    "(rune \<Rightarrow> rune) \<Rightarrow> (string \<Rightarrow> (string \<times> string) option) \<Rightarrow> (tui_input \<times> (api_failure + tui_snapshot)) list \<Rightarrow>
     tui_session \<Rightarrow> tui_session go" where
  "session_run up parse [] st = Return st"
| "session_run up parse ((i, answer) # is') st =
    (if se_running st then go_bind (session_step up parse answer i st) (session_run up parse is') else Return st)"

text \<open>The first frame, after the first scan has succeeded and the terminal has told its size.\<close>

definition session_start ::
    "(rune \<Rightarrow> rune) \<Rightarrow> string \<Rightarrow> string \<Rightarrow> int \<Rightarrow> int \<Rightarrow> bool \<Rightarrow> tui_snapshot \<Rightarrow> tui_session go" where
  "session_start up version scope width height colour snap =
    draw up \<lparr>se_pending = [],
      se_model = tui_update \<lparr>tm_version = version, tm_scope = scope, tm_generated = [], tm_health = no_health, tm_workloads = 0,
        tm_all = [], tm_blind = [], tm_mode = ModeList, tm_filter = FilterAll, tm_cursor = 0, tm_top = 0, tm_width = width,
        tm_height = height, tm_colour = colour, tm_scanning = False, tm_err = [], tm_quit = False\<rparr> (EventScanned (Some snap) []),
      se_frames = [], se_running = True\<rparr>"

text \<open>What holds whenever the loop waits for input.\<close>

definition session_ok :: "tui_session \<Rightarrow> bool" where
  "session_ok st \<longleftrightarrow> se_frames st \<noteq> [] \<and> in_view (se_model st) \<and> \<not> stopped (se_model st) \<and> shows_model (se_model st) (last (se_frames st))"

lemma draw_shows:
  assumes "in_view (se_model st)"
  obtains frame where "draw up st = Return (st\<lparr>se_frames := se_frames st @ [frame]\<rparr>)" and "shows_model (se_model st) frame"
proof -
  obtain frame where "render up (se_model st) = Return frame" "shows_model (se_model st) frame"
    using render_shows [OF assms] by blast
  then show thesis by (intro that [of frame]) (simp_all add: draw_def)
qed

lemma quiet_after_scan: "\<not> tm_quit m \<Longrightarrow> \<not> stopped (tui_update m (scanned parse answer))"
proof -
  have c: "tm_quit (clamp m) = tm_quit m" "tm_scanning (clamp m) = tm_scanning m" for m
  proof -
    have "clamp m = m\<lparr>tm_cursor := 0, tm_top := 0\<rparr> \<or> clamp m = m\<lparr>tm_cursor := 0, tm_top := 0, tm_mode := ModeList\<rparr>" if "visible m = []"
      using that by (simp add: clamp_def Let_def)
    then show "tm_quit (clamp m) = tm_quit m" "tm_scanning (clamp m) = tm_scanning m"
      by (cases "visible m = []"; force simp: clamp_some)+
  qed
  show "\<not> tm_quit m \<Longrightarrow> ?thesis" by (auto simp: scanned_def stopped_def c split: sum.split)
qed

lemma settle_screen_ok:
  assumes "in_view (se_model st)" and "se_running st"
  shows "\<exists>st'. settle_screen up parse answer st = Return st' \<and> (se_running st' \<longrightarrow> session_ok st')"
proof -
  consider "tm_quit (se_model st)" | "\<not> tm_quit (se_model st)" "tm_scanning (se_model st)" | "\<not> stopped (se_model st)"
    by (auto simp: stopped_def)
  then show ?thesis
  proof cases
    case 2
    let ?m = "tui_update (se_model st) (scanned parse answer)"
    obtain busy where b: "draw up st = Return (st\<lparr>se_frames := se_frames st @ [busy]\<rparr>)"
      using draw_shows [OF assms(1)] by blast
    define mid where "mid = st\<lparr>se_frames := se_frames st @ [busy], se_model := ?m\<rparr>"
    have v: "in_view (se_model mid)" by (simp add: mid_def update_in_view assms(1))
    obtain frame where f: "draw up mid = Return (mid\<lparr>se_frames := se_frames mid @ [frame]\<rparr>)" "shows_model (se_model mid) frame"
      using draw_shows [OF v] by blast
    have "\<not> stopped ?m" using 2 by (intro quiet_after_scan)
    with v f(2) have "session_ok (mid\<lparr>se_frames := se_frames mid @ [frame]\<rparr>)" by (simp add: session_ok_def mid_def)
    moreover have "settle_screen up parse answer st = Return (mid\<lparr>se_frames := se_frames mid @ [frame]\<rparr>)"
      using 2 b f(1) by (simp add: settle_screen_def mid_def)
    ultimately show ?thesis by blast
  next
    case 3
    obtain frame where f: "draw up st = Return (st\<lparr>se_frames := se_frames st @ [frame]\<rparr>)" "shows_model (se_model st) frame"
      using draw_shows [OF assms(1)] by blast
    with 3 assms have "session_ok (st\<lparr>se_frames := se_frames st @ [frame]\<rparr>)" by (simp add: session_ok_def)
    with 3 f(1) show ?thesis by (simp add: settle_screen_def stopped_def)
  qed (simp add: settle_screen_def)
qed

lemma drained_keeps: "in_view (se_model st) \<Longrightarrow> in_view (se_model (drained final b st))" "se_running (drained final b st) = se_running st"
  using drain_in_view [of "se_model st" b final]
  by (cases "drain_keys b (se_model st) final"; simp add: drained_def)+

lemma session_step_ok:
  assumes "session_ok st" and "se_running st"
  shows "\<exists>st'. session_step up parse answer i st = Return st' \<and> (se_running st' \<longrightarrow> session_ok st')"
proof -
  have v: "in_view (se_model st)" using assms(1) by (simp add: session_ok_def)
  show ?thesis
  proof (cases i)
    case (Stdin b)
    then show ?thesis using settle_screen_ok [of "drained False (se_pending st @ b) st"] drained_keeps v assms(2) by simp
  next
    case Escape_Timer
    then show ?thesis using settle_screen_ok [of "drained True (se_pending st) st"] drained_keeps v assms by simp
  next
    case (Winch size)
    show ?thesis
    proof (cases size)
      case None
      then show ?thesis using settle_screen_ok [OF v assms(2)] Winch by simp
    next
      case (Some wh)
      then show ?thesis
        using settle_screen_ok [of "st\<lparr>se_model := tui_update (se_model st) (EventResize (fst wh) (snd wh))\<rparr>"] clamp_in_view assms(2) Winch
        by (cases wh) simp
    qed
  qed simp_all
qed

lemma session_run_ok:
  "session_ok st \<Longrightarrow> \<exists>st'. session_run up parse is' st = Return st' \<and> (se_running st' \<longrightarrow> session_ok st')"
proof (induction is' arbitrary: st)
  case (Cons x is')
  obtain i answer where x: "x = (i, answer)" by force
  show ?case
  proof (cases "se_running st")
    case True
    then obtain st1 where 1: "session_step up parse answer i st = Return st1" "se_running st1 \<longrightarrow> session_ok st1"
      using session_step_ok [OF Cons.prems] by blast
    show ?thesis
    proof (cases "se_running st1")
      case True
      with Cons.IH [of st1] 1 \<open>se_running st\<close> x show ?thesis by simp
    next
      case False
      then have "session_run up parse is' st1 = Return st1" by (cases is') auto
      with False 1 \<open>se_running st\<close> x show ?thesis by simp
    qed
  qed (use x in simp)
qed simp

section \<open>The browser is always right\<close>


end
