(* ===== verification/Rbac_Profile.thy ===== *)
theory Rbac_Profile
  imports Operators
begin

text \<open>
  \<open>internal/rbacprofile\<close>: the table of the permissions each feature needs, how a profile becomes the
  rules of a role, how the rules are checked against the API server and how the manifests are
  written. What the API server answers to an access review is an argument.
\<close>

section \<open>Rules\<close>

record rbac_rule =
  ru_group :: string
  ru_resources :: "string list"
  ru_urls :: "string list"
  ru_verbs :: "string list"

definition new_rule :: "string \<Rightarrow> string list \<Rightarrow> string list \<Rightarrow> string list \<Rightarrow> rbac_rule" where
  "new_rule g rs us vs = \<lparr>ru_group = g, ru_resources = rs, ru_urls = us, ru_verbs = vs\<rparr>"

record rbac_feature =
  fu_id :: string
  fu_flag :: string
  fu_summary :: string
  fu_doc :: string
  fu_manifest :: string
  fu_role :: string
  fu_covered_by :: string
  fu_scan_only :: bool
  fu_helm :: string
  fu_rules :: "rbac_rule list"

record rbac_profile =
  pf_name :: string
  pf_features :: "string list"
  pf_watch :: bool

definition read_verbs :: "string list" where "read_verbs = [''get'', ''list'']"

definition list_only :: "string list" where "list_only = [''list'']"

definition get_only :: "string list" where "get_only = [''get'']"

definition nl :: string where "nl = [CHR 0x0A]"

section \<open>The table\<close>

definition core_rules :: "rbac_rule list" where
  "core_rules =
   [new_rule [] [''pods'', ''nodes'', ''services'', ''configmaps'', ''events'', ''persistentvolumeclaims'', ''persistentvolumes'', ''namespaces'', ''resourcequotas''] [] read_verbs,
    new_rule ''apps'' [''deployments'', ''replicasets'', ''statefulsets'', ''daemonsets''] [] read_verbs,
    new_rule ''batch'' [''jobs'', ''cronjobs''] [] read_verbs,
    new_rule ''discovery.k8s.io'' [''endpointslices''] [] read_verbs,
    new_rule ''networking.k8s.io'' [''networkpolicies'', ''ingressclasses'', ''ingresses''] [] read_verbs,
    new_rule ''storage.k8s.io'' [''storageclasses''] [] read_verbs,
    new_rule ''coordination.k8s.io'' [''leases''] [] read_verbs,
    new_rule ''policy'' [''poddisruptionbudgets''] [] read_verbs,
    new_rule ''autoscaling'' [''horizontalpodautoscalers''] [] read_verbs,
    new_rule ''admissionregistration.k8s.io'' [''validatingwebhookconfigurations'', ''mutatingwebhookconfigurations''] [] read_verbs]"

definition watch_features :: "rbac_feature list" where
  "watch_features =
   [\<lparr>fu_id = ''core'', fu_flag = [],
      fu_summary = ''the inventory every command reads: pods, nodes, workloads, events, services, PVCs and the rest'',
      fu_doc = ''Strictly read-only: get/list/watch only. No create/update/patch/delete anywhere.'',
      fu_manifest = ''rbac.yaml'', fu_role = ''kubeagent-readonly'', fu_covered_by = [], fu_scan_only = False,
      fu_helm = [],
      fu_rules = core_rules\<rparr>,
    \<lparr>fu_id = ''diskusage'', fu_flag = ''--disk-usage'',
      fu_summary = ''node root filesystem and PersistentVolumeClaim usage, read from the kubelet summary API'',
      fu_doc = ''Opt-in add-on: grants the kubeagent ServiceAccount read access to the kubelet'' @ nl @
        ''via the nodes/proxy subresource '' @ bytes [226, 128, 148] @ '' both the summary API (disk-usage) and'' @ nl @
        ''/healthz (kubelet-health). Needed when the daemon runs with'' @ nl @
        ''KUBEAGENT_DISK_USAGE=true or KUBEAGENT_KUBELET_HEALTH=true (or scan is run with'' @ nl @
        ''--disk-usage or --kubelet-health). Apply alongside deploy/ to enable those'' @ nl @
        ''checks. Without it, kubeagent stays strictly get/list/watch.'',
      fu_manifest = ''rbac-diskusage.yaml'', fu_role = ''kubeagent-nodes-proxy'', fu_covered_by = [], fu_scan_only = False,
      fu_helm = ''if or .Values.diskUsage.enabled .Values.kubeletHealth.enabled'',
      fu_rules = [new_rule [] [''nodes/proxy''] [] get_only]\<rparr>,
    \<lparr>fu_id = ''kubelethealth'', fu_flag = ''--kubelet-health'',
      fu_summary = ''each kubelet'' @ bytes [39] @ ''s /healthz, to tell a sick kubelet from a sick node'',
      fu_doc = [],
      fu_manifest = [], fu_role = [], fu_covered_by = ''diskusage'', fu_scan_only = False,
      fu_helm = [],
      fu_rules = [new_rule [] [''nodes/proxy''] [] get_only]\<rparr>,
    \<lparr>fu_id = ''dnshealth'', fu_flag = ''--dns-health'',
      fu_summary = ''CoreDNS SERVFAIL/REFUSED ratio, read from each CoreDNS pod'' @ bytes [39] @ ''s metrics endpoint'',
      fu_doc = ''Optional add-on grant for `kubeagent scan --dns-health` (and the daemon with'' @ nl @
        ''KUBEAGENT_DNS_HEALTH=true): read each CoreDNS pod'' @ bytes [39] @ ''s :9153/metrics via the'' @ nl @
        ''pods/proxy subresource to flag an elevated SERVFAIL+REFUSED response ratio.'' @ nl @
        ''Strictly read-only. Apply alongside deploy/rbac.yaml when the dns-health check is used.'',
      fu_manifest = ''rbac-dnshealth.yaml'', fu_role = ''kubeagent-dnshealth'', fu_covered_by = [], fu_scan_only = False,
      fu_helm = ''if .Values.dnsHealth.enabled'',
      fu_rules = [new_rule [] [''pods/proxy''] [] get_only]\<rparr>,
    \<lparr>fu_id = ''controlplane'', fu_flag = ''--control-plane-health'',
      fu_summary = ''the apiserver /readyz endpoint, to flag an unhealthy control plane or etcd'',
      fu_doc = ''Optional add-on grant for `kubeagent scan --control-plane-health` (and the daemon'' @ nl @
        ''with KUBEAGENT_CONTROL_PLANE_HEALTH=true): read the apiserver /readyz endpoint to'' @ nl @
        ''flag an unhealthy control plane / etcd. Strictly read-only (a single nonResourceURL'' @ nl @
        ''GET). Apply alongside deploy/rbac.yaml when the control-plane-health check is used.'',
      fu_manifest = ''rbac-controlplane.yaml'', fu_role = ''kubeagent-controlplane'', fu_covered_by = [], fu_scan_only = False,
      fu_helm = ''if .Values.controlPlaneHealth.enabled'',
      fu_rules = [new_rule [] [] [''/readyz''] get_only]\<rparr>,
    \<lparr>fu_id = ''certs'', fu_flag = ''--certs'',
      fu_summary = ''TLS certificate expiry, read from the public tls.crt of kubernetes.io/tls Secrets'',
      fu_doc = ''Opt-in add-on: grants the kubeagent ServiceAccount LIST access to Secrets so'' @ nl @
        ''the --certs / KUBEAGENT_CERTS certificate-expiry check can read the PUBLIC'' @ nl @
        ''certificate (tls.crt) of kubernetes.io/tls Secrets. kubeagent never reads'' @ nl @
        ''tls.key and never prints secret values. Apply alongside deploy/ to enable the'' @ nl @
        ''check. Without it, kubeagent makes no Secrets API calls at all.'' @ nl @
        ''Note: Kubernetes RBAC cannot restrict Secret access per-field; the application code is what never accesses tls.key.'',
      fu_manifest = ''rbac-certs.yaml'', fu_role = ''kubeagent-certs'', fu_covered_by = [], fu_scan_only = False,
      fu_helm = ''if .Values.certs.enabled'',
      fu_rules = [new_rule [] [''secrets''] [] list_only]\<rparr>]"

definition scan_features :: "rbac_feature list" where
  "scan_features =
   [\<lparr>fu_id = ''logs'', fu_flag = ''--logs'',
      fu_summary = ''the last lines of a crashed container'' @ bytes [39] @ ''s previous log, to name the cause'',
      fu_doc = ''Opt-in add-on: grants read access to container logs via the pods/log subresource,'' @ nl @
        ''needed only when running `scan --logs`. Apply alongside deploy/ for a restricted'' @ nl @
        ''context; most human kubeconfigs already allow pods/log. Without it, --logs simply'' @ nl @
        ''reports no log cause (non-fatal). kubeagent stays strictly get/list/watch otherwise.'',
      fu_manifest = ''rbac-logs.yaml'', fu_role = ''kubeagent-pods-log'', fu_covered_by = [], fu_scan_only = True,
      fu_helm = [],
      fu_rules = [new_rule [] [''pods/log''] [] get_only]\<rparr>,
    \<lparr>fu_id = ''policy'', fu_flag = ''--policy'',
      fu_summary = ''organization-specific checks from a policy file; reads only kinds core already grants'',
      fu_doc = [],
      fu_manifest = [], fu_role = [], fu_covered_by = ''core'', fu_scan_only = True,
      fu_helm = [],
      fu_rules = []\<rparr>,
    \<lparr>fu_id = ''operators'', fu_flag = ''--operators'',
      fu_summary = ''health of installed operators: cert-manager, CNPG, Longhorn, Argo CD, Flux, Prometheus'',
      fu_doc = ''Opt-in add-on: grants list access to the operator custom resources `scan'' @ nl @
        ''--operators` reads. Apply alongside deploy/ for a restricted context; most'' @ nl @
        ''human kubeconfigs already allow these. Without it, --operators still names'' @ nl @
        ''which operators are installed (API discovery is open to every authenticated'' @ nl @
        ''user) and marks each kind as forbidden '' @ bytes [226, 128, 148] @ '' a useful answer, not an error.'' @ nl @
        nl @ ''Scan-only: the watch daemon does not read operator CRDs, so this is not wired'' @ nl @
        ''into the Helm chart. list only '' @ bytes [226, 128, 148] @ '' kubeagent never writes to a CRD.'',
      fu_manifest = ''rbac-operators.yaml'', fu_role = ''kubeagent-operators'', fu_covered_by = [], fu_scan_only = True,
      fu_helm = [],
      fu_rules = [new_rule ''cert-manager.io'' [''certificates'', ''issuers'', ''clusterissuers''] [] list_only,
        new_rule ''postgresql.cnpg.io'' [''clusters''] [] list_only,
        new_rule ''longhorn.io'' [''volumes''] [] list_only,
        new_rule ''argoproj.io'' [''applications''] [] list_only,
        new_rule ''kustomize.toolkit.fluxcd.io'' [''kustomizations''] [] list_only,
        new_rule ''helm.toolkit.fluxcd.io'' [''helmreleases''] [] list_only,
        new_rule ''monitoring.coreos.com'' [''prometheuses'', ''servicemonitors''] [] list_only]\<rparr>,
    \<lparr>fu_id = ''gitops'', fu_flag = ''--drift'',
      fu_summary = ''GitOps reconciler drift: Argo CD Applications, Flux Kustomizations and HelmReleases'',
      fu_doc = ''Opt-in add-on: grants list access to the three GitOps custom resources `scan'' @ nl @
        ''--drift` reads. Apply alongside deploy/ for a restricted context; most human'' @ nl @
        ''kubeconfigs already allow these. Without it, --drift still names which'' @ nl @
        ''reconciler is installed (API discovery is open to every authenticated user)'' @ nl @
        ''and marks each kind as forbidden '' @ bytes [226, 128, 148] @ '' a useful answer, not an error.'' @ nl @
        nl @ ''Its three rules are a subset of deploy/rbac-operators.yaml, so applying that'' @ nl @
        ''file alone is enough to run both flags; this one exists so a drift-only user'' @ nl @
        ''needs no grant on Longhorn volumes or CNPG clusters.'' @ nl @
        nl @ ''Scan-only: the watch daemon does not read GitOps CRDs, so this is not wired'' @ nl @
        ''into the Helm chart. list only '' @ bytes [226, 128, 148] @ '' kubeagent never writes to a CRD.'',
      fu_manifest = ''rbac-gitops.yaml'', fu_role = ''kubeagent-gitops'', fu_covered_by = [], fu_scan_only = True,
      fu_helm = [],
      fu_rules = [new_rule ''argoproj.io'' [''applications''] [] list_only,
        new_rule ''kustomize.toolkit.fluxcd.io'' [''kustomizations''] [] list_only,
        new_rule ''helm.toolkit.fluxcd.io'' [''helmreleases''] [] list_only]\<rparr>,
    \<lparr>fu_id = ''capacity'', fu_flag = ''--capacity'',
      fu_summary = ''node headroom and scheduling capacity '' @ bytes [226, 128, 148] @ '' no grant beyond core'',
      fu_doc = [],
      fu_manifest = [], fu_role = [], fu_covered_by = [], fu_scan_only = False,
      fu_helm = [],
      fu_rules = []\<rparr>,
    \<lparr>fu_id = ''security'', fu_flag = ''--security'',
      fu_summary = ''workload and Service security posture (privileged and host access, restricted-profile gaps, externally exposed Services) '' @ bytes [226, 128, 148] @ '' no grant beyond core'',
      fu_doc = [],
      fu_manifest = [], fu_role = [], fu_covered_by = [], fu_scan_only = False,
      fu_helm = [],
      fu_rules = []\<rparr>,
    \<lparr>fu_id = ''pvcreclaim'', fu_flag = ''--pvc-reclaim'',
      fu_summary = ''PersistentVolumeClaims whose bound volume is destroyed when the claim is deleted '' @ bytes [226, 128, 148] @ '' no grant beyond core'',
      fu_doc = [],
      fu_manifest = [], fu_role = [], fu_covered_by = [], fu_scan_only = False,
      fu_helm = [],
      fu_rules = []\<rparr>,
    \<lparr>fu_id = ''credlint'', fu_flag = ''--lint-secrets'',
      fu_summary = ''credentials visible in workload env vars '' @ bytes [226, 128, 148] @ '' no grant beyond core'',
      fu_doc = [],
      fu_manifest = [], fu_role = [], fu_covered_by = [], fu_scan_only = False,
      fu_helm = [],
      fu_rules = []\<rparr>,
    \<lparr>fu_id = ''cronjobs'', fu_flag = ''--include-cron'',
      fu_summary = ''CronJob and Job history in the inventory '' @ bytes [226, 128, 148] @ '' no grant beyond core'',
      fu_doc = [],
      fu_manifest = [], fu_role = [], fu_covered_by = [], fu_scan_only = False,
      fu_helm = [],
      fu_rules = []\<rparr>,
    \<lparr>fu_id = ''restarts'', fu_flag = ''--include-restarts'',
      fu_summary = ''containers restarting without crash-looping '' @ bytes [226, 128, 148] @ '' no grant beyond core'',
      fu_doc = [],
      fu_manifest = [], fu_role = [], fu_covered_by = [], fu_scan_only = False,
      fu_helm = [],
      fu_rules = []\<rparr>,
    \<lparr>fu_id = ''investigate'', fu_flag = ''--investigate'',
      fu_summary = ''read-only agentic investigation of findings via a model tool-use loop '' @ bytes [226, 128, 148] @ '' no grant beyond core; its log-cause tool uses the logs feature'' @ bytes [39] @ ''s pods/log grant when present and refuses cleanly without it'',
      fu_doc = [],
      fu_manifest = [], fu_role = [], fu_covered_by = [], fu_scan_only = False,
      fu_helm = [],
      fu_rules = []\<rparr>]"

definition rbac_features :: "rbac_feature list" where
  "rbac_features = watch_features @ scan_features"

definition lookup_feature :: "string \<Rightarrow> rbac_feature option" where
  "lookup_feature name = find (\<lambda>f. fu_id f = name) rbac_features"

definition rbac_profiles :: "rbac_profile list" where
  "rbac_profiles =
   [\<lparr>pf_name = ''scan'', pf_features = [''core''], pf_watch = False\<rparr>,
    \<lparr>pf_name = ''watch'', pf_features = [''core''], pf_watch = True\<rparr>,
    \<lparr>pf_name = ''full'', pf_features = map fu_id rbac_features, pf_watch = False\<rparr>]"

definition profile_by_name :: "string \<Rightarrow> rbac_profile option" where
  "profile_by_name name = find (\<lambda>p. pf_name p = name) rbac_profiles"

section \<open>Merging\<close>

definition rule_key :: "rbac_rule \<Rightarrow> string" where
  "rule_key r =
    (let verbs = join (sort (ru_verbs r)) '','' in
     if length (ru_urls r) > 0 then ''url'' @ [CHR 0x00] @ verbs
     else ''res'' @ [CHR 0x00] @ ru_group r @ [CHR 0x00] @ verbs)"

text \<open>\<open>union\<close>: the members of the second list that are not there yet, in their order.\<close>

definition union_into :: "string list \<Rightarrow> string list \<Rightarrow> string list" where
  "union_into a b = fold (\<lambda>v acc. if v \<in> set acc then acc else acc @ [v]) b a"

definition merge_rule ::
    "rbac_rule \<Rightarrow> (string, rbac_rule) gomap \<times> string list \<Rightarrow> (string, rbac_rule) gomap \<times> string list" where
  "merge_rule r st =
    (let key = rule_key r in
     case mget (fst st) key of
       None \<Rightarrow> (mput key r (fst st), snd st @ [key])
     | Some old \<Rightarrow> (mput key (old\<lparr>ru_resources := union_into (ru_resources old) (ru_resources r),
         ru_urls := union_into (ru_urls old) (ru_urls r)\<rparr>) (fst st), snd st))"

definition merge_rules :: "rbac_rule list \<Rightarrow> rbac_rule list" where
  "merge_rules rs = (let st = fold merge_rule rs ([], []) in List.map_filter (mget (fst st)) (snd st))"

definition with_watch :: "rbac_rule list \<Rightarrow> rbac_rule list" where
  "with_watch rs = map (\<lambda>r. if join (ru_verbs r) '','' = join read_verbs '',''
     then r\<lparr>ru_verbs := [''get'', ''list'', ''watch'']\<rparr> else r) rs"

fun resolve_features :: "string list \<Rightarrow> string + rbac_rule list" where
  "resolve_features [] = Inr []"
| "resolve_features (n # ns) =
    (case lookup_feature n of
       None \<Rightarrow> Inl (''unknown feature '' @ go_quote n)
     | Some f \<Rightarrow> (case resolve_features ns of Inl e \<Rightarrow> Inl e | Inr rs \<Rightarrow> Inr (fu_rules f @ rs)))"

definition resolve_profile :: "rbac_profile \<Rightarrow> string + rbac_rule list" where
  "resolve_profile p =
    (case resolve_features (pf_features p) of
       Inl e \<Rightarrow> Inl e
     | Inr rs \<Rightarrow> Inr (if pf_watch p then with_watch (merge_rules rs) else merge_rules rs))"

section \<open>Asking the API server\<close>

record access =
  ac_verb :: string
  ac_group :: string
  ac_resource :: string
  ac_subresource :: string
  ac_url :: string

definition access_text :: "access \<Rightarrow> string" where
  "access_text a =
    (if ac_url a \<noteq> [] then ac_verb a @ '' '' @ ac_url a
     else ac_verb a @ '' '' @ ac_resource a @ (if ac_subresource a \<noteq> [] then ''/'' @ ac_subresource a else []) @
       (if ac_group a \<noteq> [] then ''.'' @ ac_group a else []))"

definition url_access :: "string \<Rightarrow> string \<Rightarrow> access" where
  "url_access verb url = \<lparr>ac_verb = verb, ac_group = [], ac_resource = [], ac_subresource = [], ac_url = url\<rparr>"

text \<open>\<open>strings.Cut\<close> at the first slash.\<close>

definition resource_access :: "string \<Rightarrow> string \<Rightarrow> string \<Rightarrow> access" where
  "resource_access group' verb res = \<lparr>ac_verb = verb, ac_group = group', ac_resource = takeWhile (\<lambda>c. c \<noteq> CHR ''/'') res,
     ac_subresource = tl (dropWhile (\<lambda>c. c \<noteq> CHR ''/'') res), ac_url = []\<rparr>"

definition rule_actions :: "rbac_rule \<Rightarrow> access list" where
  "rule_actions r = concat (map (\<lambda>verb. map (url_access verb) (ru_urls r) @ map (resource_access (ru_group r) verb) (ru_resources r))
     (ru_verbs r))"

record feature_status =
  fs_name :: string
  fs_flag :: string
  fs_summary :: string
  fs_allowed :: bool
  fs_missing :: "string list"

text \<open>The answer to one access review, or the error of the call.\<close>

fun check_actions ::
    "(access \<Rightarrow> api_failure + bool) \<Rightarrow> (string \<Rightarrow> (string \<times> string) option) \<Rightarrow> access list \<Rightarrow> feature_status \<Rightarrow>
     string + feature_status" where
  "check_actions ask parse [] st = Inr st"
| "check_actions ask parse (a # as) st =
    (case ask a of
       Inl e \<Rightarrow> Inl (''could not check '' @ go_quote (access_text a) @ '': '' @ redact_error parse e)
     | Inr ok \<Rightarrow> check_actions ask parse as
         (if ok then st else st\<lparr>fs_allowed := False, fs_missing := fs_missing st @ [access_text a]\<rparr>))"

definition feature_actions :: "rbac_feature \<Rightarrow> access list" where
  "feature_actions f = concat (map rule_actions (merge_rules (fu_rules f)))"

fun check_features ::
    "(access \<Rightarrow> api_failure + bool) \<Rightarrow> (string \<Rightarrow> (string \<times> string) option) \<Rightarrow> rbac_feature list \<Rightarrow>
     string + feature_status list" where
  "check_features ask parse [] = Inr []"
| "check_features ask parse (f # fs) =
    (case check_actions ask parse (feature_actions f)
        \<lparr>fs_name = fu_id f, fs_flag = fu_flag f, fs_summary = fu_summary f, fs_allowed = True, fs_missing = []\<rparr> of
       Inl e \<Rightarrow> Inl e
     | Inr st \<Rightarrow> (case check_features ask parse fs of Inl e \<Rightarrow> Inl e | Inr sts \<Rightarrow> Inr (st # sts)))"

section \<open>The manifests\<close>

definition generated_header :: string where
  "generated_header = ''# Generated from internal/rbacprofile'' @ dash @ ''do not edit by hand.'' @ nl @
     ''# Regenerate: go test ./internal/rbacprofile -run TestGeneratedManifests -update'' @ nl"

definition quoted_list :: "string list \<Rightarrow> string" where
  "quoted_list xs = join (map (\<lambda>s. bytes [34] @ s @ bytes [34]) xs) '', ''"

definition render_rules :: "rbac_rule list \<Rightarrow> nat \<Rightarrow> string" where
  "render_rules rs indent =
    (let pad' = replicate indent (CHR '' '') in
     concat (map (\<lambda>r.
       (if length (ru_urls r) > 0 then pad' @ ''- nonResourceURLs: ['' @ quoted_list (ru_urls r) @ '']'' @ nl
        else pad' @ ''- apiGroups: ['' @ bytes [34] @ ru_group r @ bytes [34] @ '']'' @ nl @
          pad' @ ''  resources: ['' @ join (ru_resources r) '', '' @ '']'' @ nl) @
       pad' @ ''  verbs: ['' @ join (ru_verbs r) '', '' @ '']'' @ nl) rs))"

definition render_cluster_role :: "string \<Rightarrow> rbac_rule list \<Rightarrow> string" where
  "render_cluster_role name rs =
    ''apiVersion: rbac.authorization.k8s.io/v1'' @ nl @ ''kind: ClusterRole'' @ nl @ ''metadata:'' @ nl @
    ''  name: '' @ name @ nl @ ''rules:'' @ nl @ render_rules rs 2"

definition render_binding :: "string \<Rightarrow> string" where
  "render_binding name =
    ''apiVersion: rbac.authorization.k8s.io/v1'' @ nl @ ''kind: ClusterRoleBinding'' @ nl @ ''metadata:'' @ nl @
    ''  name: '' @ name @ nl @ ''roleRef:'' @ nl @ ''  apiGroup: rbac.authorization.k8s.io'' @ nl @ ''  kind: ClusterRole'' @ nl @
    ''  name: '' @ name @ nl @ ''subjects:'' @ nl @ ''  - kind: ServiceAccount'' @ nl @ ''    name: kubeagent'' @ nl @
    ''    namespace: kubeagent'' @ nl"

definition yaml_comment :: "string \<Rightarrow> string" where
  "yaml_comment doc = concat (map (\<lambda>l. if l = [] then ''#'' @ nl else ''# '' @ l @ nl) (split_byte (CHR 0x0A) doc))"

text \<open>
  A name that is not in the table gives the empty value. The code panics where the result is \<open>None\<close>: the watch
  profile does not resolve.
\<close>

definition watch_profile :: rbac_profile where
  "watch_profile = (case profile_by_name ''watch'' of None \<Rightarrow> \<lparr>pf_name = [], pf_features = [], pf_watch = False\<rparr> | Some p \<Rightarrow> p)"

definition core_doc :: string where
  "core_doc = (case lookup_feature ''core'' of None \<Rightarrow> [] | Some f \<Rightarrow> fu_doc f)"

definition core_role :: string where
  "core_role = (case lookup_feature ''core'' of None \<Rightarrow> [] | Some f \<Rightarrow> fu_role f)"

definition render_base_manifest :: "string option" where
  "render_base_manifest =
    (case resolve_profile watch_profile of
       Inl e \<Rightarrow> None
     | Inr rs \<Rightarrow> Some (generated_header @ yaml_comment core_doc @
         ''apiVersion: v1'' @ nl @ ''kind: ServiceAccount'' @ nl @ ''metadata:'' @ nl @ ''  name: kubeagent'' @ nl @
         ''  namespace: kubeagent'' @ nl @ ''---'' @ nl @ render_cluster_role core_role rs @ ''---'' @ nl @
         render_binding core_role))"

definition render_addon_manifest :: "rbac_feature \<Rightarrow> string" where
  "render_addon_manifest f =
    generated_header @ yaml_comment (fu_doc f) @ render_cluster_role (fu_role f) (merge_rules (fu_rules f)) @ ''---'' @ nl @
    render_binding (fu_role f)"

definition tpl :: "string \<Rightarrow> string" where
  "tpl name = ''{{ include '' @ bytes [34] @ ''kubeagent.'' @ name @ bytes [34] @ '' . }}''"

definition labels_tpl :: string where
  "labels_tpl = ''    {{- include '' @ bytes [34] @ ''kubeagent.labels'' @ bytes [34] @ '' . | nindent 4 }}''"

definition render_helm_feature :: "rbac_feature \<Rightarrow> string" where
  "render_helm_feature f =
    (if fu_helm f = [] then []
     else ''  {{- '' @ fu_helm f @ '' }}'' @ nl @ render_rules (merge_rules (fu_rules f)) 2 @ ''  {{- end }}'' @ nl)"

definition render_helm_cluster_role :: "string option" where
  "render_helm_cluster_role =
    (case resolve_profile watch_profile of
       Inl e \<Rightarrow> None
     | Inr rs \<Rightarrow> Some (
        ''{{- if .Values.rbac.create -}}'' @ nl @ generated_header @ yaml_comment core_doc @
        ''apiVersion: rbac.authorization.k8s.io/v1'' @ nl @ ''kind: ClusterRole'' @ nl @ ''metadata:'' @ nl @
        ''  name: '' @ tpl ''fullname'' @ nl @ ''  labels:'' @ nl @ labels_tpl @ nl @ ''rules:'' @ nl @ render_rules rs 2 @
        concat (map render_helm_feature rbac_features) @ ''---'' @ nl @
        ''apiVersion: rbac.authorization.k8s.io/v1'' @ nl @ ''kind: ClusterRoleBinding'' @ nl @ ''metadata:'' @ nl @
        ''  name: '' @ tpl ''fullname'' @ nl @ ''  labels:'' @ nl @ labels_tpl @ nl @ ''roleRef:'' @ nl @
        ''  apiGroup: rbac.authorization.k8s.io'' @ nl @ ''  kind: ClusterRole'' @ nl @ ''  name: '' @ tpl ''fullname'' @ nl @
        ''subjects:'' @ nl @ ''  - kind: ServiceAccount'' @ nl @ ''    name: '' @ tpl ''serviceAccountName'' @ nl @
        ''    namespace: {{ .Release.Namespace }}'' @ nl @ ''{{- end }}'' @ nl))"

section \<open>What merging keeps\<close>

definition grants :: "rbac_rule \<Rightarrow> access set" where
  "grants r = set (rule_actions r)"

text \<open>A rule names resources of a group or URLs, and its names hold none of the separators of the key.\<close>

definition rule_ok :: "rbac_rule \<Rightarrow> bool" where
  "rule_ok r \<longleftrightarrow> (ru_urls r = [] \<or> ru_resources r = [] \<and> ru_group r = []) \<and> CHR 0x00 \<notin> set (ru_group r) \<and>
     list_all (\<lambda>v. v \<noteq> [] \<and> CHR '','' \<notin> set v) (ru_verbs r)"

lemma grants_alt:
  "grants r = {url_access v x | v x. v \<in> set (ru_verbs r) \<and> x \<in> set (ru_urls r)} \<union>
     {resource_access (ru_group r) v x | v x. v \<in> set (ru_verbs r) \<and> x \<in> set (ru_resources r)}"
  unfolding grants_def rule_actions_def by auto

lemma set_union_into [simp]: "set (union_into a b) = set a \<union> set b"
  unfolding union_into_def by (induction b arbitrary: a) auto

lemma union_into_Nil [simp]: "union_into a b = [] \<longleftrightarrow> a = [] \<and> b = []"
  by (metis Un_empty set_empty set_union_into)

lemma join_comma_inj:
  "list_all (\<lambda>v. v \<noteq> [] \<and> c \<notin> set v) xs \<Longrightarrow> list_all (\<lambda>v. v \<noteq> [] \<and> c \<notin> set v) ys \<Longrightarrow>
   join xs [c] = join ys [c] \<Longrightarrow> xs = ys"
proof (induction xs arbitrary: ys)
  case Nil
  then show ?case by (cases ys; cases "tl ys") auto
next
  case (Cons x xs)
  have c: "c \<notin> set x" "x \<noteq> []" using Cons.prems(1) by simp_all
  show ?case
  proof (cases ys)
    case Nil
    then show ?thesis using Cons.prems by (cases xs) auto
  next
    case (Cons y ys')
    have cy: "c \<notin> set y" using Cons.prems(2) Cons by simp
    show ?thesis
    proof (cases xs; cases ys')
      fix b bs assume "xs = []" "ys' = b # bs"
      then have "c \<in> set x" using Cons.prems(3) Cons by auto
      with c show ?thesis by simp
    next
      fix a as assume "xs = a # as" "ys' = []"
      then have "c \<in> set y" using Cons.prems(3) Cons by auto
      with cy show ?thesis by simp
    next
      fix a as b bs assume e: "xs = a # as" "ys' = b # bs"
      then have "x = y" "join xs [c] = join ys' [c]"
        using Cons.prems(3) Cons append_sep_eq [OF c(1) cy] by auto
      with Cons.IH [of ys'] Cons.prems(1,2) Cons show ?thesis by simp
    qed (use Cons.prems Cons in auto)
  qed
qed

lemma same_key:
  assumes "rule_ok a" and "rule_ok b" and "rule_key a = rule_key b"
  shows "set (ru_verbs a) = set (ru_verbs b) \<and> ru_group a = ru_group b \<and> (ru_urls a = [] \<longleftrightarrow> ru_urls b = [])"
proof -
  let ?j = "\<lambda>r. join (sort (ru_verbs r)) '',''"
  have u: "ru_urls a = [] \<longleftrightarrow> ru_urls b = []"
    using assms(3) by (auto simp: rule_key_def Let_def split: if_splits)
  have g: "ru_group a = ru_group b \<and> ?j a = ?j b"
  proof (cases "ru_urls a = []")
    case True
    with u assms(3) have "ru_group a @ CHR 0x00 # ?j a = ru_group b @ CHR 0x00 # ?j b"
      by (simp add: rule_key_def Let_def)
    with assms(1,2) show ?thesis by (subst (asm) append_sep_eq) (simp_all add: rule_ok_def)
  next
    case False
    with u assms show ?thesis by (simp add: rule_key_def Let_def rule_ok_def)
  qed
  have "list_all (\<lambda>v. v \<noteq> [] \<and> CHR '','' \<notin> set v) (sort (ru_verbs r))" if "rule_ok r" for r
    using that by (simp add: rule_ok_def list_all_iff)
  with assms(1,2) g have "sort (ru_verbs a) = sort (ru_verbs b)" by (blast intro: join_comma_inj)
  then have "set (ru_verbs a) = set (ru_verbs b)" by (metis set_sort)
  with g u show ?thesis by blast
qed

definition merged :: "rbac_rule \<Rightarrow> rbac_rule \<Rightarrow> rbac_rule" where
  "merged old r = old\<lparr>ru_resources := union_into (ru_resources old) (ru_resources r), ru_urls := union_into (ru_urls old) (ru_urls r)\<rparr>"

lemma merged_props:
  assumes "rule_ok old" and "rule_ok r" and "rule_key old = rule_key r"
  shows "grants (merged old r) = grants old \<union> grants r" and "rule_ok (merged old r)" and "rule_key (merged old r) = rule_key old"
    and "ru_verbs (merged old r) = ru_verbs old"
proof -
  note k = same_key [OF assms]
  show "grants (merged old r) = grants old \<union> grants r" using k unfolding grants_alt by (auto simp: merged_def)
  show "rule_ok (merged old r)" using assms(1,2) k by (auto simp: rule_ok_def merged_def)
  show "rule_key (merged old r) = rule_key old" using k by (auto simp: rule_key_def merged_def Let_def)
  show "ru_verbs (merged old r) = ru_verbs old" by (simp add: merged_def)
qed

definition merge_inv :: "rbac_rule list \<Rightarrow> (string, rbac_rule) gomap \<times> string list \<Rightarrow> bool" where
  "merge_inv done' st \<longleftrightarrow>
    distinct (snd st) \<and> set (snd st) = {k. mget (fst st) k \<noteq> None} \<and>
    (\<forall>k r. mget (fst st) k = Some r \<longrightarrow> rule_key r = k \<and> rule_ok r \<and> ru_verbs r \<in> ru_verbs ` set done') \<and>
    \<Union> {grants r | k r. mget (fst st) k = Some r} = \<Union> (grants ` set done')"

lemma merge_inv_step:
  assumes inv: "merge_inv rs st" and ok: "rule_ok r"
  shows "merge_inv (rs @ [r]) (merge_rule r st)"
proof (cases "mget (fst st) (rule_key r)")
  case None
  let ?m = "mput (rule_key r) r (fst st)"
  have e: "merge_rule r st = (?m, snd st @ [rule_key r])" by (simp add: merge_rule_def Let_def None)
  have g: "mget ?m k = Some x \<longleftrightarrow> (k = rule_key r \<and> x = r) \<or> mget (fst st) k = Some x" for k x
    using None by auto
  have "{grants x | k x. mget ?m k = Some x} = insert (grants r) {grants x | k x. mget (fst st) k = Some x}"
    unfolding g by blast
  moreover have "\<Union> {grants x | k x. mget (fst st) k = Some x} = \<Union> (grants ` set rs)" using inv by (simp add: merge_inv_def)
  ultimately have u: "\<Union> {grants x | k x. mget ?m k = Some x} = \<Union> (grants ` set (rs @ [r]))" by simp
  have d: "distinct (snd st @ [rule_key r])" using inv None by (simp add: merge_inv_def)
  have s: "set (snd st @ [rule_key r]) = {k. mget ?m k \<noteq> None}" using inv None by (auto simp: merge_inv_def)
  have f: "rule_key x = k \<and> rule_ok x \<and> ru_verbs x \<in> ru_verbs ` set (rs @ [r])" if "mget ?m k = Some x" for k x
  proof -
    from that g consider "k = rule_key r" "x = r" | "mget (fst st) k = Some x" by blast
    then show ?thesis using inv ok by cases (auto simp: merge_inv_def)
  qed
  show ?thesis unfolding e merge_inv_def fst_conv snd_conv using u d s f by blast
next
  case (Some old)
  with inv have o': "rule_key old = rule_key r" "rule_ok old" "ru_verbs old \<in> ru_verbs ` set rs" by (auto simp: merge_inv_def)
  note p = merged_props [OF o'(2) ok o'(1)]
  let ?m = "mput (rule_key r) (merged old r) (fst st)"
  have e: "merge_rule r st = (?m, snd st)" by (simp add: merge_rule_def Let_def Some merged_def)
  have "\<Union> {grants x | k x. mget ?m k = Some x} = grants r \<union> \<Union> {grants x | k x. mget (fst st) k = Some x}" (is "?A = ?B")
  proof
    show "?A \<subseteq> ?B"
    proof
      fix a assume "a \<in> ?A"
      then obtain k x where x: "mget ?m k = Some x" "a \<in> grants x" by blast
      show "a \<in> ?B"
      proof (cases "k = rule_key r")
        case True
        with x p(1) have "a \<in> grants old \<union> grants r" by simp
        with Some show ?thesis by blast
      next
        case False
        with x(1) have "mget (fst st) k = Some x" by simp
        with x(2) show ?thesis by blast
      qed
    qed
    show "?B \<subseteq> ?A"
    proof
      fix a assume "a \<in> ?B"
      then consider "a \<in> grants r" | k x where "mget (fst st) k = Some x" "a \<in> grants x" by blast
      then show "a \<in> ?A"
      proof cases
        case 1
        then have "a \<in> grants (merged old r)" using p(1) by blast
        then show ?thesis by (intro UnionI [of "grants (merged old r)"]) auto
      next
        case 2
        then show ?thesis
        proof (cases "k = rule_key r")
          case True
          with 2 Some have "a \<in> grants (merged old r)" using p(1) by auto
          then show ?thesis by (intro UnionI [of "grants (merged old r)"]) auto
        next
          case False
          with 2 show ?thesis by (intro UnionI [of "grants x"]) auto
        qed
      qed
    qed
  qed
  moreover have "\<Union> {grants x | k x. mget (fst st) k = Some x} = \<Union> (grants ` set rs)" using inv by (simp add: merge_inv_def)
  ultimately have u: "\<Union> {grants x | k x. mget ?m k = Some x} = \<Union> (grants ` set (rs @ [r]))" by simp
  have s: "set (snd st) = {k. mget ?m k \<noteq> None}" using inv Some by (auto simp: merge_inv_def)
  have f: "rule_key x = k \<and> rule_ok x \<and> ru_verbs x \<in> ru_verbs ` set (rs @ [r])" if "mget ?m k = Some x" for k x
  proof (cases "k = rule_key r")
    case True
    with that have "x = merged old r" by simp
    with True o' p show ?thesis by auto
  next
    case False
    with that have "mget (fst st) k = Some x" by simp
    with inv show ?thesis by (auto simp: merge_inv_def)
  qed
  have d: "distinct (snd st)" using inv by (simp add: merge_inv_def)
  show ?thesis unfolding e merge_inv_def fst_conv snd_conv using u d s f by blast
qed

lemma merge_rules_props:
  assumes "list_all rule_ok rs"
  shows "\<Union> (grants ` set (merge_rules rs)) = \<Union> (grants ` set rs)"
    and "distinct (map rule_key (merge_rules rs))"
    and "r \<in> set (merge_rules rs) \<Longrightarrow> rule_ok r \<and> ru_verbs r \<in> ru_verbs ` set rs"
proof -
  have inv: "merge_inv xs (fold merge_rule xs ([], []))" if "list_all rule_ok xs" for xs
    using that
  proof (induction xs rule: rev_induct)
    case Nil
    show ?case by (simp add: merge_inv_def)
  next
    case (snoc x xs)
    then show ?case by (simp add: merge_inv_step)
  qed
  define st where "st = fold merge_rule rs ([], [])"
  have i: "merge_inv rs st" using inv [OF assms] by (simp add: st_def)
  have m: "merge_rules rs = map (\<lambda>k. the (mget (fst st) k)) (snd st)"
  proof -
    have "\<forall>k\<in>set ks. mget (fst st) k \<noteq> None \<Longrightarrow> List.map_filter (mget (fst st)) ks = map (\<lambda>k. the (mget (fst st) k)) ks" for ks
      by (induction ks) auto
    then show ?thesis using i by (simp add: merge_rules_def st_def [symmetric] Let_def merge_inv_def)
  qed
  have mem: "r \<in> set (merge_rules rs) \<longleftrightarrow> (\<exists>k. mget (fst st) k = Some r)" for r
  proof
    assume "r \<in> set (merge_rules rs)"
    then obtain k where k: "k \<in> set (snd st)" "r = the (mget (fst st) k)" unfolding m by auto
    with i have "mget (fst st) k \<noteq> None" by (simp add: merge_inv_def)
    with k(2) show "\<exists>k. mget (fst st) k = Some r" by auto
  next
    assume "\<exists>k. mget (fst st) k = Some r"
    then obtain k where k: "mget (fst st) k = Some r" by blast
    with i have "k \<in> set (snd st)" by (simp add: merge_inv_def)
    with k show "r \<in> set (merge_rules rs)" unfolding m by (auto intro: rev_image_eqI)
  qed
  show "\<Union> (grants ` set (merge_rules rs)) = \<Union> (grants ` set rs)"
  proof -
    have "grants ` set (merge_rules rs) = {grants r | k r. mget (fst st) k = Some r}" using mem by blast
    then show ?thesis using i by (simp add: merge_inv_def)
  qed
  have "map rule_key (merge_rules rs) = snd st"
    unfolding m map_map using i by (intro map_idI) (auto simp: merge_inv_def)
  then show "distinct (map rule_key (merge_rules rs))" using i by (simp add: merge_inv_def)
  show "r \<in> set (merge_rules rs) \<Longrightarrow> rule_ok r \<and> ru_verbs r \<in> ru_verbs ` set rs"
    unfolding mem using i unfolding merge_inv_def by blast
qed

text \<open>
  Merging the rules of several features neither widens nor narrows what they grant: over rules whose
  names hold none of the key's separators, the merged rules allow exactly the accesses the given rules
  allow, and no two of them have the same key, so that the role has one rule per group and verb set.
\<close>

theorem merge_exact:
  assumes "list_all rule_ok rs"
  shows "\<Union> (grants ` set (merge_rules rs)) = \<Union> (grants ` set rs) \<and> distinct (map rule_key (merge_rules rs))"
  using merge_rules_props(1,2) [OF assms] by blast

theorem merge_exact_witness:
  "\<Union> (grants ` set (merge_rules core_rules)) = \<Union> (grants ` set core_rules) \<and> distinct (map rule_key (merge_rules core_rules))"
  by (rule merge_exact) code_simp

section \<open>What a profile may do\<close>

lemma features_ok: "list_all (\<lambda>f. list_all rule_ok (fu_rules f)) rbac_features"
  by code_simp

lemma features_verbs: "list_all (\<lambda>f. list_all (\<lambda>r. set (ru_verbs r) \<subseteq> {''get'', ''list''}) (fu_rules f)) rbac_features"
  by code_simp

lemma lookup_feature_mem: "lookup_feature n = Some f \<Longrightarrow> f \<in> set rbac_features"
  unfolding lookup_feature_def by (auto simp: find_Some_iff)

lemma resolve_features_Inr:
  "resolve_features ns = Inr rs \<Longrightarrow>
    \<exists>fs. map lookup_feature ns = map Some fs \<and> set fs \<subseteq> set rbac_features \<and> rs = concat (map fu_rules fs)"
proof (induction ns arbitrary: rs)
  case Nil
  then show ?case by (intro exI [of _ "[]"]) simp
next
  case (Cons n ns)
  then obtain f rs' where f: "lookup_feature n = Some f" "resolve_features ns = Inr rs'" "rs = fu_rules f @ rs'"
    by (auto split: option.splits sum.splits)
  from Cons.IH [OF f(2)] obtain fs where "map lookup_feature ns = map Some fs" "set fs \<subseteq> set rbac_features"
    "rs' = concat (map fu_rules fs)" by blast
  with f lookup_feature_mem [OF f(1)] show ?case by (intro exI [of _ "f # fs"]) simp
qed

lemma lookup_feature_some: "n \<in> fu_id ` set rbac_features \<Longrightarrow> \<exists>f. lookup_feature n = Some f \<and> fu_id f = n"
  unfolding lookup_feature_def by (cases "find (\<lambda>f. fu_id f = n) rbac_features") (auto simp: find_None_iff find_Some_iff)

lemma resolve_features_total: "set ns \<subseteq> fu_id ` set rbac_features \<Longrightarrow> \<exists>rs. resolve_features ns = Inr rs"
proof (induction ns)
  case (Cons n ns)
  then obtain rs f where "resolve_features ns = Inr rs" "lookup_feature n = Some f" using lookup_feature_some by fastforce
  then show ?case by simp
qed simp

lemma profile_names:
  assumes "p \<in> set rbac_profiles"
  shows "set (pf_features p) \<subseteq> fu_id ` set rbac_features \<and> (pf_name p = ''full'' \<or> pf_features p = [''core''])"
proof -
  have "''core'' \<in> fu_id ` set rbac_features" by (simp add: rbac_features_def watch_features_def)
  with assms show ?thesis by (auto simp: rbac_profiles_def)
qed

definition watched :: "rbac_rule \<Rightarrow> rbac_rule" where
  "watched r = (if join (ru_verbs r) '','' = join read_verbs '','' then r\<lparr>ru_verbs := [''get'', ''list'', ''watch'']\<rparr> else r)"

lemma watched_grants:
  assumes "rule_ok r" and "''watch'' \<notin> set (ru_verbs r)"
  shows "{a \<in> grants (watched r). ac_verb a \<noteq> ''watch''} = grants r" and "set (ru_verbs (watched r)) \<subseteq> insert ''watch'' (set (ru_verbs r))"
proof -
  have e: "watched r = r \<or> ru_verbs r = [''get'', ''list''] \<and> watched r = r\<lparr>ru_verbs := [''get'', ''list'', ''watch'']\<rparr>"
  proof (cases "join (ru_verbs r) '','' = join read_verbs '',''")
    case True
    have "ru_verbs r = read_verbs"
      by (rule join_comma_inj [OF _ _ True]) (use assms(1) in \<open>simp_all add: rule_ok_def read_verbs_def\<close>)
    with True show ?thesis by (simp add: watched_def read_verbs_def)
  qed (simp add: watched_def)
  have k: "a \<in> grants r \<Longrightarrow> ac_verb a \<in> set (ru_verbs r)" for a
    by (auto simp: grants_alt url_access_def resource_access_def)
  show "{a \<in> grants (watched r). ac_verb a \<noteq> ''watch''} = grants r"
    using e
  proof
    assume "watched r = r"
    moreover have "ac_verb a \<noteq> ''watch''" if "a \<in> grants r" for a using k [OF that] assms(2) by metis
    ultimately show ?thesis by auto
  next
    assume "ru_verbs r = [''get'', ''list''] \<and> watched r = r\<lparr>ru_verbs := [''get'', ''list'', ''watch'']\<rparr>"
    then show ?thesis by (auto simp: grants_alt url_access_def resource_access_def)
  qed
  show "set (ru_verbs (watched r)) \<subseteq> insert ''watch'' (set (ru_verbs r))" using e by auto
qed

lemma with_watch_map: "with_watch rs = map watched rs"
  by (simp add: with_watch_def watched_def)

lemma watched_watch:
  assumes "rule_ok r" and "''watch'' \<notin> set (ru_verbs r)" and "a \<in> grants (watched r)" and "ac_verb a = ''watch''"
  shows "\<exists>b \<in> grants r. ac_verb b = ''get'' \<and> ac_resource b = ac_resource a"
proof -
  have w: "watched r \<noteq> r"
  proof
    assume "watched r = r"
    with assms(3,4) have "''watch'' \<in> set (ru_verbs r)" by (auto simp: grants_alt url_access_def resource_access_def)
    with assms(2) show False by blast
  qed
  then have "join (ru_verbs r) '','' = join read_verbs '',''" by (auto simp: watched_def split: if_splits)
  then have "ru_verbs r = read_verbs"
    by (rule join_comma_inj [rotated 2]) (use assms(1) in \<open>simp_all add: rule_ok_def read_verbs_def\<close>)
  then have v: "''get'' \<in> set (ru_verbs r)" by (simp add: read_verbs_def)
  have "ru_urls (watched r) = ru_urls r \<and> ru_resources (watched r) = ru_resources r \<and> ru_group (watched r) = ru_group r"
    by (simp add: watched_def)
  with assms(3) consider x where "x \<in> set (ru_urls r)" "a = url_access (ac_verb a) x"
    | x where "x \<in> set (ru_resources r)" "a = resource_access (ru_group r) (ac_verb a) x"
    by (auto simp: grants_alt url_access_def resource_access_def)
  then show ?thesis
  proof cases
    case (1 x)
    with v have "url_access ''get'' x \<in> grants r" by (auto simp: grants_alt)
    moreover have "ac_resource a = []" using 1(2) by (metis url_access_def access.select_convs(3))
    ultimately show ?thesis by (intro bexI [of _ "url_access ''get'' x"]) (auto simp: url_access_def)
  next
    case (2 x)
    with v have "resource_access (ru_group r) ''get'' x \<in> grants r" by (auto simp: grants_alt)
    moreover have "ac_resource a = takeWhile (\<lambda>c. c \<noteq> CHR ''/'') x" using 2(2) by (metis resource_access_def access.select_convs(3))
    ultimately show ?thesis by (intro bexI [of _ "resource_access (ru_group r) ''get'' x"]) (auto simp: resource_access_def)
  qed
qed

definition no_secret_reads :: "rbac_feature \<Rightarrow> bool" where
  "no_secret_reads f \<longleftrightarrow> list_all (\<lambda>r. list_all (\<lambda>a. ac_resource a = ''secrets'' \<longrightarrow>
     fu_id f = ''certs'' \<and> a = resource_access [] ''list'' ''secrets'') (rule_actions r)) (fu_rules f)"

lemma features_secrets: "list_all no_secret_reads rbac_features"
  by code_simp

lemma elevate_grants:
  assumes m: "\<And>r. r \<in> set m \<Longrightarrow> rule_ok r \<and> set (ru_verbs r) \<subseteq> {''get'', ''list''}" and h: "h = (if w then watched else id)"
  shows "{a \<in> \<Union> (grants ` set (map h m)). ac_verb a \<noteq> ''watch''} = \<Union> (grants ` set m)"
    and "\<Union> (set ` ru_verbs ` set (map h m)) \<subseteq> {''get'', ''list'', ''watch''}"
    and "a \<in> \<Union> (grants ` set (map h m)) \<Longrightarrow> ac_verb a = ''watch'' \<Longrightarrow>
      \<exists>b \<in> \<Union> (grants ` set m). ac_verb b = ''get'' \<and> ac_resource b = ac_resource a"
proof -
  have nw: "''watch'' \<notin> set (ru_verbs r)" if "r \<in> set m" for r using m [OF that] by auto
  have gv: "ac_verb a \<noteq> ''watch''" if "r \<in> set m" "a \<in> grants r" for r a
  proof -
    from that(2) have "ac_verb a \<in> set (ru_verbs r)" by (auto simp: grants_alt url_access_def resource_access_def)
    with nw [OF that(1)] show ?thesis by metis
  qed
  have wg: "{a \<in> grants (h r). ac_verb a \<noteq> ''watch''} = grants r" if "r \<in> set m" for r
  proof (cases w)
    case True
    with m [OF that] nw [OF that] show ?thesis by (simp add: h watched_grants)
  next
    case False
    with gv [OF that] show ?thesis by (auto simp: h)
  qed
  have "{a \<in> \<Union> (grants ` set (map h m)). ac_verb a \<noteq> ''watch''} = (\<Union>r\<in>set m. {a \<in> grants (h r). ac_verb a \<noteq> ''watch''})" by auto
  also have "\<dots> = \<Union> (grants ` set m)" using wg by simp
  finally show "{a \<in> \<Union> (grants ` set (map h m)). ac_verb a \<noteq> ''watch''} = \<Union> (grants ` set m)" .
  have "set (ru_verbs (h r)) \<subseteq> {''get'', ''list'', ''watch''}" if "r \<in> set m" for r
    using watched_grants(2) [of r] m [OF that] nw [OF that] by (auto simp: h)
  then show "\<Union> (set ` ru_verbs ` set (map h m)) \<subseteq> {''get'', ''list'', ''watch''}" by auto
  assume a: "a \<in> \<Union> (grants ` set (map h m))" "ac_verb a = ''watch''"
  then obtain r where r: "r \<in> set m" "a \<in> grants (h r)" by auto
  have "h = watched" using gv [OF r(1), of a] r(2) a(2) by (auto simp: h split: if_splits)
  with r watched_watch [of r a] m [OF r(1)] nw [OF r(1)] a(2)
  show "\<exists>b \<in> \<Union> (grants ` set m). ac_verb b = ''get'' \<and> ac_resource b = ac_resource a" by auto
qed

lemma secrets_only_full:
  assumes p: "p \<in> set rbac_profiles" and fs: "map lookup_feature (pf_features p) = map Some fs" "set fs \<subseteq> set rbac_features"
    and a: "a \<in> \<Union> (grants ` set (concat (map fu_rules fs)))" "ac_resource a = ''secrets''"
  shows "a = resource_access [] ''list'' ''secrets'' \<and> pf_name p = ''full''"
proof -
  from a(1) obtain f where f: "f \<in> set fs" "a \<in> \<Union> (grants ` set (fu_rules f))" by auto
  with fs(2) features_secrets have "no_secret_reads f" unfolding list_all_iff by blast
  with f(2) a(2) have c: "fu_id f = ''certs''" "a = resource_access [] ''list'' ''secrets''"
    by (auto simp: no_secret_reads_def list_all_iff grants_def)
  have "pf_features p \<noteq> [''core'']"
  proof
    assume "pf_features p = [''core'']"
    with fs(1) have e: "lookup_feature ''core'' = Some f" using f(1) by (cases fs) auto
    then have "fu_id f = ''core''" unfolding lookup_feature_def by (auto simp: find_Some_iff)
    with c show False by simp
  qed
  with c profile_names [OF p] show ?thesis by blast
qed

text \<open>
  C15. No profile can write. Every profile of the table resolves; its role has no verb but get, list and
  watch; leaving watch aside, it grants exactly what the rules of its features list; and only the full
  profile touches Secrets, which it can only list.
\<close>

theorem profiles_least_privilege:
  assumes "p \<in> set rbac_profiles"
  shows "\<exists>rs fs. resolve_profile p = Inr rs \<and> map lookup_feature (pf_features p) = map Some fs \<and>
    \<Union> (set ` ru_verbs ` set rs) \<subseteq> {''get'', ''list'', ''watch''} \<and>
    {a \<in> \<Union> (grants ` set rs). ac_verb a \<noteq> ''watch''} = \<Union> (grants ` set (concat (map fu_rules fs))) \<and>
    {a \<in> \<Union> (grants ` set rs). ac_resource a = ''secrets''} \<subseteq>
      (if pf_name p = ''full'' then {resource_access [] ''list'' ''secrets''} else {})"
proof -
  obtain rs0 where rs0: "resolve_features (pf_features p) = Inr rs0"
    using resolve_features_total profile_names [OF assms] by blast
  then obtain fs where fs: "map lookup_feature (pf_features p) = map Some fs" "set fs \<subseteq> set rbac_features" "rs0 = concat (map fu_rules fs)"
    using resolve_features_Inr by blast
  define h where "h = (if pf_watch p then watched else id)"
  let ?m = "merge_rules rs0"
  have res: "resolve_profile p = Inr (map h ?m)" by (simp add: resolve_profile_def rs0 h_def with_watch_map)
  have ok0: "list_all rule_ok rs0" using features_ok fs by (auto simp: list_all_iff)
  have vb0: "set (ru_verbs r) \<subseteq> {''get'', ''list''}" if "r \<in> set rs0" for r
    using features_verbs fs that by (auto simp: list_all_iff)
  note mp = merge_rules_props [OF ok0]
  have mok: "rule_ok r \<and> set (ru_verbs r) \<subseteq> {''get'', ''list''}" if "r \<in> set ?m" for r
    using mp(3) [OF that] vb0 by fastforce
  note el = elevate_grants [OF mok h_def]
  have "a = resource_access [] ''list'' ''secrets'' \<and> pf_name p = ''full''"
    if a: "a \<in> \<Union> (grants ` set (map h ?m))" "ac_resource a = ''secrets''" for a
  proof (cases "ac_verb a = ''watch''")
    case False
    with a el(1) mp(1) have "a \<in> \<Union> (grants ` set (concat (map fu_rules fs)))" using fs(3) by blast
    from secrets_only_full [OF assms fs(1,2) this a(2)] show ?thesis .
  next
    case True
    from el(3) [OF _ a(1) True] obtain b where b: "b \<in> \<Union> (grants ` set ?m)" "ac_verb b = ''get''" "ac_resource b = ''secrets''" using a(2) by auto
    with mp(1) fs(3) have "b \<in> \<Union> (grants ` set (concat (map fu_rules fs)))" by simp
    from secrets_only_full [OF assms fs(1,2) this b(3)] b(2) show ?thesis by (simp add: resource_access_def)
  qed
  then have "{a \<in> \<Union> (grants ` set (map h ?m)). ac_resource a = ''secrets''} \<subseteq>
      (if pf_name p = ''full'' then {resource_access [] ''list'' ''secrets''} else {})" by auto
  with res el(1,2) mp(1) fs(1,3) show ?thesis by (intro exI [of _ "map h ?m"] exI [of _ fs]) simp
qed

theorem profiles_least_privilege_witness:
  "\<exists>p rs fs. p \<in> set rbac_profiles \<and> resolve_profile p = Inr rs \<and> map lookup_feature (pf_features p) = map Some fs \<and>
    \<Union> (set ` ru_verbs ` set rs) \<subseteq> {''get'', ''list'', ''watch''}"
proof -
  let ?p = "\<lparr>pf_name = ''watch'', pf_features = [''core''], pf_watch = True\<rparr>"
  have m: "?p \<in> set rbac_profiles" by (simp add: rbac_profiles_def)
  note l = profiles_least_privilege [OF m]
  show ?thesis
    by (rule exI [of _ ?p], rule ex_forward [OF l], erule ex_forward, intro conjI m; (elim conjE)?; assumption)
qed

section \<open>What a check reports\<close>

lemma check_actions_eq:
  "check_actions ask parse as st =
    (case find (\<lambda>a. isl (ask a)) as of
       Some a \<Rightarrow> Inl (''could not check '' @ go_quote (access_text a) @ '': '' @ redact_error parse (projl (ask a)))
     | None \<Rightarrow> Inr (st\<lparr>fs_allowed := fs_allowed st \<and> list_all (\<lambda>a. ask a = Inr True) as,
         fs_missing := fs_missing st @ map access_text (filter (\<lambda>a. ask a = Inr False) as)\<rparr>))"
proof (induction "as" arbitrary: st)
  case Nil
  then show ?case by simp
next
  case (Cons a as)
  show ?case
  proof (cases "ask a")
    case (Inl e)
    then show ?thesis by simp
  next
    case (Inr b)
    then show ?thesis using Cons.IH by (cases b) (simp_all split: option.splits)
  qed
qed

lemma check_features_Inr:
  "check_features ask parse fs = Inr sts \<Longrightarrow>
    list_all2 (\<lambda>f st. fs_name st = fu_id f \<and> fs_flag st = fu_flag f \<and> list_all (\<lambda>a. \<not> isl (ask a)) (feature_actions f) \<and>
      (fs_allowed st \<longleftrightarrow> list_all (\<lambda>a. ask a = Inr True) (feature_actions f)) \<and>
      fs_missing st = map access_text (filter (\<lambda>a. ask a = Inr False) (feature_actions f))) fs sts"
proof (induction fs arbitrary: sts)
  case Nil
  then show ?case by simp
next
  case (Cons f fs)
  then obtain st sts' where "check_actions ask parse (feature_actions f)
        \<lparr>fs_name = fu_id f, fs_flag = fu_flag f, fs_summary = fu_summary f, fs_allowed = True, fs_missing = []\<rparr> = Inr st"
    "check_features ask parse fs = Inr sts'" "sts = st # sts'"
    by (auto split: sum.splits)
  with Cons.IH show ?case
    by (auto simp: check_actions_eq find_None_iff list_all_iff split: option.splits)
qed

lemma set_feature_actions: "list_all rule_ok (fu_rules f) \<Longrightarrow> set (feature_actions f) = \<Union> (grants ` set (fu_rules f))"
  unfolding merge_rules_props(1) [symmetric] by (simp add: feature_actions_def grants_def)

text \<open>
  C30. The RBAC check tells the truth about every feature of the table. When it returns, it has one line per
  feature, in order; a feature is called allowed iff the API server allowed every access its rules name,
  and otherwise the line names exactly the accesses the server denied. One review that fails makes the
  whole check fail: no feature is called allowed on the strength of an access nobody answered for.
\<close>

theorem check_reports:
  assumes "check_features ask parse rbac_features = Inr sts"
  shows "list_all2 (\<lambda>f st. fs_name st = fu_id f \<and> \<Union> (grants ` set (fu_rules f)) \<subseteq> {a. \<not> isl (ask a)} \<and>
      (fs_allowed st \<longleftrightarrow> \<Union> (grants ` set (fu_rules f)) \<subseteq> {a. ask a = Inr True}) \<and>
      set (fs_missing st) = access_text ` {a \<in> \<Union> (grants ` set (fu_rules f)). ask a = Inr False}) rbac_features sts"
proof -
  have "list_all2 (\<lambda>f st. f \<in> set rbac_features \<and> fs_name st = fu_id f \<and> list_all (\<lambda>a. \<not> isl (ask a)) (feature_actions f) \<and>
      (fs_allowed st \<longleftrightarrow> list_all (\<lambda>a. ask a = Inr True) (feature_actions f)) \<and>
      fs_missing st = map access_text (filter (\<lambda>a. ask a = Inr False) (feature_actions f))) rbac_features sts"
    using check_features_Inr [OF assms] by (auto simp: list_all2_conv_all_nth)
  then show ?thesis
  proof (rule list.rel_mono_strong)
    fix f st
    assume h: "f \<in> set rbac_features \<and> fs_name st = fu_id f \<and> list_all (\<lambda>a. \<not> isl (ask a)) (feature_actions f) \<and>
      (fs_allowed st \<longleftrightarrow> list_all (\<lambda>a. ask a = Inr True) (feature_actions f)) \<and>
      fs_missing st = map access_text (filter (\<lambda>a. ask a = Inr False) (feature_actions f))"
    have "list_all rule_ok (fu_rules f)"
      using features_ok [unfolded list_all_iff [of "\<lambda>f. list_all rule_ok (fu_rules f)"]] conjunct1 [OF h] by (rule bspec)
    then have s: "set (feature_actions f) = \<Union> (grants ` set (fu_rules f))" by (rule set_feature_actions)
    show "fs_name st = fu_id f \<and> \<Union> (grants ` set (fu_rules f)) \<subseteq> {a. \<not> isl (ask a)} \<and>
      (fs_allowed st \<longleftrightarrow> \<Union> (grants ` set (fu_rules f)) \<subseteq> {a. ask a = Inr True}) \<and>
      set (fs_missing st) = access_text ` {a \<in> \<Union> (grants ` set (fu_rules f)). ask a = Inr False}"
      using h unfolding s [symmetric] list_all_iff by (simp add: subset_eq)
  qed
qed

lemma check_features_total: "\<exists>sts. check_features (\<lambda>a. Inr (allow a)) parse fs = Inr sts"
proof (induction fs)
  case (Cons f fs)
  then show ?case by (auto simp: check_actions_eq find_None_iff split: option.splits sum.splits)
qed simp

theorem check_reports_witness:
  "\<exists>sts. check_features (\<lambda>a. Inr (ac_resource a \<noteq> ''secrets'')) (\<lambda>_. None) rbac_features = Inr sts \<and>
    list_all2 (\<lambda>f st. fs_allowed st \<longleftrightarrow>
      \<Union> (grants ` set (fu_rules f)) \<subseteq> {a. (Inr (ac_resource a \<noteq> ''secrets'') :: api_failure + bool) = Inr True}) rbac_features sts"
proof -
  obtain sts where s: "check_features (\<lambda>a. Inr (ac_resource a \<noteq> ''secrets'')) (\<lambda>_. None) rbac_features = Inr sts"
    by (rule exE [OF check_features_total [of "\<lambda>a. ac_resource a \<noteq> ''secrets''" "\<lambda>_. None" rbac_features]])
  from check_reports [OF s] have "list_all2 (\<lambda>f st. fs_allowed st \<longleftrightarrow>
      \<Union> (grants ` set (fu_rules f)) \<subseteq> {a. (Inr (ac_resource a \<noteq> ''secrets'') :: api_failure + bool) = Inr True}) rbac_features sts"
    by (rule list_all2_mono) blast
  with s show ?thesis by blast
qed

end
