(* ===== verification/Fleet.thy ===== *)
theory Fleet
  imports Gate Worker_Pool
begin

text \<open>
  \<open>internal/fleet\<close>: one sweep over many clusters. What reading a cluster answers, a scan result or an
  error, is an argument, the deadline of the cluster being part of that answer. The pool gives the
  answers in the order of the targets whatever the interleaving (\<open>Worker_Pool\<close>), and the rest is
  sequential. A Go map is the association list of its entries in the order it was built; that the
  iteration order does not matter is a theorem.
\<close>

section \<open>Data\<close>

record fleet_target =
  ft_name :: string
  ft_context :: string
  ft_client :: bool

datatype sweep_error = Deadline_Exceeded | Canceled | Client_Unavailable | Read_Error string

record cluster_summary =
  sm_name :: string
  sm_context :: string
  sm_verdict :: string
  sm_critical :: nat
  sm_warning :: nat
  sm_info :: nat
  sm_blindspots :: nat
  sm_top_issues :: "string list"

record unreachable =
  ur_name :: string
  ur_context :: string
  ur_reason :: string

record shared =
  sh_signal :: string
  sh_source :: string
  sh_clusters :: "string list"

record cluster_evidence =
  cv_id :: string
  cv_issues :: "(string, bool) gomap"
  cv_blindspots :: "(string, bool) gomap"

record fleet_report =
  fr_schema_version :: string
  fr_verdict :: string
  fr_code :: nat
  fr_fail_on :: level
  fr_clusters :: "cluster_summary list"
  fr_unreachable :: "unreachable list"
  fr_shared :: "shared list"

definition fleet_version :: string where "fleet_version = ''1.2''"

definition reason_unreachable :: string where "reason_unreachable = ''connecting to the cluster''"

definition reason_timed_out :: string where "reason_timed_out = ''timed out''"

definition source_issue :: string where "source_issue = ''issue''"

definition source_blindspot :: string where "source_blindspot = ''blindspot''"

definition max_fleet_workers :: int where "max_fleet_workers = 64"

definition max_top_issues :: nat where "max_top_issues = 3"

definition min_shared :: nat where "min_shared = 2"

section \<open>One cluster\<close>

definition row_identity :: "string \<Rightarrow> string \<Rightarrow> string" where
  "row_identity name context' = (if name \<noteq> [] then name else context')"

text \<open>The keys of the map by their count, then by name.\<close>

definition issue_order :: "(string, nat) gomap \<Rightarrow> string \<Rightarrow> string \<Rightarrow> bool" where
  "issue_order counts a b =
    (if mget_zero 0 counts a \<noteq> mget_zero 0 counts b then mget_zero 0 counts a > mget_zero 0 counts b else a < b)"

definition top_issues :: "(string, nat) gomap \<Rightarrow> string list" where
  "top_issues counts =
    (if counts = [] then []
     else let kinds = sort_slice (issue_order counts) (mkeys counts)
          in if length kinds > max_top_issues then take max_top_issues kinds else kinds)"

definition count_finding ::
    "gate_finding \<Rightarrow> cluster_summary \<times> (string, nat) gomap \<times> (string, bool) gomap \<Rightarrow>
     cluster_summary \<times> (string, nat) gomap \<times> (string, bool) gomap" where
  "count_finding f st =
    (let (s, counts, issues) = st;
         s' = (case gf_level f of Critical \<Rightarrow> s\<lparr>sm_critical := sm_critical s + 1\<rparr>
                 | Warning \<Rightarrow> s\<lparr>sm_warning := sm_warning s + 1\<rparr>
                 | Info \<Rightarrow> s\<lparr>sm_info := sm_info s + 1\<rparr>)
     in (s', mput (gf_issue f) (mget_zero 0 counts (gf_issue f) + 1) counts, mput (gf_issue f) True issues))"

definition summarize_cluster :: "string \<Rightarrow> string \<Rightarrow> gate_verdict \<Rightarrow> cluster_summary \<times> cluster_evidence" where
  "summarize_cluster name context' v =
    (let s0 = \<lparr>sm_name = name, sm_context = context', sm_verdict = gv_verdict v, sm_critical = 0, sm_warning = 0,
           sm_info = 0, sm_blindspots = length (gv_inconclusive v), sm_top_issues = []\<rparr>;
         (s, counts, issues) = fold count_finding (gv_failing v @ gv_reported v) (s0, [], []);
         blind = fold (\<lambda>b. mput (bs_resource b) True) (gv_inconclusive v) []
     in (s\<lparr>sm_top_issues := top_issues counts\<rparr>,
         \<lparr>cv_id = row_identity name context', cv_issues = issues, cv_blindspots = blind\<rparr>))"

section \<open>What clusters share\<close>

definition add_signals :: "string \<Rightarrow> (string, bool) gomap \<Rightarrow> (string, string list) gomap \<Rightarrow> (string, string list) gomap" where
  "add_signals i sigs m = fold (\<lambda>sig m. mput sig (mget_zero [] m sig @ [i]) m) (mkeys sigs) m"

definition gather :: "(string, string list) gomap \<Rightarrow> string \<Rightarrow> shared list" where
  "gather m source = List.map_filter (\<lambda>(sig, ids). if length ids < min_shared then None
     else Some \<lparr>sh_signal = sig, sh_source = source, sh_clusters = sort ids\<rparr>) m"

definition source_rank :: "string \<Rightarrow> nat" where
  "source_rank source = (if source = source_issue then 0 else 1)"

definition shared_less :: "shared \<Rightarrow> shared \<Rightarrow> bool" where
  "shared_less a b =
    (if source_rank (sh_source a) \<noteq> source_rank (sh_source b) then source_rank (sh_source a) < source_rank (sh_source b)
     else if length (sh_clusters a) \<noteq> length (sh_clusters b) then length (sh_clusters a) > length (sh_clusters b)
     else sh_signal a < sh_signal b)"

definition correlate :: "cluster_evidence list \<Rightarrow> shared list" where
  "correlate evs =
    (if length evs < min_shared then []
     else let issues = fold (\<lambda>e. add_signals (cv_id e) (cv_issues e)) evs [];
              blind = fold (\<lambda>e. add_signals (cv_id e) (cv_blindspots e)) evs []
          in sort_slice shared_less (gather issues source_issue @ gather blind source_blindspot))"

section \<open>The sweep\<close>

definition verdict_rank :: "string \<Rightarrow> nat" where
  "verdict_rank v = (if v = ''unreachable'' then 0 else if v = ''inconclusive'' then 1 else if v = ''fail'' then 2 else 3)"

definition summary_less :: "cluster_summary \<Rightarrow> cluster_summary \<Rightarrow> bool" where
  "summary_less a b =
    (if verdict_rank (sm_verdict a) \<noteq> verdict_rank (sm_verdict b) then verdict_rank (sm_verdict a) < verdict_rank (sm_verdict b)
     else if sm_critical a \<noteq> sm_critical b then sm_critical a > sm_critical b
     else if sm_warning a \<noteq> sm_warning b then sm_warning a > sm_warning b
     else if sm_info a \<noteq> sm_info b then sm_info a > sm_info b
     else row_identity (sm_name a) (sm_context a) < row_identity (sm_name b) (sm_context b))"

definition unreachable_less :: "unreachable \<Rightarrow> unreachable \<Rightarrow> bool" where
  "unreachable_less a b \<longleftrightarrow> row_identity (ur_name a) (ur_context a) < row_identity (ur_name b) (ur_context b)"

text \<open>The loop over the clusters returns at once when one is inconclusive.\<close>

fun decide_clusters :: "bool \<Rightarrow> cluster_summary list \<Rightarrow> bool option" where
  "decide_clusters failing [] = Some failing"
| "decide_clusters failing (c # cs) =
    (if sm_verdict c = ''inconclusive'' then None
     else decide_clusters (failing \<or> sm_verdict c = ''fail'') cs)"

definition decide_fleet :: "cluster_summary list \<Rightarrow> unreachable list \<Rightarrow> string \<times> nat" where
  "decide_fleet cs us =
    (case decide_clusters False cs of
       None \<Rightarrow> (''inconclusive'', CodeInconclusive)
     | Some failing \<Rightarrow>
         if length us > 0 then (''inconclusive'', CodeInconclusive)
         else if failing then (''fail'', CodeFail)
         else (''pass'', CodePass))"

definition reason_for :: "sweep_error \<Rightarrow> string" where
  "reason_for e = (if e = Deadline_Exceeded \<or> e = Canceled then reason_timed_out else reason_unreachable)"

definition fail_on_only :: "level \<Rightarrow> gate_options" where
  "fail_on_only l = \<lparr>go_fail_on = l, go_scope_kind = [], go_scope_name = [], go_scope_namespace = [], go_allow_partial = [],
     go_timed_out = False, go_timeout_detail = [], go_violations = [], go_not_evaluated = [], go_baseline = None\<rparr>"

definition sweep_one :: "(fleet_target \<Rightarrow> sweep_error + scan_result) \<Rightarrow> level \<Rightarrow> fleet_target \<Rightarrow> sweep_error + gate_verdict" where
  "sweep_one ask l t =
    (if \<not> ft_client t then Inl Client_Unavailable
     else case ask t of Inl e \<Rightarrow> Inl e | Inr res \<Rightarrow> Inr (decide res (fail_on_only l)))"

definition sweep_workers :: "int \<Rightarrow> int" where
  "sweep_workers w = (let w1 = (if w < 1 then 1 else w) in if w1 > max_fleet_workers then max_fleet_workers else w1)"

definition shown_identity :: "fleet_target \<Rightarrow> string \<times> string" where
  "shown_identity t =
    (let name = ft_name t; ctx = (if ft_context t = [] then name else ft_context t)
     in (if name = ctx then [] else name, ctx))"

definition add_outcome ::
    "fleet_target \<times> (sweep_error + gate_verdict) \<Rightarrow> cluster_summary list \<times> unreachable list \<times> cluster_evidence list \<Rightarrow>
     cluster_summary list \<times> unreachable list \<times> cluster_evidence list" where
  "add_outcome r st =
    (let (cs, us, evs) = st; (name, ctx) = shown_identity (fst r)
     in case snd r of
          Inl e \<Rightarrow> (cs, us @ [\<lparr>ur_name = name, ur_context = ctx, ur_reason = reason_for e\<rparr>], evs)
        | Inr v \<Rightarrow> (let (s, ev) = summarize_cluster name ctx v in (cs @ [s], us, evs @ [ev])))"

definition fleet_report_of :: "level \<Rightarrow> fleet_target list \<Rightarrow> (sweep_error + gate_verdict) list \<Rightarrow> fleet_report" where
  "fleet_report_of l targets results =
    (let (cs, us, evs) = fold add_outcome (zip targets results) ([], [], []);
         cs' = sort_slice summary_less cs;
         us' = sort_slice unreachable_less us;
         (verdict, code) = decide_fleet cs' us'
     in \<lparr>fr_schema_version = fleet_version, fr_verdict = verdict, fr_code = code, fr_fail_on = l, fr_clusters = cs',
         fr_unreachable = us', fr_shared = correlate evs\<rparr>)"

definition sweep :: "(fleet_target \<Rightarrow> sweep_error + scan_result) \<Rightarrow> level \<Rightarrow> fleet_target list \<Rightarrow> fleet_report" where
  "sweep ask l targets = fleet_report_of l targets (map (sweep_one ask l) targets)"

section \<open>The table\<close>

record fleet_row =
  rw_id :: string
  rw_verdict :: string
  rw_crit :: string
  rw_warn :: string
  rw_info :: string
  rw_detail :: string

definition verdict_width :: nat where "verdict_width = 12"

definition max_named_clusters :: nat where "max_named_clusters = 3"

text \<open>\<open>fmt\<close> pads by runes.\<close>

definition pad_left :: "nat \<Rightarrow> string \<Rightarrow> string" where
  "pad_left w s = replicate (w - length (go_runes s)) (CHR '' '') @ s"

definition pad_right :: "nat \<Rightarrow> string \<Rightarrow> string" where
  "pad_right w s = s @ replicate (w - length (go_runes s)) (CHR '' '')"

definition trim_trailing_spaces :: "string \<Rightarrow> string" where
  "trim_trailing_spaces s = rdrop_while (\<lambda>c. c = CHR '' '') s"

definition write_row :: "nat \<Rightarrow> fleet_row \<Rightarrow> string" where
  "write_row w r =
    trim_trailing_spaces (pad_right w (rw_id r) @ ''  '' @ pad_right verdict_width (rw_verdict r) @ ''  '' @
      pad_left 4 (rw_crit r) @ ''  '' @ pad_left 4 (rw_warn r) @ ''  '' @ pad_left 4 (rw_info r) @ ''  '' @ rw_detail r) @ newline"

definition detail_of :: "cluster_summary \<Rightarrow> string" where
  "detail_of c =
    (let detail = join (sm_top_issues c) '', '' in
     if sm_blindspots c = 0 then detail
     else let blind = ''('' @ itoa (int (sm_blindspots c)) @ '' '' @ (if sm_blindspots c = 1 then ''blind spot'' else ''blind spots'') @ '')''
          in if detail = [] then blind else detail @ '' '' @ blind)"

definition count_cell :: "shared \<Rightarrow> nat \<Rightarrow> string" where
  "count_cell s judged = itoa (int (length (sh_clusters s))) @ ''/'' @ itoa (int judged)"

definition named_clusters :: "string list \<Rightarrow> string" where
  "named_clusters ids =
    (if length ids \<le> max_named_clusters then join ids '', ''
     else join (take max_named_clusters ids) '', '' @ '', +'' @ itoa (int (length ids - max_named_clusters)) @ '' more'')"

definition render_section :: "fleet_report \<Rightarrow> string \<Rightarrow> shared list \<Rightarrow> string list" where
  "render_section rep title entries =
    (let judged = length (fr_clusters rep);
         cw = fold (\<lambda>s w. max w (length (count_cell s judged))) (fr_shared rep) 0;
         sw = fold (\<lambda>s w. max w (length (sh_signal s))) (fr_shared rep) 0
     in if entries = [] then []
        else [newline @ title @ ''  in '' @ itoa (int min_shared) @ '' or more of '' @ itoa (int judged) @ '' judged clusters'' @
                newline @ newline] @
             map (\<lambda>s. trim_trailing_spaces (''  '' @ pad_left cw (count_cell s judged) @ ''  '' @ pad_right sw (sh_signal s) @ ''  '' @
                named_clusters (sh_clusters s)) @ newline) entries)"

definition render_shared :: "fleet_report \<Rightarrow> string list" where
  "render_shared rep =
    render_section rep ''SHARED ISSUES'' (filter (\<lambda>s. sh_source s = source_issue) (fr_shared rep)) @
    render_section rep ''SHARED BLIND SPOTS'' (filter (\<lambda>s. sh_source s \<noteq> source_issue) (fr_shared rep))"

definition fleet_rows :: "fleet_report \<Rightarrow> fleet_row list" where
  "fleet_rows rep =
    map (\<lambda>u. \<lparr>rw_id = row_identity (ur_name u) (ur_context u), rw_verdict = ''unreachable'', rw_crit = [], rw_warn = [], rw_info = [],
      rw_detail = ur_reason u\<rparr>) (fr_unreachable rep) @
    map (\<lambda>c. \<lparr>rw_id = row_identity (sm_name c) (sm_context c), rw_verdict = sm_verdict c, rw_crit = itoa (int (sm_critical c)),
      rw_warn = itoa (int (sm_warning c)), rw_info = itoa (int (sm_info c)), rw_detail = detail_of c\<rparr>) (fr_clusters rep)"

definition render_fleet :: "fleet_report \<Rightarrow> string list" where
  "render_fleet rep =
    (let rows = fleet_rows rep;
         w = fold (\<lambda>r w. max w (length (rw_id r))) rows (length ''CLUSTER'');
         failing = length (filter (\<lambda>c. sm_verdict c = ''fail'') (fr_clusters rep))
     in [''FLEET  '' @ itoa (int (length (fr_clusters rep) + length (fr_unreachable rep))) @ '' clusters, '' @ itoa (int failing) @
           '' failing, '' @ itoa (int (length (fr_unreachable rep))) @ '' unreachable'' @ newline @ newline,
         write_row w \<lparr>rw_id = ''CLUSTER'', rw_verdict = ''VERDICT'', rw_crit = ''CRIT'', rw_warn = ''WARN'', rw_info = ''INFO'',
           rw_detail = ''TOP ISSUES''\<rparr>] @
        map (write_row w) rows @ render_shared rep @
        [newline @ ''verdict: '' @ fr_verdict rep @ '' (exit '' @ itoa (int (fr_code rep)) @ '')'' @ newline])"

section \<open>The sweep without its loops\<close>

definition target_id :: "fleet_target \<Rightarrow> string" where
  "target_id t = (if ft_name t \<noteq> [] then ft_name t else ft_context t)"

lemma row_identity_shown: "row_identity (fst (shown_identity t)) (snd (shown_identity t)) = target_id t"
  by (auto simp: row_identity_def shown_identity_def target_id_def Let_def)

definition summary_of :: "(fleet_target \<Rightarrow> sweep_error + gate_verdict) \<Rightarrow> fleet_target \<Rightarrow> cluster_summary option" where
  "summary_of f t = (case f t of Inl e \<Rightarrow> None
     | Inr v \<Rightarrow> Some (fst (summarize_cluster (fst (shown_identity t)) (snd (shown_identity t)) v)))"

definition lost_of :: "(fleet_target \<Rightarrow> sweep_error + gate_verdict) \<Rightarrow> fleet_target \<Rightarrow> unreachable option" where
  "lost_of f t = (case f t of Inr v \<Rightarrow> None
     | Inl e \<Rightarrow> Some \<lparr>ur_name = fst (shown_identity t), ur_context = snd (shown_identity t), ur_reason = reason_for e\<rparr>)"

definition evidence_of :: "(fleet_target \<Rightarrow> sweep_error + gate_verdict) \<Rightarrow> fleet_target \<Rightarrow> cluster_evidence option" where
  "evidence_of f t = (case f t of Inl e \<Rightarrow> None
     | Inr v \<Rightarrow> Some (snd (summarize_cluster (fst (shown_identity t)) (snd (shown_identity t)) v)))"

lemma add_outcome_step:
  "add_outcome (t, f t) (cs, us, evs) =
    (cs @ (case summary_of f t of None \<Rightarrow> [] | Some c \<Rightarrow> [c]), us @ (case lost_of f t of None \<Rightarrow> [] | Some u \<Rightarrow> [u]),
     evs @ (case evidence_of f t of None \<Rightarrow> [] | Some e \<Rightarrow> [e]))"
  by (cases "f t") (simp_all add: add_outcome_def summary_of_def lost_of_def evidence_of_def Let_def split_def)

lemma add_outcomes:
  "fold add_outcome (map (\<lambda>t. (t, f t)) ts) (cs, us, evs) =
    (cs @ List.map_filter (summary_of f) ts, us @ List.map_filter (lost_of f) ts, evs @ List.map_filter (evidence_of f) ts)"
proof (induction ts arbitrary: cs us evs)
  case (Cons t ts)
  show ?case by (simp add: add_outcome_step Cons.IH split: option.splits)
qed simp

lemma sweep_eq:
  "sweep ask l ts =
    (let f = sweep_one ask l;
         cs = sort_slice summary_less (List.map_filter (summary_of f) ts);
         us = sort_slice unreachable_less (List.map_filter (lost_of f) ts)
     in \<lparr>fr_schema_version = fleet_version, fr_verdict = fst (decide_fleet cs us), fr_code = snd (decide_fleet cs us),
         fr_fail_on = l, fr_clusters = cs, fr_unreachable = us, fr_shared = correlate (List.map_filter (evidence_of f) ts)\<rparr>)"
proof -
  have "zip ts (map (sweep_one ask l) ts) = map (\<lambda>t. (t, sweep_one ask l t)) ts"
    by (induction ts) auto
  then show ?thesis by (simp add: sweep_def fleet_report_of_def add_outcomes split_def Let_def)
qed

lemma mset_kept: "mset (List.map_filter f xs) = image_mset (the \<circ> f) (filter_mset (\<lambda>x. f x \<noteq> None) (mset xs))"
  by (simp add: map_filter_def mset_filter)

section \<open>The verdict\<close>

lemma fold_count_finding:
  "fold count_finding fs (s, counts, issues) =
    (s\<lparr>sm_critical := sm_critical s + length (filter (\<lambda>f. gf_level f = Critical) fs),
       sm_warning := sm_warning s + length (filter (\<lambda>f. gf_level f = Warning) fs),
       sm_info := sm_info s + length (filter (\<lambda>f. gf_level f = Info) fs)\<rparr>,
     fold (\<lambda>f m. mput (gf_issue f) (mget_zero 0 m (gf_issue f) + 1) m) fs counts,
     fold (\<lambda>f. mput (gf_issue f) True) fs issues)"
  by (induction fs arbitrary: s counts issues) (auto simp: count_finding_def Let_def split: level.split)

lemma summarize_cluster_simps:
  "sm_name (fst (summarize_cluster n c v)) = n" "sm_context (fst (summarize_cluster n c v)) = c"
  "sm_verdict (fst (summarize_cluster n c v)) = gv_verdict v"
  "cv_id (snd (summarize_cluster n c v)) = row_identity n c"
  "cv_issues (snd (summarize_cluster n c v)) = fold (\<lambda>f. mput (gf_issue f) True) (gv_failing v @ gv_reported v) []"
  "cv_blindspots (snd (summarize_cluster n c v)) = fold (\<lambda>b. mput (bs_resource b) True) (gv_inconclusive v) []"
  by (simp_all add: summarize_cluster_def fold_count_finding split_def Let_def del: fold_append)

lemma decide_clusters_eq:
  "decide_clusters failing cs =
    (if \<exists>c\<in>set cs. sm_verdict c = ''inconclusive'' then None else Some (failing \<or> (\<exists>c\<in>set cs. sm_verdict c = ''fail'')))"
  by (induction cs arbitrary: failing) auto

lemma gate_verdict_of_code:
  "gv_verdict (decide res (fail_on_only l)) = ''inconclusive'' \<longleftrightarrow> gv_code (decide res (fail_on_only l)) = CodeInconclusive"
  "gv_verdict (decide res (fail_on_only l)) = ''fail'' \<longleftrightarrow> gv_code (decide res (fail_on_only l)) = CodeFail"
  "gv_code (decide res (fail_on_only l)) \<in> {CodePass, CodeFail, CodeInconclusive}"
  using decide_code [of res "fail_on_only l"] by (auto simp: fail_on_only_def split: if_splits)

definition judged_as :: "(fleet_target \<Rightarrow> sweep_error + scan_result) \<Rightarrow> level \<Rightarrow> fleet_target \<Rightarrow> nat option" where
  "judged_as ask l t = (case sweep_one ask l t of Inl e \<Rightarrow> None | Inr v \<Rightarrow> Some (gv_code v))"

lemma sweep_one_decide: "sweep_one ask l t = Inr v \<Longrightarrow> \<exists>res. ft_client t \<and> ask t = Inr res \<and> v = decide res (fail_on_only l)"
  by (auto simp: sweep_one_def split: if_splits sum.splits)

lemma fleet_code:
  "fr_code (sweep ask l ts) =
    (if \<exists>t\<in>set ts. judged_as ask l t \<in> {None, Some CodeInconclusive} then CodeInconclusive
     else if \<exists>t\<in>set ts. judged_as ask l t = Some CodeFail then CodeFail else CodePass)"
proof -
  let ?f = "sweep_one ask l"
  let ?cs = "sort_slice summary_less (List.map_filter (summary_of ?f) ts)"
  let ?us = "sort_slice unreachable_less (List.map_filter (lost_of ?f) ts)"
  have v: "(\<exists>c\<in>set ?cs. sm_verdict c = w) \<longleftrightarrow> (\<exists>t\<in>set ts. \<exists>v. ?f t = Inr v \<and> gv_verdict v = w)" for w
  proof -
    have sm: "summary_of ?f t = Some c \<longleftrightarrow>
        (\<exists>v. ?f t = Inr v \<and> c = fst (summarize_cluster (fst (shown_identity t)) (snd (shown_identity t)) v))" for t c
      by (auto simp: summary_of_def split: sum.splits)
    show ?thesis
    proof
      assume "\<exists>c\<in>set ?cs. sm_verdict c = w"
      then obtain c where c: "c \<in> set (List.map_filter (summary_of ?f) ts)" "sm_verdict c = w" by auto
      then obtain t where t: "t \<in> set ts" "summary_of ?f t = Some c" by (auto simp: set_map_filter)
      then obtain v where "?f t = Inr v" "c = fst (summarize_cluster (fst (shown_identity t)) (snd (shown_identity t)) v)"
        unfolding sm by blast
      with c(2) t(1) show "\<exists>t\<in>set ts. \<exists>v. ?f t = Inr v \<and> gv_verdict v = w"
        by (intro bexI [of _ t] exI [of _ v]) (simp_all add: summarize_cluster_simps(3))
    next
      assume "\<exists>t\<in>set ts. \<exists>v. ?f t = Inr v \<and> gv_verdict v = w"
      then obtain t v where t: "t \<in> set ts" "?f t = Inr v" "gv_verdict v = w" by blast
      let ?c = "fst (summarize_cluster (fst (shown_identity t)) (snd (shown_identity t)) v)"
      have "?c \<in> set ?cs" using t by (auto simp: set_map_filter sm)
      with t(3) show "\<exists>c\<in>set ?cs. sm_verdict c = w" by (intro bexI [of _ ?c]) (simp add: summarize_cluster_simps(3))
    qed
  qed
  have g: "(gv_verdict v = ''inconclusive'' \<longleftrightarrow> gv_code v = CodeInconclusive) \<and> (gv_verdict v = ''fail'' \<longleftrightarrow> gv_code v = CodeFail)"
    if "?f t = Inr v" for t v
    using sweep_one_decide [OF that] by (auto simp: gate_verdict_of_code)
  have k: "judged_as ask l t = Some k \<longleftrightarrow> (\<exists>v. ?f t = Inr v \<and> gv_code v = k)" for t k
    by (auto simp: judged_as_def split: sum.splits)
  have inc: "(\<exists>c\<in>set ?cs. sm_verdict c = ''inconclusive'') \<longleftrightarrow> (\<exists>t\<in>set ts. judged_as ask l t = Some CodeInconclusive)"
    unfolding v k using g by blast
  have fl: "(\<exists>c\<in>set ?cs. sm_verdict c = ''fail'') \<longleftrightarrow> (\<exists>t\<in>set ts. judged_as ask l t = Some CodeFail)"
    unfolding v k using g by blast
  have un: "length ?us > 0 \<longleftrightarrow> (\<exists>t\<in>set ts. judged_as ask l t = None)"
    by (auto simp: length_greater_0_conv map_filter_def filter_empty_conv lost_of_def judged_as_def split: sum.splits)
  show ?thesis
    unfolding sweep_eq Let_def fleet_report.simps decide_fleet_def decide_clusters_eq inc fl un simp_thms
    by (cases "\<exists>t\<in>set ts. judged_as ask l t = Some CodeInconclusive"; cases "\<exists>t\<in>set ts. judged_as ask l t = None";
        cases "\<exists>t\<in>set ts. judged_as ask l t = Some CodeFail") (simp_all, blast+)
qed

section \<open>What is shared\<close>

lemma fold_signals:
  "distinct ks \<Longrightarrow> mget_zero [] (fold (\<lambda>sig m. mput sig (mget_zero [] m sig @ [i]) m) ks m) sig =
     mget_zero [] m sig @ (if sig \<in> set ks then [i] else [])"
  by (induction ks arbitrary: m) auto

lemma add_signals_mok: "mok m \<Longrightarrow> mok (add_signals i sigs m)"
  unfolding add_signals_def by (rule fold_inv) auto

lemma all_signals:
  assumes "\<forall>e\<in>set evs. mok (sigs e)"
  shows "mget_zero [] (fold (\<lambda>e. add_signals (cv_id e) (sigs e)) evs m) sig =
      mget_zero [] m sig @ map cv_id (filter (\<lambda>e. sig \<in> set (mkeys (sigs e))) evs)"
  using assms by (induction evs arbitrary: m) (auto simp: add_signals_def fold_signals mok_def)

lemma all_signals_mok: "mok m \<Longrightarrow> mok (fold (\<lambda>e. add_signals (cv_id e) (sigs e)) evs m)"
  by (rule fold_inv) (rule add_signals_mok)

lemma set_gather:
  assumes "mok m"
  shows "s \<in> set (gather m source) \<longleftrightarrow>
    sh_source s = source \<and> sh_clusters s = sort (mget_zero [] m (sh_signal s)) \<and> min_shared \<le> length (mget_zero [] m (sh_signal s))"
proof -
  have "s \<in> set (gather m source) \<longleftrightarrow> (\<exists>sig ids. (sig, ids) \<in> set m \<and> \<not> length ids < min_shared \<and>
      s = \<lparr>sh_signal = sig, sh_source = source, sh_clusters = sort ids\<rparr>)"
  proof
    assume "s \<in> set (gather m source)"
    then obtain sig ids where "(sig, ids) \<in> set m" "(if length ids < min_shared then None
        else Some \<lparr>sh_signal = sig, sh_source = source, sh_clusters = sort ids\<rparr>) = Some s"
      by (auto simp: gather_def set_map_filter)
    then show "\<exists>sig ids. (sig, ids) \<in> set m \<and> \<not> length ids < min_shared \<and>
        s = \<lparr>sh_signal = sig, sh_source = source, sh_clusters = sort ids\<rparr>"
      by (intro exI [of _ sig] exI [of _ ids]) (simp split: if_splits)
  qed (auto simp: gather_def set_map_filter intro: bexI [rotated])
  also have "\<dots> \<longleftrightarrow> (\<exists>sig ids. mget m sig = Some ids \<and> \<not> length ids < min_shared \<and>
      s = \<lparr>sh_signal = sig, sh_source = source, sh_clusters = sort ids\<rparr>)"
    unfolding in_set_mget [OF assms] ..
  also have "\<dots> \<longleftrightarrow> sh_source s = source \<and> sh_clusters s = sort (mget_zero [] m (sh_signal s)) \<and>
      min_shared \<le> length (mget_zero [] m (sh_signal s))"
    by (cases s) (auto simp: mget_zero_def min_shared_def not_less split: option.splits)
  finally show ?thesis .
qed

lemma distinct_gather: "mok m \<Longrightarrow> distinct (map sh_signal (gather m source))"
proof (induction m)
  case (Cons e m)
  then have "sh_signal ` set (gather m source) \<subseteq> fst ` set m"
    by (force simp: gather_def set_map_filter split: if_splits)
  with Cons show ?case by (cases e) (auto simp: gather_def)
qed (simp add: gather_def)

definition shared_key :: "shared \<Rightarrow> nat \<times> int \<times> string" where
  "shared_key s = (source_rank (sh_source s), - int (length (sh_clusters s)), sh_signal s)"

lemma shared_less_key: "shared_less = key_less shared_key"
  by (auto simp: fun_eq_iff shared_less_def key_less_def shared_key_def lex_less)

definition evidence_ok :: "cluster_evidence \<Rightarrow> bool" where
  "evidence_ok e \<longleftrightarrow> mok (cv_issues e) \<and> mok (cv_blindspots e)"

definition showing :: "string \<Rightarrow> string \<Rightarrow> cluster_evidence \<Rightarrow> bool" where
  "showing source sig e \<longleftrightarrow> sig \<in> set (mkeys (if source = source_issue then cv_issues e else cv_blindspots e))"

definition shared_spec :: "cluster_evidence list \<Rightarrow> shared \<Rightarrow> bool" where
  "shared_spec evs s \<longleftrightarrow> sh_source s \<in> {source_issue, source_blindspot} \<and>
     sh_clusters s = sort (map cv_id (filter (showing (sh_source s) (sh_signal s)) evs)) \<and> min_shared \<le> length (sh_clusters s)"

definition gathered :: "cluster_evidence list \<Rightarrow> shared list" where
  "gathered evs = gather (fold (\<lambda>e. add_signals (cv_id e) (cv_issues e)) evs []) source_issue @
     gather (fold (\<lambda>e. add_signals (cv_id e) (cv_blindspots e)) evs []) source_blindspot"

lemma showing_at:
  "showing source_issue sig = (\<lambda>e. sig \<in> fst ` set (cv_issues e))"
  "showing source_blindspot sig = (\<lambda>e. sig \<in> fst ` set (cv_blindspots e))"
  by (auto simp: fun_eq_iff showing_def source_issue_def source_blindspot_def)

lemma gathered_props:
  assumes "\<forall>e\<in>set evs. evidence_ok e"
  shows "s \<in> set (gathered evs) \<longleftrightarrow> shared_spec evs s"
    and "distinct (gathered evs)" and "inj_on shared_key (set (gathered evs))"
proof -
  have a: "\<forall>e\<in>set evs. mok (cv_issues e)" "\<forall>e\<in>set evs. mok (cv_blindspots e)"
    using assms by (auto simp: evidence_ok_def)
  let ?i = "fold (\<lambda>e. add_signals (cv_id e) (cv_issues e)) evs []"
  let ?b = "fold (\<lambda>e. add_signals (cv_id e) (cv_blindspots e)) evs []"
  have m: "mok ?i" "mok ?b" by (rule all_signals_mok, simp)+
  have src: "source_issue \<noteq> source_blindspot" by (simp add: source_issue_def source_blindspot_def)
  have gi: "s \<in> set (gather ?i source_issue) \<longleftrightarrow> sh_source s = source_issue \<and> shared_spec evs s" for s
    unfolding set_gather [OF m(1)] all_signals [OF a(1)] by (auto simp: shared_spec_def showing_at mget_zero_def)
  have gb: "s \<in> set (gather ?b source_blindspot) \<longleftrightarrow> sh_source s = source_blindspot \<and> shared_spec evs s" for s
    unfolding set_gather [OF m(2)] all_signals [OF a(2)] by (auto simp: shared_spec_def showing_at mget_zero_def)
  show mem: "s \<in> set (gathered evs) \<longleftrightarrow> shared_spec evs s" for s
    unfolding gathered_def set_append Un_iff gi gb by (auto simp: shared_spec_def)
  show "distinct (gathered evs)"
    using distinct_gather [OF m(1), of source_issue] distinct_gather [OF m(2), of source_blindspot] src gi gb
    unfolding gathered_def distinct_append by (auto simp: distinct_map)
  show "inj_on shared_key (set (gathered evs))"
  proof (rule inj_onI)
    fix x y assume xy: "x \<in> set (gathered evs)" "y \<in> set (gathered evs)" "shared_key x = shared_key y"
    then have "sh_source x = sh_source y" "sh_signal x = sh_signal y" "shared_spec evs x" "shared_spec evs y"
      using src by (auto simp: mem shared_spec_def shared_key_def source_rank_def split: if_splits)
    then show "x = y" by (cases x; cases y) (auto simp: shared_spec_def)
  qed
qed

lemma correlate_eq:
  assumes "\<forall>e\<in>set evs. evidence_ok e"
  shows "correlate evs = sort_slice (key_less shared_key) (gathered evs)"
proof (cases "length evs < min_shared")
  case True
  have "\<not> shared_spec evs s" for s
    using True by (metis leD le_trans length_filter_le length_map length_sort shared_spec_def)
  then have "gathered evs = []" using gathered_props(1) [OF assms] by (metis list.set_intros(1) list.exhaust)
  with True show ?thesis by (simp add: correlate_def)
next
  case False
  then show ?thesis by (simp add: correlate_def gathered_def shared_less_key Let_def)
qed

lemma correlate_perm:
  assumes "\<forall>e\<in>set evs. evidence_ok e" and "mset evs = mset evs'"
  shows "correlate evs = correlate evs'"
proof -
  have ok: "\<forall>e\<in>set evs'. evidence_ok e" using assms by (metis set_mset_mset)
  have "shared_spec evs s \<longleftrightarrow> shared_spec evs' s" for s
  proof -
    have "mset (map cv_id (filter P evs)) = mset (map cv_id (filter P evs'))" for P
      using assms(2) by (simp add: mset_filter)
    then have "sort (map cv_id (filter P evs)) = sort (map cv_id (filter P evs'))" for P
      by (intro properties_for_sort) simp_all
    then show ?thesis by (simp add: shared_spec_def)
  qed
  then have "set (gathered evs) = set (gathered evs')"
    using gathered_props(1) [OF assms(1)] gathered_props(1) [OF ok] by blast
  then have "mset (gathered evs) = mset (gathered evs')"
    using gathered_props(2) [OF assms(1)] gathered_props(2) [OF ok] set_eq_iff_mset_eq_distinct by blast
  then show ?thesis
    unfolding correlate_eq [OF assms(1)] correlate_eq [OF ok]
    by (rule sort_slice_inj) (rule gathered_props(3) [OF assms(1)])
qed

section \<open>The order of the targets\<close>

lemma mok_fold_key: "mok m \<Longrightarrow> mok (fold (\<lambda>x. mput (key x) v) xs m)"
  by (rule fold_inv) simp_all

lemma keys_fold_key: "fst ` set (fold (\<lambda>x. mput (key x) v) xs m) = fst ` set m \<union> key ` set xs"
proof (induction xs arbitrary: m)
  case (Cons x xs)
  have "fst ` set (mput (key x) v m) = insert (key x) (fst ` set m)"
    by (simp add: dom_update [symmetric] flip: dom_map_of_conv_image_fst) (simp add: AList.update_conv')
  with Cons show ?case by auto
qed simp

lemma evidence_Some:
  "evidence_of f t = Some e \<longleftrightarrow> (\<exists>v. f t = Inr v \<and> e = snd (summarize_cluster (fst (shown_identity t)) (snd (shown_identity t)) v))"
  by (auto simp: evidence_of_def split: sum.splits)

lemma evidence_of_ok: "\<forall>e\<in>set (List.map_filter (evidence_of f) ts). evidence_ok e"
  by (auto simp: set_map_filter evidence_Some evidence_ok_def summarize_cluster_simps mok_fold_key simp del: fold_append)

definition summary_key :: "cluster_summary \<Rightarrow> nat \<times> int \<times> int \<times> int \<times> string" where
  "summary_key c = (verdict_rank (sm_verdict c), - int (sm_critical c), - int (sm_warning c), - int (sm_info c),
     row_identity (sm_name c) (sm_context c))"

lemma summary_less_key: "summary_less = key_less summary_key"
  by (auto simp: fun_eq_iff summary_less_def key_less_def summary_key_def lex_less)

definition unreachable_key :: "unreachable \<Rightarrow> string" where
  "unreachable_key u = row_identity (ur_name u) (ur_context u)"

lemma unreachable_less_key: "unreachable_less = key_less unreachable_key"
  by (auto simp: fun_eq_iff unreachable_less_def key_less_def unreachable_key_def)

lemma inj_on_map_filter:
  assumes "\<And>x y. x \<in> set xs \<Longrightarrow> f x = Some y \<Longrightarrow> key y = k x" and "inj_on k (set xs)"
  shows "inj_on key (set (List.map_filter f xs))"
proof (rule inj_onI)
  fix a b assume "a \<in> set (List.map_filter f xs)" "b \<in> set (List.map_filter f xs)" "key a = key b"
  then obtain x y where "x \<in> set xs" "y \<in> set xs" "f x = Some a" "f y = Some b" by (auto simp: set_map_filter)
  with assms \<open>key a = key b\<close> have "x = y" by (metis inj_onD)
  with \<open>f x = Some a\<close> \<open>f y = Some b\<close> show "a = b" by simp
qed

lemma summary_identity: "summary_of f t = Some c \<Longrightarrow> row_identity (sm_name c) (sm_context c) = target_id t"
  by (auto simp: summary_of_def summarize_cluster_simps row_identity_shown split: sum.splits)

lemma lost_identity: "lost_of f t = Some u \<Longrightarrow> row_identity (ur_name u) (ur_context u) = target_id t"
  by (auto simp: lost_of_def row_identity_shown split: sum.splits)

lemma lost_reason: "lost_of f t = Some u \<Longrightarrow> ur_reason u \<in> {reason_unreachable, reason_timed_out}"
  by (auto simp: lost_of_def reason_for_def split: sum.splits if_splits)

lemma sweep_perm:
  assumes "mset ts = mset ts'" and "distinct (map target_id ts)"
  shows "sweep ask l ts = sweep ask l ts'"
proof -
  let ?f = "sweep_one ask l"
  have inj: "inj_on target_id (set ts)" using assms(2) by (simp add: distinct_map)
  have m: "mset (List.map_filter g ts) = mset (List.map_filter g ts')" for g :: "fleet_target \<Rightarrow> 'a option"
    by (simp add: mset_kept assms(1))
  have "inj_on summary_key (set (List.map_filter (summary_of ?f) ts))"
    using inj_on_map_filter [OF _ inj, of "summary_of ?f" "\<lambda>c. row_identity (sm_name c) (sm_context c)"]
    by (auto simp: summary_identity inj_on_def summary_key_def)
  then have cs: "sort_slice summary_less (List.map_filter (summary_of ?f) ts) = sort_slice summary_less (List.map_filter (summary_of ?f) ts')"
    unfolding summary_less_key by (rule sort_slice_inj [OF m])
  have "inj_on unreachable_key (set (List.map_filter (lost_of ?f) ts))"
    by (rule inj_on_map_filter [OF _ inj]) (simp add: unreachable_key_def lost_identity)
  then have us: "sort_slice unreachable_less (List.map_filter (lost_of ?f) ts) = sort_slice unreachable_less (List.map_filter (lost_of ?f) ts')"
    unfolding unreachable_less_key by (rule sort_slice_inj [OF m])
  have "correlate (List.map_filter (evidence_of ?f) ts) = correlate (List.map_filter (evidence_of ?f) ts')"
    by (rule correlate_perm [OF evidence_of_ok m])
  with cs us show ?thesis by (simp add: sweep_eq Let_def)
qed

text \<open>
  C13. The report is a function of the fleet alone: however the pool of any size interleaved the reads of
  the clusters, in whatever order they were selected and answered, it is the report of the plain
  loop, as long as no two clusters share an identity.
\<close>

theorem sweep_deterministic:
  assumes "pool_reachable (\<lambda>i. sweep_one ask l (ts' ! i)) workers (length ts') z s" and "po_returned s"
    and "mset ts = mset ts'" and "distinct (map target_id ts)"
  shows "fleet_report_of l ts' (po_out s) = sweep ask l ts"
proof -
  have "po_out s = map (\<lambda>i. sweep_one ask l (ts' ! i)) [0..<length ts']"
    using pool_result [OF pool_invariant [OF assms(1)] assms(2)] by blast
  also have "\<dots> = map (sweep_one ask l) ts'" by (rule nth_equalityI) simp_all
  finally have "fleet_report_of l ts' (po_out s) = sweep ask l ts'" by (simp add: sweep_def)
  with sweep_perm [OF assms(3,4), of ask l] show ?thesis by simp
qed

text \<open>
  C12. Every cluster of the selection is in the report exactly once, judged or unreachable with one of two
  fixed reasons. The fleet passes exactly when every cluster was read and passes its own gate; it
  is inconclusive as soon as one could not be judged, whatever the others say, and fails otherwise.
\<close>

theorem sweep_complete:
  "mset (map (\<lambda>c. row_identity (sm_name c) (sm_context c)) (fr_clusters (sweep ask l ts))) +
     mset (map (\<lambda>u. row_identity (ur_name u) (ur_context u)) (fr_unreachable (sweep ask l ts))) = mset (map target_id ts) \<and>
   ur_reason ` set (fr_unreachable (sweep ask l ts)) \<subseteq> {reason_unreachable, reason_timed_out} \<and>
   fr_code (sweep ask l ts) =
    (if \<exists>t\<in>set ts. judged_as ask l t \<in> {None, Some CodeInconclusive} then CodeInconclusive
     else if \<exists>t\<in>set ts. judged_as ask l t = Some CodeFail then CodeFail else CodePass) \<and>
   (fr_code (sweep ask l ts) = CodePass \<longleftrightarrow> set ts \<subseteq> {t. judged_as ask l t = Some CodePass})"
proof (intro conjI)
  let ?f = "sweep_one ask l"
  let ?ci = "\<lambda>c. row_identity (sm_name c) (sm_context c)" and ?ui = "\<lambda>u. row_identity (ur_name u) (ur_context u)"
  have "mset (map ?ci (List.map_filter (summary_of ?f) ts)) + mset (map ?ui (List.map_filter (lost_of ?f) ts)) = mset (map target_id ts)"
  proof (induction ts)
    case (Cons t ts)
    have "(\<exists>c. summary_of ?f t = Some c \<and> lost_of ?f t = None) \<or> (\<exists>u. summary_of ?f t = None \<and> lost_of ?f t = Some u)"
      by (cases "?f t") (simp_all add: summary_of_def lost_of_def)
    with Cons show ?case by (auto simp: summary_identity lost_identity)
  qed simp
  then show "mset (map ?ci (fr_clusters (sweep ask l ts))) + mset (map ?ui (fr_unreachable (sweep ask l ts))) = mset (map target_id ts)"
    by (simp add: sweep_eq Let_def)
  show "ur_reason ` set (fr_unreachable (sweep ask l ts)) \<subseteq> {reason_unreachable, reason_timed_out}"
    by (auto simp: sweep_eq Let_def set_map_filter dest: lost_reason)
  show "fr_code (sweep ask l ts) =
    (if \<exists>t\<in>set ts. judged_as ask l t \<in> {None, Some CodeInconclusive} then CodeInconclusive
     else if \<exists>t\<in>set ts. judged_as ask l t = Some CodeFail then CodeFail else CodePass)"
    by (rule fleet_code)
  have j: "judged_as ask l t \<in> {None, Some CodePass, Some CodeFail, Some CodeInconclusive}" for t
  proof (cases "sweep_one ask l t")
    case (Inr v)
    then obtain res where "v = decide res (fail_on_only l)" by (blast dest: sweep_one_decide)
    with Inr gate_verdict_of_code(3) [of res l] show ?thesis by (auto simp: judged_as_def)
  qed (simp add: judged_as_def)
  have "judged_as ask l t = Some CodePass \<longleftrightarrow> judged_as ask l t \<notin> {None, Some CodeInconclusive} \<and> judged_as ask l t \<noteq> Some CodeFail" for t
    using j [of t] by (elim insertE emptyE) simp_all
  then have "set ts \<subseteq> {t. judged_as ask l t = Some CodePass} \<longleftrightarrow>
      \<not> (\<exists>t\<in>set ts. judged_as ask l t \<in> {None, Some CodeInconclusive}) \<and> \<not> (\<exists>t\<in>set ts. judged_as ask l t = Some CodeFail)"
    by blast
  then show "fr_code (sweep ask l ts) = CodePass \<longleftrightarrow> set ts \<subseteq> {t. judged_as ask l t = Some CodePass}"
    unfolding fleet_code by simp
qed

text \<open>
  A signal is reported as shared exactly when at least two of the clusters that were judged show it,
  an issue in their findings or a resource that could not be read, once per cluster however often it
  occurs there, and with all of those clusters and no others.
\<close>

theorem shared_exact:
  "s \<in> set (fr_shared (sweep ask l ts)) \<longleftrightarrow>
    sh_source s \<in> {source_issue, source_blindspot} \<and>
    sh_clusters s = sort (map target_id (filter (\<lambda>t. case sweep_one ask l t of Inl e \<Rightarrow> False
      | Inr v \<Rightarrow> sh_signal s \<in> (if sh_source s = source_issue then gf_issue ` set (gv_failing v @ gv_reported v)
          else bs_resource ` set (gv_inconclusive v))) ts)) \<and>
    2 \<le> length (sh_clusters s)"
proof -
  let ?f = "sweep_one ask l"
  let ?show = "\<lambda>t. case ?f t of Inl e \<Rightarrow> False
      | Inr v \<Rightarrow> sh_signal s \<in> (if sh_source s = source_issue then gf_issue ` set (gv_failing v @ gv_reported v)
          else bs_resource ` set (gv_inconclusive v))"
  have "map cv_id (filter (showing (sh_source s) (sh_signal s)) (List.map_filter (evidence_of ?f) ts)) = map target_id (filter ?show ts)"
  proof (induction ts)
    case (Cons t ts)
    show ?case
    proof (cases "?f t")
      case (Inl e)
      with Cons show ?thesis by (simp add: evidence_of_def)
    next
      case (Inr v)
      let ?e = "snd (summarize_cluster (fst (shown_identity t)) (snd (shown_identity t)) v)"
      have "showing (sh_source s) (sh_signal s) ?e \<longleftrightarrow> ?show t"
        by (auto simp: showing_def Inr summarize_cluster_simps keys_fold_key simp del: fold_append)
      moreover have "cv_id ?e = target_id t" by (simp add: summarize_cluster_simps row_identity_shown)
      moreover have "evidence_of ?f t = Some ?e" by (simp add: evidence_of_def Inr)
      ultimately show ?thesis using Cons by simp
    qed
  qed simp
  then have sp: "shared_spec (List.map_filter (evidence_of ?f) ts) s \<longleftrightarrow>
      sh_source s \<in> {source_issue, source_blindspot} \<and> sh_clusters s = sort (map target_id (filter ?show ts)) \<and> 2 \<le> length (sh_clusters s)"
    by (simp add: shared_spec_def min_shared_def)
  have "s \<in> set (fr_shared (sweep ask l ts)) \<longleftrightarrow> s \<in> set (gathered (List.map_filter (evidence_of ?f) ts))"
    by (simp add: sweep_eq Let_def correlate_eq [OF evidence_of_ok])
  with sp gathered_props(1) [OF evidence_of_ok] show ?thesis by simp
qed

text \<open>Two clusters read by a single worker.\<close>

lemma two_reads: "pool_reachable f 1 2 z \<lparr>po_next = 2, po_closed = True, po_workers = [Left], po_out = [f 0, f 1],
    po_calls = [0, 1], po_returned = True\<rparr>"
proof -
  let ?s = "\<lambda>i c w out calls ret. \<lparr>po_next = i, po_closed = c, po_workers = [w], po_out = out, po_calls = calls, po_returned = ret\<rparr>"
  have r0: "pool_reachable f 1 2 z (?s 0 False Waiting [z, z] [] False)"
    using pool_reachable.start [of f 1 2 z] by (simp add: pool_start_def clamp_workers_def numeral_2_eq_2)
  have r1: "pool_reachable f 1 2 z (?s 1 False (Running 0) [z, z] [] False)"
    using pool_reachable.step [OF r0 pool_step.hand [of 0]] by simp
  have r2: "pool_reachable f 1 2 z (?s 1 False Waiting [f 0, z] [0] False)"
    using pool_reachable.step [OF r1 pool_step.finish [of 0 _ 0]] by simp
  have r3: "pool_reachable f 1 2 z (?s 2 False (Running 1) [f 0, z] [0] False)"
    using pool_reachable.step [OF r2 pool_step.hand [of 0]] by (simp add: numeral_2_eq_2)
  have r4: "pool_reachable f 1 2 z (?s 2 False Waiting [f 0, f 1] [0, 1] False)"
    using pool_reachable.step [OF r3 pool_step.finish [of 0 _ 1]] by simp
  have r5: "pool_reachable f 1 2 z (?s 2 True Waiting [f 0, f 1] [0, 1] False)"
    using pool_reachable.step [OF r4 pool_step.close] by simp
  have r6: "pool_reachable f 1 2 z (?s 2 True Left [f 0, f 1] [0, 1] False)"
    using pool_reachable.step [OF r5 pool_step.leave [of 0]] by simp
  show ?thesis
    using pool_reachable.step [OF r6 pool_step.return] by simp
qed

definition two_clusters :: "fleet_target list" where
  "two_clusters = [\<lparr>ft_name = ''a'', ft_context = ''k'', ft_client = True\<rparr>, \<lparr>ft_name = ''b'', ft_context = ''k'', ft_client = False\<rparr>]"

definition slow_cluster :: "fleet_target \<Rightarrow> sweep_error + scan_result" where
  "slow_cluster t = Inl Deadline_Exceeded"

theorem sweep_deterministic_witness:
  "fleet_report_of Warning (rev two_clusters) [Inl Client_Unavailable, Inl Deadline_Exceeded] = sweep slow_cluster Warning two_clusters \<and>
   map ur_reason (fr_unreachable (sweep slow_cluster Warning two_clusters)) = [reason_timed_out, reason_unreachable]"
proof
  let ?f = "\<lambda>i. sweep_one slow_cluster Warning (rev two_clusters ! i)"
  have r: "pool_reachable ?f 1 (length (rev two_clusters)) (Inl Canceled)
      \<lparr>po_next = 2, po_closed = True, po_workers = [Left], po_out = [?f 0, ?f 1], po_calls = [0, 1], po_returned = True\<rparr>"
    using two_reads [of ?f "Inl Canceled"] by (simp add: two_clusters_def numeral_2_eq_2)
  have "fleet_report_of Warning (rev two_clusters) [?f 0, ?f 1] = sweep slow_cluster Warning two_clusters"
    using sweep_deterministic [OF r] by (simp add: two_clusters_def target_id_def)
  then show "fleet_report_of Warning (rev two_clusters) [Inl Client_Unavailable, Inl Deadline_Exceeded] = sweep slow_cluster Warning two_clusters"
    by (simp add: two_clusters_def sweep_one_def slow_cluster_def)
  show "map ur_reason (fr_unreachable (sweep slow_cluster Warning two_clusters)) = [reason_timed_out, reason_unreachable]"
    by (simp add: sweep_eq Let_def two_clusters_def sweep_one_def slow_cluster_def lost_of_def shown_identity_def reason_for_def
        unreachable_less_def row_identity_def)
qed

end
