(* ===== verification/Capacity.thy ===== *)
theory Capacity
  imports Resources
begin

text \<open>
  \<open>internal/capacity\<close>: the advisory view of how much room is left, whether the largest node could be
  lost, and which workloads have a shape that is wrong whatever their usage. Arithmetic is on int64
  with its wrap-around; quantities are read through \<open>quantity_lib\<close>.
\<close>

section \<open>Nodes\<close>

text \<open>\<open>capacity.go\<close>\<close>

record node_exclusion =
  ne_node :: string
  ne_reason :: string

record node_capacity =
  nc_name :: string
  nc_cpu_alloc :: int
  nc_mem_alloc :: int
  nc_cpu_req :: int
  nc_mem_req :: int

definition max64 :: "int \<Rightarrow> int \<Rightarrow> int" where
  "max64 a b = (if a > b then a else b)"

definition free_cpu :: "node_capacity \<Rightarrow> int" where
  "free_cpu n = max64 0 (wrap64 (nc_cpu_alloc n - nc_cpu_req n))"

definition free_mem :: "node_capacity \<Rightarrow> int" where
  "free_mem n = max64 0 (wrap64 (nc_mem_alloc n - nc_mem_req n))"

definition exclude_reason :: "node_object \<Rightarrow> string" where
  "exclude_reason n =
    (let ready = (case find (\<lambda>c. cn_type c = ''Ready'') (no_conditions n) of None \<Rightarrow> False
                  | Some c \<Rightarrow> cn_status c = ''True'') in
     if \<not> ready then ''NotReady''
     else if no_unschedulable n then ''cordoned''
     else if ''NoSchedule'' \<in> set (no_taints n) then ''NoSchedule taint''
     else if ''NoExecute'' \<in> set (no_taints n) then ''NoExecute taint''
     else [])"

definition add_request :: "quantity_lib \<Rightarrow> container \<Rightarrow> int \<times> int \<Rightarrow> int \<times> int" where
  "add_request q c acc =
    (wrap64 (fst acc + res_milli q (c_requests c)), wrap64 (snd acc + res_bytes q (c_requests c)))"

definition pod_requests :: "quantity_lib \<Rightarrow> pod \<Rightarrow> int \<times> int" where
  "pod_requests q p = fold (add_request q) (p_containers p) (0, 0)"

definition capacity_of :: "quantity_lib \<Rightarrow> node_object \<Rightarrow> node_capacity" where
  "capacity_of q n = \<lparr>nc_name = no_name n, nc_cpu_alloc = res_milli q (no_allocatable n),
     nc_mem_alloc = res_bytes q (no_allocatable n), nc_cpu_req = 0, nc_mem_req = 0\<rparr>"

record classified =
  cl_included :: "node_capacity list"
  cl_excluded :: "node_exclusion list"
  cl_by_name :: "(string, nat) gomap"

definition classify_node :: "quantity_lib \<Rightarrow> node_object \<Rightarrow> classified \<Rightarrow> classified" where
  "classify_node q n s =
    (let reason = exclude_reason n in
     if reason \<noteq> [] then s\<lparr>cl_excluded := cl_excluded s @ [\<lparr>ne_node = no_name n, ne_reason = reason\<rparr>]\<rparr>
     else s\<lparr>cl_by_name := mput (no_name n) (length (cl_included s)) (cl_by_name s),
            cl_included := cl_included s @ [capacity_of q n]\<rparr>)"

definition count_pod :: "quantity_lib \<Rightarrow> (string, nat) gomap \<Rightarrow> pod \<Rightarrow> node_capacity list \<Rightarrow> node_capacity list" where
  "count_pod q by_name p inc =
    (case mget by_name (p_node p) of
       None \<Rightarrow> inc
     | Some i \<Rightarrow>
         if terminal_pod p then inc
         else let r = pod_requests q p; n = inc ! i in
           inc[i := n\<lparr>nc_cpu_req := wrap64 (nc_cpu_req n + fst r), nc_mem_req := wrap64 (nc_mem_req n + snd r)\<rparr>])"

definition classify_nodes :: "quantity_lib \<Rightarrow> node_object list \<Rightarrow> pod list \<Rightarrow> node_capacity list \<times> node_exclusion list" where
  "classify_nodes q nodes pods =
    (let s = fold (classify_node q) nodes \<lparr>cl_included = [], cl_excluded = [], cl_by_name = []\<rparr>
     in (sort_slice (\<lambda>a b. nc_name a < nc_name b) (fold (count_pod q (cl_by_name s)) pods (cl_included s)),
         sort_slice (\<lambda>a b. ne_node a < ne_node b) (cl_excluded s)))"

definition owned_by_daemon_set :: "pod \<Rightarrow> bool" where
  "owned_by_daemon_set p \<longleftrightarrow> (case controller_owner (p_owners p) of None \<Rightarrow> False | Some r \<Rightarrow> or_kind r = ''DaemonSet'')"

section \<open>Losing the largest node\<close>

text \<open>\<open>nodeloss.go\<close>\<close>

record node_loss_result =
  nl_node :: string
  nl_single :: bool
  nl_fits :: bool
  nl_placed :: nat
  nl_blocker :: string
  nl_blocker_cpu :: string

fun larger_node :: "node_capacity \<Rightarrow> node_capacity \<Rightarrow> node_capacity" where
  "larger_node n best =
    (if nc_cpu_alloc n > nc_cpu_alloc best \<or> (nc_cpu_alloc n = nc_cpu_alloc best \<and> nc_name n < nc_name best)
     then n else best)"

definition largest_node :: "node_capacity list \<Rightarrow> node_capacity" where
  "largest_node inc = fold larger_node (tl inc) (hd inc)"

definition owner_label :: "pod \<Rightarrow> string" where
  "owner_label p = (case controller_owner (p_owners p) of
     Some r \<Rightarrow> or_kind r @ ''/'' @ p_namespace p @ ''/'' @ or_name r
   | None \<Rightarrow> ''Pod/'' @ p_namespace p @ ''/'' @ p_name p)"

definition evict_less :: "quantity_lib \<Rightarrow> pod \<Rightarrow> pod \<Rightarrow> bool" where
  "evict_less q a b =
    (let ra = pod_requests q a; rb = pod_requests q b in
     if fst ra \<noteq> fst rb then fst ra > fst rb
     else if snd ra \<noteq> snd rb then snd ra > snd rb
     else if p_namespace a \<noteq> p_namespace b then p_namespace a < p_namespace b
     else p_name a < p_name b)"

definition evicted :: "string \<Rightarrow> pod \<Rightarrow> bool" where
  "evicted victim p \<longleftrightarrow> p_node p = victim \<and> \<not> terminal_pod p \<and> \<not> owned_by_daemon_set p"

text \<open>The inner loop: the first slot with room for both requests takes the pod.\<close>

fun first_fit :: "int \<times> int \<Rightarrow> (int \<times> int) list \<Rightarrow> (int \<times> int) list option" where
  "first_fit r [] = None"
| "first_fit r (s # ss) =
    (if fst s \<ge> fst r \<and> snd s \<ge> snd r then Some ((wrap64 (fst s - fst r), wrap64 (snd s - snd r)) # ss)
     else map_option (Cons s) (first_fit r ss))"

text \<open>The outer loop: how many pods were placed, and the first that could not be.\<close>

fun place_all :: "quantity_lib \<Rightarrow> pod list \<Rightarrow> (int \<times> int) list \<Rightarrow> nat \<Rightarrow> nat \<times> pod option" where
  "place_all q [] slots placed = (placed, None)"
| "place_all q (p # ps) slots placed =
    (case first_fit (pod_requests q p) slots of
       None \<Rightarrow> (placed, Some p)
     | Some slots' \<Rightarrow> place_all q ps slots' (placed + 1))"

definition node_loss :: "quantity_lib \<Rightarrow> node_capacity list \<Rightarrow> pod list \<Rightarrow> node_loss_result option" where
  "node_loss q inc pods =
    (if inc = [] then None
     else let victim = largest_node inc;
              blank = \<lparr>nl_node = nc_name victim, nl_single = False, nl_fits = False, nl_placed = 0,
                       nl_blocker = [], nl_blocker_cpu = []\<rparr> in
     if length inc = 1 then Some (blank\<lparr>nl_single := True\<rparr>)
     else let slots = map (\<lambda>n. (free_cpu n, free_mem n)) (filter (\<lambda>n. nc_name n \<noteq> nc_name victim) inc);
              evictees = sort_slice (evict_less q) (filter (evicted (nc_name victim)) pods) in
     (case place_all q evictees slots 0 of
        (n, None) \<Rightarrow> Some (blank\<lparr>nl_fits := True, nl_placed := n\<rparr>)
      | (n, Some p) \<Rightarrow> Some (blank\<lparr>nl_placed := n, nl_blocker := owner_label p,
                                    nl_blocker_cpu := format_milli_cpu (fst (pod_requests q p))\<rparr>)))"

section \<open>Headroom\<close>

text \<open>\<open>headroom.go\<close>\<close>

record node_fit =
  nf_node :: string
  nf_cpu :: string
  nf_memory :: string

record tight_node =
  tn_node :: string
  tn_resource :: string
  tn_pct :: int

record headroom =
  hr_included_nodes :: nat
  hr_total_nodes :: nat
  hr_free_cpu :: string
  hr_free_memory :: string
  hr_largest_cpu_fit :: "node_fit option"
  hr_largest_mem_fit :: "node_fit option"
  hr_tightest_node :: "tight_node option"
  hr_node_loss :: "node_loss_result option"
  hr_excluded :: "node_exclusion list"

definition fit_of :: "node_capacity \<Rightarrow> node_fit" where
  "fit_of n = \<lparr>nf_node = nc_name n, nf_cpu = format_milli_cpu (free_cpu n), nf_memory = format_bytes (free_mem n)\<rparr>"

record headroom_scan =
  hs_free_cpu :: int
  hs_free_mem :: int
  hs_cpu_winner :: nat
  hs_mem_winner :: nat
  hs_tightest :: nat
  hs_pct :: int
  hs_res :: string

definition node_pct :: "node_capacity \<Rightarrow> int \<times> string" where
  "node_pct n =
    (let cpu = ratio_pct (nc_cpu_req n) (nc_cpu_alloc n); mem = ratio_pct (nc_mem_req n) (nc_mem_alloc n)
     in if mem > cpu then (mem, ''memory'') else (cpu, ''CPU''))"

definition scan_node :: "node_capacity list \<Rightarrow> nat \<Rightarrow> headroom_scan \<Rightarrow> headroom_scan" where
  "scan_node inc i s =
    (let n = inc ! i; t = node_pct n in
     s\<lparr>hs_free_cpu := wrap64 (hs_free_cpu s + free_cpu n),
       hs_free_mem := wrap64 (hs_free_mem s + free_mem n),
       hs_cpu_winner := (if free_cpu n > free_cpu (inc ! hs_cpu_winner s) then i else hs_cpu_winner s),
       hs_mem_winner := (if free_mem n > free_mem (inc ! hs_mem_winner s) then i else hs_mem_winner s),
       hs_tightest := (if fst t > hs_pct s then i else hs_tightest s),
       hs_pct := (if fst t > hs_pct s then fst t else hs_pct s),
       hs_res := (if fst t > hs_pct s then snd t else hs_res s)\<rparr>)"

definition headroom_scanned :: "node_capacity list \<Rightarrow> headroom_scan" where
  "headroom_scanned inc = fold (scan_node inc) [0..<length inc]
     \<lparr>hs_free_cpu = 0, hs_free_mem = 0, hs_cpu_winner = 0, hs_mem_winner = 0, hs_tightest = 0, hs_pct = -1,
      hs_res = ''CPU''\<rparr>"

definition build_headroom :: "quantity_lib \<Rightarrow> node_capacity list \<Rightarrow> node_exclusion list \<Rightarrow> nat \<Rightarrow> pod list \<Rightarrow> headroom" where
  "build_headroom q inc exc tot pods =
    (let h = \<lparr>hr_included_nodes = length inc, hr_total_nodes = tot, hr_free_cpu = format_milli_cpu 0,
              hr_free_memory = format_bytes 0, hr_largest_cpu_fit = None, hr_largest_mem_fit = None,
              hr_tightest_node = None, hr_node_loss = None, hr_excluded = exc\<rparr> in
     if inc = [] then h
     else let s = headroom_scanned inc in
       h\<lparr>hr_free_cpu := format_milli_cpu (hs_free_cpu s), hr_free_memory := format_bytes (hs_free_mem s),
         hr_largest_cpu_fit := Some (fit_of (inc ! hs_cpu_winner s)),
         hr_largest_mem_fit := (if hs_mem_winner s \<noteq> hs_cpu_winner s then Some (fit_of (inc ! hs_mem_winner s)) else None),
         hr_tightest_node := Some \<lparr>tn_node = nc_name (inc ! hs_tightest s), tn_resource = hs_res s, tn_pct = hs_pct s\<rparr>,
         hr_node_loss := node_loss q inc pods\<rparr>)"

section \<open>Right-sizing\<close>

text \<open>\<open>rightsize.go\<close>, \<open>sample.go\<close> and \<open>template.go\<close>\<close>

datatype rule_name = Rule_no_requests | Rule_limit_no_request | Rule_never_schedulable

fun rule_string :: "rule_name \<Rightarrow> string" where
  "rule_string Rule_no_requests = ''noRequests''"
| "rule_string Rule_limit_no_request = ''limitNoRequest''"
| "rule_string Rule_never_schedulable = ''neverSchedulable''"

datatype resource_kind = Resource_cpu | Resource_memory

definition max_owners_per_rule :: nat where "max_owners_per_rule = 20"

record sized_owner =
  so_kind :: string
  so_namespace :: string
  so_name :: string
  so_detail :: string
  so_observed :: string
  so_best_effort :: bool
  so_resource :: resource_kind

record size_rule =
  sr_name :: rule_name
  sr_owners :: "sized_owner list"
  sr_truncated :: nat

record right_sizing =
  rz_rules :: "size_rule list"
  rz_metrics_available :: bool
  rz_pods_reporting :: nat
  rz_pods_total :: nat

record owner_template =
  ot_kind :: string
  ot_namespace :: string
  ot_name :: string
  ot_containers :: "container list"

definition plain_owner :: "string \<Rightarrow> string \<Rightarrow> string \<Rightarrow> sized_owner" where
  "plain_owner kind ns nm = \<lparr>so_kind = kind, so_namespace = ns, so_name = nm, so_detail = [], so_observed = [],
     so_best_effort = False, so_resource = Resource_cpu\<rparr>"

definition size_key :: "string \<Rightarrow> string \<Rightarrow> string \<Rightarrow> string" where
  "size_key kind ns nm = kind @ ''/'' @ ns @ ''/'' @ nm"

definition owner_key :: "sized_owner \<Rightarrow> string" where
  "owner_key o' = size_key (so_kind o') (so_namespace o') (so_name o')"

definition deployment_index :: "replica_set list \<Rightarrow> (string, string) gomap" where
  "deployment_index rss = fold (\<lambda>r m. (case controller_owner (rs_owners r) of
      Some x \<Rightarrow> if or_kind x = ''Deployment'' then mput (rs_namespace r @ ''/'' @ rs_name r) (or_name x) m else m
    | None \<Rightarrow> m)) rss []"

definition size_owner_of :: "(string, string) gomap \<Rightarrow> pod \<Rightarrow> sized_owner" where
  "size_owner_of idx p =
    (case controller_owner (p_owners p) of
       None \<Rightarrow> plain_owner ''Pod'' (p_namespace p) (p_name p)
     | Some r \<Rightarrow>
         (case (if or_kind r = ''ReplicaSet'' then mget idx (p_namespace p @ ''/'' @ or_name r) else None) of
            Some dep \<Rightarrow> plain_owner ''Deployment'' (p_namespace p) dep
          | None \<Rightarrow> plain_owner (or_kind r) (p_namespace p) (or_name r)))"

definition bare_container :: "quantity_lib \<Rightarrow> container \<Rightarrow> bool" where
  "bare_container q c \<longleftrightarrow> res_unset q (c_requests c) ''cpu'' \<and> res_unset q (c_requests c) ''memory''"

definition no_request_containers :: "quantity_lib \<Rightarrow> pod \<Rightarrow> bool \<times> bool" where
  "no_request_containers q p =
    (let some_bare = (\<exists>c\<in>set (p_containers p). bare_container q c);
         every_bare = (p_containers p \<noteq> [] \<and> (\<forall>c\<in>set (p_containers p). bare_container q c))
     in (some_bare, every_bare \<and> some_bare))"

fun limit_without_request :: "quantity_lib \<Rightarrow> container list \<Rightarrow> string \<times> resource_kind" where
  "limit_without_request q [] = ([], Resource_cpu)"
| "limit_without_request q (c # cs) =
    (if \<not> res_unset q (c_limits c) ''cpu'' \<and> res_unset q (c_requests c) ''cpu''
     then (''lim '' @ format_milli_cpu (res_milli q (c_limits c)) @ '' cores'', Resource_cpu)
     else if \<not> res_unset q (c_limits c) ''memory'' \<and> res_unset q (c_requests c) ''memory''
     then (''lim '' @ format_bytes (res_bytes q (c_limits c)), Resource_memory)
     else limit_without_request q cs)"

fun exceeding_container :: "quantity_lib \<Rightarrow> node_capacity list \<Rightarrow> int \<Rightarrow> int \<Rightarrow> container list \<Rightarrow> string" where
  "exceeding_container q inc max_cpu max_mem [] = []"
| "exceeding_container q inc max_cpu max_mem (c # cs) =
    (let cpu = res_milli q (c_requests c); mem = res_bytes q (c_requests c) in
     if cpu > max_cpu
     then ''req '' @ format_milli_cpu cpu @ '' cores > largest node ('' @ format_milli_cpu max_cpu @ '' cores)''
     else if mem > max_mem then ''req '' @ format_bytes mem @ '' > largest node ('' @ format_bytes max_mem @ '')''
     else if \<not> (\<exists>n\<in>set inc. cpu \<le> nc_cpu_alloc n \<and> mem \<le> nc_mem_alloc n)
     then ''req '' @ format_milli_cpu cpu @ '' cores + '' @ format_bytes mem @ '' fits no single node''
     else exceeding_container q inc max_cpu max_mem cs)"

definition exceeds_largest_node :: "quantity_lib \<Rightarrow> pod \<Rightarrow> node_capacity list \<Rightarrow> string" where
  "exceeds_largest_node q p inc =
    exceeding_container q inc
      (fold (\<lambda>n m. if nc_cpu_alloc n > m then nc_cpu_alloc n else m) inc 0)
      (fold (\<lambda>n m. if nc_mem_alloc n > m then nc_mem_alloc n else m) inc 0) (p_containers p)"

text \<open>The three maps from owner keys to owners.\<close>

record size_matches =
  sx_no_requests :: "(string, sized_owner) gomap"
  sx_limit_no_request :: "(string, sized_owner) gomap"
  sx_never_schedulable :: "(string, sized_owner) gomap"

definition out_of_scope :: "string \<Rightarrow> string \<Rightarrow> bool" where
  "out_of_scope namespace ns \<longleftrightarrow> namespace \<noteq> [] \<and> ns \<noteq> namespace"

definition put_no_requests :: "string \<Rightarrow> sized_owner \<Rightarrow> bool \<Rightarrow> (string, sized_owner) gomap \<Rightarrow> (string, sized_owner) gomap" where
  "put_no_requests key o' all_bare m =
    mput key (o'\<lparr>so_best_effort := all_bare \<and>
      (case mget m key of Some prev \<Rightarrow> so_best_effort prev | None \<Rightarrow> True)\<rparr>) m"

definition put_first :: "'k \<Rightarrow> 'v \<Rightarrow> ('k, 'v) gomap \<Rightarrow> ('k, 'v) gomap" where
  "put_first key v m = (if mget m key = None then mput key v m else m)"

definition size_pod :: "quantity_lib \<Rightarrow> (string, string) gomap \<Rightarrow> node_capacity list \<Rightarrow> string \<Rightarrow> pod \<Rightarrow> size_matches \<Rightarrow> size_matches" where
  "size_pod q idx inc namespace p s =
    (if terminal_pod p \<or> out_of_scope namespace (p_namespace p) then s
     else let o' = size_owner_of idx p; key = owner_key o';
              bare = no_request_containers q p;
              s1 = (if fst bare then s\<lparr>sx_no_requests := put_no_requests key o' (snd bare) (sx_no_requests s)\<rparr> else s);
              detail = (if inc \<noteq> [] then exceeds_largest_node q p inc else [])
          in if detail \<noteq> []
             then s1\<lparr>sx_never_schedulable := put_first key (o'\<lparr>so_detail := detail\<rparr>) (sx_never_schedulable s1)\<rparr>
             else s1)"

definition size_template :: "quantity_lib \<Rightarrow> string \<Rightarrow> owner_template \<Rightarrow> size_matches \<Rightarrow> size_matches" where
  "size_template q namespace t s =
    (if out_of_scope namespace (ot_namespace t) then s
     else let l = limit_without_request q (ot_containers t) in
       if fst l = [] then s
       else s\<lparr>sx_limit_no_request := put_first (size_key (ot_kind t) (ot_namespace t) (ot_name t))
              ((plain_owner (ot_kind t) (ot_namespace t) (ot_name t))\<lparr>so_detail := fst l, so_resource := snd l\<rparr>)
              (sx_limit_no_request s)\<rparr>)"

definition size_matched :: "quantity_lib \<Rightarrow> pod list \<Rightarrow> replica_set list \<Rightarrow> owner_template list \<Rightarrow> node_capacity list \<Rightarrow> string \<Rightarrow> size_matches" where
  "size_matched q pods rss templates inc namespace =
    fold (size_template q namespace) templates
      (fold (size_pod q (deployment_index rss) inc namespace) pods
        \<lparr>sx_no_requests = [], sx_limit_no_request = [], sx_never_schedulable = []\<rparr>)"

definition sized_less :: "sized_owner \<Rightarrow> sized_owner \<Rightarrow> bool" where
  "sized_less a b =
    (if so_namespace a \<noteq> so_namespace b then so_namespace a < so_namespace b
     else if so_name a \<noteq> so_name b then so_name a < so_name b else so_kind a < so_kind b)"

definition size_rule_of :: "rule_name \<Rightarrow> (string, sized_owner) gomap \<Rightarrow> size_rule option" where
  "size_rule_of nm m =
    (if m = [] then None
     else let owners = sort_slice sized_less (map snd m) in
       if length owners > max_owners_per_rule
       then Some \<lparr>sr_name = nm, sr_owners = take max_owners_per_rule owners,
                  sr_truncated = length owners - max_owners_per_rule\<rparr>
       else Some \<lparr>sr_name = nm, sr_owners = owners, sr_truncated = 0\<rparr>)"

definition build_right_sizing :: "quantity_lib \<Rightarrow> pod list \<Rightarrow> replica_set list \<Rightarrow> owner_template list \<Rightarrow> node_capacity list \<Rightarrow> string \<Rightarrow> right_sizing option" where
  "build_right_sizing q pods rss templates inc namespace =
    (let s = size_matched q pods rss templates inc namespace;
         rules = List.map_filter (\<lambda>x. x)
           [size_rule_of Rule_no_requests (sx_no_requests s),
            size_rule_of Rule_limit_no_request (sx_limit_no_request s),
            size_rule_of Rule_never_schedulable (sx_never_schedulable s)]
     in if rules = [] then None
        else Some \<lparr>rz_rules = rules, rz_metrics_available = False, rz_pods_reporting = 0, rz_pods_total = 0\<rparr>)"

section \<open>Usage samples\<close>

definition observed_for :: "resource_kind \<Rightarrow> int \<Rightarrow> int \<Rightarrow> string" where
  "observed_for r cpu mem = (case r of Resource_memory \<Rightarrow> format_bytes mem | Resource_cpu \<Rightarrow> format_milli_cpu cpu @ '' cores'')"

record sampled =
  sd_total :: nat
  sd_reporting :: nat
  sd_by_owner :: "(string, int \<times> int) gomap"

definition add_usage :: "quantity_lib \<Rightarrow> (string, string) gomap \<Rightarrow> (string, resource_list) gomap \<Rightarrow> string \<Rightarrow> pod \<Rightarrow> sampled \<Rightarrow> sampled" where
  "add_usage q idx usage namespace p s =
    (if terminal_pod p \<or> out_of_scope namespace (p_namespace p) then s
     else let s1 = s\<lparr>sd_total := sd_total s + 1\<rparr> in
       (case mget usage (p_namespace p @ ''/'' @ p_name p) of
          None \<Rightarrow> s1
        | Some u \<Rightarrow>
            let key = owner_key (size_owner_of idx p); old = mget_zero (0, 0) (sd_by_owner s) key in
            s1\<lparr>sd_reporting := sd_reporting s + 1,
               sd_by_owner := mput key (wrap64 (fst old + res_milli q u), wrap64 (snd old + res_bytes q u)) (sd_by_owner s)\<rparr>))"

definition sampled_pods :: "quantity_lib \<Rightarrow> pod list \<Rightarrow> replica_set list \<Rightarrow> (string, resource_list) gomap \<Rightarrow> string \<Rightarrow> sampled" where
  "sampled_pods q pods rss usage namespace =
    fold (add_usage q (deployment_index rss) usage namespace) pods \<lparr>sd_total = 0, sd_reporting = 0, sd_by_owner = []\<rparr>"

definition observe_owner :: "(string, int \<times> int) gomap \<Rightarrow> sized_owner \<Rightarrow> sized_owner" where
  "observe_owner m o' = (case mget m (owner_key o') of None \<Rightarrow> o'
     | Some t \<Rightarrow> o'\<lparr>so_observed := observed_for (so_resource o') (fst t) (snd t)\<rparr>)"

definition attach_samples :: "quantity_lib \<Rightarrow> right_sizing option \<Rightarrow> pod list \<Rightarrow> replica_set list \<Rightarrow> (string, resource_list) gomap \<Rightarrow> string \<Rightarrow> right_sizing option" where
  "attach_samples q z pods rss usage namespace =
    (case z of None \<Rightarrow> None
     | Some r \<Rightarrow>
         let s = sampled_pods q pods rss usage namespace;
             r1 = r\<lparr>rz_pods_total := rz_pods_total r + sd_total s, rz_pods_reporting := rz_pods_reporting r + sd_reporting s\<rparr>;
             r2 = r1\<lparr>rz_metrics_available := rz_pods_reporting r1 > 0\<rparr>
         in if \<not> rz_metrics_available r2 then Some r2
            else Some (r2\<lparr>rz_rules := map (\<lambda>x. x\<lparr>sr_owners := map (observe_owner (sd_by_owner s)) (sr_owners x)\<rparr>) (rz_rules r2)\<rparr>))"

text \<open>A workload with its pod template.\<close>

record template_source =
  src_namespace :: string
  src_name :: string
  src_owners :: "owner_reference list"
  src_containers :: "container list"

definition template_of :: "string \<Rightarrow> template_source \<Rightarrow> owner_template" where
  "template_of kind t = \<lparr>ot_kind = kind, ot_namespace = src_namespace t, ot_name = src_name t, ot_containers = src_containers t\<rparr>"

definition cron_job_copy :: "template_source \<Rightarrow> bool" where
  "cron_job_copy t \<longleftrightarrow> (case controller_owner (src_owners t) of None \<Rightarrow> False | Some r \<Rightarrow> or_kind r = ''CronJob'')"

definition templates :: "template_source list \<Rightarrow> template_source list \<Rightarrow> template_source list \<Rightarrow> template_source list \<Rightarrow> template_source list \<Rightarrow> owner_template list" where
  "templates deployments stateful_sets daemon_sets jobs cron_jobs =
    map (template_of ''Deployment'') deployments @ map (template_of ''StatefulSet'') stateful_sets @
    map (template_of ''DaemonSet'') daemon_sets @
    map (template_of ''Job'') (filter (\<lambda>j. \<not> cron_job_copy j) jobs) @ map (template_of ''CronJob'') cron_jobs"

section \<open>The report\<close>

record capacity_report =
  cr_headroom :: headroom
  cr_right_sizing :: "right_sizing option"

definition capacity_assess :: "quantity_lib \<Rightarrow> node_object list \<Rightarrow> pod list \<Rightarrow> replica_set list \<Rightarrow> owner_template list \<Rightarrow>
    (string, resource_list) gomap \<Rightarrow> string \<Rightarrow> capacity_report" where
  "capacity_assess q nodes pods rss ts usage namespace =
    (let c = classify_nodes q nodes pods;
         z = build_right_sizing q pods rss ts (fst c) namespace
     in \<lparr>cr_headroom = build_headroom q (fst c) (snd c) (length nodes) pods,
         cr_right_sizing = attach_samples q z pods rss usage namespace\<rparr>)"

section \<open>What requests add up to\<close>

text \<open>The requests of a pod and of the running pods of a node, as integers that do not wrap.\<close>

definition raw_cpu :: "quantity_lib \<Rightarrow> pod \<Rightarrow> int" where
  "raw_cpu q p = sum_list (map (\<lambda>c. res_milli q (c_requests c)) (p_containers p))"

definition raw_mem :: "quantity_lib \<Rightarrow> pod \<Rightarrow> int" where
  "raw_mem q p = sum_list (map (\<lambda>c. res_bytes q (c_requests c)) (p_containers p))"

definition on_node :: "string \<Rightarrow> pod list \<Rightarrow> pod list" where
  "on_node nm pods = filter (\<lambda>p. p_node p = nm \<and> \<not> terminal_pod p) pods"

definition cpu_of :: "quantity_lib \<Rightarrow> pod list \<Rightarrow> int" where
  "cpu_of q ps = sum_list (map (raw_cpu q) ps)"

definition mem_of :: "quantity_lib \<Rightarrow> pod list \<Rightarrow> int" where
  "mem_of q ps = sum_list (map (raw_mem q) ps)"

lemmas request_sums = cpu_of_def mem_of_def on_node_def

lemma add_request_fold:
  "fold (add_request q) cs (wrap64 a, wrap64 b) =
    (wrap64 (a + sum_list (map (\<lambda>c. res_milli q (c_requests c)) cs)),
     wrap64 (b + sum_list (map (\<lambda>c. res_bytes q (c_requests c)) cs)))"
proof (induction cs arbitrary: a b)
  case (Cons c cs)
  show ?case
    using Cons [of "a + res_milli q (c_requests c)" "b + res_bytes q (c_requests c)"]
    by (simp add: add_request_def wrap64_add add.assoc)
qed simp

lemma pod_requests_wrap: "pod_requests q p = (wrap64 (raw_cpu q p), wrap64 (raw_mem q p))"
  using add_request_fold [of q "p_containers p" 0 0] by (simp add: pod_requests_def raw_cpu_def raw_mem_def)

definition loaded :: "quantity_lib \<Rightarrow> pod list \<Rightarrow> node_capacity \<Rightarrow> node_capacity" where
  "loaded q pods n = n\<lparr>nc_cpu_req := wrap64 (nc_cpu_req n + cpu_of q (on_node (nc_name n) pods)),
     nc_mem_req := wrap64 (nc_mem_req n + mem_of q (on_node (nc_name n) pods))\<rparr>"

lemma loaded_name [simp]: "nc_name (loaded q pods n) = nc_name n"
  by (simp add: loaded_def)

lemma loaded_Cons: "loaded q (p # pods) n = loaded q pods (loaded q [p] n)"
  by (simp add: loaded_def request_sums wrap64_add add.assoc)

definition counted :: "node_capacity \<Rightarrow> bool" where
  "counted n \<longleftrightarrow> in_int64 (nc_cpu_req n) \<and> in_int64 (nc_mem_req n)"

lemma loaded_Nil: "counted n \<Longrightarrow> loaded q [] n = n"
  by (simp add: loaded_def request_sums counted_def wrap64_id)

lemma counted_loaded: "counted (loaded q pods n)"
  by (simp add: counted_def loaded_def wrap64_range)

lemma loaded_elsewhere: "counted n \<Longrightarrow> p_node p \<noteq> nc_name n \<or> terminal_pod p \<Longrightarrow> loaded q [p] n = n"
  by (auto simp: loaded_def request_sums counted_def wrap64_id)

lemma loaded_here:
  "p_node p = nc_name n \<Longrightarrow> \<not> terminal_pod p \<Longrightarrow>
    loaded q [p] n = n\<lparr>nc_cpu_req := wrap64 (nc_cpu_req n + fst (pod_requests q p)),
      nc_mem_req := wrap64 (nc_mem_req n + snd (pod_requests q p))\<rparr>"
  by (simp add: loaded_def request_sums pod_requests_wrap wrap64_add_right)

definition indexes :: "(string, nat) gomap \<Rightarrow> node_capacity list \<Rightarrow> bool" where
  "indexes m inc \<longleftrightarrow> (\<forall>nm i. mget m nm = Some i \<longleftrightarrow> i < length inc \<and> nc_name (inc ! i) = nm)"

lemma count_pod_loaded:
  assumes "indexes m inc" and "\<forall>n\<in>set inc. counted n"
  shows "count_pod q m p inc = map (loaded q [p]) inc"
proof (cases "mget m (p_node p)")
  case None
  then have "p_node p \<noteq> nc_name n" if "n \<in> set inc" for n
    using assms(1) that None by (metis indexes_def in_set_conv_nth option.distinct(1))
  then show ?thesis using assms(2) None by (auto simp: count_pod_def loaded_elsewhere intro!: map_idI [symmetric])
next
  case (Some i)
  then have i: "i < length inc" "nc_name (inc ! i) = p_node p" using assms(1) by (auto simp: indexes_def)
  have other: "p_node p \<noteq> nc_name (inc ! j)" if "j < length inc" "j \<noteq> i" for j
    using assms(1) that Some by (metis indexes_def option.inject)
  show ?thesis
  proof (cases "terminal_pod p")
    case True
    then show ?thesis using assms(2) Some by (auto simp: count_pod_def loaded_elsewhere intro!: map_idI [symmetric])
  next
    case False
    then show ?thesis using assms(2) Some i other
      by (auto simp: count_pod_def Let_def loaded_here loaded_elsewhere nth_list_update intro!: nth_equalityI)
  qed
qed

lemma indexes_loaded: "indexes m inc \<Longrightarrow> indexes m (map (loaded q ps) inc)"
  by (auto simp: indexes_def)

lemma count_pods_loaded:
  assumes "indexes m inc" and "\<forall>n\<in>set inc. counted n"
  shows "fold (count_pod q m) pods inc = map (loaded q pods) inc"
  using assms
proof (induction pods arbitrary: inc)
  case Nil
  then show ?case by (auto simp: loaded_Nil intro!: map_idI [symmetric])
next
  case (Cons p pods)
  have "fold (count_pod q m) pods (map (loaded q [p]) inc) = map (loaded q pods) (map (loaded q [p]) inc)"
    by (rule Cons.IH) (auto simp: Cons.prems indexes_loaded counted_loaded)
  then show ?case by (simp add: count_pod_loaded Cons.prems loaded_Cons [of q p pods])
qed

abbreviation usable :: "node_object list \<Rightarrow> node_object list" where
  "usable nodes \<equiv> filter (\<lambda>n. exclude_reason n = []) nodes"

lemma classify_fold:
  assumes "indexes (cl_by_name s) (cl_included s)"
    and "distinct (map nc_name (cl_included s) @ map no_name nodes)"
  shows "cl_included (fold (classify_node q) nodes s) = cl_included s @ map (capacity_of q) (usable nodes) \<and>
    cl_excluded (fold (classify_node q) nodes s) = cl_excluded s @
      map (\<lambda>n. \<lparr>ne_node = no_name n, ne_reason = exclude_reason n\<rparr>) (filter (\<lambda>n. exclude_reason n \<noteq> []) nodes) \<and>
    indexes (cl_by_name (fold (classify_node q) nodes s)) (cl_included (fold (classify_node q) nodes s))"
  using assms
proof (induction nodes arbitrary: s)
  case (Cons n nodes)
  have "nc_name (cl_included s ! i) \<noteq> no_name n" if "i < length (cl_included s)" for i
    using Cons.prems(2) nth_mem [OF that] by (metis UnCI distinct_append imageI list.set(2) list.set_map
        insertCI IntI empty_iff list.simps(9))
  then have i: "indexes (cl_by_name (classify_node q n s)) (cl_included (classify_node q n s))"
    using Cons.prems
    by (auto simp: classify_node_def Let_def indexes_def capacity_of_def nth_append less_Suc_eq split: if_splits)
  have d: "distinct (map nc_name (cl_included (classify_node q n s)) @ map no_name nodes)"
    using Cons.prems by (auto simp: classify_node_def Let_def capacity_of_def)
  have "cl_included (classify_node q n s) = cl_included s @ (if exclude_reason n = [] then [capacity_of q n] else [])"
    and "cl_excluded (classify_node q n s) = cl_excluded s @
      (if exclude_reason n = [] then [] else [\<lparr>ne_node = no_name n, ne_reason = exclude_reason n\<rparr>])"
    by (simp_all add: classify_node_def Let_def)
  with Cons.IH [OF i d] show ?case by (cases "exclude_reason n = []") auto
qed simp

lemma classify_nodes_eq:
  assumes "distinct (map no_name nodes)"
  shows "fst (classify_nodes q nodes pods) =
      sort_slice (\<lambda>a b. nc_name a < nc_name b) (map (\<lambda>n. loaded q pods (capacity_of q n)) (usable nodes))"
    and "snd (classify_nodes q nodes pods) = sort_slice (\<lambda>a b. ne_node a < ne_node b)
      (map (\<lambda>n. \<lparr>ne_node = no_name n, ne_reason = exclude_reason n\<rparr>) (filter (\<lambda>n. exclude_reason n \<noteq> []) nodes))"
proof -
  let ?s = "\<lparr>cl_included = [], cl_excluded = [], cl_by_name = []\<rparr>"
  have s: "indexes (cl_by_name ?s) (cl_included ?s)" "distinct (map nc_name (cl_included ?s) @ map no_name nodes)"
    using assms by (auto simp: indexes_def)
  note f = classify_fold [OF s, of q, THEN conjunct1] classify_fold [OF s, of q, THEN conjunct2]
  have "\<forall>n\<in>set (map (capacity_of q) (usable nodes)). counted n"
    by (auto simp: counted_def capacity_of_def in_int64_def)
  with f show "fst (classify_nodes q nodes pods) =
      sort_slice (\<lambda>a b. nc_name a < nc_name b) (map (\<lambda>n. loaded q pods (capacity_of q n)) (usable nodes))"
    by (simp add: classify_nodes_def Let_def count_pods_loaded comp_def)
  from f show "snd (classify_nodes q nodes pods) = sort_slice (\<lambda>a b. ne_node a < ne_node b)
      (map (\<lambda>n. \<lparr>ne_node = no_name n, ne_reason = exclude_reason n\<rparr>) (filter (\<lambda>n. exclude_reason n \<noteq> []) nodes))"
    by (simp add: classify_nodes_def Let_def)
qed

section \<open>First fit is a placement\<close>

lemma first_fit_Some:
  "first_fit r ss = Some ss' \<Longrightarrow>
    \<exists>i < length ss. fst r \<le> fst (ss ! i) \<and> snd r \<le> snd (ss ! i) \<and>
      ss' = ss[i := (wrap64 (fst (ss ! i) - fst r), wrap64 (snd (ss ! i) - snd r))]"
proof (induction ss arbitrary: ss')
  case (Cons s ss)
  show ?case
  proof (cases "fst s \<ge> fst r \<and> snd s \<ge> snd r")
    case True
    with Cons.prems show ?thesis by (intro exI [of _ 0]) auto
  next
    case False
    then obtain ss1 where ss1: "first_fit r ss = Some ss1" "ss' = s # ss1"
      using Cons.prems by (auto split: if_splits)
    from Cons.IH [OF ss1(1)] obtain i where "i < length ss" "fst r \<le> fst (ss ! i)" "snd r \<le> snd (ss ! i)"
      "ss1 = ss[i := (wrap64 (fst (ss ! i) - fst r), wrap64 (snd (ss ! i) - snd r))]" by auto
    with ss1 show ?thesis by (intro exI [of _ "Suc i"]) auto
  qed
qed simp

lemma first_fit_None: "first_fit r ss = None \<longleftrightarrow> (\<forall>s\<in>set ss. fst s < fst r \<or> snd s < snd r)"
  by (induction ss) auto

text \<open>What a bin holds stays within its slot.\<close>

definition bin_fits :: "quantity_lib \<Rightarrow> int \<times> int \<Rightarrow> pod list \<Rightarrow> bool" where
  "bin_fits q s ps \<longleftrightarrow> cpu_of q ps \<le> fst s \<and> mem_of q ps \<le> snd s"

definition plain_requests :: "quantity_lib \<Rightarrow> pod \<Rightarrow> bool" where
  "plain_requests q p \<longleftrightarrow> 0 \<le> raw_cpu q p \<and> raw_cpu q p < 2 ^ 63 \<and> 0 \<le> raw_mem q p \<and> raw_mem q p < 2 ^ 63"

lemma plain_pod_requests: "plain_requests q p \<Longrightarrow> pod_requests q p = (raw_cpu q p, raw_mem q p)"
  by (simp add: pod_requests_wrap plain_requests_def wrap64_id in_int64_def)

definition plain_slot :: "int \<times> int \<Rightarrow> bool" where
  "plain_slot s \<longleftrightarrow> 0 \<le> fst s \<and> fst s < 2 ^ 63 \<and> 0 \<le> snd s \<and> snd s < 2 ^ 63"

lemma list_all2_update_cons:
  assumes "list_all2 P (xs[i := x']) yss" and "i < length xs"
    and "\<And>ys. P x' ys \<Longrightarrow> P (xs ! i) (y # ys)"
  shows "\<exists>zss. list_all2 P xs zss \<and> mset (concat zss) = add_mset y (mset (concat yss))"
proof (intro exI conjI)
  have l: "length yss = length xs" using assms(1) by (simp add: list_all2_lengthD [symmetric])
  show "list_all2 P xs (yss[i := y # yss ! i])"
    using assms l by (auto simp: list_all2_conv_all_nth nth_list_update split: if_splits)
  have "mset (concat (yss[i := y # yss ! i])) = mset (concat (take i yss @ (y # yss ! i) # drop (Suc i) yss))"
    using assms(2) l by (simp add: upd_conv_take_nth_drop)
  also have "\<dots> = add_mset y (mset (concat (take i yss @ yss ! i # drop (Suc i) yss)))" by simp
  also have "take i yss @ yss ! i # drop (Suc i) yss = yss" using assms(2) l by (simp add: id_take_nth_drop [symmetric])
  finally show "mset (concat (yss[i := y # yss ! i])) = add_mset y (mset (concat yss))" .
qed

lemma place_all_bins:
  assumes "place_all q ps slots k = (m, None)"
    and "\<forall>p\<in>set ps. plain_requests q p" and "\<forall>s\<in>set slots. plain_slot s"
  shows "m = k + length ps \<and> (\<exists>bins. list_all2 (bin_fits q) slots bins \<and> mset (concat bins) = mset ps)"
  using assms
proof (induction ps arbitrary: slots k)
  case Nil
  have "list_all2 (bin_fits q) slots (map (\<lambda>_. []) slots)"
    using Nil.prems(3) by (auto simp: list_all2_conv_all_nth bin_fits_def cpu_of_def mem_of_def plain_slot_def)
  moreover have "concat (map (\<lambda>_. []) slots) = []" by simp
  ultimately show ?case using Nil.prems(1) by (metis Pair_inject add_0_right list.size(3) place_all.simps(1))
next
  case (Cons p ps)
  then obtain slots' where ff: "first_fit (pod_requests q p) slots = Some slots'"
    and rest: "place_all q ps slots' (k + 1) = (m, None)" by (auto split: option.splits)
  have r: "pod_requests q p = (raw_cpu q p, raw_mem q p)" and pr: "plain_requests q p"
    using Cons.prems by (auto simp: plain_pod_requests)
  obtain i where i: "i < length slots" "raw_cpu q p \<le> fst (slots ! i)" "raw_mem q p \<le> snd (slots ! i)"
    and s': "slots' = slots[i := (wrap64 (fst (slots ! i) - raw_cpu q p), wrap64 (snd (slots ! i) - raw_mem q p))]"
    using first_fit_Some [OF ff] r by auto
  have ps: "plain_slot (slots ! i)" using i Cons.prems(3) by auto
  have w: "wrap64 (fst (slots ! i) - raw_cpu q p) = fst (slots ! i) - raw_cpu q p"
    "wrap64 (snd (slots ! i) - raw_mem q p) = snd (slots ! i) - raw_mem q p"
    using i ps pr by (auto intro!: wrap64_id simp: in_int64_def plain_slot_def plain_requests_def)
  have "plain_slot (fst (slots ! i) - raw_cpu q p, snd (slots ! i) - raw_mem q p)"
    using i ps pr by (auto simp: plain_slot_def plain_requests_def)
  then have "\<forall>s\<in>set slots'. plain_slot s"
    using Cons.prems(3) unfolding s' w by (auto dest!: set_update_subset_insert [THEN subsetD])
  with Cons.IH [OF rest] Cons.prems(2) obtain bins where
    b: "m = k + 1 + length ps" "list_all2 (bin_fits q) slots' bins" "mset (concat bins) = mset ps" by auto
  have "\<exists>zss. list_all2 (bin_fits q) slots zss \<and> mset (concat zss) = add_mset p (mset (concat bins))"
    using b(2) i(1) unfolding s' w
    by (rule list_all2_update_cons) (auto simp: bin_fits_def cpu_of_def mem_of_def)
  with b show ?case by auto
qed

lemma place_all_blocked:
  assumes "place_all q ps slots k = (m, Some p)"
  shows "\<exists>us vs slots'. ps = us @ p # vs \<and> m = k + length us \<and> place_all q us slots k = (m, None) \<and>
    length slots' = length slots \<and> (\<forall>s\<in>set slots'. fst s < fst (pod_requests q p) \<or> snd s < snd (pod_requests q p))"
  using assms
proof (induction ps arbitrary: slots k)
  case (Cons x ps)
  show ?case
  proof (cases "first_fit (pod_requests q x) slots")
    case None
    with Cons.prems show ?thesis
      by (intro exI [of _ "[]"] exI [of _ ps] exI [of _ slots]) (auto simp: first_fit_None)
  next
    case (Some slots')
    with Cons.prems Cons.IH [of slots' "k + 1"] obtain us vs slots'' where
      "ps = us @ p # vs" "m = k + 1 + length us" "place_all q us slots' (k + 1) = (m, None)"
      "length slots'' = length slots'"
      "\<forall>s\<in>set slots''. fst s < fst (pod_requests q p) \<or> snd s < snd (pod_requests q p)" by auto
    moreover have "length slots' = length slots" using first_fit_Some [OF Some] by auto
    ultimately show ?thesis using Some by (intro exI [of _ "x # us"] exI [of _ vs] exI [of _ slots'']) auto
  qed
qed simp

section \<open>What the report may claim\<close>

text \<open>
  The cluster the arithmetic is exact on: nobody asks for a negative amount, and what all running
  pods ask for together, like what each node offers, is a number of 63 bits.
\<close>

definition plain_cluster :: "quantity_lib \<Rightarrow> node_object list \<Rightarrow> pod list \<Rightarrow> bool" where
  "plain_cluster q nodes pods \<longleftrightarrow>
    (\<forall>p\<in>set pods. 0 \<le> raw_cpu q p \<and> 0 \<le> raw_mem q p) \<and>
    cpu_of q pods < 2 ^ 63 \<and> mem_of q pods < 2 ^ 63 \<and>
    (\<forall>n\<in>set nodes. 0 \<le> res_milli q (no_allocatable n) \<and> res_milli q (no_allocatable n) < 2 ^ 63 \<and>
       0 \<le> res_bytes q (no_allocatable n) \<and> res_bytes q (no_allocatable n) < 2 ^ 63)"

definition room_cpu :: "quantity_lib \<Rightarrow> pod list \<Rightarrow> node_object \<Rightarrow> int" where
  "room_cpu q pods n = max 0 (res_milli q (no_allocatable n) - cpu_of q (on_node (no_name n) pods))"

definition room_mem :: "quantity_lib \<Rightarrow> pod list \<Rightarrow> node_object \<Rightarrow> int" where
  "room_mem q pods n = max 0 (res_bytes q (no_allocatable n) - mem_of q (on_node (no_name n) pods))"

lemma sum_list_filter_bounds:
  fixes f :: "'a \<Rightarrow> int"
  assumes "\<forall>x\<in>set xs. 0 \<le> f x"
  shows "0 \<le> sum_list (map f (filter P xs)) \<and> sum_list (map f (filter P xs)) \<le> sum_list (map f xs)"
  using assms by (induction xs) auto

lemma member_le_sum:
  fixes f :: "'a \<Rightarrow> int"
  assumes "\<forall>x\<in>set xs. 0 \<le> f x" and "y \<in> set xs"
  shows "f y \<le> sum_list (map f xs)"
proof -
  have "0 \<le> sum_list (map f xs)" if "\<forall>x\<in>set xs. 0 \<le> f x" for xs
    using that by (induction xs) auto
  with assms show ?thesis
  proof (induction xs)
    case (Cons x xs)
    then have "0 \<le> sum_list (map f xs)" "0 \<le> f x" by auto
    with Cons show ?case by (cases "y = x") force+
  qed simp
qed

lemma plain_cluster_pod:
  assumes "plain_cluster q nodes pods" and "p \<in> set pods"
  shows "plain_requests q p"
proof -
  have "raw_cpu q p \<le> cpu_of q pods" "raw_mem q p \<le> mem_of q pods"
    using assms by (auto simp: plain_cluster_def cpu_of_def mem_of_def intro!: member_le_sum)
  with assms show ?thesis by (auto simp: plain_cluster_def plain_requests_def)
qed

lemma free_room:
  assumes "plain_cluster q nodes pods" and "n \<in> set nodes"
  shows "free_cpu (loaded q pods (capacity_of q n)) = room_cpu q pods n"
    and "free_mem (loaded q pods (capacity_of q n)) = room_mem q pods n"
    and "plain_slot (room_cpu q pods n, room_mem q pods n)"
proof -
  note c = sum_list_filter_bounds [of pods "raw_cpu q" "\<lambda>p. p_node p = no_name n \<and> \<not> terminal_pod p"]
  note m = sum_list_filter_bounds [of pods "raw_mem q" "\<lambda>p. p_node p = no_name n \<and> \<not> terminal_pod p"]
  have b: "0 \<le> cpu_of q (on_node (no_name n) pods)" "cpu_of q (on_node (no_name n) pods) < 2 ^ 63"
    "0 \<le> mem_of q (on_node (no_name n) pods)" "mem_of q (on_node (no_name n) pods) < 2 ^ 63"
    using assms c m by (auto simp: plain_cluster_def request_sums)
  have a: "0 \<le> res_milli q (no_allocatable n)" "res_milli q (no_allocatable n) < 2 ^ 63"
    "0 \<le> res_bytes q (no_allocatable n)" "res_bytes q (no_allocatable n) < 2 ^ 63"
    using assms by (auto simp: plain_cluster_def)
  have id: "wrap64 (x - wrap64 y) = x - y" if "0 \<le> x" "x < 2 ^ 63" "0 \<le> y" "y < 2 ^ 63" for x y
    using that by (simp add: wrap64_minus wrap64_id in_int64_def)
  show "free_cpu (loaded q pods (capacity_of q n)) = room_cpu q pods n"
    using id [OF a(1,2) b(1,2)] by (simp add: free_cpu_def loaded_def capacity_of_def room_cpu_def max64_def)
  show "free_mem (loaded q pods (capacity_of q n)) = room_mem q pods n"
    using id [OF a(3,4) b(3,4)] by (simp add: free_mem_def loaded_def capacity_of_def room_mem_def max64_def)
  show "plain_slot (room_cpu q pods n, room_mem q pods n)"
    using a b by (simp add: plain_slot_def room_cpu_def room_mem_def)
qed

lemma larger_node_facts:
  "larger_node n b \<in> {n, b}" "nc_cpu_alloc n \<le> nc_cpu_alloc (larger_node n b)"
  "nc_cpu_alloc b \<le> nc_cpu_alloc (larger_node n b)"
  by auto

declare larger_node.simps [simp del]

lemma fold_larger_node:
  "fold larger_node xs b \<in> insert b (set xs) \<and>
   (\<forall>n\<in>insert b (set xs). nc_cpu_alloc n \<le> nc_cpu_alloc (fold larger_node xs b))"
proof (induction xs arbitrary: b)
  case (Cons x xs)
  have "nc_cpu_alloc (larger_node x b) \<le> nc_cpu_alloc (fold larger_node xs (larger_node x b))"
    using Cons [of "larger_node x b"] by blast
  with Cons [of "larger_node x b"] larger_node_facts [where n = x and b = b] show ?case by auto
qed simp

lemma largest_node_in: "inc \<noteq> [] \<Longrightarrow> largest_node inc \<in> set inc"
  using fold_larger_node [of "tl inc" "hd inc"] by (cases inc) (simp_all add: largest_node_def)

lemma largest_node_max: "n \<in> set inc \<Longrightarrow> nc_cpu_alloc n \<le> nc_cpu_alloc (largest_node inc)"
  using fold_larger_node [of "tl inc" "hd inc"] by (cases inc) (auto simp: largest_node_def)

lemma map_of_permutation:
  assumes "mset ys = image_mset f (mset xs)"
  shows "\<exists>zs. mset zs = mset xs \<and> map f zs = ys"
  using assms
proof (induction ys arbitrary: xs)
  case (Cons y ys)
  then obtain M a where M: "mset xs = add_mset a M" "f a = y" "image_mset f M = mset ys"
    by (metis mset.simps(2) msed_map_invR)
  obtain us where "mset us = M" using ex_mset by blast
  with M Cons.IH [of us] obtain zs where "mset zs = M" "map f zs = ys" by auto
  with M show ?case by (intro exI [of _ "a # zs"]) auto
qed simp

text \<open>The result of a removal that fits, before the node objects come back in.\<close>

lemma node_loss_Fits:
  assumes "node_loss q inc pods = Some r" and "nl_fits r"
  shows "nl_node r = nc_name (largest_node inc)" and "inc \<noteq> []"
    and "place_all q (sort_slice (evict_less q) (filter (evicted (nl_node r)) pods))
      (map (\<lambda>n. (free_cpu n, free_mem n)) (filter (\<lambda>n. nc_name n \<noteq> nl_node r) inc)) 0 = (nl_placed r, None)"
  using assms by (auto simp: node_loss_def Let_def split: if_splits prod.splits option.splits)

lemma node_loss_bins:
  assumes "distinct (map no_name nodes)" and "plain_cluster q nodes pods"
    and "node_loss q (fst (classify_nodes q nodes pods)) pods = Some r" and "nl_fits r"
  shows "\<exists>bins. mset (map fst bins) = mset (filter (\<lambda>n. no_name n \<noteq> nl_node r) (usable nodes)) \<and>
    mset (concat (map snd bins)) = mset (filter (evicted (nl_node r)) pods) \<and>
    (\<forall>b\<in>set bins. cpu_of q (snd b) \<le> room_cpu q pods (fst b) \<and> mem_of q (snd b) \<le> room_mem q pods (fst b)) \<and>
    nl_placed r = length (filter (evicted (nl_node r)) pods)"
proof -
  let ?inc = "fst (classify_nodes q nodes pods)" and ?v = "nl_node r"
  let ?ps = "sort_slice (evict_less q) (filter (evicted ?v) pods)"
  let ?load = "\<lambda>n. loaded q pods (capacity_of q n)"
  let ?slot = "\<lambda>n. (free_cpu n, free_mem n)"
  note nl = node_loss_Fits [OF assms(3,4)]
  have "mset (filter (\<lambda>n. nc_name n \<noteq> ?v) ?inc) = filter_mset (\<lambda>n. nc_name n \<noteq> ?v) (image_mset ?load (mset (usable nodes)))"
    by (simp add: classify_nodes_eq(1) [OF assms(1)])
  also have "\<dots> = image_mset ?load (mset (filter (\<lambda>n. no_name n \<noteq> ?v) (usable nodes)))"
    by (simp add: filter_mset_image_mset comp_def capacity_of_def filter_filter_mset)
  finally have perm: "mset (filter (\<lambda>n. nc_name n \<noteq> ?v) ?inc) =
    image_mset ?load (mset (filter (\<lambda>n. no_name n \<noteq> ?v) (usable nodes)))" .
  from map_of_permutation [OF perm] obtain ns where ns: "mset ns = mset (filter (\<lambda>n. no_name n \<noteq> ?v) (usable nodes))"
    "map ?load ns = filter (\<lambda>n. nc_name n \<noteq> ?v) ?inc"
    by blast
  have in_nodes: "n \<in> set nodes" if "n \<in> set ns" for n
    using that mset_eq_setD [OF ns(1)] by auto
  have slots: "map ?slot (filter (\<lambda>n. nc_name n \<noteq> ?v) ?inc) = map (\<lambda>n. (room_cpu q pods n, room_mem q pods n)) ns"
    unfolding ns(2) [symmetric] using in_nodes assms(2) by (auto simp: free_room)
  have "\<forall>p\<in>set ?ps. plain_requests q p" using plain_cluster_pod [OF assms(2)] by auto
  moreover have "\<forall>s\<in>set (map (\<lambda>n. (room_cpu q pods n, room_mem q pods n)) ns). plain_slot s"
    using in_nodes free_room(3) [OF assms(2)] by auto
  ultimately obtain bs where bs: "nl_placed r = length ?ps"
    "list_all2 (bin_fits q) (map (\<lambda>n. (room_cpu q pods n, room_mem q pods n)) ns) bs" "mset (concat bs) = mset ?ps"
    using place_all_bins [OF nl(3)] unfolding slots by auto
  have len: "length ns = length bs" using list_all2_lengthD [OF bs(2)] by simp
  have "length ?ps = length (filter (evicted ?v) pods)" by (metis mset_sort_slice size_mset)
  moreover have "\<forall>b\<in>set (zip ns bs). cpu_of q (snd b) \<le> room_cpu q pods (fst b) \<and> mem_of q (snd b) \<le> room_mem q pods (fst b)"
    using bs(2) len by (auto simp: list_all2_conv_all_nth set_zip bin_fits_def)
  ultimately show ?thesis
    using bs ns(1) len by (intro exI [of _ "zip ns bs"]) (auto simp: map_fst_zip map_snd_zip)
qed

lemma exceeding_container_iff:
  assumes "\<forall>n\<in>set inc. nc_cpu_alloc n \<le> mc \<and> nc_mem_alloc n \<le> mm"
  shows "exceeding_container q inc mc mm cs \<noteq> [] \<longleftrightarrow>
    (\<exists>c\<in>set cs. \<forall>n\<in>set inc. \<not> (res_milli q (c_requests c) \<le> nc_cpu_alloc n \<and> res_bytes q (c_requests c) \<le> nc_mem_alloc n))"
proof (induction cs)
  case (Cons c cs)
  let ?fits = "\<lambda>n. res_milli q (c_requests c) \<le> nc_cpu_alloc n \<and> res_bytes q (c_requests c) \<le> nc_mem_alloc n"
  have none: "\<forall>n\<in>set inc. \<not> ?fits n" if "res_milli q (c_requests c) > mc \<or> res_bytes q (c_requests c) > mm"
    using that assms by fastforce
  show ?case
  proof (cases "\<forall>n\<in>set inc. \<not> ?fits n")
    case True
    then show ?thesis by (auto simp: Let_def)
  next
    case False
    with none have "\<not> res_milli q (c_requests c) > mc" "\<not> res_bytes q (c_requests c) > mm" by blast+
    with False Cons.IH show ?thesis by (auto simp: Let_def)
  qed
qed simp

lemma fold_max_ge:
  fixes f :: "'a \<Rightarrow> int"
  shows "m \<le> fold (\<lambda>n m. if f n > m then f n else m) xs m \<and>
    (\<forall>n\<in>set xs. f n \<le> fold (\<lambda>n m. if f n > m then f n else m) xs m)"
proof (induction xs arbitrary: m)
  case (Cons x xs)
  from Cons [of "if f x > m then f x else m"] show ?case by (auto split: if_splits)
qed simp

lemma exceeds_iff:
  "exceeds_largest_node q p inc \<noteq> [] \<longleftrightarrow>
    (\<exists>c\<in>set (p_containers p). \<forall>n\<in>set inc.
       \<not> (res_milli q (c_requests c) \<le> nc_cpu_alloc n \<and> res_bytes q (c_requests c) \<le> nc_mem_alloc n))"
  unfolding exceeds_largest_node_def
  using fold_max_ge [of 0 nc_cpu_alloc inc] fold_max_ge [of 0 nc_mem_alloc inc]
  by (intro exceeding_container_iff) blast

section \<open>The right-sizing rows\<close>

definition in_size_scope :: "string \<Rightarrow> pod \<Rightarrow> bool" where
  "in_size_scope namespace p \<longleftrightarrow> \<not> terminal_pod p \<and> \<not> out_of_scope namespace (p_namespace p)"

definition pod_key :: "replica_set list \<Rightarrow> pod \<Rightarrow> string" where
  "pod_key rss p = owner_key (size_owner_of (deployment_index rss) p)"

definition some_bare :: "quantity_lib \<Rightarrow> pod \<Rightarrow> bool" where
  "some_bare q p \<longleftrightarrow> (\<exists>c\<in>set (p_containers p). bare_container q c)"

definition all_bare :: "quantity_lib \<Rightarrow> pod \<Rightarrow> bool" where
  "all_bare q p \<longleftrightarrow> (\<forall>c\<in>set (p_containers p). bare_container q c)"

definition fits_no_node :: "quantity_lib \<Rightarrow> node_capacity list \<Rightarrow> pod \<Rightarrow> bool" where
  "fits_no_node q inc p \<longleftrightarrow> inc \<noteq> [] \<and> (\<exists>c\<in>set (p_containers p). \<forall>n\<in>set inc.
     \<not> (res_milli q (c_requests c) \<le> nc_cpu_alloc n \<and> res_bytes q (c_requests c) \<le> nc_mem_alloc n))"

definition limit_only :: "quantity_lib \<Rightarrow> owner_template \<Rightarrow> bool" where
  "limit_only q t \<longleftrightarrow> (\<exists>c\<in>set (ot_containers t). \<exists>n\<in>{''cpu'', ''memory''}.
     \<not> res_unset q (c_limits c) n \<and> res_unset q (c_requests c) n)"

text \<open>The workloads each rule is about.\<close>

fun rule_keys :: "quantity_lib \<Rightarrow> pod list \<Rightarrow> replica_set list \<Rightarrow> owner_template list \<Rightarrow> node_capacity list \<Rightarrow> string \<Rightarrow> rule_name \<Rightarrow> string set" where
  "rule_keys q pods rss ts inc namespace Rule_no_requests =
     pod_key rss ` {p \<in> set pods. in_size_scope namespace p \<and> some_bare q p}"
| "rule_keys q pods rss ts inc namespace Rule_limit_no_request =
     (\<lambda>t. size_key (ot_kind t) (ot_namespace t) (ot_name t)) `
       {t \<in> set ts. \<not> out_of_scope namespace (ot_namespace t) \<and> limit_only q t}"
| "rule_keys q pods rss ts inc namespace Rule_never_schedulable =
     pod_key rss ` {p \<in> set pods. in_size_scope namespace p \<and> fits_no_node q inc p}"

definition keyed_rows :: "(string, sized_owner) gomap \<Rightarrow> string set \<Rightarrow> bool" where
  "keyed_rows m ks \<longleftrightarrow> mok m \<and> fst ` set m = ks \<and> (\<forall>e\<in>set m. owner_key (snd e) = fst e)"

lemma owner_key_updates [simp]:
  "owner_key (o'\<lparr>so_best_effort := b\<rparr>) = owner_key o'" "owner_key (o'\<lparr>so_detail := d\<rparr>) = owner_key o'"
  "owner_key (o'\<lparr>so_observed := d\<rparr>) = owner_key o'" "owner_key (o'\<lparr>so_resource := r\<rparr>) = owner_key o'"
  by (simp_all add: owner_key_def)

lemma keyed_rows_Nil: "keyed_rows [] {}"
  by (simp add: keyed_rows_def)

lemma keyed_rows_mput: "keyed_rows m ks \<Longrightarrow> owner_key v = k \<Longrightarrow> keyed_rows (mput k v m) (insert k ks)"
  by (auto simp: keyed_rows_def gm.entries_put image_iff)

lemma keyed_rows_put_first: "keyed_rows m ks \<Longrightarrow> owner_key v = k \<Longrightarrow> keyed_rows (put_first k v m) (insert k ks)"
proof (cases "mget m k")
  case (Some w)
  assume "keyed_rows m ks" "owner_key v = k"
  with Some show ?thesis by (auto simp: put_first_def keyed_rows_def insert_absorb dest!: map_of_SomeD intro: rev_image_eqI)
qed (simp add: put_first_def keyed_rows_mput)

lemma limit_only_iff: "fst (limit_without_request q cs) \<noteq> [] \<longleftrightarrow>
    (\<exists>c\<in>set cs. \<exists>n\<in>{''cpu'', ''memory''}. \<not> res_unset q (c_limits c) n \<and> res_unset q (c_requests c) n)"
  by (induction cs) auto

lemma size_pod_no_requests:
  "sx_no_requests (size_pod q idx inc namespace p s) =
    (if in_size_scope namespace p \<and> some_bare q p
     then put_no_requests (owner_key (size_owner_of idx p)) (size_owner_of idx p) (all_bare q p) (sx_no_requests s)
     else sx_no_requests s)"
proof -
  have "snd (no_request_containers q p) = all_bare q p" if "some_bare q p"
    using that by (auto simp: no_request_containers_def all_bare_def some_bare_def Let_def)
  moreover have "fst (no_request_containers q p) = some_bare q p"
    by (simp add: no_request_containers_def some_bare_def Let_def)
  ultimately show ?thesis by (simp add: size_pod_def in_size_scope_def Let_def)
qed

lemma size_pod_never:
  "sx_never_schedulable (size_pod q idx inc namespace p s) =
    (if in_size_scope namespace p \<and> fits_no_node q inc p
     then put_first (owner_key (size_owner_of idx p))
       ((size_owner_of idx p)\<lparr>so_detail := exceeds_largest_node q p inc\<rparr>) (sx_never_schedulable s)
     else sx_never_schedulable s)"
  using exceeds_iff [of q p inc] by (auto simp: size_pod_def in_size_scope_def fits_no_node_def Let_def)

lemma size_pod_limit: "sx_limit_no_request (size_pod q idx inc namespace p s) = sx_limit_no_request s"
  by (simp add: size_pod_def Let_def)

lemma size_template_parts:
  "sx_no_requests (size_template q namespace t s) = sx_no_requests s"
  "sx_never_schedulable (size_template q namespace t s) = sx_never_schedulable s"
  by (simp_all add: size_template_def Let_def)

lemma size_template_limit:
  "sx_limit_no_request (size_template q namespace t s) =
    (if \<not> out_of_scope namespace (ot_namespace t) \<and> limit_only q t
     then put_first (size_key (ot_kind t) (ot_namespace t) (ot_name t))
       ((plain_owner (ot_kind t) (ot_namespace t) (ot_name t))\<lparr>so_detail := fst (limit_without_request q (ot_containers t)),
          so_resource := snd (limit_without_request q (ot_containers t))\<rparr>) (sx_limit_no_request s)
     else sx_limit_no_request s)"
  using limit_only_iff [of q "ot_containers t"] by (auto simp: size_template_def limit_only_def Let_def)

definition size_pods :: "quantity_lib \<Rightarrow> replica_set list \<Rightarrow> node_capacity list \<Rightarrow> string \<Rightarrow> pod list \<Rightarrow> size_matches" where
  "size_pods q rss inc namespace pods = fold (size_pod q (deployment_index rss) inc namespace) pods
     \<lparr>sx_no_requests = [], sx_limit_no_request = [], sx_never_schedulable = []\<rparr>"

lemma size_matched_parts:
  "sx_no_requests (size_matched q pods rss ts inc namespace) =
     sx_no_requests (size_pods q rss inc namespace pods)"
  "sx_never_schedulable (size_matched q pods rss ts inc namespace) =
     sx_never_schedulable (size_pods q rss inc namespace pods)"
proof -
  have "sx_no_requests (fold (size_template q namespace) ts s) = sx_no_requests s \<and>
    sx_never_schedulable (fold (size_template q namespace) ts s) = sx_never_schedulable s" for s
    by (induction ts arbitrary: s) (simp_all add: size_template_parts)
  then show "sx_no_requests (size_matched q pods rss ts inc namespace) =
     sx_no_requests (size_pods q rss inc namespace pods)"
    "sx_never_schedulable (size_matched q pods rss ts inc namespace) =
     sx_never_schedulable (size_pods q rss inc namespace pods)"
    by (simp_all add: size_matched_def size_pods_def)
qed

definition best_effort_rows :: "quantity_lib \<Rightarrow> pod list \<Rightarrow> replica_set list \<Rightarrow> string \<Rightarrow> sized_owner list \<Rightarrow> bool" where
  "best_effort_rows q pods rss namespace owners \<longleftrightarrow> (\<forall>o'\<in>set owners. so_best_effort o' \<longleftrightarrow>
    (\<forall>p\<in>set pods. in_size_scope namespace p \<and> some_bare q p \<and> pod_key rss p = owner_key o' \<longrightarrow> all_bare q p))"

lemma no_request_rows:
  fixes q rss inc namespace
  defines "m \<equiv> \<lambda>pods. sx_no_requests (size_pods q rss inc namespace pods)"
  shows "keyed_rows (m pods) (rule_keys q pods rss ts inc namespace Rule_no_requests) \<and>
    best_effort_rows q pods rss namespace (map snd (m pods))"
proof (induction pods rule: rev_induct)
  case Nil
  show ?case by (simp add: m_def size_pods_def keyed_rows_Nil best_effort_rows_def)
next
  case (snoc p pods)
  let ?o = "size_owner_of (deployment_index rss) p"
  show ?case
  proof (cases "in_size_scope namespace p \<and> some_bare q p")
    case False
    then have "m (pods @ [p]) = m pods" by (auto simp: m_def size_pods_def size_pod_no_requests)
    moreover have "rule_keys q (pods @ [p]) rss ts inc namespace Rule_no_requests =
      rule_keys q pods rss ts inc namespace Rule_no_requests"
      using False by auto
    ultimately show ?thesis using snoc False by (auto simp: best_effort_rows_def simp del: rule_keys.simps)
  next
    case True
    let ?b = "all_bare q p \<and> (case mget (m pods) (owner_key ?o) of Some prev \<Rightarrow> so_best_effort prev | None \<Rightarrow> True)"
    have m': "m (pods @ [p]) = mput (owner_key ?o) (?o\<lparr>so_best_effort := ?b\<rparr>) (m pods)"
      using True by (simp add: m_def size_pods_def size_pod_no_requests put_no_requests_def)
    have ks: "rule_keys q (pods @ [p]) rss ts inc namespace Rule_no_requests =
      insert (owner_key ?o) (rule_keys q pods rss ts inc namespace Rule_no_requests)"
      using True by (auto simp: pod_key_def)
    have kr: "keyed_rows (m pods) (rule_keys q pods rss ts inc namespace Rule_no_requests)" using snoc by simp
    have b: "?b \<longleftrightarrow> (\<forall>x\<in>set (pods @ [p]). in_size_scope namespace x \<and> some_bare q x \<and> pod_key rss x = owner_key ?o \<longrightarrow> all_bare q x)"
    proof (cases "mget (m pods) (owner_key ?o)")
      case None
      then have "owner_key ?o \<notin> rule_keys q pods rss ts inc namespace Rule_no_requests"
        using kr by (auto simp: keyed_rows_def map_of_eq_None_iff)
      then have "\<forall>x\<in>set pods. in_size_scope namespace x \<and> some_bare q x \<longrightarrow> pod_key rss x \<noteq> owner_key ?o"
        by (auto simp: image_iff)
      then show ?thesis using None True by (auto simp: pod_key_def)
    next
      case (Some prev)
      then have "owner_key prev = owner_key ?o" "prev \<in> snd ` set (m pods)"
        using kr by (auto simp: keyed_rows_def dest!: map_of_SomeD intro: rev_image_eqI)
      then show ?thesis using snoc Some True by (auto simp: best_effort_rows_def pod_key_def)
    qed
    have "best_effort_rows q (pods @ [p]) rss namespace (map snd (m (pods @ [p])))"
      unfolding best_effort_rows_def
    proof
      fix o' assume "o' \<in> set (map snd (m (pods @ [p])))"
      then consider "o' = ?o\<lparr>so_best_effort := ?b\<rparr>" | k where "(k, o') \<in> set (m pods)" "k \<noteq> owner_key ?o"
        using kr unfolding m' by (auto simp: keyed_rows_def gm.entries_put)
      then show "so_best_effort o' \<longleftrightarrow> (\<forall>x\<in>set (pods @ [p]). in_size_scope namespace x \<and> some_bare q x \<and>
          pod_key rss x = owner_key o' \<longrightarrow> all_bare q x)"
      proof cases
        case 1
        then show ?thesis using b by simp
      next
        case 2
        then have "owner_key o' = k" using kr by (auto simp: keyed_rows_def)
        with 2 snoc show ?thesis by (force simp: best_effort_rows_def pod_key_def)
      qed
    qed
    then show ?thesis unfolding m' ks by (simp add: keyed_rows_mput [OF kr] del: rule_keys.simps)
  qed
qed

lemma never_rows:
  "keyed_rows (sx_never_schedulable (size_pods q rss inc namespace pods))
    (rule_keys q pods rss ts inc namespace Rule_never_schedulable)"
proof (induction pods rule: rev_induct)
  case Nil
  show ?case by (simp add: size_pods_def keyed_rows_Nil)
next
  case (snoc p pods)
  let ?s = "size_pods q rss inc namespace"
  have st: "?s (pods @ [p]) = size_pod q (deployment_index rss) inc namespace p (?s pods)"
    by (simp add: size_pods_def)
  show ?case
  proof (cases "in_size_scope namespace p \<and> fits_no_node q inc p")
    case True
    then have "rule_keys q (pods @ [p]) rss ts inc namespace Rule_never_schedulable =
      insert (pod_key rss p) (rule_keys q pods rss ts inc namespace Rule_never_schedulable)" by auto
    with True show ?thesis
      by (simp add: st size_pod_never pod_key_def keyed_rows_put_first [OF snoc] del: rule_keys.simps)
  next
    case False
    then have "rule_keys q (pods @ [p]) rss ts inc namespace Rule_never_schedulable =
      rule_keys q pods rss ts inc namespace Rule_never_schedulable" by auto
    with False snoc show ?thesis by (auto simp: st size_pod_never simp del: rule_keys.simps)
  qed
qed

lemma limit_rows:
  assumes "sx_limit_no_request s = []"
  shows "keyed_rows (sx_limit_no_request (fold (size_template q namespace) ts s))
    (rule_keys q pods rss ts inc namespace Rule_limit_no_request)"
proof (induction ts rule: rev_induct)
  case Nil
  show ?case by (simp add: assms keyed_rows_Nil)
next
  case (snoc t ts)
  show ?case
  proof (cases "\<not> out_of_scope namespace (ot_namespace t) \<and> limit_only q t")
    case True
    then have "rule_keys q pods rss (ts @ [t]) inc namespace Rule_limit_no_request =
      insert (size_key (ot_kind t) (ot_namespace t) (ot_name t)) (rule_keys q pods rss ts inc namespace Rule_limit_no_request)"
      by auto
    with True show ?thesis
      by (simp add: size_template_limit keyed_rows_put_first [OF snoc] owner_key_def plain_owner_def del: rule_keys.simps)
  next
    case False
    then have "rule_keys q pods rss (ts @ [t]) inc namespace Rule_limit_no_request =
      rule_keys q pods rss ts inc namespace Rule_limit_no_request" by auto
    with False snoc show ?thesis by (auto simp: size_template_limit simp del: rule_keys.simps)
  qed
qed

definition rule_rows :: "size_matches \<Rightarrow> rule_name \<Rightarrow> (string, sized_owner) gomap" where
  "rule_rows s nm = (case nm of Rule_no_requests \<Rightarrow> sx_no_requests s | Rule_limit_no_request \<Rightarrow> sx_limit_no_request s
     | Rule_never_schedulable \<Rightarrow> sx_never_schedulable s)"

lemma matched_rows:
  "keyed_rows (rule_rows (size_matched q pods rss ts inc namespace) nm) (rule_keys q pods rss ts inc namespace nm)"
proof (cases nm)
  case Rule_no_requests
  then show ?thesis using no_request_rows by (simp add: rule_rows_def size_matched_parts del: rule_keys.simps)
next
  case Rule_limit_no_request
  have "sx_limit_no_request (size_pods q rss inc namespace pods) = []"
    by (induction pods rule: rev_induct) (simp_all add: size_pods_def size_pod_limit)
  from limit_rows [OF this] show ?thesis using Rule_limit_no_request
    by (simp add: rule_rows_def size_matched_def size_pods_def del: rule_keys.simps)
next
  case Rule_never_schedulable
  then show ?thesis using never_rows by (simp add: rule_rows_def size_matched_parts del: rule_keys.simps)
qed

lemma size_rule_of_rows:
  assumes "keyed_rows m ks"
  shows "size_rule_of nm m = None \<longleftrightarrow> ks = {}"
    and "size_rule_of nm m = Some r \<Longrightarrow> sr_name r = nm \<and> length (sr_owners r) + sr_truncated r = card ks \<and>
      length (sr_owners r) = min max_owners_per_rule (card ks) \<and> distinct (map owner_key (sr_owners r)) \<and>
      owner_key ` set (sr_owners r) \<subseteq> ks \<and> set (sr_owners r) \<subseteq> snd ` set m"
proof -
  let ?os = "sort_slice sized_less (map snd m)"
  have mk: "map owner_key (map snd m) = map fst m"
    using assms by (auto simp: keyed_rows_def)
  have c: "card ks = length m"
    using assms distinct_card [of "map fst m"] by (auto simp: keyed_rows_def mok_def)
  show "size_rule_of nm m = None \<longleftrightarrow> ks = {}"
    using assms by (auto simp: size_rule_of_def keyed_rows_def Let_def)
  have l: "length ?os = length m" by (metis length_map mset_sort_slice size_mset)
  have "mset (map owner_key ?os) = mset (map fst m)" by (simp add: mk [symmetric] del: map_map)
  then have d: "distinct (map owner_key ?os)"
    using assms by (metis keyed_rows_def mok_def mset_eq_imp_distinct_iff)
  have s: "owner_key ` set ?os = ks"
  proof -
    have "owner_key ` set ?os = set (map owner_key (map snd m))" by (simp add: image_image)
    also have "\<dots> = ks" unfolding mk using assms by (simp add: keyed_rows_def)
    finally show ?thesis .
  qed
  have sub: "set ?os = snd ` set m" by simp
  have take: "distinct (map owner_key (take n ?os))" "set (take n ?os) \<subseteq> set ?os" for n
    using d by (simp add: take_map [symmetric] distinct_take) (rule set_take_subset)
  assume "size_rule_of nm m = Some r"
  then consider "r = \<lparr>sr_name = nm, sr_owners = take max_owners_per_rule ?os,
        sr_truncated = length ?os - max_owners_per_rule\<rparr>" "length ?os > max_owners_per_rule"
    | "r = \<lparr>sr_name = nm, sr_owners = ?os, sr_truncated = 0\<rparr>" "length ?os \<le> max_owners_per_rule"
    by (auto simp: size_rule_of_def Let_def split: if_splits)
  then show "sr_name r = nm \<and> length (sr_owners r) + sr_truncated r = card ks \<and>
      length (sr_owners r) = min max_owners_per_rule (card ks) \<and> distinct (map owner_key (sr_owners r)) \<and>
      owner_key ` set (sr_owners r) \<subseteq> ks \<and> set (sr_owners r) \<subseteq> snd ` set m"
  proof cases
    case 1
    show ?thesis using 1 take [of max_owners_per_rule] s sub l c by (auto simp del: set_sort_slice)
  next
    case 2
    show ?thesis using 2 d s sub l c by (auto simp del: set_sort_slice)
  qed
qed

text \<open>The rule of a report by its name; a report without it, or no report at all, has no row for it.\<close>

definition find_rule :: "rule_name \<Rightarrow> right_sizing option \<Rightarrow> size_rule option" where
  "find_rule nm z = (case z of None \<Rightarrow> None | Some r \<Rightarrow> find (\<lambda>x. sr_name x = nm) (rz_rules r))"

lemma size_rule_of_name: "size_rule_of nm m = Some r \<Longrightarrow> sr_name r = nm"
  by (auto simp: size_rule_of_def Let_def split: if_splits)

lemma find_rule_built:
  "find_rule nm (build_right_sizing q pods rss ts inc namespace) =
    size_rule_of nm (rule_rows (size_matched q pods rss ts inc namespace) nm)"
proof -
  let ?r = "\<lambda>nm. size_rule_of nm (rule_rows (size_matched q pods rss ts inc namespace) nm)"
  have "find_rule nm (build_right_sizing q pods rss ts inc namespace) =
    find (\<lambda>x. sr_name x = nm) (List.map_filter (\<lambda>x. x) [?r Rule_no_requests, ?r Rule_limit_no_request, ?r Rule_never_schedulable])"
    by (auto simp: find_rule_def build_right_sizing_def Let_def rule_rows_def)
  also have "\<dots> = ?r nm"
    using size_rule_of_name
    by (cases nm; cases "?r Rule_no_requests"; cases "?r Rule_limit_no_request"; cases "?r Rule_never_schedulable") auto
  finally show ?thesis .
qed

lemma right_sizing_rows:
  "(find_rule nm (build_right_sizing q pods rss ts inc namespace) = None \<longleftrightarrow>
      rule_keys q pods rss ts inc namespace nm = {}) \<and>
   (\<forall>r. find_rule nm (build_right_sizing q pods rss ts inc namespace) = Some r \<longrightarrow>
      length (sr_owners r) + sr_truncated r = card (rule_keys q pods rss ts inc namespace nm) \<and>
      length (sr_owners r) = min max_owners_per_rule (card (rule_keys q pods rss ts inc namespace nm)) \<and>
      distinct (map owner_key (sr_owners r)) \<and>
      owner_key ` set (sr_owners r) \<subseteq> rule_keys q pods rss ts inc namespace nm \<and>
      (nm = Rule_no_requests \<longrightarrow> best_effort_rows q pods rss namespace (sr_owners r)))"
proof -
  note m = matched_rows [of q pods rss ts inc namespace nm]
  have "best_effort_rows q pods rss namespace (sr_owners r)"
    if "find_rule nm (build_right_sizing q pods rss ts inc namespace) = Some r" "nm = Rule_no_requests" for r
  proof -
    have "set (sr_owners r) \<subseteq> snd ` set (rule_rows (size_matched q pods rss ts inc namespace) nm)"
      using size_rule_of_rows(2) [OF m] that(1) unfolding find_rule_built by blast
    then show ?thesis using no_request_rows that(2)
      by (fastforce simp: rule_rows_def size_matched_parts best_effort_rows_def)
  qed
  with size_rule_of_rows [OF m] show ?thesis unfolding find_rule_built by blast
qed

section \<open>Samples annotate and nothing else\<close>

definition unobserved :: "sized_owner \<Rightarrow> sized_owner" where
  "unobserved o' = o'\<lparr>so_observed := []\<rparr>"

text \<open>A report as it would be without a single usage sample.\<close>

definition without_samples :: "right_sizing \<Rightarrow> (rule_name \<times> sized_owner list \<times> nat) list" where
  "without_samples r = map (\<lambda>x. (sr_name x, map unobserved (sr_owners x), sr_truncated x)) (rz_rules r)"

definition reports_usage :: "pod list \<Rightarrow> replica_set list \<Rightarrow> (string, resource_list) gomap \<Rightarrow> string \<Rightarrow> string \<Rightarrow> bool" where
  "reports_usage pods rss usage namespace key \<longleftrightarrow> (\<exists>p\<in>set pods. in_size_scope namespace p \<and> pod_key rss p = key \<and>
     mget usage (p_namespace p @ ''/'' @ p_name p) \<noteq> None)"

lemma unobserved_observe: "unobserved (observe_owner m o') = unobserved o'"
  by (simp add: unobserved_def observe_owner_def split: option.split)

lemma sampled_pods_facts:
  "sd_total (sampled_pods q pods rss usage namespace) = length (filter (in_size_scope namespace) pods) \<and>
    sd_reporting (sampled_pods q pods rss usage namespace) = length (filter (\<lambda>p. in_size_scope namespace p \<and> mget usage (p_namespace p @ ''/'' @ p_name p) \<noteq> None) pods) \<and>
    (\<forall>k. mget (sd_by_owner (sampled_pods q pods rss usage namespace)) k \<noteq> None \<longrightarrow> reports_usage pods rss usage namespace k)"
proof (induction pods rule: rev_induct)
  case Nil
  show ?case by (simp add: sampled_pods_def)
next
  case (snoc p pods)
  let ?s = "sampled_pods q pods rss usage namespace"
  have st: "sampled_pods q (pods @ [p]) rss usage namespace = add_usage q (deployment_index rss) usage namespace p ?s"
    by (simp add: sampled_pods_def)
  have mono: "reports_usage pods rss usage namespace k \<Longrightarrow> reports_usage (pods @ [p]) rss usage namespace k" for k
    by (auto simp: reports_usage_def)
  have here: "reports_usage (pods @ [p]) rss usage namespace (pod_key rss p)"
    if "in_size_scope namespace p" "mget usage (p_namespace p @ ''/'' @ p_name p) = Some u" for u
    using that by (auto simp: reports_usage_def)
  show ?case
    using snoc mono here
    by (auto simp: st add_usage_def Let_def in_size_scope_def pod_key_def split: option.splits)
qed

lemma samples_only_annotate:
  assumes "attach_samples q (Some r) pods rss usage namespace = Some r'"
    and "rz_pods_total r = 0" and "rz_pods_reporting r = 0"
  shows "without_samples r' = without_samples r \<and>
    rz_pods_total r' = length (filter (in_size_scope namespace) pods) \<and>
    rz_pods_reporting r' \<le> rz_pods_total r' \<and>
    (\<forall>x\<in>set (rz_rules r'). \<forall>o'\<in>set (sr_owners x). reports_usage pods rss usage namespace (owner_key o') \<or>
       (\<exists>y\<in>set (rz_rules r). o' \<in> set (sr_owners y)))"
proof -
  let ?s = "sampled_pods q pods rss usage namespace"
  note f = sampled_pods_facts [of q pods rss usage namespace]
  have "length (filter (\<lambda>p. Q p \<and> P p) xs) \<le> length (filter Q xs)" for P Q :: "pod \<Rightarrow> bool" and xs
    by (induction xs) auto
  then have le: "sd_reporting ?s \<le> sd_total ?s" using f by simp
  have obs: "reports_usage pods rss usage namespace (owner_key (observe_owner (sd_by_owner ?s) o')) \<or>
    observe_owner (sd_by_owner ?s) o' = o'" for o'
    using f by (auto simp: observe_owner_def split: option.splits)
  let ?r2 = "r\<lparr>rz_pods_total := sd_total ?s, rz_pods_reporting := sd_reporting ?s,
    rz_metrics_available := sd_reporting ?s > 0\<rparr>"
  have eq: "r' = (if sd_reporting ?s = 0 then ?r2
    else ?r2\<lparr>rz_rules := map (\<lambda>x. x\<lparr>sr_owners := map (observe_owner (sd_by_owner ?s)) (sr_owners x)\<rparr>) (rz_rules r)\<rparr>)"
    using assms by (auto simp: attach_samples_def Let_def split: if_splits)
  have "without_samples r' = without_samples r"
    by (simp add: eq without_samples_def unobserved_observe comp_def)
  moreover have "\<exists>y\<in>set (rz_rules r). o' \<in> set (sr_owners y)"
    if w: "x \<in> set (rz_rules r')" "o' \<in> set (sr_owners x)" "\<not> reports_usage pods rss usage namespace (owner_key o')" for x o'
  proof (cases "sd_reporting ?s = 0")
    case True
    with w show ?thesis by (auto simp: eq)
  next
    case False
    then obtain y z where y: "y \<in> set (rz_rules r)" "z \<in> set (sr_owners y)" "o' = observe_owner (sd_by_owner ?s) z"
      using w(1,2) by (simp add: eq) (auto)
    with obs [of z] w(3) show ?thesis by auto
  qed
  moreover have "rz_pods_total r' = length (filter (in_size_scope namespace) pods) \<and> rz_pods_reporting r' \<le> rz_pods_total r'"
    using f le by (simp add: eq)
  ultimately show ?thesis by blast
qed

lemma built_unsampled:
  "build_right_sizing q pods rss ts inc namespace = Some r \<Longrightarrow>
    rz_pods_total r = 0 \<and> rz_pods_reporting r = 0"
  by (auto simp: build_right_sizing_def Let_def split: if_splits)

section \<open>A small cluster\<close>

text \<open>Quantities written in unary: as many cores, or bytes, as the text has characters.\<close>

definition unary :: quantity_lib where
  "unary = \<lparr>q_milli = (\<lambda>t. 1000 * int (length t)), q_value = (\<lambda>t. int (length t)), q_zero = (\<lambda>t. t = []),
     q_sign = (\<lambda>t. if t = [] then 0 else 1), q_add = (@), q_sub = (\<lambda>a b. take (length a - length b) a)\<rparr>"

definition sample_node :: "string \<Rightarrow> string \<Rightarrow> node_object" where
  "sample_node nm size_text = \<lparr>no_name = nm, no_labels = [],
     no_conditions = [\<lparr>cn_type = ''Ready'', cn_status = ''True'', cn_reason = [], cn_message = []\<rparr>],
     no_unschedulable = False, no_taints = [],
     no_allocatable = [(''cpu'', size_text), (''memory'', size_text)], no_capacity = []\<rparr>"

definition sample_pod_on :: "string \<Rightarrow> string \<Rightarrow> string \<Rightarrow> pod" where
  "sample_pod_on node nm ask = \<lparr>p_namespace = ''prod'', p_name = nm, p_owners = [], p_created = 0, p_deleted = None,
     p_phase = ''Running'', p_conditions = [], p_statuses = [], p_init_statuses = [],
     p_containers = [\<lparr>c_name = ''c'', c_image = ''i'',
       c_requests = (if ask = [] then [] else [(''cpu'', ask), (''memory'', ask)]), c_limits = [],
       c_readiness = None, c_liveness = None, c_startup = None\<rparr>],
     p_init_containers = [], p_node = node, p_ip = []\<rparr>"

definition sample_nodes :: "node_object list" where
  "sample_nodes = [sample_node ''n1'' ''xxxx'', sample_node ''n2'' ''xxx'']"

definition sample_pods :: "pod list" where
  "sample_pods = [sample_pod_on ''n1'' ''a'' ''xx'', sample_pod_on ''n2'' ''b'' ''x'', sample_pod_on ''n1'' ''c'' []]"

section \<open>Properties\<close>

text \<open>
  C28. When the report says that the pods of the largest node would fit on the others, they do: every
  pod that would move can be given one of the other usable nodes so that on each of them the pods it
  receives stay within its allocatable CPU and memory less what its own running pods request. All
  of them are placed, and the node named is a usable one.
\<close>

theorem node_loss_fits:
  assumes "distinct (map no_name nodes)" and "plain_cluster q nodes pods"
    and "hr_node_loss (cr_headroom (capacity_assess q nodes pods rss ts usage namespace)) = Some r" and "nl_fits r"
  shows "\<exists>bins. mset (map fst bins) = mset (filter (\<lambda>n. no_name n \<noteq> nl_node r) (usable nodes)) \<and>
    mset (concat (map snd bins)) = mset (filter (evicted (nl_node r)) pods) \<and>
    (\<forall>b\<in>set bins. cpu_of q (snd b) \<le> room_cpu q pods (fst b) \<and> mem_of q (snd b) \<le> room_mem q pods (fst b)) \<and>
    nl_placed r = length (filter (evicted (nl_node r)) pods)"
proof (rule node_loss_bins [OF assms(1,2) _ assms(4)])
  show "node_loss q (fst (classify_nodes q nodes pods)) pods = Some r"
    using assms(3) by (auto simp: capacity_assess_def Let_def build_headroom_def split: if_splits)
qed

theorem node_loss_fits_witness:
  "\<exists>r (bins :: (node_object \<times> pod list) list). hr_node_loss (cr_headroom (capacity_assess unary sample_nodes sample_pods [] [] [] [])) = Some r \<and> nl_node r = ''n1'' \<and>
    mset (concat (map snd bins)) = mset (filter (evicted ''n1'') sample_pods) \<and>
    map (no_name \<circ> fst) bins = [''n2'']"
proof -
  let ?r = "\<lparr>nl_node = ''n1'', nl_single = False, nl_fits = True, nl_placed = 2, nl_blocker = [], nl_blocker_cpu = []\<rparr>"
  have u: "usable sample_nodes = sample_nodes"
    by (simp add: sample_nodes_def sample_node_def exclude_reason_def Let_def)
  have d: "distinct (map no_name sample_nodes)" by (simp add: sample_nodes_def sample_node_def)
  have p: "plain_cluster unary sample_nodes sample_pods"
    by (simp add: plain_cluster_def sample_nodes_def sample_pods_def sample_node_def sample_pod_on_def raw_cpu_def raw_mem_def
        cpu_of_def mem_of_def res_milli_def res_bytes_def unary_def)
  have "node_loss unary (fst (classify_nodes unary sample_nodes sample_pods)) sample_pods = Some ?r"
    unfolding classify_nodes_eq(1) [OF d] u by code_simp
  then have r: "hr_node_loss (cr_headroom (capacity_assess unary sample_nodes sample_pods [] [] [] [])) = Some ?r"
    by (cases "fst (classify_nodes unary sample_nodes sample_pods) = []")
      (simp_all add: capacity_assess_def Let_def build_headroom_def, simp add: node_loss_def)
  from node_loss_fits [OF d p r] obtain bins where
    b: "mset (map fst bins) = mset (filter (\<lambda>n. no_name n \<noteq> ''n1'') (usable sample_nodes))"
      "mset (concat (map snd bins)) = mset (filter (evicted ''n1'') sample_pods)" by auto
  have "mset (map fst bins) = mset [sample_node ''n2'' ''xxx'']"
    unfolding b(1) u by (simp add: sample_nodes_def sample_node_def)
  then have "map fst bins = [sample_node ''n2'' ''xxx'']" by (simp del: mset_map)
  then have "map (no_name \<circ> fst) bins = [''n2'']" by (auto simp: sample_node_def)
  with r b(2) show ?thesis by (intro exI [of _ ?r] exI [of _ bins]) (simp only: node_loss_result.simps simp_thms)
qed

text \<open>
  The right-sizing rows are exact: a rule appears iff some workload in scope breaks it (a container
  without requests, a limit without a request in the template, a container that fits no single
  usable node); the rows and the truncated count add up to the number of such workloads, each of
  them once; and a workload is called best effort iff all its flagged pods are entirely bare.
\<close>

theorem right_sizing_census:
  "(find_rule nm (build_right_sizing q pods rss ts inc namespace) = None \<longleftrightarrow>
      rule_keys q pods rss ts inc namespace nm = {}) \<and>
   (\<forall>r. find_rule nm (build_right_sizing q pods rss ts inc namespace) = Some r \<longrightarrow>
      length (sr_owners r) + sr_truncated r = card (rule_keys q pods rss ts inc namespace nm) \<and>
      length (sr_owners r) = min max_owners_per_rule (card (rule_keys q pods rss ts inc namespace nm)) \<and>
      distinct (map owner_key (sr_owners r)) \<and>
      owner_key ` set (sr_owners r) \<subseteq> rule_keys q pods rss ts inc namespace nm \<and>
      (nm = Rule_no_requests \<longrightarrow> best_effort_rows q pods rss namespace (sr_owners r)))"
  by (rule right_sizing_rows)

lemma sample_rule_keys: "rule_keys unary sample_pods [] [] inc [] Rule_no_requests = {''Pod/prod/c''}"
proof -
  have "{p \<in> set sample_pods. in_size_scope [] p \<and> some_bare unary p} = {sample_pod_on ''n1'' ''c'' []}"
    by (auto simp: sample_pods_def sample_pod_on_def in_size_scope_def terminal_pod_def out_of_scope_def some_bare_def
        bare_container_def res_unset_def unary_def)
  then show ?thesis
    by (simp add: pod_key_def size_owner_of_def sample_pod_on_def controller_owner_def owner_key_def plain_owner_def size_key_def)
qed

theorem right_sizing_census_witness:
  "\<exists>r. find_rule Rule_no_requests (build_right_sizing unary sample_pods [] [] [] []) = Some r \<and>
     length (sr_owners r) + sr_truncated r = card {''Pod/prod/c''}"
proof -
  note k = sample_rule_keys
  have "find_rule Rule_no_requests (build_right_sizing unary sample_pods [] [] [] []) \<noteq> None"
    using right_sizing_census [of Rule_no_requests unary sample_pods "[]" "[]" "[]" "[]"] unfolding k by blast
  then obtain r where r: "find_rule Rule_no_requests (build_right_sizing unary sample_pods [] [] [] []) = Some r" by blast
  with right_sizing_census [of Rule_no_requests unary sample_pods "[]" "[]" "[]" "[]"] show ?thesis
    unfolding k by blast
qed

text \<open>
  A usage sample annotates and nothing else: the rules, their rows, their order and the truncated
  counts are what they are without samples, a row of a workload none of whose pods reported usage
  is left as it was, and the coverage counts the pods in scope.
\<close>

theorem samples_annotate:
  assumes "cr_right_sizing (capacity_assess q nodes pods rss ts usage namespace) = Some r'"
  shows "\<exists>r. build_right_sizing q pods rss ts (fst (classify_nodes q nodes pods)) namespace = Some r \<and>
    without_samples r' = without_samples r \<and>
    rz_pods_total r' = length (filter (in_size_scope namespace) pods) \<and>
    rz_pods_reporting r' \<le> rz_pods_total r' \<and>
    (\<forall>x\<in>set (rz_rules r'). \<forall>o'\<in>set (sr_owners x). reports_usage pods rss usage namespace (owner_key o') \<or>
       (\<exists>y\<in>set (rz_rules r). o' \<in> set (sr_owners y)))"
proof -
  let ?z = "build_right_sizing q pods rss ts (fst (classify_nodes q nodes pods)) namespace"
  have a: "attach_samples q ?z pods rss usage namespace = Some r'"
    using assms by (simp add: capacity_assess_def Let_def)
  then obtain r where r: "?z = Some r" by (cases ?z) (auto simp: attach_samples_def)
  with a samples_only_annotate [of q r pods rss usage namespace r'] built_unsampled [OF r] show ?thesis by auto
qed

theorem samples_annotate_witness:
  "\<exists>r'. cr_right_sizing (capacity_assess unary sample_nodes sample_pods [] []
      [(''prod/a'', [(''cpu'', ''x'')])] []) = Some r' \<and> rz_pods_reporting r' \<le> rz_pods_total r'"
proof -
  let ?u = "[(''prod/a'', [(''cpu'', ''x'')])]"
  let ?z = "build_right_sizing unary sample_pods [] [] (fst (classify_nodes unary sample_nodes sample_pods)) []"
  have "find_rule Rule_no_requests ?z \<noteq> None" by (simp add: right_sizing_rows sample_rule_keys del: rule_keys.simps)
  then have "?z \<noteq> None" by (auto simp: find_rule_def split: option.splits)
  then have "cr_right_sizing (capacity_assess unary sample_nodes sample_pods [] [] ?u []) \<noteq> None"
    by (auto simp: capacity_assess_def attach_samples_def Let_def split: option.splits)
  then obtain r' where r: "cr_right_sizing (capacity_assess unary sample_nodes sample_pods [] [] ?u []) = Some r'" by blast
  with samples_annotate [OF r] show ?thesis by blast
qed

end
