(* ===== verification/Throttle.thy ===== *)
theory Throttle
  imports Kube_Prelude
begin

text \<open>
  \<open>internal/oncall/throttle.go\<close>: the per-object cooldown and the token bucket that decide which
  objects get a model-written explanation. The bucket's float64 fields are exact rationals. Every
  method holds the mutex for its whole body, so a concurrent history is a sequence of calls and the
  model takes the calls one after another.
\<close>

section \<open>Data and operations\<close>

record throttle =
  th_cooldown :: duration
  th_capacity :: rat
  th_per_sec :: rat
  th_tokens :: rat
  th_last :: time
  th_seen :: "(string, time) gomap"
  th_allowed :: nat
  th_throttled :: nat

definition throttle_new :: "duration \<Rightarrow> int \<Rightarrow> throttle" where
  "throttle_new cooldown budget0 =
    (let budget = (if budget0 < 1 then 1 else budget0)
     in \<lparr>th_cooldown = cooldown, th_capacity = of_int budget, th_per_sec = of_int budget / 3600,
         th_tokens = of_int budget, th_last = 0, th_seen = [], th_allowed = 0, th_throttled = 0\<rparr>)"

definition refill :: "time \<Rightarrow> throttle \<Rightarrow> throttle" where
  "refill now t =
    (if is_zero_time (th_last t) then t\<lparr>th_last := now\<rparr>
     else let elapsed = seconds (time_sub now (th_last t));
              t1 = (if elapsed > 0
                    then let tokens = th_tokens t + elapsed * th_per_sec t
                         in t\<lparr>th_tokens := (if tokens > th_capacity t then th_capacity t else tokens)\<rparr>
                    else t)
          in t1\<lparr>th_last := now\<rparr>)"

definition prune :: "time \<Rightarrow> throttle \<Rightarrow> throttle" where
  "prune now t = t\<lparr>th_seen := fold (\<lambda>(k, stamped) m.
     if time_sub now stamped \<ge> th_cooldown t then mdel k m else m) (th_seen t) (th_seen t)\<rparr>"

definition deny :: "throttle \<Rightarrow> throttle" where
  "deny t = t\<lparr>th_throttled := th_throttled t + 1\<rparr>"

definition allow :: "string \<Rightarrow> time \<Rightarrow> throttle \<Rightarrow> throttle \<times> bool" where
  "allow key now t0 =
    (let t = prune now (refill now t0)
     in if (case mget (th_seen t) key of None \<Rightarrow> False
            | Some stamped \<Rightarrow> time_sub now stamped < th_cooldown t)
        then (deny t, False)
        else if th_tokens t < 1 then (deny t, False)
        else (t\<lparr>th_tokens := th_tokens t - 1, th_seen := mput key now (th_seen t),
                th_allowed := th_allowed t + 1\<rparr>, True))"

definition counters :: "throttle \<Rightarrow> nat \<times> nat" where
  "counters t = (th_allowed t, th_throttled t)"

definition remaining :: "time \<Rightarrow> throttle \<Rightarrow> rat" where
  "remaining now t =
    (if is_zero_time (th_last t) then th_capacity t
     else let r = th_tokens t + seconds (time_sub now (th_last t)) * th_per_sec t;
              r1 = (if r > th_capacity t then th_capacity t else r)
          in if r1 < 0 then 0 else r1)"

text \<open>A sequence of \<open>Allow\<close> calls with its decisions.\<close>

fun allow_run :: "(string \<times> time) list \<Rightarrow> throttle \<Rightarrow> throttle \<times> bool list" where
  "allow_run [] t = (t, [])"
| "allow_run ((key, now) # evs) t =
     (let (t1, b) = allow key now t; (t2, bs) = allow_run evs t1 in (t2, b # bs))"

section \<open>Lemmas\<close>

lemma prune_simps [simp]:
  "th_cooldown (prune now t) = th_cooldown t" "th_capacity (prune now t) = th_capacity t"
  "th_per_sec (prune now t) = th_per_sec t" "th_tokens (prune now t) = th_tokens t"
  "th_last (prune now t) = th_last t" "th_allowed (prune now t) = th_allowed t"
  "th_throttled (prune now t) = th_throttled t"
  by (simp_all add: prune_def)

lemma refill_simps [simp]:
  "th_cooldown (refill now t) = th_cooldown t" "th_capacity (refill now t) = th_capacity t"
  "th_per_sec (refill now t) = th_per_sec t" "th_last (refill now t) = now"
  "th_seen (refill now t) = th_seen t" "th_allowed (refill now t) = th_allowed t"
  "th_throttled (refill now t) = th_throttled t"
  by (simp_all add: refill_def Let_def)

lemma prune_seen:
  assumes "mok (th_seen t)"
  shows "mok (th_seen (prune now t)) \<and> mget (th_seen (prune now t)) k =
    (case mget (th_seen t) k of None \<Rightarrow> None
     | Some s \<Rightarrow> if th_cooldown t \<le> time_sub now s then None else Some s)"
  using assms
  by (auto simp: prune_def fold_mdel [where Q = "\<lambda>k s. th_cooldown t \<le> time_sub now s"] mok_filter
      mget_filter in_set_mget split: option.splits)

definition throttle_inv :: "throttle \<Rightarrow> bool" where
  "throttle_inv t \<longleftrightarrow> 1 \<le> th_capacity t \<and> th_per_sec t = th_capacity t / 3600 \<and>
     0 \<le> th_tokens t \<and> th_tokens t \<le> th_capacity t \<and> mok (th_seen t)"

lemma refill_inv: "throttle_inv t \<Longrightarrow> throttle_inv (refill now t)"
  by (auto simp: throttle_inv_def refill_def Let_def)

lemma prune_inv: "throttle_inv t \<Longrightarrow> throttle_inv (prune now t)"
  by (simp add: throttle_inv_def prune_seen)

lemma allow_inv:
  assumes "throttle_inv t"
  shows "throttle_inv (fst (allow key now t))"
proof -
  let ?t = "prune now (refill now t)"
  have "throttle_inv ?t" using assms by (simp add: prune_inv refill_inv)
  then show ?thesis by (auto simp: throttle_inv_def allow_def Let_def deny_def)
qed

definition allow_step :: "string \<times> time \<Rightarrow> throttle \<Rightarrow> throttle" where
  "allow_step = (\<lambda>(key, now) t. fst (allow key now t))"

interpretation throttle_loop: reconcile_loop allow_step "throttle_new cooldown budget" throttle_inv
  for cooldown budget
proof unfold_locales
  show "throttle_inv (throttle_new cooldown budget)"
    by (simp add: throttle_inv_def throttle_new_def Let_def)
qed (simp add: allow_step_def allow_inv split: prod.split)

lemma allow_run_Cons [simp]:
  "fst (allow_run ((key, now) # evs) t) = fst (allow_run evs (fst (allow key now t)))"
  "snd (allow_run ((key, now) # evs) t) = snd (allow key now t) # snd (allow_run evs (fst (allow key now t)))"
  by (simp_all add: Let_def split: prod.split)

declare allow_run.simps(2) [simp del]

lemma allow_run_fst: "fst (allow_run evs t) = fold allow_step evs t"
  by (induction evs arbitrary: t) (auto simp: allow_step_def)

lemma allow_counts:
  "th_allowed (fst (allow key now t)) = th_allowed t + (if snd (allow key now t) then 1 else 0)"
  "th_throttled (fst (allow key now t)) = th_throttled t + (if snd (allow key now t) then 0 else 1)"
  by (simp_all add: allow_def Let_def deny_def split: option.split)

lemma allow_run_length [simp]: "length (snd (allow_run evs t)) = length evs"
  by (induction evs arbitrary: t) auto

lemma allow_run_allowed:
  "th_allowed (fst (allow_run evs t)) = th_allowed t + length (filter id (snd (allow_run evs t)))"
  by (induction evs arbitrary: t) (auto simp: allow_counts)

lemma allow_run_throttled:
  "th_throttled (fst (allow_run evs t)) = th_throttled t + length (filter Not (snd (allow_run evs t)))"
  by (induction evs arbitrary: t) (auto simp: allow_counts)

subsection \<open>The bucket\<close>

lemma allow_frame [simp]:
  "th_cooldown (fst (allow key now t)) = th_cooldown t" "th_capacity (fst (allow key now t)) = th_capacity t"
  "th_per_sec (fst (allow key now t)) = th_per_sec t" "th_last (fst (allow key now t)) = now"
  by (simp_all add: allow_def Let_def deny_def split: option.split)

lemma refill_tokens:
  assumes "throttle_inv t" and "th_last t \<le> now"
  shows "th_tokens (refill now t) \<le> th_tokens t + seconds (now - th_last t) * th_per_sec t"
proof -
  have p: "0 \<le> th_per_sec t" using assms(1) by (simp add: throttle_inv_def)
  have "seconds (time_sub now (th_last t)) \<le> seconds (now - th_last t)"
    by (rule seconds_mono) (rule time_sub_le [OF assms(2)])
  then have "seconds (time_sub now (th_last t)) * th_per_sec t \<le> seconds (now - th_last t) * th_per_sec t"
    using p by (rule mult_right_mono)
  moreover have "0 \<le> seconds (now - th_last t) * th_per_sec t"
    using assms(2) p by (simp add: seconds_def second_def)
  ultimately show ?thesis by (auto simp: refill_def Let_def)
qed

lemma allow_tokens:
  "th_tokens (fst (allow key now t)) + of_nat (th_allowed (fst (allow key now t))) =
   th_tokens (refill now t) + of_nat (th_allowed t)"
  by (simp add: allow_def Let_def deny_def split: option.split)

lemma seconds_add: "seconds (a - b) + seconds (b - c) = seconds (a - c)"
  by (simp add: seconds_def diff_divide_distrib)

lemma run_tokens:
  "throttle_inv t \<Longrightarrow> sorted (th_last t # map snd evs) \<Longrightarrow>
   th_tokens (fst (allow_run evs t)) + of_nat (th_allowed (fst (allow_run evs t))) \<le>
   th_tokens t + of_nat (th_allowed t) + seconds (last (th_last t # map snd evs) - th_last t) * th_per_sec t"
proof (induction evs arbitrary: t)
  case (Cons e evs)
  obtain key now where [simp]: "e = (key, now)" by (cases e)
  let ?t = "fst (allow key now t)"
  have le: "th_last t \<le> now" using Cons.prems(2) by simp
  have "th_tokens (fst (allow_run evs ?t)) + of_nat (th_allowed (fst (allow_run evs ?t))) \<le>
      th_tokens ?t + of_nat (th_allowed ?t) + seconds (last (now # map snd evs) - now) * th_per_sec t"
    using Cons.IH [of ?t] Cons.prems allow_inv by simp
  also have "th_tokens ?t + of_nat (th_allowed ?t) \<le>
      th_tokens t + seconds (now - th_last t) * th_per_sec t + of_nat (th_allowed t)"
    unfolding allow_tokens using refill_tokens [OF Cons.prems(1) le] by simp
  finally have run: "th_tokens (fst (allow_run evs ?t)) + of_nat (th_allowed (fst (allow_run evs ?t))) \<le>
      th_tokens t + seconds (now - th_last t) * th_per_sec t + of_nat (th_allowed t) +
      seconds (last (now # map snd evs) - now) * th_per_sec t" by simp
  have "seconds (last (now # map snd evs) - th_last t) * th_per_sec t =
      seconds (last (now # map snd evs) - now) * th_per_sec t + seconds (now - th_last t) * th_per_sec t"
    by (simp only: distrib_right [symmetric] seconds_add)
  with run show ?case by simp
qed (simp add: seconds_def)

subsection \<open>The cooldown\<close>

text \<open>The key was explained at \<open>s\<close> or later, or so long ago that its stamp may be gone.\<close>

definition guarded :: "throttle \<Rightarrow> string \<Rightarrow> time \<Rightarrow> bool" where
  "guarded t k s \<longleftrightarrow> (\<exists>s'. mget (th_seen t) k = Some s' \<and> s \<le> s') \<or> th_cooldown t \<le> time_sub (th_last t) s"

lemma time_sub_anti: "u \<le> u' \<Longrightarrow> time_sub t u' \<le> time_sub t u"
  by (auto simp: time_sub_def)

lemma allow_seen:
  assumes "throttle_inv t"
  shows "mget (th_seen (fst (allow key now t))) k = (if k = key \<and> snd (allow key now t) then Some now
    else case mget (th_seen t) k of None \<Rightarrow> None
      | Some s \<Rightarrow> if th_cooldown t \<le> time_sub now s then None else Some s)"
proof -
  have "mok (th_seen (refill now t))" using assms by (simp add: throttle_inv_def)
  note p = prune_seen [OF this, of now]
  show ?thesis by (auto simp: allow_def Let_def deny_def p split: option.splits)
qed

lemma allow_denied:
  assumes "throttle_inv t" and "mget (th_seen t) key = Some s" and "time_sub now s < th_cooldown t"
  shows "\<not> snd (allow key now t)"
proof -
  have "mok (th_seen (refill now t))" using assms by (simp add: throttle_inv_def)
  note p = prune_seen [OF this, of now]
  show ?thesis using assms p [of key] by (simp add: allow_def Let_def)
qed

lemma guarded_step:
  assumes "throttle_inv t" and "guarded t k s" and "th_last t \<le> now" and "s \<le> now"
  shows "guarded (fst (allow key now t)) k s \<and>
    (key = k \<and> snd (allow key now t) \<longrightarrow> th_cooldown t \<le> time_sub now s)"
proof (cases "th_cooldown t \<le> time_sub now s")
  case True
  then show ?thesis by (simp add: guarded_def)
next
  case False
  moreover have "time_sub (th_last t) s \<le> time_sub now s" by (rule time_sub_mono) (rule assms(3))
  ultimately obtain s' where s': "mget (th_seen t) k = Some s'" "s \<le> s'"
    using assms(2) by (auto simp: guarded_def)
  then have lt: "time_sub now s' < th_cooldown t" using False time_sub_anti [of s s' now] by linarith
  have "\<not> (key = k \<and> snd (allow key now t))" using allow_denied [OF assms(1) _ lt] s' by blast
  then show ?thesis using s' lt by (auto simp: guarded_def allow_seen [OF assms(1)])
qed

lemma guarded_run:
  "throttle_inv t \<Longrightarrow> guarded t k s \<Longrightarrow> s \<le> th_last t \<Longrightarrow> sorted (th_last t # map snd evs) \<Longrightarrow>
   j < length evs \<Longrightarrow> fst (evs ! j) = k \<Longrightarrow> snd (allow_run evs t) ! j \<Longrightarrow>
   th_cooldown t \<le> time_sub (snd (evs ! j)) s"
proof (induction evs arbitrary: t j)
  case (Cons e evs)
  obtain key now where [simp]: "e = (key, now)" by (cases e)
  have le: "th_last t \<le> now" "s \<le> now" using Cons.prems(3,4) by auto
  note st = guarded_step [OF Cons.prems(1,2) le, of key]
  show ?case
  proof (cases j)
    case 0
    then show ?thesis using st Cons.prems(6,7) by simp
  next
    case (Suc i)
    then show ?thesis
      using Cons.IH [of "fst (allow key now t)" i] Cons.prems st le allow_inv [of t key now] by simp
  qed
qed simp

lemma cooldown_run:
  "throttle_inv t \<Longrightarrow> sorted (map snd evs) \<Longrightarrow> i < j \<Longrightarrow> j < length evs \<Longrightarrow>
   fst (evs ! i) = fst (evs ! j) \<Longrightarrow> snd (allow_run evs t) ! i \<Longrightarrow> snd (allow_run evs t) ! j \<Longrightarrow>
   th_cooldown t \<le> time_sub (snd (evs ! j)) (snd (evs ! i))"
proof (induction evs arbitrary: t i j)
  case (Cons e evs)
  obtain key now where [simp]: "e = (key, now)" by (cases e)
  obtain j' where j: "j = Suc j'" using Cons.prems(3) by (cases j) auto
  let ?t = "fst (allow key now t)"
  show ?case
  proof (cases i)
    case 0
    then have g: "guarded ?t key now"
      using Cons.prems(6) by (simp add: guarded_def allow_seen [OF Cons.prems(1)])
    have "th_cooldown ?t \<le> time_sub (snd (evs ! j')) now"
    proof (rule guarded_run [OF allow_inv [OF Cons.prems(1)] g])
      show "sorted (th_last ?t # map snd evs)" using Cons.prems(2) by simp
      show "j' < length evs" "fst (evs ! j') = key" "snd (allow_run evs ?t) ! j'"
        using Cons.prems(4,5,7) 0 j by simp_all
    qed simp
    then show ?thesis using 0 j by simp
  next
    case (Suc i')
    have "th_cooldown ?t \<le> time_sub (snd (evs ! j')) (snd (evs ! i'))"
      by (rule Cons.IH [OF allow_inv [OF Cons.prems(1)]]) (use Cons.prems(2-7) j Suc in simp_all)
    then show ?thesis using Suc j by simp
  qed
qed simp

section \<open>Properties\<close>

text \<open>
  After any sequence of calls the bucket holds between zero and its capacity, and every call
  was counted once, as allowed or as throttled.
\<close>

theorem throttle_invariant:
  "let (t, bs) = allow_run evs (throttle_new cooldown budget) in
    0 \<le> th_tokens t \<and> th_tokens t \<le> of_int (max 1 budget) \<and>
    counters t = (length (filter id bs), length (filter Not bs)) \<and>
    th_allowed t + th_throttled t = length evs"
proof -
  let ?n = "throttle_new cooldown budget"
  obtain t bs where r: "allow_run evs ?n = (t, bs)" by fastforce
  have inv: "throttle_inv t"
    using throttle_loop.inv_run [of evs cooldown budget] allow_run_fst [of evs ?n] r by simp
  have cap: "th_capacity (fst (allow_run evs t0)) = th_capacity t0" for t0
    by (induction evs arbitrary: t0) auto
  have "th_capacity t = of_int (max 1 budget)" using cap [of ?n] r by (simp add: throttle_new_def Let_def)
  moreover have "th_allowed t = length (filter id bs)" "th_throttled t = length (filter Not bs)"
    using allow_run_allowed [of evs ?n] allow_run_throttled [of evs ?n] r
    by (simp_all add: throttle_new_def Let_def)
  moreover have "length bs = length evs" using allow_run_length [of evs ?n] r by simp
  ultimately show ?thesis
    unfolding r Let_def prod.case
    using inv length_filter_partition [of id bs] by (simp add: throttle_inv_def counters_def)
qed

lemma budget_run:
  assumes "evs \<noteq> []" and "sorted (map snd evs)"
  shows "of_nat (length (filter id (snd (allow_run evs (throttle_new cooldown budget))))) \<le>
    of_int (max 1 budget) * (1 + seconds (snd (last evs) - snd (hd evs)) / 3600)"
proof -
  let ?n = "throttle_new cooldown budget"
  obtain key t0 evs' where evs: "evs = (key, t0) # evs'"
    using assms(1) by (cases evs) auto
  let ?t = "fst (allow key t0 ?n)"
  have inv: "throttle_inv ?n" by (rule throttle_loop.inv_start)
  then have inv1: "throttle_inv ?t" by (rule allow_inv)
  have start: "th_tokens ?t + of_nat (th_allowed ?t) = of_int (max 1 budget)"
    unfolding allow_tokens by (simp add: refill_def throttle_new_def Let_def is_zero_time_def)
  have rate: "th_per_sec ?t = of_int (max 1 budget) / 3600"
    by (simp add: throttle_new_def Let_def)
  have "sorted (th_last ?t # map snd evs')" using assms(2) evs by simp
  note run_tokens [OF inv1 this, unfolded rate start]
  moreover have "0 \<le> th_tokens (fst (allow_run evs' ?t))"
    using throttle_loop.inv_fold [OF inv1, of evs'] by (simp add: allow_run_fst throttle_inv_def)
  moreover have "th_allowed (fst (allow_run evs' ?t)) = length (filter id (snd (allow_run evs ?n)))"
    using allow_run_allowed [of evs ?n] by (simp add: evs throttle_new_def Let_def)
  moreover have "last (t0 # map snd evs') = snd (last evs)" by (simp add: evs last_map)
  ultimately show ?thesis by (simp add: evs algebra_simps)
qed



text \<open>
  With non-decreasing times, two explanations of the same object are at least the cooldown
  apart.
\<close>

theorem throttle_cooldown:
  assumes "sorted (map snd evs)" and "i < j" and "j < length evs" and "fst (evs ! i) = fst (evs ! j)"
    and "snd (allow_run evs (throttle_new cooldown budget)) ! i"
    and "snd (allow_run evs (throttle_new cooldown budget)) ! j"
  shows "cooldown \<le> time_sub (snd (evs ! j)) (snd (evs ! i))"
  using cooldown_run [OF throttle_loop.inv_start assms] by (simp add: throttle_new_def Let_def)

lemmas eval_allow = allow_run.simps allow_def refill_def prune_def deny_def throttle_new_def Let_def
  is_zero_time_def time_sub_def max_duration_def min_duration_def seconds_def second_def

theorem throttle_cooldown_witness:
  "5 \<le> time_sub (snd ([(''a'', 10), (''a'', 12), (''a'', 16)] ! 2)) (snd ([(''a'', 10), (''a'', 12), (''a'', 16)] ! 0))"
  by (rule throttle_cooldown [where budget = 2 and evs = "[(''a'', 10), (''a'', 12), (''a'', 16)]"])
    (simp_all add: eval_allow)

text \<open>
  \<open>Remaining\<close> is a faithful forecast: at an instant that is not before the last call, it is the
  number of tokens \<open>Allow\<close> would find after its refill, so reading the metric tells whether the budget
  would admit a call, and it changes nothing.
\<close>

theorem remaining_forecast:
  assumes "throttle_inv t" and "th_last t \<noteq> 0" and "th_last t \<le> now"
  shows "remaining now t = th_tokens (refill now t)"
proof -
  have sec: "0 \<le> seconds (time_sub now (th_last t))"
    using assms(3) time_sub_mono [of "th_last t" now "th_last t"] by (simp add: seconds_def second_def)
  moreover have "0 \<le> th_per_sec t"
    using assms(1) by (auto simp: throttle_inv_def)
  ultimately have gain: "0 \<le> seconds (time_sub now (th_last t)) * th_per_sec t" by simp
  show ?thesis
  proof (cases "seconds (time_sub now (th_last t)) = 0")
    case True
    with assms show ?thesis
      by (auto simp: remaining_def refill_def Let_def is_zero_time_def throttle_inv_def)
  next
    case False
    with assms sec gain show ?thesis
      by (auto simp: remaining_def refill_def Let_def is_zero_time_def throttle_inv_def
          simp del: mult_nonneg_nonneg)
  qed
qed

theorem remaining_forecast_witness:
  "remaining 20 (fst (allow ''a'' 10 (throttle_new 5 2))) = th_tokens (refill 20 (fst (allow ''a'' 10 (throttle_new 5 2))))"
  by (rule remaining_forecast) (simp_all add: allow_inv throttle_loop.inv_start)

end
