(* ===== verification/Watch_State.thy ===== *)
theory Watch_State
  imports Kube_Prelude
begin

text \<open>
  \<open>internal/watchstate/watchstate.go\<close>: the tracker that follows issues across reconciles. The
  tracker's two maps are association lists, a record behind a Go pointer is written back with
  \<open>mput\<close>, and each \<open>for range\<close> over a map is a fold over its entries. Firing times are kept exactly;
  the MTTR numerator (a float64 in the code) is the exact rational number of seconds.
\<close>

section \<open>Data\<close>

record wkey =
  k_kind :: string
  k_namespace :: string
  k_name :: string
  k_issue :: string

definition key_string :: "wkey \<Rightarrow> string" where
  "key_string k =
    (if k_namespace k = [] then k_kind k @ ''/'' @ k_name k @ '':'' @ k_issue k
     else k_kind k @ ''/'' @ k_namespace k @ ''/'' @ k_name k @ '':'' @ k_issue k)"

record wrecord =
  r_key :: wkey
  r_first_seen :: time
  r_firing_since :: time
  r_last_seen :: time
  r_active :: bool
  r_firings :: nat
  r_resolved_at :: time
  r_flapping :: bool
  r_recent_firings :: nat

record delta =
  d_new :: "wrecord list"
  d_resolved :: "wrecord list"
  d_ongoing :: "wrecord list"
  d_newly_flapping :: "wrecord list"

record tracker_options =
  o_max_tracked :: int
  o_retain_resolved :: duration
  o_flap_window :: duration
  o_flap_threshold :: int

record tracker_stats =
  st_new :: nat
  st_resolved :: nat
  st_flap :: nat
  st_dropped :: nat
  st_resolution_sum :: rat
  st_resolution_count :: nat

record tracker =
  t_opts :: tracker_options
  t_records :: "(wkey, wrecord) gomap"
  t_firings :: "(wkey, time list) gomap"
  t_stats :: tracker_stats

section \<open>Operations\<close>

definition tracker_new :: "tracker_options \<Rightarrow> tracker" where
  "tracker_new o0 =
    \<lparr>t_opts = \<lparr>
       o_max_tracked = (if o_max_tracked o0 \<le> 0 then 500 else o_max_tracked o0),
       o_retain_resolved = (if o_retain_resolved o0 \<le> 0 then hour else o_retain_resolved o0),
       o_flap_window = (if o_flap_window o0 \<le> 0 then 30 * minute else o_flap_window o0),
       o_flap_threshold = (if o_flap_threshold o0 \<le> 0 then 3 else o_flap_threshold o0)\<rparr>,
     t_records = [], t_firings = [],
     t_stats = \<lparr>st_new = 0, st_resolved = 0, st_flap = 0, st_dropped = 0,
       st_resolution_sum = 0, st_resolution_count = 0\<rparr>\<rparr>"

definition stale :: "tracker_options \<Rightarrow> time \<Rightarrow> wrecord \<Rightarrow> bool" where
  "stale opts now r \<longleftrightarrow> \<not> r_active r \<and> \<not> is_zero_time (r_resolved_at r) \<and>
     time_sub now (r_resolved_at r) > o_retain_resolved opts"

definition purge :: "time \<Rightarrow> tracker \<Rightarrow> tracker" where
  "purge now t = fold (\<lambda>(k, r) t.
     if stale (t_opts t) now r
     then t\<lparr>t_records := mdel k (t_records t), t_firings := mdel k (t_firings t)\<rparr> else t)
     (t_records t) t"

definition refresh_one :: "time \<Rightarrow> wkey \<times> time list \<Rightarrow> tracker \<Rightarrow> tracker" where
  "refresh_one now = (\<lambda>(k, times) t.
     let cutoff = now - o_flap_window (t_opts t);
         kept = filter (\<lambda>ts. ts > cutoff) times;
         t1 = t\<lparr>t_firings := (if kept = [] then mdel k (t_firings t) else mput k kept (t_firings t))\<rparr>
     in case mget (t_records t1) k of None \<Rightarrow> t1
        | Some r \<Rightarrow> t1\<lparr>t_records := mput k (r\<lparr>r_recent_firings := length kept,
            r_flapping := int (length kept) \<ge> o_flap_threshold (t_opts t)\<rparr>) (t_records t1)\<rparr>)"

definition refresh_flaps :: "time \<Rightarrow> tracker \<Rightarrow> tracker" where
  "refresh_flaps now t = fold (refresh_one now) (t_firings t) t"

definition record_firing :: "wrecord \<Rightarrow> time \<Rightarrow> tracker \<Rightarrow> wrecord \<times> tracker" where
  "record_firing r now t =
    (let cutoff = now - o_flap_window (t_opts t);
         times = mget_zero [] (t_firings t) (r_key r) @ [now];
         kept = filter (\<lambda>ts. ts > cutoff) times
     in (r\<lparr>r_recent_firings := length kept,
           r_flapping := int (length kept) \<ge> o_flap_threshold (t_opts t)\<rparr>,
         t\<lparr>t_firings := mput (r_key r) kept (t_firings t)\<rparr>))"

text \<open>The keys in the order they first occur: what the loop with the \<open>seen\<close> map appends.\<close>

fun uniq_keys :: "wkey list \<Rightarrow> wkey list \<Rightarrow> wkey list" where
  "uniq_keys seen [] = []"
| "uniq_keys seen (k # ks) = (if k \<in> set seen then uniq_keys seen ks
     else k # uniq_keys (k # seen) ks)"

definition blank_record :: "wkey \<Rightarrow> time \<Rightarrow> wrecord" where
  "blank_record k now = \<lparr>r_key = k, r_first_seen = now, r_firing_since = 0, r_last_seen = 0,
     r_active = False, r_firings = 0, r_resolved_at = 0, r_flapping = False, r_recent_firings = 0\<rparr>"

text \<open>One key that is tracked: refresh it, or start a new firing.\<close>

definition fire :: "time \<Rightarrow> wkey \<Rightarrow> wrecord \<Rightarrow> tracker \<times> delta \<Rightarrow> tracker \<times> delta" where
  "fire now k r0 = (\<lambda>(t, d).
     let r1 = r0\<lparr>r_last_seen := now\<rparr>
     in if r_active r1 then
          (t\<lparr>t_records := mput k r1 (t_records t)\<rparr>, d\<lparr>d_ongoing := d_ongoing d @ [r1]\<rparr>)
        else
          let was_flapping = r_flapping r1;
              r2 = r1\<lparr>r_active := True, r_firing_since := now, r_resolved_at := 0,
                r_firings := r_firings r1 + 1\<rparr>;
              t1 = t\<lparr>t_stats := (t_stats t)\<lparr>st_new := st_new (t_stats t) + 1\<rparr>\<rparr>;
              (r3, t2) = record_firing r2 now t1;
              (t3, d1) =
                (if r_flapping r3 \<and> \<not> was_flapping
                 then (t2\<lparr>t_stats := (t_stats t2)\<lparr>st_flap := st_flap (t_stats t2) + 1\<rparr>\<rparr>,
                       d\<lparr>d_newly_flapping := d_newly_flapping d @ [r3]\<rparr>)
                 else (t2, d))
          in (t3\<lparr>t_records := mput k r3 (t_records t3)\<rparr>, d1\<lparr>d_new := d_new d1 @ [r3]\<rparr>))"

text \<open>One pass of the first loop of \<open>Observe\<close>: a new key is refused at the cap.\<close>

definition observe_key :: "time \<Rightarrow> wkey \<Rightarrow> tracker \<times> delta \<Rightarrow> tracker \<times> delta" where
  "observe_key now k = (\<lambda>(t, d).
     case mget (t_records t) k of
       Some r \<Rightarrow> fire now k r (t, d)
     | None \<Rightarrow>
         if int (length (t_records t)) \<ge> o_max_tracked (t_opts t)
         then (t\<lparr>t_stats := (t_stats t)\<lparr>st_dropped := st_dropped (t_stats t) + 1\<rparr>\<rparr>, d)
         else fire now k (blank_record k now)
           (t\<lparr>t_records := mput k (blank_record k now) (t_records t)\<rparr>, d))"

text \<open>One pass of the second loop: an active record nobody reported any more is resolved.\<close>

definition resolve_one :: "wkey set \<Rightarrow> time \<Rightarrow> wkey \<times> wrecord \<Rightarrow> tracker \<times> delta \<Rightarrow> tracker \<times> delta" where
  "resolve_one seen now = (\<lambda>(k, r) (t, d).
     if \<not> r_active r \<or> k \<in> seen then (t, d)
     else let r1 = r\<lparr>r_active := False, r_resolved_at := now\<rparr>; s = t_stats t
       in (t\<lparr>t_records := mput k r1 (t_records t),
             t_stats := s\<lparr>st_resolved := st_resolved s + 1,
               st_resolution_sum := st_resolution_sum s +
                 of_int (time_sub now (r_firing_since r)) / of_int second,
               st_resolution_count := st_resolution_count s + 1\<rparr>\<rparr>,
           d\<lparr>d_resolved := d_resolved d @ [r1]\<rparr>))"

definition sort_records :: "wrecord list \<Rightarrow> wrecord list" where
  "sort_records = sort_slice (key_less (\<lambda>r. key_string (r_key r)))"

definition no_delta :: delta where
  "no_delta = \<lparr>d_new = [], d_resolved = [], d_ongoing = [], d_newly_flapping = []\<rparr>"

definition observe :: "wkey list \<Rightarrow> time \<Rightarrow> tracker \<Rightarrow> tracker \<times> delta" where
  "observe keys now t =
    (let t1 = refresh_flaps now (purge now t);
         uniq = sort_slice (key_less key_string) (uniq_keys [] keys);
         (t2, d2) = fold (observe_key now) uniq (t1, no_delta);
         (t3, d3) = fold (resolve_one (set keys) now) (t_records t2) (t2, d2)
     in (t3, \<lparr>d_new = sort_records (d_new d3), d_resolved = sort_records (d_resolved d3),
          d_ongoing = sort_records (d_ongoing d3),
          d_newly_flapping = sort_records (d_newly_flapping d3)\<rparr>))"

definition snapshot :: "bool \<Rightarrow> tracker \<Rightarrow> wrecord list" where
  "snapshot active t = sort_records (filter (\<lambda>r. r_active r = active) (map snd (t_records t)))"

definition active_records :: "tracker \<Rightarrow> wrecord list" where
  "active_records = snapshot True"

definition recently_resolved :: "tracker \<Rightarrow> wrecord list" where
  "recently_resolved = snapshot False"

section \<open>The invariant\<close>

definition opts_ok :: "tracker_options \<Rightarrow> bool" where
  "opts_ok opts \<longleftrightarrow> 0 < o_max_tracked opts \<and> 0 < o_retain_resolved opts \<and>
     0 < o_flap_window opts \<and> 0 < o_flap_threshold opts"

definition record_ok :: "tracker \<Rightarrow> wkey \<Rightarrow> wrecord \<Rightarrow> bool" where
  "record_ok t k r \<longleftrightarrow> r_key r = k \<and> 0 < r_firings r \<and>
     (r_active r \<longrightarrow> r_resolved_at r = 0) \<and>
     r_recent_firings r = length (mget_zero [] (t_firings t) k) \<and>
     (r_flapping r \<longleftrightarrow> int (r_recent_firings r) \<ge> o_flap_threshold (t_opts t))"

definition tracker_inv :: "tracker \<Rightarrow> bool" where
  "tracker_inv t \<longleftrightarrow> opts_ok (t_opts t) \<and> mok (t_records t) \<and> mok (t_firings t) \<and>
     int (length (t_records t)) \<le> o_max_tracked (t_opts t) \<and>
     (\<forall>k r. mget (t_records t) k = Some r \<longrightarrow> record_ok t k r) \<and>
     (\<forall>k ts. mget (t_firings t) k = Some ts \<longrightarrow> mget (t_records t) k \<noteq> None) \<and>
     st_new (t_stats t) = st_resolved (t_stats t) + mcount r_active (t_records t) \<and>
     st_resolution_count (t_stats t) = st_resolved (t_stats t)"

lemma tracker_inv_new: "tracker_inv (tracker_new o0)"
  by (simp add: tracker_inv_def tracker_new_def opts_ok_def time_units)

subsection \<open>purge and refreshFlaps\<close>

lemma purge_fold:
  "fold (\<lambda>(k, r) t. if stale (t_opts t) now r
     then t\<lparr>t_records := mdel k (t_records t), t_firings := mdel k (t_firings t)\<rparr> else t) xs t =
   t\<lparr>t_records := fold (\<lambda>(k, r) m. if stale (t_opts t) now r then mdel k m else m) xs (t_records t),
     t_firings := fold (\<lambda>(k, r) m. if stale (t_opts t) now r then mdel k m else m) xs (t_firings t)\<rparr>"
  by (induction xs arbitrary: t) (auto split: prod.splits)

text \<open>What \<open>purge\<close> leaves: the records that are not stale, and the firing times of the others.\<close>

lemma purge_get:
  assumes "mok (t_records t)"
  shows "mget (t_records (purge now t)) k = (case mget (t_records t) k of None \<Rightarrow> None
           | Some r \<Rightarrow> if stale (t_opts t) now r then None else Some r)"
  using assms
  by (auto simp: purge_def purge_fold fold_mdel mget_filter in_set_mget split: option.splits)

lemma purge_get_firings:
  assumes "mok (t_records t)" and "mok (t_firings t)"
  shows "mget (t_firings (purge now t)) k = (case mget (t_records t) k of None \<Rightarrow> mget (t_firings t) k
           | Some r \<Rightarrow> if stale (t_opts t) now r then None else mget (t_firings t) k)"
  using assms
  by (auto simp: purge_def purge_fold fold_mdel mget_filter in_set_mget split: option.splits)

lemma purge_opts [simp]: "t_opts (purge now t) = t_opts t" "t_stats (purge now t) = t_stats t"
  by (simp_all add: purge_def purge_fold)

lemma purge_shape:
  assumes "mok (t_records t)" and "mok (t_firings t)"
  shows "mok (t_records (purge now t))" "mok (t_firings (purge now t))"
    "length (t_records (purge now t)) \<le> length (t_records t)"
    "mcount r_active (t_records (purge now t)) = mcount r_active (t_records t)"
proof -
  show "mcount r_active (t_records (purge now t)) = mcount r_active (t_records t)"
    unfolding purge_def purge_fold fold_mdel
    by (simp, rule mcount_filter) (use assms in \<open>auto simp: in_set_mget stale_def\<close>)
qed (use assms in \<open>simp_all add: purge_def purge_fold fold_mdel mok_filter\<close>)

lemma purge_inv:
  assumes "tracker_inv t"
  shows "tracker_inv (purge now t)"
proof -
  have m: "mok (t_records t)" "mok (t_firings t)" using assms by (auto simp: tracker_inv_def)
  show ?thesis
    using assms purge_shape [OF m, of now]
    by (auto simp: tracker_inv_def record_ok_def purge_get [OF m(1)] purge_get_firings [OF m]
        mget_zero_def split: option.splits if_splits)
qed

text \<open>\<open>refreshFlaps\<close> changes only the two flap fields of a record and the firing times.\<close>

definition same_but_flaps :: "tracker \<Rightarrow> tracker \<Rightarrow> bool" where
  "same_but_flaps t s \<longleftrightarrow> t_opts s = t_opts t \<and> t_stats s = t_stats t \<and>
     (\<forall>k. map_option (\<lambda>r. r\<lparr>r_flapping := False, r_recent_firings := 0\<rparr>) (mget (t_records s) k) =
          map_option (\<lambda>r. r\<lparr>r_flapping := False, r_recent_firings := 0\<rparr>) (mget (t_records t) k))"

lemma refresh_one_inv:
  assumes "tracker_inv t" and "mget (t_records t) k = Some r"
  shows "tracker_inv (refresh_one now (k, ts) t)"
  using assms mcount_mput_eq [of "t_records t" r_active k]
  by (auto simp: tracker_inv_def refresh_one_def Let_def record_ok_def mget_zero_def length_mput
      split: option.splits if_splits)

lemma refresh_one_same: "same_but_flaps t (refresh_one now (k, ts) t)"
  by (auto simp: same_but_flaps_def refresh_one_def Let_def split: option.splits)

lemma same_but_flaps_trans: "same_but_flaps t s \<Longrightarrow> same_but_flaps s u \<Longrightarrow> same_but_flaps t u"
  by (auto simp: same_but_flaps_def)

lemma same_but_flaps_active:
  assumes "same_but_flaps t s"
  shows "map_option r_active (mget (t_records s) k) = map_option r_active (mget (t_records t) k)"
proof -
  have "map_option r_active (map_option (\<lambda>r. r\<lparr>r_flapping := False, r_recent_firings := 0\<rparr>) m) =
    map_option r_active m" for m
    by (cases m) auto
  with assms show ?thesis unfolding same_but_flaps_def by metis
qed

lemma refresh_flaps_inv:
  assumes "tracker_inv t"
  shows "tracker_inv (refresh_flaps now t) \<and> same_but_flaps t (refresh_flaps now t)"
  unfolding refresh_flaps_def
proof (rule fold_inv)
  show "tracker_inv t \<and> same_but_flaps t t" using assms by (simp add: same_but_flaps_def)
next
  fix x s assume x: "x \<in> set (t_firings t)" and s: "tracker_inv s \<and> same_but_flaps t s"
  obtain k ts where [simp]: "x = (k, ts)" by (cases x)
  have "mget (t_firings t) k = Some ts"
    using x assms by (simp add: tracker_inv_def in_set_mget)
  then obtain r where "mget (t_records t) k = Some r"
    using assms by (auto simp: tracker_inv_def)
  then obtain r' where "mget (t_records s) k = Some r'"
    using s same_but_flaps_active [of t s k] by auto
  then show "tracker_inv (refresh_one now x s) \<and> same_but_flaps t (refresh_one now x s)"
    using s refresh_one_inv refresh_one_same same_but_flaps_trans by auto
qed

subsection \<open>The loop over the reported keys\<close>

text \<open>What one firing does to the tracker and to the delta, with the record it writes.\<close>

definition fired_record :: "time \<Rightarrow> tracker \<Rightarrow> wrecord \<Rightarrow> wrecord" where
  "fired_record now t r = (if r_active r then r\<lparr>r_last_seen := now\<rparr>
     else fst (record_firing (r\<lparr>r_last_seen := now, r_active := True, r_firing_since := now,
       r_resolved_at := 0, r_firings := r_firings r + 1\<rparr>) now t))"

lemma fired_record_simps [simp]:
  "r_active (fired_record now t r)" "r_key (fired_record now t r) = r_key r"
  "r_first_seen (fired_record now t r) = r_first_seen r"
  "r_firing_since (fired_record now t r) = (if r_active r then r_firing_since r else now)"
  "r_last_seen (fired_record now t r) = now"
  "r_firings (fired_record now t r) = (if r_active r then r_firings r else Suc (r_firings r))"
  by (auto simp: fired_record_def record_firing_def Let_def)

lemma fire_new_list:
  "d_new (snd (fire now k r (t, d))) =
     d_new d @ (if r_active r then [] else [fired_record now t r])"
  "d_ongoing (snd (fire now k r (t, d))) =
     d_ongoing d @ (if r_active r then [fired_record now t r] else [])"
  "d_resolved (snd (fire now k r (t, d))) = d_resolved d"
  "t_records (fst (fire now k r (t, d))) = mput k (fired_record now t r) (t_records t)"
  "t_opts (fst (fire now k r (t, d))) = t_opts t"
  "st_new (t_stats (fst (fire now k r (t, d)))) = st_new (t_stats t) + (if r_active r then 0 else 1)"
  "st_resolved (t_stats (fst (fire now k r (t, d)))) = st_resolved (t_stats t)"
  "st_resolution_count (t_stats (fst (fire now k r (t, d)))) = st_resolution_count (t_stats t)"
  by (auto simp: fire_def fired_record_def record_firing_def Let_def)

text \<open>
  The firing times of the key after \<open>fire\<close>, which the two flap fields of the record count.
\<close>

lemma fire_firings:
  "t_firings (fst (fire now k r (t, d))) = (if r_active r then t_firings t
     else mput (r_key r) (filter (\<lambda>ts. ts > now - o_flap_window (t_opts t))
       (mget_zero [] (t_firings t) (r_key r) @ [now])) (t_firings t))"
  by (auto simp: fire_def record_firing_def Let_def)

lemma fire_record_ok:
  assumes "r_key r = k" and "\<not> r_active r"
  shows "record_ok (fst (fire now k r (t, d))) k (fired_record now t r)"
  using assms
  by (auto simp: record_ok_def fire_firings fire_new_list fired_record_def record_firing_def Let_def)

lemma fire_record_ok_active:
  assumes "record_ok t k r" and "r_active r"
  shows "record_ok (fst (fire now k r (t, d))) k (fired_record now t r)"
  using assms
  by (auto simp: record_ok_def fire_firings fire_new_list fired_record_def)

text \<open>The invariant for a tracker in which the record of \<open>k\<close> may be one that never fired yet.\<close>

lemma fire_inv:
  assumes inv: "opts_ok (t_opts t)" "mok (t_records t)" "mok (t_firings t)"
      "st_new (t_stats t) = st_resolved (t_stats t) + mcount r_active (t_records t)"
      "st_resolution_count (t_stats t) = st_resolved (t_stats t)"
      "int (length (t_records t)) \<le> o_max_tracked (t_opts t)"
      "\<And>k' r'. k' \<noteq> k \<Longrightarrow> mget (t_records t) k' = Some r' \<Longrightarrow> record_ok t k' r'"
      "\<And>k' ts. mget (t_firings t) k' = Some ts \<Longrightarrow> mget (t_records t) k' \<noteq> None"
    and r: "mget (t_records t) k = Some r" "r_key r = k" "r_active r \<Longrightarrow> record_ok t k r"
  shows "tracker_inv (fst (fire now k r (t, d)))"
proof -
  let ?t = "fst (fire now k r (t, d))"
  have ok: "record_ok ?t k (fired_record now t r)"
    using r fire_record_ok fire_record_ok_active by blast
  have other: "record_ok ?t k' r'" if "k' \<noteq> k" "mget (t_records t) k' = Some r'" for k' r'
    using inv(7) [OF that] that r(2)
    by (auto simp: record_ok_def fire_firings fire_new_list)
  have count: "mcount r_active (t_records ?t) =
      mcount r_active (t_records t) + (if r_active r then 0 else 1)"
    using mcount_mput_eq [OF inv(2), of r_active k "fired_record now t r"] r(1)
      mcount_mput [OF inv(2), of r_active k "fired_record now t r"]
    by (auto simp: fire_new_list split: if_splits)
  have dom: "mget (t_records ?t) k' \<noteq> None" if "mget (t_firings ?t) k' = Some ts" for k' ts
    using that inv(8) r(2) by (auto simp: fire_firings fire_new_list split: if_splits)
  show ?thesis
    unfolding tracker_inv_def
    using inv(1-6) ok other count dom r(1)
    by (auto simp: fire_new_list length_mput fire_firings split: if_splits)
qed

lemma observe_key_inv:
  assumes "tracker_inv t"
  shows "tracker_inv (fst (observe_key now k (t, d)))"
proof (cases "mget (t_records t) k")
  case (Some r)
  then show ?thesis
    using assms fire_inv [of t k r now d]
    by (auto simp: observe_key_def tracker_inv_def record_ok_def)
next
  case None
  let ?r = "blank_record k now"
  let ?t = "t\<lparr>t_records := mput k ?r (t_records t)\<rparr>"
  show ?thesis
  proof (cases "int (length (t_records t)) \<ge> o_max_tracked (t_opts t)")
    case True
    then show ?thesis using assms None by (auto simp: observe_key_def tracker_inv_def record_ok_def)
  next
    case False
    have "mcount r_active (t_records ?t) = mcount r_active (t_records t)"
      using assms None mcount_mput [of "t_records t" r_active k ?r]
      by (simp add: tracker_inv_def blank_record_def)
    then have "tracker_inv (fst (fire now k ?r (?t, d)))"
      using assms False None
      by (intro fire_inv)
        (auto simp: tracker_inv_def record_ok_def length_mput blank_record_def)
    with False None show ?thesis by (simp add: observe_key_def)
  qed
qed

definition is_active :: "tracker \<Rightarrow> wkey \<Rightarrow> bool" where
  "is_active t k \<longleftrightarrow> (case mget (t_records t) k of None \<Rightarrow> False | Some r \<Rightarrow> r_active r)"

lemma is_active_alt: "is_active t k \<longleftrightarrow> map_option r_active (mget (t_records t) k) = Some True"
  by (auto simp: is_active_def split: option.splits)

lemma tracker_inv_mok: "tracker_inv t \<Longrightarrow> mok (t_records t)"
  by (simp add: tracker_inv_def)

lemma tracker_inv_key: "tracker_inv t \<Longrightarrow> mget (t_records t) k = Some r \<Longrightarrow> r_key r = k"
  by (auto simp: tracker_inv_def record_ok_def)

text \<open>One key: other keys are untouched, and the key is reported in the list its history gives.\<close>

lemma observe_key_step:
  assumes "tracker_inv t"
    and step: "observe_key now k (t, d) = (t', d')"
  shows "k' \<noteq> k \<Longrightarrow> mget (t_records t') k' = mget (t_records t) k'"
    and "mget (t_records t) k \<noteq> None \<Longrightarrow> is_active t' k"
    and "map r_key (d_new d') = map r_key (d_new d) @ (if \<not> is_active t k \<and> is_active t' k then [k] else [])"
    and "map r_key (d_ongoing d') = map r_key (d_ongoing d) @ (if is_active t k then [k] else [])"
    and "d_resolved d' = d_resolved d"
    and "st_dropped (t_stats t') = st_dropped (t_stats t) + (if is_active t' k then 0 else 1)"
    and "is_active t' k \<longleftrightarrow> mget (t_records t') k \<noteq> None"
    and "r \<in> set (d_new d') \<union> set (d_ongoing d') \<Longrightarrow>
           r \<in> set (d_new d) \<union> set (d_ongoing d) \<or> mget (t_records t') k = Some r"
proof -
  let ?full = "int (length (t_records t)) \<ge> o_max_tracked (t_opts t)"
  have recs: "t_records t' = (case mget (t_records t) k of
      Some r \<Rightarrow> mput k (fired_record now t r) (t_records t)
    | None \<Rightarrow> if ?full then t_records t
        else mput k (fired_record now (t\<lparr>t_records := mput k (blank_record k now) (t_records t)\<rparr>)
          (blank_record k now)) (t_records t))"
    using step
    by (auto simp: observe_key_def fire_new_list update_last split: option.splits if_splits
        dest: arg_cong [of _ _ "\<lambda>p. t_records (fst p)"])
  have news: "d_new d' = d_new d @ (case mget (t_records t) k of
      Some r \<Rightarrow> if r_active r then [] else [fired_record now t r]
    | None \<Rightarrow> if ?full then []
        else [fired_record now (t\<lparr>t_records := mput k (blank_record k now) (t_records t)\<rparr>)
          (blank_record k now)])"
    and ongoing: "d_ongoing d' = d_ongoing d @ (case mget (t_records t) k of
      Some r \<Rightarrow> if r_active r then [fired_record now t r] else [] | None \<Rightarrow> [])"
    and res: "d_resolved d' = d_resolved d"
    using step
    by (auto simp: observe_key_def fire_new_list blank_record_def split: option.splits if_splits
        dest: arg_cong [of _ _ "\<lambda>p. d_new (snd p)"] arg_cong [of _ _ "\<lambda>p. d_ongoing (snd p)"]
          arg_cong [of _ _ "\<lambda>p. d_resolved (snd p)"])
  note key = tracker_inv_key [OF assms(1), of k]
  have act: "is_active t' k \<longleftrightarrow> mget (t_records t) k \<noteq> None \<or> \<not> ?full"
    by (simp add: is_active_def recs split: option.splits)
  show "k' \<noteq> k \<Longrightarrow> mget (t_records t') k' = mget (t_records t) k'"
    by (simp add: recs split: option.splits)
  show "mget (t_records t) k \<noteq> None \<Longrightarrow> is_active t' k" by (simp add: act)
  show "map r_key (d_new d') = map r_key (d_new d) @ (if \<not> is_active t k \<and> is_active t' k then [k] else [])"
    using key by (cases "mget (t_records t) k") (simp_all add: news act, simp_all add: is_active_def blank_record_def)
  show "map r_key (d_ongoing d') = map r_key (d_ongoing d) @ (if is_active t k then [k] else [])"
    using key by (simp add: ongoing is_active_def split: option.splits)
  show "d_resolved d' = d_resolved d" by (rule res)
  show "is_active t' k \<longleftrightarrow> mget (t_records t') k \<noteq> None"
    by (simp add: act recs split: option.splits)
  show "r \<in> set (d_new d') \<union> set (d_ongoing d') \<Longrightarrow>
       r \<in> set (d_new d) \<union> set (d_ongoing d) \<or> mget (t_records t') k = Some r"
    by (cases "mget (t_records t) k") (auto simp: news ongoing recs split: if_splits)
  have t': "t' = fst (observe_key now k (t, d))" using step by simp
  have fd: "st_dropped (t_stats (fst (fire now k r (s, d)))) = st_dropped (t_stats s)" for r s
    by (auto simp: fire_def record_firing_def Let_def)
  show "st_dropped (t_stats t') = st_dropped (t_stats t) + (if is_active t' k then 0 else 1)"
    unfolding act unfolding t' by (simp add: observe_key_def fd split: option.splits)
qed

lemma observe_key_other:
  assumes "tracker_inv t" and "observe_key now k (t, d) = (t', d')" and "k' \<noteq> k"
  shows "is_active t' k' = is_active t k'"
  using observe_key_step(1) [OF assms] by (simp add: is_active_def)

text \<open>The whole loop, for a list of keys without repetitions.\<close>

lemma observe_keys_fold:
  assumes "tracker_inv t" and "distinct ks" and "fold (observe_key now) ks (t, d) = (t', d')"
  shows "tracker_inv t' \<and>
    (\<forall>k. k \<notin> set ks \<longrightarrow> mget (t_records t') k = mget (t_records t) k) \<and>
    (\<forall>k\<in>set ks. (mget (t_records t) k \<noteq> None \<longrightarrow> is_active t' k) \<and>
        (is_active t' k \<longleftrightarrow> mget (t_records t') k \<noteq> None)) \<and>
    map r_key (d_new d') = map r_key (d_new d) @ filter (\<lambda>k. \<not> is_active t k \<and> is_active t' k) ks \<and>
    map r_key (d_ongoing d') = map r_key (d_ongoing d) @ filter (is_active t) ks \<and>
    d_resolved d' = d_resolved d \<and>
    st_dropped (t_stats t') = st_dropped (t_stats t) + length (filter (\<lambda>k. \<not> is_active t' k) ks) \<and>
    (\<forall>r\<in>set (d_new d') \<union> set (d_ongoing d'). r \<in> set (d_new d) \<union> set (d_ongoing d) \<or>
        (r_key r \<in> set ks \<and> mget (t_records t') (r_key r) = Some r))"
  using assms
proof (induction ks arbitrary: t d)
  case (Cons k ks)
  obtain t1 d1 where s1: "observe_key now k (t, d) = (t1, d1)" by fastforce
  note st = observe_key_step [OF Cons.prems(1) s1]
  have inv1: "tracker_inv t1" using observe_key_inv [OF Cons.prems(1), of now k d] s1 by simp
  have rest: "fold (observe_key now) ks (t1, d1) = (t', d')" "distinct ks" "k \<notin> set ks"
    using Cons.prems s1 by auto
  note IH = Cons.IH [OF inv1 rest(2,1)]
  have same: "mget (t_records t1) k' = mget (t_records t) k'" "is_active t1 k' = is_active t k'"
    if "k' \<in> set ks" for k'
    using st(1) [of k'] observe_key_other [OF Cons.prems(1) s1, of k'] that rest(3) by auto
  have atk: "mget (t_records t') k = mget (t_records t1) k" "is_active t' k = is_active t1 k"
    using IH rest(3) by (auto simp: is_active_def)
  have f1: "filter (\<lambda>k. \<not> is_active t1 k \<and> is_active t' k) ks = filter (\<lambda>k. \<not> is_active t k \<and> is_active t' k) ks"
    "filter (is_active t1) ks = filter (is_active t) ks"
    by (auto intro!: filter_cong simp: same)
  have c1: "\<forall>k'. k' \<notin> set (k # ks) \<longrightarrow> mget (t_records t') k' = mget (t_records t) k'"
    using IH st(1) by auto
  have c2: "\<forall>k'\<in>set (k # ks). (mget (t_records t) k' \<noteq> None \<longrightarrow> is_active t' k') \<and>
        (is_active t' k' \<longleftrightarrow> mget (t_records t') k' \<noteq> None)"
    using IH same(1) st(2,7) atk by auto
  have c3: "r \<in> set (d_new d) \<union> set (d_ongoing d) \<or>
      (r_key r \<in> set (k # ks) \<and> mget (t_records t') (r_key r) = Some r)"
    if r: "r \<in> set (d_new d') \<union> set (d_ongoing d')" for r
  proof (cases "r \<in> set (d_new d1) \<union> set (d_ongoing d1)")
    case False
    then show ?thesis using IH r by auto
  next
    case True
    with st(8) have "r \<in> set (d_new d) \<union> set (d_ongoing d) \<or> mget (t_records t1) k = Some r" by blast
    then show ?thesis using atk tracker_inv_key [OF inv1] by auto
  qed
  show ?case
    using IH c1 c2 c3 st(3,4,5,6) atk f1 by (auto simp del: split_paired_All)
qed simp

subsection \<open>The loop that resolves\<close>

definition resolved_record :: "time \<Rightarrow> wrecord \<Rightarrow> wrecord" where
  "resolved_record now r = r\<lparr>r_active := False, r_resolved_at := now\<rparr>"

lemma resolve_one_inv:
  assumes "tracker_inv t" and "mget (t_records t) k = Some r"
  shows "tracker_inv (fst (resolve_one seen now (k, r) (t, d)))"
proof (cases "r_active r \<and> k \<notin> seen")
  case True
  have "mcount r_active (t_records t) = Suc (mcount r_active (mput k (resolved_record now r) (t_records t)))"
    using assms True mcount_mput [of "t_records t" r_active k "resolved_record now r"]
    by (simp add: tracker_inv_def resolved_record_def)
  then show ?thesis
    using assms True
    by (auto simp: tracker_inv_def record_ok_def resolve_one_def Let_def length_mput resolved_record_def)
next
  case False
  then have "fst (resolve_one seen now (k, r) (t, d)) = t" by (auto simp: resolve_one_def)
  with assms show ?thesis by simp
qed

lemma resolve_one_eq:
  "r_active r \<and> k \<notin> seen \<Longrightarrow> resolve_one seen now (k, r) (t, d) = (t', d') \<Longrightarrow>
     t_records t' = mput k (resolved_record now r) (t_records t) \<and>
     d' = d\<lparr>d_resolved := d_resolved d @ [resolved_record now r]\<rparr> \<and>
     st_dropped (t_stats t') = st_dropped (t_stats t)"
  "\<not> (r_active r \<and> k \<notin> seen) \<Longrightarrow> resolve_one seen now (k, r) s = s"
  by (auto simp: resolve_one_def Let_def resolved_record_def split: prod.splits)

definition resolve_outcome :: "wkey set \<Rightarrow> time \<Rightarrow> wkey \<Rightarrow> wrecord \<Rightarrow> wrecord" where
  "resolve_outcome seen now k r = (if r_active r \<and> k \<notin> seen then resolved_record now r else r)"

lemma resolve_fold:
  assumes "tracker_inv t" and "mok xs" and "\<And>k r. mget xs k = Some r \<Longrightarrow> mget (t_records t) k = Some r"
    and "fold (resolve_one seen now) xs (t, d) = (t', d')"
  shows "tracker_inv t' \<and>
    (\<forall>k. mget (t_records t') k = (case mget xs k of None \<Rightarrow> mget (t_records t) k
       | Some r \<Rightarrow> Some (resolve_outcome seen now k r))) \<and>
    d_resolved d' = d_resolved d @
      map (resolved_record now \<circ> snd) (filter (\<lambda>e. r_active (snd e) \<and> fst e \<notin> seen) xs) \<and>
    d_new d' = d_new d \<and> d_ongoing d' = d_ongoing d \<and> d_newly_flapping d' = d_newly_flapping d \<and>
    st_dropped (t_stats t') = st_dropped (t_stats t)"
  using assms
proof (induction xs arbitrary: t d)
  case (Cons x xs)
  obtain k r where x: "x = (k, r)" by (cases x)
  obtain t1 d1 where s1: "resolve_one seen now (k, r) (t, d) = (t1, d1)" by (cases "resolve_one seen now (k, r) (t, d)")
  have r: "mget (t_records t) k = Some r" using Cons.prems(3) [of k r] x by simp
  have inv1: "tracker_inv t1"
    using resolve_one_inv [OF Cons.prems(1) r, of seen now d] s1 by simp
  have k: "k \<notin> fst ` set xs" "mok xs" using Cons.prems(2) x by auto
  then have none: "mget xs k = None" by (simp add: map_of_eq_None_iff)
  have t1: "mget (t_records t1) k' = (if k' = k then Some (resolve_outcome seen now k r) else mget (t_records t) k')" for k'
    using s1 r resolve_one_eq(1) [OF _ s1] resolve_one_eq(2) [of r k seen now "(t, d)"]
    by (cases "r_active r \<and> k \<notin> seen") (auto simp: resolve_outcome_def)
  have d1: "d1 = d\<lparr>d_resolved := d_resolved d @ (if r_active r \<and> k \<notin> seen then [resolved_record now r] else [])\<rparr>"
    "st_dropped (t_stats t1) = st_dropped (t_stats t)"
    using s1 resolve_one_eq(1) [OF _ s1] resolve_one_eq(2) [of r k seen now "(t, d)"]
    by (cases "r_active r \<and> k \<notin> seen"; simp)+
  have xs1: "mget (t_records t1) k' = Some r'" if "mget xs k' = Some r'" for k' r'
    using that none Cons.prems(3) [of k' r'] by (auto simp: t1 x)
  have "fold (resolve_one seen now) xs (t1, d1) = (t', d')" using Cons.prems(4) s1 x by simp
  note IH = Cons.IH [OF inv1 k(2) xs1 this]
  have "mget (t_records t') k' = (case mget (x # xs) k' of None \<Rightarrow> mget (t_records t) k'
       | Some r \<Rightarrow> Some (resolve_outcome seen now k' r))" for k'
    using IH by (cases "k' = k") (auto simp: x t1 none split: option.split)
  then show ?case using IH by (simp add: x d1)
qed simp

subsection \<open>Observe as a whole\<close>

lemma uniq_keys_set: "set (uniq_keys seen ks) = set ks - set seen"
  by (induction ks arbitrary: seen) auto

lemma uniq_keys_distinct: "distinct (uniq_keys seen ks)"
  by (induction ks arbitrary: seen) (auto simp: uniq_keys_set)

definition known :: "time \<Rightarrow> tracker \<Rightarrow> tracker" where
  "known now t = refresh_flaps now (purge now t)"

lemma known_inv: "tracker_inv t \<Longrightarrow> tracker_inv (known now t)"
  by (simp add: known_def purge_inv refresh_flaps_inv)

lemma known_active: "tracker_inv t \<Longrightarrow> is_active (known now t) k = is_active t k"
  using refresh_flaps_inv [OF purge_inv, of t now now]
    same_but_flaps_active [of "purge now t" "known now t" k]
  by (auto simp: is_active_alt known_def purge_get tracker_inv_def stale_def
      split: option.splits if_splits)

lemma known_dropped: "tracker_inv t \<Longrightarrow> st_dropped (t_stats (known now t)) = st_dropped (t_stats t)"
  using refresh_flaps_inv [OF purge_inv, of t now now] by (simp add: known_def same_but_flaps_def)

text \<open>The two loops of \<open>Observe\<close>, with the state between them.\<close>

lemma observe_split:
  assumes "observe keys now t = (t', d)"
  obtains t2 d2 d3 where
    "fold (observe_key now) (sort_slice (key_less key_string) (uniq_keys [] keys)) (known now t, no_delta) = (t2, d2)"
    "fold (resolve_one (set keys) now) (t_records t2) (t2, d2) = (t', d3)"
    "d_new d = sort_records (d_new d3)" "d_resolved d = sort_records (d_resolved d3)"
    "d_ongoing d = sort_records (d_ongoing d3)" "d_newly_flapping d = sort_records (d_newly_flapping d3)"
  using assms by (auto simp: observe_def Let_def known_def split: prod.splits)

lemma observe_inv:
  assumes "tracker_inv t"
  shows "tracker_inv (fst (observe keys now t))"
proof -
  obtain t' d where o: "observe keys now t = (t', d)" by fastforce
  obtain t2 d2 d3 where
    l1: "fold (observe_key now) (sort_slice (key_less key_string) (uniq_keys [] keys)) (known now t, no_delta) = (t2, d2)"
    and l2: "fold (resolve_one (set keys) now) (t_records t2) (t2, d2) = (t', d3)"
    using observe_split [OF o] by metis
  have "tracker_inv t2"
    using observe_keys_fold [OF known_inv [OF assms] _ l1] by (simp add: uniq_keys_distinct)
  then have "tracker_inv t'"
    using resolve_fold [OF _ _ _ l2] tracker_inv_mok by blast
  with o show ?thesis by simp
qed

text \<open>The daemon's loop: one observation after another, from an empty tracker.\<close>

definition observe_step :: "wkey list \<times> time \<Rightarrow> tracker \<Rightarrow> tracker" where
  "observe_step = (\<lambda>(keys, now) t. fst (observe keys now t))"

interpretation tracker_loop: reconcile_loop observe_step "tracker_new o0" tracker_inv for o0
  by unfold_locales (auto simp: tracker_inv_new observe_step_def observe_inv)

text \<open>How an observation splits the keys that were active and the keys that are reported.\<close>

lemma resolved_keys:
  assumes "tracker_inv t"
  shows "map r_key (map (resolved_record now \<circ> snd) (filter (\<lambda>e. r_active (snd e) \<and> fst e \<notin> S) (t_records t))) =
      map fst (filter (\<lambda>e. r_active (snd e) \<and> fst e \<notin> S) (t_records t))"
proof -
  have "r_key (snd e) = fst e" if "e \<in> set (t_records t)" for e
    using that assms in_set_mget [OF tracker_inv_mok [OF assms], of "fst e" "snd e"]
    by (simp add: tracker_inv_key)
  then show ?thesis by (simp add: resolved_record_def)
qed

lemma active_keys:
  assumes "tracker_inv t"
  shows "fst ` {e \<in> set (t_records t). r_active (snd e) \<and> fst e \<notin> S} = {k. is_active t k \<and> k \<notin> S}"
  using in_set_mget [OF tracker_inv_mok [OF assms]]
  by (force simp: is_active_def image_iff split: option.splits)

lemma observe_core:
  assumes inv: "tracker_inv t" and o: "observe keys now t = (t', d)"
  obtains t2 :: tracker and u :: "wkey list" and d3 :: delta where
    "tracker_inv t2" "tracker_inv t'" "set u = set keys" "distinct u"
    "d_new d = sort_records (d_new d3)" "d_resolved d = sort_records (d_resolved d3)"
    "d_ongoing d = sort_records (d_ongoing d3)"
    "\<And>k. k \<notin> set keys \<Longrightarrow> is_active t2 k = is_active t k"
    "\<And>k. k \<in> set keys \<Longrightarrow> is_active t k \<Longrightarrow> is_active t2 k"
    "\<And>k. mget (t_records t') k = map_option (resolve_outcome (set keys) now k) (mget (t_records t2) k)"
    "map r_key (d_new d3) = filter (\<lambda>k. \<not> is_active t k \<and> is_active t2 k) u"
    "map r_key (d_ongoing d3) = filter (is_active t) u"
    "d_resolved d3 = map (resolved_record now \<circ> snd)
      (filter (\<lambda>e. r_active (snd e) \<and> fst e \<notin> set keys) (t_records t2))"
    "\<And>r. r \<in> set (d_new d3) \<union> set (d_ongoing d3) \<Longrightarrow>
       r_key r \<in> set keys \<and> mget (t_records t2) (r_key r) = Some r"
    "st_dropped (t_stats t') = st_dropped (t_stats t) + length (filter (\<lambda>k. \<not> is_active t2 k) u)"
proof -
  let ?u = "sort_slice (key_less key_string) (uniq_keys [] keys)"
  obtain t2 d2 d3 where
    l1: "fold (observe_key now) ?u (known now t, no_delta) = (t2, d2)"
    and l2: "fold (resolve_one (set keys) now) (t_records t2) (t2, d2) = (t', d3)"
    and d: "d_new d = sort_records (d_new d3)" "d_resolved d = sort_records (d_resolved d3)"
      "d_ongoing d = sort_records (d_ongoing d3)"
    using observe_split [OF o] by metis
  have u: "set ?u = set keys" "distinct ?u" by (simp_all add: uniq_keys_set uniq_keys_distinct)
  have kn: "is_active (known now t) = is_active t" using known_active [OF inv] by blast
  note A = observe_keys_fold [OF known_inv [OF inv] u(2) l1, unfolded u(1) kn]
  have inv2: "tracker_inv t2" using A by blast
  note B = resolve_fold [OF inv2 tracker_inv_mok [OF inv2] _ l2, simplified]
  show thesis
  proof (rule that [of t2 ?u d3])
    show "mget (t_records t') k = map_option (resolve_outcome (set keys) now k) (mget (t_records t2) k)" for k
      using B by (auto split: option.splits)
    show "is_active t2 k = is_active t k" if "k \<notin> set keys" for k
      using A that kn [THEN fun_cong, of k] by (auto simp: is_active_def)
    show "is_active t2 k" if "k \<in> set keys" "is_active t k" for k
    proof -
      from that(2) have "is_active (known now t) k" by (simp add: kn)
      then have "mget (t_records (known now t)) k \<noteq> None" by (auto simp: is_active_def split: option.splits)
      with A that(1) show ?thesis by blast
    qed
    show "st_dropped (t_stats t') = st_dropped (t_stats t) + length (filter (\<lambda>k. \<not> is_active t2 k) ?u)"
      using A B known_dropped [OF inv, of now] by simp
    show "r_key r \<in> set keys \<and> mget (t_records t2) (r_key r) = Some r"
      if "r \<in> set (d_new d3) \<union> set (d_ongoing d3)" for r
      using A B that by (auto simp: no_delta_def)
  qed (use inv2 A B u d in \<open>simp_all add: no_delta_def\<close>)
qed

lemma resolved_stored:
  assumes "tracker_inv t" and "\<And>k. get' k = map_option (resolve_outcome S now k) (mget (t_records t) k)"
    and "r \<in> set (map (resolved_record now \<circ> snd) (filter (\<lambda>e. r_active (snd e) \<and> fst e \<notin> S) (t_records t)))"
  shows "get' (r_key r) = Some r"
proof -
  obtain k q where e: "(k, q) \<in> set (t_records t)" "r_active q" "k \<notin> S" "r = resolved_record now q"
    using assms(3) by auto
  then have "mget (t_records t) k = Some q" using in_set_mget [OF tracker_inv_mok [OF assms(1)]] by blast
  then show ?thesis using e tracker_inv_key [OF assms(1)] assms(2) [of k]
    by (simp add: resolve_outcome_def resolved_record_def)
qed

lemma observe_delta_inv:
  assumes inv: "tracker_inv t" and o: "observe keys now t = (t', d)"
  shows "r_key ` set (d_new d) = {k \<in> set keys. \<not> is_active t k \<and> is_active t' k} \<and>
    r_key ` set (d_ongoing d) = {k \<in> set keys. is_active t k} \<and>
    r_key ` set (d_resolved d) = {k. is_active t k \<and> k \<notin> set keys} \<and>
    {k \<in> set keys. is_active t k} \<subseteq> {k. is_active t' k} \<and> {k. is_active t' k} \<subseteq> set keys \<and>
    distinct (map r_key (d_new d @ d_ongoing d @ d_resolved d)) \<and>
    set (d_new d @ d_ongoing d @ d_resolved d) \<subseteq> {r. mget (t_records t') (r_key r) = Some r} \<and>
    st_dropped (t_stats t') = st_dropped (t_stats t) + card {k \<in> set keys. \<not> is_active t' k}"
proof -
  obtain t2 :: tracker and u :: "wkey list" and d3 :: delta where
    inv2: "tracker_inv t2" "tracker_inv t'" and u: "set u = set keys" "distinct u"
    and d: "d_new d = sort_records (d_new d3)" "d_resolved d = sort_records (d_resolved d3)"
      "d_ongoing d = sort_records (d_ongoing d3)"
    and act2: "\<And>k. k \<notin> set keys \<Longrightarrow> is_active t2 k = is_active t k"
      "\<And>k. k \<in> set keys \<Longrightarrow> is_active t k \<Longrightarrow> is_active t2 k"
    and get': "\<And>k. mget (t_records t') k = map_option (resolve_outcome (set keys) now k) (mget (t_records t2) k)"
    and new: "map r_key (d_new d3) = filter (\<lambda>k. \<not> is_active t k \<and> is_active t2 k) u"
    and ongoing: "map r_key (d_ongoing d3) = filter (is_active t) u"
    and res: "d_resolved d3 = map (resolved_record now \<circ> snd)
      (filter (\<lambda>e. r_active (snd e) \<and> fst e \<notin> set keys) (t_records t2))"
    and cur: "\<And>r. r \<in> set (d_new d3) \<union> set (d_ongoing d3) \<Longrightarrow>
       r_key r \<in> set keys \<and> mget (t_records t2) (r_key r) = Some r"
    and drop: "st_dropped (t_stats t') = st_dropped (t_stats t) + length (filter (\<lambda>k. \<not> is_active t2 k) u)"
    by (rule observe_core [OF inv o]) (rule that; assumption)
  have act': "is_active t' k \<longleftrightarrow> k \<in> set keys \<and> is_active t2 k" for k
    by (auto simp: is_active_def get' resolve_outcome_def resolved_record_def split: option.splits)
  have newset: "r_key ` set (d_new d3) = {k \<in> set keys. \<not> is_active t k \<and> is_active t2 k}"
    "r_key ` set (d_ongoing d3) = {k \<in> set keys. is_active t k}"
    using arg_cong [OF new, of set] arg_cong [OF ongoing, of set] u(1) by auto
  have reskeys: "map r_key (d_resolved d3) = map fst (filter (\<lambda>e. r_active (snd e) \<and> fst e \<notin> set keys) (t_records t2))"
    unfolding res by (rule resolved_keys [OF inv2(1)])
  have resset: "r_key ` set (d_resolved d3) = {k. is_active t k \<and> k \<notin> set keys}"
    using arg_cong [OF reskeys, of set] active_keys [OF inv2(1), of "set keys"] act2(1) by auto
  have stored: "mget (t_records t') (r_key r) = Some r"
    if "r \<in> set (d_new d3) \<union> set (d_ongoing d3) \<union> set (d_resolved d3)" for r
  proof (cases "r \<in> set (d_resolved d3)")
    case True
    then show ?thesis using resolved_stored [OF inv2(1) get'] res by metis
  next
    case False
    with that cur [of r] show ?thesis by (simp add: get' resolve_outcome_def)
  qed
  have dist: "distinct (map r_key (d_new d3))" "distinct (map r_key (d_ongoing d3))"
      "distinct (map r_key (d_resolved d3))"
    using u(2) tracker_inv_mok [OF inv2(1)]
    by (simp_all add: new ongoing reskeys mok_def distinct_map_filter)
  have "distinct (map r_key (d_new d)) \<and> distinct (map r_key (d_ongoing d)) \<and> distinct (map r_key (d_resolved d))"
    using dist by (simp add: d sort_records_def distinct_map)
  moreover have sets: "set (d_new d) = set (d_new d3)" "set (d_ongoing d) = set (d_ongoing d3)"
    "set (d_resolved d) = set (d_resolved d3)" by (simp_all add: d sort_records_def)
  moreover have "card {k \<in> set keys. \<not> is_active t' k} = length (filter (\<lambda>k. \<not> is_active t2 k) u)"
    using u distinct_length_filter [of u "\<lambda>k. \<not> is_active t2 k"]
    by (simp add: act' Int_def conj_commute cong: conj_cong)
  moreover have "distinct (map r_key (d_new d @ d_ongoing d @ d_resolved d))"
    using calculation(1) newset resset unfolding map_append distinct_append set_map set_append sets by blast
  ultimately show ?thesis
    using newset resset stored act2(2) drop by (auto simp: act')
qed

subsection \<open>The flap window\<close>

definition windowed :: "time \<Rightarrow> tracker \<Rightarrow> bool" where
  "windowed now t \<longleftrightarrow> (\<forall>k ts x. mget (t_firings t) k = Some ts \<longrightarrow> x \<in> set ts \<longrightarrow> now - o_flap_window (t_opts t) < x)"

lemma refresh_one_opts [simp]: "t_opts (refresh_one now e t) = t_opts t"
  by (auto simp: refresh_one_def Let_def split: prod.splits option.splits)

lemma refresh_one_firings:
  "mget (t_firings (refresh_one now (k, ts) t)) k' =
    (if k' = k then (let kept = filter (\<lambda>x. x > now - o_flap_window (t_opts t)) ts
       in if kept = [] then None else Some kept) else mget (t_firings t) k')"
  by (auto simp: refresh_one_def Let_def split: option.splits)

lemma refresh_fold_firings:
  "mok xs \<Longrightarrow> mget (t_firings (fold (refresh_one now) xs t)) k =
    (case mget xs k of None \<Rightarrow> mget (t_firings t) k
     | Some ts \<Rightarrow> let kept = filter (\<lambda>x. x > now - o_flap_window (t_opts t)) ts
         in if kept = [] then None else Some kept)"
proof (induction xs arbitrary: t)
  case (Cons x xs)
  obtain k' ts where [simp]: "x = (k', ts)" by (cases x)
  have "mget xs k' = None" using Cons.prems by (simp add: map_of_eq_None_iff)
  with Cons show ?case by (auto simp: refresh_one_firings Let_def split: option.splits)
qed simp

lemma refresh_flaps_windowed: "tracker_inv t \<Longrightarrow> windowed now (refresh_flaps now t)"
proof -
  assume "tracker_inv t"
  then have m: "mok (t_firings t)" by (simp add: tracker_inv_def)
  have "t_opts (fold (refresh_one now) xs s) = t_opts s" for xs s by (induction xs arbitrary: s) simp_all
  then show ?thesis
    by (auto simp: windowed_def refresh_flaps_def refresh_fold_firings [OF m] Let_def
        split: option.splits if_splits)
qed

lemma fire_windowed: "windowed now t \<Longrightarrow> windowed now (fst (fire now k r (t, d)))"
  by (auto simp: windowed_def fire_firings fire_new_list)

lemma observe_key_windowed: "windowed now (fst td) \<Longrightarrow> windowed now (fst (observe_key now k td))"
  using fire_windowed [of now] by (cases td) (auto simp: observe_key_def windowed_def split: option.splits)

lemma resolve_one_windowed: "windowed now (fst td) \<Longrightarrow> windowed now (fst (resolve_one S now e td))"
  by (cases td) (auto simp: resolve_one_def windowed_def Let_def split: prod.splits)

lemma observe_windowed:
  assumes "tracker_inv t"
  shows "windowed now (fst (observe keys now t))"
proof -
  have "windowed now (known now t)"
    using assms by (simp add: known_def purge_inv refresh_flaps_windowed)
  then have w1: "windowed now (fst (fold (observe_key now) ks (known now t, no_delta)))" for ks
    by (intro fold_inv [of _ "\<lambda>td. windowed now (fst td)"]) (simp_all add: observe_key_windowed)
  have "windowed now (fst (fold (resolve_one S now) xs td))" if "windowed now (fst td)" for S xs td
    using that by (intro fold_inv [of _ "\<lambda>td. windowed now (fst td)"]) (simp_all add: resolve_one_windowed)
  moreover obtain t' d where o: "observe keys now t = (t', d)" by fastforce
  ultimately show ?thesis
    using observe_split [OF o] w1 by (metis fst_conv)
qed

section \<open>Properties\<close>

text \<open>
  C4. After any sequence of observations, started from \<open>New\<close> with any options: the tracker never
  holds more records than its cap, at most one record per key, the counters balance (every new
  firing is either still active or was resolved), every resolution entered the MTTR count, and each
  record's flap fields count exactly the remembered firing times of its key.
\<close>

theorem tracker_invariant:
  "let t = fold observe_step evs (tracker_new o0) in
    int (length (t_records t)) \<le> o_max_tracked (t_opts t) \<and> distinct (mkeys (t_records t)) \<and>
    st_new (t_stats t) = st_resolved (t_stats t) + length (active_records t) \<and>
    st_resolution_count (t_stats t) = st_resolved (t_stats t) \<and>
    set (t_records t) \<subseteq> {(k, r). r_key r = k \<and> 0 < r_firings r \<and>
      r_recent_firings r = length (mget_zero [] (t_firings t) k) \<and>
      r_flapping r = (o_flap_threshold (t_opts t) \<le> int (r_recent_firings r))}"
proof -
  let ?t = "fold observe_step evs (tracker_new o0)"
  have inv: "tracker_inv ?t" by (rule tracker_loop.inv_run)
  have "mcount r_active (t_records ?t) = length (active_records ?t)"
    by (simp add: mcount_def active_records_def snapshot_def sort_records_def filter_map o_def)
  with inv show ?thesis
    using in_set_mget [OF tracker_inv_mok [OF inv]]
    by (auto simp: Let_def tracker_inv_def record_ok_def mok_def)
qed

text \<open>
  What one observation reports, in any reachable state: a reported key that was not active and
  is now is new; a reported key that was active is ongoing and stays active; a key that was active
  and is not reported is resolved; afterwards only reported keys are active; the three lists
  together name no key twice and carry the records as stored; and a reported key that did not
  become active is counted as dropped.
\<close>

theorem observe_delta:
  "let t = fold observe_step evs (tracker_new o0); (t', d) = observe keys now t in
    r_key ` set (d_new d) = {k \<in> set keys. \<not> is_active t k \<and> is_active t' k} \<and>
    r_key ` set (d_ongoing d) = {k \<in> set keys. is_active t k} \<and>
    r_key ` set (d_resolved d) = {k. is_active t k \<and> k \<notin> set keys} \<and>
    {k \<in> set keys. is_active t k} \<subseteq> {k. is_active t' k} \<and> {k. is_active t' k} \<subseteq> set keys \<and>
    distinct (map r_key (d_new d @ d_ongoing d @ d_resolved d)) \<and>
    set (d_new d @ d_ongoing d @ d_resolved d) \<subseteq> {r. mget (t_records t') (r_key r) = Some r} \<and>
    st_dropped (t_stats t') = st_dropped (t_stats t) + card {k \<in> set keys. \<not> is_active t' k}"
proof -
  obtain t' d where o: "observe keys now (fold observe_step evs (tracker_new o0)) = (t', d)" by fastforce
  show ?thesis unfolding Let_def o prod.case by (rule observe_delta_inv [OF tracker_loop.inv_run o])
qed

text \<open>
  After an observation at \<open>now\<close>, the firing times a tracker remembers all lie inside the flap
  window that ends at \<open>now\<close>; so a record is flagged as flapping only if it fired at least the
  threshold's number of times within the window.
\<close>

theorem flap_window:
  "let t = fst (observe keys now (fold observe_step evs (tracker_new o0))) in
    {(k, r) \<in> set (t_records t). r_flapping r} \<subseteq>
    {(k, r). \<exists>ts. o_flap_threshold (t_opts t) \<le> int (length ts) \<and> length ts = r_recent_firings r \<and>
       mget_zero [] (t_firings t) k = ts \<and> set ts \<subseteq> {now - o_flap_window (t_opts t) <..}}"
proof -
  let ?t = "fst (observe keys now (fold observe_step evs (tracker_new o0)))"
  have inv: "tracker_inv ?t" by (rule observe_inv) (rule tracker_loop.inv_run)
  have "windowed now ?t" by (rule observe_windowed) (rule tracker_loop.inv_run)
  then have "set (mget_zero [] (t_firings ?t) k) \<subseteq> {now - o_flap_window (t_opts ?t) <..}" for k
    by (cases "mget (t_firings ?t) k") (auto simp: windowed_def mget_zero_def)
  moreover have "record_ok ?t k r" if "(k, r) \<in> set (t_records ?t)" for k r
    using that inv in_set_mget [OF tracker_inv_mok [OF inv], of k r] by (simp add: tracker_inv_def)
  ultimately show ?thesis by (fastforce simp: Let_def record_ok_def)
qed

text \<open>
  The outcome depends only on which keys are reported, not on their order or on repetitions,
  as long as no two of the reported keys print alike.
\<close>

theorem observe_order_independent:
  assumes "set keys = set keys'" and "inj_on key_string (set keys)"
  shows "observe keys now t = observe keys' now t"
proof -
  have "mset (uniq_keys [] keys) = mset (uniq_keys [] keys')"
    using assms(1) by (simp add: set_eq_iff_mset_eq_distinct [symmetric] uniq_keys_set uniq_keys_distinct)
  then have "sort_slice (key_less key_string) (uniq_keys [] keys) =
      sort_slice (key_less key_string) (uniq_keys [] keys')"
    by (rule sort_slice_inj) (use assms(2) in \<open>simp add: uniq_keys_set\<close>)
  with assms(1) show ?thesis by (simp add: observe_def)
qed

theorem observe_order_independent_witness:
  "let a = \<lparr>k_kind = ''Pod'', k_namespace = ''shop'', k_name = ''web'', k_issue = ''OOMKilled''\<rparr>;
       b = \<lparr>k_kind = ''Pod'', k_namespace = ''shop'', k_name = ''api'', k_issue = ''CrashLoopBackOff''\<rparr>
   in observe [a, b] 7 (tracker_new \<lparr>o_max_tracked = 1, o_retain_resolved = 0, o_flap_window = 0, o_flap_threshold = 0\<rparr>) =
      observe [b, a, b] 7 (tracker_new \<lparr>o_max_tracked = 1, o_retain_resolved = 0, o_flap_window = 0, o_flap_threshold = 0\<rparr>)"
  unfolding Let_def by (rule observe_order_independent) (auto simp: key_string_def)

end
