(* ===== verification/Alert_State.thy ===== *)
theory Alert_State
  imports Watch_State Go_Strings
begin

text \<open>
  \<open>internal/alertstate/alertstate.go\<close>: the roller that turns the tracker's active records into one
  alert per object. The map of open alerts and the map of groups are association lists; an alert
  behind a pointer is written back with \<open>mput\<close>; each \<open>for range\<close> over a map is a fold over its
  entries. The notifications of one cycle are replayed by an abstract receiver, which is how the
  promise to the receiver is stated.
\<close>

section \<open>Data\<close>

record alert_object =
  ob_cluster :: string
  ob_kind :: string
  ob_namespace :: string
  ob_name :: string

definition object_string :: "alert_object \<Rightarrow> string" where
  "object_string ob =
    (if ob_namespace ob = [] then ob_cluster ob @ ''/'' @ ob_kind ob @ ''/'' @ ob_name ob
     else ob_cluster ob @ ''/'' @ ob_kind ob @ ''/'' @ ob_namespace ob @ ''/'' @ ob_name ob)"

datatype status = StatusFiring | StatusResolved

datatype reason = ReasonNew | ReasonChanged | ReasonRepeat | ReasonResolved | ReasonExplanation

record notification =
  n_object :: alert_object
  n_status :: status
  n_issues :: "string list"
  n_firing_since :: time
  n_resolved_at :: time
  n_flapping :: bool
  n_reason :: reason
  n_text :: string

record open_alert =
  a_firing_since :: time
  a_issues :: "string list"
  a_last_sent :: time

record roller =
  ro_repeat :: duration
  ro_cluster :: string
  ro_open :: "(alert_object, open_alert) gomap"

record alert_group =
  g_issues :: "string list"
  g_firing_since :: time
  g_flapping :: bool

definition default_repeat :: duration where
  "default_repeat = 4 * hour"

section \<open>Operations\<close>

definition roller_new :: "duration \<Rightarrow> string \<Rightarrow> roller" where
  "roller_new rep cluster =
    \<lparr>ro_repeat = (if rep \<le> 0 then default_repeat else rep), ro_cluster = cluster, ro_open = []\<rparr>"

text \<open>The loop of \<open>uniqueSorted\<close>: an element equal to the one before it is skipped.\<close>

fun skip_repeats :: "string option \<Rightarrow> string list \<Rightarrow> string list" where
  "skip_repeats prev [] = []"
| "skip_repeats prev (s # ss) =
     (if prev = Some s then skip_repeats (Some s) ss else s # skip_repeats (Some s) ss)"

definition unique_sorted :: "string list \<Rightarrow> string list" where
  "unique_sorted xs = skip_repeats None (sort_slice (<) xs)"

fun same_from :: "string list \<Rightarrow> string list \<Rightarrow> bool" where
  "same_from (x # xs) (y # ys) = (if x \<noteq> y then False else same_from xs ys)"
| "same_from _ _ = True"

definition same_issues :: "string list \<Rightarrow> string list \<Rightarrow> bool" where
  "same_issues a b = (if length a \<noteq> length b then False else same_from a b)"

definition firing :: "alert_object \<Rightarrow> open_alert \<Rightarrow> alert_group \<Rightarrow> reason \<Rightarrow> notification" where
  "firing ob a g reason = \<lparr>n_object = ob, n_status = StatusFiring, n_issues = g_issues g,
     n_firing_since = a_firing_since a, n_resolved_at = 0, n_flapping = g_flapping g,
     n_reason = reason, n_text = []\<rparr>"

definition record_object :: "string \<Rightarrow> wrecord \<Rightarrow> alert_object" where
  "record_object cluster rec = \<lparr>ob_cluster = cluster, ob_kind = k_kind (r_key rec),
     ob_namespace = k_namespace (r_key rec), ob_name = k_name (r_key rec)\<rparr>"

definition add_to_group :: "string \<Rightarrow> wrecord \<Rightarrow> (alert_object, alert_group) gomap \<Rightarrow> (alert_object, alert_group) gomap" where
  "add_to_group cluster rec groups =
    (let ob = record_object cluster rec;
         g = (case mget groups ob of
                None \<Rightarrow> \<lparr>g_issues = [], g_firing_since = r_firing_since rec, g_flapping = False\<rparr>
              | Some g \<Rightarrow> g);
         g1 = g\<lparr>g_issues := g_issues g @ [k_issue (r_key rec)]\<rparr>;
         g2 = (if r_firing_since rec < g_firing_since g1
               then g1\<lparr>g_firing_since := r_firing_since rec\<rparr> else g1);
         g3 = (if r_flapping rec then g2\<lparr>g_flapping := True\<rparr> else g2)
     in mput ob g3 groups)"

definition roll_group :: "time \<Rightarrow> alert_object \<times> alert_group \<Rightarrow> roller \<times> notification list \<Rightarrow> roller \<times> notification list" where
  "roll_group now = (\<lambda>(ob, g0) (r, out).
     let g = g0\<lparr>g_issues := unique_sorted (g_issues g0)\<rparr>
     in case mget (ro_open r) ob of
       None \<Rightarrow>
         let a = \<lparr>a_firing_since = g_firing_since g, a_issues = g_issues g, a_last_sent = now\<rparr>
         in (r\<lparr>ro_open := mput ob a (ro_open r)\<rparr>, out @ [firing ob a g ReasonNew])
     | Some a0 \<Rightarrow>
         let a1 = (if g_firing_since g < a_firing_since a0
                   then a0\<lparr>a_firing_since := g_firing_since g\<rparr> else a0)
         in if \<not> same_issues (a_issues a1) (g_issues g) then
              let a2 = a1\<lparr>a_issues := g_issues g, a_last_sent := now\<rparr>
              in (r\<lparr>ro_open := mput ob a2 (ro_open r)\<rparr>, out @ [firing ob a2 g ReasonChanged])
            else if time_sub now (a_last_sent a1) \<ge> ro_repeat r then
              let a2 = a1\<lparr>a_last_sent := now\<rparr>
              in (r\<lparr>ro_open := mput ob a2 (ro_open r)\<rparr>, out @ [firing ob a2 g ReasonRepeat])
            else (r\<lparr>ro_open := mput ob a1 (ro_open r)\<rparr>, out))"

definition resolved_note :: "time \<Rightarrow> alert_object \<Rightarrow> open_alert \<Rightarrow> notification" where
  "resolved_note now ob a = \<lparr>n_object = ob, n_status = StatusResolved, n_issues = [],
     n_firing_since = a_firing_since a, n_resolved_at = now, n_flapping = False,
     n_reason = ReasonResolved, n_text = []\<rparr>"

definition roll_clear :: "(alert_object, alert_group) gomap \<Rightarrow> time \<Rightarrow> alert_object \<times> open_alert \<Rightarrow> roller \<times> notification list \<Rightarrow> roller \<times> notification list" where
  "roll_clear groups now = (\<lambda>(ob, a) (r, out).
     if mget groups ob \<noteq> None then (r, out)
     else (r\<lparr>ro_open := mdel ob (ro_open r)\<rparr>, out @ [resolved_note now ob a]))"

definition roll :: "wrecord list \<Rightarrow> time \<Rightarrow> roller \<Rightarrow> roller \<times> notification list" where
  "roll active now r =
    (let groups = fold (add_to_group (ro_cluster r)) active [];
         (r1, out1) = fold (roll_group now) groups (r, []);
         (r2, out2) = fold (roll_clear groups now) (ro_open r1) (r1, out1)
     in (r2, sort_slice (key_less (\<lambda>n. object_string (n_object n))) out2))"

section \<open>The helpers\<close>

lemma same_from_iff: "length a = length b \<Longrightarrow> same_from a b \<longleftrightarrow> a = b"
  by (induction a b rule: same_from.induct) auto

lemma same_issues_iff: "same_issues a b \<longleftrightarrow> a = b"
  by (auto simp: same_issues_def same_from_iff)

lemma skip_repeats_sorted:
  "sorted ss \<Longrightarrow> (\<forall>p. prev = Some p \<longrightarrow> (\<forall>s\<in>set ss. p \<le> s)) \<Longrightarrow>
    sorted_wrt (<) (skip_repeats prev ss) \<and>
    set (skip_repeats prev ss) = set ss - {s. prev = Some s}"
proof (induction prev ss rule: skip_repeats.induct)
  case (2 prev s ss)
  have gt: "x \<in> set (skip_repeats (Some s) ss) \<Longrightarrow> s < x" for x
    using 2 by (cases "prev = Some s") auto
  show ?case using 2 gt by (cases "prev = Some s") auto
qed simp

lemma unique_sorted_set [simp]: "set (unique_sorted xs) = set xs"
  and unique_sorted_sorted: "sorted_wrt (<) (unique_sorted xs)"
proof -
  have "sorted (sort_slice (<) xs)"
    using kid.sort_sorted [of xs] by (simp add: not_less)
  from skip_repeats_sorted [OF this, of None]
  show "set (unique_sorted xs) = set xs" "sorted_wrt (<) (unique_sorted xs)"
    by (simp_all add: unique_sorted_def)
qed

lemma unique_sorted_Nil [simp]: "unique_sorted xs = [] \<longleftrightarrow> xs = []"
  by (metis set_empty unique_sorted_set)

section \<open>What one cycle does\<close>

text \<open>The records of one object, and the group the first loop builds from them.\<close>

definition records_of :: "string \<Rightarrow> wrecord list \<Rightarrow> alert_object \<Rightarrow> wrecord list" where
  "records_of cluster active ob = filter (\<lambda>rec. record_object cluster rec = ob) active"

definition group_of :: "wrecord list \<Rightarrow> alert_group option" where
  "group_of recs = (if recs = [] then None else Some
     \<lparr>g_issues = map (k_issue \<circ> r_key) recs, g_firing_since = Min (set (map r_firing_since recs)),
      g_flapping = (\<exists>rec\<in>set recs. r_flapping rec)\<rparr>)"

lemma group_of_snoc:
  "group_of (recs @ [rec]) = Some (case group_of recs of
      None \<Rightarrow> \<lparr>g_issues = [k_issue (r_key rec)], g_firing_since = r_firing_since rec, g_flapping = r_flapping rec\<rparr>
    | Some g \<Rightarrow> \<lparr>g_issues = g_issues g @ [k_issue (r_key rec)],
        g_firing_since = min (r_firing_since rec) (g_firing_since g),
        g_flapping = (g_flapping g \<or> r_flapping rec)\<rparr>)"
  by (auto simp: group_of_def)

lemma groups_mok: "mok groups \<Longrightarrow> mok (fold (add_to_group cluster) active groups)"
  by (rule fold_inv) (simp_all add: add_to_group_def Let_def)

lemma add_to_group_get:
  "mget (add_to_group cluster rec gs) ob = (if ob = record_object cluster rec
     then Some (case mget gs ob of
        None \<Rightarrow> \<lparr>g_issues = [k_issue (r_key rec)], g_firing_since = r_firing_since rec, g_flapping = r_flapping rec\<rparr>
      | Some g \<Rightarrow> \<lparr>g_issues = g_issues g @ [k_issue (r_key rec)],
          g_firing_since = min (r_firing_since rec) (g_firing_since g),
          g_flapping = (g_flapping g \<or> r_flapping rec)\<rparr>)
     else mget gs ob)"
proof (cases "mget gs (record_object cluster rec)")
  case (Some g)
  obtain iss fs fl where "g = \<lparr>g_issues = iss, g_firing_since = fs, g_flapping = fl\<rparr>" by (cases g)
  with Some show ?thesis by (auto simp: add_to_group_def Let_def min_def)
qed (auto simp: add_to_group_def Let_def)

lemma groups_get:
  "mget (fold (add_to_group cluster) active []) ob = group_of (records_of cluster active ob)"
proof (induction active rule: rev_induct)
  case Nil
  then show ?case by (simp add: records_of_def group_of_def)
next
  case (snoc rec active)
  have "mget (add_to_group cluster rec (fold (add_to_group cluster) active [])) ob =
    (if ob = record_object cluster rec
     then group_of (records_of cluster active ob @ [rec]) else group_of (records_of cluster active ob))"
    by (cases "ob = record_object cluster rec") (use snoc in \<open>simp_all add: add_to_group_get group_of_snoc\<close>)
  then show ?case by (auto simp: records_of_def)
qed

text \<open>The alert of an object after its group was seen, and what is sent for it.\<close>

definition next_alert :: "time \<Rightarrow> duration \<Rightarrow> open_alert option \<Rightarrow> alert_group \<Rightarrow> open_alert" where
  "next_alert now rep ao g = (case ao of
     None \<Rightarrow> \<lparr>a_firing_since = g_firing_since g, a_issues = unique_sorted (g_issues g), a_last_sent = now\<rparr>
   | Some a \<Rightarrow> \<lparr>a_firing_since = min (g_firing_since g) (a_firing_since a),
       a_issues = unique_sorted (g_issues g),
       a_last_sent = (if a_issues a \<noteq> unique_sorted (g_issues g) \<or> rep \<le> time_sub now (a_last_sent a)
         then now else a_last_sent a)\<rparr>)"

definition group_reason :: "time \<Rightarrow> duration \<Rightarrow> open_alert option \<Rightarrow> alert_group \<Rightarrow> reason option" where
  "group_reason now rep ao g = (case ao of
     None \<Rightarrow> Some ReasonNew
   | Some a \<Rightarrow> if a_issues a \<noteq> unique_sorted (g_issues g) then Some ReasonChanged
       else if rep \<le> time_sub now (a_last_sent a) then Some ReasonRepeat else None)"

definition group_note :: "time \<Rightarrow> duration \<Rightarrow> (alert_object, open_alert) gomap \<Rightarrow> alert_object \<times> alert_group \<Rightarrow> notification option" where
  "group_note now rep opn = (\<lambda>(ob, g). map_option
     (firing ob (next_alert now rep (mget opn ob) g) (g\<lparr>g_issues := unique_sorted (g_issues g)\<rparr>))
     (group_reason now rep (mget opn ob) g))"

lemma roll_group_eq:
  "roll_group now (ob, g) (r, out) =
    (r\<lparr>ro_open := mput ob (next_alert now (ro_repeat r) (mget (ro_open r) ob) g) (ro_open r)\<rparr>,
     out @ (case group_note now (ro_repeat r) (ro_open r) (ob, g) of None \<Rightarrow> [] | Some n \<Rightarrow> [n]))"
proof (cases "mget (ro_open r) ob")
  case None
  then show ?thesis
    by (simp add: roll_group_def next_alert_def group_note_def group_reason_def Let_def)
next
  case (Some a)
  obtain fs iss ls where "a = \<lparr>a_firing_since = fs, a_issues = iss, a_last_sent = ls\<rparr>" by (cases a)
  with Some show ?thesis
    by (simp add: roll_group_def Let_def same_issues_iff next_alert_def group_note_def
        group_reason_def min_def)
qed

lemma roll_groups_fold:
  assumes "mok groups"
  shows "fold (roll_group now) groups (r, out) =
    (r\<lparr>ro_open := fold (\<lambda>(ob, g). mput ob (next_alert now (ro_repeat r) (mget (ro_open r) ob) g)) groups (ro_open r)\<rparr>,
     out @ List.map_filter (group_note now (ro_repeat r) (ro_open r)) groups)"
  using assms
proof (induction groups arbitrary: r out)
  case (Cons e groups)
  obtain ob g where e: "e = (ob, g)" by (cases e)
  let ?r = "r\<lparr>ro_open := mput ob (next_alert now (ro_repeat r) (mget (ro_open r) ob) g) (ro_open r)\<rparr>"
  have other: "fst e' \<noteq> ob" if "e' \<in> set groups" for e' using Cons.prems that e by auto
  have sent: "List.map_filter (group_note now (ro_repeat r) (ro_open ?r)) groups =
      List.map_filter (group_note now (ro_repeat r) (ro_open r)) groups"
    using other by (intro map_filter_cong) (auto simp: group_note_def)
  have puts: "fold (\<lambda>(ob, g). mput ob (next_alert now (ro_repeat r) (mget (ro_open ?r) ob) g)) groups m =
      fold (\<lambda>(ob, g). mput ob (next_alert now (ro_repeat r) (mget (ro_open r) ob) g)) groups m" for m
    using other by (intro fold_cong) auto
  show ?case
    using Cons.IH [of ?r] Cons.prems sent puts
    by (auto simp: e roll_group_eq List.map_filter_simps split: option.splits)
qed (simp add: List.map_filter_simps)

lemma roll_clear_fold:
  "fold (roll_clear groups now) xs (r, out) =
    (r\<lparr>ro_open := fold (\<lambda>(ob, a) m. if mget groups ob = None then mdel ob m else m) xs (ro_open r)\<rparr>,
     out @ map (\<lambda>(ob, a). resolved_note now ob a) (filter (\<lambda>(ob, a). mget groups ob = None) xs))"
  by (induction xs arbitrary: r out) (auto simp: roll_clear_def)

lemma roll_split:
  assumes "roll active now r = (r', out)"
  obtains groups m where
    "mok groups" "\<And>ob. mget groups ob = group_of (records_of (ro_cluster r) active ob)"
    "m = fold (\<lambda>(ob, g). mput ob (next_alert now (ro_repeat r) (mget (ro_open r) ob) g)) groups (ro_open r)"
    "r' = r\<lparr>ro_open := filter (\<lambda>e. \<not> (\<exists>a. (fst e, a) \<in> set m \<and> mget groups (fst e) = None)) m\<rparr>"
    "out = sort_slice (key_less (\<lambda>n. object_string (n_object n)))
       (List.map_filter (group_note now (ro_repeat r) (ro_open r)) groups @
        map (\<lambda>(ob, a). resolved_note now ob a) (filter (\<lambda>(ob, a). mget groups ob = None) m))"
proof -
  let ?g = "fold (add_to_group (ro_cluster r)) active []"
  let ?m = "fold (\<lambda>(ob, g). mput ob (next_alert now (ro_repeat r) (mget (ro_open r) ob) g)) ?g (ro_open r)"
  have m: "mok ?g" by (rule groups_mok) simp
  show thesis
    by (rule that [OF m groups_get refl])
      (use assms in \<open>simp_all add: roll_def Let_def roll_groups_fold [OF m] roll_clear_fold
         fold_mdel [where Q = "\<lambda>ob a. mget ?g ob = None"]\<close>)
qed

text \<open>The alerts that are open afterwards: one per object with an active record.\<close>

lemma roll_frame: "roll active now r = (r', out) \<Longrightarrow> ro_repeat r' = ro_repeat r \<and> ro_cluster r' = ro_cluster r"
  by (auto elim!: roll_split)

lemma roll_open:
  assumes "roll active now r = (r', out)" and "mok (ro_open r)"
  shows "mok (ro_open r') \<and> mget (ro_open r') ob =
    map_option (next_alert now (ro_repeat r) (mget (ro_open r) ob)) (group_of (records_of (ro_cluster r) active ob))"
  using assms(1)
proof (rule roll_split)
  fix groups m
  assume g: "mok groups" "\<And>ob. mget groups ob = group_of (records_of (ro_cluster r) active ob)"
    and m: "m = fold (\<lambda>(ob, g). mput ob (next_alert now (ro_repeat r) (mget (ro_open r) ob) g)) groups (ro_open r)"
    and r': "r' = r\<lparr>ro_open := filter (\<lambda>e. \<not> (\<exists>a. (fst e, a) \<in> set m \<and> mget groups (fst e) = None)) m\<rparr>"
  have mokm: "mok m" unfolding m by (rule mok_fold_mput) (rule assms(2))
  have "mget m ob = (case mget groups ob of None \<Rightarrow> mget (ro_open r) ob
     | Some g \<Rightarrow> Some (next_alert now (ro_repeat r) (mget (ro_open r) ob) g))"
    unfolding m by (rule mget_fold_mput [OF g(1)])
  then show ?thesis
    using mokm g(2) [of ob]
    by (auto simp: r' mok_filter mget_filter in_set_mget split: option.splits)
qed

text \<open>The notifications: for each object at most one, from its group or because it cleared.\<close>

lemma roll_out:
  assumes "roll active now r = (r', out)" and "mok (ro_open r)"
  shows "n \<in> set out \<longleftrightarrow>
      (\<exists>g. group_of (records_of (ro_cluster r) active (n_object n)) = Some g \<and>
         group_note now (ro_repeat r) (ro_open r) (n_object n, g) = Some n) \<or>
      (\<exists>a. mget (ro_open r) (n_object n) = Some a \<and>
         records_of (ro_cluster r) active (n_object n) = [] \<and> n = resolved_note now (n_object n) a)"
  using assms(1)
proof (rule roll_split)
  fix groups m
  assume g: "mok groups" "\<And>ob. mget groups ob = group_of (records_of (ro_cluster r) active ob)"
    and m: "m = fold (\<lambda>(ob, g). mput ob (next_alert now (ro_repeat r) (mget (ro_open r) ob) g)) groups (ro_open r)"
    and out: "out = sort_slice (key_less (\<lambda>n. object_string (n_object n)))
       (List.map_filter (group_note now (ro_repeat r) (ro_open r)) groups @
        map (\<lambda>(ob, a). resolved_note now ob a) (filter (\<lambda>(ob, a). mget groups ob = None) m))"
  have mokm: "mok m" unfolding m by (rule mok_fold_mput) (rule assms(2))
  have getm: "mget m ob = mget (ro_open r) ob" if "mget groups ob = None" for ob
    using that unfolding m by (simp add: mget_fold_mput [OF g(1)])
  have note_ob: "group_note now (ro_repeat r) (ro_open r) (ob, gg) = Some n \<Longrightarrow> n_object n = ob" for ob gg
    by (auto simp: group_note_def firing_def)
  have none: "mget groups ob = None \<longleftrightarrow> records_of (ro_cluster r) active ob = []" for ob
    by (simp add: g(2) group_of_def)
  have "n \<in> set out \<longleftrightarrow> (\<exists>ob gg. mget groups ob = Some gg \<and> group_note now (ro_repeat r) (ro_open r) (ob, gg) = Some n) \<or>
      (\<exists>ob a. mget m ob = Some a \<and> mget groups ob = None \<and> n = resolved_note now ob a)"
    unfolding in_set_mget [OF g(1), symmetric] in_set_mget [OF mokm, symmetric]
      out set_sort_slice set_append set_map_filter
    by (auto simp: image_iff Bex_def)
  also have "\<dots> \<longleftrightarrow> (\<exists>gg. mget groups (n_object n) = Some gg \<and> group_note now (ro_repeat r) (ro_open r) (n_object n, gg) = Some n) \<or>
      (\<exists>a. mget m (n_object n) = Some a \<and> mget groups (n_object n) = None \<and> n = resolved_note now (n_object n) a)"
    using note_ob by (auto simp: resolved_note_def)
  also have "\<dots> \<longleftrightarrow> (\<exists>gg. mget groups (n_object n) = Some gg \<and> group_note now (ro_repeat r) (ro_open r) (n_object n, gg) = Some n) \<or>
      (\<exists>a. mget (ro_open r) (n_object n) = Some a \<and> mget groups (n_object n) = None \<and> n = resolved_note now (n_object n) a)"
    using getm by metis
  finally show ?thesis using g(2) none by simp
qed

lemma map_filter_distinct:
  assumes "distinct (map f xs)" and "\<And>x y. x \<in> set xs \<Longrightarrow> h x = Some y \<Longrightarrow> k y = f x"
  shows "distinct (map k (List.map_filter h xs))"
  using assms
proof (induction xs)
  case (Cons x xs)
  have "k y \<noteq> k z" if "h x = Some y" "x' \<in> set xs" "h x' = Some z" for y z x'
    using that Cons.prems(1) Cons.prems(2) [of x y] Cons.prems(2) [of x' z] by auto
  with Cons show ?case by (auto simp: set_map_filter image_iff split: option.split)
qed simp

text \<open>The fields of the notifications that the proofs below rest on.\<close>

lemma group_noteD:
  "group_note now rep opn (ob, g) = Some n \<Longrightarrow>
     n_object n = ob \<and> n_status n = StatusFiring \<and> n_issues n = unique_sorted (g_issues g) \<and>
     n_reason n \<noteq> ReasonExplanation \<and> n_reason n \<noteq> ReasonResolved \<and>
     (n_reason n = ReasonNew \<longleftrightarrow> mget opn ob = None)"
  by (auto simp: group_note_def group_reason_def firing_def split: option.splits if_splits)

lemma group_note_new:
  "mget opn ob = None \<Longrightarrow> \<exists>n. group_note now rep opn (ob, g) = Some n \<and> n_reason n = ReasonNew"
  by (simp add: group_note_def group_reason_def firing_def)

lemma resolved_note_simps [simp]:
  "n_object (resolved_note now ob a) = ob" "n_reason (resolved_note now ob a) = ReasonResolved"
  "n_status (resolved_note now ob a) = StatusResolved" "n_issues (resolved_note now ob a) = []"
  by (simp_all add: resolved_note_def)

lemma group_of_None [simp]: "group_of recs = None \<longleftrightarrow> recs = []"
  by (simp add: group_of_def)

lemma roll_distinct:
  assumes "roll active now r = (r', out)" and "mok (ro_open r)"
  shows "distinct (map n_object out)"
  using assms(1)
proof (rule roll_split)
  fix groups m
  assume g: "mok groups"
    and m: "m = fold (\<lambda>(ob, g). mput ob (next_alert now (ro_repeat r) (mget (ro_open r) ob) g)) groups (ro_open r)"
    and out: "out = sort_slice (key_less (\<lambda>n. object_string (n_object n)))
       (List.map_filter (group_note now (ro_repeat r) (ro_open r)) groups @
        map (\<lambda>(ob, a). resolved_note now ob a) (filter (\<lambda>(ob, a). mget groups ob = None) m))"
    (is "_ = sort_slice _ (?A @ ?B)")
  have mokm: "mok m" unfolding m by (rule mok_fold_mput) (rule assms(2))
  have ob: "group_note now rep opn e = Some n \<Longrightarrow> n_object n = fst e" for rep opn e n
    by (auto simp: group_note_def firing_def split: prod.splits)
  have A: "distinct (map n_object ?A)"
    by (rule map_filter_distinct [of fst]) (use g ob in \<open>auto simp: mok_def\<close>)
  have "map n_object ?B = map fst (filter (\<lambda>(ob, a). mget groups ob = None) m)"
    by auto
  then have B: "distinct (map n_object ?B)" "\<forall>n\<in>set ?B. mget groups (n_object n) = None"
    using mokm by (simp_all only: mok_def distinct_map_filter) auto
  have "mget groups (n_object n) \<noteq> None" if "n \<in> set ?A" for n
    using that ob in_set_mget [OF g] by (force simp: set_map_filter)
  with A B have "distinct (map n_object (?A @ ?B))" by fastforce
  moreover have "mset (map n_object out) = mset (map n_object (?A @ ?B))"
    by (simp only: out mset_map mset_sort_slice)
  ultimately show ?thesis by (metis mset_eq_imp_distinct_iff)
qed

section \<open>The receiver\<close>

text \<open>
  What a receiver that only sees notifications believes: the set of objects with an open alert.
  It rejects an opening of an alert that is open, and any other message about one that is not.
\<close>

definition deliver :: "notification \<Rightarrow> alert_object set \<Rightarrow> alert_object set option" where
  "deliver n S = (case n_reason n of
     ReasonNew \<Rightarrow> if n_object n \<in> S then None else Some (insert (n_object n) S)
   | ReasonChanged \<Rightarrow> if n_object n \<in> S then Some S else None
   | ReasonRepeat \<Rightarrow> if n_object n \<in> S then Some S else None
   | ReasonResolved \<Rightarrow> if n_object n \<in> S then Some (S - {n_object n}) else None
   | ReasonExplanation \<Rightarrow> Some S)"

fun replay :: "notification list \<Rightarrow> alert_object set \<Rightarrow> alert_object set option" where
  "replay [] S = Some S"
| "replay (n # ns) S = Option.bind (deliver n S) (replay ns)"

lemma replay_append: "replay (xs @ ys) S = Option.bind (replay xs S) (replay ys)"
  by (induction xs arbitrary: S) (auto split: Option.bind_split)

lemma replay_distinct:
  "distinct (map n_object ns) \<Longrightarrow>
   (\<And>n. n \<in> set ns \<Longrightarrow> n_reason n \<noteq> ReasonExplanation \<and> (n_object n \<in> S \<longleftrightarrow> n_reason n \<noteq> ReasonNew)) \<Longrightarrow>
   replay ns S = Some (S \<union> {n_object n |n. n \<in> set ns \<and> n_reason n = ReasonNew} -
      {n_object n |n. n \<in> set ns \<and> n_reason n = ReasonResolved})"
proof (induction ns arbitrary: S)
  case (Cons n ns)
  let ?new = "\<lambda>ns. {n_object n |n. n \<in> set ns \<and> n_reason n = ReasonNew}"
  let ?res = "\<lambda>ns. {n_object n |n. n \<in> set ns \<and> n_reason n = ReasonResolved}"
  define S' where "S' = (case n_reason n of ReasonNew \<Rightarrow> insert (n_object n) S
     | ReasonResolved \<Rightarrow> S - {n_object n} | _ \<Rightarrow> S)"
  have d: "deliver n S = Some S'"
    using Cons.prems(2) [of n] by (cases "n_reason n") (simp_all add: deliver_def S'_def)
  have fresh: "n_object n' \<noteq> n_object n" if "n' \<in> set ns" for n'
    using Cons.prems(1) that by (metis distinct.simps(2) image_eqI list.simps(9) set_map)
  have IH: "replay ns S' = Some (S' \<union> ?new ns - ?res ns)"
  proof (rule Cons.IH)
    fix n' assume n': "n' \<in> set ns"
    then have "n_object n' \<in> S' \<longleftrightarrow> n_object n' \<in> S"
      using fresh [OF n'] by (simp add: S'_def split: reason.split)
    with n' Cons.prems(2) [of n']
    show "n_reason n' \<noteq> ReasonExplanation \<and> (n_object n' \<in> S' \<longleftrightarrow> n_reason n' \<noteq> ReasonNew)" by simp
  qed (use Cons.prems(1) in simp)
  have "S' \<union> ?new ns - ?res ns = S \<union> ?new (n # ns) - ?res (n # ns)"
  proof (rule set_eqI)
    fix ob
    have "ob \<notin> ?new ns \<and> ob \<notin> ?res ns" if "ob = n_object n"
      using that fresh by blast
    then show "ob \<in> S' \<union> ?new ns - ?res ns \<longleftrightarrow> ob \<in> S \<union> ?new (n # ns) - ?res (n # ns)"
      by (cases "n_reason n"; cases "ob = n_object n") (auto simp: S'_def)
  qed
  with d IH show ?case by simp
qed simp

text \<open>When an alert is opened, when it is cleared, and that every other message is about an open one.\<close>

lemma roll_new:
  assumes "roll active now r = (r', out)" and "mok (ro_open r)"
  shows "(\<exists>n. n_object n = ob \<and> n \<in> set out \<and> n_reason n = ReasonNew) \<longleftrightarrow>
      mget (ro_open r) ob = None \<and> records_of (ro_cluster r) active ob \<noteq> []" (is "?l \<longleftrightarrow> ?r")
proof
  assume ?l
  then show ?r unfolding roll_out [OF assms]
    by (metis group_noteD group_of_None option.distinct(1) resolved_note_simps(2) reason.distinct(5))
next
  assume r: ?r
  then obtain g where "group_of (records_of (ro_cluster r) active ob) = Some g"
    by (metis group_of_None not_Some_eq)
  with r show ?l unfolding roll_out [OF assms]
    using group_note_new [of "ro_open r" ob now "ro_repeat r" g] group_noteD by metis
qed

lemma roll_resolved:
  assumes "roll active now r = (r', out)" and "mok (ro_open r)"
  shows "(\<exists>n. n_object n = ob \<and> n \<in> set out \<and> n_reason n = ReasonResolved) \<longleftrightarrow>
      mget (ro_open r) ob \<noteq> None \<and> records_of (ro_cluster r) active ob = []" (is "?l \<longleftrightarrow> ?r")
proof
  assume ?l
  then show ?r unfolding roll_out [OF assms] by (metis group_noteD option.distinct(1))
next
  assume ?r
  then show ?l unfolding roll_out [OF assms] by (metis resolved_note_simps(1,2) not_Some_eq)
qed

lemma roll_why:
  assumes "roll active now r = (r', out)" and "mok (ro_open r)" and "n \<in> set out"
  shows "n_reason n \<noteq> ReasonExplanation \<and> (mget (ro_open r) (n_object n) \<noteq> None \<longleftrightarrow> n_reason n \<noteq> ReasonNew)"
proof -
  from assms(3) roll_out [OF assms(1,2)] consider
    g where "group_note now (ro_repeat r) (ro_open r) (n_object n, g) = Some n"
  | a where "mget (ro_open r) (n_object n) = Some a" "n = resolved_note now (n_object n) a" by blast
  then show ?thesis
  proof cases
    case 1
    from group_noteD [OF this] show ?thesis by simp
  next
    case 2
    from arg_cong [OF 2(2), of n_reason] 2(1) show ?thesis by simp
  qed
qed

lemma roll_replay:
  assumes "roll active now r = (r', out)" and "mok (ro_open r)"
  shows "replay out (set (mkeys (ro_open r))) = Some (set (mkeys (ro_open r')))"
proof -
  let ?K = "set (mkeys (ro_open r))"
  let ?new = "{n_object n |n. n \<in> set out \<and> n_reason n = ReasonNew}"
  let ?res = "{n_object n |n. n \<in> set out \<and> n_reason n = ReasonResolved}"
  have keys': "set (mkeys (ro_open r')) = {ob. records_of (ro_cluster r) active ob \<noteq> []}"
    unfolding mkeys_mget using roll_open [OF assms] by auto
  have new: "?new = {ob. mget (ro_open r) ob = None \<and> records_of (ro_cluster r) active ob \<noteq> []}"
    unfolding roll_new [OF assms, symmetric] by blast
  have res: "?res = {ob. mget (ro_open r) ob \<noteq> None \<and> records_of (ro_cluster r) active ob = []}"
    unfolding roll_resolved [OF assms, symmetric] by blast
  have "replay out ?K = Some (?K \<union> ?new - ?res)"
    by (rule replay_distinct [OF roll_distinct [OF assms]])
      (use roll_why [OF assms] in \<open>simp add: mkeys_mget del: set_map\<close>)
  also have "?K \<union> ?new - ?res = set (mkeys (ro_open r'))"
    unfolding new res keys' by (auto simp: mkeys_mget simp del: set_map)
  finally show ?thesis .
qed

section \<open>Runs and properties\<close>

text \<open>A run of the roller: one \<open>Roll\<close> per reconcile, with everything that was sent.\<close>

fun roll_run :: "(wrecord list \<times> time) list \<Rightarrow> roller \<Rightarrow> roller \<times> notification list" where
  "roll_run [] r = (r, [])"
| "roll_run ((active, now) # evs) r =
     (let (r1, out1) = roll active now r; (r2, out2) = roll_run evs r1 in (r2, out1 @ out2))"

definition roll_step :: "wrecord list \<times> time \<Rightarrow> roller \<Rightarrow> roller" where
  "roll_step = (\<lambda>(active, now) r. fst (roll active now r))"

lemma roll_run_fst: "fst (roll_run evs r) = fold roll_step evs r"
  by (induction evs r rule: roll_run.induct) (auto simp: roll_step_def Let_def split: prod.splits)

interpretation roller_loop: reconcile_loop roll_step "roller_new rep cluster" "\<lambda>r. mok (ro_open r)" for rep cluster
proof unfold_locales
  show "mok (ro_open (roll_step e s))" if "mok (ro_open s)" for e s
    using that roll_open [of "fst e" "snd e" s] by (cases "roll (fst e) (snd e) s") (auto simp: roll_step_def case_prod_beta)
qed (simp add: roller_new_def)

lemma roll_run_cluster: "ro_cluster (fst (roll_run evs (roller_new rep cluster))) = cluster"
  unfolding roll_run_fst
  by (rule fold_inv [of _ "\<lambda>r. ro_cluster r = cluster"])
    (simp_all add: roll_step_def roller_new_def case_prod_beta roll_frame [OF surjective_pairing])

lemma roll_run_replay:
  "mok (ro_open r) \<Longrightarrow>
   replay (snd (roll_run evs r)) (set (mkeys (ro_open r))) = Some (set (mkeys (ro_open (fst (roll_run evs r)))))"
proof (induction evs r rule: roll_run.induct)
  case (2 active now evs r)
  obtain r1 out1 where 1: "roll active now r = (r1, out1)" by fastforce
  obtain r2 out2 where e2: "roll_run evs r1 = (r2, out2)" by fastforce
  have "mok (ro_open r1)" using roll_open [OF 1 2(2)] by blast
  then show ?case using 2(1) [OF 1 [symmetric] refl] roll_replay [OF 1 2(2)]
    by (simp add: 1 e2 replay_append del: set_map)
qed simp

text \<open>
  C5. The receiver's view agrees with the roller's, over any run from \<open>New\<close>: replaying everything
  that was sent opens an alert only when none is open, updates, repeats and clears only one that is,
  and ends with exactly the alerts the roller still holds open.
\<close>

theorem notifications_replay:
  "replay (snd (roll_run evs (roller_new rep cluster))) {} =
     Some (set (mkeys (ro_open (fst (roll_run evs (roller_new rep cluster))))))"
  using roll_run_replay [of "roller_new rep cluster" evs] by (simp add: roller_new_def)

text \<open>
  What one \<open>Roll\<close> leaves open, in any reachable state: an alert exactly for the objects with an
  active record; its issues are the issue names of those records, in strictly increasing order; and
  its start of firing is at most that of each of these records and never later than it was before.
\<close>

theorem roll_open_alerts:
  "let r = fst (roll_run evs (roller_new rep cluster)); r' = fst (roll active now r) in
    set (mkeys (ro_open r')) = record_object cluster ` set active \<and>
    set (ro_open r') \<subseteq> {(ob, a). sorted_wrt (<) (a_issues a) \<and>
      set (a_issues a) = {k_issue (r_key rec) |rec. rec \<in> set active \<and> record_object cluster rec = ob} \<and>
      (\<forall>rec\<in>set active. record_object cluster rec = ob \<longrightarrow> a_firing_since a \<le> r_firing_since rec) \<and>
      (\<forall>b. mget (ro_open r) ob = Some b \<longrightarrow> a_firing_since a \<le> a_firing_since b)}"
proof -
  let ?r = "fst (roll_run evs (roller_new rep cluster))"
  obtain r' out where ro: "roll active now ?r = (r', out)" by fastforce
  have mok: "mok (ro_open ?r)" unfolding roll_run_fst by (rule roller_loop.inv_run)
  note cl = roll_run_cluster [of evs rep cluster]
  note get = roll_open [OF ro mok, unfolded cl]
  have keys: "set (mkeys (ro_open r')) = record_object cluster ` set active"
    unfolding mkeys_mget using get by (auto simp: records_of_def filter_empty_conv image_iff)
  have one: "sorted_wrt (<) (a_issues a) \<and>
      set (a_issues a) = {k_issue (r_key rec) |rec. rec \<in> set active \<and> record_object cluster rec = ob} \<and>
      (\<forall>rec\<in>set active. record_object cluster rec = ob \<longrightarrow> a_firing_since a \<le> r_firing_since rec) \<and>
      (\<forall>b. mget (ro_open ?r) ob = Some b \<longrightarrow> a_firing_since a \<le> a_firing_since b)"
    if a: "(ob, a) \<in> set (ro_open r')" for ob a
  proof -
    let ?recs = "records_of cluster active ob"
    obtain g where g: "group_of ?recs = Some g" "a = next_alert now (ro_repeat ?r) (mget (ro_open ?r) ob) g"
      using a get [of ob] in_set_mget [of "ro_open r'"] by auto
    have iss: "a_issues a = unique_sorted (g_issues g)"
      and since: "a_firing_since a \<le> g_firing_since g"
        "\<forall>b. mget (ro_open ?r) ob = Some b \<longrightarrow> a_firing_since a \<le> a_firing_since b"
      by (auto simp: g(2) next_alert_def split: option.splits)
    have "set (g_issues g) = {k_issue (r_key rec) |rec. rec \<in> set active \<and> record_object cluster rec = ob}"
      "\<forall>rec\<in>set active. record_object cluster rec = ob \<longrightarrow> g_firing_since g \<le> r_firing_since rec"
      using g(1) by (auto simp: group_of_def records_of_def split: if_splits)
    then show ?thesis using iss since unique_sorted_sorted [of "g_issues g"] by fastforce
  qed
  show ?thesis unfolding Let_def ro fst_conv using keys one by blast
qed

theorem roll_open_alerts_witness:
  "let k = \<lparr>k_kind = ''Node'', k_namespace = [], k_name = ''w2'', k_issue = ''NotReady''\<rparr>;
       rec = \<lparr>r_key = k, r_first_seen = 5, r_firing_since = 5, r_last_seen = 9, r_active = True,
         r_firings = 1, r_resolved_at = 0, r_flapping = False, r_recent_firings = 1\<rparr>
   in set (mkeys (ro_open (fst (roll [rec] 9 (fst (roll_run [] (roller_new 0 ''eu''))))))) =
      {\<lparr>ob_cluster = ''eu'', ob_kind = ''Node'', ob_namespace = [], ob_name = ''w2''\<rparr>}"
  using roll_open_alerts [of "[]" 0 "''eu''"
      "[\<lparr>r_key = \<lparr>k_kind = ''Node'', k_namespace = [], k_name = ''w2'', k_issue = ''NotReady''\<rparr>,
         r_first_seen = 5, r_firing_since = 5, r_last_seen = 9, r_active = True,
         r_firings = 1, r_resolved_at = 0, r_flapping = False, r_recent_firings = 1\<rparr>]" 9]
  by (simp add: record_object_def Let_def)

text \<open>
  What one \<open>Roll\<close> sends, in any reachable state: at most one notification per object; an alert
  is reported resolved exactly when it was open and its object has no active record left; it is
  reported new exactly when it was not open and the object has one.
\<close>

theorem roll_notifications:
  "let r = fst (roll_run evs (roller_new rep cluster)); out = snd (roll active now r) in
    distinct (map n_object out) \<and>
    {n_object n |n. n \<in> set out \<and> n_status n = StatusResolved} =
      set (mkeys (ro_open r)) - record_object cluster ` set active \<and>
    {n_object n |n. n \<in> set out \<and> n_reason n = ReasonNew} =
      record_object cluster ` set active - set (mkeys (ro_open r))"
proof -
  let ?r = "fst (roll_run evs (roller_new rep cluster))"
  obtain r' out where ro: "roll active now ?r = (r', out)" by fastforce
  have mok: "mok (ro_open ?r)" unfolding roll_run_fst by (rule roller_loop.inv_run)
  note cl = roll_run_cluster [of evs rep cluster]
  have recs: "records_of cluster active ob = [] \<longleftrightarrow> ob \<notin> record_object cluster ` set active" for ob
    by (auto simp: records_of_def filter_empty_conv)
  have st: "n_status n = StatusResolved \<longleftrightarrow> n_reason n = ReasonResolved" if "n \<in> set out" for n
    using that roll_out [OF ro mok, of n] group_noteD resolved_note_simps by (metis status.distinct(1))
  have "{n_object n |n. n \<in> set out \<and> n_status n = StatusResolved} =
      {ob. \<exists>n. n_object n = ob \<and> n \<in> set out \<and> n_reason n = ReasonResolved}" using st by blast
  moreover have "{n_object n |n. n \<in> set out \<and> n_reason n = ReasonNew} =
      {ob. \<exists>n. n_object n = ob \<and> n \<in> set out \<and> n_reason n = ReasonNew}" by blast
  ultimately show ?thesis
    unfolding Let_def ro snd_conv roll_new [OF ro mok] roll_resolved [OF ro mok] cl recs
    using roll_distinct [OF ro mok] by (auto simp: mkeys_mget simp del: set_map)
qed

end
