(* ===== verification/Slo.thy ===== *)
theory Slo
  imports Kube_Prelude
begin

text \<open>
  \<open>internal/slo/slo.go\<close>: the availability SLI in a ring of one-minute buckets, the two burn windows
  and the firing rule. Weights, ratios and thresholds (float64 in the code) are exact rationals. An
  abstract tracker keeps the weight of every minute since the start; the ring implements it on the
  minutes that are still in reach.
\<close>

section \<open>Constants and data\<close>

definition bucket_width :: duration where "bucket_width = minute"
definition fast_window :: duration where "fast_window = hour"
definition slow_window :: duration where "slow_window = 6 * hour"
definition fast_burn_threshold :: rat where "fast_burn_threshold = 144 / 10"
definition slow_burn_threshold :: rat where "slow_burn_threshold = 6"
definition min_coverage :: rat where "min_coverage = 6 / 10"
definition default_max_sample_gap :: duration where "default_max_sample_gap = 2 * minute"
definition ring_size :: nat where "ring_size = 360"

record bucket =
  b_start :: time
  b_good :: rat
  b_total :: rat

record slo_tracker =
  s_target :: rat
  s_max_sample_gap :: duration
  s_ring :: "bucket list"
  s_last :: time
  s_firing_since :: time

datatype window = Fast | Slow

record slo_report =
  rep_window :: window
  rep_availability :: rat
  rep_burn_rate :: rat
  rep_coverage :: rat

record slo_verdict =
  v_firing :: bool
  v_firing_since :: time
  v_fast :: slo_report
  v_slow :: slo_report

section \<open>Operations\<close>

definition slo_new :: "rat \<Rightarrow> duration \<Rightarrow> slo_tracker" where
  "slo_new target gap =
    \<lparr>s_target = target, s_max_sample_gap = (if gap \<le> 0 then default_max_sample_gap else gap),
     s_ring = replicate ring_size \<lparr>b_start = 0, b_good = 0, b_total = 0\<rparr>,
     s_last = 0, s_firing_since = 0\<rparr>"

text \<open>\<open>time.Time.Truncate\<close>: down to a multiple of the width since the zero time.\<close>

definition trunc :: "time \<Rightarrow> time" where
  "trunc t = t - t mod bucket_width"

text \<open>
  \<open>slot\<close>: the Unix second of the boundary, divided and reduced with Go's truncating operators, and a
  negative remainder shifted up.
\<close>

definition unix_seconds :: "time \<Rightarrow> int" where
  "unix_seconds t = t div second - 62135596800"

definition go_quot :: "int \<Rightarrow> int \<Rightarrow> int" where
  "go_quot a b = sgn a * sgn b * (\<bar>a\<bar> div \<bar>b\<bar>)"

definition go_rem :: "int \<Rightarrow> int \<Rightarrow> int" where
  "go_rem a b = a - b * go_quot a b"

definition slot :: "time \<Rightarrow> nat" where
  "slot b =
    (let i = go_rem (go_quot (unix_seconds b) (go_quot bucket_width second)) (int ring_size)
     in nat (if i < 0 then i + int ring_size else i))"

text \<open>One pass of the loop in \<open>add\<close>, and the loop.\<close>

definition add_to_slot :: "time \<Rightarrow> rat \<Rightarrow> rat \<Rightarrow> rat \<Rightarrow> bucket list \<Rightarrow> bucket list" where
  "add_to_slot b secs good tot ring =
    (let i = slot b;
         s0 = ring ! i;
         s1 = (if b_start s0 \<noteq> b then \<lparr>b_start = b, b_good = 0, b_total = 0\<rparr> else s0)
     in ring[i := s1\<lparr>b_good := b_good s1 + secs * good, b_total := b_total s1 + secs * tot\<rparr>])"

lemma trunc_bounds: "trunc t \<le> t" "t < trunc t + bucket_width"
  by (simp_all add: trunc_def bucket_width_def minute_def second_def)

function slo_add :: "time \<Rightarrow> time \<Rightarrow> rat \<Rightarrow> rat \<Rightarrow> bucket list \<Rightarrow> bucket list" where
  "slo_add cur to good tot ring =
    (if cur < to
     then let b = trunc cur; e0 = b + bucket_width; e = (if e0 > to then to else e0)
          in slo_add e to good tot (add_to_slot b (seconds (time_sub e cur)) good tot ring)
     else ring)"
  by pat_completeness auto

termination
proof (relation "measure (\<lambda>(cur, to, _). nat (to - cur))")
  fix cur to :: time and good tot :: rat and ring :: "bucket list" and b e0 e
  assume "cur < to" "b = trunc cur" "e0 = b + bucket_width" "e = (if to < e0 then to else e0)"
  then show "((e, to, good, tot, add_to_slot b (seconds (time_sub e cur)) good tot ring), cur, to, good, tot, ring)
      \<in> measure (\<lambda>(cur, to, _). nat (to - cur))"
    using trunc_bounds [of cur] by (auto split: if_splits)
qed simp

declare slo_add.simps [simp del]

text \<open>\<open>Observe\<close>.\<close>

definition slo_observe :: "int \<Rightarrow> int \<Rightarrow> time \<Rightarrow> slo_tracker \<Rightarrow> slo_tracker" where
  "slo_observe good tot now t =
    (if is_zero_time (s_last t) then t\<lparr>s_last := now\<rparr>
     else if \<not> now > s_last t then t
     else let dt0 = time_sub now (s_last t);
              dt = (if dt0 > s_max_sample_gap t then s_max_sample_gap t else dt0);
              t1 = t\<lparr>s_last := now\<rparr>
          in if tot \<le> 0 then t1
             else t1\<lparr>s_ring := slo_add (now - dt) now (of_int good) (of_int tot) (s_ring t1)\<rparr>)"

text \<open>The boundaries \<open>b\<close> the loops of \<open>sum\<close> and \<open>coverage\<close> run through.\<close>

function boundaries :: "time \<Rightarrow> time \<Rightarrow> time list" where
  "boundaries b to = (if b < to then b # boundaries (b + bucket_width) to else [])"
  by pat_completeness auto

termination
  by (relation "measure (\<lambda>(b, to). nat (to - b))") (auto simp: bucket_width_def minute_def second_def)

declare boundaries.simps [simp del]

definition sum_step :: "slo_tracker \<Rightarrow> time \<Rightarrow> rat \<times> rat \<Rightarrow> rat \<times> rat" where
  "sum_step t b = (\<lambda>(good, tot).
     let s = s_ring t ! slot b
     in if b_start s \<noteq> b then (good, tot) else (good + b_good s, tot + b_total s))"

definition slo_sum :: "time \<Rightarrow> time \<Rightarrow> slo_tracker \<Rightarrow> rat \<times> rat" where
  "slo_sum from to t = fold (sum_step t) (boundaries (trunc from) to) (0, 0)"

definition cover_step :: "time \<Rightarrow> time \<Rightarrow> slo_tracker \<Rightarrow> time \<Rightarrow> rat \<Rightarrow> rat" where
  "cover_step from now t b covered =
    (let s = s_ring t ! slot b
     in if b_start s \<noteq> b \<or> b_total s \<le> 0 then covered
        else let lo = (if b < from then from else b);
                 hiw = b + bucket_width;
                 hi = (if hiw > now then now else hiw)
             in covered + seconds (time_sub hi lo))"

definition coverage :: "time \<Rightarrow> time \<Rightarrow> slo_tracker \<Rightarrow> rat" where
  "coverage from now t =
    (let span = seconds (time_sub now from)
     in if span \<le> 0 then 0
        else fold (cover_step from now t) (boundaries (trunc from) now) 0 / span)"

definition window_duration :: "window \<Rightarrow> duration" where
  "window_duration w = (if w = Slow then slow_window else fast_window)"

definition window_threshold :: "window \<Rightarrow> rat" where
  "window_threshold w = (if w = Slow then slow_burn_threshold else fast_burn_threshold)"

definition slo_report_at :: "window \<Rightarrow> time \<Rightarrow> slo_tracker \<Rightarrow> slo_report" where
  "slo_report_at w now t =
    (let from = now - window_duration w;
         (good, tot) = slo_sum from now t;
         r = \<lparr>rep_window = w, rep_availability = 1, rep_burn_rate = 0, rep_coverage = coverage from now t\<rparr>
     in if tot \<le> 0 then r
        else r\<lparr>rep_availability := good / tot,
               rep_burn_rate := (1 - good / tot) / (1 - s_target t)\<rparr>)"

definition verdict :: "time \<Rightarrow> slo_tracker \<Rightarrow> slo_tracker \<times> slo_verdict" where
  "verdict now t =
    (let fast = slo_report_at Fast now t;
         slow = slo_report_at Slow now t;
         hot = (rep_burn_rate fast \<ge> window_threshold Fast \<and> rep_burn_rate slow \<ge> window_threshold Slow \<and>
                rep_coverage fast \<ge> min_coverage \<and> rep_coverage slow \<ge> min_coverage)
     in if \<not> hot
        then (t\<lparr>s_firing_since := 0\<rparr>,
              \<lparr>v_firing = False, v_firing_since = 0, v_fast = fast, v_slow = slow\<rparr>)
        else let t1 = (if is_zero_time (s_firing_since t) then t\<lparr>s_firing_since := now\<rparr> else t)
             in (t1, \<lparr>v_firing = True, v_firing_since = s_firing_since t1, v_fast = fast, v_slow = slow\<rparr>))"

section \<open>Ring positions\<close>

lemma slot_less: "slot b < ring_size"
proof -
  have "go_rem a 360 < 360 \<and> - 360 < go_rem a 360" for a
    by (cases a "0::int" rule: linorder_cases)
      (auto simp: go_rem_def go_quot_def minus_mult_div_eq_mod minus_div_mult_eq_mod
        algebra_simps simp flip: minus_mult_div_eq_mod)
  note this [of "go_quot (unix_seconds b) (go_quot bucket_width second)"]
  then show ?thesis unfolding slot_def Let_def ring_size_def by (auto simp: nat_less_iff)
qed

text \<open>The boundary of minute \<open>m\<close> (counted from the zero time) has position \<open>m\<close> modulo the size.\<close>

abbreviation W :: int where "W \<equiv> 60000000000"

lemma bucket_width_W [simp]: "bucket_width = W"
  by (simp add: bucket_width_def time_units)

lemma trunc_W: "trunc t = (t div W) * W"
  by (simp add: trunc_def minus_mod_eq_div_mult)

lemma go_rem_360: "(if go_rem k 360 < 0 then go_rem k 360 + 360 else go_rem k 360) = k mod 360"
proof (cases "k < 0")
  case True
  then have "go_rem k 360 = - ((- k) mod 360)"
    by (simp add: go_rem_def go_quot_def minus_mult_div_eq_mod [symmetric])
  moreover have "k mod 360 = (if (- k) mod 360 = 0 then 0 else 360 - (- k) mod 360)"
    using zmod_zminus1_eq_if [of "- k" 360] by simp
  moreover have "0 \<le> (- k) mod 360" by simp
  ultimately show ?thesis by auto
next
  case False
  then have "go_rem k 360 = k mod 360"
    by (cases "k = 0") (simp_all add: go_rem_def go_quot_def minus_mult_div_eq_mod)
  then show ?thesis using False by simp
qed

lemma slot_minute: "slot (m * W) = nat (m mod 360)"
proof -
  have u: "unix_seconds (m * W) = 60 * (m - 1035593280)"
  proof -
    have "m * W = 1000000000 * (60 * m)" by simp
    then have "m * W div 1000000000 = 60 * m" by (metis nonzero_mult_div_cancel_left zero_neq_numeral)
    then show ?thesis by (simp add: unix_seconds_def second_def)
  qed
  have q: "go_quot (60 * k) 60 = k" for k
    by (cases k "0::int" rule: linorder_cases) (simp_all add: go_quot_def abs_mult sgn_mult)
  have "go_quot bucket_width second = 60" by (simp add: go_quot_def second_def)
  then have "slot (m * W) = nat (if go_rem (m - 1035593280) 360 < 0
      then go_rem (m - 1035593280) 360 + 360 else go_rem (m - 1035593280) 360)"
    by (simp only: slot_def Let_def u q ring_size_def) simp
  also have "\<dots> = nat ((m - 1035593280) mod 360)" by (simp only: go_rem_360)
  also have "(m - 1035593280) mod 360 = m mod 360"
    using mod_diff_right_eq [of m 1035593280 360] by simp
  finally show ?thesis .
qed

lemma slot_eq_iff: "slot (m * W) = slot (m' * W) \<longleftrightarrow> m mod 360 = m' mod 360"
  by (simp add: slot_minute eq_nat_nat_iff)

section \<open>The abstract tracker\<close>

text \<open>
  The specification keeps, for every minute, the workload-seconds that fall into it: an interval
  contributes its overlap with the minute.
\<close>

record slo_abs =
  ab_gap :: duration
  ab_last :: time
  ab_good :: "int \<Rightarrow> rat"
  ab_total :: "int \<Rightarrow> rat"

definition overlap :: "time \<Rightarrow> time \<Rightarrow> int \<Rightarrow> duration" where
  "overlap from to m = max 0 (min to (m * W + W) - max from (m * W))"

definition abs_new :: "duration \<Rightarrow> slo_abs" where
  "abs_new gap = \<lparr>ab_gap = (if gap \<le> 0 then default_max_sample_gap else gap), ab_last = 0,
     ab_good = (\<lambda>_. 0), ab_total = (\<lambda>_. 0)\<rparr>"

definition abs_observe :: "int \<Rightarrow> int \<Rightarrow> time \<Rightarrow> slo_abs \<Rightarrow> slo_abs" where
  "abs_observe good tot now a =
    (if ab_last a = 0 then a\<lparr>ab_last := now\<rparr>
     else if now \<le> ab_last a then a
     else let dt = min (ab_gap a) (time_sub now (ab_last a))
          in if tot \<le> 0 then a\<lparr>ab_last := now\<rparr>
             else a\<lparr>ab_last := now,
               ab_good := (\<lambda>m. ab_good a m + seconds (overlap (now - dt) now m) * of_int good),
               ab_total := (\<lambda>m. ab_total a m + seconds (overlap (now - dt) now m) * of_int tot)\<rparr>)"

definition abs_sum :: "time \<Rightarrow> time \<Rightarrow> slo_abs \<Rightarrow> rat \<times> rat" where
  "abs_sum from to a =
    (\<Sum>m\<in>{m. from div W \<le> m \<and> m * W < to}. ab_good a m, \<Sum>m\<in>{m. from div W \<le> m \<and> m * W < to}. ab_total a m)"

subsection \<open>The ring implements it\<close>

definition ring_read :: "bucket list \<Rightarrow> int \<Rightarrow> rat \<times> rat" where
  "ring_read ring m = (let s = ring ! slot (m * W) in if b_start s = m * W then (b_good s, b_total s) else (0, 0))"

definition ring_ok :: "(int \<Rightarrow> rat) \<Rightarrow> (int \<Rightarrow> rat) \<Rightarrow> int \<Rightarrow> bucket list \<Rightarrow> bool" where
  "ring_ok wg wt lastm ring \<longleftrightarrow> length ring = ring_size \<and>
     (\<forall>m. lastm - 360 < m \<longrightarrow> ring_read ring m = (wg m, wt m)) \<and>
     (\<forall>i<ring_size. b_start (ring ! i) \<le> lastm * W)"

lemma ring_ok_mono: "ring_ok wg wt lastm ring \<Longrightarrow> lastm \<le> lastn \<Longrightarrow> ring_ok wg wt lastn ring"
  unfolding ring_ok_def by (smt (verit, best) mult_right_mono)

lemma ring_ok_future:
  assumes "ring_ok wg wt lastm ring" and "lastm < m"
  shows "ring_read ring m = (0, 0)"
proof -
  have "b_start (ring ! slot (m * W)) \<le> lastm * W" using assms(1) slot_less by (simp add: ring_ok_def)
  with assms(2) show ?thesis by (simp add: ring_read_def Let_def)
qed

lemma add_to_slot_ok:
  assumes ok: "ring_ok wg wt lastm ring" and m: "lastm \<le> m"
  shows "ring_ok (wg(m := wg m + secs * g)) (wt(m := wt m + secs * t)) m (add_to_slot (m * W) secs g t ring)"
proof -
  let ?ring = "add_to_slot (m * W) secs g t ring"
  have len: "slot (m' * W) < length ring" for m' using ok slot_less [of "m' * W"] by (simp add: ring_ok_def)
  have cur: "ring_read ring m = (wg m, wt m)" using ok m by (simp add: ring_ok_def)
  then have here: "ring_read ?ring m = (wg m + secs * g, wt m + secs * t)"
    using len [of m] by (auto simp: ring_read_def add_to_slot_def Let_def split: if_splits)
  have there: "ring_read ?ring m' = (wg m', wt m')" if m': "m - 360 < m'" "m' \<noteq> m" for m'
  proof (cases "slot (m' * W) = slot (m * W)")
    case True
    then have "m' mod 360 = m mod 360" by (simp add: slot_eq_iff)
    then obtain k where "m' - m = 360 * k" by (metis mod_eq_dvd_iff dvdE)
    then have "k \<noteq> 0" "- 1 < k" using m' by auto
    then have "m + 360 \<le> m'" using \<open>m' - m = 360 * k\<close> by linarith
    moreover from this have "(wg m', wt m') = (0, 0)"
      using ring_ok_future [OF ok, of m'] ok m by (simp add: ring_ok_def)
    ultimately show ?thesis
      using True len [of m] by (simp add: ring_read_def add_to_slot_def Let_def)
  next
    case False
    then have "ring_read ?ring m' = ring_read ring m'"
      by (simp add: ring_read_def add_to_slot_def Let_def nth_list_update)
    then show ?thesis using ok m m'(1) by (simp add: ring_ok_def)
  qed
  have "b_start (?ring ! i) \<le> m * W" if "i < ring_size" for i
  proof -
    have "b_start (ring ! i) \<le> lastm * W" using ok that by (simp add: ring_ok_def)
    moreover have "lastm * W \<le> m * W" using m by simp
    ultimately show ?thesis
      using that len [of m] ok by (auto simp: add_to_slot_def Let_def nth_list_update ring_ok_def)
  qed
  moreover have "length ?ring = ring_size" using ok by (simp add: ring_ok_def add_to_slot_def Let_def)
  ultimately show ?thesis using here there by (simp add: ring_ok_def)
qed

lemma overlap_split: "cur \<le> e \<Longrightarrow> e \<le> to \<Longrightarrow> overlap cur to m = overlap cur e m + overlap e to m"
  by (auto simp: overlap_def max_def min_def)

lemma overlap_within:
  assumes "cur < e" and "e \<le> trunc cur + bucket_width"
  shows "overlap cur e m = (if m = cur div W then e - cur else 0)"
proof -
  have b: "cur div W * W \<le> cur" "cur < cur div W * W + W"
    using trunc_bounds [of cur] by (simp_all add: trunc_W)
  have e: "e \<le> cur div W * W + W" using assms(2) by (simp add: trunc_W)
  consider "m = cur div W" | "m < cur div W" | "cur div W < m" by linarith
  then show ?thesis
  proof cases
    case 1
    then show ?thesis using assms(1) b e by (simp add: overlap_def)
  next
    case 2
    then have "m * W + W \<le> cur div W * W" by linarith
    with b have "m * W + W \<le> cur" by linarith
    with 2 show ?thesis by (simp add: overlap_def)
  next
    case 3
    then have "cur div W * W + W \<le> m * W" by linarith
    with e have "e \<le> m * W" by linarith
    with 3 show ?thesis by (simp add: overlap_def)
  qed
qed

lemma seconds_plus: "seconds (a + b) = seconds a + seconds b"
  by (simp add: seconds_def add_divide_distrib)

lemma slo_add_ok:
  "ring_ok wg wt lastm ring \<Longrightarrow> lastm \<le> cur div W \<Longrightarrow> cur \<le> to \<Longrightarrow>
   ring_ok (\<lambda>m. wg m + seconds (overlap cur to m) * g) (\<lambda>m. wt m + seconds (overlap cur to m) * t)
     (to div W) (slo_add cur to g t ring)"
proof (induction cur to g t ring arbitrary: wg wt lastm rule: slo_add.induct)
  case (1 cur to g t ring)
  show ?case
  proof (cases "cur < to")
    case False
    then have "cur = to" using 1(4) by simp
    moreover have "overlap to to m = 0" for m by (auto simp: overlap_def max_def min_def)
    ultimately show ?thesis using 1(2,3) ring_ok_mono
      by (subst slo_add.simps) (simp add: seconds_def)
  next
    case True
    define b where "b = trunc cur"
    define e where "e = (if b + bucket_width > to then to else b + bucket_width)"
    define m0 where "m0 = cur div W"
    have b: "b = m0 * W" by (simp add: b_def m0_def trunc_W)
    have e: "cur < e" "e \<le> b + bucket_width" "e \<le> to"
      using True trunc_bounds [of cur] by (auto simp: e_def b_def)
    define s where "s = seconds (time_sub e cur)"
    have s: "s = seconds (e - cur)"
      using e trunc_bounds [of cur] unfolding s_def
      by (subst time_sub_exact) (auto simp: b_def min_duration_def max_duration_def)
    have ok: "ring_ok (wg(m0 := wg m0 + s * g)) (wt(m0 := wt m0 + s * t)) m0 (add_to_slot b s g t ring)"
      unfolding b using add_to_slot_ok [OF 1(2)] 1(3) by (simp add: m0_def)
    have "m0 \<le> e div W" using e(1) unfolding m0_def by (intro zdiv_mono1) auto
    note IH = 1(1) [OF True b_def refl e_def [unfolded b_def, folded b_def] ok [unfolded s_def] this e(3)]
    have ov: "wg' m + seconds (overlap cur to m) * x = (wg'(m0 := wg' m0 + s * x)) m + seconds (overlap e to m) * x"
      for wg' m x
      using e overlap_split [of cur e to m] overlap_within [of cur e m]
      by (cases "m = m0") (simp_all add: s m0_def b_def seconds_plus distrib_right)
    have step: "slo_add cur to g t ring = slo_add e to g t (add_to_slot b s g t ring)"
      by (subst slo_add.simps) (simp only: True if_True Let_def b_def e_def s_def)
    show ?thesis using IH unfolding ov step s_def [symmetric] .
  qed
qed

text \<open>The simulation between the two trackers.\<close>

definition slo_sim :: "slo_tracker \<Rightarrow> slo_abs \<Rightarrow> bool" where
  "slo_sim t a \<longleftrightarrow> s_last t = ab_last a \<and> s_max_sample_gap t = ab_gap a \<and> 0 < ab_gap a \<and> 0 \<le> ab_last a \<and>
     ring_ok (ab_good a) (ab_total a) (ab_last a div W) (s_ring t)"

lemma slo_sim_new: "slo_sim (slo_new target gap) (abs_new gap)"
proof -
  let ?r = "replicate ring_size \<lparr>b_start = 0, b_good = 0, b_total = 0\<rparr>"
  have "ring_read ?r m = (0, 0)" for m
    using slot_less [of "m * W"] by (simp add: ring_read_def Let_def)
  then show ?thesis
    by (simp add: slo_sim_def slo_new_def abs_new_def ring_ok_def default_max_sample_gap_def time_units)
qed

lemma slo_sim_observe:
  assumes sim: "slo_sim t a" and now: "0 < now"
  shows "slo_sim (slo_observe good tot now t) (abs_observe good tot now a)"
proof (cases "ab_last a = 0 \<or> now \<le> ab_last a")
  case True
  have "ring_ok (ab_good a) (ab_total a) (now div W) (s_ring t)" if "ab_last a = 0"
    by (rule ring_ok_mono [of _ _ "ab_last a div W"])
      (use sim that now in \<open>simp_all add: slo_sim_def pos_imp_zdiv_nonneg_iff\<close>)
  then show ?thesis
    using True sim now
    by (cases "ab_last a = 0")
      (simp_all add: slo_sim_def slo_observe_def abs_observe_def is_zero_time_def)
next
  case False
  define dt where "dt = min (ab_gap a) (time_sub now (ab_last a))"
  have dt: "dt = (if time_sub now (s_last t) > s_max_sample_gap t then s_max_sample_gap t else time_sub now (s_last t))"
    using sim by (auto simp: dt_def slo_sim_def)
  have pos: "0 \<le> dt" using False sim time_sub_mono [of "ab_last a" now "ab_last a"] by (auto simp: dt_def slo_sim_def)
  have "dt \<le> now - ab_last a" using False time_sub_le [of "ab_last a" now] by (simp add: dt_def)
  then have le: "ab_last a div W \<le> (now - dt) div W" by (intro zdiv_mono1) auto
  have ok: "ring_ok (ab_good a) (ab_total a) (ab_last a div W) (s_ring t)" using sim by (simp add: slo_sim_def)
  have "ab_last a div W \<le> now div W" using False by (intro zdiv_mono1) auto
  with ring_ok_mono [OF ok] slo_add_ok [OF ok le] False sim now pos show ?thesis
    unfolding slo_observe_def abs_observe_def Let_def dt [symmetric] dt_def [symmetric]
    by (simp add: slo_sim_def is_zero_time_def)
qed

section \<open>Windows\<close>

lemma boundaries_Nil: "\<not> b < to \<Longrightarrow> boundaries b to = []"
  by (subst boundaries.simps) simp

lemma boundaries_Cons: "b < to \<Longrightarrow> boundaries b to = b # boundaries (b + W) to"
  by (subst boundaries.simps) simp

lemma finite_minutes: "finite {m. f \<le> m \<and> m * W < to}"
  by (rule finite_subset [of _ "{f..to div W}"]) (auto simp: zdiv_mono1 intro: finite_subset)

lemma minutes_step:
  "f * W < to \<Longrightarrow> {m. f \<le> m \<and> m * W < to} = insert f {m. f + 1 \<le> m \<and> m * W < to}"
  by auto

lemma sum_fold:
  "fold (sum_step t) (boundaries (f * W) to) (g0, t0) =
   (g0 + (\<Sum>m\<in>{m. f \<le> m \<and> m * W < to}. fst (ring_read (s_ring t) m)),
    t0 + (\<Sum>m\<in>{m. f \<le> m \<and> m * W < to}. snd (ring_read (s_ring t) m)))"
proof (induction "nat (to - f * W)" arbitrary: f g0 t0 rule: less_induct)
  case less
  show ?case
  proof (cases "f * W < to")
    case False
    then have "{m. f \<le> m \<and> m * W < to} = {}" by auto
    then show ?thesis unfolding boundaries_Nil [OF False] by (simp only: sum.empty) simp
  next
    case True
    have step: "boundaries (f * W) to = f * W # boundaries ((f + 1) * W) to"
      using boundaries_Cons [OF True] by (simp add: algebra_simps)
    have "nat (to - (f + 1) * W) < nat (to - f * W)" using True by simp
    note IH = less [OF this]
    have ins: "(\<Sum>m\<in>{m. f \<le> m \<and> m * W < to}. h m) = h f + (\<Sum>m\<in>{m. f + 1 \<le> m \<and> m * W < to}. h m)"
      for h :: "int \<Rightarrow> rat"
      unfolding minutes_step [OF True] by (rule sum.insert [OF finite_minutes]) simp
    have "sum_step t (f * W) (g0, t0) =
        (g0 + fst (ring_read (s_ring t) f), t0 + snd (ring_read (s_ring t) f))"
      by (simp add: sum_step_def ring_read_def Let_def)
    then show ?thesis unfolding step ins fold_simps by (simp only: IH add.assoc)
  qed
qed

lemma slo_sum_reads:
  "slo_sum from to t = (\<Sum>m\<in>{m. from div W \<le> m \<and> m * W < to}. fst (ring_read (s_ring t) m),
     \<Sum>m\<in>{m. from div W \<le> m \<and> m * W < to}. snd (ring_read (s_ring t) m))"
  unfolding slo_sum_def trunc_W sum_fold by simp

lemma slo_sim_sum:
  assumes "slo_sim t a" and "s_last t div W - 360 < from div W"
  shows "slo_sum from to t = abs_sum from to a"
proof -
  have "ring_read (s_ring t) m = (ab_good a m, ab_total a m)" if "from div W \<le> m" for m
    using assms that by (simp add: slo_sim_def ring_ok_def)
  then show ?thesis unfolding slo_sum_reads abs_sum_def by (auto intro!: sum.cong)
qed

subsection \<open>Coverage\<close>

lemma fold_plus_sum_list: "fold (\<lambda>x acc. acc + f x) xs (z :: rat) = z + sum_list (map f xs)"
  by (induction xs arbitrary: z) (auto simp: algebra_simps)

definition counted :: "slo_tracker \<Rightarrow> time \<Rightarrow> bool" where
  "counted t b \<longleftrightarrow> b_start (s_ring t ! slot b) = b \<and> 0 < b_total (s_ring t ! slot b)"

definition clip :: "time \<Rightarrow> time \<Rightarrow> time \<Rightarrow> duration" where
  "clip from now b = min now (b + W) - max from b"

lemma boundaries_bounds: "b \<in> set (boundaries b0 to) \<Longrightarrow> b0 \<le> b \<and> b < to"
proof (induction b0 to rule: boundaries.induct)
  case (1 b0 to)
  show ?case
  proof (cases "b0 < to")
    case True
    then have "b = b0 \<or> b \<in> set (boundaries (b0 + bucket_width) to)"
      using 1(2) by (simp add: boundaries_Cons)
    then show ?thesis using 1(1) [OF True] True by auto
  qed (use 1(2) in \<open>simp add: boundaries_Nil\<close>)
qed

lemma clip_bounds:
  assumes "b \<in> set (boundaries (trunc from) now)" and "from < now"
  shows "0 < clip from now b \<and> clip from now b \<le> W"
  using boundaries_bounds [OF assms(1)] trunc_bounds [of "from"] assms(2)
  by (auto simp: clip_def min_def max_def)

lemma coverage_alt:
  assumes "from < now" and "now - from \<le> max_duration"
  shows "coverage from now t =
    sum_list (map (\<lambda>b. if counted t b then seconds (clip from now b) else 0) (boundaries (trunc from) now)) /
    seconds (now - from)"
proof -
  have span: "time_sub now from = now - from"
    using assms by (simp add: time_sub_exact min_duration_def)
  have one: "cover_step from now t b covered = covered + (if counted t b then seconds (clip from now b) else 0)"
    if b: "b \<in> set (boundaries (trunc from) now)" for b covered
  proof -
    have "time_sub (if b + bucket_width > now then now else b + bucket_width) (if b < from then from else b) = clip from now b"
      using clip_bounds [OF b assms(1)]
      by (subst time_sub_exact) (auto simp: clip_def min_def max_def min_duration_def max_duration_def split: if_splits)
    then show ?thesis by (auto simp: Let_def counted_def cover_step_def)
  qed
  have "fold (cover_step from now t) (boundaries (trunc from) now) 0 =
      fold (\<lambda>b acc. acc + (if counted t b then seconds (clip from now b) else 0)) (boundaries (trunc from) now) 0"
    by (rule fold_cong) (auto simp: one)
  then show ?thesis
    using assms(1) seconds_pos_iff [of "now - from"] unfolding fold_plus_sum_list
    by (simp add: coverage_def Let_def span)
qed

lemma covered_le:
  assumes "\<And>b. P b \<Longrightarrow> lo \<le> b" and "from < b0 + W" and "from \<le> now"
  shows "sum_list (map (\<lambda>b. if P b then seconds (clip from now b) else 0) (boundaries b0 now)) \<le>
    seconds (max 0 (now - max b0 (max from lo)))"
  using assms(2,3)
proof (induction b0 now rule: boundaries.induct)
  case (1 b0 now)
  show ?case
  proof (cases "b0 < now")
    case False
    then show ?thesis by (simp add: boundaries_Nil seconds_def second_def)
  next
    case True
    let ?rest = "sum_list (map (\<lambda>b. if P b then seconds (clip from now b) else 0) (boundaries (b0 + W) now))"
    have rest: "?rest \<le> seconds (max 0 (now - max (b0 + W) (max from lo)))"
      using 1(1) [OF True] 1(2,3) by simp
    have "?rest + (if P b0 then seconds (clip from now b0) else 0) \<le>
        seconds (max 0 (now - max (b0 + W) (max from lo))) + seconds (if P b0 then clip from now b0 else 0)"
      using rest by (simp add: seconds_def)
    also have "\<dots> = seconds (max 0 (now - max (b0 + W) (max from lo)) + (if P b0 then clip from now b0 else 0))"
      by (simp add: seconds_plus)
    also have "\<dots> \<le> seconds (max 0 (now - max b0 (max from lo)))"
      using assms(1) [of b0] 1(2,3) True by (intro seconds_mono) (auto simp: clip_def min_def max_def)
    finally show ?thesis by (simp add: boundaries_Cons [OF True] add.commute)
  qed
qed

section \<open>Runs\<close>

text \<open>A sequence of samples: the good and evaluated workload counts, and the instant.\<close>

type_synonym sample = "int \<times> int \<times> time"

definition slo_samples :: "sample list \<Rightarrow> slo_tracker \<Rightarrow> slo_tracker" where
  "slo_samples = fold (\<lambda>(good, tot, now). slo_observe good tot now)"

definition abs_samples :: "sample list \<Rightarrow> slo_abs \<Rightarrow> slo_abs" where
  "abs_samples = fold (\<lambda>(good, tot, now). abs_observe good tot now)"

definition sane :: "sample \<Rightarrow> bool" where
  "sane = (\<lambda>(good, tot, now). 0 \<le> good \<and> good \<le> tot \<and> 0 < now)"

lemma slo_samples_sim:
  assumes "list_all (\<lambda>(good, tot, now). 0 < now) evs" and "slo_sim t a"
  shows "slo_sim (slo_samples evs t) (abs_samples evs a)"
  using assms unfolding slo_samples_def abs_samples_def
  by (induction evs arbitrary: t a) (auto simp: slo_sim_observe)

text \<open>Every bucket is sane, and no bucket before minute \<open>lo\<close> has weight.\<close>

definition buckets_ok :: "int \<Rightarrow> bucket list \<Rightarrow> bool" where
  "buckets_ok lo ring \<longleftrightarrow> length ring = ring_size \<and>
     (\<forall>s\<in>set ring. 0 \<le> b_good s \<and> b_good s \<le> b_total s \<and> (0 < b_total s \<longrightarrow> lo * W \<le> b_start s))"

lemma add_to_slot_buckets:
  assumes "buckets_ok lo ring" and "0 \<le> g" and "g \<le> t" and "0 \<le> secs" and "lo \<le> m"
  shows "buckets_ok lo (add_to_slot (m * W) secs g t ring)"
proof -
  let ?s = "ring ! slot (m * W)"
  have "?s \<in> set ring" using assms(1) slot_less [of "m * W"] by (simp add: buckets_ok_def)
  then have "0 \<le> b_good ?s" "b_good ?s \<le> b_total ?s" using assms(1) by (auto simp: buckets_ok_def)
  moreover have "0 \<le> secs * g" "secs * g \<le> secs * t" using assms(2-4) by (auto intro: mult_left_mono)
  moreover have "lo * W \<le> m * W" using assms(5) by simp
  ultimately show ?thesis
    using assms(1) unfolding buckets_ok_def add_to_slot_def Let_def
    by (auto dest!: set_update_subset_insert [THEN subsetD])
qed

lemma slo_add_buckets:
  "buckets_ok lo ring \<Longrightarrow> 0 \<le> g \<Longrightarrow> g \<le> t \<Longrightarrow> lo \<le> cur div W \<Longrightarrow> buckets_ok lo (slo_add cur to g t ring)"
proof (induction cur to g t ring rule: slo_add.induct)
  case (1 cur to g t ring)
  show ?case
  proof (cases "cur < to")
    case False
    then show ?thesis using 1(2) by (simp add: slo_add.simps)
  next
    case True
    define e where "e = (if trunc cur + bucket_width > to then to else trunc cur + bucket_width)"
    have e: "cur < e" using True trunc_bounds [of cur] by (auto simp: e_def)
    then have "time_sub cur cur \<le> time_sub e cur" by (intro time_sub_mono) simp
    then have "0 \<le> seconds (time_sub e cur)" by (simp add: seconds_def second_def)
    then have "buckets_ok lo (add_to_slot (trunc cur) (seconds (time_sub e cur)) g t ring)"
      unfolding trunc_W using add_to_slot_buckets 1(2-5) by blast
    moreover have "lo \<le> e div W" using 1(5) e zdiv_mono1 [of cur e W] by simp
    ultimately show ?thesis
      using 1(1) [OF True refl refl e_def _ 1(3,4)] True
      by (subst slo_add.simps) (simp add: Let_def e_def [symmetric] del: bucket_width_W)
  qed
qed

lemma slo_observe_buckets:
  assumes "buckets_ok lo (s_ring t)" and "0 \<le> good" and "good \<le> tot"
    and "s_last t = 0 \<or> lo \<le> s_last t div W"
  shows "buckets_ok lo (s_ring (slo_observe good tot now t))"
proof (cases "s_last t = 0 \<or> now \<le> s_last t \<or> tot \<le> 0")
  case True
  then show ?thesis using assms(1) by (auto simp: slo_observe_def Let_def is_zero_time_def)
next
  case False
  define dt where "dt = (if time_sub now (s_last t) > s_max_sample_gap t then s_max_sample_gap t else time_sub now (s_last t))"
  have "dt \<le> now - s_last t" using False time_sub_le [of "s_last t" now] by (simp add: dt_def)
  then have "s_last t div W \<le> (now - dt) div W" by (intro zdiv_mono1) auto
  then have "buckets_ok lo (slo_add (now - dt) now (of_int good) (of_int tot) (s_ring t))"
    using assms False by (intro slo_add_buckets) auto
  with False show ?thesis
    by (simp add: slo_observe_def is_zero_time_def Let_def dt_def)
qed

lemma slo_observe_last:
  "s_last (slo_observe good tot now t) = (if s_last t = 0 then now else max now (s_last t))"
  by (auto simp: slo_observe_def Let_def is_zero_time_def max_def)

lemma slo_samples_buckets:
  assumes "list_all sane evs" and "buckets_ok lo (s_ring t)"
    and "if s_last t = 0 then \<forall>good tot now. evs \<noteq> [] \<and> hd evs = (good, tot, now) \<longrightarrow> lo \<le> now div W
         else lo \<le> s_last t div W"
  shows "buckets_ok lo (s_ring (slo_samples evs t))"
  using assms unfolding slo_samples_def
proof (induction evs arbitrary: t)
  case (Cons e evs)
  obtain good tot now where e: "e = (good, tot, now)" by (cases e)
  have ok: "0 \<le> good" "good \<le> tot" "0 < now" using Cons.prems(1) by (auto simp: e sane_def)
  let ?t = "slo_observe good tot now t"
  have "buckets_ok lo (s_ring ?t)"
    using Cons.prems(2,3) ok by (intro slo_observe_buckets) (auto split: if_splits)
  moreover have "lo \<le> s_last ?t div W" "s_last ?t \<noteq> 0"
    using Cons.prems(3) ok e zdiv_mono1 [of "s_last t" "max now (s_last t)" W]
    by (auto simp: slo_observe_last split: if_splits)
  ultimately show ?case using Cons.IH [of ?t] Cons.prems(1) e by simp
qed simp

lemma slo_samples_frame:
  "s_target (slo_samples evs t) = s_target t" "s_firing_since (slo_samples evs t) = s_firing_since t"
  unfolding slo_samples_def
  by (induction evs arbitrary: t) (auto simp: slo_observe_def Let_def)

lemma report_bounds_ok:
  assumes "buckets_ok lo (s_ring t)" and "s_target t < 1"
  shows "0 \<le> rep_availability (slo_report_at w now t) \<and> rep_availability (slo_report_at w now t) \<le> 1 \<and>
    0 \<le> rep_burn_rate (slo_report_at w now t)"
proof -
  let ?from = "now - window_duration w"
  obtain good tot where gt: "slo_sum ?from now t = (good, tot)" by fastforce
  have "0 \<le> fst (ring_read (s_ring t) m) \<and> fst (ring_read (s_ring t) m) \<le> snd (ring_read (s_ring t) m)" for m
    using assms(1) slot_less [of "m * W"] by (auto simp: buckets_ok_def ring_read_def Let_def)
  then have "0 \<le> good" "good \<le> tot"
    using gt unfolding slo_sum_reads by (auto intro: sum_nonneg sum_mono)
  moreover from this have "tot \<noteq> 0 \<Longrightarrow> good / tot \<le> 1" by (simp add: divide_le_eq_1)
  ultimately show ?thesis using assms(2) by (simp add: slo_report_at_def Let_def gt)
qed

lemma window_duration_bounds: "0 < window_duration w" "window_duration w \<le> 6 * hour"
  by (simp_all add: window_duration_def slow_window_def fast_window_def time_units)

lemma coverage_bounds:
  assumes "buckets_ok lo (s_ring t)"
  shows "0 \<le> rep_coverage (slo_report_at w now t) \<and> rep_coverage (slo_report_at w now t) \<le> 1 \<and>
    rep_coverage (slo_report_at w now t) * seconds (window_duration w) \<le> seconds (max 0 (now - lo * W))"
proof -
  let ?d = "window_duration w"
  let ?from = "now - ?d"
  let ?sum = "sum_list (map (\<lambda>b. if counted t b then seconds (clip ?from now b) else 0) (boundaries (trunc ?from) now))"
  have d: "0 < ?d" "?d \<le> max_duration"
    using window_duration_bounds [of w] by (simp_all add: max_duration_def time_units)
  have rep: "rep_coverage (slo_report_at w now t) = ?sum / seconds ?d"
    using coverage_alt [of ?from now t] d by (simp add: slo_report_at_def Let_def split: prod.split)
  have pos: "0 < seconds ?d" using d(1) by (simp add: seconds_pos_iff)
  have nonneg: "0 \<le> ?sum"
    by (rule sum_list_nonneg) (use d clip_bounds [of _ ?from now] in \<open>fastforce simp: seconds_def second_def\<close>)
  have low: "lo * W \<le> b" if "counted t b" for b
    using that assms slot_less [of b] by (auto simp: counted_def buckets_ok_def)
  have "?sum \<le> seconds (max 0 (now - max (trunc ?from) (max ?from (lo * W))))"
    by (rule covered_le) (use low d trunc_bounds [of ?from] in auto)
  moreover have "\<dots> \<le> seconds ?d" "\<dots> \<le> seconds (max 0 (now - lo * W))"
    using d(1) by (auto intro!: seconds_mono)
  ultimately show ?thesis using nonneg pos by (simp add: rep divide_le_eq_1_pos)
qed

section \<open>Properties\<close>

text \<open>
  C19. The ring implements the abstract tracker: after any samples at positive instants, the sums over a
  window whose first minute is less than 360 minutes before the last sample are exactly the
  workload-seconds of all samples that fall into the window's minutes. This covers the fast window
  at any instant that is not before the last sample.
\<close>

theorem slo_ring_exact:
  assumes "list_all (\<lambda>(good, tot, now). 0 < now) evs"
    and "s_last (slo_samples evs (slo_new target gap)) div W - 360 < from div W"
  shows "slo_sum from to (slo_samples evs (slo_new target gap)) = abs_sum from to (abs_samples evs (abs_new gap))"
  by (rule slo_sim_sum [OF slo_samples_sim [OF assms(1) slo_sim_new] assms(2)])

theorem slo_ring_exact_witness:
  "slo_sum 60000000000 180000000000 (slo_samples [(3, 4, 60000000000), (3, 4, 90000000000)] (slo_new (1 / 2) 0)) =
   abs_sum 60000000000 180000000000 (abs_samples [(3, 4, 60000000000), (3, 4, 90000000000)] (abs_new 0))"
  by (rule slo_ring_exact) (simp_all add: slo_samples_def slo_observe_last, simp add: slo_new_def)

text \<open>
  Reports stay in range: after any samples with \<open>0 \<le> good \<le> total\<close>, at any instant, availability
  and coverage of both windows lie between 0 and 1, and the burn rate is not negative for a target
  below 1.
\<close>

theorem slo_report_bounds:
  assumes "list_all sane evs" and "target < 1"
  shows "let r = slo_report_at w now (slo_samples evs (slo_new target gap)) in
    0 \<le> rep_availability r \<and> rep_availability r \<le> 1 \<and> 0 \<le> rep_burn_rate r \<and>
    0 \<le> rep_coverage r \<and> rep_coverage r \<le> 1"
proof -
  have "buckets_ok 0 (s_ring (slo_samples evs (slo_new target gap)))"
  proof (rule slo_samples_buckets [OF assms(1)])
    show "buckets_ok 0 (s_ring (slo_new target gap))" by (simp add: buckets_ok_def slo_new_def)
    show "if s_last (slo_new target gap) = 0
      then \<forall>good tot now. evs \<noteq> [] \<and> hd evs = (good, tot, now) \<longrightarrow> 0 \<le> now div W
      else 0 \<le> s_last (slo_new target gap) div W"
      using assms(1) by (cases evs) (auto simp: slo_new_def sane_def pos_imp_zdiv_nonneg_iff)
  qed
  from report_bounds_ok [OF this] coverage_bounds [OF this] assms(2) show ?thesis
    by (simp add: Let_def slo_samples_frame slo_new_def)
qed

theorem slo_report_bounds_witness:
  "let r = slo_report_at Fast 99000000000 (slo_samples [(3, 4, 60000000000), (3, 4, 90000000000)] (slo_new (1 / 2) 0)) in
    0 \<le> rep_availability r \<and> rep_availability r \<le> 1 \<and> 0 \<le> rep_burn_rate r \<and>
    0 \<le> rep_coverage r \<and> rep_coverage r \<le> 1"
  by (rule slo_report_bounds) (simp_all add: sane_def)

text \<open>
  A restarted daemon cannot page early: while the first sample is less than 215 minutes old (60
  percent of the six-hour window, less one minute because a bucket with any weight counts whole),
  the verdict does not fire, whatever was sampled.
\<close>

theorem slo_warmup:
  assumes "list_all sane ((good, tot, t0) # evs)" and "now - t0 < 215 * minute"
  shows "\<not> v_firing (snd (verdict now (slo_samples ((good, tot, t0) # evs) (slo_new target gap))))"
proof
  let ?evs = "(good, tot, t0) # evs"
  let ?t = "slo_samples ?evs (slo_new target gap)"
  assume fires: "v_firing (snd (verdict now ?t))"
  have ok: "buckets_ok (t0 div W) (s_ring ?t)"
  proof (rule slo_samples_buckets [OF assms(1)])
    show "buckets_ok (t0 div W) (s_ring (slo_new target gap))" by (simp add: buckets_ok_def slo_new_def)
  qed (simp add: slo_new_def)
  have hot: "min_coverage \<le> rep_coverage (slo_report_at Slow now ?t)"
    using fires by (auto simp: verdict_def Let_def split: if_splits)
  have "seconds (window_duration Slow) = 21600"
    by (simp add: window_duration_def slow_window_def time_units seconds_def)
  moreover have "rep_coverage (slo_report_at Slow now ?t) * seconds (window_duration Slow) \<le>
      seconds (max 0 (now - t0 div W * W))"
    using coverage_bounds [OF ok, of Slow now] by blast
  ultimately have "12960 \<le> seconds (max 0 (now - t0 div W * W))"
    using hot by (simp add: min_coverage_def)
  then have "12960 * 1000000000 \<le> max 0 (now - t0 div W * W)"
    by (simp add: seconds_def second_def field_simps)
  moreover have "t0 < t0 div W * W + W" using trunc_bounds [of t0] by (simp add: trunc_W)
  ultimately show False using assms(2) by (simp add: time_units)
qed

theorem slo_warmup_witness:
  "\<not> v_firing (snd (verdict 12000000000000 (slo_samples ((0, 4, 60000000000) # [(0, 4, 90000000000)]) (slo_new (1 / 2) 0))))"
  by (rule slo_warmup) (simp_all add: sane_def time_units)

text \<open>
  The six-hour window spans 361 buckets of a ring of 360 when the instant is inside a minute, and
  the oldest one shares its slot with the current one: once the current minute carries a sample, the
  oldest minute reads as empty, although its weight belongs to the window.
\<close>

theorem slow_window_edge:
  assumes "b_start (s_ring t ! slot (trunc now)) = trunc now"
  shows "sum_step t (trunc (now - slow_window)) acc = acc"
proof -
  have b: "trunc now = now div W * W" by (rule trunc_W)
  have "(now - 360 * W) div W = now div W - 360"
    using div_mult_self1 [of W now "- 360"] by simp
  then have f: "trunc (now - slow_window) = (now div W - 360) * W"
    by (simp add: trunc_W slow_window_def time_units)
  have "(now div W - 360) mod 360 = now div W mod 360" by simp
  then have "slot (trunc (now - slow_window)) = slot (trunc now)"
    unfolding f b slot_eq_iff .
  then show ?thesis using assms by (cases acc) (simp add: sum_step_def Let_def f b)
qed

text \<open>An interval inside one minute goes to one bucket.\<close>

lemma slo_add_single:
  assumes "cur < to" and "to \<le> trunc cur + bucket_width"
  shows "slo_add cur to g t ring = add_to_slot (trunc cur) (seconds (time_sub to cur)) g t ring"
proof -
  have "slo_add to to g t r = r" for r by (subst slo_add.simps) simp
  then show ?thesis using assms by (subst slo_add.simps) (auto simp: Let_def)
qed

lemma length_add_to_slot: "length (add_to_slot b secs g t ring) = length ring"
  by (simp add: add_to_slot_def Let_def)

lemma add_to_slot_nth:
  "length ring = ring_size \<Longrightarrow> add_to_slot b secs g t ring ! slot b =
    (let s = (if b_start (ring ! slot b) \<noteq> b then \<lparr>b_start = b, b_good = 0, b_total = 0\<rparr> else ring ! slot b)
     in s\<lparr>b_good := b_good s + secs * g, b_total := b_total s + secs * t\<rparr>)"
  using slot_less [of b] by (simp add: add_to_slot_def Let_def)

lemmas eval_slo = slo_samples_def slo_observe_def slo_new_def slo_add_single trunc_W sum_step_def
  Let_def is_zero_time_def time_sub_def max_duration_def min_duration_def seconds_def time_units
  length_add_to_slot add_to_slot_nth slow_window_def

theorem slow_window_edge_witness:
  "let t = slo_samples [(1, 1, 60000000000), (1, 1, 90000000000), (1, 1, 21690000000000), (1, 1, 21700000000000)] (slo_new (1 / 2) 30000000000)
   in sum_step t (trunc (21700000000000 - slow_window)) (0, 0) = (0, 0) \<and>
      sum_step (slo_samples [(1, 1, 60000000000), (1, 1, 90000000000)] (slo_new (1 / 2) 30000000000))
        (trunc (21700000000000 - slow_window)) (0, 0) = (30, 30)"
proof -
  let ?t = "slo_samples [(1, 1, 60000000000), (1, 1, 90000000000), (1, 1, 21690000000000), (1, 1, 21700000000000)] (slo_new (1 / 2) 30000000000)"
  have "b_start (s_ring ?t ! slot (trunc 21700000000000)) = trunc 21700000000000"
    by (simp add: eval_slo)
  then have "sum_step ?t (trunc (21700000000000 - slow_window)) (0, 0) = (0, 0)"
    by (rule slow_window_edge)
  moreover have "sum_step (slo_samples [(1, 1, 60000000000), (1, 1, 90000000000)] (slo_new (1 / 2) 30000000000))
        (trunc (21700000000000 - slow_window)) (0, 0) = (30, 30)"
    using slot_less [of 60000000000] by (simp add: eval_slo)
  ultimately show ?thesis unfolding Let_def by blast
qed

end
