(* ===== verification/Watch_Daemon.thy ===== *)
theory Watch_Daemon
  imports Alert_State Slo Scan_Result
begin

text \<open>
  \<open>internal/watch\<close>: one cluster's worker. \<open>slo.go\<close> turns verdicts into edge-triggered notifications,
  \<open>issues.go\<close> projects an evaluation to the issues the tracker follows, and \<open>applyResult\<close> of
  \<open>cluster.go\<close> folds an evaluation into the tracker, the roller, the SLO tracker and the notifier.
  What it enqueues on the sink is the list it returns; metrics and log lines, which feed nothing
  back, are left out, and so is the explainer, which only reads.
\<close>

section \<open>The SLO notifier\<close>

record slo_notifier =
  sn_cluster :: string
  sn_repeat :: duration
  sn_firing :: bool
  sn_since :: time
  sn_last_sent :: time

definition default_slo_repeat :: duration where
  "default_slo_repeat = 4 * hour"

definition new_slo_notifier :: "string \<Rightarrow> duration \<Rightarrow> slo_notifier" where
  "new_slo_notifier cluster rep =
    \<lparr>sn_cluster = cluster, sn_repeat = (if rep \<le> 0 then default_slo_repeat else rep), sn_firing = False,
     sn_since = 0, sn_last_sent = 0\<rparr>"

definition slo_object :: "string \<Rightarrow> alert_object" where
  "slo_object cluster = \<lparr>ob_cluster = cluster, ob_kind = ''SLO'', ob_namespace = [], ob_name = ''error-budget''\<rparr>"

definition slo_notification :: "slo_notifier \<Rightarrow> status \<Rightarrow> reason \<Rightarrow> time \<Rightarrow> notification" where
  "slo_notification n s r resolved_at = \<lparr>n_object = slo_object (sn_cluster n), n_status = s,
     n_issues = (if s = StatusFiring then [''ErrorBudgetBurn''] else []), n_firing_since = sn_since n,
     n_resolved_at = resolved_at, n_flapping = False, n_reason = r, n_text = []\<rparr>"

definition slo_step :: "slo_verdict \<Rightarrow> time \<Rightarrow> slo_notifier \<Rightarrow> slo_notifier \<times> notification option" where
  "slo_step v now n =
    (if v_firing v \<and> \<not> sn_firing n then
       let n1 = n\<lparr>sn_firing := True, sn_since := v_firing_since v, sn_last_sent := now\<rparr>
       in (n1, Some (slo_notification n1 StatusFiring ReasonNew 0))
     else if v_firing v \<and> time_sub now (sn_last_sent n) \<ge> sn_repeat n then
       let n1 = n\<lparr>sn_last_sent := now\<rparr>
       in (n1, Some (slo_notification n1 StatusFiring ReasonRepeat 0))
     else if \<not> v_firing v \<and> sn_firing n then
       let n1 = n\<lparr>sn_firing := False\<rparr>
       in (n1, Some (slo_notification n1 StatusResolved ReasonResolved now))
     else (n, None))"

text \<open>A float64 target is a rational number, or \<open>None\<close> for NaN.\<close>

definition validate_slo_target :: "rat option \<Rightarrow> bool" where
  "validate_slo_target target = (case target of None \<Rightarrow> False
     | Some x \<Rightarrow> if x = 0 then True else \<not> (x \<le> 0 \<or> x \<ge> 1))"

definition new_slo_tracker :: "string \<Rightarrow> rat \<Rightarrow> duration \<Rightarrow> duration \<Rightarrow> (slo_tracker \<times> slo_notifier) option" where
  "new_slo_tracker cluster target heartbeat rep =
    (if target = 0 then None
     else Some (slo_new target (2 * heartbeat), new_slo_notifier cluster rep))"

section \<open>Issue keys\<close>

definition daemon_pdb_issue :: "string \<Rightarrow> string" where
  "daemon_pdb_issue c = (case mget [(''unsatisfiable'', ''PDBUnsatisfiable''), (''stale'', ''PDBStale''),
     (''blocking'', ''PDBBlocked''), (''singleton'', ''PDBSingleton'')] c of Some v \<Rightarrow> v | None \<Rightarrow> c)"

definition daemon_hpa_issue :: "string \<Rightarrow> string" where
  "daemon_hpa_issue c = (case mget [(''unable'', ''HPAUnableToScale''), (''metrics'', ''HPAMetricsFailed''),
     (''disabled'', ''HPAScalingDisabled''), (''ambiguous'', ''HPAAmbiguousSelector''), (''capped'', ''HPACapped'')] c of
     Some v \<Rightarrow> v | None \<Rightarrow> c)"

definition mk_key :: "string \<Rightarrow> string \<Rightarrow> string \<Rightarrow> string \<Rightarrow> wkey" where
  "mk_key kind ns nm issue = \<lparr>k_kind = kind, k_namespace = ns, k_name = nm, k_issue = issue\<rparr>"

text \<open>The arguments of the successive calls of the closure \<open>add\<close>, in order.\<close>

definition workload_keys :: "workload \<Rightarrow> wkey list" where
  "workload_keys w =
    (if w_findings w \<noteq> [] then map (\<lambda>f. mk_key (w_kind w) (w_namespace w) (w_name w) (f_issue f)) (w_findings w)
     else if flagged w then [mk_key (w_kind w) (w_namespace w) (w_name w) ''Degraded''] else [])"

definition object_keys :: "scan_result \<Rightarrow> wkey list" where
  "object_keys res =
     map (\<lambda>i. mk_key ''Service'' (si_namespace i) (si_name i) (si_problem i)) (filter (\<lambda>i. \<not> si_expected i) (sr_services res)) @
     map (\<lambda>i. mk_key ''Ingress'' (ri_namespace i) (ri_ingress i) (ri_problem i)) (filter (\<lambda>i. \<not> ri_expected i) (sr_ingresses res)) @
     map (\<lambda>i. mk_key ''PVC'' (vi_namespace i) (vi_name i) (vi_reason i)) (sr_pvcs res) @
     map (\<lambda>i. mk_key (ti_kind i) (ti_namespace i) (ti_name i) ''StuckTerminating'') (sr_stuck res) @
     map (\<lambda>i. mk_key ''PodDisruptionBudget'' (bi_namespace i) (bi_name i) (daemon_pdb_issue (bi_category i))) (sr_pdbs res) @
     map (\<lambda>i. mk_key ''HorizontalPodAutoscaler'' (hi_namespace i) (hi_name i) (daemon_hpa_issue (hi_category i))) (sr_hpas res) @
     map (\<lambda>i. mk_key (wi_kind i) [] (wi_config i @ ''/'' @ wi_webhook i) (wi_problem i)) (sr_webhooks res) @
     map (\<lambda>i. mk_key ''ResourceQuota'' (qi_namespace i) (qi_quota i @ ''/'' @ qi_resource i) (qi_severity i)) (sr_quotas res)"

definition cluster_keys :: "scan_result \<Rightarrow> wkey list" where
  "cluster_keys res =
     map (\<lambda>(nm, r). mk_key ''Node'' [] nm (if r = ''NotReady'' then ''NotReady'' else ''KubeletNotHeartbeating'')) (sr_down_nodes res) @
     map (\<lambda>nm. mk_key ''Node'' [] nm ''KubeletUnhealthy'') (sr_kubelets res) @
     (if sr_control_plane res = ''unhealthy'' then [mk_key ''Cluster'' [] ''control-plane'' ''Unhealthy''] else []) @
     (if sr_dns res = ''degraded'' then [mk_key ''Cluster'' [] ''coredns'' ''DNSDegraded''] else []) @
     (case sr_certs res of None \<Rightarrow> []
      | Some c \<Rightarrow> map (\<lambda>(ns, nm). mk_key ''Secret'' ns nm ''CertExpired'') (cr_expired c) @
          map (\<lambda>(ns, nm). mk_key ''Secret'' ns nm ''CertExpiring'') (cr_expiring c) @
          map (\<lambda>(ns, nm). mk_key ''Secret'' ns nm ''CertInvalid'') (cr_invalid c)) @
     map (\<lambda>v. mk_key ''Volume'' (vu_namespace v) (if vu_kind v = ''node'' then vu_node v else vu_name v) ''DiskOverThreshold'') (sr_disk res)"

definition issue_keys :: "scan_result \<Rightarrow> wkey list" where
  "issue_keys res = uniq_keys []
     (concat (map workload_keys (ir_workloads (sr_inventory res))) @ object_keys res @ cluster_keys res)"

definition flagged_workloads :: "scan_result \<Rightarrow> workload list" where
  "flagged_workloads res = filter flagged (ir_workloads (sr_inventory res))"

section \<open>The worker\<close>

record worker =
  wk_tracker :: tracker
  wk_roller :: roller
  wk_alerting :: bool
  wk_slo :: "(slo_tracker \<times> slo_notifier) option"

definition notify :: "worker \<Rightarrow> time \<Rightarrow> worker \<times> notification list" where
  "notify w now =
    (if \<not> wk_alerting w then (w, [])
     else let (r, out) = roll (active_records (wk_tracker w)) now (wk_roller w) in (w\<lparr>wk_roller := r\<rparr>, out))"

definition slo_cycle :: "nat \<Rightarrow> nat \<Rightarrow> time \<Rightarrow> worker \<Rightarrow> worker \<times> notification list" where
  "slo_cycle good tot now w = (case wk_slo w of None \<Rightarrow> (w, [])
     | Some (tr, n) \<Rightarrow>
         let tr1 = slo_observe (int good) (int tot) now tr;
             (tr2, v) = verdict now tr1;
             (n1, note) = slo_step v now n
         in (w\<lparr>wk_slo := Some (tr2, n1)\<rparr>,
             case note of Some x \<Rightarrow> if wk_alerting w then [x] else [] | None \<Rightarrow> []))"

definition apply_result :: "(string + scan_result) \<times> time \<Rightarrow> worker \<Rightarrow> worker \<times> notification list" where
  "apply_result = (\<lambda>(outcome, now) w. case outcome of
     Inl err \<Rightarrow> (w, [])
   | Inr res \<Rightarrow>
       let (tr, d) = observe (issue_keys res) now (wk_tracker w);
           (w1, out1) = notify (w\<lparr>wk_tracker := tr\<rparr>) now;
           (w2, out2) = slo_cycle (ir_good (sr_inventory res)) (ir_total (sr_inventory res)) now w1
       in (w2, out1 @ out2))"

text \<open>\<open>newClusterWorker\<close>: the tracker takes its default options.\<close>

definition default_options :: tracker_options where
  "default_options = \<lparr>o_max_tracked = 0, o_retain_resolved = 0, o_flap_window = 0, o_flap_threshold = 0\<rparr>"

definition new_worker :: "string \<Rightarrow> duration \<Rightarrow> bool \<Rightarrow> rat \<Rightarrow> duration \<Rightarrow> worker" where
  "new_worker cluster rep alerting target heartbeat =
    \<lparr>wk_tracker = tracker_new default_options, wk_roller = roller_new rep cluster, wk_alerting = alerting,
     wk_slo = new_slo_tracker cluster target heartbeat rep\<rparr>"

section \<open>The notifier's edges\<close>

fun slo_steps :: "(slo_verdict \<times> time) list \<Rightarrow> slo_notifier \<Rightarrow> slo_notifier \<times> notification list" where
  "slo_steps [] n = (n, [])"
| "slo_steps ((v, now) # evs) n =
     (let (n1, note) = slo_step v now n; (n2, notes) = slo_steps evs n1
      in (n2, (case note of None \<Rightarrow> [] | Some x \<Rightarrow> [x]) @ notes))"

lemma slo_step_replay:
  assumes "slo_step v now n = (n1, note)"
  shows "replay (case note of None \<Rightarrow> [] | Some x \<Rightarrow> [x]) (if sn_firing n then {slo_object (sn_cluster n)} else {}) =
      Some (if sn_firing n1 then {slo_object (sn_cluster n1)} else {}) \<and>
    sn_cluster n1 = sn_cluster n \<and> sn_firing n1 = v_firing v"
  using assms
  by (auto simp: slo_step_def slo_notification_def deliver_def Let_def split: if_splits)

lemma slo_steps_replay:
  "replay (snd (slo_steps evs n)) (if sn_firing n then {slo_object (sn_cluster n)} else {}) =
     Some (if sn_firing (fst (slo_steps evs n)) then {slo_object (sn_cluster n)} else {}) \<and>
   sn_firing (fst (slo_steps evs n)) = (if evs = [] then sn_firing n else v_firing (fst (last evs)))"
proof (induction evs n rule: slo_steps.induct)
  case (2 v now evs n)
  obtain n1 sent1 where s1: "slo_step v now n = (n1, sent1)" by fastforce
  obtain n2 sent where s2: "slo_steps evs n1 = (n2, sent)" by fastforce
  note st = slo_step_replay [OF s1]
  show ?case
    using 2 [OF s1 [symmetric] refl] st by (simp add: s1 s2 replay_append)
qed simp

section \<open>The worker's invariant\<close>

definition key_object :: "string \<Rightarrow> wkey \<Rightarrow> alert_object" where
  "key_object cluster k = \<lparr>ob_cluster = cluster, ob_kind = k_kind k, ob_namespace = k_namespace k, ob_name = k_name k\<rparr>"

lemma record_object_key: "record_object cluster rec = key_object cluster (r_key rec)"
  by (simp add: record_object_def key_object_def)

definition worker_inv :: "string \<Rightarrow> worker \<Rightarrow> bool" where
  "worker_inv cluster w \<longleftrightarrow> tracker_inv (wk_tracker w) \<and> mok (ro_open (wk_roller w)) \<and> ro_cluster (wk_roller w) = cluster"

lemma notify_inv:
  assumes "worker_inv cluster w"
  shows "worker_inv cluster (fst (notify w now)) \<and> wk_tracker (fst (notify w now)) = wk_tracker w"
proof (cases "wk_alerting w")
  case True
  obtain r out where r: "roll (active_records (wk_tracker w)) now (wk_roller w) = (r, out)" by fastforce
  have "mok (ro_open r)" "ro_cluster r = cluster"
    using roll_open [OF r] roll_frame [OF r] assms by (auto simp: worker_inv_def)
  with True r assms show ?thesis by (simp add: notify_def worker_inv_def)
qed (simp add: notify_def assms)

lemma slo_cycle_frame:
  "wk_tracker (fst (slo_cycle good tot now w)) = wk_tracker w \<and> wk_roller (fst (slo_cycle good tot now w)) = wk_roller w"
  by (auto simp: slo_cycle_def Let_def split: option.splits prod.splits)

lemma slo_cycle_out:
  "n \<in> set (snd (slo_cycle good tot now w)) \<Longrightarrow> ob_kind (n_object n) = ''SLO''"
  by (auto simp: slo_cycle_def slo_step_def slo_notification_def slo_object_def Let_def
      split: option.splits prod.splits if_splits)

lemma apply_result_inv:
  assumes "worker_inv cluster w"
  shows "worker_inv cluster (fst (apply_result e w))"
proof (cases e)
  case (Pair outcome now)
  show ?thesis
  proof (cases outcome)
    case (Inr res)
    obtain tr d where o: "observe (issue_keys res) now (wk_tracker w) = (tr, d)" by fastforce
    have "tracker_inv tr" using observe_inv [of "wk_tracker w" "issue_keys res" now] o assms by (simp add: worker_inv_def)
    then have i1: "worker_inv cluster (w\<lparr>wk_tracker := tr\<rparr>)" using assms by (simp add: worker_inv_def)
    note n = notify_inv [OF i1, of now]
    show ?thesis
      using n slo_cycle_frame [of "ir_good (sr_inventory res)" "ir_total (sr_inventory res)" now "fst (notify (w\<lparr>wk_tracker := tr\<rparr>) now)"]
      by (auto simp: Pair Inr apply_result_def o Let_def worker_inv_def split: prod.splits)
  qed (simp add: Pair apply_result_def assms)
qed

definition worker_step :: "(string + scan_result) \<times> time \<Rightarrow> worker \<Rightarrow> worker" where
  "worker_step e w = fst (apply_result e w)"

interpretation worker_loop: reconcile_loop worker_step "new_worker cluster rep alerting target heartbeat" "worker_inv cluster"
  for cluster rep alerting target heartbeat
proof unfold_locales
  show "worker_inv cluster (new_worker cluster rep alerting target heartbeat)"
    by (simp add: worker_inv_def new_worker_def tracker_inv_new roller_new_def)
qed (simp add: worker_step_def apply_result_inv)

lemma resolved_sound:
  assumes inv: "worker_inv cluster w"
    and step: "apply_result (Inr res, now) w = (w', out)"
    and full: "st_dropped (t_stats (wk_tracker w')) = st_dropped (t_stats (wk_tracker w))"
    and n: "n \<in> set out" "n_status n = StatusResolved" "ob_kind (n_object n) \<noteq> ''SLO''"
    and k: "k \<in> set (issue_keys res)"
  shows "key_object cluster k \<noteq> n_object n"
proof
  assume same: "key_object cluster k = n_object n"
  obtain tr d where o: "observe (issue_keys res) now (wk_tracker w) = (tr, d)" by fastforce
  let ?w = "w\<lparr>wk_tracker := tr\<rparr>"
  have inv1: "tracker_inv (wk_tracker w)" "mok (ro_open (wk_roller w))" "ro_cluster (wk_roller w) = cluster"
    using inv by (auto simp: worker_inv_def)
  note delta = observe_delta_inv [OF inv1(1) o]
  have trw': "wk_tracker w' = tr"
    using step slo_cycle_frame notify_inv [of cluster ?w now] inv observe_inv [OF inv1(1), of "issue_keys res" now] o
    by (auto simp: apply_result_def Let_def worker_inv_def split: prod.splits) (metis fst_conv)
  have "card {k \<in> set (issue_keys res). \<not> is_active tr k} = 0" using delta full trw' by simp
  then have "is_active tr k" using k by auto
  then obtain rec where rec: "mget (t_records tr) k = Some rec" "r_active rec"
    by (auto simp: is_active_def split: option.splits)
  have trinv: "tracker_inv tr" using observe_inv [OF inv1(1), of "issue_keys res" now] o by simp
  have "rec \<in> set (active_records tr)" "r_key rec = k"
    using rec tracker_inv_key [OF trinv] map_of_SomeD [OF rec(1)]
    by (force simp: active_records_def snapshot_def sort_records_def)+
  then have some: "records_of cluster (active_records tr) (n_object n) \<noteq> []"
    using same by (auto simp: records_of_def record_object_key filter_empty_conv)
  have "n \<in> set (snd (notify ?w now))"
    using step n slo_cycle_out by (auto simp: apply_result_def o Let_def split: prod.splits) (metis snd_conv)
  then obtain r2 out2 where r2: "roll (active_records tr) now (wk_roller w) = (r2, out2)" "n \<in> set out2"
    by (auto simp: notify_def Let_def split: if_splits prod.splits)
  from r2(2) some show False
    using roll_out [OF r2(1) inv1(2), of n] n(2) group_noteD inv1(3) by (metis status.distinct(1))
qed

section \<open>Properties\<close>

text \<open>
  The error-budget alert is edge-triggered: over any stream of verdicts, what is sent opens the
  alert once, repeats and resolves it only while it is open, and leaves it open exactly when the
  last verdict fires.
\<close>

theorem slo_notifications_replay:
  "replay (snd (slo_steps evs (new_slo_notifier cluster rep))) {} =
     Some (if evs \<noteq> [] \<and> v_firing (fst (last evs)) then {slo_object cluster} else {})"
  using slo_steps_replay [of evs "new_slo_notifier cluster rep"]
  by (auto simp: new_slo_notifier_def split: if_splits)

text \<open>
  A failed evaluation is not an all-clear: it changes neither tracker nor roller nor SLO state
  and sends nothing, so a run with failed evaluations ends in the same state as the run without
  them.
\<close>

theorem failed_evaluation_ignored:
  "fold worker_step evs w = fold worker_step (filter (\<lambda>(outcome, now). \<not> isl outcome) evs) w \<and>
   apply_result (Inl err, now) w = (w, [])"
proof -
  have one: "worker_step (Inl e, t) v = v" for e t v by (simp add: worker_step_def apply_result_def)
  have "fold worker_step evs w = fold worker_step (filter (\<lambda>(outcome, now). \<not> isl outcome) evs) w"
  proof (induction evs arbitrary: w)
    case (Cons e evs)
    then show ?case using one by (cases e) (auto simp: isl_def)
  qed simp
  then show ?thesis by (simp add: apply_result_def)
qed

text \<open>
  C9. An object is reported as recovered only when nothing is wrong with it any more: in any reachable
  state, if an evaluation dropped no issue at the tracker's cap, an alert that is resolved belongs to
  no reported issue.
\<close>

theorem resolved_means_recovered:
  assumes "apply_result (Inr res, now) (fold worker_step evs (new_worker cluster rep alerting target heartbeat)) = (w', out)"
    and "st_dropped (t_stats (wk_tracker w')) =
      st_dropped (t_stats (wk_tracker (fold worker_step evs (new_worker cluster rep alerting target heartbeat))))"
    and "n \<in> set out" and "n_status n = StatusResolved" and "ob_kind (n_object n) \<noteq> ''SLO''"
  shows "n_object n \<notin> key_object cluster ` set (issue_keys res)"
proof
  assume "n_object n \<in> key_object cluster ` set (issue_keys res)"
  then obtain k where "k \<in> set (issue_keys res)" "key_object cluster k = n_object n" by auto
  with resolved_sound [OF worker_loop.inv_run assms, of k] show False by simp
qed

definition quiet_result :: scan_result where
  "quiet_result = \<lparr>sr_inventory = \<lparr>ir_workloads = [], ir_hidden_restarts = 0, ir_hidden_cron = 0, ir_good = 1, ir_total = 1\<rparr>,
     sr_services = [], sr_ingresses = [], sr_pvcs = [], sr_stuck = [], sr_pdbs = [], sr_hpas = [], sr_webhooks = [],
     sr_quotas = [], sr_down_nodes = [], sr_kubelets = [], sr_control_plane = ''ok'', sr_dns = ''ok'', sr_certs = None,
     sr_disk = [], sr_partial_reads = []\<rparr>"

definition down_node_result :: scan_result where
  "down_node_result = quiet_result\<lparr>sr_down_nodes := [(''w2'', ''NotReady'')]\<rparr>"

theorem resolved_means_recovered_witness:
  "let w = fold worker_step [(Inr down_node_result, 1)] (new_worker ''eu'' 0 True 0 0);
       (w', out) = apply_result (Inr quiet_result, 2) w
   in map n_status out = [StatusResolved] \<and>
      (\<forall>n\<in>set out. n_object n \<notin> key_object ''eu'' ` set (issue_keys quiet_result))"
proof -
  let ?w = "fold worker_step [(Inr down_node_result, 1)] (new_worker ''eu'' 0 True 0 0)"
  obtain w' out where step: "apply_result (Inr quiet_result, 2) ?w = (w', out)" by fastforce
  have facts: "map n_status (snd (apply_result (Inr quiet_result, 2) ?w)) = [StatusResolved] \<and>
      map (ob_kind \<circ> n_object) (snd (apply_result (Inr quiet_result, 2) ?w)) = [''Node''] \<and>
      st_dropped (t_stats (wk_tracker (fst (apply_result (Inr quiet_result, 2) ?w)))) = st_dropped (t_stats (wk_tracker ?w))"
    by code_simp
  note facts = facts [unfolded step fst_conv snd_conv]
  have "n_object n \<notin> key_object ''eu'' ` set (issue_keys quiet_result)" if "n \<in> set out" for n
  proof (rule resolved_means_recovered [OF step _ that])
    show "n_status n = StatusResolved" "ob_kind (n_object n) \<noteq> ''SLO''" using facts that by auto
  qed (use facts in blast)
  with facts show ?thesis unfolding Let_def step by simp
qed


end
