(* ===== verification/Policy_Load.thy ===== *)
theory Policy_Load
  imports Policy
begin

text \<open>
  \<open>internal/policy/load.go\<close>: reading and validating policy files. The strict YAML decoder is a
  parameter; everything after it is modelled, one error constructor for each error text.
\<close>

section \<open>Validation\<close>

datatype rule_error =
    Not_selectable string
  | Cluster_scoped string
  | Path_or_relation
  | Unknown_relation string
  | Relation_takes_no_op string
  | Relation_takes_no_values string
  | Relation_not_for_kind string string
  | Unknown_operator string
  | Bad_path path_error
  | Config_map_contents
  | Takes_no_values string
  | Needs_a_value string
  | Needs_one_value string nat
  | Unknown_level string
  | Empty_message

datatype 'y load_error =
    Invalid_yaml string 'y
  | No_id string nat
  | Bad_id string string
  | Duplicate_id string string string
  | Bad_rule string string rule_error

record document =
  d_source :: string
  d_data :: string

text \<open>The regular expression \<open>^[A-Za-z0-9._-]+$\<close>.\<close>

definition id_char :: "char \<Rightarrow> bool" where
  "id_char c \<longleftrightarrow> (let k = (of_char c :: nat) in
     65 \<le> k \<and> k \<le> 90 \<or> 97 \<le> k \<and> k \<le> 122 \<or> 48 \<le> k \<and> k \<le> 57 \<or>
     c = CHR ''.'' \<or> c = CHR ''_'' \<or> c = CHR ''-'')"

definition rule_id_ok :: "string \<Rightarrow> bool" where
  "rule_id_ok s \<longleftrightarrow> s \<noteq> [] \<and> list_all id_char s"

definition validate_relation :: "rule \<Rightarrow> rule_error option" where
  "validate_relation r =
    (let rel = a_relation (r_assert r) in
     if \<not> valid_relation rel then Some (Unknown_relation rel)
     else if a_op (r_assert r) \<noteq> [] then Some (Relation_takes_no_op rel)
     else if a_values (r_assert r) \<noteq> [] then Some (Relation_takes_no_values rel)
     else if \<not> relation_valid_for_kind rel (m_kind (r_match r))
       then Some (Relation_not_for_kind rel (m_kind (r_match r)))
     else None)"

definition reads_config_map_contents :: "segment list \<Rightarrow> bool" where
  "reads_config_map_contents segs =
    (case segs of [] \<Rightarrow> False | g # _ \<Rightarrow> seg_key g = ''data'' \<or> seg_key g = ''binaryData'')"

definition validate_arity :: "string \<Rightarrow> string list \<Rightarrow> rule_error option" where
  "validate_arity op values =
    (if op = OpExists \<or> op = OpNotExists then (if values \<noteq> [] then Some (Takes_no_values op) else None)
     else if op = OpIn \<or> op = OpNotIn \<or> op = OpMatches \<or> op = OpNotMatches then
       (if values = [] then Some (Needs_a_value op) else None)
     else if op = OpGt \<or> op = OpGte \<or> op = OpLt \<or> op = OpLte then
       (if length values \<noteq> 1 then Some (Needs_one_value op (length values)) else None)
     else None)"

definition validate_path :: "rule \<Rightarrow> rule_error option" where
  "validate_path r =
    (if \<not> valid_op (a_op (r_assert r)) then Some (Unknown_operator (a_op (r_assert r)))
     else case parse_path (a_path (r_assert r)) of
       Inl e \<Rightarrow> Some (Bad_path e)
     | Inr segs \<Rightarrow>
       if m_kind (r_match r) = ''ConfigMap'' \<and> reads_config_map_contents segs then Some Config_map_contents
       else validate_arity (a_op (r_assert r)) (a_values (r_assert r)))"

definition validate :: "rule \<Rightarrow> rule_error option" where
  "validate r =
    (let kind = m_kind (r_match r);
         has_path = (a_path (r_assert r) \<noteq> []);
         has_relation = (a_relation (r_assert r) \<noteq> [])
     in if \<not> kind_selectable kind then Some (Not_selectable kind)
        else if (m_ns_labels (r_match r) \<noteq> [] \<or> m_namespaces (r_match r) \<noteq> []) \<and> \<not> fst (kind_namespaced kind)
          then Some (Cluster_scoped kind)
        else if has_path = has_relation then Some Path_or_relation
        else case (if has_relation then validate_relation r else validate_path r) of
          Some e \<Rightarrow> Some e
        | None \<Rightarrow>
          if \<not> valid_level (r_level r) then Some (Unknown_level (r_level r))
          else if trim_space (r_message r) = [] then Some Empty_message
          else None)"

section \<open>Load\<close>

text \<open>The loop over the rules of one document, then the loop over the documents.\<close>

fun load_rules :: "unicode_tables \<Rightarrow> string \<Rightarrow> nat \<Rightarrow> rule list \<Rightarrow> (string, string) gomap \<times> rule list \<Rightarrow>
    'y load_error + (string, string) gomap \<times> rule list" where
  "load_rules u src i [] st = Inr st"
| "load_rules u src i (r # rs) (seen, out) =
    (if r_id r = [] then Inl (No_id src (i + 1))
     else if \<not> rule_id_ok (r_id r) then Inl (Bad_id src (r_id r))
     else case mget seen (r_id r) of
       Some wh \<Rightarrow> Inl (Duplicate_id src (r_id r) wh)
     | None \<Rightarrow>
       (case validate r of
          Some e \<Rightarrow> Inl (Bad_rule src (r_id r) e)
        | None \<Rightarrow> load_rules u src (i + 1) rs
            (mput (r_id r) src seen, out @ [r\<lparr>r_message := line u (r_message r)\<rparr>])))"

fun load_docs :: "unicode_tables \<Rightarrow> (string \<Rightarrow> 'y + rule list) \<Rightarrow> document list \<Rightarrow>
    (string, string) gomap \<times> rule list \<Rightarrow> 'y load_error + (string, string) gomap \<times> rule list" where
  "load_docs u decode [] st = Inr st"
| "load_docs u decode (d # ds) st =
    (case decode (d_data d) of
       Inl e \<Rightarrow> Inl (Invalid_yaml (d_source d) e)
     | Inr rules \<Rightarrow>
       (case load_rules u (d_source d) 0 rules st of
          Inl e \<Rightarrow> Inl e
        | Inr st' \<Rightarrow> load_docs u decode ds st'))"

definition load :: "unicode_tables \<Rightarrow> (string \<Rightarrow> 'y + rule list) \<Rightarrow> document list \<Rightarrow> 'y load_error + rule list" where
  "load u decode docs = (case load_docs u decode docs ([], []) of Inl e \<Rightarrow> Inl e | Inr st \<Rightarrow> Inr (snd st))"

section \<open>What a loaded rule looks like\<close>

definition path_rule_ok :: "rule \<Rightarrow> segment list \<Rightarrow> bool" where
  "path_rule_ok r segs \<longleftrightarrow>
    a_relation (r_assert r) = [] \<and> parse_path (a_path (r_assert r)) = Inr segs \<and>
    valid_op (a_op (r_assert r)) \<and> validate_arity (a_op (r_assert r)) (a_values (r_assert r)) = None \<and>
    (m_kind (r_match r) = ''ConfigMap'' \<longrightarrow> \<not> reads_config_map_contents segs)"

definition relation_rule_ok :: "rule \<Rightarrow> bool" where
  "relation_rule_ok r \<longleftrightarrow>
    a_path (r_assert r) = [] \<and>
    relation_valid_for_kind (a_relation (r_assert r)) (m_kind (r_match r)) \<and>
    valid_relation (a_relation (r_assert r))"

text \<open>A rule of the type the evaluator expects.\<close>

inductive rule_typed :: "rule \<Rightarrow> bool" where
  typed_path: "rule_id_ok (r_id r) \<Longrightarrow> kind_selectable (m_kind (r_match r)) \<Longrightarrow> valid_level (r_level r) \<Longrightarrow>
    path_rule_ok r segs \<Longrightarrow> rule_typed r"
| typed_relation: "rule_id_ok (r_id r) \<Longrightarrow> kind_selectable (m_kind (r_match r)) \<Longrightarrow> valid_level (r_level r) \<Longrightarrow>
    relation_rule_ok r \<Longrightarrow> rule_typed r"

lemma validate_path_None:
  assumes "validate_path r = None" and "a_relation (r_assert r) = []"
  shows "\<exists>segs. path_rule_ok r segs"
  using assms by (auto simp: validate_path_def path_rule_ok_def split: if_splits sum.splits)

lemma validate_relation_None:
  assumes "validate_relation r = None" and "a_path (r_assert r) = []"
  shows "relation_rule_ok r"
  using assms by (auto simp: validate_relation_def relation_rule_ok_def Let_def split: if_splits)

lemma validate_typed:
  assumes "validate r = None" and "rule_id_ok (r_id r)"
  shows "rule_typed r"
proof -
  have basics: "kind_selectable (m_kind (r_match r))" "valid_level (r_level r)"
    and xor: "(a_path (r_assert r) \<noteq> []) \<noteq> (a_relation (r_assert r) \<noteq> [])"
    and inner: "(if a_relation (r_assert r) \<noteq> [] then validate_relation r else validate_path r) = None"
    using assms(1) by (simp_all add: validate_def Let_def split: if_splits option.splits)
  show ?thesis
  proof (cases "a_relation (r_assert r) = []")
    case True
    with inner validate_path_None obtain segs where "path_rule_ok r segs" by auto
    with assms(2) basics show ?thesis by (rule typed_path)
  next
    case False
    with inner xor validate_relation_None have "relation_rule_ok r" by simp
    with assms(2) basics show ?thesis by (rule typed_relation)
  qed
qed

lemma rule_typed_message [simp]: "rule_typed (r\<lparr>r_message := m\<rparr>) = rule_typed r"
proof -
  have "rule_typed (r\<lparr>r_message := m\<rparr>)" if "rule_typed r" for r :: rule and m
    using that by (auto elim!: rule_typed.cases intro: rule_typed.intros simp: path_rule_ok_def relation_rule_ok_def)
  from this [of r m] this [of "r\<lparr>r_message := m\<rparr>" "r_message r"] show ?thesis by auto
qed

definition loaded_ok :: "unicode_tables \<Rightarrow> (string, string) gomap \<times> rule list \<Rightarrow> bool" where
  "loaded_ok u st \<longleftrightarrow> distinct (map r_id (snd st)) \<and> set (mkeys (fst st)) = r_id ` set (snd st) \<and>
     (\<forall>r\<in>set (snd st). rule_typed r \<and> (\<exists>m. r_message r = line u m))"

lemma load_rules_ok:
  "load_rules u src i rules st = (Inr st' :: 'y load_error + _) \<Longrightarrow> loaded_ok u st \<Longrightarrow> loaded_ok u st'"
proof (induction u src i rules st arbitrary: st' rule: load_rules.induct)
  case (2 u src i r rs seen out)
  let ?r = "r\<lparr>r_message := line u (r_message r)\<rparr>"
  from 2(2) have *: "r_id r \<noteq> []" "rule_id_ok (r_id r)" "mget seen (r_id r) = None" "validate r = None"
    "load_rules u src (i + 1) rs (mput (r_id r) src seen, out @ [?r]) = (Inr st' :: 'y load_error + _)"
    by (auto split: if_splits option.splits)
  then have "r_id r \<notin> r_id ` set out" "rule_typed ?r"
    using 2(3) validate_typed by (auto simp: loaded_ok_def map_of_eq_None_iff)
  with 2(3) have "loaded_ok u (mput (r_id r) src seen, out @ [?r])"
    by (auto simp: loaded_ok_def dom_update)
  from 2(1) [OF *(1) _ *(3) *(4) *(5) this] *(2) show ?case by simp
qed simp

lemma load_docs_ok:
  "load_docs u decode docs st = Inr st' \<Longrightarrow> loaded_ok u st \<Longrightarrow> loaded_ok u st'"
  by (induction docs arbitrary: st) (auto dest: load_rules_ok split: sum.splits)

lemma load_ok:
  assumes "load u decode docs = Inr rules"
  shows "distinct (map r_id rules)" and "\<forall>r\<in>set rules. rule_typed r \<and> (\<exists>m. r_message r = line u m)"
proof -
  obtain st where "load_docs u decode docs ([], []) = Inr st" "rules = snd st"
    using assms by (auto simp: load_def split: sum.splits)
  moreover have "loaded_ok u ([], [])" by (simp add: loaded_ok_def)
  ultimately have "loaded_ok u st" by (metis load_docs_ok)
  with \<open>rules = snd st\<close> show "distinct (map r_id rules)"
    and "\<forall>r\<in>set rules. rule_typed r \<and> (\<exists>m. r_message r = line u m)"
    by (simp_all add: loaded_ok_def)
qed

section \<open>Loaded rules do not get stuck\<close>

text \<open>The one place a value has to be readable for an operator to judge it.\<close>

definition readable :: "number_lib \<Rightarrow> string \<Rightarrow> slot \<Rightarrow> string list \<Rightarrow> bool" where
  "readable n op s values \<longleftrightarrow> s_present s \<and>
    (case string_of n (s_value s) of
       None \<Rightarrow> False
     | Some got \<Rightarrow>
       (op = OpMatches \<or> op = OpNotMatches \<longrightarrow> length got \<le> max_match_len) \<and>
       (op = OpGt \<or> op = OpGte \<or> op = OpLt \<or> op = OpLte \<longrightarrow> compare_numeric n got (hd values) \<noteq> None))"

lemma check_op_skip:
  assumes "valid_op op" and "validate_arity op vs = None"
  shows "snd (check_op n op s vs) \<longleftrightarrow> op \<noteq> OpExists \<and> op \<noteq> OpNotExists \<and> \<not> readable n op s vs"
proof -
  have "op \<in> set [OpExists, OpNotExists, OpIn, OpNotIn, OpMatches, OpNotMatches, OpGt, OpGte, OpLt, OpLte]"
    using assms(1) by (simp only: valid_op_def)
  then show ?thesis
    using assms(2)
    by (simp, elim disjE; clarsimp simp: check_op_def readable_def validate_arity_def length_Suc_conv
        split: option.split if_splits)
qed

text \<open>
  C11. The loader is a type check for the evaluator. Whatever the decoder returns, the rules of a
  successful load have different, safe identifiers and sanitized messages; \<open>Evaluate\<close> never meets a
  path that does not parse, a relation it does not know, an operator without its values or an
  unknown one: an operator skips a slot only because the slot holds nothing it can read.
\<close>

theorem load_sound:
  assumes "load u decode docs = Inr rules"
  shows "distinct (map r_id rules) \<and>
    (\<forall>r\<in>set rules. rule_id_ok (r_id r) \<and> (\<exists>m. r_message r = line u m) \<and>
      (if a_relation (r_assert r) \<noteq> []
       then relation_valid_for_kind (a_relation (r_assert r)) (m_kind (r_match r))
       else (\<exists>segs. rule_segments r = Inr segs \<and> segs \<noteq> []) \<and>
         (\<forall>n s. snd (check_op n (a_op (r_assert r)) s (a_values (r_assert r))) \<longleftrightarrow>
            a_op (r_assert r) \<noteq> OpExists \<and> a_op (r_assert r) \<noteq> OpNotExists \<and>
            \<not> readable n (a_op (r_assert r)) s (a_values (r_assert r)))))"
proof (intro conjI ballI)
  show "distinct (map r_id rules)" using load_ok(1) [OF assms] .
next
  fix r
  assume "r \<in> set rules"
  then have typed: "rule_typed r" and msg: "\<exists>m. r_message r = line u m" using load_ok(2) [OF assms] by auto
  show "rule_id_ok (r_id r)" using typed by (auto elim: rule_typed.cases)
  show "\<exists>m. r_message r = line u m" by (rule msg)
  show "if a_relation (r_assert r) \<noteq> []
       then relation_valid_for_kind (a_relation (r_assert r)) (m_kind (r_match r))
       else (\<exists>segs. rule_segments r = Inr segs \<and> segs \<noteq> []) \<and>
         (\<forall>n s. snd (check_op n (a_op (r_assert r)) s (a_values (r_assert r))) \<longleftrightarrow>
            a_op (r_assert r) \<noteq> OpExists \<and> a_op (r_assert r) \<noteq> OpNotExists \<and>
            \<not> readable n (a_op (r_assert r)) s (a_values (r_assert r)))"
    using typed
  proof (cases rule: rule_typed.cases)
    case (typed_path segs)
    then have "rule_segments r = Inr segs" "segs \<noteq> []"
      by (auto simp: path_rule_ok_def rule_segments_def parse_path_def [of "[]"] dest: parse_path_nonempty)
    with typed_path check_op_skip [of "a_op (r_assert r)" "a_values (r_assert r)"]
    show ?thesis by (simp add: path_rule_ok_def)
  next
    case typed_relation
    then show ?thesis by (auto simp: relation_rule_ok_def valid_relation_def relation_kinds_def split: if_splits)
  qed
qed

section \<open>The contents of a ConfigMap stay out of a report\<close>

text \<open>The object with the fields that hold a ConfigMap's contents removed.\<close>

definition hide_contents :: "uobj \<Rightarrow> uobj" where
  "hide_contents obj = obj\<lparr>u_object := filter (\<lambda>e. fst e \<noteq> ''data'' \<and> fst e \<noteq> ''binaryData'') (u_object obj)\<rparr>"

definition hide_config_maps :: "policy_inputs \<Rightarrow> policy_inputs" where
  "hide_config_maps inp = inp\<lparr>i_objects := map (\<lambda>(k, os). (k,
     if k = ''ConfigMap'' then map (map_option hide_contents) os else os)) (i_objects inp)\<rparr>"

lemma mget_hidden:
  "k \<noteq> ''data'' \<Longrightarrow> k \<noteq> ''binaryData'' \<Longrightarrow>
   mget (filter (\<lambda>e. fst e \<noteq> ''data'' \<and> fst e \<noteq> ''binaryData'') m) k = mget m k"
  by (induction m) auto

lemma slots_of_hidden:
  assumes "segs \<noteq> []" and "\<not> reads_config_map_contents segs"
  shows "slots_of (hide_contents obj) segs = slots_of obj segs"
proof -
  obtain g gs where segs: "segs = g # gs" using assms(1) by (cases segs) auto
  with assms(2) have "successors g (present (JObj (u_object (hide_contents obj)))) =
      successors g (present (JObj (u_object obj)))"
    by (simp add: successors_def hide_contents_def mget_hidden reads_config_map_contents_def)
  with segs show ?thesis by (simp add: slots_of_def)
qed

lemma violation_for_hidden [simp]: "violation_for r (hide_contents obj) = violation_for r obj"
  by (simp add: violation_for_def hide_contents_def fun_eq_iff)

lemma policy_matches_hidden [simp]: "policy_matches m (hide_contents obj) idx = policy_matches m obj idx"
  by (simp add: policy_matches_def hide_contents_def)

lemma check_hidden:
  assumes "rule_typed r" and "m_kind (r_match r) = ''ConfigMap''" and "rule_segments r = Inr segs"
  shows "check u n r segs (hide_contents obj) inp = check u n r segs obj inp"
  using assms(1)
proof (cases rule: rule_typed.cases)
  case (typed_path segs')
  then have "segs' = segs" using assms(3)
    by (auto simp: path_rule_ok_def rule_segments_def parse_path_def [of "[]"] split: if_splits)
  with typed_path assms(2) have "segs \<noteq> []" "\<not> reads_config_map_contents segs"
    by (auto simp: path_rule_ok_def dest: parse_path_nonempty)
  then have "slots_of (hide_contents obj) segs = slots_of obj segs" by (rule slots_of_hidden)
  with typed_path show ?thesis by (simp add: check_slots path_rule_ok_def split: option.split)
next
  case typed_relation
  with assms(2) show ?thesis
    by (auto simp: relation_rule_ok_def relation_valid_for_kind_def relation_kinds_def mget_zero_def split: if_splits)
qed

lemma mget_zero_map_key:
  "mget_zero [] (map (\<lambda>(k, vs). (k, if k = c then map f vs else vs)) m) k =
    (if k = c then map f (mget_zero [] m k) else mget_zero [] m k)"
  by (simp add: mget_zero_def mget_map_snd [of "\<lambda>k vs. if k = c then map f vs else vs"] split: option.split)

lemma map_filter_map: "List.map_filter f (map g xs) = List.map_filter (\<lambda>x. f (g x)) xs"
  by (induction xs) (auto split: option.split)

lemma hide_config_maps_simps:
  "i_unreadable (hide_config_maps inp) = i_unreadable inp"
  "i_namespaces (hide_config_maps inp) = i_namespaces inp"
  "mget_zero [] (i_objects (hide_config_maps inp)) k =
    (if k = ''ConfigMap'' then map (map_option hide_contents) (mget_zero [] (i_objects inp) k)
     else mget_zero [] (i_objects inp) k)"
  by (simp_all add: hide_config_maps_def mget_zero_map_key)

lemma relation_holds_hidden [simp]: "relation_holds rel obj (hide_config_maps inp) = relation_holds rel obj inp"
  by (simp add: relation_holds_def hide_config_maps_def)

lemma check_hidden_inputs [simp]: "check u n r segs obj (hide_config_maps inp) = check u n r segs obj inp"
  by (simp add: check_slots)

lemma object_violation_hidden [simp]:
  "object_violation u n (hide_config_maps inp) r segs = object_violation u n inp r segs"
  by (simp add: fun_eq_iff object_violation_def hide_config_maps_simps split: option.split)

lemma unreadable_hidden [simp]: "unreadable_for r (hide_config_maps inp) = unreadable_for r inp"
  by (simp add: unreadable_for_def is_unreadable_def hide_config_maps_simps)

lemma rule_violations_hidden:
  assumes "rule_typed r"
  shows "rule_violations u n r (hide_config_maps inp) = rule_violations u n r inp"
proof (cases "m_kind (r_match r) = ''ConfigMap''")
  case True
  have "object_violation u n inp r segs (map_option hide_contents o') = object_violation u n inp r segs o'"
    if "rule_segments r = Inr segs" for segs o'
    using check_hidden [OF assms True that] by (cases o') (simp_all add: object_violation_def)
  with True show ?thesis
    by (auto simp: rule_violations_def hide_config_maps_simps map_filter_map split: sum.split)
next
  case False
  then show ?thesis by (simp add: rule_violations_def hide_config_maps_simps split: sum.split)
qed

text \<open>
  C7. What a ConfigMap holds never reaches a report: evaluating the rules of a successful load gives
  the same violations, evidence included, after \<open>data\<close> and \<open>binaryData\<close> have been removed from every
  ConfigMap. No rule, however its path is spelled, can quote or depend on them.
\<close>

theorem config_map_contents_unread:
  assumes "load u decode docs = Inr rules"
  shows "evaluate u n rules (hide_config_maps inp) = evaluate u n rules inp"
proof -
  have "\<forall>r\<in>set rules. rule_typed r" using load_ok(2) [OF assms] by blast
  then have "map (\<lambda>r. rule_violations u n r (hide_config_maps inp)) rules = map (\<lambda>r. rule_violations u n r inp) rules"
    by (intro map_cong refl rule_violations_hidden) blast
  moreover have "map (\<lambda>r. rule_unevaluated r (hide_config_maps inp)) rules = map (\<lambda>r. rule_unevaluated r inp) rules"
    by (simp add: rule_unevaluated_def)
  ultimately show ?thesis by (simp only: evaluate_def)
qed

section \<open>Instances\<close>

definition name_rule :: rule where
  "name_rule = \<lparr>r_id = ''cm-name'',
     r_match = \<lparr>m_kind = ''ConfigMap'', m_namespaces = [], m_labels = [], m_ns_labels = []\<rparr>,
     r_assert = \<lparr>a_path = ''metadata.labels'' @ open_quote @ ''app/name'' @ close_quote, a_op = OpIn,
       a_values = [''shop''], a_relation = []\<rparr>,
     r_level = LevelWarning, r_message = ''label it''\<rparr>"

definition plain_numbers :: number_lib where
  "plain_numbers = \<lparr>nl_format_float = (\<lambda>_. []), nl_parse_float = (\<lambda>_. None), nl_parse_quantity = (\<lambda>_. None)\<rparr>"

definition stray_map :: uobj where
  "stray_map = \<lparr>u_object = [(''data'', JObj [(''password'', JStr ''hunter2'')]),
       (''metadata'', JObj [(''labels'', JObj [(''app/name'', JStr ''blog'')])])],
     u_namespace = ''web'', u_name = ''settings'', u_kind = ''ConfigMap'', u_labels = [],
     u_nested_field = (\<lambda>_. Missing), u_nested_string = (\<lambda>_. Missing), u_nested_string_map = (\<lambda>_. Missing)\<rparr>"

definition one_map :: "(string, uobj option list) gomap" where
  "one_map = [(''ConfigMap'', [None, Some stray_map])]"

definition name_report :: "violation list" where
  "name_report = [\<lparr>v_rule = ''cm-name'', v_level = LevelWarning, v_kind = ''ConfigMap'', v_namespace = ''web'',
     v_name = ''settings'', v_message = ''label it'', v_evidence = ''blog''\<rparr>]"

lemma name_rule_segments: "rule_segments name_rule = Inr [seg ''metadata'' False, seg ''labels'' False, seg ''app/name'' False]"
  by code_simp

lemma name_rule_valid: "validate name_rule = None"
  by code_simp

lemma name_rule_line: "line small_tables ''label it'' = ''label it''" "line small_tables ''blog'' = ''blog''"
  by (rule line_plain [OF small_tables_ascii]; simp add: plain_line_def MaxLine_def)+

lemma load_name_rule:
  "load small_tables (\<lambda>_. Inr [name_rule] :: unit + rule list) [\<lparr>d_source = ''p.yaml'', d_data = []\<rparr>] =
   Inr [name_rule]"
proof -
  have "r_message name_rule = ''label it''" "rule_id_ok (r_id name_rule)" "r_id name_rule \<noteq> []"
    by (simp_all add: name_rule_def rule_id_ok_def id_char_def)
  then show ?thesis by (simp add: load_def name_rule_valid name_rule_line)
qed

lemma stray_map_slots:
  "slots_of stray_map [seg ''metadata'' False, seg ''labels'' False, seg ''app/name'' False] = [present (JStr ''blog'')]"
  by (simp add: slots_of_def successors_def stray_map_def)

lemma evidence_plain:
  assumes "ascii_letters u" and "string_of n v = Some s" and "plain_line s" and "length s \<le> evidence_limit"
  shows "evidence u n (present v) = s"
proof -
  have "ascii s" using assms(3) by (auto simp: plain_line_def ascii_def list_all_iff)
  with assms line_plain [OF assms(1,3)] show ?thesis
    by (simp add: evidence_def go_runes_ascii encode_ascii Let_def)
qed

lemma blog_evidence: "evidence small_tables plain_numbers (present (JStr ''blog'')) = ''blog''"
  by (rule evidence_plain [OF small_tables_ascii])
    (simp_all add: string_of_def plain_line_def MaxLine_def evidence_limit_def)

lemma name_report_eq: "name_report = [violation_for name_rule stray_map ''blog'']"
  by (simp add: name_report_def violation_for_def name_rule_def stray_map_def)

lemma stray_map_violates: "violates plain_numbers name_rule (present (JStr ''blog''))"
  by (simp add: violates_def check_op_def string_of_def name_rule_def)

lemma evaluate_name_rule:
  "evaluate small_tables plain_numbers [name_rule] (inputs_from one_map []) = (name_report, [])"
proof -
  let ?inp = "inputs_from one_map []"
  have rel: "a_relation (r_assert name_rule) = []" and kind: "m_kind (r_match name_rule) = ''ConfigMap''"
    by (simp_all add: name_rule_def)
  have "check small_tables plain_numbers name_rule
      [seg ''metadata'' False, seg ''labels'' False, seg ''app/name'' False] stray_map ?inp =
      Some (violation_for name_rule stray_map ''blog'')"
    by (simp add: check_slots rel stray_map_slots stray_map_violates blog_evidence)
  moreover have "policy_matches (r_match name_rule) stray_map idx" for idx
    by (simp add: policy_matches_def name_rule_def)
  moreover have "unreadable_for name_rule ?inp = []"
    by (simp add: unreadable_for_def is_unreadable_def inputs_from_def mget_zero_def name_rule_def)
  moreover have "mget_zero [] (i_objects ?inp) ''ConfigMap'' = [None, Some stray_map]"
    by (simp add: inputs_from_def mget_zero_def one_map_def)
  ultimately show ?thesis
    by (simp add: evaluate_def rule_violations_def rule_unevaluated_def name_rule_segments kind
        object_violation_def name_report_eq)
qed

theorem load_sound_witness:
  "(\<exists>segs. rule_segments name_rule = Inr segs \<and> segs \<noteq> []) \<and> rule_id_ok (r_id name_rule)"
  using load_sound [OF load_name_rule] by (simp add: name_rule_def)

theorem config_map_contents_unread_witness:
  "evaluate small_tables plain_numbers [name_rule] (hide_config_maps (inputs_from one_map [])) = (name_report, [])"
  unfolding config_map_contents_unread [OF load_name_rule] by (rule evaluate_name_rule)

theorem evaluate_rule_witness:
  "filter (\<lambda>x. ne_rule x = ''cm-name'') (snd (evaluate small_tables plain_numbers [name_rule]
     (inputs_from one_map [(''ConfigMap'', True)]))) =
   [\<lparr>ne_rule = ''cm-name'', ne_level = LevelWarning, ne_kind = ''ConfigMap'', ne_reason = unreadable_reason\<rparr>]"
  using evaluate_rule [of "[name_rule]" name_rule small_tables plain_numbers "inputs_from one_map [(''ConfigMap'', True)]"]
  by (simp add: unreadable_for_def is_unreadable_def inputs_from_def name_rule_def mget_zero_def unreadable_reason_def)

theorem read_plan_enough_witness:
  "evaluate small_tables plain_numbers [name_rule] (inputs_from ((''Pod'', [None]) # one_map) [(''Node'', True)]) =
   (name_report, [])"
proof -
  have "set (read_plan [name_rule]) = {''ConfigMap''}" by (simp add: set_read_plan name_rule_def)
  then have "evaluate small_tables plain_numbers [name_rule] (inputs_from ((''Pod'', [None]) # one_map) [(''Node'', True)]) =
    evaluate small_tables plain_numbers [name_rule] (inputs_from one_map [])"
    by (intro read_plan_enough) (simp_all add: mget_zero_def)
  then show ?thesis by (simp only: evaluate_name_rule)
qed

end
