(* ===== verification/Remediate.thy ===== *)
theory Remediate
  imports Inventory
begin

text \<open>
  \<open>internal/remediate/remediate.go\<close>: planning safe fixes and applying them with one guarded write. What
  the API server answers to the requests of one try is an argument; \<open>retry.RetryOnConflict\<close> runs the
  closure again only after a conflict, as often as the list of answers allows. The parts of a pod
  template the code only compares are of an arbitrary type, and the comparison of
  \<open>apiequality.Semantic\<close> is a parameter.
\<close>

section \<open>Objects\<close>

record 'x tmpl_container =
  tc_name :: string
  tc_image :: string
  tc_rest :: 'x

record 'x template =
  tp_labels :: "(string, string) gomap"
  tp_annotations :: "(string, string) gomap"
  tp_containers :: "'x tmpl_container list"
  tp_init :: "'x tmpl_container list"
  tp_rest :: 'x

record 'x revision_set =
  rv_namespace :: string
  rv_owners :: "owner_reference list"
  rv_annotations :: "(string, string) gomap"
  rv_template :: "'x template"

record 'x deploy =
  dp_namespace :: string
  dp_name :: string
  dp_annotations :: "(string, string) gomap"
  dp_template :: "'x template"

record node =
  nd_name :: string
  nd_unschedulable :: bool
  nd_taint_effects :: "string list"

text \<open>Semantic equality, on the types it is used at.\<close>

record 'x semantic =
  eq_template :: "'x template \<Rightarrow> 'x template \<Rightarrow> bool"
  eq_map :: "(string, string) gomap \<Rightarrow> (string, string) gomap \<Rightarrow> bool"
  eq_container :: "'x tmpl_container \<Rightarrow> 'x tmpl_container \<Rightarrow> bool"
  eq_pod_rest :: "'x \<Rightarrow> 'x \<Rightarrow> bool"

section \<open>Actions\<close>

definition revision_anno :: string where
  "revision_anno = ''deployment.kubernetes.io/revision''"

definition protected_namespaces :: "string list" where
  "protected_namespaces = [''kube-system'', ''kube-public'', ''kube-node-lease'']"

definition protected :: "string \<Rightarrow> bool" where
  "protected ns \<longleftrightarrow> ns \<in> set protected_namespaces"

record change =
  ch_field :: string
  ch_from :: string
  ch_to :: string

record action =
  ac_kind :: string
  ac_namespace :: string
  ac_name :: string
  ac_target :: string
  ac_summary :: string
  ac_reason :: string
  ac_kubectl :: string
  ac_changes :: "change list"
  ac_current :: int
  ac_target_revision :: int

definition has_no_execute_taint :: "node \<Rightarrow> bool" where
  "has_no_execute_taint n \<longleftrightarrow> list_ex (\<lambda>e. e = ''NoExecute'') (nd_taint_effects n)"

definition has_image_pull_finding :: "workload \<Rightarrow> bool" where
  "has_image_pull_finding w \<longleftrightarrow>
     list_ex (\<lambda>f. f_issue f = ''ImagePullBackOff'' \<or> f_issue f = ''ErrImagePull'') (w_findings w)"

definition owned_by :: "'x revision_set \<Rightarrow> string \<Rightarrow> bool" where
  "owned_by rs deployment \<longleftrightarrow> list_ex (\<lambda>o'. or_kind o' = ''Deployment'' \<and> or_name o' = deployment) (rv_owners rs)"

definition rev_from_annotations :: "(string, string) gomap \<Rightarrow> int" where
  "rev_from_annotations anno =
    (case mget anno revision_anno of None \<Rightarrow> 0
     | Some v \<Rightarrow> (case atoi v of Some n \<Rightarrow> n | None \<Rightarrow> 0))"

definition revision_of :: "'x revision_set \<Rightarrow> int" where
  "revision_of rs = rev_from_annotations (rv_annotations rs)"

definition strip_hash :: "'x template \<Rightarrow> 'x template" where
  "strip_hash t = t\<lparr>tp_labels := mdel ''pod-template-hash'' (tp_labels t)\<rparr>"

definition templates_equal :: "'x semantic \<Rightarrow> 'x template \<Rightarrow> 'x template \<Rightarrow> bool" where
  "templates_equal eq a b = eq_template eq (strip_hash a) (strip_hash b)"

section \<open>Choosing the revisions\<close>

text \<open>The pointer that keeps the highest revision seen, the first of several equal ones.\<close>

definition better :: "'x revision_set \<Rightarrow> 'x revision_set option \<Rightarrow> 'x revision_set option" where
  "better rs best = (case best of None \<Rightarrow> Some rs | Some b \<Rightarrow> if revision_of rs > revision_of b then Some rs else best)"

definition plan_target :: "'x semantic \<Rightarrow> string \<Rightarrow> string \<Rightarrow> 'x revision_set list \<Rightarrow>
    'x revision_set option \<times> 'x revision_set option" where
  "plan_target eq ns deployment sets =
    (let cur = fold (\<lambda>rs cur. if rv_namespace rs \<noteq> ns \<or> \<not> owned_by rs deployment \<or> revision_of rs = 0 then cur
                 else better rs cur) sets None
     in case cur of
       None \<Rightarrow> (None, None)
     | Some c \<Rightarrow>
        (cur, fold (\<lambda>rs target.
           if rv_namespace rs \<noteq> ns \<or> \<not> owned_by rs deployment then target
           else if revision_of rs = 0 \<or> revision_of rs \<ge> revision_of c then target
           else if templates_equal eq (rv_template rs) (rv_template c) then target
           else better rs target) sets None))"

definition pick_target :: "'x semantic \<Rightarrow> 'x deploy \<Rightarrow> 'x revision_set list \<Rightarrow> 'x revision_set option" where
  "pick_target eq dep sets =
    (let cur_rev = rev_from_annotations (dp_annotations dep) in
     if cur_rev = 0 then None
     else fold (\<lambda>rs best.
        if rv_namespace rs \<noteq> dp_namespace dep \<or> \<not> owned_by rs (dp_name dep) then best
        else if revision_of rs \<ge> cur_rev then best
        else if templates_equal eq (rv_template rs) (dp_template dep) then best
        else better rs best) sets None)"

section \<open>The preview\<close>

definition without_images :: "'x tmpl_container list \<Rightarrow> 'x tmpl_container list" where
  "without_images cs = map (\<lambda>c. c\<lparr>tc_image := []\<rparr>) cs"

definition differing :: "'x semantic \<Rightarrow> 'x tmpl_container list \<Rightarrow> 'x tmpl_container list \<Rightarrow> nat" where
  "differing eq as bs = length (filter (\<lambda>(a, b). \<not> eq_container eq a b) (zip as bs))"

definition other_change_count :: "'x semantic \<Rightarrow> 'x template \<Rightarrow> 'x template \<Rightarrow> nat" where
  "other_change_count eq a b =
    (let ac = strip_hash a; bc = strip_hash b;
         as = without_images (tp_containers ac); bs = without_images (tp_containers bc)
     in (if eq_map eq (tp_labels ac) (tp_labels bc) then 0 else 1) +
        (if eq_map eq (tp_annotations ac) (tp_annotations bc) then 0 else 1) +
        (if length as \<noteq> length bs \<or> length (tp_init ac) \<noteq> length (tp_init bc) then 1
         else differing eq as bs + differing eq (tp_init ac) (tp_init bc)) +
        (if eq_pod_rest eq (tp_rest ac) (tp_rest bc) then 0 else 1))"

definition target_images :: "'x template \<Rightarrow> (string, string) gomap" where
  "target_images t = fold (\<lambda>c. mput (tc_name c) (tc_image c)) (tp_containers t) []"

definition template_changes :: "'x semantic \<Rightarrow> 'x revision_set \<Rightarrow> 'x revision_set \<Rightarrow> change list" where
  "template_changes eq cur target =
    (let images = target_images (rv_template target);
         n = other_change_count eq (rv_template cur) (rv_template target)
     in [\<lparr>ch_field = ''revision'', ch_from = itoa (revision_of cur), ch_to = itoa (revision_of target)\<rparr>] @
        List.map_filter (\<lambda>c. case mget images (tc_name c) of
            None \<Rightarrow> None
          | Some img \<Rightarrow> if img \<noteq> tc_image c
              then Some \<lparr>ch_field = ''image ('' @ tc_name c @ '')'', ch_from = tc_image c, ch_to = img\<rparr>
              else None) (tp_containers (rv_template cur)) @
        (if n > 0 then [\<lparr>ch_field = itoa (int n) @ '' other template field'' @ (if n > 1 then ''s'' else []) @ '' changed'',
            ch_from = [], ch_to = []\<rparr>] else []))"

section \<open>Plan\<close>

definition undo_action :: "'x semantic \<Rightarrow> string \<Rightarrow> string \<Rightarrow> 'x revision_set \<Rightarrow> 'x revision_set \<Rightarrow> action" where
  "undo_action eq ns nm cur target = \<lparr>ac_kind = ''RolloutUndo'', ac_namespace = ns, ac_name = nm,
     ac_target = ns @ ''/'' @ nm @ '' (Deployment)'', ac_summary = ''roll back to the previous revision'',
     ac_reason = ''newest rollout cannot pull its image; a prior revision ('' @ itoa (revision_of target) @ '') exists'',
     ac_kubectl = ''kubectl -n '' @ ns @ '' rollout undo deployment/'' @ nm,
     ac_changes = template_changes eq cur target, ac_current = revision_of cur,
     ac_target_revision = revision_of target\<rparr>"

definition plan_workload :: "'x semantic \<Rightarrow> 'x revision_set list \<Rightarrow> workload \<Rightarrow> action option" where
  "plan_workload eq sets w =
    (if w_kind w \<noteq> ''Deployment'' \<or> protected (w_namespace w) then None
     else if \<not> has_image_pull_finding w then None
     else if w_ready w \<ge> w_desired w then None
     else case plan_target eq (w_namespace w) (w_name w) sets of
       (Some cur, Some target) \<Rightarrow> Some (undo_action eq (w_namespace w) (w_name w) cur target)
     | _ \<Rightarrow> None)"

definition plan_node :: "node \<Rightarrow> action option" where
  "plan_node n =
    (if \<not> nd_unschedulable n \<or> has_no_execute_taint n then None
     else Some \<lparr>ac_kind = ''Uncordon'', ac_namespace = [], ac_name = nd_name n, ac_target = ''node/'' @ nd_name n,
       ac_summary = ''uncordon the node (make it schedulable)'', ac_reason = ''node is cordoned (SchedulingDisabled)'',
       ac_kubectl = ''kubectl uncordon '' @ nd_name n,
       ac_changes = [\<lparr>ch_field = ''spec.unschedulable'', ch_from = ''true'', ch_to = ''false''\<rparr>],
       ac_current = 0, ac_target_revision = 0\<rparr>)"

definition plan :: "'x semantic \<Rightarrow> workload list \<Rightarrow> 'x revision_set list \<Rightarrow> node list \<Rightarrow> action list" where
  "plan eq workloads sets nodes =
     List.map_filter (plan_workload eq sets) workloads @ List.map_filter plan_node nodes"

section \<open>One try against the API server\<close>

datatype api_error = Conflict | Api_error string

datatype fix_error =
    Unknown_kind string
  | Protected_namespace string
  | Get_failed string api_error
  | List_failed api_error
  | Preflight_failed api_error
  | Update_failed string api_error

record fix_result =
  fr_action :: action
  fr_applied :: bool
  fr_refused :: bool
  fr_denied :: bool
  fr_detail :: string
  fr_err :: "fix_error option"

definition new_result :: "action \<Rightarrow> fix_result" where
  "new_result a = \<lparr>fr_action = a, fr_applied = False, fr_refused = False, fr_denied = False, fr_detail = [],
     fr_err = None\<rparr>"

text \<open>
  The answers to the requests of one try, in the order they are sent: the object read, the list of
  replica sets, the access review and the update.
\<close>

record 'x answers =
  an_deployment :: "api_error + 'x deploy"
  an_node :: "api_error + node"
  an_sets :: "api_error + 'x revision_set list"
  an_review :: "api_error + bool"
  an_update :: "api_error option"

datatype 'x object_write = Write_deployment "'x deploy" | Write_node node

text \<open>A try returns the result, the update it sent, and the error that leaves the closure.\<close>

type_synonym 'x attempt = "fix_result \<times> 'x object_write option \<times> api_error option"

definition no_write :: "fix_result \<Rightarrow> 'x attempt" where
  "no_write r = (r, None, None)"

definition refuse :: "action \<Rightarrow> string \<Rightarrow> 'x attempt" where
  "refuse a detail = no_write ((new_result a)\<lparr>fr_detail := detail, fr_refused := True\<rparr>)"

definition fail_with :: "action \<Rightarrow> fix_error \<Rightarrow> 'x attempt" where
  "fail_with a e = no_write ((new_result a)\<lparr>fr_err := Some e\<rparr>)"

text \<open>\<open>Preflight\<close>: the review asks for the verb update on the object the kind implies.\<close>

definition preflight :: "action \<Rightarrow> api_error + bool \<Rightarrow> fix_error + (bool \<times> string)" where
  "preflight a review =
    (if ac_kind a \<noteq> ''RolloutUndo'' \<and> ac_kind a \<noteq> ''RolloutForward'' \<and> ac_kind a \<noteq> ''Uncordon'' \<and> ac_kind a \<noteq> ''Cordon''
     then Inl (Unknown_kind (ac_kind a))
     else let on_nodes = (ac_kind a = ''Uncordon'' \<or> ac_kind a = ''Cordon'');
              resource = (if on_nodes then ''nodes'' else ''deployments'');
              ns = (if on_nodes then [] else ac_namespace a)
          in case review of
            Inl e \<Rightarrow> Inl (Preflight_failed e)
          | Inr True \<Rightarrow> Inr (True, [])
          | Inr False \<Rightarrow> Inr (False, if ns = []
              then ''you lack permission to update '' @ resource @ '' (RBAC)''
              else ''you lack permission to update '' @ resource @ '' in namespace '' @ go_quote ns @ '' (RBAC)''))"

text \<open>The end all four closures share: the preflight, the update and what is recorded about it.\<close>

definition guarded_write :: "action \<Rightarrow> 'x answers \<Rightarrow> 'x object_write \<Rightarrow> string \<Rightarrow> 'x attempt" where
  "guarded_write a an w detail =
    (case preflight a (an_review an) of
       Inl e \<Rightarrow> fail_with a e
     | Inr (allowed, reason) \<Rightarrow>
       if \<not> allowed then
         no_write ((new_result a)\<lparr>fr_denied := True, fr_detail := reason @ ''; no write attempted''\<rparr>)
       else case an_update an of
         Some e \<Rightarrow> (new_result a, Some w, Some e)
       | None \<Rightarrow> ((new_result a)\<lparr>fr_applied := True, fr_detail := detail\<rparr>, Some w, None))"

definition arrow :: string where "arrow = bytes [226, 134, 146]"

definition try_undo :: "'x semantic \<Rightarrow> action \<Rightarrow> 'x answers \<Rightarrow> 'x attempt" where
  "try_undo eq a an =
    (case an_deployment an of
       Inl e \<Rightarrow> fail_with a (Get_failed ''deployment'' e)
     | Inr dep \<Rightarrow>
       (case an_sets an of
          Inl e \<Rightarrow> fail_with a (List_failed e)
        | Inr sets \<Rightarrow>
          (case pick_target eq dep sets of
             None \<Rightarrow> refuse a ''no differing prior revision to roll back to (state changed); no write made''
           | Some target \<Rightarrow>
             let cur_rev = rev_from_annotations (dp_annotations dep); target_rev = revision_of target in
             if cur_rev \<noteq> ac_current a \<or> target_rev \<noteq> ac_target_revision a then
               refuse a (''state changed since preview (revision '' @ itoa cur_rev @
                 '' is now current and the rollback would land on '' @ itoa target_rev @ ''; previewed '' @
                 itoa (ac_current a) @ '' '' @ arrow @ '' '' @ itoa (ac_target_revision a) @ '')'' @ dash @
                 ''re-run kubeagent scan --fix; no write made'')
             else guarded_write a an
               (Write_deployment (dep\<lparr>dp_template := strip_hash (rv_template target)\<rparr>))
               (''rolled back '' @ ac_namespace a @ ''/'' @ ac_name a @ '' to revision '' @
                 itoa (revision_of target) @ '' (pod template restored)''))))"

definition try_uncordon :: "action \<Rightarrow> 'x answers \<Rightarrow> 'x attempt" where
  "try_uncordon a an =
    (case an_node an of
       Inl e \<Rightarrow> fail_with a (Get_failed ''node'' e)
     | Inr n \<Rightarrow>
       if \<not> nd_unschedulable n \<or> has_no_execute_taint n then
         refuse a ''node is no longer a safe uncordon target (already schedulable or NoExecute-tainted); no write made''
       else guarded_write a an (Write_node (n\<lparr>nd_unschedulable := False\<rparr>)) (''uncordoned node '' @ ac_name a))"

definition try_cordon :: "action \<Rightarrow> 'x answers \<Rightarrow> 'x attempt" where
  "try_cordon a an =
    (case an_node an of
       Inl e \<Rightarrow> fail_with a (Get_failed ''node'' e)
     | Inr n \<Rightarrow>
       if nd_unschedulable n then refuse a ''node is already cordoned; no write made''
       else guarded_write a an (Write_node (n\<lparr>nd_unschedulable := True\<rparr>)) (''re-cordoned node '' @ ac_name a))"

text \<open>The drift check of \<open>applyRolloutForward\<close>: the first recorded image that no longer matches.\<close>

definition image_of :: "'x deploy \<Rightarrow> string \<Rightarrow> string" where
  "image_of dep nm = (case find (\<lambda>c. tc_name c = nm) (tp_containers (dp_template dep)) of
     None \<Rightarrow> [] | Some c \<Rightarrow> tc_image c)"

fun drifted :: "'x deploy \<Rightarrow> change list \<Rightarrow> (string \<times> string \<times> string) option" where
  "drifted dep [] = None"
| "drifted dep (c # cs) =
    (if \<not> has_prefix (ch_field c) ''image ('' then drifted dep cs
     else let nm = trim_suffix (trim_prefix (ch_field c) ''image ('') '')'' in
       if image_of dep nm \<noteq> ch_to c then Some (nm, image_of dep nm, ch_to c) else drifted dep cs)"

definition try_forward :: "'x semantic \<Rightarrow> action \<Rightarrow> 'x answers \<Rightarrow> 'x attempt" where
  "try_forward eq a an =
    (case an_deployment an of
       Inl e \<Rightarrow> fail_with a (Get_failed ''deployment'' e)
     | Inr dep \<Rightarrow>
       (case an_sets an of
          Inl e \<Rightarrow> fail_with a (List_failed e)
        | Inr sets \<Rightarrow>
          (case find (\<lambda>rs. owned_by rs (ac_name a) \<and> revision_of rs = ac_target_revision a) sets of
             None \<Rightarrow> refuse a (''revision '' @ itoa (ac_target_revision a) @ '' no longer exists; no write made'')
           | Some target \<Rightarrow>
             if templates_equal eq (dp_template dep) (rv_template target) then
               refuse a ''already at the pre-fix revision; no write made''
             else case drifted dep (ac_changes a) of
               Some (nm, actual, want) \<Rightarrow>
                 refuse a (''state changed since the fix (container '' @ go_quote nm @ '' is now '' @ actual @
                   ''; the fix left it at '' @ want @ '')'' @ dash @ ''no write made'')
             | None \<Rightarrow> guarded_write a an
                 (Write_deployment (dep\<lparr>dp_template := strip_hash (rv_template target)\<rparr>))
                 (''rolled '' @ ac_namespace a @ ''/'' @ ac_name a @ '' forward to revision '' @
                   itoa (ac_target_revision a) @ '' (pre-fix pod template restored)''))))"

section \<open>Retrying on a conflict\<close>

text \<open>
  The closure runs once, and again after a conflict as long as there is another answer; the list of
  further answers is as long as the number of retries the library allows. The second component is
  the log of the updates sent, each with the error it met.
\<close>

fun on_conflict :: "('a \<Rightarrow> 'r \<times> 'w option \<times> api_error option) \<Rightarrow> 'a \<Rightarrow> 'a list \<Rightarrow>
    'r \<times> ('w \<times> api_error option) list \<times> api_error option" where
  "on_conflict f a later =
    (case f a of (r, w, e) \<Rightarrow>
      let sent = (case w of None \<Rightarrow> [] | Some x \<Rightarrow> [(x, e)]) in
      (case later of
         [] \<Rightarrow> (r, sent, e)
       | b # bs \<Rightarrow>
         if e = Some Conflict then
           (case on_conflict f b bs of (r', sent', e') \<Rightarrow> (r', sent @ sent', e'))
         else (r, sent, e)))"

definition finish :: "string \<Rightarrow> fix_result \<times> 'l \<times> api_error option \<Rightarrow> fix_result \<times> 'l" where
  "finish what = (\<lambda>(r, sent, e). case e of
     None \<Rightarrow> (r, sent) | Some err \<Rightarrow> (r\<lparr>fr_err := Some (Update_failed what err)\<rparr>, sent))"

text \<open>\<open>Apply\<close> and the four functions it calls.\<close>

definition apply_rollout_undo :: "'x semantic \<Rightarrow> action \<Rightarrow> 'x answers \<Rightarrow> 'x answers list \<Rightarrow>
    fix_result \<times> ('x object_write \<times> api_error option) list" where
  "apply_rollout_undo eq a an later =
    (if protected (ac_namespace a) then ((new_result a)\<lparr>fr_err := Some (Protected_namespace (ac_namespace a))\<rparr>, [])
     else finish ''deployment'' (on_conflict (try_undo eq a) an later))"

definition apply_uncordon :: "action \<Rightarrow> 'x answers \<Rightarrow> 'x answers list \<Rightarrow>
    fix_result \<times> ('x object_write \<times> api_error option) list" where
  "apply_uncordon a an later = finish ''node'' (on_conflict (try_uncordon a) an later)"

definition apply_rollout_forward :: "'x semantic \<Rightarrow> action \<Rightarrow> 'x answers \<Rightarrow> 'x answers list \<Rightarrow>
    fix_result \<times> ('x object_write \<times> api_error option) list" where
  "apply_rollout_forward eq a an later =
    (if protected (ac_namespace a) then ((new_result a)\<lparr>fr_err := Some (Protected_namespace (ac_namespace a))\<rparr>, [])
     else finish ''deployment'' (on_conflict (try_forward eq a) an later))"

definition apply_cordon :: "action \<Rightarrow> 'x answers \<Rightarrow> 'x answers list \<Rightarrow>
    fix_result \<times> ('x object_write \<times> api_error option) list" where
  "apply_cordon a an later = finish ''node'' (on_conflict (try_cordon a) an later)"

definition apply_action :: "'x semantic \<Rightarrow> action \<Rightarrow> 'x answers \<Rightarrow> 'x answers list \<Rightarrow>
    fix_result \<times> ('x object_write \<times> api_error option) list" where
  "apply_action eq a an later =
    (if ac_kind a = ''RolloutUndo'' then apply_rollout_undo eq a an later
     else if ac_kind a = ''Uncordon'' then apply_uncordon a an later
     else if ac_kind a = ''RolloutForward'' then apply_rollout_forward eq a an later
     else if ac_kind a = ''Cordon'' then apply_cordon a an later
     else ((new_result a)\<lparr>fr_err := Some (Unknown_kind (ac_kind a))\<rparr>, []))"

section \<open>The inverse of a fix\<close>

datatype inverse_error = No_revisions | No_inverse string

definition inverse_action :: "string \<Rightarrow> string \<Rightarrow> string \<Rightarrow> int \<Rightarrow> int \<Rightarrow> inverse_error + action" where
  "inverse_action kind ns nm from_rev to_rev =
    (if kind = ''RolloutUndo'' then
       (if from_rev = 0 \<or> to_rev = 0 then Inl No_revisions
        else Inr \<lparr>ac_kind = ''RolloutForward'', ac_namespace = ns, ac_name = nm,
          ac_target = ns @ ''/'' @ nm @ '' (Deployment)'', ac_summary = ''roll forward to the pre-fix revision'',
          ac_reason = ''undo the fix that rolled '' @ ns @ ''/'' @ nm @ '' back from revision '' @ itoa from_rev @
            '' to '' @ itoa to_rev,
          ac_kubectl = ''kubectl -n '' @ ns @ '' rollout undo deployment/'' @ nm @ '' --to-revision='' @ itoa from_rev,
          ac_changes = [\<lparr>ch_field = ''revision'', ch_from = itoa to_rev, ch_to = itoa from_rev\<rparr>],
          ac_current = to_rev, ac_target_revision = from_rev\<rparr>)
     else if kind = ''Uncordon'' then
       Inr \<lparr>ac_kind = ''Cordon'', ac_namespace = [], ac_name = nm, ac_target = ''node/'' @ nm,
         ac_summary = ''re-cordon the node (make it unschedulable)'',
         ac_reason = ''undo the fix that uncordoned node '' @ nm, ac_kubectl = ''kubectl cordon '' @ nm,
         ac_changes = [\<lparr>ch_field = ''spec.unschedulable'', ch_from = ''false'', ch_to = ''true''\<rparr>],
         ac_current = 0, ac_target_revision = 0\<rparr>
     else Inl (No_inverse kind))"

section \<open>Guards\<close>

text \<open>
  What the fixes promise about a write, for each kind: what the objects read in the same try must have
  looked like, and what is written.
\<close>

definition undo_ok :: "'x semantic \<Rightarrow> action \<Rightarrow> 'x answers \<Rightarrow> 'x object_write \<Rightarrow> bool" where
  "undo_ok eq a an w \<longleftrightarrow> (\<exists>dep sets target.
     an_deployment an = Inr dep \<and> an_sets an = Inr sets \<and> pick_target eq dep sets = Some target \<and>
     rev_from_annotations (dp_annotations dep) = ac_current a \<and> revision_of target = ac_target_revision a \<and>
     an_review an = Inr True \<and> w = Write_deployment (dep\<lparr>dp_template := strip_hash (rv_template target)\<rparr>))"

definition forward_ok :: "'x semantic \<Rightarrow> action \<Rightarrow> 'x answers \<Rightarrow> 'x object_write \<Rightarrow> bool" where
  "forward_ok eq a an w \<longleftrightarrow> (\<exists>dep sets target.
     an_deployment an = Inr dep \<and> an_sets an = Inr sets \<and> target \<in> set sets \<and> owned_by target (ac_name a) \<and>
     revision_of target = ac_target_revision a \<and> \<not> templates_equal eq (dp_template dep) (rv_template target) \<and>
     drifted dep (ac_changes a) = None \<and>
     an_review an = Inr True \<and> w = Write_deployment (dep\<lparr>dp_template := strip_hash (rv_template target)\<rparr>))"

definition uncordon_ok :: "action \<Rightarrow> 'x answers \<Rightarrow> 'x object_write \<Rightarrow> bool" where
  "uncordon_ok a an w \<longleftrightarrow> (\<exists>n. an_node an = Inr n \<and> nd_unschedulable n \<and> \<not> has_no_execute_taint n \<and>
     an_review an = Inr True \<and> w = Write_node (n\<lparr>nd_unschedulable := False\<rparr>))"

definition cordon_ok :: "action \<Rightarrow> 'x answers \<Rightarrow> 'x object_write \<Rightarrow> bool" where
  "cordon_ok a an w \<longleftrightarrow> (\<exists>n. an_node an = Inr n \<and> \<not> nd_unschedulable n \<and>
     an_review an = Inr True \<and> w = Write_node (n\<lparr>nd_unschedulable := True\<rparr>))"

text \<open>
  An attempt the retry loop may run: an update it sends is approved by what the same try read and
  reviewed, and its result says that the fix is applied exactly if that update succeeded.
\<close>

locale guarded_attempt =
  fixes attempt :: "'a \<Rightarrow> 'r \<times> 'w option \<times> api_error option"
    and applied :: "'r \<Rightarrow> bool"
    and ok :: "'a \<Rightarrow> 'w \<Rightarrow> bool"
    and answer :: "'a \<Rightarrow> api_error option"
  assumes silent: "attempt x = (r, None, e) \<Longrightarrow> e = None \<and> \<not> applied r"
    and sends: "attempt x = (r, Some w, e) \<Longrightarrow> ok x w \<and> e = answer x \<and> (applied r \<longleftrightarrow> e = None)"
begin

definition log_ok :: "'a list \<Rightarrow> ('w \<times> api_error option) list \<Rightarrow> bool" where
  "log_ok xs sent \<longleftrightarrow> list_all (\<lambda>(w, e). list_ex (\<lambda>x. ok x w \<and> e = answer x) xs) sent"

lemma attempt_cases:
  obtains (quiet) r where "attempt x = (r, None, None)" "\<not> applied r"
  | (sent) r w where "attempt x = (r, Some w, answer x)" "ok x w" "applied r \<longleftrightarrow> answer x = None"
proof (cases "attempt x")
  case (fields r w e)
  then show ?thesis using silent [of x r e] sends [of x r _ e] that by (cases w) auto
qed

lemma log_ok_cons: "log_ok xs sent \<Longrightarrow> log_ok (x # xs) sent"
  by (auto simp: log_ok_def list_all_iff list_ex_iff)

lemma retry_log:
  "on_conflict attempt x later = (r, sent, e) \<Longrightarrow>
   log_ok (x # later) sent \<and> length sent \<le> Suc (length later) \<and>
   (\<forall>u\<in>set (butlast sent). snd u = Some Conflict) \<and>
   length (filter (\<lambda>u. snd u = None) sent) = (if applied r then 1 else 0) \<and>
   (e \<noteq> None \<longrightarrow> \<not> applied r)"
proof (induction later arbitrary: x r sent e)
  case Nil
  show ?case
    by (rule attempt_cases [of x]) (use Nil in \<open>auto simp: log_ok_def\<close>)
next
  case (Cons y ys)
  show ?case
  proof (rule attempt_cases [of x])
    fix r0
    assume "attempt x = (r0, None, None)" "\<not> applied r0"
    with Cons.prems show ?thesis by (auto simp: log_ok_def)
  next
    fix r0 w
    assume at: "attempt x = (r0, Some w, answer x)" and "ok x w" and app: "applied r0 \<longleftrightarrow> answer x = None"
    show ?thesis
    proof (cases "answer x = Some Conflict")
      case True
      obtain r' sent' e' where rec: "on_conflict attempt y ys = (r', sent', e')" by (metis prod_cases3)
      with at True Cons.prems have eqs: "r = r'" "sent = (w, answer x) # sent'" "e = e'" by (simp_all add: Let_def)
      from Cons.IH [OF rec] have "log_ok (y # ys) sent'" by blast
      then have "log_ok (x # y # ys) sent'" by (rule log_ok_cons)
      with \<open>ok x w\<close> have "log_ok (x # y # ys) sent" by (simp add: log_ok_def eqs)
      with Cons.IH [OF rec] True show ?thesis by (auto simp: eqs)
    next
      case False
      with at Cons.prems have eqs: "r = r0" "sent = [(w, answer x)]" "e = answer x" by (auto simp: Let_def)
      with \<open>ok x w\<close> app show ?thesis by (auto simp: log_ok_def)
    qed
  qed
qed

end

lemma guarded_write_cases:
  "guarded_write a an w detail = (r, u, e) \<Longrightarrow>
   (u = None \<and> e = None \<and> \<not> fr_applied r) \<or>
   (u = Some w \<and> e = an_update an \<and> an_review an = Inr True \<and> (fr_applied r \<longleftrightarrow> e = None))"
  by (auto simp: guarded_write_def preflight_def fail_with_def no_write_def new_result_def Let_def
      split: if_splits sum.splits bool.splits option.splits)

lemma quiet_simps [simp]:
  "refuse a d = (r, u, e) \<longleftrightarrow> r = (new_result a)\<lparr>fr_detail := d, fr_refused := True\<rparr> \<and> u = None \<and> e = None"
  "fail_with a x = (r, u, e) \<longleftrightarrow> r = (new_result a)\<lparr>fr_err := Some x\<rparr> \<and> u = None \<and> e = None"
  "fr_applied (new_result a) = False"
  by (auto simp: refuse_def fail_with_def no_write_def new_result_def)

lemma find_SomeD: "find P xs = Some x \<Longrightarrow> x \<in> set xs \<and> P x"
  by (auto simp: find_Some_iff)

lemma guarded_attemptI:
  assumes "\<And>x r u e. attempt x = (r, u, e) \<Longrightarrow>
    (u = None \<and> e = None \<and> \<not> fr_applied r) \<or>
    (\<exists>w. u = Some w \<and> ok x w \<and> e = an_update x \<and> (fr_applied r \<longleftrightarrow> e = None))"
  shows "guarded_attempt attempt fr_applied ok an_update"
  using assms by unfold_locales fastforce+

interpretation undo: guarded_attempt "try_undo eq a" fr_applied "undo_ok eq a" an_update for eq a
proof (rule guarded_attemptI)
  fix x :: "'a answers" and r u e
  assume "try_undo eq a x = (r, u, e)"
  then show "(u = None \<and> e = None \<and> \<not> fr_applied r) \<or>
    (\<exists>w. u = Some w \<and> undo_ok eq a x w \<and> e = an_update x \<and> (fr_applied r \<longleftrightarrow> e = None))"
    by (auto simp: try_undo_def undo_ok_def Let_def split: sum.splits option.splits if_splits
        dest!: guarded_write_cases)
qed

interpretation forward: guarded_attempt "try_forward eq a" fr_applied "forward_ok eq a" an_update for eq a
proof (rule guarded_attemptI)
  fix x :: "'a answers" and r u e
  assume "try_forward eq a x = (r, u, e)"
  then show "(u = None \<and> e = None \<and> \<not> fr_applied r) \<or>
    (\<exists>w. u = Some w \<and> forward_ok eq a x w \<and> e = an_update x \<and> (fr_applied r \<longleftrightarrow> e = None))"
    by (auto simp: try_forward_def forward_ok_def Let_def split: sum.splits option.splits if_splits
        dest!: guarded_write_cases find_SomeD)
qed

interpretation uncordon: guarded_attempt "try_uncordon a" fr_applied "uncordon_ok a" an_update for a
proof (rule guarded_attemptI)
  fix x :: "'a answers" and r u e
  assume "try_uncordon a x = (r, u, e)"
  then show "(u = None \<and> e = None \<and> \<not> fr_applied r) \<or>
    (\<exists>w. u = Some w \<and> uncordon_ok a x w \<and> e = an_update x \<and> (fr_applied r \<longleftrightarrow> e = None))"
    by (auto simp: try_uncordon_def uncordon_ok_def split: sum.splits if_splits dest!: guarded_write_cases)
qed

interpretation cordon: guarded_attempt "try_cordon a" fr_applied "cordon_ok a" an_update for a
proof (rule guarded_attemptI)
  fix x :: "'a answers" and r u e
  assume "try_cordon a x = (r, u, e)"
  then show "(u = None \<and> e = None \<and> \<not> fr_applied r) \<or>
    (\<exists>w. u = Some w \<and> cordon_ok a x w \<and> e = an_update x \<and> (fr_applied r \<longleftrightarrow> e = None))"
    by (auto simp: try_cordon_def cordon_ok_def split: sum.splits if_splits dest!: guarded_write_cases)
qed

text \<open>The guard of an action of any kind.\<close>

definition approved :: "'x semantic \<Rightarrow> action \<Rightarrow> 'x answers \<Rightarrow> 'x object_write \<Rightarrow> bool" where
  "approved eq a an w \<longleftrightarrow>
    (if ac_kind a = ''RolloutUndo'' then \<not> protected (ac_namespace a) \<and> undo_ok eq a an w
     else if ac_kind a = ''Uncordon'' then uncordon_ok a an w
     else if ac_kind a = ''RolloutForward'' then \<not> protected (ac_namespace a) \<and> forward_ok eq a an w
     else ac_kind a = ''Cordon'' \<and> cordon_ok a an w)"

lemma finish_split:
  "finish what t = (res, sent) \<longleftrightarrow>
    (\<exists>r e. t = (r, sent, e) \<and> res = (case e of None \<Rightarrow> r | Some x \<Rightarrow> r\<lparr>fr_err := Some (Update_failed what x)\<rparr>))"
  by (cases t) (auto simp: finish_def split: option.splits)

definition log_fine :: "('x answers \<Rightarrow> 'x object_write \<Rightarrow> bool) \<Rightarrow> 'x answers list \<Rightarrow> fix_result \<Rightarrow>
    ('x object_write \<times> api_error option) list \<Rightarrow> bool" where
  "log_fine ok xs res sent \<longleftrightarrow>
    list_all (\<lambda>(w, e). list_ex (\<lambda>x. ok x w \<and> e = an_update x) xs) sent \<and> length sent \<le> length xs \<and>
    (\<forall>u\<in>set (butlast sent). snd u = Some Conflict) \<and>
    length (filter (\<lambda>u. snd u = None) sent) = (if fr_applied res then 1 else 0)"

lemma finish_log:
  assumes "guarded_attempt attempt fr_applied ok an_update"
    and "finish what (on_conflict attempt an later) = (res, sent)"
  shows "log_fine ok (an # later) res sent"
proof -
  obtain r e where run: "on_conflict attempt an later = (r, sent, e)"
    and res: "res = (case e of None \<Rightarrow> r | Some x \<Rightarrow> r\<lparr>fr_err := Some (Update_failed what x)\<rparr>)"
    using assms(2) by (auto simp: finish_split)
  have "fr_applied res = fr_applied r" by (simp add: res split: option.split)
  with guarded_attempt.retry_log [OF assms(1) run] show ?thesis
    by (auto simp: log_fine_def guarded_attempt.log_ok_def [OF assms(1)])
qed

lemma log_fine_mono: "log_fine ok xs res sent \<Longrightarrow> (\<And>x w. ok x w \<Longrightarrow> ok' x w) \<Longrightarrow> log_fine ok' xs res sent"
  by (fastforce simp: log_fine_def list_all_iff list_ex_iff)

lemma log_fine_empty: "log_fine ok xs ((new_result a)\<lparr>fr_err := e\<rparr>) []"
  by (simp add: log_fine_def)

lemma apply_log:
  assumes "apply_action eq a an later = (res, sent)"
  shows "log_fine (approved eq a) (an # later) res sent"
proof -
  consider "ac_kind a = ''RolloutUndo''" | "ac_kind a = ''Uncordon''" | "ac_kind a = ''RolloutForward''"
    | "ac_kind a = ''Cordon''"
    | "ac_kind a \<notin> {''RolloutUndo'', ''Uncordon'', ''RolloutForward'', ''Cordon''}"
    by blast
  then show ?thesis
  proof cases
    case 1
    with assms show ?thesis
      by (auto simp: apply_action_def apply_rollout_undo_def log_fine_empty approved_def split: if_splits
          intro: log_fine_mono [OF finish_log [OF undo.guarded_attempt_axioms]])
  next
    case 2
    with assms show ?thesis
      by (auto simp: apply_action_def apply_uncordon_def approved_def
          intro: log_fine_mono [OF finish_log [OF uncordon.guarded_attempt_axioms]])
  next
    case 3
    with assms show ?thesis
      by (auto simp: apply_action_def apply_rollout_forward_def log_fine_empty approved_def split: if_splits
          intro: log_fine_mono [OF finish_log [OF forward.guarded_attempt_axioms]])
  next
    case 4
    with assms show ?thesis
      by (auto simp: apply_action_def apply_cordon_def approved_def
          intro: log_fine_mono [OF finish_log [OF cordon.guarded_attempt_axioms]])
  next
    case 5
    with assms show ?thesis by (auto simp: apply_action_def log_fine_empty)
  qed
qed

text \<open>
  C3. A fix writes at most once, and only what its guards approved: every update \<open>Apply\<close> sends is the one
  allowed by the objects and the access review of the same try, never in a protected namespace; all
  but the last met a conflict; and the result says applied exactly if one update succeeded,
  however the API server answers and however often the write is retried.
\<close>

theorem apply_guarded:
  assumes "apply_action eq a an later = (res, sent)"
  shows "(\<forall>(w, e)\<in>set sent. \<exists>x\<in>set (an # later). approved eq a x w \<and> e = an_update x) \<and>
    (\<forall>u\<in>set (butlast sent). snd u = Some Conflict) \<and> length sent \<le> Suc (length later) \<and>
    length (filter (\<lambda>u. snd u = None) sent) = (if fr_applied res then 1 else 0)"
  using apply_log [OF assms] unfolding log_fine_def list_all_iff list_ex_iff by auto

section \<open>The preview is what is applied\<close>

definition keep_better :: "('x revision_set \<Rightarrow> bool) \<Rightarrow> 'x revision_set \<Rightarrow> 'x revision_set option \<Rightarrow> 'x revision_set option" where
  "keep_better P rs best = (if P rs then better rs best else best)"

lemma keep_better_zero:
  assumes "fold (keep_better (\<lambda>rs. P rs \<and> revision_of rs \<noteq> 0)) sets p = Some t" and "0 < revision_of t"
    and "p = q \<or> (case p of None \<Rightarrow> True | Some x \<Rightarrow> revision_of x < 0) \<and> (\<exists>y. q = Some y \<and> revision_of y = 0)"
  shows "fold (keep_better P) sets q = Some t"
  using assms
proof (induction sets arbitrary: p q)
  case Nil
  then show ?case by auto
next
  case (Cons rs sets)
  show ?case
    by (simp, rule Cons.IH [OF _ Cons.prems(2), of "keep_better (\<lambda>rs. P rs \<and> revision_of rs \<noteq> 0) rs p"])
      (use Cons.prems in \<open>auto simp: keep_better_def better_def split: option.splits\<close>)
qed

definition eligible :: "'x semantic \<Rightarrow> string \<Rightarrow> string \<Rightarrow> int \<Rightarrow> 'x template \<Rightarrow> 'x revision_set \<Rightarrow> bool" where
  "eligible eq ns nm current tmpl rs \<longleftrightarrow> rv_namespace rs = ns \<and> owned_by rs nm \<and> revision_of rs < current \<and>
     \<not> templates_equal eq (rv_template rs) tmpl"

lemma pick_target_eq:
  "pick_target eq dep sets =
    (if rev_from_annotations (dp_annotations dep) = 0 then None
     else fold (keep_better (eligible eq (dp_namespace dep) (dp_name dep)
       (rev_from_annotations (dp_annotations dep)) (dp_template dep))) sets None)"
proof -
  have "(\<lambda>rs best. if rv_namespace rs \<noteq> dp_namespace dep \<or> \<not> owned_by rs (dp_name dep) then best
        else if revision_of rs \<ge> rev_from_annotations (dp_annotations dep) then best
        else if templates_equal eq (rv_template rs) (dp_template dep) then best
        else better rs best) = keep_better (eligible eq (dp_namespace dep) (dp_name dep)
       (rev_from_annotations (dp_annotations dep)) (dp_template dep))"
    by (auto simp: fun_eq_iff keep_better_def eligible_def)
  then show ?thesis by (simp add: pick_target_def Let_def)
qed

lemma plan_target_eq:
  assumes "plan_target eq ns nm sets = (Some cur, t)"
  shows "t = fold (keep_better (\<lambda>rs. eligible eq ns nm (revision_of cur) (rv_template cur) rs \<and> revision_of rs \<noteq> 0)) sets None"
proof -
  have "(\<lambda>rs target.
           if rv_namespace rs \<noteq> ns \<or> \<not> owned_by rs nm then target
           else if revision_of rs = 0 \<or> revision_of rs \<ge> revision_of cur then target
           else if templates_equal eq (rv_template rs) (rv_template cur) then target
           else better rs target) =
      keep_better (\<lambda>rs. eligible eq ns nm (revision_of cur) (rv_template cur) rs \<and> revision_of rs \<noteq> 0)"
    by (auto simp: fun_eq_iff keep_better_def eligible_def)
  with assms show ?thesis by (simp add: plan_target_def Let_def split: option.splits)
qed

lemma keep_better_set:
  "fold (keep_better P) sets best = Some t \<Longrightarrow> best = Some t \<or> t \<in> set sets \<and> P t"
  by (induction sets arbitrary: best) (fastforce simp: keep_better_def better_def split: if_splits option.splits)+

lemma pick_is_plan:
  assumes plan: "plan_target eq ns nm sets = (Some cur, Some target)" and "0 < revision_of target"
    and dep: "dp_namespace dep = ns" "dp_name dep = nm" "rev_from_annotations (dp_annotations dep) = revision_of cur"
      "strip_hash (dp_template dep) = strip_hash (rv_template cur)"
  shows "pick_target eq dep sets = Some target"
proof -
  have same: "eligible eq ns nm (revision_of cur) (dp_template dep) = eligible eq ns nm (revision_of cur) (rv_template cur)"
    by (simp add: fun_eq_iff eligible_def templates_equal_def dep(4))
  have fold: "fold (keep_better (\<lambda>rs. eligible eq ns nm (revision_of cur) (rv_template cur) rs \<and> revision_of rs \<noteq> 0)) sets None = Some target"
    using plan_target_eq [OF plan] by simp
  then have "revision_of target < revision_of cur"
    using keep_better_set by (fastforce simp: eligible_def)
  moreover have "fold (keep_better (eligible eq ns nm (revision_of cur) (rv_template cur))) sets None = Some target"
    by (rule keep_better_zero [OF fold assms(2)]) simp
  ultimately show ?thesis using assms(2) by (simp add: pick_target_eq dep same)
qed

lemma preflight_kind:
  "ac_kind a = ''RolloutUndo'' \<or> ac_kind a = ''RolloutForward'' \<or> ac_kind a = ''Uncordon'' \<or> ac_kind a = ''Cordon'' \<Longrightarrow>
   preflight a (Inr True) = Inr (True, [])"
  by (auto simp: preflight_def)

lemma guarded_write_allowed:
  assumes "preflight a (Inr True) = Inr (True, [])" and "an_review an = Inr True"
  shows "guarded_write a an w d = (case an_update an of Some e \<Rightarrow> (new_result a, Some w, Some e)
     | None \<Rightarrow> ((new_result a)\<lparr>fr_applied := True, fr_detail := d\<rparr>, Some w, None))"
  using assms by (simp add: guarded_write_def)

lemma on_conflict_succeeds:
  assumes "\<And>y. y \<in> set ys \<Longrightarrow> f y = (r0, Some w, Some Conflict)" and "f x = (r, Some w, None)"
  shows "on_conflict f (hd (ys @ [x])) (tl (ys @ [x])) = (r, replicate (length ys) (w, Some Conflict) @ [(w, None)], None)"
  using assms(1)
proof (induction ys)
  case Nil
  then show ?case using assms(2) by simp
next
  case (Cons y ys)
  then show ?case by (cases ys) (auto simp: assms(2))
qed


section \<open>Undoing a fix\<close>

text \<open>The parts of a planned action that its audit record keeps, and the inverse made from them.\<close>

definition inverse_of :: "action \<Rightarrow> inverse_error + action" where
  "inverse_of a = inverse_action (ac_kind a) (ac_namespace a) (ac_name a) (ac_current a) (ac_target_revision a)"

lemma forward_writes:
  assumes b: "inverse_action ''RolloutUndo'' ns nm from_rev to_rev = Inr b" and "\<not> protected ns"
    and an: "an_deployment an = Inr dep" "an_sets an = Inr sets" "an_review an = Inr True" "an_update an = None"
    and target: "find (\<lambda>rs. owned_by rs nm \<and> revision_of rs = from_rev) sets = Some target"
    and "\<not> templates_equal eq (dp_template dep) (rv_template target)"
  shows "\<exists>res. apply_action eq b an later =
      (res, [(Write_deployment (dep\<lparr>dp_template := strip_hash (rv_template target)\<rparr>), None)]) \<and> fr_applied res"
proof -
  have ac: "ac_kind b = ''RolloutForward''" "ac_namespace b = ns" "ac_name b = nm" "ac_target_revision b = from_rev"
    "ac_changes b = [\<lparr>ch_field = ''revision'', ch_from = itoa to_rev, ch_to = itoa from_rev\<rparr>]"
    using b by (auto simp: inverse_action_def split: if_splits)
  have "drifted dep (ac_changes b) = None" by (simp add: ac has_prefix_def)
  moreover have "preflight b (Inr True) = Inr (True, [])" by (rule preflight_kind) (simp add: ac)
  ultimately obtain r where "try_forward eq b an =
      (r, Some (Write_deployment (dep\<lparr>dp_template := strip_hash (rv_template target)\<rparr>)), None)" "fr_applied r"
    using assms by (simp add: try_forward_def guarded_write_allowed ac)
  then have "on_conflict (try_forward eq b) an later =
      (r, [(Write_deployment (dep\<lparr>dp_template := strip_hash (rv_template target)\<rparr>), None)], None)"
    by (cases later) simp_all
  with \<open>fr_applied r\<close> assms(2) show ?thesis
    by (simp add: apply_action_def apply_rollout_forward_def ac finish_def)
qed

text \<open>
  C38. The drift check of a roll-forward never runs: the only actions of that kind come from \<open>Inverse\<close>,
  whose changes record no image, so whatever a third party has put into the Deployment since the
  fix is overwritten (unless it is the pre-fix template itself) instead of refused.
\<close>

theorem forward_ignores_drift:
  assumes "inverse_action ''RolloutUndo'' ns nm from_rev to_rev = Inr b" and "\<not> protected ns"
    and "an_deployment an = Inr dep" and "an_sets an = Inr sets" and "an_review an = Inr True" and "an_update an = None"
    and "find (\<lambda>rs. owned_by rs nm \<and> revision_of rs = from_rev) sets = Some target"
    and "\<not> templates_equal eq (dp_template dep) (rv_template target)"
  shows "\<exists>res. apply_action eq b an later =
      (res, [(Write_deployment (dep\<lparr>dp_template := strip_hash (rv_template target)\<rparr>), None)]) \<and> fr_applied res"
  using assms by (rule forward_writes)

lemma uncordon_writes:
  assumes "ac_kind a = ''Uncordon''" and "an_node an = Inr n" and "nd_unschedulable n" and "\<not> has_no_execute_taint n"
    and "an_review an = Inr True" and "an_update an = None"
  shows "\<exists>res. apply_action eq a an later = (res, [(Write_node (n\<lparr>nd_unschedulable := False\<rparr>), None)]) \<and> fr_applied res"
proof -
  have "preflight a (Inr True) = Inr (True, [])" by (rule preflight_kind) (simp add: assms(1))
  then obtain r where "try_uncordon a an = (r, Some (Write_node (n\<lparr>nd_unschedulable := False\<rparr>)), None)" "fr_applied r"
    using assms by (simp add: try_uncordon_def guarded_write_allowed)
  with assms(1) show ?thesis
    by (cases later) (simp_all add: apply_action_def apply_uncordon_def finish_def)
qed

lemma cordon_writes:
  assumes "ac_kind a = ''Cordon''" and "an_node an = Inr n" and "\<not> nd_unschedulable n"
    and "an_review an = Inr True" and "an_update an = None"
  shows "\<exists>res. apply_action eq a an later = (res, [(Write_node (n\<lparr>nd_unschedulable := True\<rparr>), None)]) \<and> fr_applied res"
proof -
  have "preflight a (Inr True) = Inr (True, [])" by (rule preflight_kind) (simp add: assms(1))
  then obtain r where "try_cordon a an = (r, Some (Write_node (n\<lparr>nd_unschedulable := True\<rparr>)), None)" "fr_applied r"
    using assms by (simp add: try_cordon_def guarded_write_allowed)
  with assms(1) show ?thesis
    by (cases later) (simp_all add: apply_action_def apply_cordon_def finish_def)
qed

text \<open>
  A fix and its inverse cancel out on a node: the uncordon \<open>Plan\<close> proposes for it writes the node
  back schedulable, its inverse exists, and applied to the node so written it restores exactly
  the node the scan saw.
\<close>

theorem uncordon_roundtrip:
  assumes "plan_node n = Some a"
    and "an_node an = Inr n" and "an_review an = Inr True" and "an_update an = None"
  shows "\<exists>res n' b res'. apply_action eq a an later = (res, [(Write_node n', None)]) \<and> fr_applied res \<and>
    \<not> nd_unschedulable n' \<and> inverse_of a = Inr b \<and>
    apply_action eq b (an\<lparr>an_node := Inr n'\<rparr>) later = (res', [(Write_node n, None)]) \<and> fr_applied res'"
proof -
  have n: "nd_unschedulable n" "\<not> has_no_execute_taint n" "ac_kind a = ''Uncordon''"
    using assms(1) by (auto simp: plan_node_def split: if_splits)
  let ?n' = "n\<lparr>nd_unschedulable := False\<rparr>"
  obtain res where 1: "apply_action eq a an later = (res, [(Write_node ?n', None)])" "fr_applied res"
    using uncordon_writes [OF n(3) assms(2) n(1,2) assms(3,4)] by blast
  obtain b where b: "inverse_of a = Inr b" "ac_kind b = ''Cordon''"
    by (simp add: inverse_of_def inverse_action_def n(3))
  have "?n'\<lparr>nd_unschedulable := True\<rparr> = n" using n(1) by simp
  moreover obtain res' where "apply_action eq b (an\<lparr>an_node := Inr ?n'\<rparr>) later =
      (res', [(Write_node (?n'\<lparr>nd_unschedulable := True\<rparr>), None)])" "fr_applied res'"
    using cordon_writes [OF b(2), of "an\<lparr>an_node := Inr ?n'\<rparr>" ?n'] assms(3,4) by auto
  ultimately show ?thesis using 1 b(1) by fastforce
qed

section \<open>Instances\<close>

definition plain_semantic :: "unit semantic" where
  "plain_semantic = \<lparr>eq_template = (=), eq_map = (=), eq_container = (=), eq_pod_rest = (=)\<rparr>"

definition web_template :: "string \<Rightarrow> unit template" where
  "web_template img = \<lparr>tp_labels = [], tp_annotations = [],
     tp_containers = [\<lparr>tc_name = ''web'', tc_image = img, tc_rest = ()\<rparr>], tp_init = [], tp_rest = ()\<rparr>"

definition web_set :: "string \<Rightarrow> string \<Rightarrow> unit revision_set" where
  "web_set n img = \<lparr>rv_namespace = ''shop'',
     rv_owners = [\<lparr>or_kind = ''Deployment'', or_name = ''web'', or_controller = None\<rparr>],
     rv_annotations = [(revision_anno, n)], rv_template = web_template img\<rparr>"

definition web_sets :: "unit revision_set list" where
  "web_sets = [web_set ''1'' ''web:v1'', web_set ''2'' ''web:typo'']"

definition web_deploy :: "string \<Rightarrow> string \<Rightarrow> unit deploy" where
  "web_deploy n img = \<lparr>dp_namespace = ''shop'', dp_name = ''web'', dp_annotations = [(revision_anno, n)],
     dp_template = web_template img\<rparr>"

definition broken_web :: workload where
  "broken_web = (blank_workload ''Deployment'' ''shop'' ''web'')\<lparr>w_desired := 2,
     w_findings := [blank_finding\<lparr>f_issue := ''ImagePullBackOff''\<rparr>]\<rparr>"

definition cordoned :: node where
  "cordoned = \<lparr>nd_name = ''w1'', nd_unschedulable = True, nd_taint_effects = [''NoSchedule'']\<rparr>"

definition calm :: "unit deploy \<Rightarrow> unit answers" where
  "calm dep = \<lparr>an_deployment = Inr dep, an_node = Inr cordoned, an_sets = Inr web_sets, an_review = Inr True,
     an_update = None\<rparr>"

lemma small_revisions: "rev_from_annotations [(revision_anno, ''1'')] = 1" "rev_from_annotations [(revision_anno, ''2'')] = 2"
  "rev_from_annotations [(revision_anno, ''3'')] = 3"
  by (simp_all add: rev_from_annotations_def atoi_def is_digit_def)

lemma web_plan_target:
  "plan_target plain_semantic ''shop'' ''web'' web_sets = (Some (web_set ''2'' ''web:typo''), Some (web_set ''1'' ''web:v1''))"
  by (simp add: plan_target_def web_sets_def web_set_def owned_by_def better_def revision_of_def small_revisions
      templates_equal_def plain_semantic_def web_template_def strip_hash_def Let_def)

definition web_undo :: action where
  "web_undo = undo_action plain_semantic ''shop'' ''web'' (web_set ''2'' ''web:typo'') (web_set ''1'' ''web:v1'')"

lemma web_plan: "plan_workload plain_semantic web_sets broken_web = Some web_undo"
  by (simp add: plan_workload_def broken_web_def blank_workload_def protected_def protected_namespaces_def
      has_image_pull_finding_def web_plan_target web_undo_def)


theorem forward_ignores_drift_witness:
  "\<exists>b res. inverse_of web_undo = Inr b \<and>
    apply_action plain_semantic b (calm (web_deploy ''3'' ''web:hotfix'')) [] =
      (res, [(Write_deployment (web_deploy ''3'' ''web:typo''), None)]) \<and> fr_applied res"
proof -
  obtain b where b: "inverse_of web_undo = Inr b"
    and b': "inverse_action ''RolloutUndo'' ''shop'' ''web'' 2 1 = Inr b"
    by (simp add: inverse_of_def inverse_action_def web_undo_def undo_action_def web_set_def revision_of_def small_revisions)
  have "find (\<lambda>rs. owned_by rs ''web'' \<and> revision_of rs = 2) web_sets = Some (web_set ''2'' ''web:typo'')"
    by (simp add: web_sets_def web_set_def owned_by_def revision_of_def small_revisions)
  moreover have "\<not> templates_equal plain_semantic (web_template ''web:hotfix'') (web_template ''web:typo'')"
    by (simp add: templates_equal_def plain_semantic_def web_template_def strip_hash_def)
  moreover have "(web_deploy ''3'' ''web:hotfix'')\<lparr>dp_template := strip_hash (rv_template (web_set ''2'' ''web:typo''))\<rparr> =
      web_deploy ''3'' ''web:typo''"
    by (simp add: web_deploy_def web_set_def web_template_def strip_hash_def)
  ultimately have "\<exists>res. apply_action plain_semantic b (calm (web_deploy ''3'' ''web:hotfix'')) [] =
      (res, [(Write_deployment (web_deploy ''3'' ''web:typo''), None)]) \<and> fr_applied res"
    using forward_ignores_drift [OF b', of "calm (web_deploy ''3'' ''web:hotfix'')" "web_deploy ''3'' ''web:hotfix''"
        web_sets "web_set ''2'' ''web:typo''" plain_semantic "[]"]
    by (simp add: protected_def protected_namespaces_def calm_def web_deploy_def web_set_def)
  with b show ?thesis by blast
qed

lemma cordoned_plan: "\<exists>a. plan_node cordoned = Some a"
  by (simp add: plan_node_def cordoned_def has_no_execute_taint_def)

theorem uncordon_roundtrip_witness:
  "\<exists>a b res. plan_node cordoned = Some a \<and> inverse_of a = Inr b \<and>
    apply_action plain_semantic b ((calm (web_deploy ''2'' ''v''))\<lparr>an_node := Inr (cordoned\<lparr>nd_unschedulable := False\<rparr>)\<rparr>) [] =
      (res, [(Write_node cordoned, None)])"
proof -
  obtain a where a: "plan_node cordoned = Some a" using cordoned_plan by blast
  have "an_node (calm (web_deploy ''2'' ''v'')) = Inr cordoned" "an_review (calm (web_deploy ''2'' ''v'')) = Inr True"
    "an_update (calm (web_deploy ''2'' ''v'')) = None"
    by (simp_all add: calm_def)
  from uncordon_roundtrip [OF a this, of plain_semantic "[]"] obtain res n' b res' where
    run: "apply_action plain_semantic a (calm (web_deploy ''2'' ''v'')) [] = (res, [(Write_node n', None)])"
    and b: "inverse_of a = Inr b"
      "apply_action plain_semantic b ((calm (web_deploy ''2'' ''v''))\<lparr>an_node := Inr n'\<rparr>) [] = (res', [(Write_node cordoned, None)])"
    by blast
  have "n' = cordoned\<lparr>nd_unschedulable := False\<rparr>"
    using run a by (auto simp: plan_node_def apply_action_def apply_uncordon_def finish_def try_uncordon_def calm_def
        guarded_write_def preflight_def Let_def split: if_splits)
  with a b show ?thesis by auto
qed

theorem apply_guarded_witness:
  "case apply_action plain_semantic web_undo ((calm (web_deploy ''2'' ''web:typo''))\<lparr>an_review := Inr False\<rparr>) [] of
     (res, sent) \<Rightarrow> sent = [] \<and> \<not> fr_applied res"
proof -
  let ?an = "(calm (web_deploy ''2'' ''web:typo''))\<lparr>an_review := Inr False\<rparr>"
  obtain res sent where run: "apply_action plain_semantic web_undo ?an [] = (res, sent)" by fastforce
  from apply_guarded [OF run] have "\<forall>(w, e)\<in>set sent. approved plain_semantic web_undo ?an w"
    "length (filter (\<lambda>u. snd u = None) sent) = (if fr_applied res then 1 else 0)"
    by auto
  moreover have "\<not> approved plain_semantic web_undo ?an w" for w
    by (simp add: approved_def undo_ok_def web_undo_def undo_action_def)
  ultimately have "sent = [] \<and> \<not> fr_applied res" by (cases sent) (auto split: if_splits)
  with run show ?thesis by simp
qed

end
