(* ===== verification/Rollout_Wait.thy ===== *)
theory Rollout_Wait
  imports Safetext
begin

text \<open>
  \<open>internal/rolloutwait/rolloutwait.go\<close>: polling a workload until its rollout has settled or a deadline
  has passed. The clock, the context and the API server are functions of a state of the world, which a
  request or a sleep changes; the loop is a partial function, so that its return is a theorem.
\<close>

section \<open>Targets\<close>

abbreviation KindDeployment :: string where "KindDeployment \<equiv> ''Deployment''"
abbreviation KindStatefulSet :: string where "KindStatefulSet \<equiv> ''StatefulSet''"
abbreviation KindDaemonSet :: string where "KindDaemonSet \<equiv> ''DaemonSet''"

record wait_target =
  wt_kind :: string
  wt_namespace :: string
  wt_name :: string

datatype target_error = Needs_namespace | Not_kind_name string | Unsupported_kind string

definition target_kind :: "string \<Rightarrow> string option" where
  "target_kind k =
    (if k \<in> {''deployment'', ''deployments'', ''deploy''} then Some KindDeployment
     else if k \<in> {''statefulset'', ''statefulsets'', ''sts''} then Some KindStatefulSet
     else if k \<in> {''daemonset'', ''daemonsets'', ''ds''} then Some KindDaemonSet
     else None)"

definition parse_target :: "unicode_tables \<Rightarrow> string \<Rightarrow> string \<Rightarrow> target_error + wait_target" where
  "parse_target u s ns =
    (if ns = [] then Inl Needs_namespace
     else case split_byte (CHR ''/'') s of
       [k, nm] \<Rightarrow>
         if k = [] \<or> nm = [] then Inl (Not_kind_name s)
         else (case target_kind (to_lower u k) of
            None \<Rightarrow> Inl (Unsupported_kind k)
          | Some kind \<Rightarrow> Inr \<lparr>wt_kind = kind, wt_namespace = ns, wt_name = nm\<rparr>)
     | _ \<Rightarrow> Inl (Not_kind_name s))"

section \<open>One observation\<close>

record deployment_status =
  ds_generation :: int
  ds_spec_replicas :: "int option"
  ds_observed_generation :: int
  ds_updated :: int
  ds_replicas :: int
  ds_available :: int

record stateful_set_status =
  ss_generation :: int
  ss_spec_replicas :: "int option"
  ss_observed_generation :: int
  ss_updated :: int
  ss_ready :: int
  ss_current_revision :: string
  ss_update_revision :: string

record daemon_set_status =
  es_generation :: int
  es_observed_generation :: int
  es_updated :: int
  es_desired :: int
  es_available :: int

record wait_result =
  wr_settled :: bool
  wr_detail :: string

text \<open>The world: the clock, the context's error, and the three reads.\<close>

record ('w, 'e) world =
  now_of :: "'w \<Rightarrow> time"
  sleep_for :: "duration \<Rightarrow> 'w \<Rightarrow> 'w"
  ctx_err :: "'w \<Rightarrow> 'e option"
  get_deployment :: "wait_target \<Rightarrow> 'w \<Rightarrow> ('e + deployment_status) \<times> 'w"
  get_stateful_set :: "wait_target \<Rightarrow> 'w \<Rightarrow> ('e + stateful_set_status) \<times> 'w"
  get_daemon_set :: "wait_target \<Rightarrow> 'w \<Rightarrow> ('e + daemon_set_status) \<times> 'w"

datatype 'e wait_error = Bad_interval duration | Cancelled 'e | Read_error 'e | Wrong_kind string

definition wanted :: "int option \<Rightarrow> int" where
  "wanted r = (case r of None \<Rightarrow> 1 | Some n \<Rightarrow> n)"

definition deployment_settled :: "deployment_status \<Rightarrow> bool" where
  "deployment_settled d \<longleftrightarrow> ds_observed_generation d \<ge> ds_generation d \<and>
     ds_updated d = wanted (ds_spec_replicas d) \<and> ds_replicas d = ds_updated d \<and> ds_available d = ds_updated d"

definition stateful_set_settled :: "stateful_set_status \<Rightarrow> bool" where
  "stateful_set_settled s \<longleftrightarrow> ss_observed_generation s \<ge> ss_generation s \<and>
     ss_updated s = wanted (ss_spec_replicas s) \<and> ss_ready s = wanted (ss_spec_replicas s) \<and>
     ss_current_revision s = ss_update_revision s"

definition daemon_set_settled :: "daemon_set_status \<Rightarrow> bool" where
  "daemon_set_settled s \<longleftrightarrow> es_observed_generation s \<ge> es_generation s \<and>
     es_updated s = es_desired s \<and> es_available s = es_desired s"

definition progress :: "int \<Rightarrow> int \<Rightarrow> int \<Rightarrow> string \<Rightarrow> string" where
  "progress updated want up word = itoa updated @ ''/'' @ itoa want @ '' updated, '' @ itoa up @ '' '' @ word"

definition observe_rollout :: "('w, 'e) world \<Rightarrow> wait_target \<Rightarrow> 'w \<Rightarrow> ('e wait_error + wait_result) \<times> 'w" where
  "observe_rollout c t w =
    (if wt_kind t = KindDeployment then
       (case get_deployment c t w of
          (Inl e, w') \<Rightarrow> (Inl (Read_error e), w')
        | (Inr d, w') \<Rightarrow> (Inr \<lparr>wr_settled = deployment_settled d,
            wr_detail = progress (ds_updated d) (wanted (ds_spec_replicas d)) (ds_available d) ''available''\<rparr>, w'))
     else if wt_kind t = KindStatefulSet then
       (case get_stateful_set c t w of
          (Inl e, w') \<Rightarrow> (Inl (Read_error e), w')
        | (Inr s, w') \<Rightarrow> (Inr \<lparr>wr_settled = stateful_set_settled s,
            wr_detail = progress (ss_updated s) (wanted (ss_spec_replicas s)) (ss_ready s) ''ready''\<rparr>, w'))
     else if wt_kind t = KindDaemonSet then
       (case get_daemon_set c t w of
          (Inl e, w') \<Rightarrow> (Inl (Read_error e), w')
        | (Inr s, w') \<Rightarrow> (Inr \<lparr>wr_settled = daemon_set_settled s,
            wr_detail = progress (es_updated s) (es_desired s) (es_available s) ''available''\<rparr>, w'))
     else (Inl (Wrong_kind (wt_kind t)), w))"

section \<open>The loop\<close>

text \<open>
  \<open>polls\<close> counts the observations, which the code does not; the value is the result, the count and the
  final world.
\<close>

partial_function (option) wait_loop :: "('w, 'e) world \<Rightarrow> wait_target \<Rightarrow> duration \<Rightarrow> time \<Rightarrow> nat \<Rightarrow> 'w \<Rightarrow>
    (('e wait_error + wait_result) \<times> nat \<times> 'w) option" where
  "wait_loop c t interval deadline polls w =
    (case ctx_err c w of
       Some e \<Rightarrow> Some (Inl (Cancelled e), polls, w)
     | None \<Rightarrow>
       (case observe_rollout c t w of
          (Inl e, w') \<Rightarrow> Some (Inl e, Suc polls, w')
        | (Inr res, w') \<Rightarrow>
          if wr_settled res then Some (Inr res, Suc polls, w')
          else if \<not> now_of c w' < deadline then Some (Inr res, Suc polls, w')
          else wait_loop c t interval deadline (Suc polls) (sleep_for c interval w')))"

definition wait :: "('w, 'e) world \<Rightarrow> wait_target \<Rightarrow> duration \<Rightarrow> duration \<Rightarrow> 'w \<Rightarrow>
    (('e wait_error + wait_result) \<times> nat \<times> 'w) option" where
  "wait c t timeout interval w =
    (if interval \<le> 0 then Some (Inl (Bad_interval interval), 0, w)
     else wait_loop c t interval (now_of c w + timeout) 0 w)"

section \<open>The loop returns\<close>

text \<open>A clock that a sleep advances by at least its duration and that a read does not turn back.\<close>

definition clock_ok :: "('w, 'e) world \<Rightarrow> wait_target \<Rightarrow> bool" where
  "clock_ok c t \<longleftrightarrow> (\<forall>w d. now_of c (sleep_for c d w) \<ge> now_of c w + d) \<and>
     (\<forall>w. now_of c (snd (observe_rollout c t w)) \<ge> now_of c w)"

text \<open>What a returned value says about the last read and the clock.\<close>

definition ended_well :: "('w, 'e) world \<Rightarrow> wait_target \<Rightarrow> time \<Rightarrow> ('e wait_error + wait_result) \<times> nat \<times> 'w \<Rightarrow> bool" where
  "ended_well c t deadline out \<longleftrightarrow> (case out of
     (Inr res, _, w') \<Rightarrow> (\<exists>w. observe_rollout c t w = (Inr res, w')) \<and>
       (\<not> wr_settled res \<longrightarrow> deadline \<le> now_of c w')
   | (Inl e, _, _) \<Rightarrow> (\<exists>w x. e = Cancelled x \<and> ctx_err c w = Some x) \<or> (\<exists>w. fst (observe_rollout c t w) = Inl e))"

lemma wait_loop_step:
  assumes "clock_ok c t"
  obtains (ends) out where "wait_loop c t interval deadline polls w = Some out" "fst (snd out) \<le> polls + 1"
      "ended_well c t deadline out"
  | (sleeps) w' where "now_of c w \<le> now_of c w'" "now_of c w' < deadline"
      "wait_loop c t interval deadline polls w = wait_loop c t interval deadline (Suc polls) (sleep_for c interval w')"
proof (cases "ctx_err c w")
  case (Some e)
  then show ?thesis by (intro ends [of "(Inl (Cancelled e), polls, w)"]) (auto simp: wait_loop.simps ended_well_def)
next
  case None
  obtain r w' where obs: "observe_rollout c t w = (r, w')" by fastforce
  show ?thesis
  proof (cases r)
    case (Inl e)
    with None obs show ?thesis
      by (intro ends [of "(Inl e, Suc polls, w')"]) (auto simp: wait_loop.simps ended_well_def intro!: exI [of _ w])
  next
    case (Inr res)
    show ?thesis
    proof (cases "wr_settled res \<or> \<not> now_of c w' < deadline")
      case True
      with None obs Inr show ?thesis
        by (intro ends [of "(Inr res, Suc polls, w')"]) (auto simp: wait_loop.simps ended_well_def)
    next
      case False
      have "now_of c w \<le> now_of c w'" using assms obs by (metis clock_ok_def snd_conv)
      then show ?thesis using False None obs Inr
        by (intro sleeps [of w']) (simp_all add: wait_loop.simps [of c t interval deadline polls w])
    qed
  qed
qed

lemma wait_loop_returns:
  assumes clock: "clock_ok c t" and "0 < interval"
  shows "deadline - now_of c w \<le> int n * interval \<Longrightarrow>
    \<exists>out. wait_loop c t interval deadline polls w = Some out \<and> fst (snd out) \<le> polls + n + 1 \<and>
      ended_well c t deadline out"
proof (induction n arbitrary: w polls)
  case 0
  show ?case
    by (rule wait_loop_step [OF clock, of interval deadline polls w]) (use 0 in force)+
next
  case (Suc n)
  show ?case
  proof (rule wait_loop_step [OF clock, of interval deadline polls w])
    fix w'
    let ?w = "sleep_for c interval w'"
    assume w': "now_of c w \<le> now_of c w'" and step: "wait_loop c t interval deadline polls w =
      wait_loop c t interval deadline (Suc polls) ?w"
    have "now_of c w' + interval \<le> now_of c ?w" using clock by (simp add: clock_ok_def)
    with w' have "deadline - now_of c ?w \<le> int n * interval"
      using Suc.prems by (simp add: algebra_simps)
    from Suc.IH [OF this, of "Suc polls"] show ?thesis by (simp add: step)
  qed force
qed

text \<open>
  C20. \<open>Wait\<close> returns for every interval and every timeout, even a negative one, on any clock that a
  sleep really advances: after at most \<open>timeout / interval\<close> + 2 reads. A result that is not settled comes
  only after the deadline; an error is the context's, a read's, or the refused interval.
\<close>

theorem wait_returns:
  assumes "clock_ok c t"
  shows "\<exists>out polls w'. wait c t timeout interval w = Some (out, polls, w') \<and>
    (interval \<le> 0 \<longrightarrow> out = Inl (Bad_interval interval) \<and> polls = 0) \<and>
    (interval > 0 \<longrightarrow> int polls \<le> max 0 (timeout div interval) + 2 \<and>
       ended_well c t (now_of c w + timeout) (out, polls, w'))"
proof (cases "interval \<le> 0")
  case True
  then show ?thesis by (simp add: wait_def)
next
  case False
  let ?n = "nat (timeout div interval) + 1"
  have "timeout < (timeout div interval + 1) * interval"
    using False by (simp add: algebra_simps) (metis pos_mod_bound not_le add.commute div_mult_mod_eq add_less_cancel_right mult.commute)
  also have "\<dots> \<le> int ?n * interval"
    using False by (intro mult_right_mono) auto
  finally have "now_of c w + timeout - now_of c w \<le> int ?n * interval" by simp
  from wait_loop_returns [OF assms _ this, of 0] False obtain out where
    "wait_loop c t interval (now_of c w + timeout) 0 w = Some out" "fst (snd out) \<le> ?n + 1"
    "ended_well c t (now_of c w + timeout) out"
    by auto
  with False show ?thesis by (cases out) (auto simp: wait_def)
qed

text \<open>A rollout that never settles, on a clock that starts at zero.\<close>

definition stuck_world :: "(time, string) world" where
  "stuck_world = \<lparr>now_of = (\<lambda>w. w), sleep_for = (\<lambda>d w. w + max d 0), ctx_err = (\<lambda>_. None),
     get_deployment = (\<lambda>_ w. (Inr \<lparr>ds_generation = 2, ds_spec_replicas = Some 3, ds_observed_generation = 2,
        ds_updated = 1, ds_replicas = 4, ds_available = 3\<rparr>, w)),
     get_stateful_set = (\<lambda>_ w. (Inl ''no'', w)), get_daemon_set = (\<lambda>_ w. (Inl ''no'', w))\<rparr>"

definition api_target :: wait_target where
  "api_target = \<lparr>wt_kind = KindDeployment, wt_namespace = ''shop'', wt_name = ''api''\<rparr>"

theorem wait_returns_witness:
  "\<exists>out polls w'. wait stuck_world api_target (10 * second) (3 * second) 0 = Some (out, polls, w') \<and> polls \<le> 5"
proof -
  have "clock_ok stuck_world api_target"
    by (simp add: clock_ok_def stuck_world_def observe_rollout_def api_target_def)
  from wait_returns [OF this, of "10 * second" "3 * second" 0] show ?thesis
    by (auto simp: second_def)
qed

end
