(* ===== verification/Hypothesis_Decision.thy ===== *)
theory Hypothesis_Decision
  imports Root_Cause
begin

text \<open>
  \<open>internal/hypothesis\<close>: the candidates of a root-cause trace re-checked against fresh reads
  (\<open>hypothesis.go\<close>, \<open>decide.go\<close>) and the causes several workloads share (\<open>shared.go\<close>). A value of one of
  the maps is the object behind the pointer, \<open>None\<close> for nil.
\<close>

section \<open>Fresh reads and decisions\<close>

record claim =
  cl_phase :: string
  cl_storage_class :: "string option"

text \<open>A node contributes its conditions, each a type and a status; an event its reason and message.\<close>

record reads =
  rd_nodes :: "(string, (string \<times> string) list option) gomap"
  rd_pvcs :: "(string, claim option) gomap"
  rd_events :: "(string, (string \<times> string) list) gomap"
  rd_failed :: "(string, string) gomap"

text \<open>\<open>NoOutcome\<close> is the zero value of the type, the empty string.\<close>

datatype outcome = Confirmed | Refuted | Unverified | NoOutcome

record decision =
  de_candidate :: hypothesis
  de_outcome :: outcome
  de_evidence :: string

record hyp_result =
  hr_workload :: string
  hr_decided :: bool
  hr_cause :: string
  hr_outcome :: outcome
  hr_evidence :: string
  hr_group_key :: string
  hr_group_text :: string
  hr_decisions :: "decision list"

definition evidence_never_read :: string where
  "evidence_never_read = ''not re-read: the read budget was spent first''"
definition evidence_failed_prefix :: string where
  "evidence_failed_prefix = ''fresh read failed: ''"
definition evidence_no_rule :: string where
  "evidence_no_rule = ''no rule re-checks this candidate kind''"
definition evidence_no_pull_event :: string where
  "evidence_no_pull_event = ''no pull event names the failure; events may have aged out''"
definition evidence_pull_pod_unread :: string where
  "evidence_pull_pod_unread = ''events of the pulling pod were not read''"

section \<open>The rules\<close>

definition parenthesized :: "string \<Rightarrow> string" where
  "parenthesized s =
    (case last_index_byte s (CHR '')'') of
      None \<Rightarrow> []
    | Some e \<Rightarrow> (case last_index_byte (take e s) (CHR ''('') of
        None \<Rightarrow> []
      | Some b \<Rightarrow> drop (b + 1) (take e s)))"

definition ready_condition :: "(string \<times> string) list \<Rightarrow> string option" where
  "ready_condition conditions = map_option snd (find (\<lambda>c. fst c = ''Ready'') conditions)"

definition check_node :: "hypothesis \<Rightarrow> reads \<Rightarrow> outcome \<times> string" where
  "check_node h rd =
    (if hy_object h = [] then (Unverified, evidence_never_read)
     else case mget (rd_failed rd) (''node/'' @ hy_object h) of
       Some msg \<Rightarrow> (Unverified, evidence_failed_prefix @ msg)
     | None \<Rightarrow> (case mget (rd_nodes rd) (hy_object h) of
         None \<Rightarrow> (Unverified, evidence_never_read)
       | Some None \<Rightarrow> (Unverified, evidence_never_read)
       | Some (Some conditions) \<Rightarrow>
           let heartbeat = parenthesized (hy_cause h) \<in> {''kubelet not heartbeating'', ''no kubelet lease''} in
           (case ready_condition conditions of
             None \<Rightarrow> (Confirmed, ''the node has no Ready condition'')
           | Some status \<Rightarrow>
               if status = ''False'' then (Confirmed, ''Ready condition is False now'')
               else if status = ''Unknown'' then (Confirmed, ''Ready condition is Unknown now'')
               else if status = ''True'' \<and> heartbeat then
                 (Unverified, ''Ready condition is True, but the kubelet lease was not re-read'')
               else if status = ''True'' then (Refuted, ''Ready condition is True now'')
               else (Unverified, ''Ready condition is not one kubeagent expects''))))"

definition check_pvc :: "workload \<Rightarrow> hypothesis \<Rightarrow> reads \<Rightarrow> outcome \<times> string" where
  "check_pvc w h rd =
    (if hy_object h = [] then (Unverified, evidence_never_read)
     else let key = w_namespace w @ ''/'' @ hy_object h in
       case mget (rd_failed rd) (''pvc/'' @ key) of
         Some msg \<Rightarrow> (Unverified, evidence_failed_prefix @ msg)
       | None \<Rightarrow> (case mget (rd_pvcs rd) key of
           None \<Rightarrow> (Unverified, evidence_never_read)
         | Some None \<Rightarrow> (Unverified, evidence_never_read)
         | Some (Some pvc) \<Rightarrow>
             if cl_phase pvc = ''Bound'' then (Refuted, ''phase is Bound now'')
             else if cl_phase pvc = ''Pending'' then (Confirmed, ''phase is still Pending'')
             else if cl_phase pvc = ''Lost'' then (Confirmed, ''phase is Lost'')
             else (Unverified, ''phase is not one kubeagent expects'')))"

definition connection_literals :: "string list" where
  "connection_literals = [''dial tcp'', ''i/o timeout'', ''connection refused'', ''connection reset'',
     ''no such host'', ''network is unreachable'', ''tls handshake'', ''x509:'', ''502 bad gateway'',
     ''503 service unavailable'', ''504 gateway timeout'', ''toomanyrequests'', ''429 too many requests'']"

definition auth_literals :: "string list" where
  "auth_literals = [''pull access denied'', ''no basic auth credentials'', ''unauthorized'', ''denied'']"

definition image_literals :: "string list" where
  "image_literals = [''manifest unknown'', ''not found'', ''name unknown'', ''repository does not exist'',
     ''invalid reference format'']"

definition pod_part :: "string \<Rightarrow> string" where
  "pod_part pod = (case str_index pod ''/'' of None \<Rightarrow> [] | Some i \<Rightarrow> drop (i + 1) pod)"

definition pull_pod :: "workload \<Rightarrow> string" where
  "pull_pod w =
    (case find (\<lambda>f. f_issue f = ''ImagePullBackOff'' \<or> f_issue f = ''ErrImagePull'') (w_findings w) of
      None \<Rightarrow> [] | Some f \<Rightarrow> pod_part (f_pod f))"

definition events_pod :: "workload \<Rightarrow> string" where
  "events_pod w =
    (case w_findings w of
      [] \<Rightarrow> w_name w
    | f # _ \<Rightarrow> if pod_part (f_pod f) \<noteq> [] then pod_part (f_pod f) else w_name w)"

definition is_pull_event :: "unicode_tables \<Rightarrow> string \<times> string \<Rightarrow> bool" where
  "is_pull_event u e \<longleftrightarrow> (fst e = ''Failed'' \<or> fst e = ''BackOff'') \<and> contains (to_lower u (snd e)) ''pull''"

definition first_match :: "string list \<Rightarrow> string list \<Rightarrow> string" where
  "first_match msgs literals =
    (case find (\<lambda>lit. \<exists>m\<in>set msgs. contains m lit) literals of None \<Rightarrow> [] | Some lit \<Rightarrow> lit)"

definition classify_pull_events :: "unicode_tables \<Rightarrow> (string \<times> string) list \<Rightarrow> outcome \<times> string" where
  "classify_pull_events u evs =
    (let msgs = map (\<lambda>e. to_lower u (snd e)) (filter (is_pull_event u) evs) in
     if first_match msgs connection_literals \<noteq> [] then
       (Confirmed, ''a pull event shows a connection error: '' @ first_match msgs connection_literals)
     else if first_match msgs auth_literals \<noteq> [] then
       (Unverified, ''a pull event shows an auth error: '' @ first_match msgs auth_literals @
          ''; that can be one image or the whole host'')
     else if first_match msgs image_literals \<noteq> [] then
       (Refuted, ''a pull event shows an image error: '' @ first_match msgs image_literals @
          ''; this pull fails for this image, not the host'')
     else (Unverified, evidence_no_pull_event))"

definition check_registry :: "unicode_tables \<Rightarrow> workload \<Rightarrow> hypothesis \<Rightarrow> reads \<Rightarrow> outcome \<times> string" where
  "check_registry u w h rd =
    (let pod = pull_pod w; key = w_namespace w @ ''/'' @ pod;
         blind = (if pod = [] \<or> pod \<noteq> events_pod w then (Unverified, evidence_pull_pod_unread)
                  else (Unverified, evidence_never_read)) in
     if pod \<noteq> [] then
       (case mget (rd_events rd) key of
         Some evs \<Rightarrow> classify_pull_events u evs
       | None \<Rightarrow> (case mget (rd_failed rd) (''events/'' @ key) of
           Some msg \<Rightarrow> (Unverified, evidence_failed_prefix @ msg)
         | None \<Rightarrow> blind))
     else blind)"

definition recheck :: "unicode_tables \<Rightarrow> workload \<Rightarrow> hypothesis \<Rightarrow> reads \<Rightarrow> outcome \<times> string" where
  "recheck u w h rd =
    (if hy_kind h = ''node'' then check_node h rd
     else if hy_kind h = ''pvc'' then check_pvc w h rd
     else if hy_kind h = ''registry'' then check_registry u w h rd
     else (Unverified, evidence_no_rule))"

section \<open>The decision\<close>

definition plain_name :: "string \<Rightarrow> bool" where
  "plain_name s \<longleftrightarrow> (\<forall>c\<in>set s. (CHR ''a'' \<le> c \<and> c \<le> CHR ''z'') \<or> (CHR ''0'' \<le> c \<and> c \<le> CHR ''9'') \<or>
     c = CHR ''.'' \<or> c = CHR ''-'') \<and> s \<noteq> []"

text \<open>The storage class a claim's reason is about, when its name is plain enough to print.\<close>

definition shared_class :: "workload \<Rightarrow> hypothesis \<Rightarrow> reads \<Rightarrow> string option" where
  "shared_class w h rd =
    (if parenthesized (hy_cause h) = ''ProvisionerNotResponding'' \<or> parenthesized (hy_cause h) = ''MissingStorageClass'' then
       (case mget (rd_pvcs rd) (w_namespace w @ ''/'' @ hy_object h) of
         Some (Some pvc) \<Rightarrow> (case cl_storage_class pvc of
           Some c \<Rightarrow> if c \<noteq> [] \<and> plain_name c then Some c else None
         | None \<Rightarrow> None)
       | _ \<Rightarrow> None)
     else None)"

definition hyp_group :: "workload \<Rightarrow> hypothesis \<Rightarrow> reads \<Rightarrow> string \<times> string" where
  "hyp_group w h rd =
    (if hy_kind h = ''node'' then (''node/'' @ hy_object h, hy_cause h)
     else if hy_kind h = ''registry'' then (''registry/'' @ hy_object h, hy_cause h)
     else if hy_kind h = ''pvc'' then
       (case shared_class w h rd of
         Some c \<Rightarrow> (''storageclass/'' @ c @ ''/'' @ parenthesized (hy_cause h),
           ''storage class '' @ c @ '' ('' @ parenthesized (hy_cause h) @ '')'')
       | None \<Rightarrow> (''pvc/'' @ w_namespace w @ ''/'' @ hy_object h, hy_cause h))
     else ([], []))"

definition decided :: "hyp_result \<Rightarrow> decision \<Rightarrow> workload \<Rightarrow> reads \<Rightarrow> hyp_result" where
  "decided r d w rd =
    (let r = r\<lparr>hr_decided := True, hr_cause := hy_cause (de_candidate d), hr_outcome := de_outcome d,
               hr_evidence := de_evidence d\<rparr> in
     if de_outcome d = Confirmed then
       r\<lparr>hr_group_key := fst (hyp_group w (de_candidate d) rd), hr_group_text := snd (hyp_group w (de_candidate d) rd)\<rparr>
     else r)"

definition decisions :: "unicode_tables \<Rightarrow> workload \<Rightarrow> reads \<Rightarrow> decision list" where
  "decisions u w rd =
    map (\<lambda>h. case recheck u w h rd of (outcome, ev) \<Rightarrow>
        \<lparr>de_candidate = h, de_outcome = outcome, de_evidence = ev\<rparr>)
      (filter (\<lambda>h. hy_verdict h \<noteq> VerdictRuledOut) (w_trace w))"

definition hyp_decide :: "unicode_tables \<Rightarrow> workload \<Rightarrow> reads \<Rightarrow> hyp_result" where
  "hyp_decide u w rd =
    (let ds = decisions u w rd;
         r = \<lparr>hr_workload = w_namespace w @ ''/'' @ w_name w, hr_decided = False, hr_cause = [], hr_outcome = NoOutcome,
              hr_evidence = [], hr_group_key = [], hr_group_text = [], hr_decisions = ds\<rparr> in
     case find (\<lambda>d. de_outcome d = Confirmed) ds of
       Some d \<Rightarrow> decided r d w rd
     | None \<Rightarrow> (case find (\<lambda>d. de_outcome d = Unverified) ds of
         Some d \<Rightarrow> decided r d w rd
       | None \<Rightarrow> r))"


section \<open>Shared causes\<close>

definition MaxSharedLines :: nat where "MaxSharedLines = 4"
definition TruncationMarker :: string where "TruncationMarker = ''[truncated by kubeagent]''"

definition confirmed :: "hyp_result \<Rightarrow> bool" where
  "confirmed r \<longleftrightarrow> hr_decided r \<and> hr_outcome r = Confirmed"

text \<open>The groups in the order of their first rows: key, text and number of rows.\<close>

definition shared_groups :: "hyp_result list \<Rightarrow> (string, string \<times> nat) gomap" where
  "shared_groups results =
    fold (\<lambda>r gs. if \<not> confirmed r \<or> hr_group_key r = [] then gs
        else case mget gs (hr_group_key r) of
          None \<Rightarrow> mput (hr_group_key r) (hr_group_text r, 1) gs
        | Some (text, n) \<Rightarrow> mput (hr_group_key r) (text, n + 1) gs)
      results []"

fun larger_group :: "string \<times> string \<times> nat \<Rightarrow> string \<times> string \<times> nat \<Rightarrow> bool" where
  "larger_group (k, _, n) (k', _, n') \<longleftrightarrow> (if n \<noteq> n' then n > n' else k < k')"

fun shared_line :: "string \<times> string \<times> nat \<Rightarrow> string" where
  "shared_line (_, text, n) = itoa (int n) @ '' workloads share one upstream cause: '' @ text"

fun shared_loop :: "(string \<times> string \<times> nat) list \<Rightarrow> string list \<Rightarrow> string list" where
  "shared_loop [] lines = lines"
| "shared_loop (g # gs) lines =
    (if snd (snd g) < 2 then shared_loop gs lines
     else if length lines = MaxSharedLines then lines @ [TruncationMarker]
     else shared_loop gs (lines @ [shared_line g]))"

definition shared_causes :: "hyp_result list \<Rightarrow> string list" where
  "shared_causes results =
    (let n = length (filter confirmed results) in
     if n < 2 then []
     else let lines = shared_loop (sort_slice larger_group (shared_groups results)) [] in
       if lines = [] then [''no shared cause among the '' @ itoa (int n) @ '' workloads confirmed by rules'']
       else lines)"

section \<open>The evidence is a fixed sentence\<close>

definition fixed_sentences :: "string list" where
  "fixed_sentences =
    [evidence_never_read, evidence_no_rule, evidence_no_pull_event, evidence_pull_pod_unread,
     ''the node has no Ready condition'', ''Ready condition is False now'', ''Ready condition is Unknown now'',
     ''Ready condition is True, but the kubelet lease was not re-read'', ''Ready condition is True now'',
     ''Ready condition is not one kubeagent expects'',
     ''phase is Bound now'', ''phase is still Pending'', ''phase is Lost'', ''phase is not one kubeagent expects''] @
    map (\<lambda>lit. ''a pull event shows a connection error: '' @ lit) connection_literals @
    map (\<lambda>lit. ''a pull event shows an auth error: '' @ lit @ ''; that can be one image or the whole host'') auth_literals @
    map (\<lambda>lit. ''a pull event shows an image error: '' @ lit @ ''; this pull fails for this image, not the host'') image_literals"

lemma first_match_literal: "first_match msgs literals \<noteq> [] \<Longrightarrow> first_match msgs literals \<in> set literals"
proof (cases "find (\<lambda>lit. \<exists>m\<in>set msgs. contains m lit) literals")
  case (Some lit)
  then have "lit \<in> set literals" unfolding find_Some_split by auto
  then show ?thesis by (simp add: first_match_def Some)
qed (simp add: first_match_def)

lemma fixed_sentence [intro]:
  "evidence_never_read \<in> set fixed_sentences" "evidence_no_rule \<in> set fixed_sentences"
  "evidence_no_pull_event \<in> set fixed_sentences" "evidence_pull_pod_unread \<in> set fixed_sentences"
  "''the node has no Ready condition'' \<in> set fixed_sentences" "''Ready condition is False now'' \<in> set fixed_sentences"
  "''Ready condition is Unknown now'' \<in> set fixed_sentences"
  "''Ready condition is True, but the kubelet lease was not re-read'' \<in> set fixed_sentences"
  "''Ready condition is True now'' \<in> set fixed_sentences"
  "''Ready condition is not one kubeagent expects'' \<in> set fixed_sentences"
  "''phase is Bound now'' \<in> set fixed_sentences" "''phase is still Pending'' \<in> set fixed_sentences"
  "''phase is Lost'' \<in> set fixed_sentences" "''phase is not one kubeagent expects'' \<in> set fixed_sentences"
  unfolding fixed_sentences_def by (simp_all only: set_append list.set insert_iff Un_iff) simp_all

lemma fixed_literal [intro]:
  "lit \<in> set connection_literals \<Longrightarrow> ''a pull event shows a connection error: '' @ lit \<in> set fixed_sentences"
  "lit \<in> set auth_literals \<Longrightarrow> ''a pull event shows an auth error: '' @ lit @ ''; that can be one image or the whole host'' \<in> set fixed_sentences"
  "lit \<in> set image_literals \<Longrightarrow> ''a pull event shows an image error: '' @ lit @ ''; this pull fails for this image, not the host'' \<in> set fixed_sentences"
  unfolding fixed_sentences_def by (simp_all only: set_append set_map Un_iff image_iff) blast+

definition fixed_or_failed :: "reads \<Rightarrow> string \<Rightarrow> bool" where
  "fixed_or_failed rd ev \<longleftrightarrow> ev \<in> set fixed_sentences \<or>
     (\<exists>msg\<in>snd ` set (rd_failed rd). ev = evidence_failed_prefix @ msg)"

lemma fixed_or_failedI:
  "ev \<in> set fixed_sentences \<Longrightarrow> fixed_or_failed rd ev"
  "mget (rd_failed rd) k = Some msg \<Longrightarrow> fixed_or_failed rd (evidence_failed_prefix @ msg)"
  by (auto simp: fixed_or_failed_def dest!: mget_in_set intro: rev_image_eqI)

text \<open>The shape of a rule: branches that end in an outcome with its sentence.\<close>

lemma rule_branches:
  "(b \<Longrightarrow> P (snd x)) \<Longrightarrow> (\<not> b \<Longrightarrow> P (snd y)) \<Longrightarrow> P (snd (if b then x else y))"
  "(m = None \<Longrightarrow> P (snd x)) \<Longrightarrow> (\<And>v. m = Some v \<Longrightarrow> P (snd (f v))) \<Longrightarrow> P (snd (case m of None \<Rightarrow> x | Some v \<Rightarrow> f v))"
  "P e \<Longrightarrow> P (snd (out, e))"
  by (simp_all split: option.split)

lemmas rule_intros = rule_branches [where P = "fixed_or_failed rd" for rd]

lemma check_node_fixed: "fixed_or_failed rd (snd (check_node h rd))"
  unfolding check_node_def Let_def
  by (intro rule_intros; (erule fixed_or_failedI | rule fixed_or_failedI(1) fixed_sentence)+)

lemma check_pvc_fixed: "fixed_or_failed rd (snd (check_pvc w h rd))"
  unfolding check_pvc_def Let_def
  by (intro rule_intros; (erule fixed_or_failedI | rule fixed_or_failedI(1) fixed_sentence)+)

lemma classify_fixed: "fixed_or_failed rd (snd (classify_pull_events u evs))"
  unfolding classify_pull_events_def Let_def
  by (intro rule_intros fixed_or_failedI(1) fixed_sentence fixed_literal; erule first_match_literal)

lemma check_registry_fixed: "fixed_or_failed rd (snd (check_registry u w h rd))"
  unfolding check_registry_def Let_def
  by (intro rule_intros classify_fixed; (erule fixed_or_failedI | rule fixed_or_failedI(1) fixed_sentence)+)

lemma recheck_fixed: "fixed_or_failed rd (snd (recheck u w h rd))"
  unfolding recheck_def
  by (intro rule_intros check_node_fixed check_pvc_fixed check_registry_fixed fixed_or_failedI(1) fixed_sentence)

lemma hr_decisions_decide [simp]: "hr_decisions (hyp_decide u w rd) = decisions u w rd"
  by (simp add: hyp_decide_def decided_def Let_def split: option.split)

text \<open>
  No text of the cluster enters the evidence. Whatever nodes, claims and events say, the evidence of a
  decision is one of the fixed sentences, or the fixed prefix with the message of a failed read.
\<close>

theorem evidence_closed:
  "\<forall>d\<in>set (hr_decisions (hyp_decide u w rd)).
    de_evidence d \<in> set fixed_sentences \<or>
    (\<exists>msg\<in>snd ` set (rd_failed rd). de_evidence d = evidence_failed_prefix @ msg)"
proof -
  have "de_evidence d \<in> set fixed_sentences \<or>
      (\<exists>msg\<in>snd ` set (rd_failed rd). de_evidence d = evidence_failed_prefix @ msg)" if d: "d \<in> set (decisions u w rd)" for d
  proof -
    from d obtain h where "de_evidence d = snd (recheck u w h rd)"
      by (auto simp: decisions_def split: prod.splits) (metis snd_conv)
    with recheck_fixed [of rd u w h] show ?thesis by (simp add: fixed_or_failed_def)
  qed
  then show ?thesis by simp
qed

section \<open>The decision and the scan's attribution\<close>

lemma outcome_branches:
  "(b \<Longrightarrow> P (fst x)) \<Longrightarrow> (\<not> b \<Longrightarrow> P (fst y)) \<Longrightarrow> P (fst (if b then x else y))"
  "(m = None \<Longrightarrow> P (fst x)) \<Longrightarrow> (\<And>v. m = Some v \<Longrightarrow> P (fst (f v))) \<Longrightarrow> P (fst (case m of None \<Rightarrow> x | Some v \<Rightarrow> f v))"
  "P out \<Longrightarrow> P (fst (out, e))"
  by (simp_all split: option.split)

lemma recheck_outcome: "fst (recheck u w h rd) \<noteq> NoOutcome"
  unfolding recheck_def check_node_def check_pvc_def check_registry_def classify_pull_events_def Let_def
  by (intro outcome_branches [where P = "\<lambda>out. out \<noteq> NoOutcome"] outcome.distinct)

lemma decisions_outcome: "d \<in> set (decisions u w rd) \<Longrightarrow> de_outcome d \<in> {Confirmed, Refuted, Unverified}"
  using recheck_outcome by (auto simp: decisions_def split: prod.splits) (metis fst_conv outcome.exhaust)

lemma decided_fields:
  "hr_decided (decided r d w rd)" "hr_cause (decided r d w rd) = hy_cause (de_candidate d)"
  "hr_outcome (decided r d w rd) = de_outcome d" "hr_evidence (decided r d w rd) = de_evidence d"
  by (simp_all add: decided_def Let_def)

lemma hyp_decide_cases:
  obtains (confirmed) d where "find (\<lambda>d. de_outcome d = Confirmed) (decisions u w rd) = Some d"
      "hr_decided (hyp_decide u w rd)" "hr_cause (hyp_decide u w rd) = hy_cause (de_candidate d)"
      "hr_outcome (hyp_decide u w rd) = Confirmed" "hr_evidence (hyp_decide u w rd) = de_evidence d"
  | (unverified) d where "\<forall>d\<in>set (decisions u w rd). de_outcome d \<noteq> Confirmed"
      "find (\<lambda>d. de_outcome d = Unverified) (decisions u w rd) = Some d"
      "hr_decided (hyp_decide u w rd)" "hr_cause (hyp_decide u w rd) = hy_cause (de_candidate d)"
      "hr_outcome (hyp_decide u w rd) = Unverified" "hr_evidence (hyp_decide u w rd) = de_evidence d"
  | (refuted) "\<forall>d\<in>set (decisions u w rd). de_outcome d = Refuted" "\<not> hr_decided (hyp_decide u w rd)"
proof (cases "find (\<lambda>d. de_outcome d = Confirmed) (decisions u w rd)")
  case (Some d)
  then have "de_outcome d = Confirmed" by (auto simp: find_Some_split)
  with Some show ?thesis by (intro confirmed [of d]) (simp_all add: hyp_decide_def Let_def decided_fields)
next
  case None
  then have no: "\<forall>d\<in>set (decisions u w rd). de_outcome d \<noteq> Confirmed" by (auto simp: find_None_iff)
  show ?thesis
  proof (cases "find (\<lambda>d. de_outcome d = Unverified) (decisions u w rd)")
    case (Some d)
    then have "de_outcome d = Unverified" by (auto simp: find_Some_split)
    with None Some no show ?thesis by (intro unverified [of d]) (simp_all add: hyp_decide_def Let_def decided_fields)
  next
    case none: None
    then have "\<forall>d\<in>set (decisions u w rd). de_outcome d = Refuted"
      using no decisions_outcome by (fastforce simp: find_None_iff)
    with None none show ?thesis by (intro refuted) (simp_all add: hyp_decide_def Let_def)
  qed
qed

text \<open>
  Re-checking respects the scan's attribution. For a workload as the scan leaves it, the decisions are
  about the attributed cause first and then the outranked ones; an attributed cause that the fresh reads
  confirm is the decided cause; a decided cause is one of the candidates, with its own outcome and evidence, and
  it is unverified only if no candidate was confirmed; and nothing is decided exactly if every candidate was
  refuted.
\<close>

theorem decision_respects_attribution:
  assumes "\<forall>w\<in>set ws. w_trace w = [] \<and> w_root_cause w = []" and "w \<in> set (attribute u down pod_pvcs issues ws)"
  shows "(w_root_cause w = [] \<longleftrightarrow> decisions u w rd = []) \<and>
    (\<forall>d ds. decisions u w rd = d # ds \<longrightarrow> hy_cause (de_candidate d) = w_root_cause w \<and>
       (de_outcome d = Confirmed \<longrightarrow> hr_cause (hyp_decide u w rd) = w_root_cause w \<and> hr_outcome (hyp_decide u w rd) = Confirmed)) \<and>
    (hr_decided (hyp_decide u w rd) \<longrightarrow> (\<exists>d\<in>set (decisions u w rd).
       hr_cause (hyp_decide u w rd) = hy_cause (de_candidate d) \<and> hr_outcome (hyp_decide u w rd) = de_outcome d \<and>
       hr_evidence (hyp_decide u w rd) = de_evidence d \<and>
       (de_outcome d = Confirmed \<or> de_outcome d = Unverified \<and> (\<forall>d\<in>set (decisions u w rd). de_outcome d \<noteq> Confirmed)))) \<and>
    (\<not> hr_decided (hyp_decide u w rd) \<longleftrightarrow> (\<forall>d\<in>set (decisions u w rd). de_outcome d = Refuted))"
proof (intro conjI)
  have e: "explained w" using attribute_explained [OF assms(1)] assms(2) by blast
  have ds: "decisions u w rd = map (\<lambda>h. case recheck u w h rd of (outcome, ev) \<Rightarrow>
      \<lparr>de_candidate = h, de_outcome = outcome, de_evidence = ev\<rparr>) (standing w)"
    by (simp add: decisions_def standing_def)
  show "w_root_cause w = [] \<longleftrightarrow> decisions u w rd = []"
    using e by (auto simp: ds explained_def split: list.splits)
  show "\<forall>d ds. decisions u w rd = d # ds \<longrightarrow> hy_cause (de_candidate d) = w_root_cause w \<and>
       (de_outcome d = Confirmed \<longrightarrow> hr_cause (hyp_decide u w rd) = w_root_cause w \<and> hr_outcome (hyp_decide u w rd) = Confirmed)"
  proof (intro allI impI)
    fix d ds' assume eq: "decisions u w rd = d # ds'"
    then have cause: "hy_cause (de_candidate d) = w_root_cause w"
      using e by (auto simp: ds explained_def split: list.splits prod.splits)
    show "hy_cause (de_candidate d) = w_root_cause w \<and>
       (de_outcome d = Confirmed \<longrightarrow> hr_cause (hyp_decide u w rd) = w_root_cause w \<and> hr_outcome (hyp_decide u w rd) = Confirmed)"
      using cause eq by (cases rule: hyp_decide_cases [of u w rd]) auto
  qed
  show "hr_decided (hyp_decide u w rd) \<longrightarrow> (\<exists>d\<in>set (decisions u w rd).
       hr_cause (hyp_decide u w rd) = hy_cause (de_candidate d) \<and> hr_outcome (hyp_decide u w rd) = de_outcome d \<and>
       hr_evidence (hyp_decide u w rd) = de_evidence d \<and>
       (de_outcome d = Confirmed \<or> de_outcome d = Unverified \<and> (\<forall>d\<in>set (decisions u w rd). de_outcome d \<noteq> Confirmed)))"
    by (cases rule: hyp_decide_cases [of u w rd]) (auto simp: find_Some_split)
  show "\<not> hr_decided (hyp_decide u w rd) \<longleftrightarrow> (\<forall>d\<in>set (decisions u w rd). de_outcome d = Refuted)"
    by (cases rule: hyp_decide_cases [of u w rd]) (auto simp: find_Some_split)
qed


section \<open>Shared causes count the confirmed rows\<close>

definition rows_of :: "string \<Rightarrow> hyp_result list \<Rightarrow> hyp_result list" where
  "rows_of key results = filter (\<lambda>r. confirmed r \<and> hr_group_key r = key) results"

lemma shared_groups_get:
  "mget (shared_groups results) key =
    (if key = [] \<or> rows_of key results = [] then None
     else Some (hr_group_text (hd (rows_of key results)), length (rows_of key results)))"
proof (induction results rule: rev_induct)
  case Nil
  then show ?case by (simp add: shared_groups_def rows_of_def)
next
  case (snoc r results)
  then show ?case
    by (auto simp: shared_groups_def rows_of_def split: option.split)
qed

lemma mok_shared_groups: "mok (shared_groups results)"
  by (induction results rule: rev_induct) (simp_all add: shared_groups_def split: option.split)

lemma shared_loop_eq:
  "length lines \<le> MaxSharedLines \<Longrightarrow> shared_loop gs lines =
    (let big = filter (\<lambda>g. 2 \<le> snd (snd g)) gs; room = MaxSharedLines - length lines in
     lines @ map shared_line (take room big) @ (if room < length big then [TruncationMarker] else []))"
proof (induction gs arbitrary: lines)
  case (Cons g gs)
  show ?case
  proof (cases "snd (snd g) < 2 \<or> length lines = MaxSharedLines")
    case True
    then show ?thesis using Cons by (auto simp: Let_def)
  next
    case False
    with Cons.prems have room: "MaxSharedLines - length lines = Suc (MaxSharedLines - Suc (length lines))" by linarith
    have "shared_loop gs (lines @ [shared_line g]) =
      (let big = filter (\<lambda>g. 2 \<le> snd (snd g)) gs; room = MaxSharedLines - Suc (length lines) in
       lines @ shared_line g # map shared_line (take room big) @ (if room < length big then [TruncationMarker] else []))"
      using Cons.IH [of "lines @ [shared_line g]"] Cons.prems False by simp
    then show ?thesis using False by (simp add: Let_def room del: shared_line.simps)
  qed
qed simp

text \<open>
  The shared-cause lines. With fewer than two confirmed workloads there is none; otherwise the groups of at
  least two workloads are listed, the largest first and then by key, at most four and then the marker; and
  the number and the text of a group are those of the confirmed workloads with its key.
\<close>

theorem shared_causes_lines:
  "shared_causes results =
    (let big = filter (\<lambda>g. 2 \<le> snd (snd g)) (sort_slice larger_group (shared_groups results)) in
     if length (filter confirmed results) < 2 then []
     else if big = [] then [''no shared cause among the '' @ itoa (int (length (filter confirmed results))) @ '' workloads confirmed by rules'']
     else map shared_line (take 4 big) @ (if 4 < length big then [TruncationMarker] else [])) \<and>
   mget (shared_groups results) key =
    (if key = [] \<or> rows_of key results = [] then None
     else Some (hr_group_text (hd (rows_of key results)), length (rows_of key results)))"
proof -
  have "shared_line g \<noteq> []" for g by (cases g) (auto simp: itoa_def)
  then show ?thesis by (auto simp: shared_causes_def shared_loop_eq Let_def MaxSharedLines_def shared_groups_get)
qed

section \<open>A workload on a node that is still down\<close>

definition down_reads :: reads where
  "down_reads = \<lparr>rd_nodes = [(''n1'', Some [(''Ready'', ''False'')])], rd_pvcs = [], rd_events = [], rd_failed = []\<rparr>"

definition attributed_pod :: workload where
  "attributed_pod = hd (attribute small_tables [(''n1'', ''NotReady'')] [] [] [pulling ''a'' ''n1''])"

lemma attributed_pod_trace:
  "w_trace attributed_pod =
    [\<lparr>hy_cause = ''node n1 (NotReady)'', hy_kind = ''node'', hy_verdict = VerdictAttributed,
      hy_reason = ''pod p is scheduled on it'', hy_object = ''n1''\<rparr>,
     \<lparr>hy_cause = ''registry r.io'', hy_kind = ''registry'', hy_verdict = VerdictOutranked,
      hy_reason = ''node n1 (NotReady) is the stronger cause'', hy_object = ''r.io''\<rparr>]"
proof -
  have pull: "pull_image (pulling ''a'' ''n1'') = (''r.io/app'', True)" by (simp add: pull_image_def pulling_def blank_finding_def)
  have "annotate_nodes [(''n1'', ''NotReady'')] [pulling ''a'' ''n1''] =
    [(pulling ''a'' ''n1'')\<lparr>w_root_cause := ''node n1 (NotReady)'', w_trace := [\<lparr>hy_cause = ''node n1 (NotReady)'', hy_kind = ''node'',
      hy_verdict = VerdictAttributed, hy_reason = ''pod p is scheduled on it'', hy_object = ''n1''\<rparr>]\<rparr>]"
    by (simp add: annotate_nodes_def down_names_def node_candidate_def reason_by_node_def judge_def trace_record_def pod_nodes_def
      pod_on_def mget_zero_def pulling_def flagged_def blank_workload_def)
  then show ?thesis
    by (simp add: attributed_pod_def attribute_def annotate_pvcs_def annotate_registry_def annotate_confidence_def Let_def
      pulling_def pull_image_def flagged_def registry_host_def blank_finding_def blank_workload_def has_prefix_def
      trace_record_def stronger_def plain_host for_root_cause_def)
qed

theorem evidence_closed_witness:
  "de_evidence (hd (decisions small_tables attributed_pod down_reads)) \<in> set fixed_sentences"
proof -
  have "hd (decisions small_tables attributed_pod down_reads) \<in> set (hr_decisions (hyp_decide small_tables attributed_pod down_reads))"
    by (simp add: decisions_def attributed_pod_trace)
  with evidence_closed [of small_tables attributed_pod down_reads] show ?thesis by (auto simp: down_reads_def)
qed

theorem decision_respects_attribution_witness:
  "hr_cause (hyp_decide small_tables attributed_pod down_reads) = ''node n1 (NotReady)'' \<and>
   hr_outcome (hyp_decide small_tables attributed_pod down_reads) = Confirmed"
proof -
  have blank: "\<forall>w\<in>set [pulling ''a'' ''n1'']. w_trace w = [] \<and> w_root_cause w = []" by (simp add: pulling_def blank_workload_def)
  have one: "length (attribute small_tables [(''n1'', ''NotReady'')] [] [] [pulling ''a'' ''n1'']) = 1"
    by (simp add: attribute_def annotate_registry_nth(1) passes_keep annotate_confidence_def)
  then have mem: "attributed_pod \<in> set (attribute small_tables [(''n1'', ''NotReady'')] [] [] [pulling ''a'' ''n1''])"
    unfolding attributed_pod_def by (intro hd_in_set) auto
  obtain ds where ds: "decisions small_tables attributed_pod down_reads =
      \<lparr>de_candidate = hd (w_trace attributed_pod), de_outcome = Confirmed, de_evidence = ''Ready condition is False now''\<rparr> # ds"
    by (simp add: decisions_def attributed_pod_trace recheck_def check_node_def down_reads_def ready_condition_def)
  from decision_respects_attribution [OF blank mem, of down_reads] show ?thesis
    unfolding ds by (simp add: attributed_pod_trace)
qed

end
