(* ===== verification/Oncall.thy ===== *)
theory Oncall
  imports Throttle Alert_State
begin

text \<open>
  \<open>internal/oncall/oncall.go\<close>: the explainer that one worker and the reconcile goroutines of all clusters
  share, as a step relation. A step is what happens under the mutex or in one channel operation; between two
  steps any other goroutine may run. The prompt that \<open>internal/explain\<close> builds and the answers of the model
  are arguments.
\<close>

section \<open>Data\<close>

definition queueSize :: nat where "queueSize = 8"
definition maxLatest :: nat where "maxLatest = 100"
definition maxLatestAge :: duration where "maxLatestAge = 24 * hour"

record explanation =
  xp_cluster :: string
  xp_kind :: string
  xp_namespace :: string
  xp_name :: string
  xp_issues :: "string list"
  xp_at :: time
  xp_model :: string
  xp_text :: string

record oncall_stats =
  os_allowed :: nat
  os_throttled :: nat
  os_failed :: nat
  os_dropped :: nat
  os_remaining :: rat

record explain_job =
  jb_object :: alert_object
  jb_issues :: "string list"
  jb_since :: time
  jb_prompt :: string

record object_ref =
  of_key :: string
  of_object :: alert_object
  of_issues :: "string list"
  of_since :: time

record explainer =
  ex_model :: string
  ex_throttle :: throttle
  ex_jobs :: "explain_job list"
  ex_primed :: "(string, bool) gomap"
  ex_dropped :: nat
  ex_started :: bool
  ex_failed :: nat
  ex_latest :: "(string, explanation) gomap"

definition explainer_new :: "string \<Rightarrow> duration \<Rightarrow> int \<Rightarrow> explainer" where
  "explainer_new mdl cooldown budget = \<lparr>ex_model = mdl, ex_throttle = throttle_new cooldown budget, ex_jobs = [],
     ex_primed = [], ex_dropped = 0, ex_started = False, ex_failed = 0, ex_latest = []\<rparr>"

section \<open>The objects of a delta\<close>

text \<open>The map keeps the order in which the objects first appear.\<close>

definition add_record :: "string \<Rightarrow> wrecord \<Rightarrow> (string, object_ref) gomap \<Rightarrow> (string, object_ref) gomap" where
  "add_record cluster r refs =
    (let k = r_key r;
         key = cluster @ ''/'' @ k_kind k @ ''/'' @ k_namespace k @ ''/'' @ k_name k;
         ref = (case mget refs key of Some ref \<Rightarrow> ref
                | None \<Rightarrow> \<lparr>of_key = key, of_object = \<lparr>ob_cluster = cluster, ob_kind = k_kind k, ob_namespace = k_namespace k, ob_name = k_name k\<rparr>,
                     of_issues = [], of_since = 0\<rparr>)
     in mput key (ref\<lparr>of_issues := of_issues ref @ [k_issue k],
          of_since := if is_zero_time (of_since ref) \<or> r_firing_since r < of_since ref then r_firing_since r else of_since ref\<rparr>) refs)"

definition objects_from :: "string \<Rightarrow> wrecord list \<Rightarrow> object_ref list" where
  "objects_from cluster records =
    map (\<lambda>(_, ref). ref\<lparr>of_issues := sort_slice (<) (of_issues ref)\<rparr>) (fold (add_record cluster) records [])"

section \<open>The store\<close>

definition explanation_key :: "explanation \<Rightarrow> string" where
  "explanation_key x = xp_cluster x @ ''/'' @ xp_kind x @ ''/'' @ xp_namespace x @ ''/'' @ xp_name x"

definition drop_old :: "explanation \<Rightarrow> (string, explanation) gomap \<Rightarrow> (string, explanation) gomap" where
  "drop_old x m = fold (\<lambda>(k, old) m. if time_sub (xp_at x) (xp_at old) > maxLatestAge then mdel k m else m) m m"

text \<open>The entry the inner loop settles on, with its time; the zero time means that nothing was chosen yet.\<close>

definition oldest_entry :: "(string, explanation) gomap \<Rightarrow> string \<times> time" where
  "oldest_entry m = fold (\<lambda>(k, old) (k0, t0). if is_zero_time t0 \<or> xp_at old < t0 then (k, xp_at old) else (k0, t0)) m ([], 0)"

lemma oldest_entry_mem: "m \<noteq> [] \<Longrightarrow> fst (oldest_entry m) \<in> set (mkeys m)"
proof -
  let ?pick = "\<lambda>(k, old) (k0, t0). if is_zero_time t0 \<or> xp_at old < t0 then (k, xp_at old) else (k0, t0)"
  have later: "fst acc \<in> K \<Longrightarrow> fst ` set es \<subseteq> K \<Longrightarrow> fst (fold ?pick es acc) \<in> K" for es K and acc :: "string \<times> time"
    by (induction es arbitrary: acc) (auto split: prod.splits)
  assume "m \<noteq> []"
  then obtain e es where m: "m = e # es" by (cases m) auto
  have "fst (fold ?pick es (?pick e ([], 0))) \<in> fst ` set m"
    by (rule later) (auto simp: m is_zero_time_def split: prod.split)
  then show ?thesis by (simp add: oldest_entry_def m)
qed

lemma length_mdel_less: "k \<in> set (mkeys m) \<Longrightarrow> length (mdel k m) < length m"
  by (induction m) (force simp: less_Suc_eq_le length_mdel_le Suc_le_eq)+

function evict :: "(string, explanation) gomap \<Rightarrow> (string, explanation) gomap" where
  "evict m = (if length m \<ge> maxLatest then evict (mdel (fst (oldest_entry m)) m) else m)"
  by pat_completeness auto
termination
proof (relation "measure length")
  fix m :: "(string, explanation) gomap" assume "maxLatest \<le> length m"
  then have "m \<noteq> []" by (auto simp: maxLatest_def)
  then show "(mdel (fst (oldest_entry m)) m, m) \<in> measure length"
    using length_mdel_less [OF oldest_entry_mem] by simp
qed simp

declare evict.simps [simp del]

definition store :: "explanation \<Rightarrow> explainer \<Rightarrow> explainer" where
  "store x e =
    (let kept = drop_old x (ex_latest e);
         room = (case mget kept (explanation_key x) of None \<Rightarrow> evict kept | Some _ \<Rightarrow> kept)
     in e\<lparr>ex_latest := mput (explanation_key x) x room\<rparr>)"

definition latest :: "explainer \<Rightarrow> explanation list" where
  "latest e = sort_slice (\<lambda>a b. xp_at a > xp_at b) (map snd (ex_latest e))"

definition oncall_stats_of :: "time \<Rightarrow> explainer \<Rightarrow> oncall_stats" where
  "oncall_stats_of now e = \<lparr>os_allowed = fst (counters (ex_throttle e)), os_throttled = snd (counters (ex_throttle e)),
     os_failed = ex_failed e, os_dropped = ex_dropped e, os_remaining = remaining now (ex_throttle e)\<rparr>"

section \<open>The goroutines\<close>

text \<open>
  What a reconcile goroutine has left of its \<open>Consider\<close>: the objects still to be admitted, the job it was just
  granted, and the arguments of the call.
\<close>

record considering =
  co_refs :: "object_ref list"
  co_held :: "explain_job option"
  co_prompt :: "string \<Rightarrow> string list \<Rightarrow> string"
  co_now :: time

datatype worker_phase = Idle | Running_job explain_job | Exited

text \<open>
  The process: the shared explainer, the goroutines, and three logs of what happened, the calls of the throttle, the
  explanations stored and the notifications sent.
\<close>

record oncall =
  oc_ex :: explainer
  oc_considering :: "(string, considering) gomap"
  oc_worker :: worker_phase
  oc_cancelled :: bool
  oc_asked :: "(string \<times> time) list"
  oc_stored :: "explanation list"
  oc_sent :: "notification list"

definition oncall_start :: "explainer \<Rightarrow> oncall" where
  "oncall_start e = \<lparr>oc_ex = e, oc_considering = [], oc_worker = Idle, oc_cancelled = False, oc_asked = [],
     oc_stored = [], oc_sent = []\<rparr>"

text \<open>The first lines of \<open>Consider\<close>: a cluster's first reconcile is skipped.\<close>

definition consider_begin :: "string \<Rightarrow> delta \<Rightarrow> (string \<Rightarrow> string list \<Rightarrow> string) \<Rightarrow> time \<Rightarrow> oncall \<Rightarrow> oncall" where
  "consider_begin cluster d prompt now s =
    (let primed = mget_zero False (ex_primed (oc_ex s)) cluster;
         s = s\<lparr>oc_ex := (oc_ex s)\<lparr>ex_primed := mput cluster True (ex_primed (oc_ex s))\<rparr>\<rparr>
     in if \<not> primed then s
        else s\<lparr>oc_considering := mput cluster
          \<lparr>co_refs = objects_from cluster (d_new d), co_held = None, co_prompt = prompt, co_now = now\<rparr> (oc_considering s)\<rparr>)"

text \<open>One round of the loop: the throttle is asked, and a granted object becomes a job.\<close>

definition consider_ask :: "string \<Rightarrow> considering \<Rightarrow> object_ref \<Rightarrow> object_ref list \<Rightarrow> oncall \<Rightarrow> oncall" where
  "consider_ask cluster c ref refs s =
    (case allow (of_key ref) (co_now c) (ex_throttle (oc_ex s)) of (th, ok) \<Rightarrow>
      s\<lparr>oc_ex := (oc_ex s)\<lparr>ex_throttle := th\<rparr>, oc_asked := oc_asked s @ [(of_key ref, co_now c)],
        oc_considering := mput cluster (c\<lparr>co_refs := refs,
          co_held := if ok then Some \<lparr>jb_object = of_object ref, jb_issues = of_issues ref, jb_since = of_since ref,
              jb_prompt = co_prompt c (object_string (of_object ref)) (of_issues ref)\<rparr> else None\<rparr>) (oc_considering s)\<rparr>)"

text \<open>The send that never blocks.\<close>

definition consider_send :: "string \<Rightarrow> considering \<Rightarrow> explain_job \<Rightarrow> oncall \<Rightarrow> oncall" where
  "consider_send cluster c j s =
    s\<lparr>oc_ex := (if length (ex_jobs (oc_ex s)) < queueSize then (oc_ex s)\<lparr>ex_jobs := ex_jobs (oc_ex s) @ [j]\<rparr>
                else (oc_ex s)\<lparr>ex_dropped := ex_dropped (oc_ex s) + 1\<rparr>),
      oc_considering := mput cluster (c\<lparr>co_held := None\<rparr>) (oc_considering s)\<rparr>"

text \<open>The end of \<open>run\<close>: the answer of the model is an error or a text; \<open>notify\<close> says that a notifier is set.\<close>

definition run_end :: "bool \<Rightarrow> explain_job \<Rightarrow> string option \<Rightarrow> time \<Rightarrow> oncall \<Rightarrow> oncall" where
  "run_end notify j answer now s =
    (case answer of
      None \<Rightarrow> s\<lparr>oc_ex := (oc_ex s)\<lparr>ex_failed := ex_failed (oc_ex s) + 1\<rparr>, oc_worker := Idle\<rparr>
    | Some text \<Rightarrow>
        if trim_space text = [] then s\<lparr>oc_ex := (oc_ex s)\<lparr>ex_failed := ex_failed (oc_ex s) + 1\<rparr>, oc_worker := Idle\<rparr>
        else let x = \<lparr>xp_cluster = ob_cluster (jb_object j), xp_kind = ob_kind (jb_object j), xp_namespace = ob_namespace (jb_object j),
                      xp_name = ob_name (jb_object j), xp_issues = jb_issues j, xp_at = now, xp_model = ex_model (oc_ex s),
                      xp_text = trim_space text\<rparr>;
                 note' = \<lparr>n_object = jb_object j, n_status = StatusFiring, n_issues = jb_issues j, n_firing_since = jb_since j,
                      n_resolved_at = 0, n_flapping = False, n_reason = ReasonExplanation, n_text = trim_space text\<rparr>
             in s\<lparr>oc_ex := store x (oc_ex s), oc_worker := Idle, oc_stored := oc_stored s @ [x],
                  oc_sent := (if notify then oc_sent s @ [note'] else oc_sent s)\<rparr>)"

inductive oncall_step :: "bool \<Rightarrow> oncall \<Rightarrow> oncall \<Rightarrow> bool" for notify where
  begin_consider: "mget (oc_considering s) cluster = None \<Longrightarrow> oncall_step notify s (consider_begin cluster d prompt now s)"
| ask: "mget (oc_considering s) cluster = Some c \<Longrightarrow> co_held c = None \<Longrightarrow> co_refs c = ref # refs \<Longrightarrow>
    oncall_step notify s (consider_ask cluster c ref refs s)"
| send: "mget (oc_considering s) cluster = Some c \<Longrightarrow> co_held c = Some j \<Longrightarrow> oncall_step notify s (consider_send cluster c j s)"
| end_consider: "mget (oc_considering s) cluster = Some c \<Longrightarrow> co_held c = None \<Longrightarrow> co_refs c = [] \<Longrightarrow>
    oncall_step notify s (s\<lparr>oc_considering := mdel cluster (oc_considering s)\<rparr>)"
| launch: "oncall_step notify s (s\<lparr>oc_ex := (oc_ex s)\<lparr>ex_started := True\<rparr>\<rparr>)"
| cancel: "oncall_step notify s (s\<lparr>oc_cancelled := True\<rparr>)"
| take_job: "ex_started (oc_ex s) \<Longrightarrow> oc_worker s = Idle \<Longrightarrow> ex_jobs (oc_ex s) = j # js \<Longrightarrow>
    oncall_step notify s (s\<lparr>oc_ex := (oc_ex s)\<lparr>ex_jobs := js\<rparr>, oc_worker := Running_job j\<rparr>)"
| finish_job: "oc_worker s = Running_job j \<Longrightarrow> oncall_step notify s (run_end notify j answer now s)"
| quit: "ex_started (oc_ex s) \<Longrightarrow> oc_worker s = Idle \<Longrightarrow> oc_cancelled s \<Longrightarrow> oncall_step notify s (s\<lparr>oc_worker := Exited\<rparr>)"

inductive oncall_reachable :: "bool \<Rightarrow> explainer \<Rightarrow> oncall \<Rightarrow> bool" for notify e where
  init: "oncall_reachable notify e (oncall_start e)"
| step: "oncall_reachable notify e s \<Longrightarrow> oncall_step notify s s' \<Longrightarrow> oncall_reachable notify e s'"

section \<open>Accounting\<close>

fun held_count :: "considering \<Rightarrow> nat" where
  "held_count c = (case co_held c of None \<Rightarrow> 0 | Some _ \<Rightarrow> 1)"

fun running_count :: "worker_phase \<Rightarrow> nat" where
  "running_count (Running_job _) = 1"
| "running_count _ = 0"

text \<open>
  Every call the throttle granted is on its way, queued, running, failed, dropped or explained; the throttle has seen
  exactly the calls that were made; and queue and store respect their bounds.
\<close>

definition oncall_inv :: "explainer \<Rightarrow> bool \<Rightarrow> oncall \<Rightarrow> bool" where
  "oncall_inv e notify s \<longleftrightarrow>
    mok (oc_considering s) \<and> mok (ex_latest (oc_ex s)) \<and> length (ex_jobs (oc_ex s)) \<le> queueSize \<and>
    length (ex_latest (oc_ex s)) \<le> maxLatest \<and>
    ex_throttle (oc_ex s) = fst (allow_run (oc_asked s) (ex_throttle e)) \<and>
    th_allowed (ex_throttle (oc_ex s)) = msum held_count (oc_considering s) + length (ex_jobs (oc_ex s)) +
      running_count (oc_worker s) + ex_failed (oc_ex s) + ex_dropped (oc_ex s) + length (oc_stored s) \<and>
    length (oc_sent s) = (if notify then length (oc_stored s) else 0)"

lemma length_evict: "length (evict m) < maxLatest"
proof (induction m rule: evict.induct)
  case (1 m)
  then show ?case by (subst evict.simps) auto
qed

lemma mok_evict: "mok m \<Longrightarrow> mok (evict m)"
proof (induction m rule: evict.induct)
  case (1 m)
  then show ?case by (subst evict.simps) simp
qed

lemma same_entry: "mok m \<Longrightarrow> (k, v) \<in> set m \<Longrightarrow> (k, w) \<in> set m \<Longrightarrow> v = w"
  by (simp add: in_set_mget)

lemma drop_old_filter:
  "mok m \<Longrightarrow> drop_old x m = filter (\<lambda>(k, old). \<not> time_sub (xp_at x) (xp_at old) > maxLatestAge) m"
  unfolding drop_old_def fold_mdel [where Q = "\<lambda>k old. time_sub (xp_at x) (xp_at old) > maxLatestAge"]
  by (rule filter_cong) (auto dest: same_entry)

lemma store_bounds:
  assumes "mok (ex_latest e)" "length (ex_latest e) \<le> maxLatest"
  shows "mok (ex_latest (store x e)) \<and> length (ex_latest (store x e)) \<le> maxLatest"
proof -
  define kept where "kept = drop_old x (ex_latest e)"
  have kept: "mok kept" "length kept \<le> maxLatest"
    using assms le_trans [OF length_filter_le assms(2)] by (simp_all add: kept_def drop_old_filter mok_filter)
  show ?thesis
  proof (cases "mget kept (explanation_key x)")
    case None
    then show ?thesis
      using length_evict [of kept] mok_evict [OF kept(1)] length_mput [OF mok_evict [OF kept(1)], of "explanation_key x" x]
      by (simp add: store_def kept_def [symmetric] Let_def)
  next
    case (Some y)
    then show ?thesis using kept by (simp add: store_def kept_def [symmetric] Let_def length_mput)
  qed
qed

lemma store_frame [simp]:
  "ex_throttle (store x e) = ex_throttle e" "ex_jobs (store x e) = ex_jobs e" "ex_dropped (store x e) = ex_dropped e"
  "ex_failed (store x e) = ex_failed e" "ex_model (store x e) = ex_model e" "ex_primed (store x e) = ex_primed e"
  "ex_started (store x e) = ex_started e"
  by (simp_all add: store_def Let_def)

lemma allow_run_snoc: "fst (allow_run (evs @ [(k, now)]) t) = fst (allow k now (fst (allow_run evs t)))"
  by (simp add: allow_run_fst allow_step_def)

lemma oncall_inv_start:
  "th_allowed (ex_throttle e) = 0 \<Longrightarrow> ex_jobs e = [] \<Longrightarrow> ex_failed e = 0 \<Longrightarrow> ex_dropped e = 0 \<Longrightarrow> ex_latest e = [] \<Longrightarrow>
    oncall_inv e notify (oncall_start e)"
  by (simp add: oncall_inv_def oncall_start_def)

lemma msum_mdel:
  fixes g :: "'v \<Rightarrow> nat"
  shows "mok m \<Longrightarrow> msum g (mdel k m) + (case mget m k of None \<Rightarrow> 0 | Some w \<Rightarrow> g w) = msum g m"
  by (induction m) (auto simp: map_of_eq_None_iff delete_notin_dom ac_simps split: option.splits)

lemma oncall_inv_step:
  assumes "oncall_inv e notify s" "oncall_step notify s s'"
  shows "oncall_inv e notify s'"
  using assms(2,1)
proof cases
  case (begin_consider cluster d prompt now)
  then show ?thesis using assms(1)
      msum_mput [of "oc_considering s" held_count cluster "\<lparr>co_refs = objects_from cluster (d_new d), co_held = None, co_prompt = prompt, co_now = now\<rparr>"]
    by (auto simp: oncall_inv_def consider_begin_def Let_def)
next
  case (ask cluster c ref refs)
  obtain th ok where allow: "allow (of_key ref) (co_now c) (ex_throttle (oc_ex s)) = (th, ok)" by force
  have "mok (oc_considering s)" using assms(1) by (simp add: oncall_inv_def)
  note sum = msum_mput [OF this, of held_count cluster]
  define c' where "c' = c\<lparr>co_refs := refs, co_held := if ok then Some \<lparr>jb_object = of_object ref, jb_issues = of_issues ref,
    jb_since = of_since ref, jb_prompt = co_prompt c (object_string (of_object ref)) (of_issues ref)\<rparr> else None\<rparr>"
  have s': "consider_ask cluster c ref refs s = s\<lparr>oc_ex := (oc_ex s)\<lparr>ex_throttle := th\<rparr>,
      oc_asked := oc_asked s @ [(of_key ref, co_now c)], oc_considering := mput cluster c' (oc_considering s)\<rparr>"
    by (simp add: consider_ask_def allow c'_def)
  have "msum held_count (mput cluster c' (oc_considering s)) = msum held_count (oc_considering s) + (if ok then 1 else 0)"
    using sum [of c'] ask(2,3) by (simp add: c'_def)
  moreover have "th_allowed th = th_allowed (ex_throttle (oc_ex s)) + (if ok then 1 else 0)"
    using allow_counts(1) [of "of_key ref" "co_now c" "ex_throttle (oc_ex s)"] allow by simp
  moreover have "th = fst (allow_run (oc_asked s @ [(of_key ref, co_now c)]) (ex_throttle e))"
    using assms(1) allow by (simp add: allow_run_snoc oncall_inv_def)
  ultimately show ?thesis using assms(1)
    by (auto simp: ask(1) s' oncall_inv_def)
next
  case (send cluster c j)
  have "mok (oc_considering s)" using assms(1) by (simp add: oncall_inv_def)
  from msum_mput [OF this, of held_count cluster "c\<lparr>co_held := None\<rparr>"] show ?thesis
    using assms(1) send(2,3) by (auto simp: send(1) oncall_inv_def consider_send_def)
next
  case (end_consider cluster c)
  have "mok (oc_considering s)" using assms(1) by (simp add: oncall_inv_def)
  from msum_mdel [OF this, of held_count cluster] show ?thesis
    using assms(1) end_consider(2,3) by (auto simp: end_consider(1) oncall_inv_def)
next
  case (take_job j js)
  then show ?thesis using assms(1) by (auto simp: oncall_inv_def)
next
  case (finish_job j answer now)
  show ?thesis using assms(1) finish_job(2) store_bounds
    by (auto simp: finish_job(1) oncall_inv_def run_end_def Let_def split: option.split)
next
  case quit
  then show ?thesis using assms(1) by (auto simp: oncall_inv_def)
qed (auto simp: oncall_inv_def)

lemma oncall_invariant: "oncall_reachable notify (explainer_new mdl cooldown budget) s \<Longrightarrow>
    oncall_inv (explainer_new mdl cooldown budget) notify s"
  by (induction rule: oncall_reachable.induct)
    (simp_all add: oncall_inv_step oncall_inv_start explainer_new_def throttle_new_def Let_def)

text \<open>
  C16. No granted explanation is lost and no bound is exceeded, however the goroutines of the clusters and the worker
  interleave. In every reachable state each call the throttle granted is accounted for exactly once: granted and not yet
  sent, queued, with the model, failed, dropped at a full queue, or explained; each explanation was notified once if
  a notifier is set; the queue holds at most eight jobs and the store at most one hundred explanations.
\<close>

theorem oncall_accounting:
  assumes "oncall_reachable notify (explainer_new mdl cooldown budget) s"
  shows "fst (counters (ex_throttle (oc_ex s))) =
      msum held_count (oc_considering s) + length (ex_jobs (oc_ex s)) + running_count (oc_worker s) +
      ex_failed (oc_ex s) + ex_dropped (oc_ex s) + length (oc_stored s) \<and>
    length (oc_sent s) = (if notify then length (oc_stored s) else 0) \<and>
    length (ex_jobs (oc_ex s)) \<le> queueSize \<and> length (latest (oc_ex s)) \<le> maxLatest"
  using oncall_invariant [OF assms] by (auto simp: oncall_inv_def counters_def latest_def)

lemma allowed_bound:
  assumes "evs \<noteq> []" and "sorted (map snd evs)"
  shows "of_nat (th_allowed (fst (allow_run evs (throttle_new cooldown budget)))) \<le>
    of_int (max 1 budget) * (1 + seconds (snd (last evs) - snd (hd evs)) / 3600)"
  using budget_run [OF assms, of cooldown budget] allow_run_allowed [of evs "throttle_new cooldown budget"]
  by (simp add: throttle_new_def Let_def)

text \<open>
  The hourly budget holds for the whole process, not per cluster. If the clocks of the calls are in order, the
  explanations delivered, the failed calls and the one under way together are at most the budget plus the budget per
  hour of the run, whatever number of clusters share the explainer.
\<close>

theorem oncall_budget:
  assumes "oncall_reachable notify (explainer_new mdl cooldown budget) s" and "oc_asked s \<noteq> []" and "sorted (map snd (oc_asked s))"
  shows "of_nat (length (oc_stored s) + ex_failed (oc_ex s) + running_count (oc_worker s)) \<le>
    of_int (max 1 budget) * (1 + seconds (snd (last (oc_asked s)) - snd (hd (oc_asked s))) / 3600)"
proof -
  have inv: "oncall_inv (explainer_new mdl cooldown budget) notify s" by (rule oncall_invariant [OF assms(1)])
  then have "length (oc_stored s) + ex_failed (oc_ex s) + running_count (oc_worker s) \<le>
      th_allowed (fst (allow_run (oc_asked s) (throttle_new cooldown budget)))"
    by (auto simp: oncall_inv_def explainer_new_def)
  then have "(of_nat (length (oc_stored s) + ex_failed (oc_ex s) + running_count (oc_worker s)) :: rat) \<le>
      of_nat (th_allowed (fst (allow_run (oc_asked s) (throttle_new cooldown budget))))" by (rule of_nat_mono)
  then show ?thesis using allowed_bound [OF assms(2,3), of cooldown budget] by linarith
qed

section \<open>What the store keeps\<close>

lemma mget_evict_or_older:
  assumes "mok m" and "\<forall>(k, y)\<in>set m. \<not> is_zero_time (xp_at y)" and "length m \<le> maxLatest" and "(k, y) \<in> set m"
  shows "(k, y) \<in> set (evict m) \<or> (maxLatest \<le> length m \<and> (\<forall>(k', y')\<in>set m. xp_at y \<le> xp_at y'))"
proof (cases "maxLatest \<le> length m")
  case False
  then show ?thesis using assms(4) by (subst evict.simps) simp
next
  case True
  let ?old = "fst (oldest_entry m)"
  have small: "length (mdel ?old m) < maxLatest"
  proof -
    have "m \<noteq> []" using assms(4) by auto
    from length_mdel_less [OF oldest_entry_mem [OF this]] assms(3) show ?thesis by simp
  qed
  have evict: "evict m = mdel ?old m"
    using True small by (subst evict.simps, simp, subst evict.simps, simp)
  show ?thesis
  proof (cases "k = ?old")
    case False
    then have "mget (mdel ?old m) k = Some y" using assms(1,4) by (simp add: in_set_mget)
    then show ?thesis using assms(1) by (simp add: evict in_set_mget)
  next
    case eq: True
    have pick: "\<not> is_zero_time (snd acc) \<or> es \<noteq> [] \<Longrightarrow> \<forall>(k, y)\<in>set es. \<not> is_zero_time (xp_at y) \<Longrightarrow>
        (let (k', t') = fold (\<lambda>(k, old) (k0, t0). if is_zero_time t0 \<or> xp_at old < t0 then (k, xp_at old) else (k0, t0)) es acc in
          (\<not> is_zero_time (snd acc) \<longrightarrow> t' \<le> snd acc) \<and> (\<forall>(k, y)\<in>set es. t' \<le> xp_at y) \<and>
          ((k', t') = acc \<and> \<not> is_zero_time (snd acc) \<or> (\<exists>y. (k', y) \<in> set es \<and> xp_at y = t')))" for es and acc :: "string \<times> time"
    proof (induction es arbitrary: acc)
      case (Cons e es)
      obtain k1 y1 where e: "e = (k1, y1)" by (cases e)
      define acc' where "acc' = (if is_zero_time (snd acc) \<or> xp_at y1 < snd acc then (k1, xp_at y1) else acc)"
      have nz: "\<not> is_zero_time (snd acc')" using Cons.prems e by (auto simp: acc'_def)
      have "fold (\<lambda>(k, old) (k0, t0). if is_zero_time t0 \<or> xp_at old < t0 then (k, xp_at old) else (k0, t0)) (e # es) acc =
        fold (\<lambda>(k, old) (k0, t0). if is_zero_time t0 \<or> xp_at old < t0 then (k, xp_at old) else (k0, t0)) es acc'"
        by (cases acc) (simp add: e acc'_def)
      with Cons.IH [of acc'] nz Cons.prems show ?case
        by (auto simp: acc'_def e Let_def split: prod.splits if_splits) 
    qed auto
    have "m \<noteq> []" using assms(4) by auto
    from pick [of "([], 0)" m] this assms(2)
    obtain y0 t' where "oldest_entry m = (?old, t')" "\<forall>(k, y)\<in>set m. t' \<le> xp_at y" "(?old, y0) \<in> set m" "xp_at y0 = t'"
      by (auto simp: oldest_entry_def is_zero_time_def Let_def split: prod.splits)
    moreover have "y0 = y" using assms(1,4) eq calculation(3) by (auto simp: in_set_mget)
    ultimately show ?thesis using True by auto
  qed
qed

lemma evict_subset: "mok m \<Longrightarrow> mget (evict m) k = Some y \<Longrightarrow> mget m k = Some y"
proof (induction m rule: evict.induct)
  case (1 m)
  show ?case
  proof (cases "maxLatest \<le> length m")
    case True
    have "mget (evict (mdel (fst (oldest_entry m)) m)) k = Some y" using 1(3) True by (subst (asm) evict.simps) simp
    with 1(1) [OF True] 1(2) have "mget (mdel (fst (oldest_entry m)) m) k = Some y" by simp
    then show ?thesis by (simp split: if_splits)
  next
    case False
    with 1(3) show ?thesis by (subst (asm) evict.simps) simp
  qed
qed

text \<open>
  What the store keeps. The explanation just stored is served. Any other stays unless it is more than a day older
  than the new one, or the store was full of younger ones, and then only one of the oldest goes; and nothing else is
  ever served.
\<close>

theorem store_keeps:
  assumes "mok (ex_latest e)" and "length (ex_latest e) \<le> maxLatest" and "\<forall>(k, y)\<in>set (ex_latest e). \<not> is_zero_time (xp_at y)"
    and "outdated = (\<lambda>y. maxLatestAge < time_sub (xp_at x) (xp_at y))"
  shows "mget (ex_latest (store x e)) (explanation_key x) = Some x \<and>
    (\<forall>k y. mget (ex_latest e) k = Some y \<and> k \<noteq> explanation_key x \<longrightarrow>
       mget (ex_latest (store x e)) k = Some y \<or> outdated y \<or>
       length (ex_latest e) = maxLatest \<and> (\<forall>k' y'. mget (ex_latest e) k' = Some y' \<and> \<not> outdated y' \<longrightarrow> xp_at y \<le> xp_at y')) \<and>
    (\<forall>k y. mget (ex_latest (store x e)) k = Some y \<longrightarrow>
       k = explanation_key x \<and> y = x \<or> mget (ex_latest e) k = Some y \<and> \<not> outdated y)"
proof -
  define kept where "kept = drop_old x (ex_latest e)"
  have kept_eq: "kept = filter (\<lambda>(k, old). \<not> outdated old) (ex_latest e)"
    using assms(1,4) by (simp add: kept_def drop_old_filter)
  have mok: "mok kept" using assms(1) by (simp add: kept_eq mok_filter)
  have get: "mget kept k = Some y \<longleftrightarrow> mget (ex_latest e) k = Some y \<and> \<not> outdated y" for k y
    using assms(1) mok by (auto simp: kept_eq in_set_mget [symmetric])
  have len: "length kept \<le> length (ex_latest e)" by (simp add: kept_eq)
  have room: "ex_latest (store x e) = mput (explanation_key x) x (case mget kept (explanation_key x) of None \<Rightarrow> evict kept | Some _ \<Rightarrow> kept)"
    by (simp add: store_def kept_def [symmetric] Let_def)
  have kept_or: "mget (evict kept) k = Some y \<or> length (ex_latest e) = maxLatest \<and> (\<forall>k' y'. mget kept k' = Some y' \<longrightarrow> xp_at y \<le> xp_at y')"
    if "mget kept k = Some y" for k y
  proof -
    have "\<forall>(k, y)\<in>set kept. \<not> is_zero_time (xp_at y)" using assms(3) by (auto simp: kept_eq)
    from mget_evict_or_older [OF mok this, of k y] that len assms(2) mok mok_evict [OF mok] show ?thesis
      by (auto simp: in_set_mget)
  qed
  show ?thesis unfolding room using kept_or evict_subset [OF mok] get by (auto split: option.split)
qed

text \<open>
  Reading the explanations does not prune them. The comment of \<open>Latest\<close> says that they are pruned by age, but an
  explanation that nothing was stored after is served for ever: no step of the process but a store removes one.
\<close>

theorem latest_never_prunes:
  assumes "oncall_step notify s s'" and "oc_stored s' = oc_stored s"
  shows "latest (oc_ex s') = latest (oc_ex s)"
  using assms
  by cases (auto simp: latest_def consider_begin_def consider_ask_def consider_send_def run_end_def Let_def
    split: prod.splits option.splits if_splits)

section \<open>A run\<close>

text \<open>The second reconcile of a cluster finds one broken object; it is explained.\<close>

definition run_record :: wrecord where
  "run_record = \<lparr>r_key = \<lparr>k_kind = ''Deployment'', k_namespace = ''shop'', k_name = ''web'', k_issue = ''OOMKilled''\<rparr>,
     r_first_seen = 5, r_firing_since = 5, r_last_seen = 5, r_active = True, r_firings = 1, r_resolved_at = 0,
     r_flapping = False, r_recent_firings = 1\<rparr>"

definition run_delta :: delta where
  "run_delta = \<lparr>d_new = [run_record], d_resolved = [], d_ongoing = [], d_newly_flapping = []\<rparr>"

definition run_ref :: object_ref where
  "run_ref = \<lparr>of_key = ''prod/Deployment/shop/web'', of_object = \<lparr>ob_cluster = ''prod'', ob_kind = ''Deployment'', ob_namespace = ''shop'',
     ob_name = ''web''\<rparr>, of_issues = [''OOMKilled''], of_since = 5\<rparr>"

definition run_job :: explain_job where
  "run_job = \<lparr>jb_object = of_object run_ref, jb_issues = [''OOMKilled''], jb_since = 5, jb_prompt = ''why''\<rparr>"

definition run_explainer :: explainer where "run_explainer = explainer_new ''m'' hour 5"

definition run_asked :: oncall where
  "run_asked = (let s = oncall_start run_explainer in
     s\<lparr>oc_ex := (oc_ex s)\<lparr>ex_primed := [(''prod'', True)], ex_throttle := fst (allow (of_key run_ref) 7 (ex_throttle run_explainer)),
          ex_jobs := [run_job], ex_started := True\<rparr>,
       oc_considering := [(''prod'', \<lparr>co_refs = [], co_held = None, co_prompt = (\<lambda>_ _. ''why''), co_now = 7\<rparr>)],
       oc_asked := [(of_key run_ref, 7)]\<rparr>)"

definition run_done :: oncall where
  "run_done = run_end True run_job (Some ''oom'') 9
     (run_asked\<lparr>oc_ex := (oc_ex run_asked)\<lparr>ex_jobs := []\<rparr>, oc_worker := Running_job run_job\<rparr>)"

lemma run_allowed: "snd (allow (of_key run_ref) 7 (ex_throttle run_explainer))"
  by (simp add: allow_def refill_def prune_def run_explainer_def explainer_new_def throttle_new_def Let_def is_zero_time_def)

lemma run_objects: "objects_from ''prod'' (d_new run_delta) = [run_ref]"
  by (simp add: objects_from_def run_delta_def add_record_def run_record_def run_ref_def Let_def is_zero_time_def)

lemma run_asked_reachable: "oncall_reachable True run_explainer run_asked"
proof -
  let ?reach = "oncall_reachable True run_explainer"
  let ?s = "(oncall_start run_explainer)\<lparr>oc_ex := run_explainer\<lparr>ex_primed := [(''prod'', True)]\<rparr>,
      oc_considering := [(''prod'', \<lparr>co_refs = [run_ref], co_held = None, co_prompt = (\<lambda>_ _. ''why''), co_now = 7\<rparr>)]\<rparr>"
  have "?reach (consider_begin ''prod'' run_delta (\<lambda>_ _. ''why'') 7 (oncall_start run_explainer))"
    by (rule oncall_reachable.step [OF oncall_reachable.init oncall_step.begin_consider]) (simp add: oncall_start_def)
  then have "?reach (consider_begin ''prod'' run_delta (\<lambda>_ _. ''why'') 7
      (consider_begin ''prod'' run_delta (\<lambda>_ _. ''why'') 7 (oncall_start run_explainer)))"
    by (rule oncall_reachable.step [OF _ oncall_step.begin_consider])
      (simp add: oncall_start_def consider_begin_def run_explainer_def explainer_new_def mget_zero_def)
  then have "?reach ?s"
    by (simp add: oncall_start_def consider_begin_def run_explainer_def explainer_new_def mget_zero_def run_objects)
  moreover have "oncall_step True ?s (consider_ask ''prod'' \<lparr>co_refs = [run_ref], co_held = None, co_prompt = (\<lambda>_ _. ''why''), co_now = 7\<rparr> run_ref [] ?s)"
    by (rule oncall_step.ask) simp_all
  ultimately have reach: "?reach (consider_ask ''prod'' \<lparr>co_refs = [run_ref], co_held = None, co_prompt = (\<lambda>_ _. ''why''), co_now = 7\<rparr> run_ref [] ?s)"
    by (rule oncall_reachable.step)
  obtain th where th: "allow (of_key run_ref) 7 (ex_throttle run_explainer) = (th, True)"
    using run_allowed by (cases "allow (of_key run_ref) 7 (ex_throttle run_explainer)") simp
  define s2 where "s2 = ?s\<lparr>oc_ex := run_explainer\<lparr>ex_primed := [(''prod'', True)], ex_throttle := th\<rparr>, oc_asked := [(of_key run_ref, 7)],
      oc_considering := [(''prod'', \<lparr>co_refs = [], co_held = Some run_job, co_prompt = (\<lambda>_ _. ''why''), co_now = 7\<rparr>)]\<rparr>"
  have "consider_ask ''prod'' \<lparr>co_refs = [run_ref], co_held = None, co_prompt = (\<lambda>_ _. ''why''), co_now = 7\<rparr> run_ref [] ?s = s2"
    by (simp add: s2_def consider_ask_def th run_job_def oncall_start_def) (simp add: run_ref_def)
  with reach have "?reach s2" by simp
  moreover have "oncall_step True s2 (consider_send ''prod'' \<lparr>co_refs = [], co_held = Some run_job, co_prompt = (\<lambda>_ _. ''why''), co_now = 7\<rparr> run_job s2)"
    by (rule oncall_step.send) (simp_all add: s2_def)
  ultimately have "?reach (consider_send ''prod'' \<lparr>co_refs = [], co_held = Some run_job, co_prompt = (\<lambda>_ _. ''why''), co_now = 7\<rparr> run_job s2)"
    by (rule oncall_reachable.step)
  note launched = oncall_reachable.step [OF this oncall_step.launch]
  have jobs: "ex_jobs run_explainer = []" by (simp add: run_explainer_def explainer_new_def)
  show ?thesis
    using launched by (simp add: consider_send_def s2_def run_asked_def oncall_start_def queueSize_def th jobs Let_def)
qed

lemma run_done_reachable: "oncall_reachable True run_explainer run_done"
proof -
  have "oncall_step True run_asked (run_asked\<lparr>oc_ex := (oc_ex run_asked)\<lparr>ex_jobs := []\<rparr>, oc_worker := Running_job run_job\<rparr>)"
    by (rule oncall_step.take_job) (simp_all add: run_asked_def oncall_start_def Let_def)
  from oncall_reachable.step [OF run_asked_reachable this] show ?thesis
    unfolding run_done_def by (rule oncall_reachable.step) (rule oncall_step.finish_job, simp)
qed

lemma run_done_facts:
  "length (oc_stored run_done) = 1" "oc_asked run_done = [(of_key run_ref, 7)]" "ex_failed (oc_ex run_done) = 0"
  "oc_worker run_done = Idle"
proof -
  have "trim_space ''oom'' \<noteq> []" by code_simp
  then show "length (oc_stored run_done) = 1" "oc_asked run_done = [(of_key run_ref, 7)]" "ex_failed (oc_ex run_done) = 0"
    "oc_worker run_done = Idle"
    by (simp_all add: run_done_def run_end_def run_asked_def oncall_start_def run_explainer_def explainer_new_def Let_def)
qed

theorem oncall_accounting_witness: "length (oc_sent run_done) = 1"
  using oncall_accounting [OF run_done_reachable [unfolded run_explainer_def]] run_done_facts(1) by simp

theorem oncall_budget_witness:
  "oc_asked run_done \<noteq> [] \<and> of_nat (length (oc_stored run_done)) \<le> (5 :: rat)"
  using oncall_budget [OF run_done_reachable [unfolded run_explainer_def]]
  by (simp add: run_done_facts seconds_def)

theorem store_keeps_witness:
  "mget (ex_latest (store (hd (oc_stored run_done)) run_explainer)) (explanation_key (hd (oc_stored run_done))) = Some (hd (oc_stored run_done))"
  using store_keeps [of run_explainer "\<lambda>y. maxLatestAge < time_sub (xp_at (hd (oc_stored run_done))) (xp_at y)" "hd (oc_stored run_done)"]
  by (simp add: run_explainer_def explainer_new_def)

theorem latest_never_prunes_witness:
  "latest (oc_ex (run_done\<lparr>oc_cancelled := True\<rparr>)) = latest (oc_ex run_done)"
  using latest_never_prunes [OF oncall_step.cancel [of True run_done]] by simp

end
