(* ===== verification/Spec2Isabelle.thy ===== *)
theory Spec2Isabelle
  imports Tui_Screen Rbac_Profile Operators Fleet Log_Lint Storage_Health Capacity Baseline Cluster_Health Object_Health Service_Health Probe_Failure Throttle Watch_Daemon Glob Policy_Load Gate Remediate Rollout_Wait Worker_Pool Hypothesis_Decision Annotators Oncall
begin

text \<open>
  A verification development for kubeagent (\<open>src/main.go\<close>, \<open>src/internal\<close>): a tool that reads a Kubernetes
  cluster, says what is wrong in it, gates a pipeline on the answer, applies a few safe fixes and, as
  a daemon, tracks issues over time.

  \<^bold>\<open>The program.\<close> A scan (\<open>internal/scan\<close>) reads the objects of a cluster, remembers every read that failed
  as a blind spot, and hands what it read to independent assessors: the pod detectors (\<open>internal/diagnose\<close>)
  whose findings \<open>internal/inventory\<close> groups by workload, passes that annotate those workloads and attribute
  a root cause, and one package per other kind of object. \<open>internal/findings\<close> projects the result to a
  flat list; \<open>internal/policy\<close> and \<open>internal/baseline\<close> add the operator's rules and the deviations from a
  captured baseline; \<open>internal/gate\<close> decides, and \<open>internal/fleet\<close> does so over many clusters with the pool
  of \<open>internal/parallel\<close>. \<open>internal/remediate\<close> plans and applies fixes, \<open>internal/rolloutwait\<close> waits for
  them. The daemon (\<open>internal/watch\<close>) feeds each result to \<open>internal/watchstate\<close>, which knows what is new and
  what is resolved, \<open>internal/alertstate\<close> turns that into notifications per object, \<open>internal/slo\<close> measures
  burn rates, and \<open>internal/oncall\<close> asks a model for explanations within a budget. \<open>internal/tui\<close> browses
  the findings of one scan.

  \<^bold>\<open>Shared theories.\<close>
  \<^item> \<open>Kube_Prelude\<close>: time, Go maps (locale \<open>keyed_store\<close>), \<open>sort.Slice\<close> and comparators (locales \<open>slice_less\<close>,
    \<open>slice_total\<close>), decimal text, panics (type \<open>go\<close>), the daemon's loops (locale \<open>reconcile_loop\<close>).
  \<^item> \<open>Go_Strings\<close>, \<open>Safetext\<close> (\<open>internal/safetext\<close> and UTF-8), \<open>Regex\<close> (Go's leftmost-first matching, with its
    equivalence to a relation on splits), \<open>Kube_Api\<close> (the objects with the fields the code reads), \<open>Scan_Result\<close>
    (the issue types and the result of a scan).

  \<^bold>\<open>Components.\<close> Definitions have the names of the source's functions, with underscores; a field prefix
  tells the record.
  \<^item> \<open>Diagnose\<close>, \<open>Probe_Failure\<close>: the eleven detectors, their default order and \<open>Run\<close>, with the panic of the
    probe detector as a value (locale \<open>detector\<close>, interpreted once per detector). \<open>Inventory\<close>: workloads, ages
    and the RFC 3339 text. \<open>Root_Cause\<close>: \<open>internal/rootcause\<close> and \<open>internal/confidence\<close>. \<open>Hypothesis_Decision\<close>:
    \<open>internal/hypothesis\<close>. \<open>Annotators\<close>: \<open>internal/batchhealth\<close>, \<open>internal/createhealth\<close>, \<open>internal/rollouthealth\<close>,
    \<open>internal/netpolicy\<close>, \<open>internal/rollout\<close>, and the order in which a scan applies them.
  \<^item> \<open>Cluster_Health\<close>: \<open>internal/clusterhealth\<close>, \<open>internal/controlplane\<close>, \<open>internal/nodehealth\<close>,
    \<open>internal/nodereserve\<close>. \<open>Service_Health\<close>: \<open>internal/svchealth\<close>, \<open>internal/ingresshealth\<close>,
    \<open>internal/webhookhealth\<close>. \<open>Storage_Health\<close>: \<open>internal/pvchealth\<close>, \<open>internal/termhealth\<close>.
    \<open>Object_Health\<close>: \<open>internal/pdbhealth\<close>, \<open>internal/hpahealth\<close>, \<open>internal/quotahealth\<close>,
    \<open>internal/pvcreclaim\<close>. \<open>Probe_Health\<close>: \<open>internal/diskusage\<close>, \<open>internal/dnshealth\<close>, \<open>internal/certhealth\<close>.
    \<open>Security_Posture\<close>: \<open>internal/secscan\<close>. \<open>Log_Lint\<close>: \<open>internal/credlint\<close>, \<open>internal/logscan\<close>,
    \<open>internal/connectivity\<close>, \<open>internal/redact\<close>. \<open>Operators\<close>: \<open>internal/operators\<close> and \<open>internal/gitops\<close>.
    \<open>Resources\<close>, \<open>Capacity\<close>: \<open>internal/resources\<close> and \<open>internal/capacity\<close>. \<open>Baseline\<close>: \<open>internal/baseline\<close> and the
    samples \<open>internal/cli/baseline.go\<close> takes.
  \<^item> \<open>Scan_Evaluate\<close>: \<open>Evaluate\<close> of \<open>internal/scan/scan.go\<close>, the composition of all of these, with its read sets,
    its blind spots and the logs it attaches.
  \<^item> \<open>Findings\<close>, \<open>Gate\<close>, \<open>Glob\<close>: the projection and the verdict. \<open>Policy_Path\<close>, \<open>Policy\<close>, \<open>Policy_Load\<close>: the rule
    language, its evaluation and its loading. \<open>Rbac_Profile\<close>: \<open>internal/rbacprofile\<close>, the permissions each
    feature needs.
  \<^item> \<open>Worker_Pool\<close>, \<open>Fleet\<close>: the pool as a step relation over its goroutines, and the sweep that uses it.
  \<^item> \<open>Remediate\<close>, \<open>Rollout_Wait\<close>: guarded writes under conflicts (locale \<open>guarded_attempt\<close>, interpreted for the
    four fixes) and the polling loop.
  \<^item> \<open>Watch_State\<close>, \<open>Alert_State\<close>, \<open>Slo\<close>, \<open>Throttle\<close>, \<open>Oncall\<close>, \<open>Watch_Daemon\<close>: the daemon's state machines and
    how one reconcile drives them.
  \<^item> \<open>Tui\<close>: keys, model and \<open>Update\<close> of the terminal browser. \<open>Tui_Screen\<close>: what it draws and its input loop.

  \<^bold>\<open>What is shown.\<close> This theory proves what spans the most components: a passing gate has enforced every
  policy rule. Each component theory proves its own: invariants that every operation keeps (the tracker,
  the roller, the throttle, the explainer, the pool, the browser); what a report contains, exactly, on every branch
  (the gate's verdict, blind spots, certificates, drift, RBAC checks, security posture); equivalence with a
  specification (the glob matcher, the policy read plan, a fleet sweep under any interleaving, key decoding under any
  split of the bytes); refinement (notifications replayed by a receiver, the SLO ring against the list of all
  samples, first fit against a placement); termination (the pool, the polling loop); round trips (policy
  paths); and what must never happen (an unguarded write, a resolved alert for a broken object, a ConfigMap's
  contents or a credential in a report, a write verb in an RBAC profile). Three properties state faults
  instead: a panic, a missed drift check and a wrong recovery notice at the tracker's cap.

  \<^bold>\<open>Conventions.\<close> A Go string is the list of its bytes; runes appear where the source decodes them. A map is
  an association list in the order the runtime happened to iterate, so that a theorem about every list is one
  about every order. \<open>sort.Slice\<close> is a stable sort with the comparator of the source. int64 is an integer with
  its wrap-around written out where sums or products can leave the range; counters and lengths are naturals.
  float64 is an exact rational, rounded to the nearest double where rounding can be observed (\<open>Baseline\<close>,
  \<open>Capacity\<close>, \<open>Probe_Health\<close>). Errors are the left side of a sum, panics a value of their own. The clock is an
  argument. Methods that hold a mutex are one step; goroutines interleave between steps.

  \<^bold>\<open>Bounds.\<close> No loop of the model has artificial fuel: loops are structural recursion or have a termination
  proof, and the only one that may run forever, the polling loop of \<open>Rollout_Wait\<close>, is a partial function shown to return
  within \<open>timeout / interval + 2\<close> reads. The certificate loop stops after 32 blocks and the retries of a
  guarded write after the answers of the server, as in the source.

  \<^bold>\<open>Parameters.\<close> The Unicode tables and case maps of the toolchain; parsing of resource quantities, floats,
  durations, timestamps, YAML, JSON, URLs, PEM and X.509; the regular-expression engine behind a policy's
  \<open>matches\<close> operator; label selectors; the answers of the API server, the kubelets, the metrics endpoints
  and the language model. The assumptions made about them are premises of the theorems.

  \<^bold>\<open>Not modelled.\<close> The API reads themselves and cluster discovery (\<open>internal/collect\<close> but for \<open>FactsFrom\<close>,
  \<open>internal/cluster\<close>, \<open>internal/platform\<close>): client calls. The renderers (\<open>internal/report\<close>,
  \<open>internal/htmlreport\<close>, \<open>internal/sarif\<close>, \<open>internal/dashboard\<close>, \<open>internal/jsonschema\<close>, \<open>internal/schemadoc\<close>), the
  terminal modes and signals around the loop of \<open>internal/tui\<close>, the Prometheus text and HTTP endpoints of \<open>internal/watch\<close> and the
  encoding and delivery of alerts (\<open>internal/alert\<close>): output formats. The audit file (\<open>internal/audit\<close>) and the fleet file
  (\<open>internal/fleetfile\<close>): file access through library decoders. Investigation and explanation
  (\<open>internal/investigate\<close>, \<open>internal/explain\<close>) and \<open>internal/mcp\<close>: prompts, tool calls and a third-party protocol library.
  \<open>internal/knownissues\<close>, \<open>internal/remediation\<close>, \<open>internal/advisory\<close> and \<open>internal/policypack\<close>: mostly tables of text. The command line
  (\<open>internal/cli\<close> but for the baseline samples), the generators of the fuzz tests and everything outside Go.
\<close>

section \<open>The gate over a policy run\<close>

text \<open>The options of a gate that was handed the outcome of a policy evaluation.\<close>

definition with_policy :: "violation list \<times> unevaluated list \<Rightarrow> gate_options \<Rightarrow> gate_options" where
  "with_policy outcome opts = opts\<lparr>go_violations := fst outcome, go_not_evaluated := snd outcome\<rparr>"

lemma policy_findings:
  "x \<in> set (go_not_evaluated opts) \<Longrightarrow> from_unevaluated x \<in> set (all_findings res opts)"
  "v \<in> set (go_violations opts) \<Longrightarrow> from_violation v \<in> set (all_findings res opts)"
  by (simp_all add: all_findings_def from_policy_def)

lemma check_level: "object_violation u n inp r segs o' = Some v \<Longrightarrow> v_level v = r_level r"
  by (auto simp: object_violation_def split: option.splits if_splits dest!: check_object)
    (metis violation.select_convs(2) violation_for_def)

text \<open>
  C1. A passing gate means that the operator's rules were enforced. If the rules come from a successful
  load, were evaluated over the cluster, and the unscoped gate passes, then every rule whose level reaches
  the threshold was evaluated, and every object it selects satisfies it.
\<close>

theorem gate_pass_enforces_policy:
  assumes load: "load u decode docs = Inr rules" and r: "r \<in> set rules"
    and level: "go_fail_on opts \<le> policy_level (r_level r)" and "go_scope_kind opts = []"
    and pass: "gv_code (decide res (with_policy (evaluate u n rules inp) opts)) = CodePass"
  shows "unreadable_for r inp = [] \<and>
    (\<forall>obj segs. Some obj \<in> set (mget_zero [] (i_objects inp) (m_kind (r_match r))) \<longrightarrow>
      policy_matches (r_match r) obj (namespace_label_index (i_namespaces inp)) \<longrightarrow>
      rule_segments r = Inr segs \<longrightarrow> check u n r segs obj inp = None)"
proof -
  let ?opts = "with_policy (evaluate u n rules inp) opts"
  have none: "\<not> go_fail_on opts \<le> gf_level f" if "f \<in> set (all_findings res ?opts)" for f
  proof -
    have "\<not> Gate.counted ?opts f" using pass that by (auto simp: gate_code split: if_splits)
    then show ?thesis using assms(4) by (simp add: Gate.counted_def in_scope_def with_policy_def)
  qed
  have evaluated: "unreadable_for r inp = []"
  proof (rule ccontr)
    assume "unreadable_for r inp \<noteq> []"
    then obtain x where "x \<in> set (rule_unevaluated r inp)" "ne_level x = r_level r"
      by (auto simp: rule_unevaluated_def)
    with r have "x \<in> set (go_not_evaluated ?opts)" by (auto simp: with_policy_def evaluate_def)
    then have "\<not> go_fail_on opts \<le> policy_level (ne_level x)"
      using none [OF policy_findings(1)] by (simp add: unevaluated_finding)
    with level \<open>ne_level x = r_level r\<close> show False by simp
  qed
  moreover have "check u n r segs obj inp = None"
    if "Some obj \<in> set (mget_zero [] (i_objects inp) (m_kind (r_match r)))"
      and "policy_matches (r_match r) obj (namespace_label_index (i_namespaces inp))"
      and "rule_segments r = Inr segs" for obj segs
  proof (cases "check u n r segs obj inp")
    case (Some v)
    with that(2) have ov: "object_violation u n inp r segs (Some obj) = Some v" by (simp add: object_violation_def)
    with that evaluated have "v \<in> set (rule_violations u n r inp)"
      by (auto simp: rule_violations_def set_map_filter)
    with r have "v \<in> set (go_violations ?opts)" by (auto simp: with_policy_def evaluate_def)
    then have "\<not> go_fail_on opts \<le> policy_level (v_level v)"
      using none [OF policy_findings(2)] by (simp add: from_violation_def)
    with level check_level [OF ov] show ?thesis by simp
  qed
  ultimately show ?thesis by blast
qed

text \<open>A gate at critical over the warning-level rule of \<open>Policy_Load\<close> passes; at warning it would not.\<close>

definition gate_at :: "level \<Rightarrow> gate_options" where
  "gate_at l = \<lparr>go_fail_on = l, go_scope_kind = [], go_scope_name = [], go_scope_namespace = [], go_allow_partial = [],
     go_timed_out = False, go_timeout_detail = [], go_violations = [], go_not_evaluated = [], go_baseline = None\<rparr>"

lemma empty_flatten: "flatten empty_scan = []"
  by (simp add: flatten_def empty_scan_def sort_findings_def)

definition shop_map :: uobj where
  "shop_map = stray_map\<lparr>u_object := [(''metadata'', JObj [(''labels'', JObj [(''app/name'', JStr ''shop'')])])]\<rparr>"

definition labelled_map :: "(string, uobj option list) gomap" where
  "labelled_map = [(''ConfigMap'', [Some shop_map])]"

lemma shop_map_passes:
  "check small_tables plain_numbers name_rule
     [seg ''metadata'' False, seg ''labels'' False, seg ''app/name'' False] shop_map inp = None"
proof -
  have "slots_of shop_map [seg ''metadata'' False, seg ''labels'' False, seg ''app/name'' False] = [present (JStr ''shop'')]"
    by (simp add: slots_of_def successors_def shop_map_def)
  moreover have "\<not> violates plain_numbers name_rule (present (JStr ''shop''))"
    by (simp add: violates_def check_op_def string_of_def name_rule_def)
  moreover have "a_relation (r_assert name_rule) = []" by (simp add: name_rule_def)
  ultimately show ?thesis by (simp add: check_slots)
qed

theorem gate_pass_enforces_policy_witness:
  "gv_code (decide empty_scan (with_policy (evaluate small_tables plain_numbers [name_rule] (inputs_from labelled_map []))
     (gate_at Warning))) = CodePass \<and> unreadable_for name_rule (inputs_from labelled_map []) = []"
proof -
  let ?inp = "inputs_from labelled_map []"
  have "unreadable_for name_rule ?inp = []"
    by (simp add: unreadable_for_def is_unreadable_def inputs_from_def mget_zero_def name_rule_def)
  moreover have "mget_zero [] (i_objects ?inp) (m_kind (r_match name_rule)) = [Some shop_map]"
    by (simp add: inputs_from_def mget_zero_def labelled_map_def name_rule_def)
  ultimately have "evaluate small_tables plain_numbers [name_rule] ?inp = ([], [])"
    by (simp add: evaluate_def rule_violations_def rule_unevaluated_def name_rule_segments object_violation_def
        shop_map_passes)
  moreover have "sr_partial_reads empty_scan = []" by (simp add: empty_scan_def)
  ultimately have pass: "gv_code (decide empty_scan (with_policy (evaluate small_tables plain_numbers [name_rule] ?inp)
      (gate_at Warning))) = CodePass"
    by (simp add: gate_code with_policy_def all_findings_def empty_flatten from_policy_def from_baseline_def gate_at_def
        blind_read_def sort_findings_def)
  moreover have "unreadable_for name_rule ?inp = []"
    using gate_pass_enforces_policy [OF load_name_rule _ _ _ pass, of name_rule]
    by (simp add: gate_at_def name_rule_def policy_level_def)
  ultimately show ?thesis by blast
qed

end
